(* ===== verification/Prelude.thy ===== *)
theory Prelude
  imports Main "HOL-Library.Word" "HOL-Library.Char_ord" "HOL-Library.List_Lexorder"
begin

text \<open>
  What every component theory of the development shares: the exceptions the C++ code throws as
  values of one datatype, the result type built on it, the character classes of the C locale, the
  scanning loops over string iterators, decimal numerals, and the generic facts on lists, maps and
  words the component proofs rest on. The collections \<open>scan_simps\<close>, \<open>word_codec\<close> and
  \<open>osp_defs\<close> gather the rewrite rules of the groups of proofs that share them.
\<close>

named_theorems scan_simps \<open>facts about the scanning loops over iterators\<close>
named_theorems word_codec \<open>facts about splitting words into bytes and joining them\<close>
named_theorems osp_defs \<open>definitions unfolded together in the service framework proofs\<close>

section \<open>Exceptions as values\<close>

text \<open>
  One constructor per exception class the modelled code throws. \<open>SignedOverflow\<close> stands for a signed
  \<open>int\<close> computation that leaves the range of the type (undefined behaviour in C++),
  \<open>AssertionViolation\<close> for a failed \<open>poco_assert\<close>.
\<close>

datatype exc =
    SyntaxException string
  | NotFoundException string
  | ExistsException string
  | NullPointerException
  | InvalidArgument string
  | OutOfRange string
  | LengthError string
  | LogicError string
  | RuntimeError string
  | ManifestException string string
  | BundleStateException string
  | BundleUninstallException string
  | BundleResolveException string
  | BundleLoadException string
  | BundleSealedException string
  | AssertionViolation
  | SignedOverflow
  | OtherException string

text \<open>The message of a Poco exception built from a message and an argument.\<close>

definition poco_message :: "string \<Rightarrow> string \<Rightarrow> string" where
  "poco_message msg arg = (if arg = [] then msg else msg @ '': '' @ arg)"

type_synonym 'a res = "exc + 'a"

definition rbind :: "'a res \<Rightarrow> ('a \<Rightarrow> 'b res) \<Rightarrow> 'b res" where
  "rbind r f = (case r of Inl e \<Rightarrow> Inl e | Inr x \<Rightarrow> f x)"

lemma rbind_simps [simp]:
  "rbind (Inl e) f = Inl e"
  "rbind (Inr x) f = f x"
  by (simp_all add: rbind_def)

lemma rbind_eq_Inr: "rbind r f = Inr y \<longleftrightarrow> (\<exists>x. r = Inr x \<and> f x = Inr y)"
  by (cases r) auto

lemma rbind_eq_Inl: "rbind r f = Inl e \<longleftrightarrow> r = Inl e \<or> (\<exists>x. r = Inr x \<and> f x = Inl e)"
  by (cases r) auto

lemma rbind_assoc: "rbind (rbind r f) g = rbind r (\<lambda>x. rbind (f x) g)"
  by (cases r) auto

text \<open>
  Functions whose loops take fuel: \<open>None\<close> is running out of it, which \<open>obind\<close> passes on like an
  exception.
\<close>

definition obind :: "'a res option \<Rightarrow> ('a \<Rightarrow> 'b res option) \<Rightarrow> 'b res option" where
  "obind r f = (case r of None \<Rightarrow> None | Some (Inl e) \<Rightarrow> Some (Inl e) | Some (Inr x) \<Rightarrow> f x)"

lemma obind_simps [simp]:
  "obind None f = None" "obind (Some (Inl e)) f = Some (Inl e)" "obind (Some (Inr x)) f = f x"
  by (simp_all add: obind_def)

lemma obind_Some_Inr: "obind r f = Some (Inr y) \<longleftrightarrow> (\<exists>x. r = Some (Inr x) \<and> f x = Some (Inr y))"
  by (auto simp: obind_def split: option.splits sum.splits)

definition returns :: "'a res option \<Rightarrow> bool" where
  "returns r \<longleftrightarrow> r \<noteq> None"

lemma returns_simps [simp]:
  "returns (Some x)" "\<not> returns None"
  "returns (obind r f) \<longleftrightarrow> returns r \<and> (\<forall>x. r = Some (Inr x) \<longrightarrow> returns (f x))"
  by (auto simp: returns_def obind_def split: option.splits sum.splits)

section \<open>Characters of the C locale\<close>

definition isdigit :: "char \<Rightarrow> bool" where
  "isdigit c \<longleftrightarrow> 48 \<le> (of_char c :: nat) \<and> (of_char c :: nat) \<le> 57"

definition isspace :: "char \<Rightarrow> bool" where
  "isspace c \<longleftrightarrow> (of_char c :: nat) = 32 \<or> (9 \<le> (of_char c :: nat) \<and> (of_char c :: nat) \<le> 13)"

definition isxdigit :: "char \<Rightarrow> bool" where
  "isxdigit c \<longleftrightarrow> isdigit c \<or> (65 \<le> (of_char c :: nat) \<and> (of_char c :: nat) \<le> 70)
     \<or> (97 \<le> (of_char c :: nat) \<and> (of_char c :: nat) \<le> 102)"

definition isalpha :: "char \<Rightarrow> bool" where
  "isalpha c \<longleftrightarrow> (65 \<le> (of_char c :: nat) \<and> (of_char c :: nat) \<le> 90)
     \<or> (97 \<le> (of_char c :: nat) \<and> (of_char c :: nat) \<le> 122)"

definition tolower :: "char \<Rightarrow> char" where
  "tolower c = (if 65 \<le> (of_char c :: nat) \<and> (of_char c :: nat) \<le> 90
                then char_of ((of_char c :: nat) + 32) else c)"

lemma tolower_idem [simp]: "tolower (tolower c) = tolower c"
proof (cases "65 \<le> (of_char c :: nat) \<and> (of_char c :: nat) \<le> 90")
  case True
  then have "of_char (tolower c) = (of_char c :: nat) + 32"
    by (simp add: tolower_def)
  with True show ?thesis by (simp add: tolower_def)
next
  case False
  then have "tolower c = c" by (auto simp: tolower_def)
  then show ?thesis by simp
qed

section \<open>Scanning loops\<close>

text \<open>
  The loop \<open>while (it != end && p(*it)) acc += *it++;\<close> over a string iterator: what it appends is
  \<open>takeWhile p\<close> of the rest of the string, and it leaves \<open>dropWhile p\<close> of it.
\<close>

definition scan :: "(char \<Rightarrow> bool) \<Rightarrow> string \<Rightarrow> string \<times> string" where
  "scan p s = (takeWhile p s, dropWhile p s)"

definition skip_ws :: "string \<Rightarrow> string" where
  "skip_ws s = dropWhile isspace s"

lemma scan_append_stop [scan_simps]:
  assumes "\<forall>c \<in> set xs. p c" and "rest = [] \<or> \<not> p (hd rest)"
  shows "scan p (xs @ rest) = (xs, rest)"
proof -
  have "takeWhile p rest = [] \<and> dropWhile p rest = rest"
    using assms(2) by (cases rest) auto
  with assms(1) show ?thesis
    by (simp add: scan_def takeWhile_append2 dropWhile_append2)
qed

lemma scan_whole [scan_simps]: "\<forall>c \<in> set xs. p c \<Longrightarrow> scan p xs = (xs, [])"
  using scan_append_stop [of xs p "[]"] by simp

lemma length_dropWhile_le' [simp]: "length (dropWhile p xs) \<le> length xs"
  by (rule length_dropWhile_le)

lemma skip_ws_length [simp]: "length (skip_ws s) \<le> length s"
  by (simp add: skip_ws_def)

lemma skip_ws_none [scan_simps]: "s = [] \<or> \<not> isspace (hd s) \<Longrightarrow> skip_ws s = s"
  by (cases s) (auto simp: skip_ws_def)

lemma skip_ws_idem [simp]: "skip_ws (skip_ws s) = skip_ws s"
  by (simp add: skip_ws_def)

section \<open>Decimal numerals\<close>

definition digit_char :: "nat \<Rightarrow> char" where
  "digit_char d = char_of (48 + d)"

fun decimal :: "nat \<Rightarrow> string" where
  "decimal n = (if n < 10 then [digit_char n] else decimal (n div 10) @ [digit_char (n mod 10)])"

declare decimal.simps [simp del]

lemma of_digit_char [simp]: "d < 10 \<Longrightarrow> (of_char (digit_char d) :: nat) = 48 + d"
  by (simp add: digit_char_def)

lemma isdigit_digit_char [simp]: "d < 10 \<Longrightarrow> isdigit (digit_char d)"
  by (simp add: isdigit_def)

lemma decimal_digits: "c \<in> set (decimal n) \<Longrightarrow> isdigit c"
proof (induction n rule: decimal.induct)
  case (1 n)
  then show ?case
    by (cases "n < 10") (auto simp: decimal.simps [of n])
qed

lemma decimal_nonempty [simp]: "decimal n \<noteq> []"
  by (subst decimal.simps) simp

lemma decimal_hd: "isdigit (hd (decimal n))"
  by (rule decimal_digits [of _ n]) simp

section \<open>Association lists kept sorted by key\<close>

text \<open>
  \<open>std::map\<close> is a list of entries sorted by the comparison object of the map; insertion by
  \<open>operator[]\<close> overwrites the value of an equivalent key and keeps the stored key.
\<close>

fun smap_put :: "('k \<Rightarrow> 'k \<Rightarrow> bool) \<Rightarrow> 'k \<Rightarrow> 'v \<Rightarrow> ('k \<times> 'v) list \<Rightarrow> ('k \<times> 'v) list" where
  "smap_put lt k v [] = [(k, v)]"
| "smap_put lt k v ((k', v') # m) =
     (if lt k k' then (k, v) # (k', v') # m
      else if lt k' k then (k', v') # smap_put lt k v m
      else (k', v) # m)"

fun smap_get :: "('k \<Rightarrow> 'k \<Rightarrow> bool) \<Rightarrow> 'k \<Rightarrow> ('k \<times> 'v) list \<Rightarrow> 'v option" where
  "smap_get lt k [] = None"
| "smap_get lt k ((k', v') # m) =
     (if lt k k' then None else if lt k' k then smap_get lt k m else Some v')"

fun smap_del :: "('k \<Rightarrow> 'k \<Rightarrow> bool) \<Rightarrow> 'k \<Rightarrow> ('k \<times> 'v) list \<Rightarrow> ('k \<times> 'v) list" where
  "smap_del lt k [] = []"
| "smap_del lt k ((k', v') # m) =
     (if lt k k' then (k', v') # m else if lt k' k then (k', v') # smap_del lt k m else m)"

text \<open>
  The contract of a comparison object: a strict weak order. Everything the clients of a sorted map
  use is proved once from it; each map of the program interprets the locale on its own comparison.
\<close>

locale strict_weak_order =
  fixes lt :: "'k \<Rightarrow> 'k \<Rightarrow> bool"
  assumes lt_irrefl: "\<not> lt a a"
    and lt_trans: "lt a b \<Longrightarrow> lt b c \<Longrightarrow> lt a c"
    and equiv_trans: "\<not> lt a b \<Longrightarrow> \<not> lt b a \<Longrightarrow> \<not> lt b c \<Longrightarrow> \<not> lt c b \<Longrightarrow> \<not> lt a c"
begin

definition equiv :: "'k \<Rightarrow> 'k \<Rightarrow> bool" where
  "equiv a b \<longleftrightarrow> \<not> lt a b \<and> \<not> lt b a"

definition wf_map :: "('k \<times> 'v) list \<Rightarrow> bool" where
  "wf_map m \<longleftrightarrow> sorted_wrt lt (map fst m)"

lemma lt_asym: "lt a b \<Longrightarrow> \<not> lt b a"
  using lt_irrefl lt_trans by blast

lemma equiv_refl [simp]: "equiv a a"
  by (simp add: equiv_def lt_irrefl)

lemma equiv_sym: "equiv a b \<Longrightarrow> equiv b a"
  by (simp add: equiv_def)

lemma equiv_lt_left: "equiv a b \<Longrightarrow> lt a c \<longleftrightarrow> lt b c"
  unfolding equiv_def by (metis equiv_trans lt_trans)

lemma equiv_lt_right: "equiv a b \<Longrightarrow> lt c a \<longleftrightarrow> lt c b"
  unfolding equiv_def by (metis equiv_trans lt_trans)

lemma set_put: "set (map fst (smap_put lt k v m)) \<subseteq> insert k (set (map fst m))"
  by (induction m) (force split: if_splits)+

lemma put_keeps_wf: "wf_map m \<Longrightarrow> wf_map (smap_put lt k v m)"
proof (induction m)
  case Nil
  then show ?case by (simp add: wf_map_def)
next
  case (Cons e m)
  obtain k' v' where e: "e = (k', v')" by fastforce
  have wf: "wf_map m" and below: "\<forall>x \<in> set (map fst m). lt k' x"
    using Cons.prems by (auto simp: wf_map_def e)
  have "lt k' k \<Longrightarrow> \<forall>x \<in> set (map fst (smap_put lt k v m)). lt k' x"
    using below set_put [of k v m] by (auto simp del: set_map)
  moreover have "lt k k' \<Longrightarrow> \<forall>x \<in> set (map fst m). lt k x"
    using below lt_trans by blast
  ultimately show ?case
    using Cons.IH [OF wf] Cons.prems by (auto simp: e wf_map_def)
qed

lemma del_keeps_wf: "wf_map m \<Longrightarrow> wf_map (smap_del lt k m)"
proof (induction m)
  case Nil
  then show ?case by (simp add: wf_map_def)
next
  case (Cons e m)
  obtain k' v' where e: "e = (k', v')" by fastforce
  have sub: "set (map fst (smap_del lt k m)) \<subseteq> set (map fst m)"
    by (induction m) (force split: if_splits)+
  then have "\<forall>x \<in> set (smap_del lt k m). lt k' (fst x)"
    using Cons.prems by (force simp: e wf_map_def)
  with Cons show ?case by (auto simp: e wf_map_def)
qed

lemma get_put_same:
  assumes "equiv k k2"
  shows "smap_get lt k2 (smap_put lt k v m) = Some v"
proof -
  have "lt k2 x = lt k x" "lt x k2 = lt x k" for x
    using equiv_lt_left [OF assms] equiv_lt_right [OF assms] by auto
  then show ?thesis by (induction m) (auto simp: lt_irrefl dest: lt_asym)
qed

lemma get_below: "\<forall>x \<in> set (map fst m). lt k x \<Longrightarrow> smap_get lt k m = None"
  by (cases m) auto

lemma get_put_other: "\<not> equiv k k2 \<Longrightarrow> wf_map m \<Longrightarrow> smap_get lt k2 (smap_put lt k v m) = smap_get lt k2 m"
proof (induction m)
  case Nil
  then show ?case by (auto simp: equiv_def)
next
  case (Cons e m)
  obtain k' v' where e: "e = (k', v')" by fastforce
  have wf: "wf_map m" and below: "\<forall>x \<in> set (map fst m). lt k' x"
    using Cons.prems by (auto simp: wf_map_def e)
  show ?case
  proof (cases "lt k k'")
    case True
    then show ?thesis using Cons.prems by (auto simp: e equiv_def dest: lt_trans)
  next
    case False
    have "\<not> lt k' k \<Longrightarrow> lt k' k2 \<or> lt k2 k'"
      using False Cons.prems(1) equiv_lt_left [of k k' k2] equiv_lt_right [of k k' k2]
      by (auto simp: equiv_def)
    with False show ?thesis using Cons.IH [OF Cons.prems(1) wf] by (auto simp: e)
  qed
qed

lemma get_del_same: "equiv k k2 \<Longrightarrow> wf_map m \<Longrightarrow> smap_get lt k2 (smap_del lt k m) = None"
proof (induction m)
  case Nil
  then show ?case by simp
next
  case (Cons e m)
  obtain k' v' where e: "e = (k', v')" by fastforce
  have wf: "wf_map m" and below: "\<forall>x \<in> set (map fst m). lt k' x"
    using Cons.prems by (auto simp: wf_map_def e)
  note ord = equiv_lt_left [OF Cons.prems(1)] equiv_lt_right [OF Cons.prems(1)]
  show ?case
  proof (cases "lt k k' \<or> lt k' k")
    case True
    then show ?thesis using Cons.IH [OF Cons.prems(1) wf] ord by (auto simp: e dest: lt_asym)
  next
    case False
    then have "\<forall>x \<in> set (map fst m). lt k2 x"
      using below equiv_lt_left [of k2 k'] ord by (auto simp: equiv_def)
    with False show ?thesis by (simp add: e get_below)
  qed
qed

lemma get_del_other: "\<not> equiv k k2 \<Longrightarrow> wf_map m \<Longrightarrow> smap_get lt k2 (smap_del lt k m) = smap_get lt k2 m"
proof (induction m)
  case Nil
  then show ?case by simp
next
  case (Cons e m)
  obtain k' v' where e: "e = (k', v')" by fastforce
  have wf: "wf_map m" and below: "\<forall>x \<in> set (map fst m). lt k' x"
    using Cons.prems by (auto simp: wf_map_def e)
  show ?case
  proof (cases "lt k k' \<or> lt k' k")
    case True
    then show ?thesis using Cons.IH [OF Cons.prems(1) wf] by (auto simp: e)
  next
    case False
    then have eq: "equiv k k'" by (simp add: equiv_def)
    have ne: "lt k2 k' \<or> lt k' k2"
      using Cons.prems(1) equiv_lt_left [OF eq, of k2] equiv_lt_right [OF eq, of k2]
      by (auto simp: equiv_def)
    then have "lt k2 k' \<Longrightarrow> smap_get lt k2 m = None"
      using below lt_trans by (intro get_below) blast
    with False ne show ?thesis by (auto simp: e)
  qed
qed

lemma put_fresh: "smap_get lt k m = None \<Longrightarrow> set (smap_put lt k v m) = insert (k, v) (set m)"
  by (induction m) (auto split: if_splits)

lemma del_set: "wf_map m \<Longrightarrow> set (smap_del lt k m) = {e \<in> set m. \<not> equiv k (fst e)}"
proof (induction m)
  case Nil
  then show ?case by simp
next
  case (Cons e m)
  obtain k' v' where e: "e = (k', v')" by fastforce
  have wf: "wf_map m" and below: "\<forall>x \<in> set m. lt k' (fst x)"
    using Cons.prems by (auto simp: wf_map_def e)
  have first: "\<not> equiv k (fst x)" if "\<not> lt k' k" "x \<in> set m" for x
    using below equiv_lt_right that by blast
  have self: "equiv k k' \<longleftrightarrow> \<not> lt k k' \<and> \<not> lt k' k" by (simp add: equiv_def)
  consider "lt k k'" "\<not> lt k' k" | "lt k' k" "\<not> lt k k'" | "\<not> lt k k'" "\<not> lt k' k"
    using lt_asym by blast
  then show ?case
  proof cases
    case 1
    then show ?thesis using first [OF 1(2)] self by (auto simp: e)
  next
    case 2
    then have "smap_del lt k (e # m) = (k', v') # smap_del lt k m" "\<not> equiv k (fst e)"
      using self by (simp_all add: e)
    then show ?thesis using Cons.IH [OF wf] e by fastforce
  next
    case 3
    then show ?thesis using first [OF 3(2)] self by (auto simp: e)
  qed
qed

lemma get_in_map: "smap_get lt k m = Some v \<Longrightarrow> \<exists>k'. equiv k k' \<and> (k', v) \<in> set m"
  by (induction m) (auto simp: equiv_def split: if_splits)

lemma entry_is_found: "wf_map m \<Longrightarrow> (k, v) \<in> set m \<Longrightarrow> smap_get lt k m = Some v"
proof (induction m)
  case Nil
  then show ?case by simp
next
  case (Cons e m)
  obtain k' v' where e: "e = (k', v')" by fastforce
  show ?case
  proof (cases "(k, v) = (k', v')")
    case True
    then show ?thesis by (simp add: e lt_irrefl)
  next
    case False
    then have mem: "(k, v) \<in> set m" using Cons.prems e by auto
    then have "lt k' k" using Cons.prems(1) by (force simp: wf_map_def e)
    with mem Cons show ?thesis by (auto simp: e wf_map_def dest: lt_asym)
  qed
qed

end

interpretation string_order: strict_weak_order "(<) :: string \<Rightarrow> string \<Rightarrow> bool"
  by unfold_locales auto

lemma string_equiv [simp]: "string_order.equiv a b \<longleftrightarrow> a = b"
  by (auto simp: string_order.equiv_def)

end
