(* ===== verification/OSP_Version.thy ===== *)
theory OSP_Version
  imports Prelude
begin

text \<open>
  Bundle versions and version ranges: \<open>platform/OSP/src/Version.cpp\<close> and
  \<open>platform/OSP/src/VersionRange.cpp\<close>. A version is a record of three \<open>int\<close> fields and a
  designation; the six comparison operators look at the three numbers only. \<open>Version::parse\<close>
  accumulates digits in an \<open>int\<close>, and every intermediate sum that leaves the range of the type is the
  error \<open>SignedOverflow\<close>. \<open>NumberFormatter::format\<close> belongs to the Poco Foundation library and is the
  parameter \<open>fmt\<close> of \<open>toString\<close>.
\<close>

section \<open>Version\<close>

record version =
  major :: int
  minor :: int
  revision :: int
  designation :: string

definition version_zero :: version where
  "version_zero = \<lparr>major = 0, minor = 0, revision = 0, designation = []\<rparr>"

definition version_of :: "int \<Rightarrow> int \<Rightarrow> int \<Rightarrow> version" where
  "version_of mj mn rv = \<lparr>major = mj, minor = mn, revision = rv, designation = []\<rparr>"

definition version_of4 :: "int \<Rightarrow> int \<Rightarrow> int \<Rightarrow> string \<Rightarrow> version" where
  "version_of4 mj mn rv d = \<lparr>major = mj, minor = mn, revision = rv, designation = d\<rparr>"

definition version_toString :: "(int \<Rightarrow> string) \<Rightarrow> version \<Rightarrow> string" where
  "version_toString fmt v =
     fmt (major v) @ ''.'' @ fmt (minor v) @ ''.'' @ fmt (revision v)
     @ (if designation v \<noteq> [] then ''-'' @ designation v else [])"

definition int_max :: int where
  "int_max = 2147483647"

text \<open>
  \<open>maj = 10*maj + *it++ - '0'\<close>: the sum with the character code is formed first, then 48 is
  subtracted, so the sum itself must fit.
\<close>

definition digit_step :: "int \<Rightarrow> char \<Rightarrow> int res" where
  "digit_step n c = (if 10 * n + int (of_char c) > int_max then Inl SignedOverflow
                     else Inr (10 * n + int (of_char c) - 48))"

fun parse_number :: "int \<Rightarrow> string \<Rightarrow> (int \<times> string) res" where
  "parse_number n [] = Inr (n, [])"
| "parse_number n (c # s) =
     (if isdigit c then rbind (digit_step n c) (\<lambda>n'. parse_number n' s) else Inr (n, c # s))"

text \<open>
  The body of \<open>Version::parse\<close> up to the final test \<open>it == end\<close>: the values of the four locals and
  the rest of the string. Reading \<open>*it\<close> of the empty string yields its terminating NUL, which is
  not a digit.
\<close>

definition parse_fields :: "string \<Rightarrow> ((int \<times> int \<times> int \<times> string) \<times> string) res" where
  "parse_fields str =
     (if str = [] \<or> \<not> isdigit (hd str) then Inr ((0, 0, 0, []), str)
      else rbind (parse_number 0 str) (\<lambda>(mj, s1).
        case s1 of c1 # t1 \<Rightarrow>
          if c1 = CHR ''.'' then
            rbind (parse_number 0 t1) (\<lambda>(mn, s2).
              case s2 of c2 # t2 \<Rightarrow>
                if c2 = CHR ''.'' then
                  rbind (parse_number 0 t2) (\<lambda>(rv, s3).
                    case s3 of c3 # t3 \<Rightarrow>
                      if c3 = CHR ''-'' then Inr ((mj, mn, rv, t3), [])
                      else Inr ((mj, mn, rv, []), s3)
                    | [] \<Rightarrow> Inr ((mj, mn, rv, []), []))
                else Inr ((mj, mn, 0, []), s2)
              | [] \<Rightarrow> Inr ((mj, mn, 0, []), []))
          else Inr ((mj, 0, 0, []), s1)
        | [] \<Rightarrow> Inr ((mj, 0, 0, []), [])))"

definition version_parse :: "string \<Rightarrow> version res" where
  "version_parse str = rbind (parse_fields str) (\<lambda>((mj, mn, rv, d), rest).
     if rest = [] then Inr (version_of4 mj mn rv d)
     else Inl (SyntaxException (''Not a valid version number: '' @ str)))"

definition version_eq :: "version \<Rightarrow> version \<Rightarrow> bool" where
  "version_eq v w \<longleftrightarrow> major v = major w \<and> minor v = minor w \<and> revision v = revision w"

definition version_ne :: "version \<Rightarrow> version \<Rightarrow> bool" where
  "version_ne v w \<longleftrightarrow> major v \<noteq> major w \<or> minor v \<noteq> minor w \<or> revision v \<noteq> revision w"

definition version_lt :: "version \<Rightarrow> version \<Rightarrow> bool" where
  "version_lt v w =
     (if major v < major w then True
      else if major v = major w then
        (if minor v < minor w then True
         else if minor v = minor w then revision v < revision w else False)
      else False)"

definition version_le :: "version \<Rightarrow> version \<Rightarrow> bool" where
  "version_le v w =
     (if major v < major w then True
      else if major v = major w then
        (if minor v < minor w then True
         else if minor v = minor w then revision v \<le> revision w else False)
      else False)"

definition version_gt :: "version \<Rightarrow> version \<Rightarrow> bool" where
  "version_gt v w =
     (if major v > major w then True
      else if major v = major w then
        (if minor v > minor w then True
         else if minor v = minor w then revision v > revision w else False)
      else False)"

definition version_ge :: "version \<Rightarrow> version \<Rightarrow> bool" where
  "version_ge v w =
     (if major v > major w then True
      else if major v = major w then
        (if minor v > minor w then True
         else if minor v = minor w then revision v \<ge> revision w else False)
      else False)"

section \<open>VersionRange\<close>

record version_range =
  lower :: version
  upper :: version
  includeLower :: bool
  includeUpper :: bool

definition range_empty :: version_range where
  "range_empty = \<lparr>lower = version_zero, upper = version_zero,
                  includeLower = False, includeUpper = False\<rparr>"

definition range_exact :: "version \<Rightarrow> version_range" where
  "range_exact v = \<lparr>lower = v, upper = v, includeLower = True, includeUpper = True\<rparr>"

definition range_of :: "version \<Rightarrow> bool \<Rightarrow> version \<Rightarrow> bool \<Rightarrow> version_range res" where
  "range_of lo il up iu =
     (if version_le lo up
      then Inr \<lparr>lower = lo, upper = up, includeLower = il, includeUpper = iu\<rparr>
      else Inl AssertionViolation)"

definition isInRange :: "version_range \<Rightarrow> version \<Rightarrow> bool" where
  "isInRange r v \<longleftrightarrow>
     ((includeLower r \<and> version_eq v (lower r)) \<or> version_gt v (lower r)) \<and>
     ((includeUpper r \<and> version_eq v (upper r)) \<or> version_lt v (upper r))"

definition range_isEmpty :: "version_range \<Rightarrow> bool" where
  "range_isEmpty r \<longleftrightarrow> version_eq (lower r) (upper r) \<and> \<not> includeLower r"

definition range_toString :: "(int \<Rightarrow> string) \<Rightarrow> version_range \<Rightarrow> string" where
  "range_toString fmt r =
     (if includeLower r then ''['' else ''('')
     @ (if \<not> range_isEmpty r
        then version_toString fmt (lower r) @ '','' @ version_toString fmt (upper r) else [])
     @ (if includeUpper r then '']'' else '')'')"

section \<open>The order of versions\<close>

text \<open>
  What a client of versions relies on: the six operators describe one total preorder. The facts on
  ranges are proved from these laws alone and hold for the model's versions by interpretation.
\<close>

locale version_order =
  fixes eq ne lt le gt ge :: "'v \<Rightarrow> 'v \<Rightarrow> bool"
  assumes eq_refl: "eq a a"
    and eq_sym: "eq a b \<Longrightarrow> eq b a"
    and ne_iff: "ne a b \<longleftrightarrow> \<not> eq a b"
    and gt_iff: "gt a b \<longleftrightarrow> lt b a"
    and ge_iff: "ge a b \<longleftrightarrow> le b a"
    and le_iff: "le a b \<longleftrightarrow> lt a b \<or> eq a b"
    and le_trans: "le a b \<Longrightarrow> le b c \<Longrightarrow> le a c"
    and le_antisym: "le a b \<Longrightarrow> le b a \<Longrightarrow> eq a b"
    and le_total: "le a b \<or> le b a"
    and lt_not_le: "lt a b \<longleftrightarrow> \<not> le b a"
begin

definition between :: "'v \<Rightarrow> bool \<Rightarrow> 'v \<Rightarrow> bool \<Rightarrow> 'v \<Rightarrow> bool" where
  "between lo il up iu v \<longleftrightarrow> (il \<and> eq v lo \<or> gt v lo) \<and> (iu \<and> eq v up \<or> lt v up)"

lemma eq_le: "eq a b \<longleftrightarrow> le a b \<and> le b a"
  using eq_sym le_antisym le_iff by blast

lemma eq_trans: "eq a b \<Longrightarrow> eq b c \<Longrightarrow> eq a c"
  using eq_le le_trans by blast

lemma trichotomy: "lt a b \<and> \<not> eq a b \<and> \<not> gt a b \<or> \<not> lt a b \<and> eq a b \<and> \<not> gt a b
    \<or> \<not> lt a b \<and> \<not> eq a b \<and> gt a b"
  using eq_le gt_iff lt_not_le le_total by blast

lemma between_bounds: "between lo il up iu v \<Longrightarrow> le lo v \<and> le v up"
  unfolding between_def using le_iff gt_iff eq_sym by blast

lemma between_closed: "between lo True up True v \<longleftrightarrow> le lo v \<and> le v up"
  unfolding between_def using le_iff gt_iff eq_sym by blast

lemma between_point: "eq lo up \<Longrightarrow> between lo il up iu v \<longleftrightarrow> il \<and> iu \<and> eq v lo"
  unfolding between_def eq_le gt_iff lt_not_le using le_trans le_total by blast

lemma between_cong: "eq v w \<Longrightarrow> between lo il up iu v \<longleftrightarrow> between lo il up iu w"
  unfolding between_def eq_le gt_iff lt_not_le using le_trans by blast

end

lemmas version_ops = version_eq_def version_ne_def version_lt_def version_le_def version_gt_def
  version_ge_def

interpretation versions: version_order version_eq version_ne version_lt version_le version_gt
  version_ge
  by unfold_locales (auto simp: version_ops split: if_splits)

lemma isInRange_between:
  "isInRange r v \<longleftrightarrow> versions.between (lower r) (includeLower r) (upper r) (includeUpper r) v"
  by (simp add: isInRange_def versions.between_def)

text \<open>
  the six comparison operators of \<open>Version\<close> are mutually consistent and form a total preorder:
  exactly one of \<open><\<close>, \<open>==\<close>, \<open>>\<close> holds, the other three are their unions and complement, and
  \<open><=\<close> is transitive and total.
\<close>

theorem version_comparison_total_preorder:
  "(version_lt a b \<and> \<not> version_eq a b \<and> \<not> version_gt a b
    \<or> \<not> version_lt a b \<and> version_eq a b \<and> \<not> version_gt a b
    \<or> \<not> version_lt a b \<and> \<not> version_eq a b \<and> version_gt a b)
   \<and> (version_le a b \<longleftrightarrow> version_lt a b \<or> version_eq a b)
   \<and> (version_ge a b \<longleftrightarrow> version_gt a b \<or> version_eq a b)
   \<and> (version_ne a b \<longleftrightarrow> \<not> version_eq a b)
   \<and> (version_le a b \<or> version_le b a)
   \<and> (version_le a b \<and> version_le b c \<longrightarrow> version_le a c)"
  using versions.trichotomy [of a b] versions.le_iff [of a b] versions.ne_iff [of a b]
    versions.le_total [of a b] versions.le_trans [of a b c] versions.le_iff [of b a]
    versions.ge_iff [of a b] versions.gt_iff [of a b] versions.eq_sym [of a b]
    versions.eq_sym [of b a]
  by blast

theorem version_comparison_total_preorder_witness:
  "version_le (version_of 1 2 3) (version_of 1 3 0) \<and> version_le (version_of 1 3 0) (version_of 2 0 0)
   \<and> version_le (version_of 1 2 3) (version_of 2 0 0)"
proof -
  have h: "version_le (version_of 1 2 3) (version_of 1 3 0)"
    "version_le (version_of 1 3 0) (version_of 2 0 0)"
    by (simp_all add: version_of_def version_le_def)
  then show ?thesis
    using version_comparison_total_preorder [of "version_of 1 2 3" "version_of 1 3 0" "version_of 2 0 0"]
    by blast
qed

section \<open>Parsing and printing\<close>

lemma parse_number_append:
  assumes "\<And>c. c \<in> set ds \<Longrightarrow> isdigit c" and "rest = [] \<or> \<not> isdigit (hd rest)"
  shows "parse_number n (ds @ rest) = rbind (parse_number n ds) (\<lambda>(m, s). Inr (m, rest))"
  using assms(1)
proof (induction ds arbitrary: n)
  case Nil
  then show ?case using assms(2) by (cases rest) auto
next
  case (Cons d ds)
  then show ?case by (auto simp: rbind_assoc intro!: arg_cong2 [where f = rbind])
qed

lemma parse_number_snoc:
  assumes "\<And>c. c \<in> set ds \<Longrightarrow> isdigit c" and "isdigit d"
    and "parse_number n ds = Inr (m, [])"
  shows "parse_number n (ds @ [d]) = rbind (digit_step m d) (\<lambda>k. Inr (k, []))"
  using assms
proof (induction ds arbitrary: n)
  case Nil
  then show ?case by simp
next
  case (Cons c ds)
  then show ?case by (auto simp: rbind_eq_Inr)
qed

text \<open>
  The largest number the loop reads without leaving the range of \<open>int\<close> is 48 below the largest
  \<open>int\<close>, because the character code is added before 48 is subtracted.
\<close>

lemma parse_number_decimal: "int n + 48 \<le> int_max \<Longrightarrow> parse_number 0 (decimal n) = Inr (int n, [])"
proof (induction n rule: decimal.induct)
  case (1 n)
  show ?case
  proof (cases "n < 10")
    case True
    then show ?thesis by (simp add: decimal.simps [of n] digit_step_def int_max_def)
  next
    case False
    have "int (n div 10) + 48 \<le> int_max" using "1.prems" by linarith
    then have IH: "parse_number 0 (decimal (n div 10)) = Inr (int (n div 10), [])"
      using "1.IH" False by simp
    have "10 * int (n div 10) + int (n mod 10) = int n" by presburger
    then have "digit_step (int (n div 10)) (digit_char (n mod 10)) = Inr (int n)"
      using "1.prems" by (simp add: digit_step_def)
    then show ?thesis
      using False parse_number_snoc [OF decimal_digits _ IH, where d = "digit_char (n mod 10)"]
      by (simp add: decimal.simps [of n])
  qed
qed

lemma parse_number_decimal_rest:
  assumes "int n + 48 \<le> int_max" and "rest = [] \<or> \<not> isdigit (hd rest)"
  shows "parse_number 0 (decimal n @ rest) = Inr (int n, rest)"
  using parse_number_append [of "decimal n", OF decimal_digits assms(2), where n = 0] parse_number_decimal [OF assms(1)]
  by simp

definition formats_decimal :: "(int \<Rightarrow> string) \<Rightarrow> bool" where
  "formats_decimal fmt \<longleftrightarrow> (\<forall>n. fmt (int n) = decimal n)"

definition printable_field :: "int \<Rightarrow> bool" where
  "printable_field n \<longleftrightarrow> 0 \<le> n \<and> n + 48 \<le> int_max"

lemma isdigit_separators [simp]: "\<not> isdigit (CHR ''.'')" "\<not> isdigit (CHR ''-'')"
  by (simp_all add: isdigit_def)

lemma version_parse_decimal:
  assumes "int a + 48 \<le> int_max" and "int b + 48 \<le> int_max" and "int c + 48 \<le> int_max"
  shows "version_parse (decimal a @ ''.'' @ decimal b @ ''.'' @ decimal c @ (if d \<noteq> [] then ''-'' @ d else []))
         = Inr (version_of4 (int a) (int b) (int c) d)"
proof -
  have n3: "parse_number 0 (decimal c @ (if d \<noteq> [] then ''-'' @ d else []))
      = Inr (int c, if d \<noteq> [] then ''-'' @ d else [])"
    by (rule parse_number_decimal_rest [OF assms(3)]) simp
  have n2: "parse_number 0 (decimal b @ CHR ''.'' # r) = Inr (int b, CHR ''.'' # r)" for r
    by (rule parse_number_decimal_rest [OF assms(2)]) simp
  have n1: "parse_number 0 (decimal a @ CHR ''.'' # r) = Inr (int a, CHR ''.'' # r)" for r
    by (rule parse_number_decimal_rest [OF assms(1)]) simp
  have hd: "isdigit (hd (decimal a @ r))" for r
    using decimal_hd [of a] by simp
  show ?thesis
    using n1 n2 n3 hd by (cases d) (simp_all add: version_parse_def parse_fields_def)
qed

lemma version_text_parses:
  assumes "formats_decimal fmt"
    and "printable_field (major v)" and "printable_field (minor v)" and "printable_field (revision v)"
  shows "version_parse (version_toString fmt v) = Inr v"
proof -
  have fmt: "fmt n = decimal (nat n)" if "0 \<le> n" for n
    using assms(1) that by (metis formats_decimal_def nat_0_le)
  show ?thesis
    using assms(2-4)
      version_parse_decimal [of "nat (major v)" "nat (minor v)" "nat (revision v)" "designation v"]
    by (simp add: version_toString_def printable_field_def fmt version_of4_def)
qed

text \<open>
  printing a version and parsing the result gives the version back, for every designation,
  provided the three numbers are non-negative and at most 48 below the largest \<open>int\<close> (above that
  the digit loop overflows) and the number formatter prints decimal numerals.
\<close>

theorem version_parse_toString:
  assumes "formats_decimal fmt"
    and "printable_field (major v)" and "printable_field (minor v)" and "printable_field (revision v)"
  shows "version_parse (version_toString fmt v) = Inr v"
  using assms by (rule version_text_parses)

theorem version_parse_toString_witness:
  "version_parse (version_toString (\<lambda>n. decimal (nat n)) (version_of4 1 20 3 ''beta'')) = Inr (version_of4 1 20 3 ''beta'')"
  by (rule version_parse_toString)
    (simp_all add: formats_decimal_def printable_field_def version_of4_def int_max_def)

text \<open>
  the digit loop of \<open>Version::parse\<close> overflows \<open>int\<close> on numbers that fit \<open>int\<close>: the largest
  \<open>int\<close> itself, in decimal, is not read, while 2147483599 is.
\<close>

theorem version_parse_overflow:
  "version_parse (decimal 2147483647) = Inl SignedOverflow \<and>
   version_parse (decimal 2147483599) = Inr (version_of 2147483599 0 0)"
proof
  have "parse_number 0 (decimal 214748364) = Inr (214748364, [])"
    using parse_number_decimal [of 214748364] by (simp add: int_max_def)
  then have "parse_number 0 (decimal 214748364 @ [digit_char 7])
      = rbind (digit_step 214748364 (digit_char 7)) (\<lambda>k. Inr (k, []))"
    using parse_number_snoc [OF decimal_digits] by simp
  then have "parse_number 0 (decimal 2147483647) = Inl SignedOverflow"
    by (simp add: decimal.simps [of 2147483647] digit_step_def int_max_def)
  then show "version_parse (decimal 2147483647) = Inl SignedOverflow"
    by (simp add: version_parse_def parse_fields_def decimal_hd)
  have "parse_number 0 (decimal 2147483599) = Inr (2147483599, [])"
    using parse_number_decimal [of 2147483599] by (simp add: int_max_def)
  then show "version_parse (decimal 2147483599) = Inr (version_of 2147483599 0 0)"
    by (simp add: version_parse_def parse_fields_def decimal_hd version_of_def version_of4_def)
qed

section \<open>Ranges\<close>

text \<open>
  a range built by the constructor holds exactly the versions between its bounds, a bound itself
  belonging to the range only when it is included, and membership ignores the designation.
\<close>

theorem range_membership:
  assumes "range_of lo il up iu = Inr r"
  shows "(isInRange r v \<longleftrightarrow> version_le lo v \<and> version_le v up
            \<and> (version_eq v lo \<longrightarrow> il) \<and> (version_eq v up \<longrightarrow> iu))
         \<and> isInRange r (v\<lparr>designation := d\<rparr>) = isInRange r v"
proof -
  have r: "r = \<lparr>lower = lo, upper = up, includeLower = il, includeUpper = iu\<rparr>"
    using assms by (auto simp: range_of_def split: if_splits)
  show ?thesis
    by (auto simp: r isInRange_def version_ops split: if_splits)
qed

theorem range_membership_witness:
  "isInRange \<lparr>lower = version_of 1 0 0, upper = version_of 2 0 0, includeLower = True, includeUpper = False\<rparr> (version_of 1 5 0)
   \<and> \<not> isInRange \<lparr>lower = version_of 1 0 0, upper = version_of 2 0 0, includeLower = True, includeUpper = False\<rparr> (version_of 2 0 0)"
proof -
  have h: "range_of (version_of 1 0 0) True (version_of 2 0 0) False
    = Inr \<lparr>lower = version_of 1 0 0, upper = version_of 2 0 0, includeLower = True, includeUpper = False\<rparr>"
    by (simp add: range_of_def version_of_def version_le_def)
  show ?thesis
    using range_membership [OF h, of "version_of 1 5 0"] range_membership [OF h, of "version_of 2 0 0"]
    by (simp add: version_of_def version_ops)
qed

text \<open>
  \<open>isEmpty\<close> is sound, a range it calls empty holds no version; but it is not complete, the
  half-open range \<open>[v,v)\<close> holds no version either and is not called empty.
\<close>

theorem range_isEmpty_sound_not_complete:
  "(range_isEmpty r \<longrightarrow> \<not> isInRange r v) \<and>
   (let h = \<lparr>lower = v, upper = v, includeLower = True, includeUpper = False\<rparr>
    in (\<forall>w. \<not> isInRange h w) \<and> \<not> range_isEmpty h \<and> range_of v True v False = Inr h)"
  using versions.between_point [of "lower r" "upper r"] versions.between_point [of v v]
  by (auto simp: isInRange_between range_isEmpty_def Let_def range_of_def versions.eq_refl
      versions.le_iff)

theorem range_isEmpty_sound_not_complete_witness:
  "range_isEmpty range_empty \<and> \<not> isInRange range_empty version_zero"
  using range_isEmpty_sound_not_complete [of range_empty version_zero]
  by (simp add: range_isEmpty_def range_empty_def version_eq_def)

end
