(* ===== verification/OSP_Properties.thy ===== *)
theory OSP_Properties
  imports Prelude
begin

text \<open>
  The property collections of the service framework, \<open>platform/OSP/src/Properties.cpp\<close>: a
  \<open>std::map\<close> from keys to strings whose comparison object is \<open>Poco::icompare(s1, s2) < 0\<close>, with typed
  accessors on top. The functions of Poco Foundation that the service framework calls (the
  case-insensitive comparison, the number parsers and formatters, regular expressions, comparison of
  doubles) are the fields of one record \<open>poco\<close>, a parameter of every definition that uses them; what
  the theorems need of them is stated as a named predicate on the record.
\<close>

section \<open>The functions of Poco Foundation that the code calls\<close>

record 'd poco =
  ilt :: "string \<Rightarrow> string \<Rightarrow> bool"
  parseInt :: "string \<Rightarrow> int res"
  parseInt64 :: "string \<Rightarrow> int res"
  parseFloat :: "string \<Rightarrow> 'd res"
  formatInt :: "int \<Rightarrow> string"
  formatFloat :: "'d \<Rightarrow> string"
  regexCompile :: "string \<Rightarrow> unit res"
  regexMatch :: "string \<Rightarrow> string \<Rightarrow> bool res"
  doubleEq :: "'d \<Rightarrow> 'd \<Rightarrow> bool"
  doubleLt :: "'d \<Rightarrow> 'd \<Rightarrow> bool"
  doubleLe :: "'d \<Rightarrow> 'd \<Rightarrow> bool"
  doubleZero :: "'d"

text \<open>\<open>Poco::icompare\<close> orders strings and identifies exactly those that differ in case only.\<close>

definition icompare_ok :: "'d poco \<Rightarrow> bool" where
  "icompare_ok E \<longleftrightarrow> strict_weak_order (ilt E) \<and>
     (\<forall>a b. \<not> ilt E a b \<and> \<not> ilt E b a \<longleftrightarrow> map tolower a = map tolower b)"

text \<open>\<open>NumberParser::parse\<close> reads back what \<open>NumberFormatter::format\<close> wrote for an \<open>int\<close>.\<close>

definition number_text_ok :: "'d poco \<Rightarrow> bool" where
  "number_text_ok E \<longleftrightarrow>
     (\<forall>n. - 2147483648 \<le> n \<and> n \<le> 2147483647 \<longrightarrow> parseInt E (formatInt E n) = Inr n)"

section \<open>Properties\<close>

type_synonym props = "(string \<times> string) list"

definition PROP_TRUE :: string where "PROP_TRUE = ''true''"
definition PROP_FALSE :: string where "PROP_FALSE = ''false''"

definition props_get :: "'d poco \<Rightarrow> props \<Rightarrow> string \<Rightarrow> string res" where
  "props_get E p key = (case smap_get (ilt E) key p of
     Some v \<Rightarrow> Inr v | None \<Rightarrow> Inl (NotFoundException key))"

definition props_get_d :: "'d poco \<Rightarrow> props \<Rightarrow> string \<Rightarrow> string \<Rightarrow> string" where
  "props_get_d E p key deflt = (case smap_get (ilt E) key p of Some v \<Rightarrow> v | None \<Rightarrow> deflt)"

definition props_getBool :: "'d poco \<Rightarrow> props \<Rightarrow> string \<Rightarrow> bool res" where
  "props_getBool E p key = (case smap_get (ilt E) key p of
     Some v \<Rightarrow> Inr (v \<noteq> PROP_FALSE) | None \<Rightarrow> Inl (NotFoundException key))"

definition props_getBool_d :: "'d poco \<Rightarrow> props \<Rightarrow> string \<Rightarrow> bool \<Rightarrow> bool" where
  "props_getBool_d E p key deflt =
     (case smap_get (ilt E) key p of Some v \<Rightarrow> v \<noteq> PROP_FALSE | None \<Rightarrow> deflt)"

definition props_getInt :: "'d poco \<Rightarrow> props \<Rightarrow> string \<Rightarrow> int res" where
  "props_getInt E p key = (case smap_get (ilt E) key p of
     Some v \<Rightarrow> parseInt E v | None \<Rightarrow> Inl (NotFoundException key))"

definition props_getInt_d :: "'d poco \<Rightarrow> props \<Rightarrow> string \<Rightarrow> int \<Rightarrow> int res" where
  "props_getInt_d E p key deflt =
     (case smap_get (ilt E) key p of Some v \<Rightarrow> parseInt E v | None \<Rightarrow> Inr deflt)"

definition props_getInt64 :: "'d poco \<Rightarrow> props \<Rightarrow> string \<Rightarrow> int res" where
  "props_getInt64 E p key = (case smap_get (ilt E) key p of
     Some v \<Rightarrow> parseInt64 E v | None \<Rightarrow> Inl (NotFoundException key))"

definition props_getInt64_d :: "'d poco \<Rightarrow> props \<Rightarrow> string \<Rightarrow> int \<Rightarrow> int res" where
  "props_getInt64_d E p key deflt =
     (case smap_get (ilt E) key p of Some v \<Rightarrow> parseInt64 E v | None \<Rightarrow> Inr deflt)"

definition props_getFloat :: "'d poco \<Rightarrow> props \<Rightarrow> string \<Rightarrow> 'd res" where
  "props_getFloat E p key = (case smap_get (ilt E) key p of
     Some v \<Rightarrow> parseFloat E v | None \<Rightarrow> Inl (NotFoundException key))"

definition props_getFloat_d :: "'d poco \<Rightarrow> props \<Rightarrow> string \<Rightarrow> 'd \<Rightarrow> 'd res" where
  "props_getFloat_d E p key deflt =
     (case smap_get (ilt E) key p of Some v \<Rightarrow> parseFloat E v | None \<Rightarrow> Inr deflt)"

definition props_set :: "'d poco \<Rightarrow> props \<Rightarrow> string \<Rightarrow> string \<Rightarrow> props" where
  "props_set E p key v = smap_put (ilt E) key v p"

definition props_set_bool :: "'d poco \<Rightarrow> props \<Rightarrow> string \<Rightarrow> bool \<Rightarrow> props" where
  "props_set_bool E p key b = props_set E p key (if b then PROP_TRUE else PROP_FALSE)"

definition props_set_int :: "'d poco \<Rightarrow> props \<Rightarrow> string \<Rightarrow> int \<Rightarrow> props" where
  "props_set_int E p key n = props_set E p key (formatInt E n)"

definition props_set_float :: "'d poco \<Rightarrow> props \<Rightarrow> string \<Rightarrow> 'd \<Rightarrow> props" where
  "props_set_float E p key x = props_set E p key (formatFloat E x)"

definition props_has :: "'d poco \<Rightarrow> props \<Rightarrow> string \<Rightarrow> bool" where
  "props_has E p key \<longleftrightarrow> smap_get (ilt E) key p \<noteq> None"

definition props_keys :: "props \<Rightarrow> string list" where
  "props_keys p = map fst p"

definition props_wf :: "'d poco \<Rightarrow> props \<Rightarrow> bool" where
  "props_wf E p \<longleftrightarrow> sorted_wrt (ilt E) (props_keys p)"

lemmas props_defs [osp_defs] = props_get_def props_get_d_def props_getBool_def props_getBool_d_def
  props_getInt_def props_getInt_d_def props_getInt64_def props_getInt64_d_def props_getFloat_def
  props_getFloat_d_def props_set_def props_set_bool_def props_set_int_def props_set_float_def
  props_has_def PROP_TRUE_def PROP_FALSE_def

section \<open>A concrete instance of the parameters\<close>

text \<open>
  Instances the witnesses evaluate: strings compared by their lower-case images, decimal numerals,
  doubles taken as integers, and no regular expression accepted.
\<close>

definition sample_format :: "int \<Rightarrow> string" where
  "sample_format n = (if n < 0 then ''-'' @ decimal (nat (- n)) else decimal (nat n))"

fun read_decimal :: "nat \<Rightarrow> string \<Rightarrow> nat option" where
  "read_decimal n [] = Some n"
| "read_decimal n (c # s) = (if isdigit c then read_decimal (10 * n + of_char c - 48) s else None)"

definition sample_parse :: "string \<Rightarrow> int res" where
  "sample_parse s = (let neg = (s \<noteq> [] \<and> hd s = CHR ''-''); ds = (if neg then tl s else s) in
     case (if ds = [] then None else read_decimal 0 ds) of
       None \<Rightarrow> Inl (SyntaxException s)
     | Some n \<Rightarrow> Inr (if neg then - int n else int n))"

definition sample_poco :: "int poco" where
  "sample_poco = \<lparr>ilt = (\<lambda>a b. map tolower a < map tolower b), parseInt = sample_parse,
     parseInt64 = sample_parse, parseFloat = sample_parse, formatInt = sample_format,
     formatFloat = sample_format, regexCompile = (\<lambda>s. Inl (SyntaxException s)),
     regexMatch = (\<lambda>p s. Inl (SyntaxException p)), doubleEq = (=), doubleLt = (<), doubleLe = (\<le>),
     doubleZero = 0\<rparr>"

lemma sample_icompare_ok: "icompare_ok sample_poco"
  unfolding icompare_ok_def by (auto simp: sample_poco_def strict_weak_order_def)

lemma read_decimal_snoc: "read_decimal n ds = Some m \<Longrightarrow> isdigit d \<Longrightarrow>
    read_decimal n (ds @ [d]) = Some (10 * m + of_char d - 48)"
  by (induction ds arbitrary: n) (auto split: if_splits)

lemma read_decimal_decimal: "read_decimal 0 (decimal n) = Some n"
proof (induction n rule: decimal.induct)
  case (1 n)
  show ?case
  proof (cases "n < 10")
    case True
    then show ?thesis by (simp add: decimal.simps [of n])
  next
    case False
    then have "read_decimal 0 (decimal (n div 10)) = Some (n div 10)" using 1 by simp
    from read_decimal_snoc [OF this, of "digit_char (n mod 10)"] False show ?thesis
      by (simp add: decimal.simps [of n])
  qed
qed

lemma decimal_not_minus: "hd (decimal n) \<noteq> CHR ''-''"
  using decimal_hd [of n] by (auto simp: isdigit_def)

lemma sample_number_text_ok: "number_text_ok sample_poco"
  using decimal_not_minus
  by (auto simp: number_text_ok_def sample_poco_def sample_parse_def sample_format_def Let_def
      read_decimal_decimal)

section \<open>Laws\<close>

lemma icompare_swo: "icompare_ok E \<Longrightarrow> strict_weak_order (ilt E)"
  by (simp add: icompare_ok_def)

lemma icompare_equiv:
  "icompare_ok E \<Longrightarrow> strict_weak_order.equiv (ilt E) a b \<longleftrightarrow> map tolower a = map tolower b"
  by (simp add: icompare_ok_def strict_weak_order.equiv_def)

lemma props_wf_map: "icompare_ok E \<Longrightarrow> props_wf E p \<longleftrightarrow> strict_weak_order.wf_map (ilt E) p"
  by (simp add: icompare_ok_def strict_weak_order.wf_map_def props_wf_def props_keys_def)

lemma props_set_wf:
  assumes "icompare_ok E" and "props_wf E p"
  shows "props_wf E (props_set E p k v)"
  using assms strict_weak_order.put_keeps_wf [OF icompare_swo [OF assms(1)], of p k v]
  by (simp add: props_wf_map props_set_def)

lemma lookup_set:
  assumes "icompare_ok E" and "props_wf E p"
  shows "smap_get (ilt E) k2 (props_set E p k v)
         = (if map tolower k = map tolower k2 then Some v else smap_get (ilt E) k2 p)"
proof (cases "map tolower k = map tolower k2")
  case True
  then show ?thesis
    using strict_weak_order.get_put_same [OF icompare_swo [OF assms(1)]] icompare_equiv [OF assms(1)]
    by (auto simp: props_set_def)
next
  case False
  then show ?thesis
    using strict_weak_order.get_put_other [OF icompare_swo [OF assms(1)]] icompare_equiv [OF assms(1)]
      assms(2) by (auto simp: props_set_def props_wf_map [OF assms(1)])
qed

text \<open>
  property keys are not case sensitive: after \<open>set(key, value)\<close> every spelling of the key that
  differs in case only is present and yields the value, every other key is answered as before, and the
  collection stays sorted.
\<close>

theorem properties_set_get:
  assumes "icompare_ok E" and "props_wf E p"
  shows "props_get E (props_set E p k v) k2
           = (if map tolower k = map tolower k2 then Inr v else props_get E p k2)
         \<and> props_has E (props_set E p k v) k2 = (map tolower k = map tolower k2 \<or> props_has E p k2)
         \<and> props_wf E (props_set E p k v)"
  using lookup_set [OF assms, of k2 k v] props_set_wf [OF assms, of k v]
  by (simp add: props_get_def props_has_def)

theorem properties_set_get_witness:
  "props_get sample_poco (props_set sample_poco [] ''Name'' ''x'') ''nAME'' = Inr ''x''"
proof -
  have "props_wf sample_poco []" by (simp add: props_wf_def props_keys_def)
  moreover have "map tolower ''Name'' = map tolower ''nAME''" by code_simp
  ultimately show ?thesis
    using properties_set_get [OF sample_icompare_ok, of "[]" "''Name''" "''x''" "''nAME''"] by simp
qed

text \<open>
  typed values survive the detour through strings: \<open>set(key, bool)\<close> then \<open>getBool\<close>, and
  \<open>set(key, int)\<close> then \<open>getInt\<close>, return the value, with or without a default.
\<close>

theorem properties_typed_roundtrip:
  assumes "icompare_ok E" and "number_text_ok E" and "props_wf E p"
    and "- 2147483648 \<le> n" and "n \<le> 2147483647"
  shows "props_getBool E (props_set_bool E p k b) k = Inr b
         \<and> props_getBool_d E (props_set_bool E p k b) k d = b
         \<and> props_getInt E (props_set_int E p k n) k = Inr n
         \<and> props_getInt_d E (props_set_int E p k n) k m = Inr n"
proof -
  have get: "smap_get (ilt E) k (smap_put (ilt E) k v p) = Some v" for v
    using lookup_set [OF assms(1,3), of k k v] by (simp add: props_set_def)
  have "parseInt E (formatInt E n) = Inr n"
    using assms(2,4,5) by (simp add: number_text_ok_def)
  with get show ?thesis by (simp add: props_defs)
qed

theorem properties_typed_roundtrip_witness:
  "props_getInt sample_poco (props_set_int sample_poco [] ''port'' (- 12)) ''port'' = Inr (- 12)
   \<and> props_getBool sample_poco (props_set_bool sample_poco [] ''on'' False) ''on'' = Inr False"
proof -
  have "props_wf sample_poco []" by (simp add: props_wf_def props_keys_def)
  note rt = properties_typed_roundtrip [OF sample_icompare_ok sample_number_text_ok this]
  show ?thesis using rt [of "- 12" "''port''"] rt [of 0 "''on''" False] by simp
qed

end
