(* ===== verification/OSP_Tokens.thy ===== *)
theory OSP_Tokens
  imports Prelude
begin

text \<open>
  The token classes of the service query language, \<open>platform/OSP/src/QLTokens.cpp\<close>. Every class has a
  \<open>start\<close> (does this character begin a token of the class?) and a \<open>finish\<close> that reads the rest of the
  token from the stream. A stream is the list of characters not yet read: \<open>peek\<close> is its head, and
  \<open>get\<close> removes it. A \<open>finish\<close> returns the text of the token and the rest of the stream, or the
  \<open>SyntaxException\<close> it throws. The loop that asks the classes in turn is \<open>Poco::StreamTokenizer\<close>, which
  is not part of the repository.
\<close>

section \<open>QLToken\<close>

definition syntaxError :: "string \<Rightarrow> string \<Rightarrow> exc" where
  "syntaxError expected actual = SyntaxException (''expected: '' @ expected @ '', got: '' @ actual)"

text \<open>The one-character text of \<open>std::string(1, istr.peek())\<close>; at the end of the stream it is the
  character of code 255.\<close>

definition peek_text :: "string \<Rightarrow> string" where
  "peek_text s = (case s of [] \<Rightarrow> [char_of (255 :: nat)] | c # _ \<Rightarrow> [c])"

section \<open>OperatorToken\<close>

definition opcode_table :: "(string \<times> nat) list" where
  "opcode_table = [(''('', 1), ('')'', 2), (''<'', 3), (''<='', 4), (''>'', 5), (''>='', 6),
     (''=='', 7), (''=~'', 8), (''!'', 9), (''!='', 10), (''&&'', 11), (''||'', 12)]"

definition OP_OPENPARENT :: nat where "OP_OPENPARENT = 1"
definition OP_CLOSPARENT :: nat where "OP_CLOSPARENT = 2"
definition OP_LT :: nat where "OP_LT = 3"
definition OP_LE :: nat where "OP_LE = 4"
definition OP_GT :: nat where "OP_GT = 5"
definition OP_GE :: nat where "OP_GE = 6"
definition OP_EQ :: nat where "OP_EQ = 7"
definition OP_MATCH :: nat where "OP_MATCH = 8"
definition OP_NOT :: nat where "OP_NOT = 9"
definition OP_NE :: nat where "OP_NE = 10"
definition OP_AND :: nat where "OP_AND = 11"
definition OP_OR :: nat where "OP_OR = 12"

lemmas opcode_defs = OP_OPENPARENT_def OP_CLOSPARENT_def OP_LT_def OP_LE_def OP_GT_def OP_GE_def
  OP_EQ_def OP_MATCH_def OP_NOT_def OP_NE_def OP_AND_def OP_OR_def

definition operator_start :: "char \<Rightarrow> bool" where
  "operator_start c \<longleftrightarrow> c \<in> {CHR ''('', CHR '')'', CHR ''<'', CHR ''>'', CHR ''='', CHR ''!'', CHR ''&'', CHR ''|''}"

definition operator_finish :: "char \<Rightarrow> string \<Rightarrow> (string \<times> string) res" where
  "operator_finish c s =
     (let next_is = (\<lambda>ch. s \<noteq> [] \<and> hd s = ch); take1 = Inr ([c, hd s], tl s); plain = Inr ([c], s) in
      if c = CHR ''('' \<or> c = CHR '')'' then plain
      else if c = CHR ''<'' then (if next_is (CHR ''='') then take1 else plain)
      else if c = CHR ''>'' then (if next_is (CHR ''='') then take1 else plain)
      else if c = CHR ''&'' then
        (if next_is (CHR ''&'') then take1 else Inl (syntaxError ''&'' (peek_text s)))
      else if c = CHR ''|'' then
        (if next_is (CHR ''|'') then take1 else Inl (syntaxError ''|'' (peek_text s)))
      else if c = CHR ''='' then
        (if next_is (CHR ''~'') \<or> next_is (CHR ''='') then take1 else plain)
      else if c = CHR ''!'' then (if next_is (CHR ''='') then take1 else plain)
      else Inl (OtherException ''bugcheck''))"

definition operator_asInteger :: "string \<Rightarrow> nat" where
  "operator_asInteger v = (case map_of opcode_table v of Some n \<Rightarrow> n | None \<Rightarrow> 0)"

section \<open>IdentifierToken\<close>

definition identifier_start :: "char \<Rightarrow> bool" where
  "identifier_start c \<longleftrightarrow> isalpha c \<or> c = CHR ''_''"

definition identifier_char :: "char \<Rightarrow> bool" where
  "identifier_char c \<longleftrightarrow> isalpha c \<or> isdigit c \<or> c = CHR ''_'' \<or> c = CHR ''.''"

definition identifier_finish :: "char \<Rightarrow> string \<Rightarrow> (string \<times> string) res" where
  "identifier_finish c s = (let (w, r) = scan identifier_char s in Inr (c # w, r))"

section \<open>StringLiteralToken\<close>

definition newline_char :: char where "newline_char = char_of (10 :: nat)"
definition return_char :: char where "return_char = char_of (13 :: nat)"
definition quote_char :: char where "quote_char = char_of (34 :: nat)"
definition backslash_char :: char where "backslash_char = char_of (92 :: nat)"

definition literal_start :: "char \<Rightarrow> bool" where
  "literal_start c \<longleftrightarrow> c = quote_char"

text \<open>
  The loop of \<open>finish\<close>: after a backslash the next character is taken whatever it is. A backslash that
  ends the stream appends the value of \<open>get()\<close> at the end and then throws, as every unterminated
  literal does.
\<close>

fun literal_body :: "string \<Rightarrow> (string \<times> string) res" where
  "literal_body [] = Inl (SyntaxException ''Unterminated string literal'')"
| "literal_body (c # s) =
     (if c = quote_char then Inr ([c], s)
      else if c = newline_char \<or> c = return_char
        then Inl (SyntaxException ''Unterminated string literal'')
      else if c = backslash_char then
        (case s of [] \<Rightarrow> Inl (SyntaxException ''Unterminated string literal'')
         | d # s' \<Rightarrow> rbind (literal_body s') (\<lambda>(v, r). Inr (c # d # v, r)))
      else rbind (literal_body s) (\<lambda>(v, r). Inr (c # v, r)))"

definition literal_finish :: "char \<Rightarrow> string \<Rightarrow> (string \<times> string) res" where
  "literal_finish c s = rbind (literal_body s) (\<lambda>(v, r). Inr (c # v, r))"

fun literal_chars :: "string \<Rightarrow> string" where
  "literal_chars [] = []"
| "literal_chars (c # s) =
     (if c = quote_char then []
      else if c = backslash_char then (case s of [] \<Rightarrow> [] | d # s' \<Rightarrow> d # literal_chars s')
      else c # literal_chars s)"

definition literal_asString :: "string \<Rightarrow> string" where
  "literal_asString v = (case v of [] \<Rightarrow> [] | c # s \<Rightarrow>
     if c = quote_char then literal_chars s else literal_chars v)"

section \<open>RegExpToken\<close>

definition regexp_start :: "char \<Rightarrow> bool" where
  "regexp_start c \<longleftrightarrow> c = CHR ''/'' \<or> c = CHR ''#''"

definition regexp_finish :: "char \<Rightarrow> string \<Rightarrow> (string \<times> string) res" where
  "regexp_finish c s =
     (let (w, r) = scan (\<lambda>x. x \<noteq> c \<and> x \<noteq> newline_char \<and> x \<noteq> return_char) s in
      if r \<noteq> [] \<and> hd r = c then Inr (c # w @ [c], tl r)
      else Inl (SyntaxException ''Unterminated regular expression''))"

definition regexp_asString :: "string \<Rightarrow> string" where
  "regexp_asString v = (case v of [] \<Rightarrow> [] | c # s \<Rightarrow> takeWhile (\<lambda>x. x \<noteq> c) s)"

section \<open>NumberLiteralToken\<close>

definition number_start :: "char \<Rightarrow> string \<Rightarrow> bool" where
  "number_start c s \<longleftrightarrow> isdigit c \<or> c = CHR ''.'' \<and> s \<noteq> [] \<and> isdigit (hd s)"

text \<open>The exponent part, read after the mantissa: \<open>isf\<close> says whether the mantissa made it a float.\<close>

definition number_exponent :: "bool \<Rightarrow> string \<Rightarrow> (bool \<times> string \<times> string) res" where
  "number_exponent isf s =
     (case s of
        c # s1 \<Rightarrow>
          if c = CHR ''e'' \<or> c = CHR ''E'' then
            (let (sg, s2) = (if s1 \<noteq> [] \<and> (hd s1 = CHR ''+'' \<or> hd s1 = CHR ''-'')
                             then ([hd s1], tl s1) else ([], s1));
                 (ds, r) = scan isdigit s2
             in if ds \<noteq> [] then Inr (True, c # sg @ ds, r)
                else Inl (syntaxError ''digit'' (peek_text s2)))
          else Inr (isf, [], s)
      | [] \<Rightarrow> Inr (isf, [], []))"

text \<open>\<open>finish\<close> returns whether the literal is a float, its text and the rest of the stream.\<close>

definition number_finish :: "char \<Rightarrow> string \<Rightarrow> (bool \<times> string \<times> string) res" where
  "number_finish c s =
     (if c \<noteq> CHR ''.'' then
        (if s \<noteq> [] \<and> hd s = CHR ''x'' then
           (let (hs, r) = scan isxdigit (tl s) in Inr (False, c # CHR ''x'' # hs, r))
         else
           (let (ds, s1) = scan isdigit s;
                frac = (s1 \<noteq> [] \<and> hd s1 = CHR ''.'' \<and> \<not> (tl s1 \<noteq> [] \<and> hd (tl s1) = CHR ''.''));
                (fs, s2) = (if frac then scan isdigit (tl s1) else ([], s1))
            in rbind (number_exponent frac s2) (\<lambda>(isf, ex, r).
                 Inr (isf, c # ds @ (if frac then CHR ''.'' # fs else []) @ ex, r))))
      else
        (let (ds, s1) = scan isdigit s
         in rbind (number_exponent True s1) (\<lambda>(isf, ex, r). Inr (isf, c # ds @ ex, r))))"

section \<open>Laws\<close>

lemma literal_special [simp]:
  "quote_char \<noteq> backslash_char" "backslash_char \<noteq> quote_char" "newline_char \<noteq> quote_char"
  "return_char \<noteq> quote_char" "newline_char \<noteq> backslash_char" "return_char \<noteq> backslash_char"
  "backslash_char \<noteq> newline_char" "backslash_char \<noteq> return_char"
  by (simp_all add: quote_char_def backslash_char_def newline_char_def return_char_def)

text \<open>Writing a string as a literal: every character that the scanner treats specially is escaped.\<close>

definition literal_needs_escape :: "char \<Rightarrow> bool" where
  "literal_needs_escape c \<longleftrightarrow> c = quote_char \<or> c = backslash_char \<or> c = newline_char \<or> c = return_char"

fun literal_escape :: "string \<Rightarrow> string" where
  "literal_escape [] = []"
| "literal_escape (c # s) =
     (if literal_needs_escape c then backslash_char # c # literal_escape s else c # literal_escape s)"

lemma literal_body_escape:
  "literal_body (literal_escape s @ quote_char # rest) = Inr (literal_escape s @ [quote_char], rest)"
  by (induction s) (auto simp: literal_needs_escape_def)

lemma literal_chars_escape: "literal_chars (literal_escape s @ [quote_char]) = s"
  by (induction s) (auto simp: literal_needs_escape_def)

text \<open>
  string literals round-trip: any string, written between quotes with a backslash before quotes,
  backslashes and line ends, is read as one token that ends exactly at the closing quote, and
  \<open>asString\<close> of the token is the string.
\<close>

theorem string_literal_roundtrip:
  "literal_finish quote_char (literal_escape s @ quote_char # rest)
     = Inr (quote_char # literal_escape s @ [quote_char], rest)
   \<and> literal_asString (quote_char # literal_escape s @ [quote_char]) = s"
  by (simp add: literal_finish_def literal_body_escape literal_asString_def literal_chars_escape)

lemma literal_body_length:
  "literal_body s = Inr (v, r) \<Longrightarrow> length r < length s \<and> s = v @ r"
  by (induction s arbitrary: v r rule: literal_body.induct)
    (auto simp: rbind_eq_Inr split: if_splits list.splits)

lemma scan_split: "scan p s = (w, r) \<Longrightarrow> s = w @ r"
  by (auto simp: scan_def)

lemma number_exponent_split: "number_exponent isf s = Inr (b, ex, r) \<Longrightarrow> s = ex @ r"
  by (cases s; cases "tl s")
    (auto simp: number_exponent_def Let_def split: if_splits prod.splits dest!: scan_split)

lemma number_finish_split: "number_finish c s = Inr (b, v, r) \<Longrightarrow> c # s = v @ r"
proof -
  assume h: "number_finish c s = Inr (b, v, r)"
  obtain ds s1 where ds: "scan isdigit s = (ds, s1)" by fastforce
  obtain hs t where hs: "scan isxdigit (tl s) = (hs, t)" by fastforce
  obtain fs u where fs: "scan isdigit (tl s1) = (fs, u)" by fastforce
  have cut: "s = ds @ s1" "tl s = hs @ t" "tl s1 = fs @ u"
    using scan_split [OF ds] scan_split [OF hs] scan_split [OF fs] by auto
  show ?thesis
    using h ds hs fs cut hd_Cons_tl [of s] hd_Cons_tl [of s1]
    by (auto simp: number_finish_def Let_def rbind_eq_Inr split: if_splits
        dest!: number_exponent_split)
qed

lemma operator_finish_split: "operator_finish c s = Inr (v, r) \<Longrightarrow> c # s = v @ r"
  by (cases s) (auto simp: operator_finish_def Let_def split: if_splits)

lemma identifier_finish_split: "identifier_finish c s = Inr (v, r) \<Longrightarrow> c # s = v @ r"
  by (auto simp: identifier_finish_def split: prod.splits dest!: scan_split)

lemma regexp_finish_split: "regexp_finish c s = Inr (v, r) \<Longrightarrow> c # s = v @ r"
proof -
  assume h: "regexp_finish c s = Inr (v, r)"
  obtain w t where wt: "scan (\<lambda>x. x \<noteq> c \<and> x \<noteq> newline_char \<and> x \<noteq> return_char) s = (w, t)"
    by fastforce
  then have "s = w @ t" by (rule scan_split)
  with h wt show ?thesis by (cases t) (auto simp: regexp_finish_def split: if_splits)
qed

text \<open>
  no token class loses or invents input: when a \<open>finish\<close> succeeds, the text of the token followed
  by the rest of the stream is the stream it was called on, and at least the start character is consumed.
\<close>

theorem token_text_is_input:
  "(operator_finish c s = Inr (v, r) \<longrightarrow> c # s = v @ r \<and> v \<noteq> [])
   \<and> (identifier_finish c s = Inr (v, r) \<longrightarrow> c # s = v @ r \<and> v \<noteq> [])
   \<and> (literal_finish c s = Inr (v, r) \<longrightarrow> c # s = v @ r \<and> v \<noteq> [])
   \<and> (regexp_finish c s = Inr (v, r) \<longrightarrow> c # s = v @ r \<and> v \<noteq> [])
   \<and> (number_finish c s = Inr (b, v, r) \<longrightarrow> c # s = v @ r)"
proof (intro conjI impI)
  assume "operator_finish c s = Inr (v, r)"
  then show "c # s = v @ r" by (rule operator_finish_split)
next
  assume "operator_finish c s = Inr (v, r)"
  then show "v \<noteq> []" by (auto simp: operator_finish_def Let_def split: if_splits)
next
  assume "identifier_finish c s = Inr (v, r)"
  then show "c # s = v @ r" by (rule identifier_finish_split)
next
  assume "identifier_finish c s = Inr (v, r)"
  then show "v \<noteq> []" by (auto simp: identifier_finish_def split: prod.splits)
next
  assume "literal_finish c s = Inr (v, r)"
  then show "c # s = v @ r" by (auto simp: literal_finish_def rbind_eq_Inr dest: literal_body_length)
next
  assume "literal_finish c s = Inr (v, r)"
  then show "v \<noteq> []" by (auto simp: literal_finish_def rbind_eq_Inr)
next
  assume "regexp_finish c s = Inr (v, r)"
  then show "c # s = v @ r" by (rule regexp_finish_split)
next
  assume "regexp_finish c s = Inr (v, r)"
  then show "v \<noteq> []" by (auto simp: regexp_finish_def split: if_splits prod.splits)
next
  assume "number_finish c s = Inr (b, v, r)"
  then show "c # s = v @ r" by (rule number_finish_split)
qed

theorem token_text_is_input_witness:
  "number_finish (CHR ''1'') ''2.5e-3&&'' = Inr (True, ''12.5e-3'', ''&&'')
   \<and> CHR ''1'' # ''2.5e-3&&'' = ''12.5e-3'' @ ''&&''"
proof -
  have h: "number_finish (CHR ''1'') ''2.5e-3&&'' = Inr (True, ''12.5e-3'', ''&&'')" by code_simp
  show ?thesis
    using token_text_is_input [of "CHR ''1''" "''2.5e-3&&''" "''12.5e-3''" "''&&''" True] h by blast
qed

end
