(* ===== verification/OSP_Glob.thy ===== *)
theory OSP_Glob
  imports Prelude
begin

text \<open>
  The glob matcher of the query language, \<open>QLMatchExpr::match\<close> and \<open>QLMatchExpr::matchSet\<close> of
  \<open>platform/OSP/src/QLExpr.cpp\<close>. The iterators into pattern and subject are the lists of characters
  still to be read. \<open>matchSet\<close> compares characters with \<open>char\<close>'s own order, whose signedness the
  implementation chooses: it is the parameter \<open>sc\<close> of the model.
\<close>

section \<open>The matcher\<close>

definition char_val :: "bool \<Rightarrow> char \<Rightarrow> int" where
  "char_val sc c = (if sc \<and> (of_char c :: nat) \<ge> 128 then int (of_char c) - 256 else int (of_char c))"

abbreviation backslash :: char where
  "backslash \<equiv> CHR 0x5C"

text \<open>The loop that looks for the closing bracket once a range has matched.\<close>

fun skip_set :: "string \<Rightarrow> string res" where
  "skip_set [] =
     Inl (SyntaxException ''range must be terminated by closing bracket in glob pattern'')"
| "skip_set (p # ps) =
     (if p = CHR '']'' then Inr ps
      else if p = backslash then
        (case ps of [] \<Rightarrow>
             Inl (SyntaxException ''range must be terminated by closing bracket in glob pattern'')
         | _ # ps' \<Rightarrow> skip_set ps')
      else skip_set ps)"

text \<open>The upper end of a range that starts with \<open>first\<close>, and the rest of the pattern.\<close>

definition range_last :: "char \<Rightarrow> string \<Rightarrow> (char \<times> string) res" where
  "range_last first ps =
     (case ps of
        q # qs \<Rightarrow>
          if q = CHR ''-'' then
            (case qs of l # rest \<Rightarrow> Inr (l, rest)
             | [] \<Rightarrow> Inl (SyntaxException ''bad range syntax in glob pattern''))
          else Inr (first, ps)
      | [] \<Rightarrow> Inr (first, []))"

lemma range_last_length [termination_simp]:
  "range_last f ps = Inr (l, rest) \<Longrightarrow> length rest \<le> length ps"
  by (auto simp: range_last_def split: list.splits if_splits)

function match_set :: "bool \<Rightarrow> string \<Rightarrow> char \<Rightarrow> (bool \<times> string) res" where
  "match_set sc [] c = Inr (False, [])"
| "match_set sc (p # ps) c =
     (if p = CHR '']'' then Inr (False, ps)
      else if p = backslash \<and> ps = [] then
        Inl (SyntaxException ''backslash must be followed by character in glob pattern'')
      else
        (let first = (if p = backslash then hd ps else p);
             after = (if p = backslash then tl ps else ps)
         in case range_last first after of
              Inl e \<Rightarrow> Inl e
            | Inr (lst, rest) \<Rightarrow>
                if char_val sc first \<le> char_val sc c \<and> char_val sc c \<le> char_val sc lst
                then rbind (skip_set rest) (\<lambda>r. Inr (True, r))
                else match_set sc rest c))"
  by pat_completeness auto
termination
  by (relation "measure (\<lambda>(sc, ps, c). length ps)") (auto dest!: range_last_length split: if_splits)

lemma skip_set_length: "skip_set ps = Inr r \<Longrightarrow> length r < length ps"
  by (induction ps arbitrary: r rule: skip_set.induct) (fastforce split: if_splits list.splits)+

lemma match_set_length: "match_set sc ps c = Inr (b, r) \<Longrightarrow> length r \<le> length ps"
proof (induction sc ps c arbitrary: b r rule: match_set.induct)
  case (1 sc c)
  then show ?case by simp
next
  case (2 sc p ps c)
  let ?first = "if p = backslash then hd ps else p"
  let ?after = "if p = backslash then tl ps else ps"
  show ?case
  proof (cases "p = CHR '']'' \<or> p = backslash \<and> ps = []")
    case True
    then show ?thesis using "2.prems" by (auto split: if_splits)
  next
    case False
    then obtain lst rest where rl: "range_last ?first ?after = Inr (lst, rest)"
      using "2.prems" by (cases "range_last ?first ?after") (auto simp: Let_def)
    have len: "length rest \<le> length ps"
      using range_last_length [OF rl] by (auto split: if_splits)
    show ?thesis
      using False "2.prems" rl len "2.IH" [OF _ _ refl refl rl refl]
      by (auto simp: Let_def rbind_eq_Inr split: if_splits dest!: skip_set_length)
  qed
qed

text \<open>
  \<open>glob\<close> is \<open>match(itp, endp, its, ends)\<close>, \<open>glob_star\<close> the inner loop after a star that does not end
  the pattern.
\<close>

function (sequential) glob :: "bool \<Rightarrow> string \<Rightarrow> string \<Rightarrow> bool res"
  and glob_star :: "bool \<Rightarrow> string \<Rightarrow> string \<Rightarrow> bool res" where
  "glob sc [] s = Inr (s = [])"
| "glob sc (p # ps) [] = Inr (dropWhile (\<lambda>c. c = CHR ''*'') (p # ps) = [])"
| "glob sc (p # ps) (c # s) =
     (if p = CHR ''?'' then glob sc ps s
      else if p = CHR ''*'' then (if ps \<noteq> [] then glob_star sc ps (c # s) else Inr True)
      else if p = CHR ''['' then
        (case ps of
           [] \<Rightarrow> Inl (SyntaxException ''bad range syntax in pattern'')
         | q # qs \<Rightarrow>
             (let invert = (q = CHR ''!''); pset = (if invert then qs else ps) in
              if pset = [] then Inl (SyntaxException ''bad range syntax in pattern'')
              else case match_set sc pset c of
                     Inl e \<Rightarrow> Inl e
                   | Inr (mtch, rest) \<Rightarrow> if invert = mtch then Inr False else glob sc rest s))
      else if p = backslash then
        (case ps of
           [] \<Rightarrow> Inl (SyntaxException ''backslash must be followed by character in pattern'')
         | q # qs \<Rightarrow> if q \<noteq> c then Inr False else glob sc qs s)
      else if p \<noteq> c then Inr False else glob sc ps s)"
| "glob_star sc ps [] = Inr False"
| "glob_star sc ps (c # s) =
     (case glob sc ps (c # s) of
        Inl e \<Rightarrow> Inl e
      | Inr True \<Rightarrow> Inr True
      | Inr False \<Rightarrow> glob_star sc ps s)"
  by pat_completeness auto
termination
  by (relation "measures
        [\<lambda>x. case x of Inl (sc, ps, s) \<Rightarrow> length ps | Inr (sc, ps, s) \<Rightarrow> length ps,
         \<lambda>x. case x of Inl (sc, ps, s) \<Rightarrow> length s | Inr (sc, ps, s) \<Rightarrow> length s,
         \<lambda>x. case x of Inl (sc, ps, s) \<Rightarrow> 0 | Inr (sc, ps, s) \<Rightarrow> 1]")
    (auto simp del: match_set.simps dest!: match_set_length split: if_splits)

section \<open>The language of glob patterns\<close>

text \<open>
  What a pattern means, independently of the matcher: a list of elements, where a set is given by its
  items and whether it is inverted. \<open>glob_text\<close> writes a list of elements as a pattern, escaping every
  character that has a meaning of its own at its place.
\<close>

datatype set_item = Single char | Span char char

datatype glob_elem = AnyChar | AnyString | CharSet bool "set_item list" | Literal char

fun item_has :: "bool \<Rightarrow> set_item \<Rightarrow> char \<Rightarrow> bool" where
  "item_has sc (Single a) c \<longleftrightarrow> c = a"
| "item_has sc (Span a b) c \<longleftrightarrow> char_val sc a \<le> char_val sc c \<and> char_val sc c \<le> char_val sc b"

fun glob_lang :: "bool \<Rightarrow> glob_elem list \<Rightarrow> string \<Rightarrow> bool" where
  "glob_lang sc [] s \<longleftrightarrow> s = []"
| "glob_lang sc (AnyChar # g) s \<longleftrightarrow> s \<noteq> [] \<and> glob_lang sc g (tl s)"
| "glob_lang sc (AnyString # g) s \<longleftrightarrow> (\<exists>n \<le> length s. glob_lang sc g (drop n s))"
| "glob_lang sc (CharSet neg items # g) s \<longleftrightarrow>
     s \<noteq> [] \<and> (list_ex (\<lambda>i. item_has sc i (hd s)) items \<noteq> neg) \<and> glob_lang sc g (tl s)"
| "glob_lang sc (Literal a # g) s \<longleftrightarrow> s \<noteq> [] \<and> hd s = a \<and> glob_lang sc g (tl s)"

definition set_char_text :: "char \<Rightarrow> string" where
  "set_char_text c = (if c \<in> {CHR '']'', backslash, CHR ''-'', CHR ''!''} then [backslash, c] else [c])"

fun item_text :: "set_item \<Rightarrow> string" where
  "item_text (Single a) = set_char_text a"
| "item_text (Span a b) = set_char_text a @ [CHR ''-'', b]"

fun item_wf :: "set_item \<Rightarrow> bool" where
  "item_wf (Single a) = True"
| "item_wf (Span a b) = (b \<noteq> CHR '']'' \<and> b \<noteq> backslash)"

fun elem_text :: "glob_elem \<Rightarrow> string" where
  "elem_text AnyChar = ''?''"
| "elem_text AnyString = ''*''"
| "elem_text (CharSet neg items) =
     CHR ''['' # (if neg then ''!'' else []) @ concat (map item_text items) @ '']''"
| "elem_text (Literal a) =
     (if a \<in> {CHR ''?'', CHR ''*'', CHR ''['', backslash} then [backslash, a] else [a])"

fun elem_wf :: "glob_elem \<Rightarrow> bool" where
  "elem_wf (CharSet neg items) = list_all item_wf items"
| "elem_wf _ = True"

definition glob_text :: "glob_elem list \<Rightarrow> string" where
  "glob_text g = concat (map elem_text g)"

lemma glob_text_simps [simp]:
  "glob_text [] = []" "glob_text (e # g) = elem_text e @ glob_text g"
  by (simp_all add: glob_text_def)

section \<open>Sets\<close>

lemma char_val_inj: "char_val sc a = char_val sc b \<Longrightarrow> a = b"
proof -
  assume h: "char_val sc a = char_val sc b"
  have "(of_char a :: nat) < 256" "(of_char b :: nat) < 256"
    by (rule nat_of_char_less_256)+
  with h have "(of_char a :: nat) = of_char b"
    by (auto simp: char_val_def simp del: nat_of_char_less_256 split: if_splits)
  then show ?thesis by simp
qed

lemma skip_set_char: "skip_set (set_char_text c @ r) = skip_set r"
  by (auto simp: set_char_text_def)

lemma skip_set_items:
  "list_all item_wf items \<Longrightarrow> skip_set (concat (map item_text items) @ CHR '']'' # r) = Inr r"
proof (induction items)
  case Nil
  then show ?case by simp
next
  case (Cons i items)
  have "skip_set (item_text i @ t) = skip_set t" for t
  proof (cases i)
    case (Single a)
    then show ?thesis by (simp add: skip_set_char)
  next
    case (Span a b)
    then show ?thesis using Cons.prems by (simp add: skip_set_char)
  qed
  with Cons show ?case by simp
qed

lemma items_text_hd:
  "hd (concat (map item_text items) @ CHR '']'' # r) \<noteq> CHR ''-''
   \<and> hd (concat (map item_text items) @ CHR '']'' # r) \<noteq> CHR ''!''"
proof (cases items)
  case Nil
  then show ?thesis by simp
next
  case (Cons i items')
  then show ?thesis by (cases i) (auto simp: set_char_text_def)
qed

lemma range_last_single: "t = [] \<or> hd t \<noteq> CHR ''-'' \<Longrightarrow> range_last a t = Inr (a, t)"
  by (cases t) (auto simp: range_last_def)

lemma range_last_span: "range_last a (CHR ''-'' # b # t) = Inr (b, t)"
  by (simp add: range_last_def)

text \<open>One step of \<open>matchSet\<close> on a written character: the character is the lower end.\<close>

lemma match_set_char:
  assumes "range_last a t = Inr (l, r)"
  shows "match_set sc (set_char_text a @ t) c =
    (if char_val sc a \<le> char_val sc c \<and> char_val sc c \<le> char_val sc l
     then rbind (skip_set r) (\<lambda>x. Inr (True, x)) else match_set sc r c)"
  using assms by (auto simp: set_char_text_def)

lemma match_set_items:
  "list_all item_wf items \<Longrightarrow>
   match_set sc (concat (map item_text items) @ CHR '']'' # r) c
     = Inr (list_ex (\<lambda>i. item_has sc i c) items, r)"
proof (induction items)
  case Nil
  then show ?case by simp
next
  case (Cons i items)
  let ?t = "concat (map item_text items) @ CHR '']'' # r"
  have IH: "match_set sc ?t c = Inr (list_ex (\<lambda>i. item_has sc i c) items, r)"
    and skip: "skip_set ?t = Inr r"
    using Cons skip_set_items by auto
  show ?case
  proof (cases i)
    case (Single a)
    have "range_last a ?t = Inr (a, ?t)"
      using items_text_hd [of items r] by (intro range_last_single) simp
    from match_set_char [OF this, of sc c] have
      "match_set sc (set_char_text a @ ?t) c =
       (if c = a then Inr (True, r) else Inr (list_ex (\<lambda>i. item_has sc i c) items, r))"
      using IH skip char_val_inj [of sc a c] by (auto simp: order_antisym)
    then show ?thesis by (simp add: Single)
  next
    case (Span a b)
    have "range_last a (CHR ''-'' # b # ?t) = Inr (b, ?t)"
      by (rule range_last_span)
    from match_set_char [OF this, of sc c] have
      "match_set sc (set_char_text a @ CHR ''-'' # b # ?t) c =
       (if item_has sc i c then Inr (True, r) else Inr (list_ex (\<lambda>i. item_has sc i c) items, r))"
      using IH skip by (simp add: Span)
    then show ?thesis by (auto simp: Span)
  qed
qed

section \<open>The matcher decides the language\<close>

lemma elem_text_nonempty [simp]: "elem_text e \<noteq> []"
  by (cases e) auto

lemma glob_text_empty_iff [simp]: "glob_text g = [] \<longleftrightarrow> g = []"
  by (cases g) auto

lemma stars_only:
  "dropWhile (\<lambda>c. c = CHR ''*'') (glob_text g) = [] \<longleftrightarrow> (\<forall>e \<in> set g. e = AnyString)"
proof (induction g)
  case Nil
  then show ?case by simp
next
  case (Cons e g)
  then show ?case by (cases e) auto
qed

lemma lang_stars: "\<forall>e \<in> set g. e = AnyString \<Longrightarrow> g \<noteq> [] \<Longrightarrow> glob_lang sc g s"
proof (induction g arbitrary: s)
  case Nil
  then show ?case by simp
next
  case (Cons e g s)
  then have e: "e = AnyString" by simp
  show ?case
  proof (cases "g = []")
    case True
    then show ?thesis by (auto simp: e intro: exI [of _ "length s"])
  next
    case False
    with Cons have "glob_lang sc g (drop 0 s)" by simp
    then show ?thesis unfolding e glob_lang.simps by blast
  qed
qed

lemma lang_empty_subject: "glob_lang sc g [] \<longleftrightarrow> (\<forall>e \<in> set g. e = AnyString)"
proof (induction g)
  case Nil
  then show ?case by simp
next
  case (Cons e g)
  then show ?case by (cases e) auto
qed

lemma glob_star_loop:
  assumes "\<And>t. t \<noteq> [] \<Longrightarrow> glob sc ps t = Inr (P t)"
  shows "glob_star sc ps s = Inr (\<exists>n < length s. P (drop n s))"
proof (induction s)
  case Nil
  then show ?case by simp
next
  case (Cons c s)
  have "(\<exists>n < length (c # s). P (drop n (c # s))) \<longleftrightarrow> P (c # s) \<or> (\<exists>n < length s. P (drop n s))"
    by (simp add: Ex_less_Suc2)
  with Cons show ?case by (simp add: assms split: bool.split)
qed

lemma glob_elem_step:
  assumes "elem_wf e" and "e \<noteq> AnyString"
  shows "glob sc (elem_text e @ ps) (c # s) =
    (if glob_lang sc [e] [c] then glob sc ps s else Inr False)"
proof (cases e)
  case (CharSet neg items)
  have hd: "concat (map item_text items) @ CHR '']'' # ps \<noteq> []" by simp
  have nb: "hd (concat (map item_text items) @ CHR '']'' # ps) \<noteq> CHR ''!''"
    using items_text_hd by blast
  obtain q qs where q: "concat (map item_text items) @ CHR '']'' # ps = q # qs"
    by (cases "concat (map item_text items) @ CHR '']'' # ps") auto
  have ms: "match_set sc (q # qs) c = Inr (list_ex (\<lambda>i. item_has sc i c) items, ps)"
    using match_set_items [of items sc ps c] assms(1) q CharSet by simp
  show ?thesis
    using nb q ms by (auto simp: CharSet simp del: match_set.simps)
qed (use assms in auto)

lemma glob_language:
  "list_all elem_wf g \<Longrightarrow> glob sc (glob_text g) s = Inr (glob_lang sc g s)"
proof (induction g arbitrary: s)
  case Nil
  then show ?case by simp
next
  case (Cons e g)
  then have wf: "elem_wf e" and IH: "\<And>s. glob sc (glob_text g) s = Inr (glob_lang sc g s)"
    by auto
  show ?case
  proof (cases s)
    case Nil
    obtain p ps where p: "glob_text (e # g) = p # ps"
      by (cases "glob_text (e # g)") auto
    then have "glob sc (glob_text (e # g)) [] = Inr (\<forall>x \<in> set (e # g). x = AnyString)"
      using stars_only [of "e # g"] by (simp del: glob_text_simps)
    then show ?thesis using Nil lang_empty_subject [of sc "e # g"] by simp
  next
    case (Cons c t)
    show ?thesis
    proof (cases "e = AnyString")
      case True
      have loop: "glob_star sc (glob_text g) s = Inr (\<exists>n < length s. glob_lang sc g (drop n s))"
        by (rule glob_star_loop) (simp add: IH)
      have ends: "g \<noteq> [] \<Longrightarrow> glob_lang sc g [] \<Longrightarrow> glob_lang sc g s"
        using lang_stars lang_empty_subject by blast
      have "g \<noteq> [] \<Longrightarrow> (\<exists>n \<le> length s. glob_lang sc g (drop n s)) \<longleftrightarrow>
            (\<exists>n < length s. glob_lang sc g (drop n s))"
        using ends Cons by (metis drop0 drop_all le_neq_implies_less length_greater_0_conv
            list.discI nat_less_le order_refl)
      then show ?thesis
        using loop True Cons by (cases "g = []") auto
    next
      case False
      then show ?thesis
        using glob_elem_step [OF wf False, of sc "glob_text g" c t] IH Cons wf
        by (cases e) auto
    qed
  qed
qed

text \<open>
  C37: the glob matcher of the query language decides exactly the language of its pattern: for every
  list of pattern elements, written as a pattern with the necessary escapes, and every subject,
  \<open>match\<close> returns (it neither fails nor loops) and answers whether the subject belongs to the
  language, with \<open>?\<close> for one character, \<open>*\<close> for any substring, and sets of characters and ranges,
  inverted or not. The end of a range is not a closing bracket or a backslash.
\<close>

theorem glob_decides_language:
  "list_all elem_wf g \<Longrightarrow> glob sc (glob_text g) s = Inr (glob_lang sc g s)"
  by (rule glob_language)

theorem glob_decides_language_witness:
  "glob False (glob_text [Literal (CHR ''a''), AnyString, CharSet True [Span (CHR ''0'') (CHR ''9'')]]) ''abc'' = Inr True
   \<and> glob False (glob_text [Literal (CHR ''a''), AnyString, CharSet True [Span (CHR ''0'') (CHR ''9'')]]) ''ab7'' = Inr False"
proof -
  let ?g = "[Literal (CHR ''a''), AnyString, CharSet True [Span (CHR ''0'') (CHR ''9'')]]"
  have wf: "list_all elem_wf ?g" by simp
  have in_lang: "glob_lang False ?g ''abc''"
    by (auto simp: char_val_def intro!: exI [of _ 1])
  have not_in: "\<not> glob_lang False ?g ''ab7''"
  proof
    assume "glob_lang False ?g ''ab7''"
    then obtain n where n: "n \<le> 2" "glob_lang False [CharSet True [Span (CHR ''0'') (CHR ''9'')]] (drop n ''b7'')"
      by auto
    then have "n = 0 \<or> n = 1 \<or> n = 2" by auto
    with n show False by (auto simp: char_val_def)
  qed
  show ?thesis
    using glob_decides_language [OF wf, of False "''abc''"] in_lang
      glob_decides_language [OF wf, of False "''ab7''"] not_in by simp
qed

text \<open>
  a set that is never closed is not rejected: \<open>[!x\<close> is accepted as a pattern and matches every
  single character other than \<open>x\<close>, and the same text fails on a character inside the set only.
\<close>

theorem glob_unclosed_set:
  "glob sc ''[!x'' ''y'' = Inr True \<and>
   glob sc ''[!x'' ''x'' = Inl (SyntaxException ''range must be terminated by closing bracket in glob pattern'')"
  by (cases sc) (simp_all add: range_last_def char_val_def)

end
