(* ===== verification/OSP_Query.thy ===== *)
theory OSP_Query
  imports OSP_Properties OSP_Tokens OSP_Glob
begin

text \<open>
  The service query language: the expression classes of \<open>platform/OSP/src/QLExpr.cpp\<close> and the
  recursive-descent parser of \<open>platform/OSP/src/QLParser.cpp\<close>. Expressions are a datatype with one
  constructor per class, and \<open>QLNull\<close> for the null \<open>QLExpr::Ptr\<close> a parse may leave behind; following a
  null pointer throws, as \<open>Poco::AutoPtr\<close> documents. The parser reads the tokens the tokenizer
  delivers: a list, \<open>TError\<close> standing for a token whose reading throws, and the end of the list for the
  end-of-file token, which is delivered again and again. The parser functions take fuel, and are shown
  to return with the fuel \<open>parse_query\<close> starts with.
\<close>

section \<open>Expressions\<close>

datatype 'd any = AInt int | AFloat 'd | ABool bool | AString string | AOther

datatype 'd qlexpr =
    QLNull
  | QLAndExpr "'d qlexpr" "'d qlexpr"
  | QLOrExpr "'d qlexpr" "'d qlexpr"
  | QLNotExpr "'d qlexpr"
  | QLExistsExpr string
  | QLEqExpr string "'d any"
  | QLNeExpr string "'d any"
  | QLLtExpr string "'d any"
  | QLLeExpr string "'d any"
  | QLGtExpr string "'d any"
  | QLGeExpr string "'d any"
  | QLMatchExpr string string
  | QLMatchRegExpr string string

definition eq_impl :: "'d poco \<Rightarrow> props \<Rightarrow> string \<Rightarrow> 'd any \<Rightarrow> bool res" where
  "eq_impl E p k v = (case v of
     AInt n \<Rightarrow> rbind (props_getInt_d E p k 0) (\<lambda>x. Inr (x = n))
   | AFloat f \<Rightarrow> rbind (props_getFloat_d E p k (doubleZero E)) (\<lambda>x. Inr (doubleEq E x f))
   | ABool b \<Rightarrow> Inr (props_getBool_d E p k False = b)
   | AString s \<Rightarrow> Inr (props_get_d E p k [] = s)
   | AOther \<Rightarrow> Inr False)"

definition ne_impl :: "'d poco \<Rightarrow> props \<Rightarrow> string \<Rightarrow> 'd any \<Rightarrow> bool res" where
  "ne_impl E p k v = (case v of
     AInt n \<Rightarrow> rbind (props_getInt_d E p k 0) (\<lambda>x. Inr (x \<noteq> n))
   | AFloat f \<Rightarrow> rbind (props_getFloat_d E p k (doubleZero E)) (\<lambda>x. Inr (\<not> doubleEq E x f))
   | ABool b \<Rightarrow> Inr (props_getBool_d E p k False \<noteq> b)
   | AString s \<Rightarrow> Inr (props_get_d E p k [] \<noteq> s)
   | AOther \<Rightarrow> Inr False)"

definition lt_impl :: "'d poco \<Rightarrow> props \<Rightarrow> string \<Rightarrow> 'd any \<Rightarrow> bool res" where
  "lt_impl E p k v = (case v of
     AInt n \<Rightarrow> rbind (props_getInt_d E p k 0) (\<lambda>x. Inr (x < n))
   | AFloat f \<Rightarrow> rbind (props_getFloat_d E p k (doubleZero E)) (\<lambda>x. Inr (doubleLt E x f))
   | ABool b \<Rightarrow> Inr (props_getBool_d E p k False < b)
   | AString s \<Rightarrow> Inr (props_get_d E p k [] < s)
   | AOther \<Rightarrow> Inr False)"

definition le_impl :: "'d poco \<Rightarrow> props \<Rightarrow> string \<Rightarrow> 'd any \<Rightarrow> bool res" where
  "le_impl E p k v = (case v of
     AInt n \<Rightarrow> rbind (props_getInt_d E p k 0) (\<lambda>x. Inr (x \<le> n))
   | AFloat f \<Rightarrow> rbind (props_getFloat_d E p k (doubleZero E)) (\<lambda>x. Inr (doubleLe E x f))
   | ABool b \<Rightarrow> Inr (props_getBool_d E p k False \<le> b)
   | AString s \<Rightarrow> Inr (props_get_d E p k [] \<le> s)
   | AOther \<Rightarrow> Inr False)"

definition gt_impl :: "'d poco \<Rightarrow> props \<Rightarrow> string \<Rightarrow> 'd any \<Rightarrow> bool res" where
  "gt_impl E p k v = (case v of
     AInt n \<Rightarrow> rbind (props_getInt_d E p k 0) (\<lambda>x. Inr (x > n))
   | AFloat f \<Rightarrow> rbind (props_getFloat_d E p k (doubleZero E)) (\<lambda>x. Inr (doubleLt E f x))
   | ABool b \<Rightarrow> Inr (props_getBool_d E p k False > b)
   | AString s \<Rightarrow> Inr (props_get_d E p k [] > s)
   | AOther \<Rightarrow> Inr False)"

definition ge_impl :: "'d poco \<Rightarrow> props \<Rightarrow> string \<Rightarrow> 'd any \<Rightarrow> bool res" where
  "ge_impl E p k v = (case v of
     AInt n \<Rightarrow> rbind (props_getInt_d E p k 0) (\<lambda>x. Inr (x \<ge> n))
   | AFloat f \<Rightarrow> rbind (props_getFloat_d E p k (doubleZero E)) (\<lambda>x. Inr (doubleLe E f x))
   | ABool b \<Rightarrow> Inr (props_getBool_d E p k False \<ge> b)
   | AString s \<Rightarrow> Inr (props_get_d E p k [] \<ge> s)
   | AOther \<Rightarrow> Inr False)"

text \<open>\<open>QLRelExpr::evaluate\<close> turns an exception of the comparison into \<open>false\<close>.\<close>

definition rel_eval :: "bool res \<Rightarrow> bool res" where
  "rel_eval r = (case r of Inl e \<Rightarrow> Inr False | Inr b \<Rightarrow> Inr b)"

fun ql_evaluate :: "bool \<Rightarrow> 'd poco \<Rightarrow> props \<Rightarrow> 'd qlexpr \<Rightarrow> bool res" where
  "ql_evaluate sc E p QLNull = Inl NullPointerException"
| "ql_evaluate sc E p (QLAndExpr l r) =
     rbind (ql_evaluate sc E p l) (\<lambda>b. if b then ql_evaluate sc E p r else Inr False)"
| "ql_evaluate sc E p (QLOrExpr l r) =
     rbind (ql_evaluate sc E p l) (\<lambda>b. if b then Inr True else ql_evaluate sc E p r)"
| "ql_evaluate sc E p (QLNotExpr e) = rbind (ql_evaluate sc E p e) (\<lambda>b. Inr (\<not> b))"
| "ql_evaluate sc E p (QLExistsExpr k) = Inr (props_has E p k)"
| "ql_evaluate sc E p (QLEqExpr k v) = rel_eval (eq_impl E p k v)"
| "ql_evaluate sc E p (QLNeExpr k v) = rel_eval (ne_impl E p k v)"
| "ql_evaluate sc E p (QLLtExpr k v) = rel_eval (lt_impl E p k v)"
| "ql_evaluate sc E p (QLLeExpr k v) = rel_eval (le_impl E p k v)"
| "ql_evaluate sc E p (QLGtExpr k v) = rel_eval (gt_impl E p k v)"
| "ql_evaluate sc E p (QLGeExpr k v) = rel_eval (ge_impl E p k v)"
| "ql_evaluate sc E p (QLMatchExpr k g) = glob sc g (props_get_d E p k [])"
| "ql_evaluate sc E p (QLMatchRegExpr k g) = regexMatch E g (props_get_d E p k [])"

section \<open>The parser\<close>

datatype token =
    TOperator string
  | TIdentifier string
  | TString string
  | TInteger string
  | TFloat string
  | TRegExp string
  | TInvalid string
  | TError exc

type_synonym ('d) parse_result = "('d qlexpr \<times> token list) res option"

text \<open>\<open>_tokenizer.next()\<close>: drop the current token; reading the following one may throw.\<close>

definition next_token :: "token list \<Rightarrow> token list res" where
  "next_token ts = (case tl ts of TError e # _ \<Rightarrow> Inl e | ts' \<Rightarrow> Inr ts')"

definition cur_op :: "token list \<Rightarrow> nat" where
  "cur_op ts = (case ts of TOperator v # _ \<Rightarrow> operator_asInteger v | _ \<Rightarrow> 0)"

definition isRelOp :: "token list \<Rightarrow> bool" where
  "isRelOp ts \<longleftrightarrow> cur_op ts \<in> {OP_EQ, OP_NE, OP_LT, OP_LE, OP_GT, OP_GE, OP_MATCH}"

definition tokenString :: "token list \<Rightarrow> string" where
  "tokenString ts = (case ts of [] \<Rightarrow> [] | TOperator v # _ \<Rightarrow> v | TIdentifier v # _ \<Rightarrow> v
     | TString v # _ \<Rightarrow> v | TInteger v # _ \<Rightarrow> v | TFloat v # _ \<Rightarrow> v | TRegExp v # _ \<Rightarrow> v
     | TInvalid v # _ \<Rightarrow> v | TError e # _ \<Rightarrow> [])"

definition token2value :: "'d poco \<Rightarrow> token list \<Rightarrow> 'd any res" where
  "token2value E ts = (case ts of
     TString v # _ \<Rightarrow> Inr (AString (literal_asString v))
   | TInteger v # _ \<Rightarrow> rbind (parseInt E v) (\<lambda>n. Inr (AInt n))
   | TFloat v # _ \<Rightarrow> rbind (parseFloat E v) (\<lambda>f. Inr (AFloat f))
   | TIdentifier v # _ \<Rightarrow>
       if v = ''true'' then Inr (ABool True)
       else if v = ''false'' then Inr (ABool False)
       else Inl (SyntaxException (''Misplaced identifier: '' @ v))
   | _ \<Rightarrow> Inl (SyntaxException (''Misplaced token: '' @ tokenString ts)))"

text \<open>The part of \<open>parseRelExpr\<close> behind an identifier: \<open>ts\<close> starts with the token after it.\<close>

definition parse_relation :: "'d poco \<Rightarrow> string \<Rightarrow> token list \<Rightarrow> ('d qlexpr \<times> token list) res" where
  "parse_relation E prop ts =
     (if isRelOp ts then
        rbind (next_token ts) (\<lambda>ts1.
        rbind (let opr = cur_op ts in
               if opr = OP_EQ then rbind (token2value E ts1) (\<lambda>v. Inr (QLEqExpr prop v))
               else if opr = OP_NE then rbind (token2value E ts1) (\<lambda>v. Inr (QLNeExpr prop v))
               else if opr = OP_LT then rbind (token2value E ts1) (\<lambda>v. Inr (QLLtExpr prop v))
               else if opr = OP_LE then rbind (token2value E ts1) (\<lambda>v. Inr (QLLeExpr prop v))
               else if opr = OP_GT then rbind (token2value E ts1) (\<lambda>v. Inr (QLGtExpr prop v))
               else if opr = OP_GE then rbind (token2value E ts1) (\<lambda>v. Inr (QLGeExpr prop v))
               else if opr = OP_MATCH then
                 (case ts1 of
                    TString v # _ \<Rightarrow> Inr (QLMatchExpr prop (literal_asString v))
                  | TRegExp v # _ \<Rightarrow>
                      rbind (regexCompile E (regexp_asString v))
                        (\<lambda>_. Inr (QLMatchRegExpr prop (regexp_asString v)))
                  | _ \<Rightarrow> Inl (SyntaxException (''Misplaced token: '' @ tokenString ts1)))
               else Inl (SyntaxException (''Misplaced token: '' @ tokenString ts1))) (\<lambda>e.
        rbind (next_token ts1) (\<lambda>ts2. Inr (e, ts2))))
      else Inr (QLExistsExpr prop, ts))"

text \<open>
  The operand of \<open>parseRelExpr\<close> behind the optional \<open>!\<close>: an expression in parentheses, parsed by
  \<open>pe\<close>, or a relation; a token that starts neither leaves the null expression and is not consumed.
\<close>

definition parse_primary ::
    "(token list \<Rightarrow> 'd parse_result) \<Rightarrow> 'd poco \<Rightarrow> token list \<Rightarrow> 'd parse_result" where
  "parse_primary pe E ts =
     (if cur_op ts = OP_OPENPARENT then
        obind (Some (next_token ts)) (\<lambda>ts2.
        obind (pe ts2) (\<lambda>(e, ts3).
          if cur_op ts3 = OP_CLOSPARENT
          then Some (rbind (next_token ts3) (\<lambda>ts4. Inr (e, ts4)))
          else Some (Inl (SyntaxException ''Expected: )''))))
      else case ts of
        TIdentifier prop # _ \<Rightarrow>
          obind (Some (next_token ts)) (\<lambda>ts2. Some (parse_relation E prop ts2))
      | _ \<Rightarrow> Some (Inr (QLNull, ts)))"

text \<open>
  The mutually recursive functions: \<open>parseExpr\<close> and \<open>parseAndExpr\<close> each parse an operand and
  enter their loop, \<open>or_loop\<close> and \<open>and_loop\<close>; \<open>None\<close> is running out of fuel.
\<close>

fun parseExpr :: "'d poco \<Rightarrow> nat \<Rightarrow> token list \<Rightarrow> 'd parse_result"
  and parseAndExpr :: "'d poco \<Rightarrow> nat \<Rightarrow> token list \<Rightarrow> 'd parse_result"
  and parseRelExpr :: "'d poco \<Rightarrow> nat \<Rightarrow> token list \<Rightarrow> 'd parse_result"
  and or_loop :: "'d poco \<Rightarrow> nat \<Rightarrow> 'd qlexpr \<Rightarrow> token list \<Rightarrow> 'd parse_result"
  and and_loop :: "'d poco \<Rightarrow> nat \<Rightarrow> 'd qlexpr \<Rightarrow> token list \<Rightarrow> 'd parse_result" where
  "parseExpr E 0 ts = None"
| "parseExpr E (Suc n) ts = obind (parseAndExpr E n ts) (\<lambda>(e, ts'). or_loop E n e ts')"
| "or_loop E 0 e ts = None"
| "or_loop E (Suc n) e ts =
     (if cur_op ts = OP_OR then
        obind (Some (next_token ts)) (\<lambda>ts1.
        obind (parseAndExpr E n ts1) (\<lambda>(r, ts2). or_loop E n (QLOrExpr e r) ts2))
      else Some (Inr (e, ts)))"
| "parseAndExpr E 0 ts = None"
| "parseAndExpr E (Suc n) ts = obind (parseRelExpr E n ts) (\<lambda>(e, ts'). and_loop E n e ts')"
| "and_loop E 0 e ts = None"
| "and_loop E (Suc n) e ts =
     (if cur_op ts = OP_AND then
        obind (Some (next_token ts)) (\<lambda>ts1.
        obind (parseRelExpr E n ts1) (\<lambda>(r, ts2). and_loop E n (QLAndExpr e r) ts2))
      else Some (Inr (e, ts)))"
| "parseRelExpr E 0 ts = None"
| "parseRelExpr E (Suc n) ts =
     (let neg = (cur_op ts = OP_NOT) in
      obind (Some (if neg then next_token ts else Inr ts)) (\<lambda>ts1.
      obind (parse_primary (\<lambda>t. parseExpr E n t) E ts1) (\<lambda>(e, ts5).
      Some (Inr (if neg then QLNotExpr e else e, ts5)))))"

definition query_fuel :: "token list \<Rightarrow> nat" where
  "query_fuel ts = 4 * length ts + 4"

definition parse_query :: "'d poco \<Rightarrow> token list \<Rightarrow> 'd qlexpr res option" where
  "parse_query E ts =
     obind (Some (case ts of TError e # _ \<Rightarrow> Inl e | _ \<Rightarrow> Inr ts)) (\<lambda>ts0.
     obind (parseExpr E (query_fuel ts0) ts0) (\<lambda>(e, rest).
       if rest = [] then Some (Inr e)
       else Some (Inl (SyntaxException (''Extra tokens after expression: '' @ tokenString rest)))))"

section \<open>The parser always returns\<close>

lemma next_token_length:
  "next_token ts = Inr ts' \<Longrightarrow> length ts' = length ts - 1"
  by (cases ts; cases "tl ts") (auto simp: next_token_def split: token.splits)

lemma parse_relation_length:
  "parse_relation E k ts = Inr (e, ts') \<Longrightarrow> length ts' \<le> length ts"
  by (auto simp: parse_relation_def rbind_eq_Inr dest!: next_token_length split: if_splits)

lemma parse_primary_returns:
  assumes "\<And>ts2. cur_op ts = OP_OPENPARENT \<Longrightarrow> next_token ts = Inr ts2 \<Longrightarrow> returns (pe ts2)"
  shows "returns (parse_primary pe E ts)"
  using assms by (auto simp: parse_primary_def split: list.split token.split)

lemma parse_primary_length:
  assumes "\<And>e ts2 ts'. pe ts2 = Some (Inr (e, ts')) \<Longrightarrow> length ts' \<le> length ts2"
    and "parse_primary pe E ts = Some (Inr (e, ts'))"
  shows "length ts' \<le> length ts"
proof (cases "cur_op ts = OP_OPENPARENT")
  case True
  then obtain ts2 ts3 where "next_token ts = Inr ts2" "pe ts2 = Some (Inr (e, ts3))"
    "next_token ts3 = Inr ts'"
    using assms(2) by (auto simp: parse_primary_def obind_Some_Inr rbind_eq_Inr split: if_splits)
  then show ?thesis using assms(1) [of ts2 e ts3] by (auto dest!: next_token_length)
next
  case False
  then show ?thesis using assms(2)
    by (cases ts) (auto simp: parse_primary_def obind_Some_Inr split: token.splits
        dest!: next_token_length parse_relation_length)
qed

lemma cur_op_nonempty: "cur_op ts \<noteq> 0 \<Longrightarrow> ts \<noteq> []"
  by (auto simp: cur_op_def)

lemma parser_shrinks:
  "parseExpr E n ts = Some (Inr (e, ts')) \<Longrightarrow> length ts' \<le> length ts"
  "parseAndExpr E n ts = Some (Inr (e, ts')) \<Longrightarrow> length ts' \<le> length ts"
  "parseRelExpr E n ts = Some (Inr (e, ts')) \<Longrightarrow> length ts' \<le> length ts"
  "or_loop E n e0 ts = Some (Inr (e, ts')) \<Longrightarrow> length ts' \<le> length ts"
  "and_loop E n e0 ts = Some (Inr (e, ts')) \<Longrightarrow> length ts' \<le> length ts"
proof (induction n arbitrary: ts e ts' e0)
  case 0
  {
    case 1 then show ?case by simp
  next
    case 2 then show ?case by simp
  next
    case 3 then show ?case by simp
  next
    case 4 then show ?case by simp
  next
    case 5 then show ?case by simp
  }
next
  case (Suc n)
  {
    case 1
    then show ?case
      using Suc.IH(2,4) by (fastforce simp: obind_Some_Inr intro: order_trans)
  next
    case 2
    then show ?case
      using Suc.IH(3,5) by (fastforce simp: obind_Some_Inr intro: order_trans)
  next
    case 3
    then obtain ts1 where ts1: "(if cur_op ts = OP_NOT then next_token ts else Inr ts) = Inr ts1"
      by (auto simp: Let_def obind_Some_Inr)
    then have "length ts1 \<le> length ts" by (auto split: if_splits dest!: next_token_length)
    moreover have "length ts' \<le> length ts1"
      using 3 ts1 parse_primary_length [where pe = "\<lambda>t. parseExpr E n t" and ts = ts1, OF Suc.IH(1)]
      by (auto simp: Let_def obind_Some_Inr)
    ultimately show ?case by simp
  next
    case 4
    show ?case
    proof (cases "cur_op ts = OP_OR")
      case True
      then obtain ts1 r ts2 where "next_token ts = Inr ts1"
        "parseAndExpr E n ts1 = Some (Inr (r, ts2))" "or_loop E n (QLOrExpr e0 r) ts2 = Some (Inr (e, ts'))"
        using 4 by (auto simp: obind_Some_Inr)
      then show ?thesis using Suc.IH(2) Suc.IH(4) next_token_length by fastforce
    qed (use 4 in auto)
  next
    case 5
    show ?case
    proof (cases "cur_op ts = OP_AND")
      case True
      then obtain ts1 r ts2 where "next_token ts = Inr ts1"
        "parseRelExpr E n ts1 = Some (Inr (r, ts2))" "and_loop E n (QLAndExpr e0 r) ts2 = Some (Inr (e, ts'))"
        using 5 by (auto simp: obind_Some_Inr)
      then show ?thesis using Suc.IH(3) Suc.IH(5) next_token_length by fastforce
    qed (use 5 in auto)
  }
qed

lemma parser_fuel:
  "4 * length ts + 3 < n \<Longrightarrow> returns (parseExpr E n ts)"
  "4 * length ts + 2 < n \<Longrightarrow> returns (parseAndExpr E n ts)"
  "4 * length ts + 1 < n \<Longrightarrow> returns (parseRelExpr E n ts)"
  "4 * length ts + 2 < n \<Longrightarrow> returns (or_loop E n e0 ts)"
  "4 * length ts + 1 < n \<Longrightarrow> returns (and_loop E n e0 ts)"
proof (induction n arbitrary: ts e0)
  case 0
  {
    case 1 then show ?case by simp
  next
    case 2 then show ?case by simp
  next
    case 3 then show ?case by simp
  next
    case 4 then show ?case by simp
  next
    case 5 then show ?case by simp
  }
next
  case (Suc n)
  have shrink: "parseAndExpr E n ts = Some (Inr (e, ts')) \<Longrightarrow> length ts' \<le> length ts"
    "parseRelExpr E n ts = Some (Inr (e, ts')) \<Longrightarrow> length ts' \<le> length ts" for ts e ts'
    using parser_shrinks by blast+
  {
    case 1
    have "returns (parseAndExpr E n ts)" using Suc.IH(2) 1 by simp
    moreover have "returns (or_loop E n e ts')" if "parseAndExpr E n ts = Some (Inr (e, ts'))" for e ts'
      using shrink(1) [OF that] Suc.IH(4) [of ts' e] 1 by simp
    ultimately show ?case by auto
  next
    case 2
    have "returns (parseRelExpr E n ts)" using Suc.IH(3) 2 by simp
    moreover have "returns (and_loop E n e ts')" if "parseRelExpr E n ts = Some (Inr (e, ts'))" for e ts'
      using shrink(2) [OF that] Suc.IH(5) [of ts' e] 2 by simp
    ultimately show ?case by auto
  next
    case 3
    have paren: "returns (parseExpr E n ts2)"
      if "length ts1 \<le> length ts" "cur_op ts1 = OP_OPENPARENT" "next_token ts1 = Inr ts2" for ts1 ts2
    proof -
      have "ts1 \<noteq> []" using that(2) cur_op_nonempty [of ts1] by (simp add: opcode_defs)
      then have "length ts2 < length ts1" using next_token_length [OF that(3)] by (cases ts1) auto
      then show ?thesis using Suc.IH(1) [of ts2] that(1) 3 by simp
    qed
    have "length ts1 \<le> length ts"
      if "(if cur_op ts = OP_NOT then next_token ts else Inr ts) = Inr ts1" for ts1
      using that by (auto split: if_splits dest!: next_token_length)
    then have "returns (parse_primary (\<lambda>t. parseExpr E n t) E ts1)"
      if "(if cur_op ts = OP_NOT then next_token ts else Inr ts) = Inr ts1" for ts1
      using that paren by (intro parse_primary_returns) blast
    then show ?case
      by (auto simp: Let_def split: prod.split)
  next
    case 4
    have step: "returns (parseAndExpr E n ts1)
       \<and> (\<forall>r ts2. parseAndExpr E n ts1 = Some (Inr (r, ts2)) \<longrightarrow> returns (or_loop E n (QLOrExpr e0 r) ts2))"
      if "cur_op ts = OP_OR" "next_token ts = Inr ts1" for ts1
    proof -
      have "ts \<noteq> []" using that(1) cur_op_nonempty [of ts] by (simp add: opcode_defs)
      then have len: "length ts1 < length ts" using next_token_length [OF that(2)] by (cases ts) auto
      then show ?thesis
        using Suc.IH(2) [of ts1] Suc.IH(4) shrink(1) [of ts1] 4 by fastforce
    qed
    show ?case
      using step by (auto split: prod.split)
  next
    case 5
    have step: "returns (parseRelExpr E n ts1)
       \<and> (\<forall>r ts2. parseRelExpr E n ts1 = Some (Inr (r, ts2)) \<longrightarrow> returns (and_loop E n (QLAndExpr e0 r) ts2))"
      if "cur_op ts = OP_AND" "next_token ts = Inr ts1" for ts1
    proof -
      have "ts \<noteq> []" using that(1) cur_op_nonempty [of ts] by (simp add: opcode_defs)
      then have len: "length ts1 < length ts" using next_token_length [OF that(2)] by (cases ts) auto
      then show ?thesis
        using Suc.IH(3) [of ts1] Suc.IH(5) shrink(2) [of ts1] 5 by fastforce
    qed
    show ?case
      using step by (auto split: prod.split)
  }
qed

text \<open>
  \<open>QLParser::parse\<close> returns on every token sequence, with an expression or with a thrown
  exception: the fuel \<open>parse_query\<close> starts with never runs out.
\<close>

theorem parse_query_total: "\<exists>r. parse_query E ts = Some r"
proof -
  have "returns (parse_query E ts)"
    unfolding parse_query_def using parser_fuel(1) [of _ "query_fuel _" E]
    by (auto simp: query_fuel_def split: prod.split)
  then show ?thesis by (auto simp: returns_def)
qed

section \<open>Writing expressions as token sequences\<close>

text \<open>
  \<open>ql_tokens lvl e\<close> writes an expression with the parentheses its place needs: level 0 is an operand of
  nothing, 1 the right operand of \<open>||\<close>, 2 the right operand of \<open>&&\<close>, 3 the operand of \<open>!\<close>. The token of
  a literal value is the parameter \<open>lit\<close>.
\<close>

definition parens :: "bool \<Rightarrow> token list \<Rightarrow> token list" where
  "parens b ts = (if b then TOperator ''('' # ts @ [TOperator '')''] else ts)"

definition quoted :: "string \<Rightarrow> string" where
  "quoted s = quote_char # literal_escape s @ [quote_char]"

fun ql_tokens :: "('d any \<Rightarrow> token) \<Rightarrow> nat \<Rightarrow> 'd qlexpr \<Rightarrow> token list" where
  "ql_tokens lit lvl QLNull = []"
| "ql_tokens lit lvl (QLOrExpr l r) =
     parens (lvl > 0) (ql_tokens lit 0 l @ TOperator ''||'' # ql_tokens lit 1 r)"
| "ql_tokens lit lvl (QLAndExpr l r) =
     parens (lvl > 1) (ql_tokens lit 1 l @ TOperator ''&&'' # ql_tokens lit 2 r)"
| "ql_tokens lit lvl (QLNotExpr e) = parens (lvl > 2) (TOperator ''!'' # ql_tokens lit 3 e)"
| "ql_tokens lit lvl (QLExistsExpr k) = [TIdentifier k]"
| "ql_tokens lit lvl (QLEqExpr k v) = [TIdentifier k, TOperator ''=='', lit v]"
| "ql_tokens lit lvl (QLNeExpr k v) = [TIdentifier k, TOperator ''!='', lit v]"
| "ql_tokens lit lvl (QLLtExpr k v) = [TIdentifier k, TOperator ''<'', lit v]"
| "ql_tokens lit lvl (QLLeExpr k v) = [TIdentifier k, TOperator ''<='', lit v]"
| "ql_tokens lit lvl (QLGtExpr k v) = [TIdentifier k, TOperator ''>'', lit v]"
| "ql_tokens lit lvl (QLGeExpr k v) = [TIdentifier k, TOperator ''>='', lit v]"
| "ql_tokens lit lvl (QLMatchExpr k g) = [TIdentifier k, TOperator ''=~'', TString (quoted g)]"
| "ql_tokens lit lvl (QLMatchRegExpr k g) =
     [TIdentifier k, TOperator ''=~'', TRegExp (CHR ''/'' # g @ ''/'')]"

text \<open>
  Expressions the notation can write: no null pointer inside, the token of every literal is read back
  as the literal, and regular expressions compile and do not contain their delimiter.
\<close>

fun ql_writable :: "'d poco \<Rightarrow> ('d any \<Rightarrow> token) \<Rightarrow> 'd qlexpr \<Rightarrow> bool" where
  "ql_writable E lit QLNull = False"
| "ql_writable E lit (QLOrExpr l r) = (ql_writable E lit l \<and> ql_writable E lit r)"
| "ql_writable E lit (QLAndExpr l r) = (ql_writable E lit l \<and> ql_writable E lit r)"
| "ql_writable E lit (QLNotExpr e) = ql_writable E lit e"
| "ql_writable E lit (QLEqExpr k v) = (token2value E [lit v] = Inr v)"
| "ql_writable E lit (QLNeExpr k v) = (token2value E [lit v] = Inr v)"
| "ql_writable E lit (QLLtExpr k v) = (token2value E [lit v] = Inr v)"
| "ql_writable E lit (QLLeExpr k v) = (token2value E [lit v] = Inr v)"
| "ql_writable E lit (QLGtExpr k v) = (token2value E [lit v] = Inr v)"
| "ql_writable E lit (QLGeExpr k v) = (token2value E [lit v] = Inr v)"
| "ql_writable E lit (QLMatchRegExpr k g) =
     (CHR ''/'' \<notin> set g \<and> regexCompile E g = Inr ())"
| "ql_writable E lit _ = True"

subsection \<open>Results that do not depend on the fuel\<close>

definition ev :: "(nat \<Rightarrow> 'a res option) \<Rightarrow> 'a \<Rightarrow> bool" where
  "ev f y \<longleftrightarrow> (\<exists>N. \<forall>n \<ge> N. f n = Some (Inr y))"

lemma ev_Suc:
  assumes "\<And>n. f n = Some (Inr x) \<Longrightarrow> g n = Some (Inr y) \<Longrightarrow> h (Suc n) = Some (Inr z)"
    and "ev f x" and "ev g y"
  shows "ev h z"
proof -
  obtain N M where N: "\<forall>n \<ge> N. f n = Some (Inr x)" and M: "\<forall>n \<ge> M. g n = Some (Inr y)"
    using assms(2,3) by (auto simp: ev_def)
  have "h n = Some (Inr z)" if "n \<ge> Suc (max N M)" for n
    using that assms(1) [of "n - 1"] N M by (cases n) auto
  then show ?thesis unfolding ev_def by blast
qed

lemma ev_const [simp]: "ev (\<lambda>n. Some (Inr x)) x"
  by (auto simp: ev_def)

lemma ev_parseExpr:
  assumes "ev (\<lambda>n. parseAndExpr E n ts) (e1, ts1)" and "ev (\<lambda>n. or_loop E n e1 ts1) y"
  shows "ev (\<lambda>n. parseExpr E n ts) y"
  by (rule ev_Suc [OF _ assms]) simp

lemma ev_parseAndExpr:
  assumes "ev (\<lambda>n. parseRelExpr E n ts) (e1, ts1)" and "ev (\<lambda>n. and_loop E n e1 ts1) y"
  shows "ev (\<lambda>n. parseAndExpr E n ts) y"
  by (rule ev_Suc [OF _ assms]) simp

lemma ev_or_loop_step:
  assumes "cur_op ts = OP_OR" and "next_token ts = Inr ts1"
    and "ev (\<lambda>n. parseAndExpr E n ts1) (r, ts2)" and "ev (\<lambda>n. or_loop E n (QLOrExpr e r) ts2) y"
  shows "ev (\<lambda>n. or_loop E n e ts) y"
  by (rule ev_Suc [OF _ assms(3,4)]) (simp add: assms)

lemma ev_and_loop_step:
  assumes "cur_op ts = OP_AND" and "next_token ts = Inr ts1"
    and "ev (\<lambda>n. parseRelExpr E n ts1) (r, ts2)" and "ev (\<lambda>n. and_loop E n (QLAndExpr e r) ts2) y"
  shows "ev (\<lambda>n. and_loop E n e ts) y"
  by (rule ev_Suc [OF _ assms(3,4)]) (simp add: assms)

lemma ev_loop_stop:
  "cur_op ts \<noteq> OP_OR \<Longrightarrow> ev (\<lambda>n. or_loop E n e ts) (e, ts)"
  "cur_op ts \<noteq> OP_AND \<Longrightarrow> ev (\<lambda>n. and_loop E n e ts) (e, ts)"
  by (rule ev_Suc [OF _ ev_const ev_const], simp)+

lemma ev_parseRelExpr:
  assumes "ev (\<lambda>n. parse_primary (\<lambda>t. parseExpr E n t) E ts) (e, rest)" and "cur_op ts \<noteq> OP_NOT"
  shows "ev (\<lambda>n. parseRelExpr E n ts) (e, rest)"
  using assms by (intro ev_Suc [OF _ assms(1) assms(1)]) simp_all

lemma ev_parseRelExpr_not:
  assumes "ev (\<lambda>n. parse_primary (\<lambda>t. parseExpr E n t) E ts1) (e, rest)"
    and "cur_op ts = OP_NOT" and "next_token ts = Inr ts1"
  shows "ev (\<lambda>n. parseRelExpr E n ts) (QLNotExpr e, rest)"
  using assms by (intro ev_Suc [OF _ assms(1) assms(1)]) simp_all

lemma ev_paren:
  assumes "ev (\<lambda>n. parseExpr E n ts2) (e, ts3)" and "cur_op ts = OP_OPENPARENT"
    and "next_token ts = Inr ts2" and "cur_op ts3 = OP_CLOSPARENT" and "next_token ts3 = Inr rest"
  shows "ev (\<lambda>n. parse_primary (\<lambda>t. parseExpr E n t) E ts) (e, rest)"
proof -
  obtain N where "\<forall>n \<ge> N. parseExpr E n ts2 = Some (Inr (e, ts3))"
    using assms(1) by (auto simp: ev_def)
  then show ?thesis
    using assms(2-) unfolding ev_def parse_primary_def by (intro exI [of _ N]) simp
qed

subsection \<open>Reading back what was written\<close>

text \<open>What may follow a written expression: the end, a closing parenthesis or a connective.\<close>

definition follows :: "token list \<Rightarrow> bool" where
  "follows ts \<longleftrightarrow> ts = [] \<or> (\<exists>v ts'. ts = TOperator v # ts' \<and> v \<in> {'')'', ''&&'', ''||''})"

lemma follows_simps [simp]:
  "follows []" "follows (TOperator '')'' # ts)" "follows (TOperator ''&&'' # ts)"
  "follows (TOperator ''||'' # ts)"
  by (simp_all add: follows_def)

lemma opcodes [simp]:
  "operator_asInteger ''('' = OP_OPENPARENT" "operator_asInteger '')'' = OP_CLOSPARENT"
  "operator_asInteger ''<'' = OP_LT" "operator_asInteger ''<='' = OP_LE"
  "operator_asInteger ''>'' = OP_GT" "operator_asInteger ''>='' = OP_GE"
  "operator_asInteger ''=='' = OP_EQ" "operator_asInteger ''=~'' = OP_MATCH"
  "operator_asInteger ''!'' = OP_NOT" "operator_asInteger ''!='' = OP_NE"
  "operator_asInteger ''&&'' = OP_AND" "operator_asInteger ''||'' = OP_OR"
  by (simp_all add: operator_asInteger_def opcode_table_def opcode_defs)

lemma cur_op_simps [simp]:
  "cur_op (TOperator v # ts) = operator_asInteger v" "cur_op (TIdentifier k # ts) = 0"
  "cur_op [] = 0"
  by (simp_all add: cur_op_def)

lemma next_token_Cons [simp]:
  "next_token (t # TError e # ts) = Inl e"
  "next_token (t # TOperator v # ts) = Inr (TOperator v # ts)"
  "next_token (t # TIdentifier v # ts) = Inr (TIdentifier v # ts)"
  "next_token (t # TString v # ts) = Inr (TString v # ts)"
  "next_token (t # TRegExp v # ts) = Inr (TRegExp v # ts)"
  "next_token [t] = Inr []"
  by (simp_all add: next_token_def)

lemma next_token_follows: "follows ts \<Longrightarrow> next_token (t # ts) = Inr ts"
  by (auto simp: follows_def)

lemma follows_not_relop: "follows ts \<Longrightarrow> \<not> isRelOp ts"
  by (auto simp: follows_def isRelOp_def opcode_defs)

lemma token2value_lit:
  assumes "token2value E [t] = Inr v"
  shows "token2value E (t # ts) = Inr v" and "next_token (u # t # ts) = Inr (t # ts)"
  using assms by (cases t; simp add: token2value_def next_token_def tokenString_def)+

lemma starts_ok:
  assumes "ql_writable E lit e"
  shows "\<exists>t ts. ql_tokens lit lvl e @ rest = t # ts \<and> (\<forall>u. next_token (u # t # ts) = Inr (t # ts))"
  using assms
proof (induction e arbitrary: lvl rest)
  case (QLOrExpr l r)
  then show ?case by (cases "lvl > 0") (auto simp: parens_def)
next
  case (QLAndExpr l r)
  then show ?case by (cases "lvl > 1") (auto simp: parens_def)
next
  case (QLNotExpr e)
  then show ?case by (auto simp: parens_def)
qed auto

lemma next_token_written: "ql_writable E lit e \<Longrightarrow>
    next_token (u # ql_tokens lit lvl e @ rest) = Inr (ql_tokens lit lvl e @ rest)"
  using starts_ok [of E lit e lvl rest] by auto

text \<open>The four ways a written expression is read back, by the function that reads it.\<close>

definition reads_primary :: "'d poco \<Rightarrow> token list \<Rightarrow> 'd qlexpr \<Rightarrow> bool" where
  "reads_primary E ts e \<longleftrightarrow> (\<forall>rest. follows rest \<longrightarrow>
     cur_op (ts @ rest) \<noteq> OP_NOT \<and> ev (\<lambda>n. parse_primary (\<lambda>t. parseExpr E n t) E (ts @ rest)) (e, rest))"

definition reads_rel :: "'d poco \<Rightarrow> token list \<Rightarrow> 'd qlexpr \<Rightarrow> bool" where
  "reads_rel E ts e \<longleftrightarrow> (\<forall>rest. follows rest \<longrightarrow> ev (\<lambda>n. parseRelExpr E n (ts @ rest)) (e, rest))"

definition reads_and :: "'d poco \<Rightarrow> token list \<Rightarrow> 'd qlexpr \<Rightarrow> bool" where
  "reads_and E ts e \<longleftrightarrow> (\<forall>rest y. follows rest \<longrightarrow> ev (\<lambda>n. and_loop E n e rest) y \<longrightarrow>
     ev (\<lambda>n. parseAndExpr E n (ts @ rest)) y)"

definition reads_or :: "'d poco \<Rightarrow> token list \<Rightarrow> 'd qlexpr \<Rightarrow> bool" where
  "reads_or E ts e \<longleftrightarrow> (\<forall>rest y. follows rest \<longrightarrow> cur_op rest \<noteq> OP_AND \<longrightarrow> ev (\<lambda>n. or_loop E n e rest) y \<longrightarrow>
     ev (\<lambda>n. parseExpr E n (ts @ rest)) y)"

lemma reads_primary_rel: "reads_primary E ts e \<Longrightarrow> reads_rel E ts e"
  by (auto simp: reads_primary_def reads_rel_def intro: ev_parseRelExpr)

lemma reads_rel_and: "reads_rel E ts e \<Longrightarrow> reads_and E ts e"
  by (auto simp: reads_rel_def reads_and_def intro: ev_parseAndExpr)

lemma reads_and_stop:
  assumes "reads_and E ts e" and "follows rest" and "cur_op rest \<noteq> OP_AND"
  shows "ev (\<lambda>n. parseAndExpr E n (ts @ rest)) (e, rest)"
  using assms(1,2) ev_loop_stop(2) [OF assms(3), of E e] unfolding reads_and_def by blast

lemma reads_and_or: "reads_and E ts e \<Longrightarrow> reads_or E ts e"
  unfolding reads_or_def using reads_and_stop ev_parseExpr by blast

lemma reads_or_primary:
  assumes "reads_or E ts e" and "\<And>u rest. next_token (u # ts @ rest) = Inr (ts @ rest)"
  shows "reads_primary E (parens True ts) e"
  unfolding reads_primary_def
proof (intro allI impI conjI)
  fix rest assume rest: "follows rest"
  let ?cl = "TOperator '')'' # rest"
  have "ev (\<lambda>n. or_loop E n e ?cl) (e, ?cl)"
    by (rule ev_loop_stop) (simp add: opcode_defs)
  moreover have "cur_op ?cl \<noteq> OP_AND" by (simp add: opcode_defs)
  ultimately have "ev (\<lambda>n. parseExpr E n (ts @ ?cl)) (e, ?cl)"
    using assms(1) unfolding reads_or_def by simp
  then show "ev (\<lambda>n. parse_primary (\<lambda>t. parseExpr E n t) E (parens True ts @ rest)) (e, rest)"
    using rest assms(2) [of "TOperator ''(''" ?cl]
    by (intro ev_paren [of E "ts @ ?cl" e ?cl]) (simp_all add: parens_def next_token_follows)
qed (simp add: parens_def opcode_defs)

lemma reads_all:
  assumes "reads_primary E ts e"
  shows "reads_primary E ts e \<and> reads_rel E ts e \<and> reads_and E ts e \<and> reads_or E ts e"
  using assms reads_primary_rel [OF assms] reads_rel_and [OF reads_primary_rel [OF assms]]
    reads_and_or [OF reads_rel_and [OF reads_primary_rel [OF assms]]] by blast

lemma reads_atom:
  assumes "\<And>rest. follows rest \<Longrightarrow> rbind (next_token (TIdentifier k # ts @ rest))
      (\<lambda>ts2. parse_relation E k ts2) = Inr (e, rest)"
  shows "reads_primary E (TIdentifier k # ts) e"
proof -
  have "parse_primary pe E (TIdentifier k # ts @ rest) = Some (Inr (e, rest))"
    if "follows rest" for pe rest
    using assms [OF that] by (auto simp: parse_primary_def opcode_defs rbind_eq_Inr)
  then show ?thesis by (auto simp: reads_primary_def opcode_defs)
qed

lemma reads_relation:
  assumes "token2value E [t] = Inr v" and "isRelOp [TOperator opr]"
    and "\<And>rest. next_token (t # rest) = Inr rest \<Longrightarrow> token2value E (t # rest) = Inr v \<Longrightarrow>
      next_token (TOperator opr # t # rest) = Inr (t # rest) \<Longrightarrow>
      parse_relation E k (TOperator opr # t # rest) = Inr (e, rest)"
  shows "let ts = [TIdentifier k, TOperator opr, t] in
    reads_primary E ts e \<and> reads_rel E ts e \<and> reads_and E ts e \<and> reads_or E ts e"
  unfolding Let_def using assms(3) token2value_lit [OF assms(1)]
  by - (rule reads_all, rule reads_atom, simp add: next_token_follows)

lemmas relation_simps = parse_relation_def isRelOp_def opcode_defs Let_def
  next_token_follows

lemma regexp_text: "CHR ''/'' \<notin> set g \<Longrightarrow> regexp_asString (CHR ''/'' # g @ ''/'') = g"
  unfolding regexp_asString_def list.case by (subst takeWhile_append2) auto

lemma reads_written:
  assumes "ql_writable E lit e"
  shows "reads_primary E (ql_tokens lit 3 e) e \<and> reads_rel E (ql_tokens lit 2 e) e
    \<and> reads_and E (ql_tokens lit 1 e) e \<and> reads_or E (ql_tokens lit 0 e) e"
  using assms
proof (induction e)
  case (QLOrExpr l r)
  let ?ts = "ql_tokens lit 0 l @ TOperator ''||'' # ql_tokens lit 1 r"
  have nxt: "next_token (u # ?ts @ rest) = Inr (?ts @ rest)" for u rest
    using next_token_written [of E lit l u 0] QLOrExpr.prems by simp
  have "reads_or E ?ts (QLOrExpr l r)"
    unfolding reads_or_def
  proof (intro allI impI)
    fix rest y
    assume rest: "follows rest" "cur_op rest \<noteq> OP_AND" "ev (\<lambda>n. or_loop E n (QLOrExpr l r) rest) y"
    have "ev (\<lambda>n. parseAndExpr E n (ql_tokens lit 1 r @ rest)) (r, rest)"
      using QLOrExpr rest by (intro reads_and_stop) auto
    then have "ev (\<lambda>n. or_loop E n l (TOperator ''||'' # ql_tokens lit 1 r @ rest)) y"
      using rest QLOrExpr.prems by (intro ev_or_loop_step) (simp_all add: next_token_written [of E])
    then show "ev (\<lambda>n. parseExpr E n (?ts @ rest)) y"
      using QLOrExpr by (auto simp: reads_or_def opcode_defs simp del: split_paired_All)
  qed
  note or = this and prim = reads_or_primary [OF this nxt]
  note rel = reads_primary_rel [OF prim]
  show ?case using or prim rel reads_rel_and [OF rel] by (simp add: parens_def)
next
  case (QLAndExpr l r)
  let ?ts = "ql_tokens lit 1 l @ TOperator ''&&'' # ql_tokens lit 2 r"
  have nxt: "next_token (u # ?ts @ rest) = Inr (?ts @ rest)" for u rest
    using next_token_written [of E lit l u 1] QLAndExpr.prems by simp
  have "reads_and E ?ts (QLAndExpr l r)"
    unfolding reads_and_def
  proof (intro allI impI)
    fix rest y
    assume rest: "follows rest" "ev (\<lambda>n. and_loop E n (QLAndExpr l r) rest) y"
    have "ev (\<lambda>n. parseRelExpr E n (ql_tokens lit 2 r @ rest)) (r, rest)"
      using QLAndExpr rest by (auto simp: reads_rel_def)
    then have "ev (\<lambda>n. and_loop E n l (TOperator ''&&'' # ql_tokens lit 2 r @ rest)) y"
      using rest QLAndExpr.prems by (intro ev_and_loop_step) (simp_all add: next_token_written [of E])
    then show "ev (\<lambda>n. parseAndExpr E n (?ts @ rest)) y"
      using QLAndExpr by (auto simp: reads_and_def simp del: split_paired_All)
  qed
  note conj = this and prim = reads_or_primary [OF reads_and_or [OF this] nxt]
  show ?case
    using conj prim reads_primary_rel [OF prim] reads_and_or [OF conj] by (simp add: parens_def)
next
  case (QLNotExpr e)
  let ?ts = "TOperator ''!'' # ql_tokens lit 3 e"
  have rel: "reads_rel E ?ts (QLNotExpr e)"
    unfolding reads_rel_def
    using QLNotExpr by (auto simp: reads_primary_def intro!: ev_parseRelExpr_not next_token_written)
  have nxt: "next_token (u # ?ts @ rest) = Inr (?ts @ rest)" for u rest
    by simp
  note conj = reads_rel_and [OF rel]
  note prim = reads_or_primary [OF reads_and_or [OF conj] nxt]
  show ?case using rel conj prim reads_and_or [OF conj] by (simp add: parens_def)
next
  case (QLMatchRegExpr k g)
  then show ?case unfolding ql_tokens.simps
    by - (rule reads_all, rule reads_atom, simp add: relation_simps regexp_text)
next
  case (QLMatchExpr k g)
  then show ?case unfolding ql_tokens.simps
    by - (rule reads_all, rule reads_atom,
      simp add: relation_simps quoted_def literal_asString_def literal_chars_escape)
next
  case (QLExistsExpr k)
  then show ?case unfolding ql_tokens.simps
    by - (rule reads_all, rule reads_atom,
      simp add: parse_relation_def next_token_follows follows_not_relop)
next
  case (QLEqExpr k v)
  then show ?case unfolding ql_tokens.simps ql_writable.simps
    by - (rule reads_relation [unfolded Let_def],
      auto simp: isRelOp_def parse_relation_def opcode_defs rbind_eq_Inr)
next
  case (QLNeExpr k v)
  then show ?case unfolding ql_tokens.simps ql_writable.simps
    by - (rule reads_relation [unfolded Let_def],
      auto simp: isRelOp_def parse_relation_def opcode_defs rbind_eq_Inr)
next
  case (QLLtExpr k v)
  then show ?case unfolding ql_tokens.simps ql_writable.simps
    by - (rule reads_relation [unfolded Let_def],
      auto simp: isRelOp_def parse_relation_def opcode_defs rbind_eq_Inr)
next
  case (QLLeExpr k v)
  then show ?case unfolding ql_tokens.simps ql_writable.simps
    by - (rule reads_relation [unfolded Let_def],
      auto simp: isRelOp_def parse_relation_def opcode_defs rbind_eq_Inr)
next
  case (QLGtExpr k v)
  then show ?case unfolding ql_tokens.simps ql_writable.simps
    by - (rule reads_relation [unfolded Let_def],
      auto simp: isRelOp_def parse_relation_def opcode_defs rbind_eq_Inr)
next
  case (QLGeExpr k v)
  then show ?case unfolding ql_tokens.simps ql_writable.simps
    by - (rule reads_relation [unfolded Let_def],
      auto simp: isRelOp_def parse_relation_def opcode_defs rbind_eq_Inr)
qed simp

subsection \<open>Fuel does not change a result\<close>

lemma obind_mono:
  assumes "\<And>y. r = Some y \<Longrightarrow> r' = Some y" and "\<And>x y. f x = Some y \<Longrightarrow> f' x = Some y"
    and "obind r f = Some z"
  shows "obind r' f' = Some z"
  using assms by (auto simp: obind_def split: option.splits sum.splits)

lemma parse_primary_mono:
  assumes "\<And>t y. pe t = Some y \<Longrightarrow> pe' t = Some y" and "parse_primary pe E ts = Some z"
  shows "parse_primary pe' E ts = Some z"
proof (cases "cur_op ts = OP_OPENPARENT")
  case True
  then show ?thesis
    using assms(2) unfolding parse_primary_def if_P [OF True]
    by (elim obind_mono [rotated 2]) (auto elim!: obind_mono [rotated 2] intro: assms(1))
next
  case False
  then show ?thesis using assms(2) by (simp add: parse_primary_def)
qed

lemmas parser_step = parseExpr.simps(2) parseAndExpr.simps(2) parseRelExpr.simps(2) or_loop.simps(2)
  and_loop.simps(2)

lemma parser_mono:
  "parseExpr E n ts = Some r \<Longrightarrow> parseExpr E (Suc n) ts = Some r"
  "parseAndExpr E n ts = Some r \<Longrightarrow> parseAndExpr E (Suc n) ts = Some r"
  "parseRelExpr E n ts = Some r \<Longrightarrow> parseRelExpr E (Suc n) ts = Some r"
  "or_loop E n e ts = Some r \<Longrightarrow> or_loop E (Suc n) e ts = Some r"
  "and_loop E n e ts = Some r \<Longrightarrow> and_loop E (Suc n) e ts = Some r"
proof (induction n arbitrary: ts r e)
  case 0
  {
    case 1 then show ?case by simp
  next
    case 2 then show ?case by simp
  next
    case 3 then show ?case by simp
  next
    case 4 then show ?case by simp
  next
    case 5 then show ?case by simp
  }
next
  case (Suc n)
  {
    case 1
    then show ?case
      unfolding parseExpr.simps(2)
      by (rule obind_mono [rotated 2]) (use Suc.IH(2,4) in \<open>auto simp del: parser_step\<close>)
  next
    case 2
    then show ?case
      unfolding parseAndExpr.simps(2)
      by (rule obind_mono [rotated 2]) (use Suc.IH(3,5) in \<open>auto simp del: parser_step\<close>)
  next
    case 3
    then show ?case
      unfolding parseRelExpr.simps(2) Let_def
      by (elim obind_mono [rotated 2])
        (auto simp del: parser_step elim!: obind_mono [rotated 2] parse_primary_mono [rotated]
          intro: Suc.IH(1))
  next
    case 4
    then show ?case
      unfolding or_loop.simps(2) [of E n e ts] or_loop.simps(2) [of E "Suc n" e ts]
      by (auto simp del: parser_step elim!: obind_mono [rotated 2] intro: Suc.IH(2,4) split: if_splits)
  next
    case 5
    then show ?case
      unfolding and_loop.simps(2) [of E n e ts] and_loop.simps(2) [of E "Suc n" e ts]
      by (auto simp del: parser_step elim!: obind_mono [rotated 2] intro: Suc.IH(3,5) split: if_splits)
  }
qed

lemma parseExpr_more_fuel: "parseExpr E n ts = Some r \<Longrightarrow> n \<le> m \<Longrightarrow> parseExpr E m ts = Some r"
  by (rule dec_induct [of n m "\<lambda>m. parseExpr E m ts = Some r"]) (auto simp del: parser_step intro: parser_mono(1))

lemma parseExpr_ev:
  assumes "ev (\<lambda>n. parseExpr E n ts) y"
  shows "parseExpr E (query_fuel ts) ts = Some (Inr y)"
proof -
  obtain r where r: "parseExpr E (query_fuel ts) ts = Some r"
    using parser_fuel(1) [of ts "query_fuel ts" E] by (auto simp: query_fuel_def returns_def)
  obtain N where N: "\<forall>n \<ge> N. parseExpr E n ts = Some (Inr y)"
    using assms by (auto simp: ev_def)
  have "parseExpr E (max N (query_fuel ts)) ts = Some r"
    by (rule parseExpr_more_fuel [OF r]) simp
  with N r show ?thesis by simp
qed

text \<open>
  C35: the parser reads back every expression: writing an expression as tokens, with parentheses only
  where the precedence of \<open>!\<close>, \<open>&&\<close> and \<open>||\<close> and their left associativity need them, and parsing the
  tokens gives the same expression.
\<close>

theorem parse_query_roundtrip:
  assumes "ql_writable E lit e"
  shows "parse_query E (ql_tokens lit 0 e) = Some (Inr e)"
proof -
  have "reads_or E (ql_tokens lit 0 e) e"
    using reads_written [OF assms] by blast
  moreover have "ev (\<lambda>n. or_loop E n e []) (e, [])"
    by (rule ev_loop_stop) (simp add: opcode_defs)
  ultimately have "ev (\<lambda>n. parseExpr E n (ql_tokens lit 0 e)) (e, [])"
    unfolding reads_or_def by (metis append_Nil2 cur_op_simps(3) follows_simps(1) OP_AND_def zero_neq_numeral)
  then have pe: "parseExpr E (query_fuel (ql_tokens lit 0 e)) (ql_tokens lit 0 e) = Some (Inr (e, []))"
    by (rule parseExpr_ev)
  obtain t ts where t: "ql_tokens lit 0 e = t # ts" "next_token (t # t # ts) = Inr (t # ts)"
    using starts_ok [OF assms, of 0 "[]"] by auto
  then have "\<not> (\<exists>x. t = TError x)" by auto
  with t pe show ?thesis by (cases t) (simp_all add: parse_query_def)
qed

definition sample_lit :: "int any \<Rightarrow> token" where
  "sample_lit v = (case v of AInt n \<Rightarrow> TInteger (sample_format n) | AFloat f \<Rightarrow> TFloat (sample_format f)
     | ABool b \<Rightarrow> TIdentifier (if b then ''true'' else ''false'') | AString s \<Rightarrow> TString (quoted s)
     | AOther \<Rightarrow> TInvalid [])"

theorem parse_query_roundtrip_witness:
  "parse_query sample_poco
     [TOperator ''!'', TOperator ''('', TIdentifier ''a'', TOperator ''||'', TIdentifier ''b'',
      TOperator ''=='', TIdentifier ''true'', TOperator '')'', TOperator ''&&'', TIdentifier ''c'']
   = Some (Inr (QLAndExpr (QLNotExpr (QLOrExpr (QLExistsExpr ''a'') (QLEqExpr ''b'' (ABool True))))
       (QLExistsExpr ''c'')))"
  using parse_query_roundtrip [of sample_poco sample_lit
      "QLAndExpr (QLNotExpr (QLOrExpr (QLExistsExpr ''a'') (QLEqExpr ''b'' (ABool True)))) (QLExistsExpr ''c'')"]
  by (simp add: sample_lit_def token2value_def parens_def)

section \<open>What a query means\<close>

text \<open>
  The relation a comparison operator stands for, on each type of literal; a property that is not set
  reads as \<open>0\<close>, \<open>false\<close> or the empty string, and a value that does not parse as the number the literal
  asks for satisfies no relation.
\<close>

definition num_rel :: "'a res \<Rightarrow> ('a \<Rightarrow> bool) \<Rightarrow> bool" where
  "num_rel r P = (\<exists>x. r = Inr x \<and> P x)"

definition rel_holds :: "'d poco \<Rightarrow> props \<Rightarrow> string \<Rightarrow> (int \<Rightarrow> int \<Rightarrow> bool) \<Rightarrow> ('d \<Rightarrow> 'd \<Rightarrow> bool)
    \<Rightarrow> (bool \<Rightarrow> bool \<Rightarrow> bool) \<Rightarrow> (string \<Rightarrow> string \<Rightarrow> bool) \<Rightarrow> 'd any \<Rightarrow> bool" where
  "rel_holds E p k ri rf rb rs v = (case v of
     AInt n \<Rightarrow> num_rel (props_getInt_d E p k 0) (\<lambda>x. ri x n)
   | AFloat f \<Rightarrow> num_rel (props_getFloat_d E p k (doubleZero E)) (\<lambda>x. rf x f)
   | ABool b \<Rightarrow> rb (props_getBool_d E p k False) b
   | AString s \<Rightarrow> rs (props_get_d E p k []) s
   | AOther \<Rightarrow> False)"

fun ql_holds :: "bool \<Rightarrow> 'd poco \<Rightarrow> props \<Rightarrow> 'd qlexpr \<Rightarrow> bool" where
  "ql_holds sc E p QLNull = False"
| "ql_holds sc E p (QLAndExpr l r) = (ql_holds sc E p l \<and> ql_holds sc E p r)"
| "ql_holds sc E p (QLOrExpr l r) = (ql_holds sc E p l \<or> ql_holds sc E p r)"
| "ql_holds sc E p (QLNotExpr e) = (\<not> ql_holds sc E p e)"
| "ql_holds sc E p (QLExistsExpr k) = (\<exists>v. smap_get (ilt E) k p = Some v)"
| "ql_holds sc E p (QLEqExpr k v) = rel_holds E p k (=) (doubleEq E) (=) (=) v"
| "ql_holds sc E p (QLNeExpr k v) = rel_holds E p k (\<noteq>) (\<lambda>x y. \<not> doubleEq E x y) (\<noteq>) (\<noteq>) v"
| "ql_holds sc E p (QLLtExpr k v) = rel_holds E p k (<) (doubleLt E) (<) (<) v"
| "ql_holds sc E p (QLLeExpr k v) = rel_holds E p k (\<le>) (doubleLe E) (\<le>) (\<le>) v"
| "ql_holds sc E p (QLGtExpr k v) = rel_holds E p k (>) (\<lambda>x y. doubleLt E y x) (>) (>) v"
| "ql_holds sc E p (QLGeExpr k v) = rel_holds E p k (\<ge>) (\<lambda>x y. doubleLe E y x) (\<ge>) (\<ge>) v"
| "ql_holds sc E p (QLMatchExpr k g) =
     (\<exists>es. list_all elem_wf es \<and> g = glob_text es \<and> glob_lang sc es (props_get_d E p k []))"
| "ql_holds sc E p (QLMatchRegExpr k g) = (regexMatch E g (props_get_d E p k []) = Inr True)"

text \<open>
  Expressions that can always be evaluated: no null expression inside, patterns that are written from
  pattern elements, and no regular expression.
\<close>

fun ql_closed :: "'d qlexpr \<Rightarrow> bool" where
  "ql_closed QLNull = False"
| "ql_closed (QLAndExpr l r) = (ql_closed l \<and> ql_closed r)"
| "ql_closed (QLOrExpr l r) = (ql_closed l \<and> ql_closed r)"
| "ql_closed (QLNotExpr e) = ql_closed e"
| "ql_closed (QLMatchExpr k g) = (\<exists>es. list_all elem_wf es \<and> g = glob_text es)"
| "ql_closed (QLMatchRegExpr k g) = False"
| "ql_closed _ = True"

lemma rel_eval_bind [simp]: "rel_eval (rbind r (\<lambda>x. Inr (P x))) = Inr (num_rel r P)"
  by (cases r) (auto simp: rel_eval_def num_rel_def)

lemma rel_eval_simps [simp]: "rel_eval (Inr b) = Inr b" "rel_eval (Inl x) = Inr False"
  by (simp_all add: rel_eval_def)

lemmas rel_impl_defs = eq_impl_def ne_impl_def lt_impl_def le_impl_def gt_impl_def ge_impl_def

lemma glob_meaning:
  assumes "list_all elem_wf es"
  shows "glob sc (glob_text es) s =
    Inr (\<exists>fs. list_all elem_wf fs \<and> glob_text es = glob_text fs \<and> glob_lang sc fs s)"
proof -
  have "glob_lang sc fs s = glob_lang sc es s" if "list_all elem_wf fs" "glob_text es = glob_text fs" for fs
    using glob_language [OF assms, of sc s] glob_language [OF that(1), of sc s] that(2) by simp
  then have "(\<exists>fs. list_all elem_wf fs \<and> glob_text es = glob_text fs \<and> glob_lang sc fs s) = glob_lang sc es s"
    using assms by blast
  then show ?thesis using glob_language [OF assms, of sc s] by simp
qed

lemma ql_evaluate_total: "ql_closed e \<Longrightarrow> ql_evaluate sc E p e = Inr (ql_holds sc E p e)"
proof (induction e)
  case (QLMatchExpr k g)
  then obtain es where "list_all elem_wf es" "g = glob_text es" by auto
  then show ?case using glob_meaning [of es sc "props_get_d E p k []"] by simp
qed (simp_all add: rel_holds_def props_has_def rel_impl_defs split: any.split)



text \<open>
  where an expression is missing the parser reports no error but leaves a null expression: the empty
  query is one, a lone \<open>!\<close> negates one, and evaluating either throws, while a doubled negation, which the
  grammar of the query language does not have, is refused.
\<close>

theorem parse_query_null:
  "parse_query E [] = Some (Inr QLNull) \<and>
   parse_query E [TOperator ''!''] = Some (Inr (QLNotExpr QLNull)) \<and>
   parse_query E [TIdentifier a, TOperator ''&&''] = Some (Inr (QLAndExpr (QLExistsExpr a) QLNull)) \<and>
   ql_evaluate sc E p QLNull = Inl NullPointerException \<and>
   ql_evaluate sc E p (QLNotExpr QLNull) = Inl NullPointerException \<and>
   parse_query E [TOperator ''!'', TOperator ''!'', TIdentifier a] =
     Some (Inl (SyntaxException ''Extra tokens after expression: !''))"
  by (simp add: parse_query_def query_fuel_def cur_op_def next_token_def parse_primary_def eval_nat_numeral
      parse_relation_def isRelOp_def opcode_defs operator_asInteger_def opcode_table_def tokenString_def)

end
