(* ===== verification/OSP_Services.thy ===== *)
theory OSP_Services
  imports OSP_Query
begin

text \<open>
  The service registry, \<open>platform/OSP/src/ServiceRegistry.cpp\<close>, the service references it hands out,
  \<open>ServiceRef.cpp\<close>, and the listeners that follow it, \<open>ServiceListener.cpp\<close>. Objects live in stores:
  a \<open>ServiceRef::Ptr\<close> is an index into \<open>refs\<close>, a listener an index into \<open>lobjs\<close>, where \<open>None\<close> is an
  object that has been destroyed. The event of the registry is the list \<open>delegates\<close> of the listeners
  attached to it, called in the order they were added; an exception of one of them ends the call.
  The locked parts of the operations are definitions of their own, so that the interleavings the
  unlocked parts allow can be written down.
\<close>

section \<open>State\<close>

datatype service = PlainService string nat | FactoryService string nat

fun svc_type :: "service \<Rightarrow> string" where
  "svc_type (PlainService t i) = t"
| "svc_type (FactoryService t i) = t"

record service_ref =
  sr_name :: string
  sr_props :: props
  sr_service :: service

datatype notification = NRegistered nat | NUnregistered nat

record 'd listener =
  lexpr :: "'d qlexpr"
  lrefs :: "nat set"
  llog :: "notification list"

record 'd registry =
  services :: "(string \<times> nat) list"
  refs :: "service_ref list"
  lobjs :: "'d listener option list"
  delegates :: "nat list"

definition registry_init :: "'d registry" where
  "registry_init = \<lparr>services = [], refs = [], lobjs = [], delegates = []\<rparr>"

definition PROP_NAME :: string where "PROP_NAME = ''name''"
definition PROP_TYPE :: string where "PROP_TYPE = ''type''"

text \<open>\<open>ServiceRef::instance\<close>: a factory creates the service, anything else is the service.\<close>

definition ref_instance :: "(service \<Rightarrow> service) \<Rightarrow> service_ref \<Rightarrow> service" where
  "ref_instance createService s = (case sr_service s of
     FactoryService t i \<Rightarrow> createService (FactoryService t i)
   | PlainService t i \<Rightarrow> PlainService t i)"

section \<open>Listeners\<close>

definition onServiceRefRegistered ::
    "bool \<Rightarrow> 'd poco \<Rightarrow> props \<Rightarrow> nat \<Rightarrow> 'd listener \<Rightarrow> 'd listener res" where
  "onServiceRefRegistered sc E p r L =
     rbind (ql_evaluate sc E p (lexpr L)) (\<lambda>b. Inr
       (if b then
          (if r \<notin> lrefs L then L\<lparr>lrefs := insert r (lrefs L), llog := llog L @ [NRegistered r]\<rparr> else L)
        else L))"

definition onServiceRefUnregistered :: "nat \<Rightarrow> 'd listener \<Rightarrow> 'd listener res" where
  "onServiceRefUnregistered r L = Inr
     (if r \<in> lrefs L then L\<lparr>lrefs := lrefs L - {r}, llog := llog L @ [NUnregistered r]\<rparr> else L)"

text \<open>
  Firing an event of the registry: the delegates are called one after the other. Calling a delegate
  whose listener has been destroyed is undefined behaviour, an error value here.
\<close>

fun fire :: "('d listener \<Rightarrow> 'd listener res) \<Rightarrow> nat list \<Rightarrow> 'd listener option list
    \<Rightarrow> 'd listener option list \<times> unit res" where
  "fire f [] ls = (ls, Inr ())"
| "fire f (i # is) ls = (case ls ! i of
     None \<Rightarrow> (ls, Inl (LogicError ''dangling delegate''))
   | Some L \<Rightarrow> (case f L of Inl e \<Rightarrow> (ls, Inl e) | Inr L' \<Rightarrow> fire f is (ls[i := Some L'])))"

definition fire_registered :: "bool \<Rightarrow> 'd poco \<Rightarrow> nat \<Rightarrow> 'd registry \<Rightarrow> 'd registry \<times> unit res" where
  "fire_registered sc E r R =
     (let (ls, res) = fire (onServiceRefRegistered sc E (sr_props (refs R ! r)) r) (delegates R) (lobjs R)
      in (R\<lparr>lobjs := ls\<rparr>, res))"

definition fire_unregistered :: "nat \<Rightarrow> 'd registry \<Rightarrow> 'd registry \<times> unit res" where
  "fire_unregistered r R =
     (let (ls, res) = fire (onServiceRefUnregistered r) (delegates R) (lobjs R)
      in (R\<lparr>lobjs := ls\<rparr>, res))"

section \<open>The registry\<close>

text \<open>The part of \<open>registerService\<close> that holds the lock; the new reference is the end of the store.\<close>

definition register_locked ::
    "'d poco \<Rightarrow> string \<Rightarrow> service option \<Rightarrow> props \<Rightarrow> 'd registry \<Rightarrow> ('d registry \<times> nat) res" where
  "register_locked E name svc props R =
     (case smap_get (<) name (services R) of
        Some _ \<Rightarrow> Inl (ExistsException name)
      | None \<Rightarrow> (case svc of
          None \<Rightarrow> Inl NullPointerException
        | Some s \<Rightarrow>
            let r = length (refs R);
                p = props_set E (props_set E props PROP_NAME name) PROP_TYPE (svc_type s)
            in Inr (R\<lparr>services := smap_put (<) name r (services R),
                      refs := refs R @ [\<lparr>sr_name = name, sr_props = p, sr_service = s\<rparr>]\<rparr>, r)))"

definition registerService ::
    "bool \<Rightarrow> 'd poco \<Rightarrow> string \<Rightarrow> service option \<Rightarrow> props \<Rightarrow> 'd registry \<Rightarrow> 'd registry \<times> nat res" where
  "registerService sc E name svc props R =
     (case register_locked E name svc props R of
        Inl e \<Rightarrow> (R, Inl e)
      | Inr (R1, r) \<Rightarrow> let (R2, res) = fire_registered sc E r R1 in (R2, rbind res (\<lambda>_. Inr r)))"

definition unregister_locked :: "string \<Rightarrow> 'd registry \<Rightarrow> ('d registry \<times> nat) res" where
  "unregister_locked name R =
     (case smap_get (<) name (services R) of
        None \<Rightarrow> Inl (NotFoundException name)
      | Some r \<Rightarrow> Inr (R\<lparr>services := smap_del (<) name (services R)\<rparr>, r))"

definition unregisterService :: "string \<Rightarrow> 'd registry \<Rightarrow> 'd registry \<times> unit res" where
  "unregisterService name R =
     (case unregister_locked name R of Inl e \<Rightarrow> (R, Inl e) | Inr (R1, r) \<Rightarrow> fire_unregistered r R1)"

text \<open>\<open>unregisterService(ServiceRef::Ptr)\<close>: a null pointer is ignored.\<close>

definition unregisterServiceRef :: "nat option \<Rightarrow> 'd registry \<Rightarrow> 'd registry \<times> unit res" where
  "unregisterServiceRef p R =
     (case p of None \<Rightarrow> (R, Inr ()) | Some r \<Rightarrow> unregisterService (sr_name (refs R ! r)) R)"

definition findByName :: "string \<Rightarrow> 'd registry \<Rightarrow> nat option" where
  "findByName name R = smap_get (<) name (services R)"

text \<open>\<open>find(const QLExpr&, results)\<close>: the results are pushed in map order, and counted.\<close>

fun find_loop :: "bool \<Rightarrow> 'd poco \<Rightarrow> 'd qlexpr \<Rightarrow> service_ref list \<Rightarrow> (string \<times> nat) list
    \<Rightarrow> nat list \<times> nat \<Rightarrow> (nat list \<times> nat) res" where
  "find_loop sc E e rs [] (results, count) = Inr (results, count)"
| "find_loop sc E e rs ((_, r) # m) (results, count) =
     rbind (ql_evaluate sc E (sr_props (rs ! r)) e) (\<lambda>b.
       find_loop sc E e rs m (if b then (results @ [r], count + 1) else (results, count)))"

definition find_expr :: "bool \<Rightarrow> 'd poco \<Rightarrow> 'd qlexpr \<Rightarrow> 'd registry \<Rightarrow> (nat list \<times> nat) res" where
  "find_expr sc E e R = find_loop sc E e (refs R) (services R) ([], 0)"

text \<open>
  \<open>find(const std::string&, results)\<close>; \<open>tokens\<close> is the tokenizer. Following the pointer the parser
  returns throws when it is null.
\<close>

definition find_query :: "bool \<Rightarrow> 'd poco \<Rightarrow> (string \<Rightarrow> token list) \<Rightarrow> string \<Rightarrow> 'd registry
    \<Rightarrow> (nat list \<times> nat) res option" where
  "find_query sc E tokens query R =
     obind (parse_query E (tokens query)) (\<lambda>e. Some
       (case e of QLNull \<Rightarrow> Inl NullPointerException | _ \<Rightarrow> find_expr sc E e R))"

text \<open>
  The constructor and \<open>init\<close> of a listener: parse, attach to the registry, look up what is registered
  already, and announce it. The listener is the end of the store. When \<open>init\<close> throws after the
  delegates have been attached the object is destroyed without its destructor being run: the delegates
  stay.
\<close>

definition listener_attach :: "'d qlexpr \<Rightarrow> 'd registry \<Rightarrow> 'd registry \<times> nat" where
  "listener_attach e R =
     (let i = length (lobjs R)
      in (R\<lparr>lobjs := lobjs R @ [Some \<lparr>lexpr = e, lrefs = {}, llog = []\<rparr>], delegates := delegates R @ [i]\<rparr>, i))"

definition listener_announce ::
    "bool \<Rightarrow> 'd poco \<Rightarrow> nat \<Rightarrow> nat \<Rightarrow> 'd registry \<Rightarrow> 'd registry res" where
  "listener_announce sc E i r R =
     (case lobjs R ! i of
        None \<Rightarrow> Inr R
      | Some L \<Rightarrow> rbind (onServiceRefRegistered sc E (sr_props (refs R ! r)) r L)
                    (\<lambda>L'. Inr (R\<lparr>lobjs := (lobjs R)[i := Some L']\<rparr>)))"

fun listener_announce_all ::
    "bool \<Rightarrow> 'd poco \<Rightarrow> nat \<Rightarrow> nat list \<Rightarrow> 'd registry \<Rightarrow> 'd registry res" where
  "listener_announce_all sc E i [] R = Inr R"
| "listener_announce_all sc E i (r # rs) R =
     rbind (listener_announce sc E i r R) (listener_announce_all sc E i rs)"

definition listener_init :: "bool \<Rightarrow> 'd poco \<Rightarrow> 'd qlexpr \<Rightarrow> 'd registry \<Rightarrow> 'd registry \<times> nat res" where
  "listener_init sc E e R =
     (let (R1, i) = listener_attach e R;
          abandoned = R1\<lparr>lobjs := (lobjs R1)[i := None]\<rparr>
      in case (case e of QLNull \<Rightarrow> Inl NullPointerException | _ \<Rightarrow> find_expr sc E e R1) of
           Inl x \<Rightarrow> (abandoned, Inl x)
         | Inr (results, n) \<Rightarrow>
             (case listener_announce_all sc E i results R1 of
                Inl x \<Rightarrow> (abandoned, Inl x)
              | Inr R2 \<Rightarrow> (R2, Inr i)))"

definition createListener :: "bool \<Rightarrow> 'd poco \<Rightarrow> (string \<Rightarrow> token list) \<Rightarrow> string \<Rightarrow> 'd registry
    \<Rightarrow> ('d registry \<times> nat res) option" where
  "createListener sc E tokens query R =
     (case parse_query E (tokens query) of
        None \<Rightarrow> None
      | Some (Inl x) \<Rightarrow> Some (R, Inl x)
      | Some (Inr e) \<Rightarrow> Some (listener_init sc E e R))"

text \<open>\<open>~ServiceListener\<close>: detach the delegates; the object is gone.\<close>

definition listener_destroy :: "nat \<Rightarrow> 'd registry \<Rightarrow> 'd registry" where
  "listener_destroy i R =
     R\<lparr>delegates := removeAll i (delegates R), lobjs := (lobjs R)[i := None]\<rparr>"

section \<open>Finding services\<close>

definition registered :: "'d registry \<Rightarrow> nat set" where
  "registered R = snd ` set (services R)"

definition matching :: "bool \<Rightarrow> 'd poco \<Rightarrow> 'd qlexpr \<Rightarrow> 'd registry \<Rightarrow> nat set" where
  "matching sc E e R = {r \<in> registered R. ql_holds sc E (sr_props (refs R ! r)) e}"

lemma find_loop_filter:
  assumes "ql_closed e"
  shows "find_loop sc E e rs m (acc, n) =
    (let found = filter (\<lambda>r. ql_holds sc E (sr_props (rs ! r)) e) (map snd m)
     in Inr (acc @ found, n + length found))"
proof (induction m arbitrary: acc n)
  case Nil
  then show ?case by simp
next
  case (Cons x m)
  then show ?case by (cases x) (simp add: ql_evaluate_total [OF assms] Let_def)
qed



section \<open>The invariant of the registry\<close>

text \<open>
  What a client that starts with nothing believes to be registered after a sequence of notifications;
  \<open>None\<close> when it is told twice that a service has come, or that an unknown one has gone.
\<close>

fun replay :: "nat set \<Rightarrow> notification list \<Rightarrow> nat set option" where
  "replay S [] = Some S"
| "replay S (NRegistered r # l) = (if r \<in> S then None else replay (insert r S) l)"
| "replay S (NUnregistered r # l) = (if r \<in> S then replay (S - {r}) l else None)"

lemma replay_append: "replay S (l @ l') = (case replay S l of None \<Rightarrow> None | Some S' \<Rightarrow> replay S' l')"
  by (induction S l rule: replay.induct) auto

definition listener_ok :: "bool \<Rightarrow> 'd poco \<Rightarrow> 'd registry \<Rightarrow> 'd listener \<Rightarrow> bool" where
  "listener_ok sc E R L \<longleftrightarrow> ql_closed (lexpr L) \<and> lrefs L = matching sc E (lexpr L) R
     \<and> replay {} (llog L) = Some (lrefs L)"

definition names_ok :: "'d registry \<Rightarrow> bool" where
  "names_ok R \<longleftrightarrow> string_order.wf_map (services R) \<and>
     (\<forall>n r. (n, r) \<in> set (services R) \<longrightarrow> r < length (refs R) \<and> sr_name (refs R ! r) = n)"

definition registry_inv :: "bool \<Rightarrow> 'd poco \<Rightarrow> 'd registry \<Rightarrow> bool" where
  "registry_inv sc E R \<longleftrightarrow> names_ok R \<and> distinct (delegates R) \<and>
     (\<forall>i \<in> set (delegates R). i < length (lobjs R) \<and> (\<exists>L. lobjs R ! i = Some L \<and> listener_ok sc E R L))"

lemma registry_invI:
  assumes "names_ok R" "distinct (delegates R)"
    and "\<And>i. i \<in> set (delegates R) \<Longrightarrow> i < length (lobjs R) \<and> (\<exists>L. lobjs R ! i = Some L \<and> listener_ok sc E R L)"
  shows "registry_inv sc E R"
  using assms by (auto simp: registry_inv_def)

lemma registry_invD:
  assumes "registry_inv sc E R"
  shows "names_ok R" "distinct (delegates R)"
    and "i \<in> set (delegates R) \<Longrightarrow> i < length (lobjs R) \<and> (\<exists>L. lobjs R ! i = Some L \<and> listener_ok sc E R L)"
  using assms by (auto simp: registry_inv_def)

text \<open>Firing an event when every delegate is alive and none throws updates each listener once.\<close>

lemma fire_all:
  assumes "distinct is" "\<And>i. i \<in> set is \<Longrightarrow> i < length ls \<and> (\<exists>L. ls ! i = Some L \<and> f L = Inr (g L))"
  shows "\<exists>ls'. fire f is ls = (ls', Inr ()) \<and> length ls' = length ls
    \<and> (\<forall>i. ls' ! i = (if i \<in> set is then map_option g (ls ! i) else ls ! i))"
  using assms
proof (induction "is" arbitrary: ls)
  case Nil
  then show ?case by simp
next
  case (Cons i "is")
  from Cons.prems(2) [of i] obtain L where L: "i < length ls" "ls ! i = Some L" "f L = Inr (g L)" by auto
  let ?ls = "ls[i := Some (g L)]"
  have "\<And>j. j \<in> set is \<Longrightarrow> j < length ?ls \<and> (\<exists>L. ?ls ! j = Some L \<and> f L = Inr (g L))"
    using Cons.prems by (metis distinct.simps(2) length_list_update list.set_intros(2) nth_list_update_neq)
  then obtain ls' where ls': "fire f is ?ls = (ls', Inr ())" "length ls' = length ls"
    "\<forall>j. ls' ! j = (if j \<in> set is then map_option g (?ls ! j) else ?ls ! j)"
    using Cons.IH [of ?ls] Cons.prems(1) by auto
  have "\<forall>j. ls' ! j = (if j \<in> set (i # is) then map_option g (ls ! j) else ls ! j)"
    using ls'(3) L Cons.prems(1) by (auto simp: nth_list_update)
  then show ?case using ls' L by simp
qed

section \<open>Every operation keeps the invariant\<close>

definition heard_register :: "bool \<Rightarrow> 'd poco \<Rightarrow> props \<Rightarrow> nat \<Rightarrow> 'd listener \<Rightarrow> 'd listener" where
  "heard_register sc E p r L =
     (if ql_holds sc E p (lexpr L) \<and> r \<notin> lrefs L
      then L\<lparr>lrefs := insert r (lrefs L), llog := llog L @ [NRegistered r]\<rparr> else L)"

definition heard_unregister :: "nat \<Rightarrow> 'd listener \<Rightarrow> 'd listener" where
  "heard_unregister r L =
     (if r \<in> lrefs L then L\<lparr>lrefs := lrefs L - {r}, llog := llog L @ [NUnregistered r]\<rparr> else L)"

lemma on_registered_closed:
  "ql_closed (lexpr L) \<Longrightarrow> onServiceRefRegistered sc E p r L = Inr (heard_register sc E p r L)"
  by (simp add: onServiceRefRegistered_def heard_register_def ql_evaluate_total)

lemma on_unregistered: "onServiceRefUnregistered r L = Inr (heard_unregister r L)"
  by (simp add: onServiceRefUnregistered_def heard_unregister_def)

lemma names_ok_registered: "names_ok R \<Longrightarrow> r \<in> registered R \<Longrightarrow> r < length (refs R)"
  by (auto simp: names_ok_def registered_def)

lemma names_ok_inj: "names_ok R \<Longrightarrow> (n, r) \<in> set (services R) \<Longrightarrow> (n', r) \<in> set (services R) \<Longrightarrow> n = n'"
  unfolding names_ok_def by blast

lemma register_locked_inv:
  assumes ok: "names_ok R" and reg: "register_locked E name svc p R = Inr (R1, r)"
  shows "names_ok R1" "r = length (refs R)" "registered R1 = insert r (registered R)"
    "\<And>s. s < length (refs R) \<Longrightarrow> refs R1 ! s = refs R ! s"
    "delegates R1 = delegates R" "lobjs R1 = lobjs R" "r \<notin> registered R" "r < length (refs R1)"
proof -
  from reg have none: "smap_get (<) name (services R) = None"
    by (auto simp: register_locked_def split: option.splits)
  note put = string_order.put_fresh [OF none]
  from reg obtain q where q: "r = length (refs R)" "R1 = R\<lparr>services := smap_put (<) name r (services R),
      refs := refs R @ [q]\<rparr>" "sr_name q = name"
    by (auto simp: register_locked_def Let_def split: option.splits)
  show "names_ok R1"
    using ok string_order.put_keeps_wf [of "services R" name r] 
    by (auto simp: names_ok_def q put nth_append intro: less_SucI)
  show "registered R1 = insert r (registered R)" by (auto simp: registered_def q put)
  show "r \<notin> registered R" using names_ok_registered [OF ok] q(1) by blast
qed (use reg in \<open>auto simp: register_locked_def Let_def nth_append split: option.splits\<close>)

lemma unregister_locked_inv:
  assumes ok: "names_ok R" and unreg: "unregister_locked name R = Inr (R1, r)"
  shows "names_ok R1" "registered R1 = registered R - {r}" "r \<in> registered R"
    "refs R1 = refs R" "delegates R1 = delegates R" "lobjs R1 = lobjs R"
proof -
  from unreg have get: "smap_get (<) name (services R) = Some r" and R1: "R1 = R\<lparr>services := smap_del (<) name (services R)\<rparr>"
    by (auto simp: unregister_locked_def split: option.splits)
  have mem: "(name, r) \<in> set (services R)" using string_order.get_in_map [OF get] by simp
  have del: "set (smap_del (<) name (services R)) = {e \<in> set (services R). name \<noteq> fst e}"
    using string_order.del_set [of "services R" name] ok by (simp add: names_ok_def)
  show "names_ok R1" using ok string_order.del_keeps_wf [of "services R" name] by (auto simp: names_ok_def R1 del)
  show "r \<in> registered R" using mem by (auto simp: registered_def intro: rev_image_eqI)
  have "name \<noteq> fst e \<longleftrightarrow> snd e \<noteq> r" if "e \<in> set (services R)" for e
    using that mem names_ok_inj [OF ok] get ok string_order.entry_is_found [of "services R"]
    by (metis names_ok_def option.inject prod.collapse)
  then have "{e \<in> set (services R). name \<noteq> fst e} = {e \<in> set (services R). snd e \<noteq> r}" by blast
  then show "registered R1 = registered R - {r}" by (auto simp: registered_def R1 del)
qed (use unreg in \<open>auto simp: unregister_locked_def split: option.splits\<close>)

lemma listener_ok_register:
  assumes "listener_ok sc E R L" "names_ok R" "register_locked E name svc p R = Inr (R1, r)"
  shows "listener_ok sc E R1 (heard_register sc E (sr_props (refs R1 ! r)) r L)"
proof -
  note R1 = register_locked_inv [OF assms(2,3)]
  have "matching sc E e R1 = (if ql_holds sc E (sr_props (refs R1 ! r)) e then insert r (matching sc E e R)
      else matching sc E e R)" for e
    using R1 names_ok_registered [OF assms(2)] by (auto simp: matching_def)
  moreover have "r \<notin> matching sc E e R" for e using R1(7) by (simp add: matching_def)
  ultimately show ?thesis
    using assms(1) by (auto simp: listener_ok_def heard_register_def replay_append)
qed

lemma listener_ok_unregister:
  assumes "listener_ok sc E R L" "names_ok R" "unregister_locked name R = Inr (R1, r)"
  shows "listener_ok sc E R1 (heard_unregister r L)"
proof -
  note R1 = unregister_locked_inv [OF assms(2,3)]
  have "matching sc E e R1 = matching sc E e R - {r}" for e
    using R1 by (auto simp: matching_def)
  then show ?thesis
    using assms(1) by (auto simp: listener_ok_def heard_unregister_def replay_append)
qed

lemma registerService_inv:
  assumes inv: "registry_inv sc E R"
  shows "registry_inv sc E (fst (registerService sc E name svc p R)) \<and>
    (\<forall>R1 r. register_locked E name svc p R = Inr (R1, r) \<longrightarrow> snd (registerService sc E name svc p R) = Inr r)"
proof (cases "register_locked E name svc p R")
  case (Inl e)
  then show ?thesis using inv by (simp add: registerService_def)
next
  case (Inr x)
  obtain R2 r2 where x: "x = (R2, r2)" by fastforce
  note locked = Inr [unfolded x]
  note R2 = register_locked_inv [OF registry_invD(1) [OF inv] locked]
  let ?g = "heard_register sc E (sr_props (refs R2 ! r2)) r2"
  obtain ls where ls: "fire (onServiceRefRegistered sc E (sr_props (refs R2 ! r2)) r2) (delegates R2) (lobjs R2)
      = (ls, Inr ())" "length ls = length (lobjs R)"
    "\<forall>i. ls ! i = (if i \<in> set (delegates R) then map_option ?g (lobjs R ! i) else lobjs R ! i)"
    using fire_all [of "delegates R2" "lobjs R2" "onServiceRefRegistered sc E (sr_props (refs R2 ! r2)) r2" ?g]
      registry_invD [OF inv] R2(5,6) by (fastforce simp: listener_ok_def on_registered_closed)
  then have res: "registerService sc E name svc p R = (R2\<lparr>lobjs := ls\<rparr>, Inr r2)"
    by (simp add: registerService_def locked fire_registered_def)
  have "registry_inv sc E (fst (registerService sc E name svc p R))"
  proof (rule registry_invI)
    fix i assume "i \<in> set (delegates (fst (registerService sc E name svc p R)))"
    then have i: "i \<in> set (delegates R)" using R2(5) by (simp add: res)
    then obtain L where L: "i < length (lobjs R)" "lobjs R ! i = Some L" "listener_ok sc E R L"
      using registry_invD(3) [OF inv] by blast
    have "listener_ok sc E (R2\<lparr>lobjs := ls\<rparr>) (?g L)"
      using listener_ok_register [OF L(3) registry_invD(1) [OF inv] locked]
      by (simp add: listener_ok_def matching_def registered_def)
    then show "i < length (lobjs (fst (registerService sc E name svc p R))) \<and>
        (\<exists>L. lobjs (fst (registerService sc E name svc p R)) ! i = Some L \<and>
             listener_ok sc E (fst (registerService sc E name svc p R)) L)"
      using L i ls by (simp add: res)
  qed (use R2 registry_invD [OF inv] in \<open>simp_all add: res names_ok_def\<close>)
  then show ?thesis by (simp add: res locked)
qed

lemma unregisterService_inv:
  assumes inv: "registry_inv sc E R"
  shows "registry_inv sc E (fst (unregisterService name R)) \<and>
    (\<forall>R1 r. unregister_locked name R = Inr (R1, r) \<longrightarrow> snd (unregisterService name R) = Inr ())"
proof (cases "unregister_locked name R")
  case (Inl e)
  then show ?thesis using inv by (simp add: unregisterService_def)
next
  case (Inr x)
  obtain R2 r2 where x: "x = (R2, r2)" by fastforce
  note locked = Inr [unfolded x]
  note R2 = unregister_locked_inv [OF registry_invD(1) [OF inv] locked]
  obtain ls where ls: "fire (onServiceRefUnregistered r2) (delegates R2) (lobjs R2) = (ls, Inr ())"
    "length ls = length (lobjs R)"
    "\<forall>i. ls ! i = (if i \<in> set (delegates R) then map_option (heard_unregister r2) (lobjs R ! i) else lobjs R ! i)"
    using fire_all [of "delegates R2" "lobjs R2" "onServiceRefUnregistered r2" "heard_unregister r2"]
      registry_invD [OF inv] R2(5,6) by (fastforce simp: on_unregistered)
  then have res: "unregisterService name R = (R2\<lparr>lobjs := ls\<rparr>, Inr ())"
    by (simp add: unregisterService_def locked fire_unregistered_def)
  have "registry_inv sc E (fst (unregisterService name R))"
  proof (rule registry_invI)
    fix i assume "i \<in> set (delegates (fst (unregisterService name R)))"
    then have i: "i \<in> set (delegates R)" using R2(5) by (simp add: res)
    then obtain L where L: "i < length (lobjs R)" "lobjs R ! i = Some L" "listener_ok sc E R L"
      using registry_invD(3) [OF inv] by blast
    have "listener_ok sc E (R2\<lparr>lobjs := ls\<rparr>) (heard_unregister r2 L)"
      using listener_ok_unregister [OF L(3) registry_invD(1) [OF inv] locked]
      by (simp add: listener_ok_def matching_def registered_def)
    then show "i < length (lobjs (fst (unregisterService name R))) \<and>
        (\<exists>L. lobjs (fst (unregisterService name R)) ! i = Some L \<and>
             listener_ok sc E (fst (unregisterService name R)) L)"
      using L i ls by (simp add: res)
  qed (use R2 registry_invD [OF inv] in \<open>simp_all add: res names_ok_def\<close>)
  then show ?thesis by (simp add: res locked)
qed

text \<open>Announcing services to a new listener: whatever the order, it ends up with exactly those.\<close>

lemma announce_all:
  assumes "i < length (lobjs R)" "lobjs R ! i = Some L" "ql_closed (lexpr L)" "replay {} (llog L) = Some (lrefs L)"
    and "\<forall>r \<in> set rs. ql_holds sc E (sr_props (refs R ! r)) (lexpr L)"
  shows "\<exists>L'. listener_announce_all sc E i rs R = Inr (R\<lparr>lobjs := (lobjs R)[i := Some L']\<rparr>)
    \<and> lexpr L' = lexpr L \<and> lrefs L' = lrefs L \<union> set rs \<and> replay {} (llog L') = Some (lrefs L')"
  using assms
proof (induction rs arbitrary: R L)
  case Nil
  then have "(lobjs R)[i := Some L] = lobjs R" by (metis list_update_id)
  then show ?case using Nil by (intro exI [of _ L]) simp
next
  case (Cons r rs)
  let ?L = "heard_register sc E (sr_props (refs R ! r)) r L"
  let ?R = "R\<lparr>lobjs := (lobjs R)[i := Some ?L]\<rparr>"
  have step: "listener_announce sc E i r R = Inr ?R"
    using Cons.prems by (simp add: listener_announce_def on_registered_closed)
  have L: "lexpr ?L = lexpr L" "lrefs ?L = insert r (lrefs L)" "replay {} (llog ?L) = Some (lrefs ?L)"
    using Cons.prems by (auto simp: heard_register_def replay_append insert_absorb)
  show ?case
    using Cons.IH [of ?R ?L] Cons.prems L step by auto
qed

lemma null_case: "e \<noteq> QLNull \<Longrightarrow> (case e of QLNull \<Rightarrow> x | _ \<Rightarrow> y) = y"
  by (cases e) simp_all

lemma listener_init_inv:
  assumes inv: "registry_inv sc E R" and closed: "ql_closed e"
  shows "registry_inv sc E (fst (listener_init sc E e R)) \<and> snd (listener_init sc E e R) = Inr (length (lobjs R))"
proof -
  define i where "i = length (lobjs R)"
  let ?L = "\<lparr>lexpr = e, lrefs = {}, llog = []\<rparr>"
  define R1 where "R1 = R\<lparr>lobjs := lobjs R @ [Some ?L], delegates := delegates R @ [i]\<rparr>"
  obtain found where found: "find_expr sc E e R1 = Inr (found, length found)" "set found = matching sc E e R1"
    using find_loop_filter [OF closed, of sc E "refs R1" "services R1" "[]" 0]
    by (auto simp: find_expr_def matching_def registered_def Let_def)
  obtain L where L: "listener_announce_all sc E i found R1 = Inr (R1\<lparr>lobjs := (lobjs R1)[i := Some L]\<rparr>)"
    "lexpr L = e" "lrefs L = set found" "replay {} (llog L) = Some (lrefs L)"
    using announce_all [of i R1 ?L found sc E] closed found(2) by (auto simp: R1_def i_def matching_def)
  have "e \<noteq> QLNull" using closed by auto
  then have res: "listener_init sc E e R = (R1\<lparr>lobjs := (lobjs R1)[i := Some L]\<rparr>, Inr i)"
    using found L(1) unfolding listener_init_def listener_attach_def Let_def i_def [symmetric] prod.case
      R1_def [symmetric] by (simp add: null_case)
  let ?R2 = "R1\<lparr>lobjs := (lobjs R1)[i := Some L]\<rparr>"
  have same: "listener_ok sc E ?R2 K \<longleftrightarrow> listener_ok sc E R K" for K
    by (simp add: listener_ok_def matching_def registered_def R1_def)
  have "listener_ok sc E ?R2 L"
    using L closed found(2) by (simp add: listener_ok_def matching_def registered_def R1_def)
  moreover have "j < length (lobjs R) \<Longrightarrow> lobjs ?R2 ! j = lobjs R ! j" for j
    by (simp add: R1_def i_def nth_append)
  moreover have "lobjs ?R2 ! i = Some L" by (simp add: R1_def i_def)
  ultimately have "registry_inv sc E ?R2"
    using registry_invD [OF inv] same
    by (intro registry_invI) (force simp: R1_def i_def names_ok_def)+
  then show ?thesis by (simp add: res i_def)
qed

lemma listener_destroy_inv:
  assumes inv: "registry_inv sc E R"
  shows "registry_inv sc E (listener_destroy i R)"
proof (rule registry_invI)
  fix j assume "j \<in> set (delegates (listener_destroy i R))"
  then have j: "j \<in> set (delegates R)" "j \<noteq> i" by (auto simp: listener_destroy_def)
  then show "j < length (lobjs (listener_destroy i R)) \<and>
      (\<exists>L. lobjs (listener_destroy i R) ! j = Some L \<and> listener_ok sc E (listener_destroy i R) L)"
    using registry_invD(3) [OF inv j(1)]
    by (auto simp: listener_destroy_def listener_ok_def matching_def registered_def)
qed (use registry_invD [OF inv] in \<open>simp_all add: listener_destroy_def names_ok_def distinct_removeAll\<close>)

section \<open>Runs of the registry\<close>

text \<open>
  One complete operation of the registry; a listener's query parses to an expression that can be
  evaluated.
\<close>

inductive registry_step :: "bool \<Rightarrow> 'd poco \<Rightarrow> (string \<Rightarrow> token list) \<Rightarrow> 'd registry \<Rightarrow> 'd registry \<Rightarrow> bool"
  for sc :: bool and E :: "'d poco" and tokens :: "string \<Rightarrow> token list" where
  register: "registerService sc E name svc p R = (R', res) \<Longrightarrow> registry_step sc E tokens R R'"
| unregister: "unregisterService name R = (R', res') \<Longrightarrow> registry_step sc E tokens R R'"
| listen: "parse_query E (tokens query) = Some (Inr e) \<Longrightarrow> ql_closed e \<Longrightarrow>
     createListener sc E tokens query R = Some (R', res) \<Longrightarrow> registry_step sc E tokens R R'"
| destroy: "i \<in> set (delegates R) \<Longrightarrow> registry_step sc E tokens R (listener_destroy i R)"

lemma registry_step_inv:
  assumes "registry_step sc E tokens R R'" "registry_inv sc E R"
  shows "registry_inv sc E R'"
  using assms(1)
proof (cases rule: registry_step.cases)
  case (register name svc p res)
  then show ?thesis using registerService_inv(1) [OF assms(2), of name svc p] by simp
next
  case (unregister name res)
  then show ?thesis using unregisterService_inv [OF assms(2), of name] by simp
next
  case (listen query e res)
  then show ?thesis using listener_init_inv [OF assms(2), of e] by (simp add: createListener_def)
next
  case (destroy i)
  then show ?thesis using listener_destroy_inv [OF assms(2), of i] by simp
qed

lemma registry_reachable_inv:
  assumes "(registry_step sc E tokens)\<^sup>*\<^sup>* registry_init R"
  shows "registry_inv sc E R"
  using assms
proof (induction rule: rtranclp_induct)
  case base
  show ?case
    by (rule registry_invI) (auto simp: registry_init_def names_ok_def string_order.wf_map_def)
next
  case (step R R')
  then show ?case using registry_step_inv by blast
qed


definition sample_tokens :: "string \<Rightarrow> token list" where
  "sample_tokens q = (if q = [] then [] else [TIdentifier q])"


lemma registerService_frame:
  assumes "register_locked E name svc p R = Inr (R1, r)"
  shows "services (fst (registerService sc E name svc p R)) = services R1"
    and "refs (fst (registerService sc E name svc p R)) = refs R1"
  using assms by (simp_all add: registerService_def fire_registered_def split: prod.split)

lemma unregisterService_frame:
  assumes "unregister_locked name R = Inr (R1, r)"
  shows "services (fst (unregisterService name R)) = services R1"
  using assms by (simp add: unregisterService_def fire_unregistered_def split: prod.split)

lemma registered_name:
  assumes "icompare_ok E" "props_wf E p"
  shows "props_get E (props_set E (props_set E p PROP_NAME name) PROP_TYPE t) PROP_NAME = Inr name"
proof -
  have "map tolower PROP_NAME \<noteq> map tolower PROP_TYPE" by (simp add: PROP_NAME_def PROP_TYPE_def tolower_def)
  then show ?thesis
    using lookup_set [OF assms(1) props_set_wf [OF assms]] lookup_set [OF assms] by (simp add: props_get_def)
qed

text \<open>
  registering and unregistering are inverse to each other and fail as documented: a name in use is
  refused with \<open>ExistsException\<close> and an unknown name with \<open>NotFoundException\<close>, both without any change;
  otherwise the returned reference is found under the name, carries the name as its \<open>name\<close> property,
  whatever the caller passed, no other name is affected, and unregistering the name restores every
  lookup.
\<close>

theorem register_unregister:
  assumes inv: "registry_inv sc E R" and cmp: "icompare_ok E" and wf: "props_wf E p"
  shows "(case findByName name R of
    Some x \<Rightarrow> registerService sc E name svc p R = (R, Inl (ExistsException name))
  | None \<Rightarrow> unregisterService name R = (R, Inl (NotFoundException name)) \<and>
      (\<exists>R1 r. registerService sc E name (Some s) p R = (R1, Inr r) \<and> findByName name R1 = Some r \<and>
         props_get E (sr_props (refs R1 ! r)) PROP_NAME = Inr name \<and>
         (\<forall>m. m \<noteq> name \<longrightarrow> findByName m R1 = findByName m R) \<and>
         snd (unregisterService name R1) = Inr () \<and>
         (\<forall>m. findByName m (fst (unregisterService name R1)) = findByName m R)))"
proof (cases "findByName name R")
  case (Some x)
  then show ?thesis by (simp add: findByName_def registerService_def register_locked_def)
next
  case None
  have unknown: "unregisterService name R = (R, Inl (NotFoundException name))"
    using None by (simp add: findByName_def unregisterService_def unregister_locked_def)
  obtain R0 r where locked: "register_locked E name (Some s) p R = Inr (R0, r)"
    and services: "services R0 = smap_put (<) name r (services R)"
    and props: "props_get E (sr_props (refs R0 ! r)) PROP_NAME = Inr name"
    using None registered_name [OF cmp wf, of name "svc_type s"]
    by (auto simp: findByName_def register_locked_def Let_def)
  define R1 where "R1 = fst (registerService sc E name (Some s) p R)"
  have R1: "registerService sc E name (Some s) p R = (R1, Inr r)" "registry_inv sc E R1"
    using registerService_inv [OF inv, of name "Some s" p] locked by (auto simp: R1_def prod_eq_iff)
  have same: "services R1 = services R0" "refs R1 = refs R0"
    using registerService_frame [OF locked] by (simp_all add: R1_def)
  have wfm: "string_order.wf_map (services R)" "string_order.wf_map (services R1)"
    using registry_invD(1) [OF inv] registry_invD(1) [OF R1(2)] by (simp_all add: names_ok_def)
  have put: "findByName m R1 = (if m = name then Some r else findByName m R)" for m
    using string_order.get_put_same [of name m r "services R"]
      string_order.get_put_other [of name m "services R" r] wfm
    by (cases "m = name") (simp_all add: findByName_def same services)
  obtain R2 where unreg: "unregister_locked name R1 = Inr (R2, r)" "services R2 = smap_del (<) name (services R1)"
    using put [of name] by (auto simp: unregister_locked_def findByName_def)
  have "findByName m (fst (unregisterService name R1)) = (if m = name then None else findByName m R1)" for m
    using string_order.get_del_same [of name m "services R1"]
      string_order.get_del_other [of name m "services R1"] wfm unregisterService_frame [OF unreg(1)]
    by (cases "m = name") (simp_all add: findByName_def unreg(2))
  then show ?thesis
    using None unknown R1 props put unregisterService_inv [OF R1(2), of name] unreg(1) by (simp add: same)
qed

theorem register_unregister_witness:
  "\<exists>R1 r. registerService True sample_poco ''a'' (Some (PlainService ''T'' 0)) [] registry_init = (R1, Inr r) \<and>
     findByName ''a'' R1 = Some r \<and> findByName ''a'' (fst (unregisterService ''a'' R1)) = None"
proof -
  have inv: "registry_inv True sample_poco registry_init"
    by (rule registry_reachable_inv [of _ _ sample_tokens]) simp
  have wf: "props_wf sample_poco []" by (simp add: props_wf_def props_keys_def)
  have free: "findByName m registry_init = None" for m by (simp add: findByName_def registry_init_def)
  show ?thesis
    using register_unregister [OF inv sample_icompare_ok wf, where name = "''a''" and s = "PlainService ''T'' 0"]
    unfolding free option.case by blast
qed

text \<open>
  the event of a registration is fired after the lock has been released, and nothing orders it with
  the events of other threads: when another thread unregisters the service in between, the listener
  first misses the withdrawal and then accepts the announcement, and holds a service that is not
  registered any more.
\<close>

theorem late_registration_event:
  assumes inv: "registry_inv sc E R" and reg: "register_locked E name svc p R = Inr (R1, r)"
    and i: "i \<in> set (delegates R)" "lobjs R ! i = Some L"
    and holds: "ql_holds sc E (sr_props (refs R1 ! r)) (lexpr L)"
  shows "\<exists>R2 R3 L'. unregisterService name R1 = (R2, Inr ()) \<and> fire_registered sc E r R2 = (R3, Inr ()) \<and>
    lobjs R3 ! i = Some L' \<and> r \<in> lrefs L' \<and> r \<notin> registered R3"
proof -
  note R1 = register_locked_inv [OF registry_invD(1) [OF inv] reg]
  have fresh: "r \<notin> lrefs K \<and> ql_closed (lexpr K)" if "j \<in> set (delegates R)" "lobjs R ! j = Some K" for j K
    using registry_invD(3) [OF inv that(1)] that(2) R1(7) by (auto simp: listener_ok_def matching_def)
  have get: "smap_get (<) name (services R1) = Some r"
    using reg string_order.get_put_same [of name name r "services R"]
    by (auto simp: register_locked_def Let_def split: option.splits)
  then obtain R2 where R2: "unregister_locked name R1 = Inr (R2, r)"
    by (simp add: unregister_locked_def)
  note R2i = unregister_locked_inv [OF R1(1) R2]
  obtain ls where ls: "fire (onServiceRefUnregistered r) (delegates R) (lobjs R) = (ls, Inr ())"
    "\<forall>j. ls ! j = (if j \<in> set (delegates R) then map_option (heard_unregister r) (lobjs R ! j) else lobjs R ! j)"
    "length ls = length (lobjs R)"
    using fire_all [of "delegates R" "lobjs R" "onServiceRefUnregistered r" "heard_unregister r"]
      registry_invD [OF inv] by (fastforce simp: on_unregistered)
  have alive: "j < length ls \<and> (\<exists>K. ls ! j = Some K \<and> ql_closed (lexpr K) \<and> r \<notin> lrefs K)"
    if "j \<in> set (delegates R)" for j
    using registry_invD(3) [OF inv that] ls fresh [OF that] that by (auto simp: heard_unregister_def)
  have li: "ls ! i = Some L" using ls i fresh [OF i] by (simp add: heard_unregister_def)
  have un: "unregisterService name R1 = (R2\<lparr>lobjs := ls\<rparr>, Inr ())"
    using ls(1) R2i R1 by (simp add: unregisterService_def R2 fire_unregistered_def)
  let ?g = "heard_register sc E (sr_props (refs R1 ! r)) r"
  obtain ls' where ls': "fire (onServiceRefRegistered sc E (sr_props (refs R1 ! r)) r) (delegates R) ls = (ls', Inr ())"
    "\<forall>j. ls' ! j = (if j \<in> set (delegates R) then map_option ?g (ls ! j) else ls ! j)"
    using fire_all [of "delegates R" ls "onServiceRefRegistered sc E (sr_props (refs R1 ! r)) r" ?g]
      registry_invD(2) [OF inv] alive by (fastforce simp: on_registered_closed)
  have "fire_registered sc E r (R2\<lparr>lobjs := ls\<rparr>) = (R2\<lparr>lobjs := ls'\<rparr>, Inr ())"
    using ls'(1) R2i R1 by (simp add: fire_registered_def)
  moreover have "ls' ! i = Some (?g L)" using ls' li i by simp
  moreover have "r \<in> lrefs (?g L)" using holds fresh [OF i] by (simp add: heard_register_def)
  moreover have "r \<notin> registered (R2\<lparr>lobjs := ls'\<rparr>)" using R2i(2) by (simp add: registered_def)
  ultimately show ?thesis using un by auto
qed

theorem late_registration_event_witness:
  "\<exists>R R1 R2 R3 L'. register_locked sample_poco ''a'' (Some (PlainService ''T'' 0)) [] R = Inr (R1, 0) \<and>
     unregisterService ''a'' R1 = (R2, Inr ()) \<and> fire_registered True sample_poco 0 R2 = (R3, Inr ()) \<and>
     lobjs R3 ! 0 = Some L' \<and> 0 \<in> lrefs L' \<and> 0 \<notin> registered R3"
proof -
  let ?e = "QLExistsExpr ''name'' :: int qlexpr"
  let ?R = "fst (listener_init True sample_poco ?e registry_init)"
  have "registry_inv True sample_poco registry_init"
    by (rule registry_reachable_inv [of _ _ sample_tokens]) simp
  then have inv: "registry_inv True sample_poco ?R" using listener_init_inv [of True sample_poco registry_init ?e] by simp
  define R1 where "R1 = (case register_locked sample_poco ''a'' (Some (PlainService ''T'' 0)) [] ?R of Inr x \<Rightarrow> fst x)"
  have reg: "register_locked sample_poco ''a'' (Some (PlainService ''T'' 0)) [] ?R = Inr (R1, 0)"
    unfolding R1_def by code_simp
  have "0 \<in> set (delegates ?R)" "lobjs ?R ! 0 = Some \<lparr>lexpr = ?e, lrefs = {}, llog = []\<rparr>" by code_simp+
  moreover have "smap_get (ilt sample_poco) ''name'' (sr_props (refs R1 ! 0)) = Some ''a''"
    unfolding R1_def by code_simp
  ultimately show ?thesis
    using late_registration_event [OF inv reg, of 0] reg by (auto 0 3)
qed

lemma fire_append:
  "fire f (is @ js) ls = (case fire f is ls of (ls', Inl e) \<Rightarrow> (ls', Inl e) | (ls', Inr _) \<Rightarrow> fire f js ls')"
  by (induction f "is" ls rule: fire.induct) (auto split: option.splits sum.splits prod.splits)

text \<open>
  a listener whose construction fails stays attached: when the query parses to a null expression,
  \<open>init\<close> throws after the delegates have been added, the object is destroyed without detaching them,
  and the next registration calls the dangling delegate, although the service has been entered.
\<close>

theorem failed_listener_dangles:
  assumes inv: "registry_inv sc E R" and null: "parse_query E (tokens query) = Some (Inr QLNull)"
    and created: "createListener sc E tokens query R = Some (R', res)"
    and reg: "register_locked E name svc p R' = Inr (R1, r)"
  shows "res = Inl NullPointerException \<and>
    snd (registerService sc E name svc p R') = Inl (LogicError ''dangling delegate'') \<and>
    findByName name (fst (registerService sc E name svc p R')) = Some r"
proof -
  let ?i = "length (lobjs R)"
  have R': "R' = R\<lparr>lobjs := lobjs R @ [None], delegates := delegates R @ [?i]\<rparr>" "res = Inl NullPointerException"
    using created null by (auto simp: createListener_def listener_init_def listener_attach_def Let_def)
  have names: "names_ok R'" using registry_invD(1) [OF inv] by (simp add: R' names_ok_def)
  note R1 = register_locked_inv [OF names reg]
  let ?f = "onServiceRefRegistered sc E (sr_props (refs R1 ! r)) r"
  obtain ls where ls: "fire ?f (delegates R) (lobjs R @ [None]) = (ls, Inr ())"
    "\<forall>j. ls ! j = (if j \<in> set (delegates R) then map_option (heard_register sc E (sr_props (refs R1 ! r)) r)
        ((lobjs R @ [None]) ! j) else (lobjs R @ [None]) ! j)"
    using fire_all [of "delegates R" "lobjs R @ [None]" ?f "heard_register sc E (sr_props (refs R1 ! r)) r"]
      registry_invD(2,3) [OF inv] by (fastforce simp: on_registered_closed listener_ok_def nth_append)
  have "?i \<notin> set (delegates R)" using registry_invD(3) [OF inv, of ?i] by auto
  then have "fire ?f (delegates R @ [?i]) (lobjs R @ [None]) = (ls, Inl (LogicError ''dangling delegate''))"
    using ls by (simp add: fire_append)
  then have "snd (registerService sc E name svc p R') = Inl (LogicError ''dangling delegate'')"
    using R1(5,6) unfolding registerService_def reg by (simp add: fire_registered_def R'(1))
  moreover have "smap_get (<) name (services R1) = Some r"
    using reg string_order.get_put_same [of name name r "services R'"]
    by (auto simp: register_locked_def Let_def split: option.splits)
  ultimately show ?thesis
    using R'(2) registerService_frame [OF reg] by (simp add: findByName_def)
qed

theorem failed_listener_dangles_witness:
  "\<exists>R'. createListener True sample_poco sample_tokens [] registry_init = Some (R', Inl NullPointerException) \<and>
     snd (registerService True sample_poco ''a'' (Some (PlainService ''T'' 0)) [] R') = Inl (LogicError ''dangling delegate'')"
proof -
  have inv: "registry_inv True sample_poco registry_init"
    by (rule registry_reachable_inv [of _ _ sample_tokens]) simp
  have null: "parse_query sample_poco (sample_tokens []) = Some (Inr QLNull)" by code_simp
  obtain R' res where created: "createListener True sample_poco sample_tokens [] registry_init = Some (R', res)"
    by (cases "createListener True sample_poco sample_tokens [] registry_init") (auto simp: createListener_def null)
  then have free: "services R' = []"
    using null by (auto simp: createListener_def listener_init_def listener_attach_def registry_init_def)
  obtain R1 r where "register_locked sample_poco ''a'' (Some (PlainService ''T'' 0)) [] R' = Inr (R1, r)"
    using free by (simp add: register_locked_def Let_def)
  from failed_listener_dangles [OF inv null created this] created show ?thesis by blast
qed

end
