(* ===== verification/OSP_Manifest.thy ===== *)
theory OSP_Manifest
  imports OSP_Version
begin

text \<open>
  The bundle manifest, \<open>platform/OSP/src/BundleManifest.cpp\<close>: the entries of the manifest file, the
  activator and the lists of required and provided items. The iterator of a parsing function is the
  rest of the string. The configuration the file has been read into belongs to Poco: it is a function
  from keys to values, and the parser for boolean values is a parameter. The outer loops of the list
  parsers take fuel, as they need not end.
\<close>

section \<open>State\<close>

record dependency =
  dep_name :: string
  dep_versions :: version_range

record module =
  mod_name :: string
  mod_version :: version

record manifest =
  m_name :: string
  m_symbolicName :: string
  m_version :: version
  m_vendor :: string
  m_copyright :: string
  m_lazyStart :: bool
  m_sealed :: bool
  m_preventUninstall :: bool
  m_runLevel :: string
  m_extendedBundle :: string
  m_activatorClass :: string
  m_activatorLibrary :: string
  m_requiredBundles :: "dependency list"
  m_requiredModules :: "dependency list"
  m_providedModules :: "module list"

section \<open>Words and separators\<close>

text \<open>The loop \<open>while (it != end && !std::isspace(*it) && *it != ...) str += *it++;\<close>\<close>

definition word_char :: "string \<Rightarrow> char \<Rightarrow> bool" where
  "word_char stops c \<longleftrightarrow> \<not> isspace c \<and> c \<notin> set stops"

definition read_word :: "string \<Rightarrow> string \<Rightarrow> string \<times> string" where
  "read_word stops s = scan (word_char stops) s"

definition skip_comma :: "string \<Rightarrow> string" where
  "skip_comma s = (case s of c # t \<Rightarrow> if c = CHR '','' then t else s | [] \<Rightarrow> [])"

text \<open>
  The part \<open>keyword = \<dots>\<close> behind a semicolon: the keyword, an equals sign, and white space behind it.
\<close>

definition equals_quoted :: string where
  "equals_quoted = [CHR 0x27, CHR ''='', CHR 0x27]"

definition read_keyword :: "string \<Rightarrow> string \<Rightarrow> string \<Rightarrow> string \<Rightarrow> string \<Rightarrow> string res" where
  "read_keyword what expected unknown missing s =
     (let (keyword, s1) = read_word ''='' (skip_ws s) in
      if keyword \<noteq> expected then Inl (ManifestException what unknown)
      else case skip_ws s1 of
        c # t \<Rightarrow> if c = CHR ''='' then Inr (skip_ws t)
                 else Inl (ManifestException what (missing @ equals_quoted))
      | [] \<Rightarrow> Inl (ManifestException what (missing @ equals_quoted)))"

section \<open>The activator\<close>

definition BUNDLE_ACTIVATOR :: string where "BUNDLE_ACTIVATOR = ''Bundle-Activator''"

definition parseActivator :: "string \<Rightarrow> (string \<times> string) res" where
  "parseActivator activator =
     (let (clazz, s1) = read_word '';'' (skip_ws activator);
          invalid = ManifestException BUNDLE_ACTIVATOR ''Invalid characters after activator class name''
      in case skip_ws s1 of
        [] \<Rightarrow> Inr (clazz, [])
      | c # t \<Rightarrow>
          if c = CHR '';'' then
            rbind (read_keyword BUNDLE_ACTIVATOR ''library'' ''Unknown keyword following activator class name''
                     ''The library keyword must be followed by '' t) (\<lambda>s2.
              let (library, s3) = read_word [] s2
              in if skip_ws s3 \<noteq> [] then Inl invalid else Inr (clazz, library))
          else Inl invalid)"

section \<open>Required items\<close>

text \<open>A version range behind its opening bracket, and whatever stands behind the equals sign.\<close>

definition parse_range :: "string \<Rightarrow> bool \<Rightarrow> string \<Rightarrow> (version_range \<times> string) res" where
  "parse_range what inclLower s =
     (let (lowerStr, s1) = read_word '','' (skip_ws s);
          invalid = ManifestException what ''Invalid version range specified''
      in case skip_ws s1 of
        [] \<Rightarrow> Inr (range_empty, [])
      | c # t \<Rightarrow>
          if c = CHR '','' then
            (let (upperStr, s2) = read_word '')]'' (skip_ws t) in
             case skip_ws s2 of
               [] \<Rightarrow> Inl invalid
             | d # s3 \<Rightarrow>
                 if d = CHR '')'' \<or> d = CHR '']'' then
                   rbind (version_parse lowerStr) (\<lambda>lo.
                   rbind (version_parse upperStr) (\<lambda>up.
                   rbind (range_of lo inclLower up (d = CHR '']'')) (\<lambda>r. Inr (r, s3))))
                 else Inl invalid)
          else Inr (range_empty, c # t))"

definition parse_versions :: "string \<Rightarrow> string \<Rightarrow> string \<Rightarrow> (version_range \<times> string) res" where
  "parse_versions what kw s = (case s of
     [] \<Rightarrow> Inl (ManifestException what
              (''The '' @ kw @ '' keyword must be followed by a version or version range''))
   | c # t \<Rightarrow>
       if c = CHR ''('' \<or> c = CHR ''['' then parse_range what (c = CHR ''['') t
       else (let (versionStr, s1) = read_word '','' s
             in rbind (version_parse versionStr) (\<lambda>v.
                rbind (range_of v True v True) (\<lambda>r. Inr (r, s1)))))"

definition parse_dependency :: "string \<Rightarrow> string \<Rightarrow> string \<Rightarrow> string \<Rightarrow> (dependency \<times> string) res" where
  "parse_dependency what kw name s =
     (case skip_ws s of
        [] \<Rightarrow> Inr (\<lparr>dep_name = name, dep_versions = range_empty\<rparr>, [])
      | c # t \<Rightarrow>
          if c = CHR '';'' then
            rbind (read_keyword what kw ''Unknown keyword following item name''
                     (''The '' @ kw @ '' keyword must be followed by '') t) (\<lambda>s1.
            rbind (parse_versions what kw s1) (\<lambda>(versions, s2).
              Inr (\<lparr>dep_name = name, dep_versions = versions\<rparr>, s2)))
          else Inr (\<lparr>dep_name = name, dep_versions = range_empty\<rparr>, c # t))"

text \<open>One iteration of the outer loop of \<open>parseRequiredItems\<close>: what it pushes, and where it leaves off.\<close>

definition required_step :: "string \<Rightarrow> string \<Rightarrow> string \<Rightarrow> (dependency list \<times> string) res" where
  "required_step what kw s =
     (let (name, s1) = read_word '',;'' (skip_ws s) in
      if name \<noteq> [] then
        rbind (parse_dependency what kw name s1) (\<lambda>(d, s2). Inr ([d], skip_comma s2))
      else Inr ([], skip_comma s1))"

text \<open>
  The outer loop, for a step function: it runs until the string is empty. \<open>None\<close> is running out of
  fuel, which counts iterations.
\<close>

fun items_loop :: "(string \<Rightarrow> ('a list \<times> string) res) \<Rightarrow> nat \<Rightarrow> 'a list \<Rightarrow> string \<Rightarrow> 'a list res option" where
  "items_loop step n acc [] = Some (Inr acc)"
| "items_loop step 0 acc (c # s) = None"
| "items_loop step (Suc n) acc (c # s) = (case step (c # s) of
     Inl e \<Rightarrow> Some (Inl e) | Inr (new, s') \<Rightarrow> items_loop step n (acc @ new) s')"

definition parseRequiredItems :: "nat \<Rightarrow> string \<Rightarrow> string \<Rightarrow> string \<Rightarrow> dependency list res option" where
  "parseRequiredItems fuel requiredItems what kw = items_loop (required_step what kw) fuel [] requiredItems"

definition parseRequiredBundles :: "nat \<Rightarrow> string \<Rightarrow> dependency list res option" where
  "parseRequiredBundles fuel s = parseRequiredItems fuel s ''Require-Bundle'' ''bundle-version''"

definition parseRequiredModules :: "nat \<Rightarrow> string \<Rightarrow> dependency list res option" where
  "parseRequiredModules fuel s = parseRequiredItems fuel s ''Require-Module'' ''module-version''"

section \<open>Provided modules\<close>

definition PROVIDE_MODULE :: string where "PROVIDE_MODULE = ''Provide-Module''"

definition parse_module :: "string \<Rightarrow> string \<Rightarrow> (module \<times> string) res" where
  "parse_module name s =
     (case skip_ws s of
        [] \<Rightarrow> Inl (ManifestException PROVIDE_MODULE ''No module-version specified'')
      | c # t \<Rightarrow>
          if c = CHR '';'' then
            rbind (read_keyword PROVIDE_MODULE ''module-version'' ''Unknown keyword following module name''
                     ''The module-version keyword must be followed by '' t) (\<lambda>s1.
              if s1 = [] then
                Inl (ManifestException PROVIDE_MODULE ''The module-version keyword must be followed by a version'')
              else let (versionStr, s2) = read_word '','' s1
                   in rbind (version_parse versionStr) (\<lambda>v. Inr (\<lparr>mod_name = name, mod_version = v\<rparr>, s2)))
          else Inl (ManifestException PROVIDE_MODULE ''No module-version specified''))"

definition provided_step :: "string \<Rightarrow> (module list \<times> string) res" where
  "provided_step s =
     (let (name, s1) = read_word '',;'' (skip_ws s) in
      if name \<noteq> [] then rbind (parse_module name s1) (\<lambda>(m, s2). Inr ([m], skip_comma s2))
      else Inr ([], skip_comma s1))"

definition parseProvidedModules :: "nat \<Rightarrow> string \<Rightarrow> module list res option" where
  "parseProvidedModules fuel providedModules = items_loop provided_step fuel [] providedModules"

section \<open>The manifest\<close>

definition config_get :: "(string \<Rightarrow> string option) \<Rightarrow> string \<Rightarrow> string res" where
  "config_get cfg key = (case cfg key of Some v \<Rightarrow> Inr v | None \<Rightarrow> Inl (NotFoundException key))"

definition config_get_d :: "(string \<Rightarrow> string option) \<Rightarrow> string \<Rightarrow> string \<Rightarrow> string" where
  "config_get_d cfg key d = (case cfg key of Some v \<Rightarrow> v | None \<Rightarrow> d)"

definition config_getBool_d ::
    "(string \<Rightarrow> bool res) \<Rightarrow> (string \<Rightarrow> string option) \<Rightarrow> string \<Rightarrow> bool \<Rightarrow> bool res" where
  "config_getBool_d parseBool cfg key d = (case cfg key of Some v \<Rightarrow> parseBool v | None \<Rightarrow> Inr d)"

definition parseManifest ::
    "(string \<Rightarrow> bool res) \<Rightarrow> nat \<Rightarrow> (string \<Rightarrow> string option) \<Rightarrow> manifest res option" where
  "parseManifest parseBool fuel cfg =
     obind (Some (config_get cfg ''Manifest-Version'')) (\<lambda>mv.
     if mv \<noteq> ''1.0'' then Some (Inl (ManifestException ''Unsupported manifest version'' mv)) else
     obind (Some (config_get cfg ''Bundle-Name'')) (\<lambda>nm.
     obind (Some (config_get cfg ''Bundle-SymbolicName'')) (\<lambda>sn.
     obind (Some (rbind (config_get cfg ''Bundle-Version'') version_parse)) (\<lambda>v.
     obind (Some (config_getBool_d parseBool cfg ''Bundle-LazyStart'' False)) (\<lambda>lazy.
     obind (Some (config_getBool_d parseBool cfg ''Bundle-Sealed'' False)) (\<lambda>seal.
     obind (Some (config_getBool_d parseBool cfg ''Bundle-PreventUninstall'' False)) (\<lambda>prevent.
     obind (Some (parseActivator (config_get_d cfg BUNDLE_ACTIVATOR []))) (\<lambda>(clazz, lib).
     obind (parseRequiredBundles fuel (config_get_d cfg ''Require-Bundle'' [])) (\<lambda>rb.
     obind (parseRequiredModules fuel (config_get_d cfg ''Require-Module'' [])) (\<lambda>rm.
     obind (parseProvidedModules fuel (config_get_d cfg PROVIDE_MODULE [])) (\<lambda>pm.
     Some (Inr \<lparr>m_name = nm, m_symbolicName = sn, m_version = v,
       m_vendor = config_get_d cfg ''Bundle-Vendor'' [], m_copyright = config_get_d cfg ''Bundle-Copyright'' [],
       m_lazyStart = lazy, m_sealed = seal, m_preventUninstall = prevent,
       m_runLevel = config_get_d cfg ''Bundle-RunLevel'' ''999-user'',
       m_extendedBundle = config_get_d cfg ''Extends-Bundle'' [],
       m_activatorClass = clazz, m_activatorLibrary = lib,
       m_requiredBundles = rb, m_requiredModules = rm, m_providedModules = pm\<rparr>))))))))))))"

section \<open>The loops over lists of items\<close>

text \<open>
  What the outer loop relies on: an iteration consumes part of a string that is not empty, or changes
  nothing at all.
\<close>

locale item_parser =
  fixes step :: "string \<Rightarrow> ('a list \<times> string) res"
  assumes progress: "step s = Inr (new, s') \<Longrightarrow> s \<noteq> [] \<Longrightarrow> length s' < length s \<or> new = [] \<and> s' = s"
begin

lemma stuck: "s \<noteq> [] \<Longrightarrow> step s = Inr ([], s) \<Longrightarrow> items_loop step n acc s = None"
  by (induction n) (cases s; simp)+

lemma more_fuel: "items_loop step n acc s = Some r \<Longrightarrow> n \<le> m \<Longrightarrow> items_loop step m acc s = Some r"
proof (induction n arbitrary: m acc s)
  case 0
  then show ?case by (cases s) auto
next
  case (Suc n)
  then obtain k where "m = Suc k" "n \<le> k" by (cases m) auto
  with Suc show ?case by (cases s) (auto split: sum.splits)
qed

lemma decided: "length s \<le> m \<Longrightarrow> items_loop step m acc s = None \<Longrightarrow> items_loop step n acc s = None"
proof (induction m arbitrary: n acc s)
  case 0
  then show ?case by simp
next
  case (Suc m)
  show ?case
  proof (cases s)
    case Nil
    then show ?thesis using Suc.prems by simp
  next
    case (Cons c t)
    then obtain new s' where st: "step s = Inr (new, s')" and rest: "items_loop step m (acc @ new) s' = None"
      using Suc.prems(2) by (auto split: sum.splits)
    show ?thesis
    proof (cases "length s' < length s")
      case True
      then have "items_loop step k (acc @ new) s' = None" for k
        using Suc.IH [of s' "acc @ new" k] Suc.prems(1) rest by simp
      then show ?thesis using st Cons by (cases n) simp_all
    next
      case False
      then show ?thesis using progress [OF st] Cons st stuck [of s n acc] by auto
    qed
  qed
qed

end

lemma read_word_split:
  assumes "read_word stops s = (w, r)"
  shows "s = w @ r" "\<forall>c \<in> set w. word_char stops c" "r = [] \<or> \<not> word_char stops (hd r)"
  using assms hd_dropWhile [of "word_char stops" s]
  by (auto simp: read_word_def scan_def dest: set_takeWhileD)

lemma read_word_length: "length (snd (read_word stops s)) \<le> length s"
  by (simp add: read_word_def scan_def)

lemma read_word_le: "read_word stops s = (w, r) \<Longrightarrow> length r \<le> length s"
  using read_word_length [of stops s] by simp

lemma skip_comma_length: "length (skip_comma s) \<le> length s"
  by (cases s) (auto simp: skip_comma_def)

lemma skip_ws_Cons_length: "skip_ws s = c # t \<Longrightarrow> length t < length s"
  using skip_ws_length [of s] by simp

lemma read_keyword_length:
  assumes "read_keyword what kw m1 m2 s = Inr t"
  shows "length t \<le> length s"
proof -
  obtain w s1 where w: "read_word ''='' (skip_ws s) = (w, s1)" by fastforce
  then obtain c u where u: "skip_ws s1 = c # u" "t = skip_ws u"
    using assms by (auto simp: read_keyword_def split: list.splits if_splits)
  show ?thesis
    using skip_ws_Cons_length [OF u(1)] skip_ws_length [of u] read_word_le [OF w] skip_ws_length [of s]
    unfolding u(2) by linarith
qed

lemma parse_range_length: "parse_range what b s = Inr (r, t) \<Longrightarrow> length t \<le> length s"
proof -
  assume h: "parse_range what b s = Inr (r, t)"
  obtain w s1 where w: "read_word '','' (skip_ws s) = (w, s1)" by fastforce
  then have s1: "length (skip_ws s1) \<le> length s"
    using read_word_le [OF w] skip_ws_length [of s] skip_ws_length [of s1] by linarith
  show ?thesis
  proof (cases "skip_ws s1")
    case Nil
    then show ?thesis using h w by (simp add: parse_range_def)
  next
    case (Cons c u)
    obtain x s2 where x: "read_word '')]'' (skip_ws u) = (x, s2)" by fastforce
    have "length (skip_ws s2) \<le> length u"
      using read_word_le [OF x] skip_ws_length [of u] skip_ws_length [of s2] by linarith
    moreover have "length u < length s" using s1 Cons by simp
    moreover have "t = c # u \<or> (\<exists>d. skip_ws s2 = d # t)"
      using h unfolding parse_range_def w x Cons Let_def prod.case list.case
      by (auto simp: rbind_eq_Inr split: if_splits list.splits)
    ultimately show ?thesis by auto
  qed
qed

lemma parse_versions_length: "parse_versions what kw s = Inr (r, t) \<Longrightarrow> length t \<le> length s"
  by (cases s) (auto simp: parse_versions_def rbind_eq_Inr split: if_splits prod.splits
      dest!: parse_range_length read_word_le)

lemma parse_dependency_length: "parse_dependency what kw n s = Inr (d, t) \<Longrightarrow> length t \<le> length s"
  by (auto simp: parse_dependency_def rbind_eq_Inr split: list.splits if_splits
      dest!: parse_versions_length read_keyword_length skip_ws_Cons_length)

lemma parse_module_length: "parse_module n s = Inr (d, t) \<Longrightarrow> length t \<le> length s"
  by (auto simp: parse_module_def rbind_eq_Inr split: list.splits if_splits prod.splits
      dest!: read_word_le read_keyword_length skip_ws_Cons_length)

text \<open>
  An iteration that finds a name is behind it afterwards; one that does not stops at once when it
  stands at a semicolon.
\<close>

lemma name_progress:
  assumes "read_word '',;'' (skip_ws s) = (name, s1)" "name \<noteq> []" "length t \<le> length s1"
  shows "length (skip_comma t) < length s"
proof -
  have "length (skip_ws s) = length name + length s1"
    using read_word_split(1) [OF assms(1)] by simp
  moreover have "0 < length name" using assms(2) by simp
  ultimately show ?thesis
    using assms(3) skip_comma_length [of t] skip_ws_length [of s] by linarith
qed

lemma no_name_progress:
  assumes "read_word '',;'' (skip_ws s) = ([], s1)" "s \<noteq> []"
  shows "length (skip_comma s1) < length s \<or> skip_comma s1 = s"
proof -
  have s1: "s1 = skip_ws s" using read_word_split(1) [OF assms(1)] by simp
  show ?thesis
  proof (cases s1)
    case Nil
    then show ?thesis using assms(2) by (simp add: skip_comma_def)
  next
    case (Cons c t)
    show ?thesis
    proof (cases "length s1 = length s")
      case True
      have "s1 = s"
        using s1 True by (metis append_self_conv2 add_cancel_left_left length_0_conv length_append skip_ws_def takeWhile_dropWhile_id)
      then show ?thesis using Cons by (cases "c = CHR '',''") (auto simp: skip_comma_def)
    next
      case False
      then show ?thesis
        using skip_comma_length [of s1] skip_ws_length [of s] unfolding s1 by linarith
    qed
  qed
qed

interpretation required: item_parser "required_step what kw" for what kw
proof
  fix s new s' assume st: "required_step what kw s = Inr (new, s')" and ne: "s \<noteq> []"
  obtain name s1 where w: "read_word '',;'' (skip_ws s) = (name, s1)" by fastforce
  show "length s' < length s \<or> new = [] \<and> s' = s"
  proof (cases "name = []")
    case True
    then show ?thesis using no_name_progress w ne st by (auto simp: required_step_def)
  next
    case False
    then obtain d t where "parse_dependency what kw name s1 = Inr (d, t)" "s' = skip_comma t"
      using st w by (auto simp: required_step_def rbind_eq_Inr)
    then show ?thesis using name_progress [OF w False] parse_dependency_length by blast
  qed
qed

interpretation provided: item_parser provided_step
proof
  fix s new s' assume st: "provided_step s = Inr (new, s')" and ne: "s \<noteq> []"
  obtain name s1 where w: "read_word '',;'' (skip_ws s) = (name, s1)" by fastforce
  show "length s' < length s \<or> new = [] \<and> s' = s"
  proof (cases "name = []")
    case True
    then show ?thesis using no_name_progress w ne st by (auto simp: provided_step_def)
  next
    case False
    then obtain d t where "parse_module name s1 = Inr (d, t)" "s' = skip_comma t"
      using st w by (auto simp: provided_step_def rbind_eq_Inr)
    then show ?thesis using name_progress [OF w False] parse_module_length by blast
  qed
qed

section \<open>Reading back what is written\<close>

definition version_text_ok :: "version \<Rightarrow> bool" where
  "version_text_ok v \<longleftrightarrow> printable_field (major v) \<and> printable_field (minor v) \<and> printable_field (revision v)
     \<and> list_all (word_char '',)]'') (designation v)"

definition dependency_ok :: "dependency \<Rightarrow> bool" where
  "dependency_ok d \<longleftrightarrow> dep_name d \<noteq> [] \<and> list_all (word_char '',;'') (dep_name d)
     \<and> version_text_ok (lower (dep_versions d)) \<and> version_text_ok (upper (dep_versions d))
     \<and> version_le (lower (dep_versions d)) (upper (dep_versions d)) \<and> \<not> range_isEmpty (dep_versions d)"

definition module_ok :: "module \<Rightarrow> bool" where
  "module_ok m \<longleftrightarrow> mod_name m \<noteq> [] \<and> list_all (word_char '',;'') (mod_name m) \<and> version_text_ok (mod_version m)"

definition dependency_text :: "(int \<Rightarrow> string) \<Rightarrow> string \<Rightarrow> dependency \<Rightarrow> string" where
  "dependency_text fmt kw d = dep_name d @ '';'' @ kw @ ''='' @ range_toString fmt (dep_versions d)"

definition module_text :: "(int \<Rightarrow> string) \<Rightarrow> module \<Rightarrow> string" where
  "module_text fmt m = mod_name m @ '';module-version='' @ version_toString fmt (mod_version m)"

fun comma_separated :: "string list \<Rightarrow> string" where
  "comma_separated [] = []"
| "comma_separated [t] = t"
| "comma_separated (t # u # ts) = t @ '','' @ comma_separated (u # ts)"

lemma comma_separated_Cons:
  "comma_separated (t # ts) = t @ (if ts = [] then [] else CHR '','' # comma_separated ts)"
  by (cases ts) simp_all

text \<open>A word is read whole when it is followed by the end, by white space or by a separator.\<close>

lemma read_word_append:
  assumes "list_all (word_char stops) w" "r = [] \<or> \<not> word_char stops (hd r)"
  shows "read_word stops (w @ r) = (w, r)"
  unfolding read_word_def
  by (rule scan_append_stop) (use assms in \<open>auto simp: list_all_iff\<close>)

lemma skip_ws_word: "w \<noteq> [] \<Longrightarrow> list_all (word_char stops) w \<Longrightarrow> skip_ws (w @ r) = w @ r"
  by (cases w) (auto simp: skip_ws_def word_char_def)

lemma skip_ws_Cons: "\<not> isspace c \<Longrightarrow> skip_ws (c # s) = c # s"
  by (simp add: skip_ws_def)

lemma isdigit_not_space: "isdigit c \<Longrightarrow> \<not> isspace c"
  by (auto simp: isdigit_def isspace_def)

lemma isdigit_word_char: "isdigit c \<Longrightarrow> word_char '',)]'' c"
  by (auto simp: word_char_def isdigit_not_space) (auto simp: isdigit_def)

lemma punctuation [simp]:
  "\<not> isspace (CHR '';'')" "\<not> isspace (CHR ''='')" "\<not> isspace (CHR '','')" "\<not> isspace (CHR ''['')"
  "\<not> isspace (CHR ''('')" "\<not> isspace (CHR '']'')" "\<not> isspace (CHR '')'')" "\<not> isspace (CHR ''.'')"
  "\<not> isspace (CHR ''-'')"
  by (simp_all add: isspace_def)

lemma word_char_stops [simp]:
  "\<not> word_char '',;'' (CHR '';'')" "\<not> word_char '',;'' (CHR '','')" "\<not> word_char ''='' (CHR ''='')"
  "\<not> word_char '','' (CHR '','')" "\<not> word_char '')]'' (CHR '']'')" "\<not> word_char '')]'' (CHR '')'')"
  "word_char '',)]'' (CHR ''.'')" "word_char '',)]'' (CHR ''-'')"
  by (simp_all add: word_char_def)

lemma word_char_fewer: "word_char '',)]'' c \<Longrightarrow> word_char '','' c \<and> word_char '')]'' c"
  by (auto simp: word_char_def)

lemma version_text_words:
  assumes "formats_decimal fmt" "version_text_ok v"
  shows "list_all (word_char '',)]'') (version_toString fmt v)" "version_toString fmt v \<noteq> []"
    "list_all (word_char '','') (version_toString fmt v)" "list_all (word_char '')]'') (version_toString fmt v)"
proof -
  have fmt: "fmt n = decimal (nat n)" if "0 \<le> n" for n
    using assms(1) that by (metis formats_decimal_def nat_0_le)
  have dec: "list_all (word_char '',)]'') (decimal n)" for n
    using decimal_digits isdigit_word_char by (auto simp: list_all_iff)
  have nonneg: "0 \<le> major v" "0 \<le> minor v" "0 \<le> revision v"
    using assms(2) by (simp_all add: version_text_ok_def printable_field_def)
  show all: "list_all (word_char '',)]'') (version_toString fmt v)"
    using assms(2) dec by (simp add: version_toString_def fmt nonneg version_text_ok_def)
  show "version_toString fmt v \<noteq> []" by (simp add: version_toString_def fmt nonneg)
  show "list_all (word_char '','') (version_toString fmt v)" "list_all (word_char '')]'') (version_toString fmt v)"
    using all word_char_fewer by (auto simp: list_all_iff)
qed

lemma version_text_parse:
  "formats_decimal fmt \<Longrightarrow> version_text_ok v \<Longrightarrow> version_parse (version_toString fmt v) = Inr v"
  by (rule version_text_parses) (simp_all add: version_text_ok_def)

lemma read_keyword_text:
  assumes "kw \<noteq> []" "list_all (word_char ''='') kw" "r = [] \<or> \<not> isspace (hd r)"
  shows "read_keyword what kw m1 m2 (kw @ CHR ''='' # r) = Inr r"
proof -
  have "skip_ws r = r" using assms(3) by (rule skip_ws_none)
  then show ?thesis
    using read_word_append [of "''=''" kw "CHR ''='' # r"] skip_ws_word [OF assms(1,2), of "CHR ''='' # r"] assms
    by (simp add: read_keyword_def skip_ws_Cons)
qed

lemma parse_range_text:
  assumes "formats_decimal fmt" "version_text_ok lo" "version_text_ok up" "version_le lo up"
  shows "parse_range what incl (version_toString fmt lo @ CHR '','' # version_toString fmt up @ (if incu then CHR '']'' else CHR '')'') # r)
    = Inr (\<lparr>lower = lo, upper = up, includeLower = incl, includeUpper = incu\<rparr>, r)"
proof -
  note lo = version_text_words [OF assms(1,2)] and up = version_text_words [OF assms(1,3)]
  let ?close = "if incu then CHR '']'' else CHR '')''"
  have c: "\<not> isspace ?close" "\<not> word_char '')]'' ?close" "(?close = CHR '']'') = incu" "?close = CHR '')'' \<or> ?close = CHR '']''"
    by simp_all
  have 1: "read_word '','' (skip_ws (version_toString fmt lo @ CHR '','' # u)) = (version_toString fmt lo, CHR '','' # u)" for u
    using skip_ws_word [OF lo(2,3), of "CHR '','' # u"] read_word_append [OF lo(3), of "CHR '','' # u"] by simp
  have 2: "read_word '')]'' (skip_ws (version_toString fmt up @ ?close # r)) = (version_toString fmt up, ?close # r)"
    using skip_ws_word [OF up(2,4), of "?close # r"] read_word_append [OF up(4), of "?close # r"] c by simp
  show ?thesis
    unfolding parse_range_def Let_def 1 2 prod.case skip_ws_Cons [OF punctuation(3)] skip_ws_Cons [OF c(1)] list.case
    using c(3,4) assms by (simp add: version_text_parse range_of_def)
qed

lemma required_step_text:
  assumes fmt: "formats_decimal fmt" and ok: "dependency_ok d"
    and kw: "kw \<noteq> []" "list_all (word_char ''='') kw" and r: "r = [] \<or> hd r = CHR '',''"
  shows "required_step what kw (dependency_text fmt kw d @ r) = Inr ([d], skip_comma r)"
proof -
  let ?v = "dep_versions d"
  have d: "dep_name d \<noteq> []" "list_all (word_char '',;'') (dep_name d)" "version_text_ok (lower ?v)"
    "version_text_ok (upper ?v)" "version_le (lower ?v) (upper ?v)" "\<not> range_isEmpty ?v"
    using ok by (simp_all add: dependency_ok_def)
  define range where "range = range_toString fmt ?v @ r"
  have written: "dependency_text fmt kw d @ r = dep_name d @ CHR '';'' # kw @ CHR ''='' # range"
    by (simp add: dependency_text_def range_def)
  obtain c t where ct: "range = c # t" "c = (if includeLower ?v then CHR ''['' else CHR ''('')"
    and t: "t = version_toString fmt (lower ?v) @ CHR '','' # version_toString fmt (upper ?v)
        @ (if includeUpper ?v then CHR '']'' else CHR '')'') # r"
    using d(6) by (cases "includeLower ?v"; cases "includeUpper ?v") (simp_all add: range_def range_toString_def)
  have "parse_versions what kw range = Inr (?v, r)"
    using parse_range_text [OF fmt d(3-5), of what "includeLower ?v" "includeUpper ?v" r] ct t
    by (cases "includeLower ?v") (simp_all add: parse_versions_def)
  moreover have "read_keyword what kw m1 m2 (kw @ CHR ''='' # range) = Inr range" for m1 m2
    using read_keyword_text [OF kw] ct by simp
  ultimately have "parse_dependency what kw (dep_name d) (CHR '';'' # kw @ CHR ''='' # range) = Inr (d, r)"
    by (simp add: parse_dependency_def skip_ws_Cons)
  then show ?thesis
    using skip_ws_word [OF d(1,2)] read_word_append [OF d(2)] d(1) by (simp add: required_step_def written)
qed

lemma provided_step_text:
  assumes fmt: "formats_decimal fmt" and ok: "module_ok m" and r: "r = [] \<or> hd r = CHR '',''"
  shows "provided_step (module_text fmt m @ r) = Inr ([m], skip_comma r)"
proof -
  have m: "mod_name m \<noteq> []" "list_all (word_char '',;'') (mod_name m)" "version_text_ok (mod_version m)"
    using ok by (simp_all add: module_ok_def)
  note v = version_text_words [OF fmt m(3)]
  define range where "range = version_toString fmt (mod_version m) @ r"
  have written: "module_text fmt m @ r = mod_name m @ CHR '';'' # ''module-version'' @ CHR ''='' # range"
    by (simp add: module_text_def range_def)
  have kw: "list_all (word_char ''='') ''module-version''" by (simp add: word_char_def isspace_def)
  have "\<not> isspace (hd range)" "range \<noteq> []"
    using v(1,2) by (cases "version_toString fmt (mod_version m)"; simp add: range_def word_char_def)+
  then have "read_keyword PROVIDE_MODULE ''module-version'' m1 m2 (''module-version'' @ CHR ''='' # range) = Inr range" for m1 m2
    using read_keyword_text [OF _ kw, of range] by simp
  moreover have "read_word '','' range = (version_toString fmt (mod_version m), r)"
    unfolding range_def by (rule read_word_append [OF v(3)]) (use r in auto)
  ultimately have "parse_module (mod_name m) (CHR '';'' # ''module-version'' @ CHR ''='' # range) = Inr (m, r)"
    using \<open>range \<noteq> []\<close> version_text_parse [OF fmt m(3)] by (simp add: parse_module_def skip_ws_Cons)
  then show ?thesis
    using skip_ws_word [OF m(1,2)] read_word_append [OF m(2)] m(1) by (simp add: provided_step_def written)
qed

text \<open>The loop over a list of texts, each read by one step.\<close>

lemma items_loop_texts:
  assumes "\<And>x r. x \<in> set xs \<Longrightarrow> r = [] \<or> hd r = CHR '','' \<Longrightarrow> step (text x @ r) = Inr ([x], skip_comma r)"
    and "\<And>x. x \<in> set xs \<Longrightarrow> text x \<noteq> []"
  shows "items_loop step (length xs) acc (comma_separated (map text xs)) = Some (Inr (acc @ xs))"
  using assms
proof (induction xs arbitrary: acc)
  case Nil
  then show ?case by simp
next
  case (Cons x xs)
  let ?r = "if xs = [] then [] else CHR '','' # comma_separated (map text xs)"
  have s: "comma_separated (map text (x # xs)) = text x @ ?r" by (simp add: comma_separated_Cons)
  obtain c t where ct: "text x @ ?r = c # t" using Cons.prems(2) [of x] by (cases "text x") auto
  have "step (c # t) = Inr ([x], skip_comma ?r)" using Cons.prems(1) [of x ?r] ct by simp
  moreover have "skip_comma ?r = comma_separated (map text xs)" by (simp add: skip_comma_def)
  ultimately show ?case
    using Cons.IH [of "acc @ [x]"] Cons.prems s ct by simp
qed

text \<open>
  lists of dependencies and of provided modules survive being written into a manifest: items with a
  name, the keyword and the printed version range or version, separated by commas, are read back as
  the same list, in as many iterations as there are items.
\<close>

theorem manifest_lists_roundtrip:
  assumes "formats_decimal fmt" and "list_all dependency_ok ds" and "list_all module_ok ms"
  shows "parseRequiredBundles (length ds) (comma_separated (map (dependency_text fmt ''bundle-version'') ds)) = Some (Inr ds)
    \<and> parseRequiredModules (length ds) (comma_separated (map (dependency_text fmt ''module-version'') ds)) = Some (Inr ds)
    \<and> parseProvidedModules (length ms) (comma_separated (map (module_text fmt) ms)) = Some (Inr ms)"
proof -
  have kw: "list_all (word_char ''='') ''bundle-version''" "list_all (word_char ''='') ''module-version''"
    by (simp_all add: word_char_def isspace_def)
  have "items_loop (required_step what k) (length ds) [] (comma_separated (map (dependency_text fmt k) ds)) = Some (Inr ds)"
    if "k \<noteq> []" "list_all (word_char ''='') k" for what k
    using items_loop_texts [of ds "required_step what k" "dependency_text fmt k" "[]"]
      required_step_text [OF assms(1) _ that] assms(2) by (auto simp: list_all_iff dependency_text_def)
  moreover have "items_loop provided_step (length ms) [] (comma_separated (map (module_text fmt) ms)) = Some (Inr ms)"
    using items_loop_texts [of ms provided_step "module_text fmt" "[]"]
      provided_step_text [OF assms(1)] assms(3) by (auto simp: list_all_iff module_text_def)
  ultimately show ?thesis
    using kw by (simp add: parseRequiredBundles_def parseRequiredModules_def parseRequiredItems_def parseProvidedModules_def)
qed

theorem manifest_lists_roundtrip_witness:
  "parseRequiredBundles 1 ''a;bundle-version=[1.0.0,2.0.0)'' =
     Some (Inr [\<lparr>dep_name = ''a'', dep_versions = \<lparr>lower = version_of 1 0 0, upper = version_of 2 0 0,
       includeLower = True, includeUpper = False\<rparr>\<rparr>])"
proof -
  let ?d = "\<lparr>dep_name = ''a'', dep_versions = \<lparr>lower = version_of 1 0 0, upper = version_of 2 0 0,
       includeLower = True, includeUpper = False\<rparr>\<rparr>"
  have "list_all dependency_ok [?d]" by code_simp
  moreover have "formats_decimal (\<lambda>n. decimal (nat n))" by (simp add: formats_decimal_def)
  moreover have "dependency_text (\<lambda>n. decimal (nat n)) ''bundle-version'' ?d = ''a;bundle-version=[1.0.0,2.0.0)''"
    by code_simp
  ultimately show ?thesis
    using manifest_lists_roundtrip [of "\<lambda>n. decimal (nat n)" "[?d]" "[]"] by simp
qed

text \<open>
  the list parsers need not end: as many iterations as the string has characters decide whether they
  do, and a semicolon where an item should begin, at the start of the list or behind a complete item,
  makes them loop for ever.
\<close>

theorem manifest_lists_may_loop:
  "((\<forall>n. parseRequiredItems n s what kw = None) \<longleftrightarrow> parseRequiredItems (length s) s what kw = None) \<and>
   ((\<forall>n. parseProvidedModules n s = None) \<longleftrightarrow> parseProvidedModules (length s) s = None) \<and>
   parseRequiredItems n (CHR '';'' # s) what kw = None \<and>
   parseProvidedModules n (CHR '';'' # s) = None \<and>
   parseRequiredBundles n (''a;bundle-version=[1.0,2.0];'' @ s) = None"
proof -
  have semi: "required_step w k (CHR '';'' # t) = Inr ([], CHR '';'' # t)" "provided_step (CHR '';'' # t) = Inr ([], CHR '';'' # t)" for w k t
    by (simp_all add: required_step_def provided_step_def read_word_def scan_def skip_ws_def skip_comma_def)
  have item: "required_step ''Require-Bundle'' ''bundle-version'' (''a;bundle-version=[1.0,2.0];'' @ s) =
      Inr ([\<lparr>dep_name = ''a'', dep_versions = \<lparr>lower = version_of 1 0 0, upper = version_of 2 0 0,
        includeLower = True, includeUpper = True\<rparr>\<rparr>], CHR '';'' # s)"
    by (simp add: required_step_def parse_dependency_def read_keyword_def parse_versions_def parse_range_def read_word_def
        scan_def word_char_def isspace_def skip_ws_def skip_comma_def version_parse_def parse_fields_def isdigit_def
        digit_step_def int_max_def range_of_def version_le_def version_of4_def version_of_def)
  have stuck: "items_loop (required_step w k) m acc (CHR '';'' # t) = None" for w k m acc t
    by (rule required.stuck) (simp_all add: semi)
  have loop: "parseRequiredBundles n (''a;bundle-version=[1.0,2.0];'' @ s) = None"
    using item stuck by (cases n) (simp_all add: parseRequiredBundles_def parseRequiredItems_def)
  show ?thesis
    using loop stuck provided.stuck [OF _ semi(2)] required.decided [of s "length s"] provided.decided [of s "length s"]
    unfolding parseRequiredItems_def parseProvidedModules_def by blast
qed

text \<open>
  an opening bracket with a lower bound only is not rejected: the dependency is entered with the
  default range, which is empty and which the bundle loader takes for no restriction at all, and bounds
  in the wrong order stop the program in an assertion instead of being reported as a malformed
  manifest.
\<close>

theorem manifest_bad_ranges:
  "parseRequiredBundles (Suc n) ''a;bundle-version=[1.0)'' = Some (Inr [\<lparr>dep_name = ''a'', dep_versions = range_empty\<rparr>]) \<and>
   range_isEmpty range_empty \<and>
   parseRequiredBundles (Suc n) ''a;bundle-version=[2.0,1.0]'' = Some (Inl AssertionViolation)"
proof -
  have a: "required_step w ''bundle-version'' ''a;bundle-version=[1.0)'' = Inr ([\<lparr>dep_name = ''a'', dep_versions = range_empty\<rparr>], [])" for w
    by (simp add: required_step_def parse_dependency_def read_keyword_def parse_versions_def parse_range_def read_word_def
        scan_def word_char_def isspace_def skip_ws_def skip_comma_def)
  have b: "required_step w ''bundle-version'' ''a;bundle-version=[2.0,1.0]'' = Inl AssertionViolation" for w
    by (simp add: required_step_def parse_dependency_def read_keyword_def parse_versions_def parse_range_def read_word_def
        scan_def word_char_def isspace_def skip_ws_def skip_comma_def version_parse_def parse_fields_def isdigit_def
        digit_step_def int_max_def range_of_def version_le_def version_of4_def version_of_def)
  show ?thesis
    using a b by (simp add: parseRequiredBundles_def parseRequiredItems_def range_isEmpty_def range_empty_def
        version_eq_def)
qed

end
