(* ===== verification/OSP_Bundles.thy ===== *)
theory OSP_Bundles
  imports OSP_Manifest
begin

text \<open>
  Bundles and the bundle loader: \<open>platform/OSP/src/Bundle.cpp\<close> and \<open>platform/OSP/src/BundleLoader.cpp\<close>.
  Bundle objects live in the function \<open>heap\<close>, and a \<open>Bundle::Ptr\<close> is an address in it; the loader maps
  symbolic names to addresses. \<open>Bundle::resolve\<close> and \<open>BundleLoader::resolveBundle\<close> call each other, and so
  do \<open>Bundle::start\<close> and \<open>BundleLoader::startBundle\<close>: each is a definition that takes the other as an
  argument, and \<open>resolve\<close> and \<open>start\<close> tie the knot with fuel that bounds the depth of the calls.
  What the dynamic linker, the file system and the activators of the bundles do is the record
  \<open>loader_env\<close>: the outcome may depend on everything that has happened before, the list of the events.
\<close>

section \<open>State\<close>

datatype bundle_state = BUNDLE_INSTALLED | BUNDLE_UNINSTALLED | BUNDLE_RESOLVED
  | BUNDLE_STARTING | BUNDLE_ACTIVE | BUNDLE_STOPPING

type_synonym resolved_dependency = "string \<times> version"

type_synonym module_provider = "dependency \<times> resolved_dependency list"

record bundle_obj =
  bstate :: bundle_state
  bmanifest :: manifest
  bactivator :: bool
  bclassloader :: bool
  bextensions :: "nat set"
  bdeps :: "resolved_dependency list"
  bproviders :: "module_provider list"
  bautoStartBlocked :: bool

datatype bundle_event = EvLoaded nat | EvUnloaded nat | EvResolving nat | EvResolved nat | EvStarting nat
  | EvStarted nat | EvFailed nat exc | EvStopping nat | EvStopped nat | EvUninstalling nat | EvUninstalled nat
  | EvActivatorStarted nat | EvActivatorStopped nat | EvError nat exc

record loader =
  heap :: "nat \<Rightarrow> bundle_obj"
  bundles :: "(string \<times> nat) list"
  resolving :: "nat set"
  lastStarted :: string
  events :: "bundle_event list"

record loader_env =
  fmtInt :: "int \<Rightarrow> string"
  bundlePath :: "nat \<Rightarrow> string"
  installLibraries :: "bundle_event list \<Rightarrow> nat \<Rightarrow> unit res"
  activatorFound :: "bundle_event list \<Rightarrow> nat \<Rightarrow> unit res"
  activatorStart :: "bundle_event list \<Rightarrow> nat \<Rightarrow> unit res"
  activatorStop :: "bundle_event list \<Rightarrow> nat \<Rightarrow> unit res"
  unloadLibrary :: "bundle_event list \<Rightarrow> nat \<Rightarrow> unit res"
  removeFiles :: "bundle_event list \<Rightarrow> nat \<Rightarrow> unit res"

type_synonym 'a out = "loader \<times> 'a res"

definition lbind :: "'a out option \<Rightarrow> (loader \<Rightarrow> 'a \<Rightarrow> 'b out option) \<Rightarrow> 'b out option" where
  "lbind m f = (case m of None \<Rightarrow> None | Some (L, Inl e) \<Rightarrow> Some (L, Inl e) | Some (L, Inr x) \<Rightarrow> f L x)"

definition upd :: "nat \<Rightarrow> (bundle_obj \<Rightarrow> bundle_obj) \<Rightarrow> loader \<Rightarrow> loader" where
  "upd p f L = L\<lparr>heap := (heap L)(p := f (heap L p))\<rparr>"

definition emit :: "bundle_event \<Rightarrow> loader \<Rightarrow> loader" where
  "emit ev L = L\<lparr>events := events L @ [ev]\<rparr>"

definition set_state :: "nat \<Rightarrow> bundle_state \<Rightarrow> loader \<Rightarrow> loader" where
  "set_state p s L = upd p (\<lambda>b. b\<lparr>bstate := s\<rparr>) L"

definition state_of :: "loader \<Rightarrow> nat \<Rightarrow> bundle_state" where
  "state_of L p = bstate (heap L p)"

definition manifest_of :: "loader \<Rightarrow> nat \<Rightarrow> manifest" where
  "manifest_of L p = bmanifest (heap L p)"

definition symbolicName :: "loader \<Rightarrow> nat \<Rightarrow> string" where
  "symbolicName L p = m_symbolicName (manifest_of L p)"

definition version_at :: "loader \<Rightarrow> nat \<Rightarrow> version" where
  "version_at L p = m_version (manifest_of L p)"

definition resolved_state :: "bundle_state \<Rightarrow> bool" where
  "resolved_state s \<longleftrightarrow> s = BUNDLE_RESOLVED \<or> s = BUNDLE_STARTING \<or> s = BUNDLE_ACTIVE \<or> s = BUNDLE_STOPPING"

definition isResolved :: "loader \<Rightarrow> nat \<Rightarrow> bool" where
  "isResolved L p \<longleftrightarrow> resolved_state (state_of L p)"

definition isActive :: "loader \<Rightarrow> nat \<Rightarrow> bool" where
  "isActive L p \<longleftrightarrow> state_of L p = BUNDLE_ACTIVE"

definition isStarted :: "loader \<Rightarrow> nat \<Rightarrow> bool" where
  "isStarted L p \<longleftrightarrow> state_of L p = BUNDLE_STARTING \<or> state_of L p = BUNDLE_ACTIVE \<or> state_of L p = BUNDLE_STOPPING"

definition stateString :: "bundle_state \<Rightarrow> string" where
  "stateString s = (case s of BUNDLE_INSTALLED \<Rightarrow> ''installed'' | BUNDLE_UNINSTALLED \<Rightarrow> ''uninstalled''
     | BUNDLE_RESOLVED \<Rightarrow> ''resolved'' | BUNDLE_STARTING \<Rightarrow> ''starting'' | BUNDLE_ACTIVE \<Rightarrow> ''active''
     | BUNDLE_STOPPING \<Rightarrow> ''stopping'')"

definition isExtensionBundle :: "loader \<Rightarrow> nat \<Rightarrow> bool" where
  "isExtensionBundle L p \<longleftrightarrow> m_extendedBundle (manifest_of L p) \<noteq> []"

definition findBundle :: "loader \<Rightarrow> string \<Rightarrow> nat option" where
  "findBundle L name = smap_get (<) name (bundles L)"

definition extendedBundle :: "loader \<Rightarrow> nat \<Rightarrow> nat option" where
  "extendedBundle L p = (if isExtensionBundle L p then findBundle L (m_extendedBundle (manifest_of L p)) else None)"

section \<open>Bundle\<close>

definition addExtensionBundle :: "nat \<Rightarrow> nat \<Rightarrow> loader \<Rightarrow> unit out" where
  "addExtensionBundle p x L =
     (if \<not> m_sealed (manifest_of L p) then
        (if isResolved L p then (upd p (\<lambda>b. b\<lparr>bextensions := insert x (bextensions b)\<rparr>) L, Inr ())
         else (L, Inl (BundleStateException ''addExtensionBundle() requires at least RESOLVED state'')))
      else (L, Inl (BundleSealedException (symbolicName L x @ '' cannot extend '' @ symbolicName L p))))"

definition removeExtensionBundle :: "nat \<Rightarrow> nat \<Rightarrow> loader \<Rightarrow> loader" where
  "removeExtensionBundle p x L = upd p (\<lambda>b. b\<lparr>bextensions := bextensions b - {x}\<rparr>) L"

definition addResolvedDependency :: "nat \<Rightarrow> resolved_dependency \<Rightarrow> loader \<Rightarrow> loader" where
  "addResolvedDependency p d L =
     (if list_ex (\<lambda>e. fst e = fst d) (bdeps (heap L p)) then L
      else upd p (\<lambda>b. b\<lparr>bdeps := bdeps b @ [d]\<rparr>) L)"

definition clearResolvedDependencies :: "nat \<Rightarrow> loader \<Rightarrow> loader" where
  "clearResolvedDependencies p L = upd p (\<lambda>b. b\<lparr>bdeps := []\<rparr>) L"

definition Bundle_resolve :: "(nat \<Rightarrow> loader \<Rightarrow> unit out option) \<Rightarrow> nat \<Rightarrow> loader \<Rightarrow> unit out option" where
  "Bundle_resolve loader_resolveBundle p L =
     (if state_of L p \<noteq> BUNDLE_INSTALLED then
        Some (L, Inl (BundleStateException ''resolve() requires INSTALLED state''))
      else
        lbind (loader_resolveBundle p (clearResolvedDependencies p (emit (EvResolving p) L))) (\<lambda>L1 _.
        Some (emit (EvResolved p) (set_state p BUNDLE_RESOLVED L1), Inr ())))"

text \<open>\<open>StateChange\<close> puts the old state back when its scope is left before \<open>commit\<close>.\<close>

definition Bundle_start :: "(nat \<Rightarrow> loader \<Rightarrow> unit out option) \<Rightarrow> nat \<Rightarrow> loader \<Rightarrow> unit out option" where
  "Bundle_start loader_startBundle p L =
     (if state_of L p \<noteq> BUNDLE_RESOLVED then
        Some (L, Inl (BundleStateException ''start() requires RESOLVED state''))
      else
        let oldState = state_of L p in
        case loader_startBundle p (emit (EvStarting p) (set_state p BUNDLE_STARTING L)) of
          None \<Rightarrow> None
        | Some (L1, Inl e) \<Rightarrow> Some (set_state p oldState (emit (EvFailed p e) L1), Inl e)
        | Some (L1, Inr _) \<Rightarrow> Some (emit (EvStarted p) (set_state p BUNDLE_ACTIVE L1), Inr ()))"

definition Bundle_stop :: "(nat \<Rightarrow> loader \<Rightarrow> unit out) \<Rightarrow> nat \<Rightarrow> loader \<Rightarrow> unit out" where
  "Bundle_stop loader_stopBundle p L =
     (if state_of L p \<noteq> BUNDLE_ACTIVE then (L, Inl (BundleStateException ''stop() requires ACTIVE state''))
      else
        let oldState = state_of L p in
        case loader_stopBundle p (emit (EvStopping p) (set_state p BUNDLE_STOPPING L)) of
          (L1, Inl e) \<Rightarrow> (set_state p oldState L1, Inl e)
        | (L1, Inr _) \<Rightarrow> (emit (EvStopped p) (set_state p BUNDLE_RESOLVED L1), Inr ()))"

definition Bundle_uninstall :: "(nat \<Rightarrow> loader \<Rightarrow> unit out) \<Rightarrow> nat \<Rightarrow> loader \<Rightarrow> unit out" where
  "Bundle_uninstall loader_uninstallBundle p L =
     (if state_of L p \<noteq> BUNDLE_INSTALLED \<and> state_of L p \<noteq> BUNDLE_RESOLVED then
        (L, Inl (BundleStateException ''uninstall() requires INSTALLED or RESOLVED state''))
      else if m_preventUninstall (manifest_of L p) then
        (L, Inl (BundleUninstallException ''bundle manifest prevents uninstall''))
      else case loader_uninstallBundle p (emit (EvUninstalling p) L) of
          (L1, Inl e) \<Rightarrow> (L1, Inl e)
        | (L1, Inr _) \<Rightarrow> (emit (EvUninstalled p) (set_state p BUNDLE_UNINSTALLED L1), Inr ()))"

section \<open>Resolving\<close>

definition isProvidingModule :: "loader \<Rightarrow> nat \<Rightarrow> dependency \<Rightarrow> bool" where
  "isProvidingModule L p d \<longleftrightarrow>
     list_ex (\<lambda>m. dep_name d = mod_name m \<and> isInRange (dep_versions d) (mod_version m))
       (m_providedModules (manifest_of L p))"

fun resolve_modules_loop ::
    "loader_env \<Rightarrow> loader \<Rightarrow> nat \<Rightarrow> dependency list \<Rightarrow> module_provider list \<Rightarrow> module_provider list res" where
  "resolve_modules_loop E L p [] acc = Inr acc"
| "resolve_modules_loop E L p (d # ds) acc =
     (let found = [(name, version_at L q). (name, q) \<leftarrow> bundles L, isProvidingModule L q d] in
      if found = [] then
        Inl (BundleResolveException (''Module '' @ dep_name d @ '', version '' @ range_toString (fmtInt E) (dep_versions d)
          @ '' required by bundle '' @ symbolicName L p @ '' not available''))
      else resolve_modules_loop E L p ds (acc @ [(d, found)]))"

definition resolveModules :: "loader_env \<Rightarrow> loader \<Rightarrow> nat \<Rightarrow> module_provider list res" where
  "resolveModules E L p = resolve_modules_loop E L p (m_requiredModules (manifest_of L p)) []"

definition isResolving :: "loader \<Rightarrow> nat \<Rightarrow> bool" where
  "isResolving L p \<longleftrightarrow> p \<in> resolving L"

definition resolveDependency ::
    "loader_env \<Rightarrow> (nat \<Rightarrow> loader \<Rightarrow> unit out option) \<Rightarrow> nat \<Rightarrow> dependency \<Rightarrow> loader \<Rightarrow> unit out option" where
  "resolveDependency E bundle_resolve p d L =
     (case findBundle L (dep_name d) of
        None \<Rightarrow> Some (L, Inl (BundleResolveException (''Required bundle not available: '' @ dep_name d)))
      | Some q \<Rightarrow>
          if range_isEmpty (dep_versions d) \<or> isInRange (dep_versions d) (version_at L q) then
            lbind (if \<not> isResolved L q then
                     (if \<not> isResolving L q then bundle_resolve q L
                      else Some (L, Inl (BundleResolveException (''Circular reference detected involving ''
                             @ symbolicName L p @ '' and '' @ symbolicName L q))))
                   else Some (L, Inr ())) (\<lambda>L1 _.
            Some (addResolvedDependency p (symbolicName L1 q, version_at L1 q) L1, Inr ()))
          else Some (L, Inl (BundleResolveException (''Required bundle not available in requested version: ''
                 @ dep_name d @ '', requested: '' @ range_toString (fmtInt E) (dep_versions d)
                 @ '', available: '' @ version_toString (fmtInt E) (version_at L q)))))"

fun resolveDependencies ::
    "loader_env \<Rightarrow> (nat \<Rightarrow> loader \<Rightarrow> unit out option) \<Rightarrow> nat \<Rightarrow> dependency list \<Rightarrow> loader \<Rightarrow> unit out option" where
  "resolveDependencies E br p [] L = Some (L, Inr ())"
| "resolveDependencies E br p (d # ds) L =
     lbind (resolveDependency E br p d L) (\<lambda>L1 _. resolveDependencies E br p ds L1)"

text \<open>The providers of a module are required in exactly the version that was found.\<close>

definition resolveProviders ::
    "loader_env \<Rightarrow> (nat \<Rightarrow> loader \<Rightarrow> unit out option) \<Rightarrow> nat \<Rightarrow> module_provider list \<Rightarrow> loader \<Rightarrow> unit out option" where
  "resolveProviders E br p providers L =
     resolveDependencies E br p
       [\<lparr>dep_name = n, dep_versions = range_exact v\<rparr>. (m, found) \<leftarrow> providers, (n, v) \<leftarrow> found] L"

text \<open>
  The part of \<open>resolveBundle\<close> inside the \<open>try\<close> block, the handler, and what follows it: the libraries
  are installed, and an extension bundle is added to the bundle it extends.
\<close>

definition resolve_requirements ::
    "loader_env \<Rightarrow> (nat \<Rightarrow> loader \<Rightarrow> unit out option) \<Rightarrow> nat \<Rightarrow> loader \<Rightarrow> unit out option" where
  "resolve_requirements E br p L =
     (case resolveModules E L p of
        Inl e \<Rightarrow> Some (L, Inl e)
      | Inr providers \<Rightarrow>
          lbind (resolveProviders E br p providers L) (\<lambda>L1 _.
          lbind (resolveDependencies E br p (m_requiredBundles (manifest_of L1 p)) L1) (\<lambda>L2 _.
          Some (upd p (\<lambda>b. b\<lparr>bproviders := providers\<rparr>) L2, Inr ()))))"

definition extend_bundle ::
    "(nat \<Rightarrow> loader \<Rightarrow> unit out option) \<Rightarrow> nat \<Rightarrow> loader \<Rightarrow> unit out option" where
  "extend_bundle br p L =
     (case extendedBundle L p of
        None \<Rightarrow> Some (L, Inr ())
      | Some x \<Rightarrow>
          lbind (if \<not> isResolved L x then br x L else Some (L, Inr ())) (\<lambda>L1 _.
          Some (addExtensionBundle x p L1)))"

definition resolveBundle ::
    "loader_env \<Rightarrow> (nat \<Rightarrow> loader \<Rightarrow> unit out option) \<Rightarrow> nat \<Rightarrow> loader \<Rightarrow> unit out option" where
  "resolveBundle E br p L =
     (if isResolving L p then Some (L, Inl AssertionViolation)
      else case resolve_requirements E br p (L\<lparr>resolving := insert p (resolving L)\<rparr>) of
        None \<Rightarrow> None
      | Some (L1, Inl e) \<Rightarrow>
          Some (clearResolvedDependencies p (L1\<lparr>resolving := resolving L1 - {p}\<rparr>), Inl e)
      | Some (L1, Inr _) \<Rightarrow>
          (let L2 = L1\<lparr>resolving := resolving L1 - {p}\<rparr> in
           case installLibraries E (events L2) p of
             Inl e \<Rightarrow> Some (L2, Inl e)
           | Inr _ \<Rightarrow> extend_bundle br p L2))"

primrec resolve :: "loader_env \<Rightarrow> nat \<Rightarrow> nat \<Rightarrow> loader \<Rightarrow> unit out option" where
  "resolve E 0 = (\<lambda>p L. None)"
| "resolve E (Suc n) = Bundle_resolve (resolveBundle E (resolve E n))"

section \<open>Starting and stopping\<close>

fun startDependencies ::
    "(nat \<Rightarrow> loader \<Rightarrow> unit out option) \<Rightarrow> resolved_dependency list \<Rightarrow> loader \<Rightarrow> unit out option" where
  "startDependencies bs [] L = Some (L, Inr ())"
| "startDependencies bs ((name, v) # ds) L =
     lbind (case findBundle L name of
              None \<Rightarrow> Some (L, Inl (BundleResolveException (''A required bundle is no longer available: '' @ name)))
            | Some q \<Rightarrow>
                if version_eq (version_at L q) v then
                  (if \<not> isActive L q then bs q L else Some (L, Inr ()))
                else Some (L, Inl (BundleResolveException (''A required bundle is no longer available: '' @ name))))
       (\<lambda>L1 _. startDependencies bs ds L1)"

text \<open>
  \<open>loadActivator\<close>: the class loader is stored before the library is loaded. The result says whether
  there is an activator.
\<close>

definition loadActivator :: "loader_env \<Rightarrow> nat \<Rightarrow> loader \<Rightarrow> bool out" where
  "loadActivator E q L =
     (if \<not> bclassloader (heap L q) then
        (let L1 = upd q (\<lambda>b. b\<lparr>bclassloader := True\<rparr>) L in
         if m_activatorClass (manifest_of L q) \<noteq> [] then
           (case activatorFound E (events L1) q of
              Inl e \<Rightarrow> (L1, Inl e)
            | Inr _ \<Rightarrow> (upd q (\<lambda>b. b\<lparr>bactivator := True\<rparr>) L1, Inr True))
         else (L1, Inr False))
      else (L, Inr (bactivator (heap L q))))"

definition unloadActivator :: "loader_env \<Rightarrow> nat \<Rightarrow> loader \<Rightarrow> unit out" where
  "unloadActivator E q L =
     (if bclassloader (heap L q) then
        (case (if m_activatorClass (manifest_of L q) \<noteq> [] then unloadLibrary E (events L) q else Inr ()) of
           Inl e \<Rightarrow> (L, Inl e)
         | Inr _ \<Rightarrow> (upd q (\<lambda>b. b\<lparr>bclassloader := False\<rparr>) L, Inr ()))
      else (L, Inr ()))"

definition unknown_bundle :: "loader \<Rightarrow> nat \<Rightarrow> exc" where
  "unknown_bundle L p = OtherException (''The bundle loader does not know the bundle: '' @ symbolicName L p)"

definition startBundle ::
    "loader_env \<Rightarrow> (nat \<Rightarrow> loader \<Rightarrow> unit out option) \<Rightarrow> nat \<Rightarrow> loader \<Rightarrow> unit out option" where
  "startBundle E bs p L =
     (case findBundle L (symbolicName L p) of
        None \<Rightarrow> Some (L, Inl (unknown_bundle L p))
      | Some q \<Rightarrow>
          lbind (startDependencies bs (bdeps (heap L p)) L) (\<lambda>L1 _.
          lbind (Some (loadActivator E q (L1\<lparr>lastStarted := symbolicName L1 p\<rparr>))) (\<lambda>L2 hasActivator.
          if hasActivator then
            (case activatorStart E (events L2) q of
               Inl e \<Rightarrow> Some (L2, Inl e)
             | Inr _ \<Rightarrow> Some (emit (EvActivatorStarted q) L2, Inr ()))
          else Some (L2, Inr ()))))"

primrec start :: "loader_env \<Rightarrow> nat \<Rightarrow> nat \<Rightarrow> loader \<Rightarrow> unit out option" where
  "start E 0 = (\<lambda>p L. None)"
| "start E (Suc n) = Bundle_start (startBundle E (start E n))"

definition stopBundle :: "loader_env \<Rightarrow> nat \<Rightarrow> loader \<Rightarrow> unit out" where
  "stopBundle E p L =
     (case findBundle L (symbolicName L p) of
        None \<Rightarrow> (L, Inl (unknown_bundle L p))
      | Some q \<Rightarrow>
          if bactivator (heap L p) then
            (case activatorStop E (events L) p of
               Inl e \<Rightarrow> (L, Inl e)
             | Inr _ \<Rightarrow> (emit (EvActivatorStopped p) L, Inr ()))
          else (L, Inr ()))"

definition stop :: "loader_env \<Rightarrow> nat \<Rightarrow> loader \<Rightarrow> unit out" where
  "stop E = Bundle_stop (stopBundle E)"

section \<open>Loading and unloading\<close>

definition loadBundle :: "loader_env \<Rightarrow> nat \<Rightarrow> loader \<Rightarrow> unit out" where
  "loadBundle E p L =
     (case findBundle L (symbolicName L p) of
        None \<Rightarrow> (emit (EvLoaded p) (upd p (\<lambda>b. b\<lparr>bclassloader := False\<rparr>)
                  (L\<lparr>bundles := smap_put (<) (symbolicName L p) p (bundles L)\<rparr>)), Inr ())
      | Some q \<Rightarrow> (L, Inl (OtherException (symbolicName L p @ '' version '' @ version_toString (fmtInt E) (version_at L p)
                  @ '' from '' @ [CHR 0x27] @ bundlePath E p @ [CHR 0x27] @ '' conflicts with already loaded version ''
                  @ version_toString (fmtInt E) (version_at L q) @ '' from '' @ [CHR 0x27] @ bundlePath E q @ [CHR 0x27]))))"

definition detach_extension :: "nat \<Rightarrow> loader \<Rightarrow> loader" where
  "detach_extension p L = (case extendedBundle L p of None \<Rightarrow> L | Some x \<Rightarrow> removeExtensionBundle x p L)"

definition erase_bundle :: "nat \<Rightarrow> loader \<Rightarrow> loader" where
  "erase_bundle p L = emit (EvUnloaded p) (L\<lparr>bundles := smap_del (<) (symbolicName L p) (bundles L)\<rparr>)"

definition unload_known :: "loader_env \<Rightarrow> nat \<Rightarrow> loader \<Rightarrow> unit out" where
  "unload_known E p L = (case findBundle L (symbolicName L p) of
     None \<Rightarrow> (L, Inr ()) | Some q \<Rightarrow> unloadActivator E q L)"

definition unloadBundle :: "loader_env \<Rightarrow> nat \<Rightarrow> loader \<Rightarrow> unit out" where
  "unloadBundle E p L =
     (if isStarted L p then
        (L, Inl (BundleStateException (''An active bundle cannot be unloaded: '' @ symbolicName L p)))
      else case unload_known E p (detach_extension p L) of
        (L1, Inl e) \<Rightarrow> (L1, Inl e)
      | (L1, Inr _) \<Rightarrow> (erase_bundle p L1, Inr ()))"

definition uninstallBundle :: "loader_env \<Rightarrow> nat \<Rightarrow> loader \<Rightarrow> unit out" where
  "uninstallBundle E p L =
     (case unload_known E p (detach_extension p L) of
        (L1, Inl e) \<Rightarrow> (L1, Inl e)
      | (L1, Inr _) \<Rightarrow> (case removeFiles E (events L1) p of
            Inl e \<Rightarrow> (L1, Inl e)
          | Inr _ \<Rightarrow> (erase_bundle p L1, Inr ())))"

definition uninstall :: "loader_env \<Rightarrow> nat \<Rightarrow> loader \<Rightarrow> unit out" where
  "uninstall E = Bundle_uninstall (uninstallBundle E)"

definition listBundles :: "loader \<Rightarrow> nat list" where
  "listBundles L = map snd (bundles L)"

section \<open>All bundles\<close>

fun resolve_all_loop :: "loader_env \<Rightarrow> nat \<Rightarrow> nat list \<Rightarrow> loader \<Rightarrow> loader option" where
  "resolve_all_loop E n [] L = Some L"
| "resolve_all_loop E n (p # ps) L =
     (if \<not> isResolved L p then
        (case resolve E n p L of
           None \<Rightarrow> None
         | Some (L1, Inl e) \<Rightarrow> resolve_all_loop E n ps (emit (EvError p e) L1)
         | Some (L1, Inr _) \<Rightarrow> resolve_all_loop E n ps L1)
      else resolve_all_loop E n ps L)"

definition resolveAllBundles :: "loader_env \<Rightarrow> nat \<Rightarrow> loader \<Rightarrow> loader option" where
  "resolveAllBundles E n L = resolve_all_loop E n (listBundles L) L"

text \<open>
  \<open>std::sort\<close> with \<open>RunLevelLess\<close> leaves the order of bundles of one level open: it is the parameter
  \<open>srt\<close>, which is given the run levels.
\<close>

fun start_all_loop :: "loader_env \<Rightarrow> nat \<Rightarrow> nat list \<Rightarrow> loader \<Rightarrow> loader option" where
  "start_all_loop E n [] L = Some L"
| "start_all_loop E n (p # ps) L =
     (if state_of L p = BUNDLE_RESOLVED \<and> \<not> m_lazyStart (manifest_of L p) \<and> \<not> bautoStartBlocked (heap L p) then
        (case start E n p L of
           None \<Rightarrow> None
         | Some (L1, Inl e) \<Rightarrow> start_all_loop E n ps (emit (EvError p e) L1)
         | Some (L1, Inr _) \<Rightarrow> start_all_loop E n ps L1)
      else start_all_loop E n ps L)"

definition run_level :: "loader \<Rightarrow> nat \<Rightarrow> string" where
  "run_level L p = m_runLevel (manifest_of L p)"

definition startAllBundles ::
    "loader_env \<Rightarrow> ((nat \<Rightarrow> string) \<Rightarrow> nat list \<Rightarrow> nat list) \<Rightarrow> nat \<Rightarrow> loader \<Rightarrow> loader option" where
  "startAllBundles E srt n L = start_all_loop E n (srt (run_level L) (listBundles L)) L"

text \<open>
  \<open>sortBundles\<close>: one pass of the inner loop goes over \<open>remaining\<close> from its beginning, \<open>seen\<close> being what
  it has stepped over, and begins again whenever it has taken a bundle out; the outer loop repeats
  until nothing remains. The fuel counts the passes.
\<close>

definition has_deps :: "loader \<Rightarrow> string set \<Rightarrow> nat \<Rightarrow> bool" where
  "has_deps L done p \<longleftrightarrow> isResolved L p \<and> list_ex (\<lambda>d. fst d \<notin> done) (bdeps (heap L p))"

fun sort_scan :: "loader \<Rightarrow> string set \<Rightarrow> nat list \<Rightarrow> nat list \<Rightarrow> (nat \<times> nat list) option" where
  "sort_scan L done seen [] = None"
| "sort_scan L done seen (p # ps) =
     (if has_deps L done p then sort_scan L done (seen @ [p]) ps else Some (p, seen @ ps))"

fun sort_loop :: "loader \<Rightarrow> nat \<Rightarrow> nat list \<Rightarrow> string set \<Rightarrow> nat list \<Rightarrow> nat list option" where
  "sort_loop L n acc done [] = Some acc"
| "sort_loop L 0 acc done (p # ps) = None"
| "sort_loop L (Suc n) acc done (p # ps) = (case sort_scan L done [] (p # ps) of
     None \<Rightarrow> sort_loop L n acc done (p # ps)
   | Some (q, rest) \<Rightarrow> sort_loop L n (acc @ [q]) (insert (symbolicName L q) done) rest)"

definition sortBundles ::
    "((nat \<Rightarrow> string) \<Rightarrow> nat list \<Rightarrow> nat list) \<Rightarrow> nat \<Rightarrow> loader \<Rightarrow> nat list option" where
  "sortBundles srt n L = map_option rev (sort_loop L n [] {} (srt (run_level L) (listBundles L)))"

fun stop_all_loop :: "loader_env \<Rightarrow> nat list \<Rightarrow> loader \<Rightarrow> unit out" where
  "stop_all_loop E [] L = (L, Inr ())"
| "stop_all_loop E (p # ps) L =
     (if isActive L p then
        (case stop E p L of (L1, Inl e) \<Rightarrow> (L1, Inl e) | (L1, Inr _) \<Rightarrow> stop_all_loop E ps L1)
      else stop_all_loop E ps L)"

definition stopAllBundles ::
    "loader_env \<Rightarrow> ((nat \<Rightarrow> string) \<Rightarrow> nat list \<Rightarrow> nat list) \<Rightarrow> nat \<Rightarrow> loader \<Rightarrow> unit out option" where
  "stopAllBundles E srt n L = map_option (\<lambda>ps. stop_all_loop E ps L) (sortBundles srt n L)"

fun unload_all_loop :: "loader_env \<Rightarrow> nat list \<Rightarrow> loader \<Rightarrow> unit out" where
  "unload_all_loop E [] L = (L, Inr ())"
| "unload_all_loop E (p # ps) L =
     (case (if isActive L p then stop E p L else (L, Inr ())) of
        (L1, Inl e) \<Rightarrow> (L1, Inl e)
      | (L1, Inr _) \<Rightarrow> (case unloadBundle E p L1 of
            (L2, Inl e) \<Rightarrow> (L2, Inl e)
          | (L2, Inr _) \<Rightarrow> unload_all_loop E ps L2))"

definition unloadAllBundles ::
    "loader_env \<Rightarrow> ((nat \<Rightarrow> string) \<Rightarrow> nat list \<Rightarrow> nat list) \<Rightarrow> nat \<Rightarrow> loader \<Rightarrow> unit out option" where
  "unloadAllBundles E srt n L = map_option (\<lambda>ps. unload_all_loop E ps L) (sortBundles srt n L)"

section \<open>Simplification\<close>

lemma upd_simps [simp]:
  "heap (upd p f L) q = (if q = p then f (heap L p) else heap L q)"
  "bundles (upd p f L) = bundles L" "resolving (upd p f L) = resolving L" "events (upd p f L) = events L"
  by (simp_all add: upd_def)

lemma emit_simps [simp]:
  "heap (emit e L) = heap L" "bundles (emit e L) = bundles L" "resolving (emit e L) = resolving L"
  "events (emit e L) = events L @ [e]"
  by (simp_all add: emit_def)

lemma set_state_simps [simp]:
  "state_of (set_state p s L) q = (if q = p then s else state_of L q)"
  "bundles (set_state p s L) = bundles L" "resolving (set_state p s L) = resolving L"
  "bdeps (heap (set_state p s L) q) = bdeps (heap L q)" "bmanifest (heap (set_state p s L) q) = bmanifest (heap L q)"
  "bactivator (heap (set_state p s L) q) = bactivator (heap L q)"
  "bclassloader (heap (set_state p s L) q) = bclassloader (heap L q)" "events (set_state p s L) = events L"
  by (simp_all add: set_state_def state_of_def)

lemma lbind_simps [simp]:
  "lbind None f = None" "lbind (Some (L, Inl e)) f = Some (L, Inl e)" "lbind (Some (L, Inr x)) f = f L x"
  by (simp_all add: lbind_def)

lemma lbind_Some:
  "lbind m f = Some (L', r) \<longleftrightarrow>
     (\<exists>e. m = Some (L', Inl e) \<and> r = Inl e) \<or> (\<exists>L x. m = Some (L, Inr x) \<and> f L x = Some (L', r))"
  by (auto simp: lbind_def split: option.splits sum.splits prod.splits)

lemma lbind_None: "lbind m f = None \<longleftrightarrow> m = None \<or> (\<exists>L x. m = Some (L, Inr x) \<and> f L x = None)"
  by (auto simp: lbind_def split: option.splits sum.splits prod.splits)

lemma resolved_state_simps [simp]:
  "resolved_state BUNDLE_RESOLVED" "resolved_state BUNDLE_STARTING" "resolved_state BUNDLE_ACTIVE"
  "resolved_state BUNDLE_STOPPING" "\<not> resolved_state BUNDLE_INSTALLED" "\<not> resolved_state BUNDLE_UNINSTALLED"
  by (simp_all add: resolved_state_def)

end
