(* ===== verification/OSP_Resolution.thy ===== *)
theory OSP_Resolution
  imports OSP_Bundles
begin

text \<open>
  What resolving bundles guarantees: the contract of \<open>Bundle::resolve\<close>, stated as a locale, is kept by
  each level of the mutual recursion and holds for \<open>resolve\<close> at every depth. From it follow that a
  resolved bundle has every bundle it requires, resolved and in a version it accepts, that the
  dependencies of resolved bundles are free of cycles, and that resolving ends.
\<close>

section \<open>What a resolved bundle has\<close>

definition accepts :: "loader \<Rightarrow> dependency \<Rightarrow> nat \<Rightarrow> bool" where
  "accepts L d q \<longleftrightarrow> range_isEmpty (dep_versions d) \<or> isInRange (dep_versions d) (version_at L q)"

definition dep_met :: "loader \<Rightarrow> nat \<Rightarrow> dependency \<Rightarrow> bool" where
  "dep_met L p d \<longleftrightarrow> (\<exists>q. findBundle L (dep_name d) = Some q \<and> accepts L d q \<and> isResolved L q
     \<and> symbolicName L q \<in> fst ` set (bdeps (heap L p)))"

definition requirements_met :: "loader \<Rightarrow> nat \<Rightarrow> bool" where
  "requirements_met L p \<longleftrightarrow> (\<forall>d \<in> set (m_requiredBundles (manifest_of L p)). dep_met L p d)"

definition requires :: "loader \<Rightarrow> (nat \<times> nat) set" where
  "requires L = {(p, q). isResolved L p \<and>
     (\<exists>d \<in> set (m_requiredBundles (manifest_of L p)). findBundle L (dep_name d) = Some q)}"

definition sound :: "loader \<Rightarrow> bool" where
  "sound L \<longleftrightarrow> (\<forall>p. isResolved L p \<longrightarrow> requirements_met L p) \<and> acyclic (requires L)"

text \<open>
  How resolving changes the loader: nothing is loaded or unloaded, manifests stay, what is resolved
  stays as it is, and what is being resolved further up is left to its own call.
\<close>

definition grows :: "loader \<Rightarrow> loader \<Rightarrow> bool" where
  "grows L L' \<longleftrightarrow> bundles L' = bundles L \<and> resolving L' = resolving L
     \<and> (\<forall>x. bmanifest (heap L' x) = bmanifest (heap L x))
     \<and> (\<forall>x. isResolved L x \<longrightarrow> state_of L' x = state_of L x \<and> bdeps (heap L' x) = bdeps (heap L x))
     \<and> (\<forall>x \<in> resolving L. \<not> isResolved L x \<longrightarrow> \<not> isResolved L' x)"

definition touched :: "loader \<Rightarrow> loader \<Rightarrow> nat \<Rightarrow> bool" where
  "touched L L' x \<longleftrightarrow> bdeps (heap L' x) \<noteq> bdeps (heap L x)"

lemma grows_refl [simp]: "grows L L"
  by (simp add: grows_def)

lemma grows_trans: "grows L1 L2 \<Longrightarrow> grows L2 L3 \<Longrightarrow> grows L1 L3"
  by (auto simp: grows_def isResolved_def)

lemma growsD:
  assumes "grows L L'"
  shows "bundles L' = bundles L" "resolving L' = resolving L" "manifest_of L' x = manifest_of L x"
    "isResolved L x \<Longrightarrow> isResolved L' x" "isResolved L x \<Longrightarrow> bdeps (heap L' x) = bdeps (heap L x)"
    "x \<in> resolving L \<Longrightarrow> \<not> isResolved L x \<Longrightarrow> \<not> isResolved L' x"
    "findBundle L' n = findBundle L n" "symbolicName L' x = symbolicName L x" "version_at L' x = version_at L x"
    "accepts L' d x = accepts L d x" "isExtensionBundle L' x = isExtensionBundle L x"
  using assms
  by (auto simp: grows_def isResolved_def manifest_of_def findBundle_def symbolicName_def version_at_def accepts_def
      isExtensionBundle_def)

lemma dep_met_mono:
  assumes "grows L L'" "dep_met L p d" "set (bdeps (heap L p)) \<subseteq> set (bdeps (heap L' p))"
  shows "dep_met L' p d"
proof -
  obtain q where "findBundle L (dep_name d) = Some q" "accepts L d q" "isResolved L q"
    "symbolicName L q \<in> fst ` set (bdeps (heap L p))"
    using assms(2) by (auto simp: dep_met_def)
  then show ?thesis
    using growsD [OF assms(1)] assms(3) by (auto simp: dep_met_def)
qed

text \<open>Soundness looks at the resolved bundles only.\<close>

lemma sound_same:
  assumes "sound L" "bundles L' = bundles L" "\<And>x. bmanifest (heap L' x) = bmanifest (heap L x)"
    and "\<And>x. isResolved L' x = isResolved L x" "\<And>x. isResolved L x \<Longrightarrow> bdeps (heap L' x) = bdeps (heap L x)"
  shows "sound L'"
proof -
  have view: "manifest_of L' x = manifest_of L x" "findBundle L' n = findBundle L n" "symbolicName L' x = symbolicName L x"
    "accepts L' d x = accepts L d x" for x n d
    using assms(2,3) by (simp_all add: manifest_of_def findBundle_def symbolicName_def accepts_def version_at_def)
  have "requires L' = requires L" by (simp add: requires_def view assms(4))
  moreover have "requirements_met L' x" if "isResolved L x" for x
    using assms(1,5) that by (simp add: sound_def requirements_met_def dep_met_def view assms(4))
  ultimately show ?thesis using assms(1,4) by (simp add: sound_def)
qed

section \<open>The contract of \<open>Bundle::resolve\<close>\<close>

locale resolver =
  fixes br :: "nat \<Rightarrow> loader \<Rightarrow> unit out option"
  assumes br_grows: "br p L = Some (L', r) \<Longrightarrow> grows L L'"
    and br_sound: "br p L = Some (L', r) \<Longrightarrow> sound L \<Longrightarrow> sound L'"
    and br_done: "br p L = Some (L', Inr u) \<Longrightarrow> isResolved L' p"
    and br_touches: "br p L = Some (L', Inr u) \<Longrightarrow> touched L L' x \<Longrightarrow> isResolved L' x"
begin

text \<open>One step, or several, inside the call for \<open>p\<close>: \<open>p\<close> itself stays unresolved and collects dependencies.\<close>

definition inside :: "nat \<Rightarrow> dependency set \<Rightarrow> loader \<Rightarrow> loader \<Rightarrow> unit res \<Rightarrow> bool" where
  "inside p ds L L' r \<longleftrightarrow> grows L L' \<and> (sound L \<longrightarrow> sound L') \<and> (\<forall>u. r = Inr u \<longrightarrow> (\<forall>d \<in> ds. dep_met L' p d)
    \<and> set (bdeps (heap L p)) \<subseteq> set (bdeps (heap L' p)) \<and> (\<forall>x. x \<noteq> p \<longrightarrow> touched L L' x \<longrightarrow> isResolved L' x))"

lemma inside_error: "inside p ds L L (Inl e)"
  by (simp add: inside_def)

lemma inside_refl: "inside p {} L L r"
  by (simp add: inside_def touched_def)

lemma inside_trans:
  assumes 1: "inside p ds L1 L2 (Inr u)" and 2: "inside p es L2 L3 r"
  shows "inside p (ds \<union> es) L1 L3 r"
proof -
  have g: "grows L1 L2" "grows L2 L3" using assms by (simp_all add: inside_def)
  have "touched L1 L3 x \<Longrightarrow> touched L1 L2 x \<or> touched L2 L3 x" for x by (auto simp: touched_def)
  moreover have "isResolved L2 x \<Longrightarrow> isResolved L3 x" for x using growsD(4) [OF g(2)] .
  moreover have "dep_met L3 p d" if "dep_met L2 p d" "r = Inr v" for d v
    using dep_met_mono [OF g(2) that(1)] 2 that(2) by (simp add: inside_def)
  ultimately show ?thesis
    using assms grows_trans [OF g] unfolding inside_def by blast
qed

lemma inside_call:
  assumes "br q L = Some (L', r)" "p \<in> resolving L" "\<not> isResolved L p"
  shows "inside p {} L L' r"
proof -
  have g: "grows L L'" using br_grows [OF assms(1)] .
  have "\<not> isResolved L' p" using growsD(6) [OF g assms(2,3)] .
  then have "r = Inr u \<Longrightarrow> \<not> touched L L' p" for u using br_touches assms(1) by blast
  then show ?thesis
    using g br_sound [OF assms(1)] br_touches assms(1) by (auto simp: inside_def touched_def)
qed

lemma inside_add:
  assumes "\<not> isResolved L p" "findBundle L (dep_name d) = Some q" "accepts L d q" "isResolved L q"
  shows "inside p {d} L (addResolvedDependency p (symbolicName L q, v) L) (Inr u)"
proof -
  let ?L = "addResolvedDependency p (symbolicName L q, v) L"
  have frame: "bundles ?L = bundles L" "resolving ?L = resolving L" "bmanifest (heap ?L x) = bmanifest (heap L x)"
    "state_of ?L x = state_of L x" "x \<noteq> p \<Longrightarrow> bdeps (heap ?L x) = bdeps (heap L x)" for x
    by (simp_all add: addResolvedDependency_def state_of_def)
  then have same: "isResolved ?L x = isResolved L x" for x by (simp add: isResolved_def)
  have keep: "bdeps (heap ?L x) = bdeps (heap L x)" if "isResolved L x" for x
    using frame(5) [of x] that assms(1) by (cases "x = p") auto
  have grows: "grows L ?L" using frame(1-4) same keep by (auto simp: grows_def)
  have "sound L \<Longrightarrow> sound ?L" by (rule sound_same [of L]) (use frame(1-4) same keep in auto)
  moreover have "set (bdeps (heap L p)) \<subseteq> set (bdeps (heap ?L p))"
    "symbolicName L q \<in> fst ` set (bdeps (heap ?L p))"
    by (auto simp: addResolvedDependency_def list_ex_iff intro: rev_image_eqI)
  moreover have "dep_met ?L p d"
    unfolding dep_met_def using assms same calculation(3) growsD(7,8,10) [OF grows] by auto
  ultimately show ?thesis using grows frame(5) by (auto simp: inside_def touched_def)
qed

lemma dependency_step:
  assumes st: "resolveDependency E br p d L = Some (L', r)" and p: "p \<in> resolving L" "\<not> isResolved L p"
  shows "inside p {d} L L' r"
proof (cases "\<exists>q. findBundle L (dep_name d) = Some q \<and> accepts L d q")
  case False
  then have "L' = L" "\<exists>e. r = Inl e" using st by (auto simp: resolveDependency_def accepts_def split: option.splits)
  then show ?thesis using inside_error by auto
next
  case True
  then obtain q where q: "findBundle L (dep_name d) = Some q" "accepts L d q" by blast
  then have st': "lbind (if \<not> isResolved L q then
                     (if \<not> isResolving L q then br q L
                      else Some (L, Inl (BundleResolveException (''Circular reference detected involving ''
                             @ symbolicName L p @ '' and '' @ symbolicName L q))))
                   else Some (L, Inr ())) (\<lambda>L1 _.
            Some (addResolvedDependency p (symbolicName L1 q, version_at L1 q) L1, Inr ())) = Some (L', r)"
    using st by (simp add: resolveDependency_def accepts_def)
  show ?thesis
  proof (cases "isResolved L q")
    case True
    then show ?thesis using st' inside_add [OF p(2) q True] by auto
  next
    case nr: False
    show ?thesis
    proof (cases "br q L")
      case None
      then show ?thesis using st' nr inside_error by (auto split: if_splits)
    next
      case (Some out)
      obtain L1 r1 where o: "br q L = Some (L1, r1)" using Some by (cases out) auto
      have in1: "inside p {} L L1 r1" by (rule inside_call [OF o p])
      show ?thesis
      proof (cases "isResolving L q")
        case True
        then show ?thesis using st' nr inside_error by auto
      next
        case False
        show ?thesis
        proof (cases r1)
          case (Inl e)
          then have "L' = L1" "r = Inl e" using st' nr False o by auto
          then show ?thesis using in1 Inl by (simp add: inside_def)
        next
          case (Inr u)
          then have L': "L' = addResolvedDependency p (symbolicName L1 q, version_at L1 q) L1" "r = Inr ()"
            using st' nr False o by auto
          have g: "grows L L1" using in1 by (simp add: inside_def)
          have in2: "inside p {d} L1 L' r"
            unfolding L' by (rule inside_add) (use growsD [OF g] q p br_done o Inr in auto)
          show ?thesis using inside_trans [OF _ in2, of "{}" L u] in1 Inr by simp
        qed
      qed
    qed
  qed
qed

lemma dependencies_step:
  assumes "resolveDependencies E br p ds L = Some (L', r)" "p \<in> resolving L" "\<not> isResolved L p"
  shows "inside p (set ds) L L' r"
  using assms
proof (induction ds arbitrary: L)
  case Nil
  then show ?case using inside_refl by simp
next
  case (Cons d ds)
  from Cons.prems(1) consider e where "resolveDependency E br p d L = Some (L', Inl e)" "r = Inl e"
    | L1 u where "resolveDependency E br p d L = Some (L1, Inr u)" "resolveDependencies E br p ds L1 = Some (L', r)"
    by (auto simp: lbind_Some)
  then show ?case
  proof cases
    case 1
    then show ?thesis using dependency_step [OF 1(1) Cons.prems(2,3)] by (simp add: inside_def)
  next
    case 2
    have in1: "inside p {d} L L1 (Inr u)" by (rule dependency_step [OF 2(1) Cons.prems(2,3)])
    then have g: "grows L L1" by (simp add: inside_def)
    have "inside p (set ds) L1 L' r"
      by (rule Cons.IH [OF 2(2)]) (use growsD [OF g] Cons.prems in auto)
    then show ?thesis using inside_trans [OF in1] by simp
  qed
qed

lemma inside_upd:
  assumes "\<And>b. bstate (f b) = bstate b" "\<And>b. bmanifest (f b) = bmanifest b" "\<And>b. bdeps (f b) = bdeps b"
  shows "inside p {} L (upd p f L) (Inr u)"
proof -
  have frame: "bmanifest (heap (upd p f L) x) = bmanifest (heap L x)" "bdeps (heap (upd p f L) x) = bdeps (heap L x)"
    "state_of (upd p f L) x = state_of L x" for x
    using assms by (simp_all add: state_of_def)
  then have same: "isResolved (upd p f L) x = isResolved L x" for x by (simp add: isResolved_def)
  have "sound (upd p f L)" if "sound L" by (rule sound_same [OF that]) (simp_all only: frame same upd_simps(2))
  then show ?thesis unfolding inside_def grows_def touched_def frame same upd_simps(2,3) by simp
qed

lemma requirements_step:
  assumes st: "resolve_requirements E br p L = Some (L', r)" and p: "p \<in> resolving L" "\<not> isResolved L p"
  shows "inside p (set (m_requiredBundles (manifest_of L p))) L L' r"
proof (cases "resolveModules E L p")
  case (Inl e)
  then show ?thesis using st inside_error by (auto simp: resolve_requirements_def)
next
  case (Inr providers)
  have "inside p {} L L1 r1" if "resolveProviders E br p providers L = Some (L1, r1)" for L1 r1
    using dependencies_step [OF that [unfolded resolveProviders_def] p] by (auto simp: inside_def)
  note first = this
  from st Inr consider e where "resolveProviders E br p providers L = Some (L', Inl e)" "r = Inl e"
    | L1 u e where "resolveProviders E br p providers L = Some (L1, Inr u)"
        "resolveDependencies E br p (m_requiredBundles (manifest_of L1 p)) L1 = Some (L', Inl e)" "r = Inl e"
    | L1 u L2 v where "resolveProviders E br p providers L = Some (L1, Inr u)"
        "resolveDependencies E br p (m_requiredBundles (manifest_of L1 p)) L1 = Some (L2, Inr v)"
        "L' = upd p (\<lambda>b. b\<lparr>bproviders := providers\<rparr>) L2" "r = Inr ()"
    by (auto simp: resolve_requirements_def lbind_Some)
  then show ?thesis
  proof cases
    case 1
    then show ?thesis using first by (simp add: inside_def)
  next
    case 2
    have in1: "inside p {} L L1 (Inr u)" by (rule first [OF 2(1)])
    then have g: "grows L L1" by (simp add: inside_def)
    have "inside p (set (m_requiredBundles (manifest_of L1 p))) L1 L' (Inl e)"
      by (rule dependencies_step [OF 2(2)]) (use growsD [OF g] p in auto)
    then show ?thesis using inside_trans [OF in1] 2(3) growsD(3) [OF g] by simp
  next
    case 3
    have in1: "inside p {} L L1 (Inr u)" by (rule first [OF 3(1)])
    then have g: "grows L L1" by (simp add: inside_def)
    have in2: "inside p (set (m_requiredBundles (manifest_of L1 p))) L1 L2 (Inr v)"
      by (rule dependencies_step [OF 3(2)]) (use growsD [OF g] p in auto)
    have in3: "inside p {} L2 L' r" unfolding 3 by (rule inside_upd) simp_all
    show ?thesis using inside_trans [OF inside_trans [OF in1 in2] in3] growsD(3) [OF g] by simp
  qed
qed

text \<open>The extension of another bundle may resolve that bundle, and changes nothing else that matters.\<close>

lemma extend_step:
  assumes "extend_bundle br p L = Some (L', r)"
  shows "grows L L' \<and> (sound L \<longrightarrow> sound L') \<and> (\<forall>u x. r = Inr u \<longrightarrow> touched L L' x \<longrightarrow> isResolved L' x)"
proof (cases "extendedBundle L p")
  case None
  then show ?thesis using assms by (simp add: extend_bundle_def touched_def)
next
  case (Some x)
  have add: "\<exists>f. L2 = upd x f L1 \<and> (\<forall>b. bstate (f b) = bstate b \<and> bmanifest (f b) = bmanifest b \<and> bdeps (f b) = bdeps b)"
    if "addExtensionBundle x p L1 = (L2, r2)" for L1 L2 r2
  proof (cases "\<not> m_sealed (manifest_of L1 x) \<and> isResolved L1 x")
    case True
    with that show ?thesis by (auto simp: addExtensionBundle_def)
  next
    case False
    with that have "L2 = upd x id L1" by (auto simp: addExtensionBundle_def upd_def split: if_splits)
    then show ?thesis by (intro exI [of _ id]) simp
  qed
  from assms Some consider e where "br x L = Some (L', Inl e)" "r = Inl e"
    | L1 where "addExtensionBundle x p L1 = (L', r)" "L1 = L \<or> (\<exists>u. br x L = Some (L1, Inr u))"
    by (auto simp: extend_bundle_def lbind_Some split: if_splits)
  then show ?thesis
  proof cases
    case 1
    then show ?thesis using br_grows br_sound by blast
  next
    case 2
    obtain f where f: "L' = upd x f L1" "\<And>b. bstate (f b) = bstate b \<and> bmanifest (f b) = bmanifest b \<and> bdeps (f b) = bdeps b"
      using add [OF 2(1)] by blast
    have in2: "inside x {} L1 L' (Inr ())" unfolding f(1) by (rule inside_upd) (use f(2) in auto)
    have "\<not> touched L1 L' z" for z unfolding f(1) touched_def using f(2) by simp
    moreover have "grows L L1 \<and> (sound L \<longrightarrow> sound L1) \<and> (\<forall>z. touched L L1 z \<longrightarrow> isResolved L1 z)"
      using 2(2) br_grows br_sound br_touches by (auto simp: touched_def)
    ultimately show ?thesis
      using in2 grows_trans growsD(4) unfolding inside_def touched_def by metis
  qed
qed

text \<open>\<open>BundleLoader::resolveBundle\<close>, called for a bundle that is not resolved.\<close>

lemma resolveBundle_step:
  assumes st: "resolveBundle E br p L = Some (L', r)" and nr: "\<not> isResolved L p"
  shows "grows L L' \<and> (sound L \<longrightarrow> sound L') \<and> (\<forall>u. r = Inr u \<longrightarrow> p \<notin> resolving L
    \<and> (sound L \<longrightarrow> requirements_met L' p) \<and> (\<forall>x. x \<noteq> p \<longrightarrow> touched L L' x \<longrightarrow> isResolved L' x))"
proof (cases "isResolving L p")
  case True
  then have "L' = L" "r = Inl AssertionViolation" using st by (auto simp: resolveBundle_def)
  then show ?thesis by simp
next
  case False
  then have notin: "p \<notin> resolving L" by (simp add: isResolving_def)
  define L0 where "L0 = L\<lparr>resolving := insert p (resolving L)\<rparr>"
  have view0: "isResolved L0 x = isResolved L x" "manifest_of L0 x = manifest_of L x" "heap L0 = heap L" "bundles L0 = bundles L" for x
    by (simp_all add: L0_def isResolved_def state_of_def manifest_of_def)
  have in0: "p \<in> resolving L0" "\<not> isResolved L0 p" using nr view0(1) [of p] by (simp_all add: L0_def)
  have sound0: "sound L \<Longrightarrow> sound L0" by (rule sound_same [of L]) (simp_all add: view0)
  from st False obtain L1 r1 where req: "resolve_requirements E br p L0 = Some (L1, r1)"
    by (auto simp: resolveBundle_def L0_def split: option.splits)
  have in1: "inside p (set (m_requiredBundles (manifest_of L0 p))) L0 L1 r1"
    by (rule requirements_step [OF req in0])
  then have g01: "grows L0 L1" and s01: "sound L0 \<longrightarrow> sound L1" by (simp_all add: inside_def)
  define L2 where "L2 = L1\<lparr>resolving := resolving L1 - {p}\<rparr>"
  have view2: "isResolved L2 x = isResolved L1 x" "state_of L2 x = state_of L1 x" "heap L2 = heap L1" "bundles L2 = bundles L1" for x
    by (simp_all add: L2_def isResolved_def state_of_def)
  have g2: "grows L L2"
    using g01 notin by (auto simp: grows_def L0_def L2_def isResolved_def state_of_def)
  have s2: "sound L \<Longrightarrow> sound L2"
    by (rule sound_same [of L1]) (use sound0 s01 in \<open>simp_all add: view2\<close>)
  show ?thesis
  proof (cases r1)
    case (Inl e)
    then have L': "L' = clearResolvedDependencies p L2" "r = Inl e"
      using st False req by (auto simp: resolveBundle_def L0_def L2_def)
    have nr2: "\<not> isResolved L2 p" using growsD(6) [OF g01 in0] by (simp add: view2)
    have view: "isResolved L' x = isResolved L2 x" "state_of L' x = state_of L2 x" "bmanifest (heap L' x) = bmanifest (heap L2 x)"
      "x \<noteq> p \<Longrightarrow> bdeps (heap L' x) = bdeps (heap L2 x)" "bundles L' = bundles L2" "resolving L' = resolving L2" for x
      by (simp_all add: L' clearResolvedDependencies_def isResolved_def state_of_def)
    have keep: "bdeps (heap L' x) = bdeps (heap L2 x)" if "isResolved L2 x" for x
      using view(4) [of x] that nr2 by (cases "x = p") auto
    have "grows L2 L'" using view keep by (auto simp: grows_def)
    moreover have "sound L2 \<Longrightarrow> sound L'" by (rule sound_same [of L2]) (use view keep in auto)
    ultimately show ?thesis using g2 s2 grows_trans L'(2) by blast
  next
    case (Inr u)
    have met1: "requirements_met L2 p"
      using in1 Inr growsD(3) [OF g01]
      by (simp add: inside_def requirements_met_def dep_met_def accepts_def version_at_def symbolicName_def manifest_of_def
          findBundle_def view0 view2)
    have touch: "x \<noteq> p \<Longrightarrow> touched L L2 x \<Longrightarrow> isResolved L2 x" for x
      using in1 Inr by (simp add: inside_def touched_def view0 view2)
    show ?thesis
    proof (cases "installLibraries E (events L2) p")
      case (Inl e)
      then have "L' = L2" "r = Inl e"
        using st False req Inr by (auto simp: resolveBundle_def L0_def L2_def)
      then show ?thesis using g2 s2 by simp
    next
      case ok: (Inr v)
      then have ext: "extend_bundle br p L2 = Some (L', r)"
        using st False req Inr by (simp add: resolveBundle_def L0_def L2_def)
      note e = extend_step [OF ext]
      have met: "requirements_met L' p" if "sound L" "r = Inr w" for w
      proof (cases "touched L2 L' p")
        case True
        then have "isResolved L' p" using e that(2) by blast
        then show ?thesis using e s2 [OF that(1)] by (simp add: sound_def)
      next
        case False
        then show ?thesis
          using met1 dep_met_mono [of L2 L' p] e growsD(3) [of L2 L' p]
          by (auto simp: requirements_met_def touched_def)
      qed
      have g': "grows L2 L'" using e by blast
      have "isResolved L' x" if "r = Inr w" "x \<noteq> p" "touched L L' x" for w x
      proof (cases "touched L2 L' x")
        case True
        then show ?thesis using e that(1) by blast
      next
        case False
        then have "touched L L2 x" using that(3) by (simp add: touched_def)
        then show ?thesis using touch [OF that(2)] growsD(4) [OF g'] by blast
      qed
      moreover have "grows L L'" using grows_trans [OF g2 g'] .
      moreover have "sound L \<longrightarrow> sound L'" using e s2 by blast
      ultimately show ?thesis using met notin by auto
    qed
  qed
qed

text \<open>Making a bundle resolved whose requirements are met keeps soundness.\<close>

lemma sound_resolve:
  assumes "sound L" "requirements_met L p"
  shows "sound (set_state p BUNDLE_RESOLVED L)"
proof -
  let ?L = "set_state p BUNDLE_RESOLVED L"
  have res: "isResolved ?L x \<longleftrightarrow> x = p \<or> isResolved L x" for x by (simp add: isResolved_def)
  have view: "manifest_of ?L x = manifest_of L x" "findBundle ?L n = findBundle L n" "symbolicName ?L x = symbolicName L x"
    "accepts ?L d x = accepts L d x" for x n d
    by (simp_all add: manifest_of_def findBundle_def symbolicName_def accepts_def version_at_def)
  have met: "requirements_met ?L x" if "requirements_met L x" for x
    using that by (fastforce simp: requirements_met_def dep_met_def view res)
  let ?S = "{q. \<exists>d \<in> set (m_requiredBundles (manifest_of L p)). findBundle L (dep_name d) = Some q}"
  have edges: "requires ?L = requires L \<union> {p} \<times> ?S"
    by (auto simp: requires_def res view)
  have targets: "isResolved L q" if "q \<in> ?S" for q
    using that assms(2) by (auto simp: requirements_met_def dep_met_def)
  have ends: "isResolved L a \<and> isResolved L b" if "(a, b) \<in> requires L" for a b
    using that assms(1) by (fastforce simp: requires_def sound_def requirements_met_def dep_met_def)
  have "acyclic (requires ?L)"
  proof (cases "isResolved L p")
    case True
    then have "requires ?L = requires L" by (auto simp: requires_def res view)
    then show ?thesis using assms(1) by (simp add: sound_def)
  next
    case False
    have "(a, b) \<in> (requires ?L)\<^sup>+ \<Longrightarrow> isResolved L b \<and> (a = p \<or> (a, b) \<in> (requires L)\<^sup>+)" for a b
    proof (induction rule: trancl_induct)
      case (base y)
      then show ?case using edges targets ends by auto
    next
      case (step y z)
      then have "(y, z) \<in> requires L" using edges False by auto
      then show ?case using step.IH ends by (meson trancl.trancl_into_trancl)
    qed
    then show ?thesis using assms(1) False by (auto simp: acyclic_def sound_def)
  qed
  then show ?thesis using assms met res by (auto simp: sound_def)
qed

lemma Bundle_resolve_step:
  assumes st: "Bundle_resolve (resolveBundle E br) p L = Some (L', r)"
  shows "grows L L' \<and> (sound L \<longrightarrow> sound L') \<and>
    (\<forall>u. r = Inr u \<longrightarrow> isResolved L' p \<and> (\<forall>x. touched L L' x \<longrightarrow> isResolved L' x))"
proof (cases "state_of L p = BUNDLE_INSTALLED")
  case False
  then show ?thesis using st by (auto simp: Bundle_resolve_def)
next
  case True
  then have nr: "\<not> isResolved L p" by (simp add: isResolved_def)
  define La where "La = clearResolvedDependencies p (emit (EvResolving p) L)"
  have view: "isResolved La x = isResolved L x" "state_of La x = state_of L x" "bmanifest (heap La x) = bmanifest (heap L x)"
    "x \<noteq> p \<Longrightarrow> bdeps (heap La x) = bdeps (heap L x)" "bundles La = bundles L" "resolving La = resolving L" for x
    by (simp_all add: La_def clearResolvedDependencies_def isResolved_def state_of_def)
  have keep: "bdeps (heap La x) = bdeps (heap L x)" if "isResolved L x" for x
    using view(4) [of x] that nr by (cases "x = p") auto
  have ga: "grows L La" using view keep by (auto simp: grows_def)
  have sa: "sound L \<Longrightarrow> sound La" by (rule sound_same [of L]) (use view keep in auto)
  have nra: "\<not> isResolved La p" using nr view(1) by simp
  from st True obtain Lb rb where b: "resolveBundle E br p La = Some (Lb, rb)"
    by (auto simp: Bundle_resolve_def La_def lbind_Some)
  note bs = resolveBundle_step [OF b nra]
  show ?thesis
  proof (cases rb)
    case (Inl e)
    then have "L' = Lb" "r = Inl e" using st True b by (simp_all add: Bundle_resolve_def La_def)
    then show ?thesis using bs ga sa grows_trans by blast
  next
    case (Inr u)
    then have L': "L' = emit (EvResolved p) (set_state p BUNDLE_RESOLVED Lb)" "r = Inr ()"
      using st True b by (simp_all add: Bundle_resolve_def La_def)
    have view': "isResolved L' x \<longleftrightarrow> x = p \<or> isResolved Lb x" "bmanifest (heap L' x) = bmanifest (heap Lb x)"
      "bdeps (heap L' x) = bdeps (heap Lb x)" "bundles L' = bundles Lb" "resolving L' = resolving Lb"
      "x \<noteq> p \<Longrightarrow> state_of L' x = state_of Lb x" for x
      by (simp_all add: L' isResolved_def state_of_def emit_def set_state_def)
    have gb: "grows L Lb" using ga bs grows_trans by blast
    have keep_state: "state_of L' x = state_of Lb x" if "isResolved L x" for x
      using view'(6) [of x] that nr by (cases "x = p") auto
    have "p \<notin> resolving L" using bs Inr view(6) by simp
    then have "grows L L'"
      using gb view' keep_state unfolding grows_def by metis
    moreover have "sound L'" if "sound L"
      by (rule sound_same [OF sound_resolve, of Lb p]) (use that bs sa Inr view' in \<open>auto simp: isResolved_def\<close>)
    moreover have "touched L L' x \<Longrightarrow> isResolved L' x" for x
      using bs Inr view(4) [of x] view'(1,3) [of x] by (cases "x = p") (auto simp: touched_def)
    ultimately show ?thesis using view'(1) by blast
  qed
qed

lemma next_level: "resolver (Bundle_resolve (resolveBundle E br))"
  using Bundle_resolve_step by unfold_locales blast+

end

interpretation resolving: resolver "resolve E n" for E n
proof (induction n)
  case 0
  show ?case by unfold_locales simp_all
next
  case (Suc n)
  then show ?case using resolver.next_level [OF Suc] by simp
qed

section \<open>Resolving ends\<close>

definition unvisited :: "loader \<Rightarrow> nat set" where
  "unvisited L = {x \<in> snd ` set (bundles L). \<not> isResolved L x \<and> x \<notin> resolving L}"

lemma unvisited_grows: "grows L L' \<Longrightarrow> unvisited L' \<subseteq> unvisited L"
  using growsD [of L L'] by (auto simp: unvisited_def)

lemma found_loaded: "findBundle L n = Some q \<Longrightarrow> q \<in> snd ` set (bundles L)"
  using string_order.get_in_map [of n "bundles L" q] by (force simp: findBundle_def)

context resolver
begin

lemma dependencies_return:
  assumes "\<And>q L1. grows L L1 \<Longrightarrow> q \<in> unvisited L1 \<Longrightarrow> br q L1 \<noteq> None" "p \<in> resolving L" "\<not> isResolved L p"
  shows "resolveDependencies E br p ds L \<noteq> None"
  using assms
proof (induction ds arbitrary: L)
  case Nil
  then show ?case by simp
next
  case (Cons d ds)
  have "resolveDependency E br p d L \<noteq> None"
  proof
    assume "resolveDependency E br p d L = None"
    then obtain q where "findBundle L (dep_name d) = Some q" "\<not> isResolved L q" "\<not> isResolving L q" "br q L = None"
      by (auto simp: resolveDependency_def lbind_None split: option.splits if_splits)
    then show False
      using Cons.prems(1) [OF grows_refl, of q] found_loaded [of L "dep_name d" q]
      by (simp add: unvisited_def isResolving_def)
  qed
  moreover have "resolveDependencies E br p ds L1 \<noteq> None" if "resolveDependency E br p d L = Some (L1, Inr u)" for L1 u
  proof -
    have g: "grows L L1" using dependency_step [OF that Cons.prems(2,3)] by (simp add: inside_def)
    show ?thesis
      by (rule Cons.IH) (use Cons.prems grows_trans [OF g] growsD [OF g] in auto)
  qed
  ultimately show ?case by (auto simp: lbind_None)
qed

lemma requirements_return:
  assumes br: "\<And>q L1. grows L L1 \<Longrightarrow> q \<in> unvisited L1 \<Longrightarrow> br q L1 \<noteq> None" and p: "p \<in> resolving L" "\<not> isResolved L p"
  shows "resolve_requirements E br p L \<noteq> None"
proof (cases "resolveModules E L p")
  case (Inl e)
  then show ?thesis by (simp add: resolve_requirements_def)
next
  case (Inr providers)
  have "resolveProviders E br p providers L \<noteq> None"
    unfolding resolveProviders_def using br p by (rule dependencies_return)
  moreover have "resolveDependencies E br p ds L1 \<noteq> None" if "resolveProviders E br p providers L = Some (L1, Inr u)" for L1 u ds
  proof -
    have g: "grows L L1"
      using dependencies_step [OF that [unfolded resolveProviders_def] p] by (simp add: inside_def)
    show ?thesis by (rule dependencies_return) (use br p grows_trans [OF g] growsD [OF g] in auto)
  qed
  ultimately show ?thesis using Inr by (auto simp: resolve_requirements_def lbind_None)
qed

end

lemma resolve_returns:
  "\<forall>x. \<not> isExtensionBundle L x \<Longrightarrow> card (unvisited L) < n \<Longrightarrow> p \<in> snd ` set (bundles L) \<Longrightarrow> resolve E n p L \<noteq> None"
proof (induction n arbitrary: L p)
  case 0
  then show ?case by simp
next
  case (Suc n)
  define La where "La = clearResolvedDependencies p (emit (EvResolving p) L)"
  show ?case
  proof (cases "state_of L p = BUNDLE_INSTALLED \<and> p \<notin> resolving L")
    case False
    then show ?thesis
      by (auto simp: Bundle_resolve_def resolveBundle_def isResolving_def lbind_None clearResolvedDependencies_def)
  next
    case True
    define L0 where "L0 = La\<lparr>resolving := insert p (resolving La)\<rparr>"
    have view: "isResolved L0 x = isResolved L x" "bundles L0 = bundles L" "resolving L0 = insert p (resolving L)"
      "isExtensionBundle L0 x = isExtensionBundle L x" for x
      by (simp_all add: L0_def La_def clearResolvedDependencies_def isResolved_def state_of_def isExtensionBundle_def manifest_of_def)
    have "p \<in> unvisited L" using True Suc.prems(3) by (simp add: unvisited_def isResolved_def)
    moreover have "unvisited L0 = unvisited L - {p}" by (auto simp: unvisited_def view)
    moreover have "finite (unvisited L)" by (simp add: unvisited_def)
    ultimately have "card (unvisited L0) < card (unvisited L)" by (metis card_Diff1_less)
    then have card: "card (unvisited L0) < n" using Suc.prems(2) by linarith
    have fin: "finite (unvisited L0)" by (simp add: unvisited_def)
    have "resolve E n q L1 \<noteq> None" if "grows L0 L1" "q \<in> unvisited L1" for q L1
    proof (rule Suc.IH)
      show "\<forall>x. \<not> isExtensionBundle L1 x" using Suc.prems(1) growsD(11) [OF that(1)] view(4) by simp
      show "card (unvisited L1) < n"
        using card_mono [OF fin unvisited_grows [OF that(1)]] card by linarith
      show "q \<in> snd ` set (bundles L1)" using that(2) by (simp add: unvisited_def)
    qed
    moreover have "p \<in> resolving L0" "\<not> isResolved L0 p" using True view by (simp_all add: isResolved_def)
    ultimately have req: "resolve_requirements E (resolve E n) p L0 \<noteq> None"
      using resolving.requirements_return [of L0 E n p E] by blast
    have noext: "extend_bundle (resolve E n) p L2 \<noteq> None" if "resolve_requirements E (resolve E n) p L0 = Some (L1, Inr u)"
        "L2 = L1\<lparr>resolving := resolving L1 - {p}\<rparr>" for L1 L2 u
    proof -
      have "grows L0 L1"
        using resolving.requirements_step [OF that(1)] True view by (simp add: isResolved_def resolving.inside_def)
      then have "\<not> isExtensionBundle L2 p"
        using growsD(11) [of L0 L1 p] Suc.prems(1) view(4) by (simp add: that(2) isExtensionBundle_def manifest_of_def)
      then show ?thesis by (simp add: extend_bundle_def extendedBundle_def)
    qed
    have "\<not> isResolving La p" "state_of L p = BUNDLE_INSTALLED"
      using True by (simp_all add: isResolving_def La_def clearResolvedDependencies_def)
    then have "resolve E (Suc n) p L = None \<Longrightarrow> resolveBundle E (resolve E n) p La = None"
      by (auto simp: Bundle_resolve_def lbind_None La_def)
    moreover have "resolveBundle E (resolve E n) p La \<noteq> None"
    proof (cases "resolve_requirements E (resolve E n) p L0")
      case None
      then show ?thesis using req by simp
    next
      case (Some out)
      obtain L1 r1 where o: "out = (L1, r1)" by fastforce
      show ?thesis
        using Some noext [of L1] \<open>\<not> isResolving La p\<close> unfolding resolveBundle_def o L0_def [symmetric]
        by (cases r1) (simp_all add: Let_def split: sum.split)
    qed
    ultimately show ?thesis by blast
  qed
qed

section \<open>Bundles for the witnesses\<close>

definition sample_manifest :: "string \<Rightarrow> dependency list \<Rightarrow> string \<Rightarrow> manifest" where
  "sample_manifest name deps ext = \<lparr>m_name = name, m_symbolicName = name, m_version = version_of 1 0 0, m_vendor = [],
     m_copyright = [], m_lazyStart = False, m_sealed = False, m_preventUninstall = False, m_runLevel = ''999-user'',
     m_extendedBundle = ext, m_activatorClass = ''Activator'', m_activatorLibrary = [], m_requiredBundles = deps,
     m_requiredModules = [], m_providedModules = []\<rparr>"

definition sample_bundle :: "manifest \<Rightarrow> bundle_obj" where
  "sample_bundle m = \<lparr>bstate = BUNDLE_INSTALLED, bmanifest = m, bactivator = False, bclassloader = False, bextensions = {},
     bdeps = [], bproviders = [], bautoStartBlocked = False\<rparr>"

text \<open>\<open>a\<close>, at address 0, requires \<open>b\<close>, at address 1, in version 1.0.0.\<close>

definition sample_loader :: loader where
  "sample_loader = \<lparr>heap = (\<lambda>p. if p = 0
       then sample_bundle (sample_manifest ''a'' [\<lparr>dep_name = ''b'', dep_versions = range_exact (version_of 1 0 0)\<rparr>] [])
       else sample_bundle (sample_manifest ''b'' [] [])),
     bundles = [(''a'', 0), (''b'', 1)], resolving = {}, lastStarted = [], events = []\<rparr>"

definition sample_env :: loader_env where
  "sample_env = \<lparr>fmtInt = (\<lambda>n. decimal (nat n)), bundlePath = (\<lambda>p. []), installLibraries = (\<lambda>h p. Inr ()),
     activatorFound = (\<lambda>h p. Inr ()), activatorStart = (\<lambda>h p. Inr ()), activatorStop = (\<lambda>h p. Inr ()),
     unloadLibrary = (\<lambda>h p. Inr ()), removeFiles = (\<lambda>h p. Inr ())\<rparr>"

lemma sample_loader_installed: "state_of sample_loader p = BUNDLE_INSTALLED"
  by (simp add: sample_loader_def sample_bundle_def state_of_def)

lemma sound_installed:
  assumes "\<And>x. \<not> isResolved L x"
  shows "sound L"
  using assms by (auto simp: sound_def requires_def acyclic_def)

section \<open>Properties\<close>



text \<open>
  C3: resolving always ends when no bundle extends another: the calls nest at most one deeper than there
  are loaded bundles, whatever the manifests require, circular requirements included.
\<close>

theorem resolve_terminates:
  assumes "\<forall>x. \<not> isExtensionBundle L x" and "p \<in> set (listBundles L)"
  shows "\<exists>L' r. resolve E (Suc (length (bundles L))) p L = Some (L', r)"
proof -
  have "card (unvisited L) \<le> card (snd ` set (bundles L))"
    by (rule card_mono) (auto simp: unvisited_def)
  also have "\<dots> \<le> length (bundles L)"
    using card_image_le [of "set (bundles L)" snd] card_length [of "bundles L"] by simp
  finally have "resolve E (Suc (length (bundles L))) p L \<noteq> None"
    using assms by (intro resolve_returns) (simp_all add: listBundles_def)
  then show ?thesis by auto
qed

theorem resolve_terminates_witness:
  "\<exists>L' r. resolve sample_env 3 0 sample_loader = Some (L', r)"
proof -
  have "\<forall>x. \<not> isExtensionBundle sample_loader x"
    by (simp add: isExtensionBundle_def manifest_of_def sample_loader_def sample_bundle_def sample_manifest_def)
  moreover have "0 \<in> set (listBundles sample_loader)" "Suc (length (bundles sample_loader)) = 3"
    by (simp_all add: listBundles_def sample_loader_def)
  ultimately show ?thesis using resolve_terminates [of sample_loader 0 sample_env] by metis
qed

text \<open>
  a bundle whose manifest names itself as the bundle it extends is never resolved: the call comes back
  to itself after it has left the set of bundles being resolved, at every depth.
\<close>

theorem resolve_self_extension:
  assumes "state_of L p = BUNDLE_INSTALLED" and "p \<notin> resolving L"
    and "extendedBundle L p = Some p" and "m_requiredBundles (manifest_of L p) = []"
    and "m_requiredModules (manifest_of L p) = []" and "\<forall>h. installLibraries E h p = Inr ()"
  shows "resolve E n p L = None"
  using assms(1-5)
proof (induction n arbitrary: L)
  case 0
  then show ?case by simp
next
  case (Suc n)
  let ?La = "clearResolvedDependencies p (emit (EvResolving p) L)"
  let ?L0 = "?La\<lparr>resolving := insert p (resolving ?La)\<rparr>"
  let ?L1 = "upd p (\<lambda>b. b\<lparr>bproviders := []\<rparr>) ?L0"
  let ?L2 = "?L1\<lparr>resolving := resolving ?L1 - {p}\<rparr>"
  have view: "manifest_of ?L0 p = manifest_of L p" "manifest_of ?L2 p = manifest_of L p" "state_of ?L2 p = state_of L p"
    "resolving ?L2 = resolving L - {p}" "extendedBundle ?L2 p = extendedBundle L p"
    by (simp_all add: clearResolvedDependencies_def manifest_of_def state_of_def extendedBundle_def isExtensionBundle_def
        findBundle_def)
  have "resolve_requirements E (resolve E n) p ?L0 = Some (?L1, Inr ())"
    unfolding resolve_requirements_def resolveModules_def view(1) using Suc.prems(4,5)
    by (simp add: resolveProviders_def manifest_of_def clearResolvedDependencies_def)
  moreover have "extend_bundle (resolve E n) p ?L2 = None"
    unfolding extend_bundle_def view(5) using Suc.IH [of ?L2] Suc.prems view
    by (simp add: isResolved_def)
  moreover have "\<not> isResolving ?La p" using Suc.prems(2) by (simp add: isResolving_def clearResolvedDependencies_def)
  ultimately show ?case
    using Suc.prems(1) assms(6) by (simp add: Bundle_resolve_def resolveBundle_def lbind_None)
qed

definition self_loader :: loader where
  "self_loader = sample_loader\<lparr>heap := (\<lambda>p. sample_bundle (sample_manifest ''a'' [] ''a''))\<rparr>"

theorem resolve_self_extension_witness:
  "\<forall>n. resolve sample_env n 0 self_loader = None"
proof
  fix n
  have "extendedBundle self_loader 0 = Some 0" "state_of self_loader 0 = BUNDLE_INSTALLED"
    "m_requiredBundles (manifest_of self_loader 0) = []" "m_requiredModules (manifest_of self_loader 0) = []"
    "0 \<notin> resolving self_loader" by code_simp+
  then show "resolve sample_env n 0 self_loader = None"
    using resolve_self_extension [of self_loader 0 sample_env n] by (simp add: sample_env_def)
qed

end
