(* ===== verification/OSP_Lifecycle.thy ===== *)
theory OSP_Lifecycle
  imports OSP_Resolution "HOL-Library.Multiset"
begin

text \<open>
  What starting, stopping and sorting bundles guarantees, on the definitions of \<open>OSP_Bundles\<close>: the
  contract of \<open>Bundle::start\<close> as a locale, kept by each level of its recursion with
  \<open>BundleLoader::startBundle\<close>; that a started bundle has every bundle it requires active; that starting
  ends; and the order in which \<open>sortBundles\<close> lists bundles for stopping.
\<close>

section \<open>The contract of \<open>Bundle::start\<close>\<close>

text \<open>Starting only ever takes bundles from resolved to active.\<close>

definition starts :: "loader \<Rightarrow> loader \<Rightarrow> bool" where
  "starts L L' \<longleftrightarrow> bundles L' = bundles L \<and> (\<forall>x. bmanifest (heap L' x) = bmanifest (heap L x))
     \<and> (\<forall>x. bdeps (heap L' x) = bdeps (heap L x))
     \<and> (\<forall>x. state_of L' x = state_of L x \<or> state_of L x = BUNDLE_RESOLVED \<and> state_of L' x = BUNDLE_ACTIVE)"

lemma starts_refl [simp]: "starts L L"
  by (simp add: starts_def)

lemma starts_trans: "starts L1 L2 \<Longrightarrow> starts L2 L3 \<Longrightarrow> starts L1 L3"
  unfolding starts_def by (metis bundle_state.distinct(19))

lemma startsD:
  assumes "starts L L'"
  shows "bundles L' = bundles L" "findBundle L' n = findBundle L n" "version_at L' x = version_at L x"
    "symbolicName L' x = symbolicName L x" "bdeps (heap L' x) = bdeps (heap L x)"
    "isActive L x \<Longrightarrow> isActive L' x" "state_of L' x = BUNDLE_RESOLVED \<Longrightarrow> state_of L x = BUNDLE_RESOLVED"
    "state_of L x \<noteq> BUNDLE_RESOLVED \<Longrightarrow> state_of L' x = state_of L x"
proof -
  have "state_of L' x = state_of L x \<or> state_of L x = BUNDLE_RESOLVED \<and> state_of L' x = BUNDLE_ACTIVE"
    using assms by (simp add: starts_def)
  then show "isActive L x \<Longrightarrow> isActive L' x" "state_of L' x = BUNDLE_RESOLVED \<Longrightarrow> state_of L x = BUNDLE_RESOLVED"
    "state_of L x \<noteq> BUNDLE_RESOLVED \<Longrightarrow> state_of L' x = state_of L x"
    by (auto simp: isActive_def)
qed (use assms in \<open>simp_all add: starts_def findBundle_def version_at_def symbolicName_def manifest_of_def\<close>)

definition deps_active :: "loader \<Rightarrow> resolved_dependency list \<Rightarrow> bool" where
  "deps_active L ds \<longleftrightarrow> (\<forall>(n, v) \<in> set ds. \<exists>q. findBundle L n = Some q \<and> version_eq (version_at L q) v \<and> isActive L q)"

lemma deps_active_mono: "starts L L' \<Longrightarrow> deps_active L ds \<Longrightarrow> deps_active L' ds"
  using startsD [of L L'] by (fastforce simp: deps_active_def)

locale starter =
  fixes bs :: "nat \<Rightarrow> loader \<Rightarrow> unit out option"
  assumes bs_starts: "bs p L = Some (L', r) \<Longrightarrow> starts L L'"
    and bs_active: "bs p L = Some (L', Inr u) \<Longrightarrow> isActive L' p \<and> deps_active L' (bdeps (heap L p))"
    and bs_failed: "bs p L = Some (L', Inl e) \<Longrightarrow> state_of L' p = state_of L p"
begin

lemma dependencies_started:
  assumes "startDependencies bs ds L = Some (L', r)"
  shows "starts L L' \<and> (\<forall>u. r = Inr u \<longrightarrow> deps_active L' ds)"
  using assms
proof (induction ds arbitrary: L)
  case Nil
  then show ?case by (simp add: deps_active_def)
next
  case (Cons d ds)
  obtain n v where d: "d = (n, v)" by fastforce
  let ?one = "case findBundle L n of
       None \<Rightarrow> Some (L, Inl (BundleResolveException (''A required bundle is no longer available: '' @ n)))
     | Some q \<Rightarrow> if version_eq (version_at L q) v then (if \<not> isActive L q then bs q L else Some (L, Inr ()))
         else Some (L, Inl (BundleResolveException (''A required bundle is no longer available: '' @ n)))"
  have one: "starts L L1 \<and> (\<forall>u. r1 = Inr u \<longrightarrow> deps_active L1 [(n, v)])" if "?one = Some (L1, r1)" for L1 r1
  proof (cases "findBundle L n")
    case None
    then show ?thesis using that by auto
  next
    case (Some q)
    show ?thesis
    proof (cases "version_eq (version_at L q) v \<and> \<not> isActive L q")
      case True
      then have b: "bs q L = Some (L1, r1)" using that Some by simp
      note s = bs_starts [OF b]
      show ?thesis using s bs_active b True startsD [OF s] Some by (auto simp: deps_active_def)
    next
      case False
      then show ?thesis using that Some by (auto simp: deps_active_def split: if_splits)
    qed
  qed
  from Cons.prems consider e where "?one = Some (L', Inl e)" "r = Inl e"
    | L1 u where "?one = Some (L1, Inr u)" "startDependencies bs ds L1 = Some (L', r)"
    unfolding d startDependencies.simps by (auto simp only: lbind_Some)
  then show ?case
  proof cases
    case 1
    then show ?thesis using one by blast
  next
    case 2
    have s1: "starts L L1" and a1: "deps_active L1 [(n, v)]" using one [OF 2(1)] by blast+
    have s2: "starts L1 L'" and a2: "\<forall>u. r = Inr u \<longrightarrow> deps_active L' ds" using Cons.IH [OF 2(2)] by blast+
    show ?thesis
      using starts_trans [OF s1 s2] a2 deps_active_mono [OF s2 a1] by (auto simp: d deps_active_def)
  qed
qed

lemma loadActivator_starts: "loadActivator E q L = (L', r) \<Longrightarrow> starts L L'"
  by (auto simp: loadActivator_def starts_def state_of_def Let_def split: if_splits sum.splits)

lemma startBundle_step:
  assumes "startBundle E bs p L = Some (L', r)"
  shows "starts L L' \<and> (\<forall>u. r = Inr u \<longrightarrow> deps_active L' (bdeps (heap L p)))"
proof (cases "findBundle L (symbolicName L p)")
  case None
  then show ?thesis using assms by (auto simp: startBundle_def)
next
  case (Some q)
  from assms Some consider e where "startDependencies bs (bdeps (heap L p)) L = Some (L', Inl e)" "r = Inl e"
    | L1 u L2 r2 where "startDependencies bs (bdeps (heap L p)) L = Some (L1, Inr u)"
        "loadActivator E q (L1\<lparr>lastStarted := symbolicName L1 p\<rparr>) = (L2, r2)"
        "L' = L2 \<or> L' = emit (EvActivatorStarted q) L2"
    by (cases "startDependencies bs (bdeps (heap L p)) L"; cases "snd (the (startDependencies bs (bdeps (heap L p)) L))")
      (auto simp: startBundle_def lbind_def split: sum.splits prod.splits if_splits)
  then show ?thesis
  proof cases
    case 1
    then show ?thesis using dependencies_started [OF 1(1)] by blast
  next
    case 2
    have s1: "starts L L1" and a1: "deps_active L1 (bdeps (heap L p))"
      using dependencies_started [OF 2(1)] by blast+
    have "starts L1 (L1\<lparr>lastStarted := symbolicName L1 p\<rparr>)" by (simp add: starts_def state_of_def)
    moreover have "starts L2 L'" using 2(3) by (auto simp: starts_def state_of_def)
    ultimately have s2: "starts L1 L'" using loadActivator_starts [OF 2(2)] starts_trans by blast
    then show ?thesis using starts_trans [OF s1] deps_active_mono [OF s2 a1] by blast
  qed
qed

lemma Bundle_start_step:
  assumes st: "Bundle_start (startBundle E bs) p L = Some (L', r)"
  shows "starts L L' \<and> (\<forall>u. r = Inr u \<longrightarrow> isActive L' p \<and> deps_active L' (bdeps (heap L p)))
    \<and> (\<forall>e. r = Inl e \<longrightarrow> state_of L' p = state_of L p)"
proof (cases "state_of L p = BUNDLE_RESOLVED")
  case False
  then show ?thesis using st by (auto simp: Bundle_start_def)
next
  case True
  let ?La = "emit (EvStarting p) (set_state p BUNDLE_STARTING L)"
  from st True obtain Lb rb where b: "startBundle E bs p ?La = Some (Lb, rb)"
    by (auto simp: Bundle_start_def Let_def split: option.splits)
  have sb: "starts ?La Lb" and ab: "\<forall>u. rb = Inr u \<longrightarrow> deps_active Lb (bdeps (heap L p))"
    using startBundle_step [OF b] by simp_all
  have frame: "bundles Lb = bundles L" "bmanifest (heap Lb x) = bmanifest (heap L x)" "bdeps (heap Lb x) = bdeps (heap L x)"
    "x \<noteq> p \<Longrightarrow> state_of Lb x = state_of L x \<or> state_of L x = BUNDLE_RESOLVED \<and> state_of Lb x = BUNDLE_ACTIVE" for x
    using sb by (auto simp: starts_def state_of_def emit_def set_state_def split: if_splits)
  define new where "new = (case rb of Inl e \<Rightarrow> BUNDLE_RESOLVED | Inr _ \<Rightarrow> BUNDLE_ACTIVE)"
  have L': "bundles L' = bundles Lb" "bmanifest (heap L' x) = bmanifest (heap Lb x)" "bdeps (heap L' x) = bdeps (heap Lb x)"
    "state_of L' x = (if x = p then new else state_of Lb x)" "r = (case rb of Inl e \<Rightarrow> Inl e | Inr _ \<Rightarrow> Inr ())" for x
    using st True b by (cases rb; auto simp: Bundle_start_def Let_def new_def state_of_def emit_def set_state_def)+
  have "starts L L'" using frame L' True by (auto simp: starts_def new_def split: sum.splits)
  moreover have "isActive L' p \<and> deps_active L' (bdeps (heap L p))" if "rb = Inr u" for u
  proof -
    have act: "isActive L' x" if "isActive Lb x" for x
      using that L'(4) \<open>rb = Inr u\<close> by (auto simp: isActive_def new_def)
    have "findBundle L' n = findBundle Lb n" "version_at L' x = version_at Lb x" for n x
      using L' by (simp_all add: findBundle_def version_at_def manifest_of_def)
    then have "deps_active L' (bdeps (heap L p))"
      using ab that act by (fastforce simp: deps_active_def)
    then show ?thesis using L'(4) that by (simp add: isActive_def new_def)
  qed
  moreover have "state_of L' p = state_of L p" if "rb = Inl e" for e using L'(4) that True by (simp add: new_def)
  ultimately show ?thesis using L'(5) by (cases rb) auto
qed

lemma next_level: "starter (Bundle_start (startBundle E bs))"
  using Bundle_start_step by unfold_locales blast+

end

interpretation starting: starter "start E n" for E n
proof (induction n)
  case 0
  show ?case by unfold_locales simp_all
next
  case (Suc n)
  then show ?case using starter.next_level [OF Suc] by simp
qed

section \<open>Starting ends\<close>

definition waiting :: "loader \<Rightarrow> nat set" where
  "waiting L = {x \<in> snd ` set (bundles L). state_of L x = BUNDLE_RESOLVED}"

lemma waiting_starts: "starts L L' \<Longrightarrow> waiting L' \<subseteq> waiting L"
  using startsD [of L L'] by (auto simp: waiting_def)

context starter
begin

lemma dependencies_return:
  assumes "\<And>q L1. starts L L1 \<Longrightarrow> q \<in> snd ` set (bundles L1) \<Longrightarrow> bs q L1 \<noteq> None"
  shows "startDependencies bs ds L \<noteq> None"
  using assms
proof (induction ds arbitrary: L)
  case Nil
  then show ?case by simp
next
  case (Cons d ds)
  obtain n v where d: "d = (n, v)" by fastforce
  show ?case
  proof
    assume none: "startDependencies bs (d # ds) L = None"
    have "bs q L \<noteq> None" if "findBundle L n = Some q" for q
      using Cons.prems [OF starts_refl found_loaded [OF that]] .
    then obtain L1 q u where "L1 = L \<or> bs q L = Some (L1, Inr u)" "startDependencies bs ds L1 = None"
      using none unfolding d startDependencies.simps by (auto simp: lbind_None split: option.splits if_splits)
    then have "starts L L1" "startDependencies bs ds L1 = None" using bs_starts by auto
    then show False using Cons.IH [of L1] Cons.prems starts_trans [of L L1] by metis
  qed
qed

end

lemma start_returns:
  "card (waiting L) < n \<Longrightarrow> p \<in> snd ` set (bundles L) \<Longrightarrow> start E n p L \<noteq> None"
proof (induction n arbitrary: L p)
  case 0
  then show ?case by simp
next
  case (Suc n)
  show ?case
  proof (cases "state_of L p = BUNDLE_RESOLVED")
    case False
    then show ?thesis by (simp add: Bundle_start_def)
  next
    case True
    define La where "La = emit (EvStarting p) (set_state p BUNDLE_STARTING L)"
    have view: "bundles La = bundles L" "state_of La x = (if x = p then BUNDLE_STARTING else state_of L x)" for x
      by (simp_all add: La_def state_of_def emit_def set_state_def)
    have "p \<in> waiting L" "finite (waiting L)" using True Suc.prems(2) by (simp_all add: waiting_def)
    moreover have "waiting La = waiting L - {p}" by (auto simp: waiting_def view)
    ultimately have "card (waiting La) < card (waiting L)" by (metis card_Diff1_less)
    then have card: "card (waiting La) < n" using Suc.prems(1) by linarith
    have fin: "finite (waiting La)" by (simp add: waiting_def)
    have "start E n q L1 \<noteq> None" if "starts La L1" "q \<in> snd ` set (bundles L1)" for q L1
      using card_mono [OF fin waiting_starts [OF that(1)]] card that(2) by (intro Suc.IH) linarith+
    then have "startDependencies (start E n) (bdeps (heap La p)) La \<noteq> None"
      by (rule starting.dependencies_return)
    then have "startBundle E (start E n) p La \<noteq> None"
      by (auto simp: startBundle_def lbind_None lbind_def split: option.splits sum.splits prod.splits)
    then show ?thesis
      using True by (auto simp: Bundle_start_def Let_def La_def split: option.splits sum.splits prod.splits)
  qed
qed

section \<open>Properties of starting\<close>

definition names_match :: "loader \<Rightarrow> bool" where
  "names_match L \<longleftrightarrow> (\<forall>n q. findBundle L n = Some q \<longrightarrow> symbolicName L q = n)"

text \<open>
  C4: starting a bundle always ends, the calls nest at most one deeper than there are loaded bundles, and
  it is sound in a loader in which resolving has been: when it succeeds the bundle is active and so is
  every bundle its manifest requires, in an accepted version; when it fails the bundle is in the state
  it was in before. Nothing is loaded or unloaded, and no bundle changes its state but from resolved
  to active.
\<close>

theorem start_activates_requirements:
  assumes "sound L" and "names_match L" and "p \<in> set (listBundles L)"
  shows "\<exists>L' r. start E (Suc (length (bundles L))) p L = Some (L', r) \<and> bundles L' = bundles L
    \<and> (\<forall>x. state_of L' x = state_of L x \<or> state_of L x = BUNDLE_RESOLVED \<and> state_of L' x = BUNDLE_ACTIVE)
    \<and> (case r of Inl e \<Rightarrow> state_of L' p = state_of L p
       | Inr _ \<Rightarrow> isActive L' p \<and> (\<forall>d \<in> set (m_requiredBundles (manifest_of L p)).
           \<exists>q. findBundle L (dep_name d) = Some q \<and> accepts L d q \<and> isActive L' q))"
proof -
  have "card (waiting L) \<le> card (snd ` set (bundles L))"
    by (rule card_mono) (auto simp: waiting_def)
  also have "\<dots> \<le> length (bundles L)"
    using card_image_le [of "set (bundles L)" snd] card_length [of "bundles L"] by simp
  finally obtain L' r where st: "start E (Suc (length (bundles L))) p L = Some (L', r)"
    using start_returns [of L "Suc (length (bundles L))" p E] assms(3) by (auto simp: listBundles_def)
  note s = starting.bs_starts [OF st]
  have ok: "\<exists>q. findBundle L (dep_name d) = Some q \<and> accepts L d q \<and> isActive L' q"
    if r: "r = Inr u" and d: "d \<in> set (m_requiredBundles (manifest_of L p))" for u d
  proof -
    have act: "isActive L' p" "deps_active L' (bdeps (heap L p))"
      using starting.bs_active st r by blast+
    have "state_of L p = BUNDLE_RESOLVED" using st r by (auto simp: Bundle_start_def split: if_splits)
    then have "requirements_met L p" using assms(1) by (simp add: sound_def isResolved_def)
    then obtain q v where q: "findBundle L (dep_name d) = Some q" "accepts L d q" "(symbolicName L q, v) \<in> set (bdeps (heap L p))"
      using d by (force simp: requirements_met_def dep_met_def)
    have "symbolicName L q = dep_name d" using assms(2) q(1) by (simp add: names_match_def)
    then show ?thesis using act(2) q startsD(2) [OF s] by (force simp: deps_active_def)
  qed
  have "isActive L' p" if "r = Inr u" for u using starting.bs_active st that by blast
  moreover have "state_of L' p = state_of L p" if "r = Inl e" for e using starting.bs_failed st that by blast
  ultimately show ?thesis
    using st ok s unfolding starts_def by (cases r) auto
qed

definition resolved_sample :: loader where
  "resolved_sample = (case resolve sample_env 2 0 sample_loader of Some (L, _) \<Rightarrow> L)"

lemma resolved_sample_sound: "sound resolved_sample"
proof -
  have "sound sample_loader"
    by (rule sound_installed) (simp add: isResolved_def sample_loader_installed)
  moreover have "resolve sample_env 2 0 sample_loader \<noteq> None" by code_simp
  then obtain L r where "resolve sample_env 2 0 sample_loader = Some (L, r)" by auto
  ultimately show ?thesis using resolving.br_sound unfolding resolved_sample_def by auto
qed

lemma resolved_sample_bundles: "bundles resolved_sample = [(''a'', 0), (''b'', 1)]"
  by code_simp

lemma resolved_sample_names: "symbolicName resolved_sample 0 = ''a''" "symbolicName resolved_sample (Suc 0) = ''b''"
  by code_simp+

lemma resolved_sample_match: "names_match resolved_sample"
  using resolved_sample_names
  by (auto simp: names_match_def findBundle_def resolved_sample_bundles split: if_splits)

theorem start_activates_requirements_witness:
  "\<exists>L'. start sample_env 3 0 resolved_sample = Some (L', Inr ()) \<and> isActive L' 0 \<and> isActive L' 1"
proof -
  have p: "0 \<in> set (listBundles resolved_sample)" by (simp add: listBundles_def resolved_sample_bundles)
  have fuel: "Suc (length (bundles resolved_sample)) = 3" by (simp add: resolved_sample_bundles)
  have "case start sample_env 3 0 resolved_sample of Some (L', Inr _) \<Rightarrow> True | _ \<Rightarrow> False" by code_simp
  then obtain L' where r: "start sample_env 3 0 resolved_sample = Some (L', Inr ())"
    by (auto split: option.splits prod.splits sum.splits)
  have "m_requiredBundles (manifest_of resolved_sample 0) = [\<lparr>dep_name = ''b'', dep_versions = range_exact (version_of 1 0 0)\<rparr>]"
    by code_simp
  moreover have "findBundle resolved_sample ''b'' = Some 1" by (simp add: findBundle_def resolved_sample_bundles)
  ultimately show ?thesis
    using start_activates_requirements [OF resolved_sample_sound resolved_sample_match p, of sample_env] r
    unfolding fuel by auto
qed

text \<open>
  a bundle whose activator cannot be loaded becomes active at the second attempt, without its
  activator: the class loader is remembered before the library is loaded, so that the second call to
  \<open>loadActivator\<close> believes the activator to be loaded, finds none and goes on.
\<close>

theorem activator_lost_on_retry:
  assumes "state_of L p = BUNDLE_RESOLVED" and "findBundle L (symbolicName L p) = Some p"
    and "bdeps (heap L p) = []" and "m_activatorClass (manifest_of L p) \<noteq> []"
    and "\<not> bclassloader (heap L p)" and "\<not> bactivator (heap L p)" and "\<forall>h. activatorFound E h p = Inl e"
  shows "\<exists>L1 L2. start E (Suc n) p L = Some (L1, Inl e) \<and> start E (Suc n) p L1 = Some (L2, Inr ())
    \<and> isActive L2 p \<and> \<not> bactivator (heap L2 p) \<and> EvActivatorStarted p \<notin> set (drop (length (events L)) (events L2))"
proof -
  have found: "smap_get (<) (m_symbolicName (bmanifest (heap L p))) (bundles L) = Some p"
    using assms(2) by (simp add: findBundle_def symbolicName_def manifest_of_def)
  have cls: "m_activatorClass (bmanifest (heap L p)) \<noteq> []" using assms(4) by (simp add: manifest_of_def)
  note defs = Bundle_start_def startBundle_def loadActivator_def Let_def findBundle_def symbolicName_def manifest_of_def
    state_of_def set_state_def emit_def upd_def isActive_def
  obtain L1 where first: "start E (Suc n) p L = Some (L1, Inl e)"
    and b1: "heap L1 p = (heap L p)\<lparr>bclassloader := True, bstate := BUNDLE_RESOLVED\<rparr>" and m1: "bundles L1 = bundles L"
    and e1: "events L1 = events L @ [EvStarting p, EvFailed p e]"
    using assms(1,3,5,7) found cls by (simp add: defs)
  obtain L2 where second: "start E (Suc n) p L1 = Some (L2, Inr ())" and "isActive L2 p" "\<not> bactivator (heap L2 p)"
    and "events L2 = events L1 @ [EvStarting p, EvStarted p]"
    using assms(3,6) found b1 m1 by (simp add: defs)
  then show ?thesis using first e1 by auto
qed

definition resolved_single :: loader where
  "resolved_single = sample_loader\<lparr>heap := (\<lambda>p. (sample_bundle (sample_manifest ''a'' [] []))\<lparr>bstate := BUNDLE_RESOLVED\<rparr>),
     bundles := [(''a'', 0)]\<rparr>"

theorem activator_lost_on_retry_witness:
  "\<exists>E e L1 L2. start E 1 0 resolved_single = Some (L1, Inl e) \<and> start E 1 0 L1 = Some (L2, Inr ()) \<and> isActive L2 0"
proof -
  let ?E = "sample_env\<lparr>activatorFound := (\<lambda>h p. Inl (NotFoundException []))\<rparr>"
  have "state_of resolved_single 0 = BUNDLE_RESOLVED" "findBundle resolved_single (symbolicName resolved_single 0) = Some 0"
    "bdeps (heap resolved_single 0) = []" "m_activatorClass (manifest_of resolved_single 0) \<noteq> []"
    "\<not> bclassloader (heap resolved_single 0)" "\<not> bactivator (heap resolved_single 0)"
    by code_simp+
  then show ?thesis
    using activator_lost_on_retry [of resolved_single 0 ?E "NotFoundException []" 0] by fastforce
qed

section \<open>Sorting\<close>

text \<open>\<open>p\<close> has recorded \<open>q\<close> as a resolved dependency.\<close>

definition depends :: "loader \<Rightarrow> (nat \<times> nat) set" where
  "depends L = {(p, q). p \<in> set (listBundles L) \<and> q \<in> set (listBundles L) \<and> isResolved L p
     \<and> symbolicName L q \<in> fst ` set (bdeps (heap L p))}"

definition deps_loaded :: "loader \<Rightarrow> bool" where
  "deps_loaded L \<longleftrightarrow> (\<forall>p \<in> set (listBundles L). isResolved L p \<longrightarrow>
     fst ` set (bdeps (heap L p)) \<subseteq> symbolicName L ` set (listBundles L))"

lemma has_deps_iff: "has_deps L D p \<longleftrightarrow> isResolved L p \<and> \<not> fst ` set (bdeps (heap L p)) \<subseteq> D"
  by (auto simp: has_deps_def list_ex_iff)

lemma sort_scan_Some:
  "sort_scan L D seen ps = Some (q, rest) \<Longrightarrow> \<not> has_deps L D q \<and> mset (q # rest) = mset (seen @ ps)"
proof (induction ps arbitrary: seen)
  case Nil
  then show ?case by simp
next
  case (Cons p ps)
  then show ?case using Cons.IH [of "seen @ [p]"] by (cases "has_deps L D p") auto
qed

lemma sort_scan_None: "sort_scan L D seen ps = None \<longleftrightarrow> (\<forall>p \<in> set ps. has_deps L D p)"
  by (induction ps arbitrary: seen) auto

lemma independent_exists:
  assumes "acyclic (depends L)" "deps_loaded L" "rest \<noteq> []" "set rest \<subseteq> set (listBundles L)"
    "symbolicName L ` (set (listBundles L) - set rest) \<subseteq> D"
  shows "\<exists>p \<in> set rest. \<not> has_deps L D p"
proof -
  have "finite (depends L)"
    by (rule finite_subset [of _ "set (listBundles L) \<times> set (listBundles L)"]) (auto simp: depends_def)
  then have "wf ((depends L)\<inverse>)" using assms(1) by (rule finite_acyclic_wf_converse)
  moreover obtain x where "x \<in> set rest" using assms(3) by (cases rest) auto
  ultimately obtain p where p: "p \<in> set rest" "\<forall>q. (q, p) \<in> (depends L)\<inverse> \<longrightarrow> q \<notin> set rest"
    by (metis wfE_min)
  have "fst ` set (bdeps (heap L p)) \<subseteq> D" if res: "isResolved L p"
  proof
    fix n assume n: "n \<in> fst ` set (bdeps (heap L p))"
    have pl: "p \<in> set (listBundles L)" using p(1) assms(4) by blast
    then have "fst ` set (bdeps (heap L p)) \<subseteq> symbolicName L ` set (listBundles L)"
      using assms(2) res unfolding deps_loaded_def by blast
    then obtain q where q: "q \<in> set (listBundles L)" "n = symbolicName L q" using n by blast
    then have "(p, q) \<in> depends L" using pl res n unfolding depends_def by blast
    then have "q \<notin> set rest" using p(2) by blast
    then show "n \<in> D" using q assms(5) by blast
  qed
  then show ?thesis using p(1) by (auto simp: has_deps_iff)
qed

lemma sort_loop_ok:
  assumes "acyclic (depends L)" "deps_loaded L" "inj_on (symbolicName L) (set (listBundles L))"
    and "mset (acc @ rest) = mset (listBundles L)" "distinct (listBundles L)" "D = symbolicName L ` set acc"
    and "sorted_wrt (\<lambda>a b. (a, b) \<notin> depends L) acc" "\<forall>a \<in> set acc. \<forall>b \<in> set rest. (a, b) \<notin> depends L" "length rest \<le> n"
  shows "\<exists>ps. sort_loop L n acc D rest = Some ps \<and> mset ps = mset (listBundles L)
    \<and> sorted_wrt (\<lambda>a b. (a, b) \<notin> depends L) ps"
  using assms(4,6-9)
proof (induction n arbitrary: acc D rest)
  case 0
  then show ?case by simp
next
  case (Suc n)
  show ?case
  proof (cases rest)
    case Nil
    then show ?thesis using Suc.prems by simp
  next
    case (Cons r rs)
    have all: "set acc \<union> set rest = set (listBundles L)" "set acc \<inter> set rest = {}"
      using mset_eq_setD [OF Suc.prems(1)] mset_eq_imp_distinct_iff [OF Suc.prems(1)] assms(5) by simp_all
    have "set (listBundles L) - set rest \<subseteq> set acc" using all by blast
    then have "\<exists>p \<in> set rest. \<not> has_deps L D p"
      using all(1) Cons Suc.prems(2) by (intro independent_exists [OF assms(1,2)]) auto
    then obtain q rest' where scan: "sort_scan L D [] rest = Some (q, rest')"
      using sort_scan_None [of L D "[]" rest] by fastforce
    have q: "\<not> has_deps L D q" "mset (q # rest') = mset rest" using sort_scan_Some [OF scan] by simp_all
    then have sets: "set rest = insert q (set rest')" by (metis list.simps(15) mset_eq_setD)
    have later: "(q, b) \<notin> depends L" if "b \<in> set rest" for b
    proof
      assume dep: "(q, b) \<in> depends L"
      then have "symbolicName L b \<in> symbolicName L ` set acc"
        using q(1) Suc.prems(2) by (auto simp: depends_def has_deps_iff)
      then obtain a where a: "a \<in> set acc" "symbolicName L b = symbolicName L a" by blast
      then have "b = a" using that all(1) inj_onD [OF assms(3) a(2)] by blast
      then show False using a(1) that all(2) by blast
    qed
    have "mset ((acc @ [q]) @ rest') = mset (listBundles L)" using Suc.prems(1) q(2) by simp
    moreover have "insert (symbolicName L q) D = symbolicName L ` set (acc @ [q])" using Suc.prems(2) by simp
    moreover have "sorted_wrt (\<lambda>a b. (a, b) \<notin> depends L) (acc @ [q])"
      using Suc.prems(3,4) sets by (auto simp: sorted_wrt_append)
    moreover have "\<forall>a \<in> set (acc @ [q]). \<forall>b \<in> set rest'. (a, b) \<notin> depends L"
      using Suc.prems(4) later sets by auto
    moreover have "length rest' \<le> n" using q(2) Suc.prems(5) by (metis Suc_le_mono length_Cons size_mset)
    ultimately show ?thesis
      using Suc.IH [of "acc @ [q]" rest' "insert (symbolicName L q) D"] scan Cons by simp
  qed
qed



text \<open>
  \<open>sortBundles\<close>, and with it stopping and unloading all bundles, never ends when a resolved bundle
  has recorded a dependency that is no longer loaded, as after the dependency has been uninstalled.
\<close>

theorem sortBundles_loops:
  assumes "mset (srt (run_level L) (listBundles L)) = mset (listBundles L)"
    and "p \<in> set (listBundles L)" and "isResolved L p"
    and "n \<in> fst ` set (bdeps (heap L p))" and "n \<notin> symbolicName L ` set (listBundles L)"
  shows "sortBundles srt fuel L = None \<and> stopAllBundles E srt fuel L = None \<and> unloadAllBundles E srt fuel L = None"
proof -
  have "sort_loop L k acc D rest = None"
    if "p \<in> set rest" "D \<subseteq> symbolicName L ` set (listBundles L)" "set rest \<subseteq> set (listBundles L)" for k acc D rest
    using that
  proof (induction k arbitrary: acc D rest)
    case 0
    then show ?case by (cases rest) auto
  next
    case (Suc k)
    then obtain r rs where rest: "rest = r # rs" by (cases rest) auto
    have hp: "has_deps L D p" using assms(3-5) Suc.prems(2) by (auto simp: has_deps_iff)
    show ?case
    proof (cases "sort_scan L D [] rest")
      case None
      then show ?thesis using Suc rest by simp
    next
      case (Some out)
      obtain q rest' where o: "out = (q, rest')" by fastforce
      have q: "\<not> has_deps L D q" "mset (q # rest') = mset rest" using sort_scan_Some [OF Some [unfolded o]] by simp_all
      then have sets: "set rest = insert q (set rest')" by (metis list.simps(15) mset_eq_setD)
      have "p \<in> set rest'" using Suc.prems(1) sets hp q(1) by auto
      then have "sort_loop L k (acc @ [q]) (insert (symbolicName L q) D) rest' = None"
        using Suc.prems sets by (intro Suc.IH) auto
      then show ?thesis using Some o rest by simp
    qed
  qed
  then have "sortBundles srt fuel L = None"
    using assms(1,2) unfolding sortBundles_def by (metis empty_subsetI map_option_is_None mset_eq_setD order_refl)
  then show ?thesis by (simp add: stopAllBundles_def unloadAllBundles_def)
qed

theorem sortBundles_loops_witness:
  "\<forall>fuel. sortBundles (\<lambda>k xs. xs) fuel (fst (uninstall sample_env 1 resolved_sample)) = None"
proof
  fix fuel
  let ?L = "fst (uninstall sample_env 1 resolved_sample)"
  have "listBundles ?L = [0]" "isResolved ?L 0" "bdeps (heap ?L 0) = [(''b'', version_of 1 0 0)]" "symbolicName ?L 0 = ''a''"
    by code_simp+
  then show "sortBundles (\<lambda>k xs. xs) fuel ?L = None"
    using sortBundles_loops [of "\<lambda>k xs. xs" ?L 0 "''b''" fuel sample_env] by simp
qed

text \<open>
  a requirement without a version means any version for a bundle and none for a module: the loader
  tests \<open>isEmpty\<close> for bundles only, so a manifest that requires a module by name alone cannot be
  resolved, whatever the loaded bundles provide.
\<close>

theorem module_requirement_without_version:
  "accepts L \<lparr>dep_name = n, dep_versions = range_empty\<rparr> q \<and>
   \<not> isProvidingModule L q \<lparr>dep_name = n, dep_versions = range_empty\<rparr> \<and>
   (\<exists>msg. resolve_modules_loop E L p (\<lparr>dep_name = n, dep_versions = range_empty\<rparr> # ds) acc =
      Inl (BundleResolveException msg))"
proof -
  have no: "\<not> isInRange range_empty v" for v
    by (simp add: isInRange_def range_empty_def version_gt_def version_lt_def)
  have none: "\<not> isProvidingModule L x \<lparr>dep_name = n, dep_versions = range_empty\<rparr>" for x
    by (simp add: isProvidingModule_def no list_ex_iff)
  have "[(name, version_at L x). (name, x) \<leftarrow> bundles L, isProvidingModule L x \<lparr>dep_name = n, dep_versions = range_empty\<rparr>] = []"
    by (simp add: none)
  moreover have "range_isEmpty range_empty" by (simp add: range_isEmpty_def range_empty_def version_eq_def)
  ultimately show ?thesis by (simp add: accepts_def none)
qed

end
