(* ===== verification/Reliability.thy ===== *)
theory Reliability
  imports Prelude
begin

text \<open>
  The reliability primitives of \<open>platform/reliability/include/PocoDDS/Reliability/Reliability.h\<close>:
  \<open>BoundedQueue\<close>, \<open>IdempotencyWindow\<close>, \<open>Bulkhead\<close>, \<open>CircuitBreaker\<close>, \<open>Deadline\<close>, \<open>Lease\<close>,
  \<open>ShutdownSignal\<close> and the \<open>Failure\<close> record. Every method body runs under the mutex of its object,
  so one call is one step; the only place where a thread gives the mutex up in the middle is the
  wait of \<open>BoundedQueue::pop\<close>, which the model splits into entering, waking and timing out.
  The clock is an argument: time points are nanoseconds of the steady clock, durations milliseconds,
  both unbounded. The locale \<open>simulation\<close> carries the two refinement proofs. \<open>RetryPolicy\<close>
  computes with \<open>double\<close> and is not modelled.
\<close>

section \<open>Runs and simulations\<close>

fun run :: "('s \<Rightarrow> 'e \<Rightarrow> 's \<times> 'o) \<Rightarrow> 's \<Rightarrow> 'e list \<Rightarrow> 's \<times> 'o list" where
  "run f s [] = (s, [])"
| "run f s (e # es) = (let (t, x) = f s e; (u, xs) = run f t es in (u, x # xs))"

lemma run_Cons:
  "run f s (e # es) = (fst (run f (fst (f s e)) es), snd (f s e) # snd (run f (fst (f s e)) es))"
  by (simp add: case_prod_beta Let_def)

lemma run_invariant:
  assumes "\<And>s e. P s \<Longrightarrow> P (fst (f s e))" and "P s"
  shows "P (fst (run f s es))"
  using assms(2) by (induction es arbitrary: s) (simp_all add: case_prod_beta Let_def assms(1))

text \<open>
  A concrete machine simulates an abstract one: related states stay related and give the same
  outputs.
\<close>

locale simulation =
  fixes astep :: "'a \<Rightarrow> 'e \<Rightarrow> 'a \<times> 'o"
    and cstep :: "'c \<Rightarrow> 'e \<Rightarrow> 'c \<times> 'o"
    and rel :: "'a \<Rightarrow> 'c \<Rightarrow> bool"
  assumes step_rel: "rel a c \<Longrightarrow> rel (fst (astep a e)) (fst (cstep c e))"
    and step_out: "rel a c \<Longrightarrow> snd (cstep c e) = snd (astep a e)"
begin

lemma run_rel: "rel a c \<Longrightarrow> rel (fst (run astep a es)) (fst (run cstep c es))"
  by (induction es arbitrary: a c) (simp_all add: case_prod_beta Let_def step_rel)

lemma run_out: "rel a c \<Longrightarrow> snd (run cstep c es) = snd (run astep a es)"
  by (induction es arbitrary: a c) (simp_all add: case_prod_beta Let_def step_rel step_out)

end

section \<open>Failures\<close>

datatype FailureKind = Ftransient | Fpermanent | Fconfiguration | Fhardware | Fsafety

definition FailureKind_toString :: "FailureKind \<Rightarrow> string" where
  "FailureKind_toString k = (case k of
      Ftransient \<Rightarrow> ''transient''
    | Fpermanent \<Rightarrow> ''permanent''
    | Fconfiguration \<Rightarrow> ''configuration''
    | Fhardware \<Rightarrow> ''hardware''
    | Fsafety \<Rightarrow> ''safety'')"

record Failure =
  f_code :: string
  f_kind :: FailureKind
  f_retryable :: bool
  f_active :: bool
  f_occurredAtMicroseconds :: int
  f_message :: string

definition makeFailure :: "int \<Rightarrow> string \<Rightarrow> FailureKind \<Rightarrow> bool \<Rightarrow> string \<Rightarrow> Failure" where
  "makeFailure now code kind retryable message =
     \<lparr>f_code = code, f_kind = kind, f_retryable = retryable, f_active = True,
      f_occurredAtMicroseconds = now, f_message = message\<rparr>"

definition resolve_failure :: "Failure \<Rightarrow> Failure" where
  "resolve_failure f = f\<lparr>f_active := False\<rparr>"

lemma FailureKind_toString_inj: "FailureKind_toString k = FailureKind_toString k' \<longleftrightarrow> k = k'"
  by (cases k; cases k') (simp_all add: FailureKind_toString_def)

section \<open>Deadlines and leases\<close>

text \<open>Times in nanoseconds; \<open>trunc_div\<close> is the truncation of \<open>duration_cast\<close>.\<close>

definition trunc_div :: "int \<Rightarrow> int \<Rightarrow> int" where
  "trunc_div a b = (if 0 \<le> a then a div b else - ((- a) div b))"

definition Deadline_new :: "int \<Rightarrow> int \<Rightarrow> int" where
  "Deadline_new now timeout = now + timeout * 1000000"

definition expired :: "int \<Rightarrow> int \<Rightarrow> bool" where
  "expired expiresAt now \<longleftrightarrow> expiresAt \<le> now"

definition remaining :: "int \<Rightarrow> int \<Rightarrow> int" where
  "remaining expiresAt now =
     (let v = trunc_div (expiresAt - now) 1000000 in if 0 < v then v else 0)"

lemma remaining_positive: "0 < remaining d now \<longleftrightarrow> d - now \<ge> 1000000"
proof -
  have "0 < (d - now) div 1000000 \<longleftrightarrow> d - now \<ge> 1000000"
    by (simp add: pos_imp_zdiv_pos_iff)
  moreover have "0 \<le> (now - d) div 1000000" if "d - now < 0"
    using that by (simp add: pos_imp_zdiv_nonneg_iff)
  ultimately show ?thesis by (force simp: remaining_def trunc_div_def Let_def)
qed

record Lease =
  l_ttl :: int
  l_expiresAt :: int

definition Lease_renew :: "int \<Rightarrow> Lease \<Rightarrow> Lease" where
  "Lease_renew now l = l\<lparr>l_expiresAt := now + l_ttl l * 1000000\<rparr>"

definition Lease_new :: "int \<Rightarrow> int \<Rightarrow> Lease" where
  "Lease_new now ttl = Lease_renew now \<lparr>l_ttl = ttl, l_expiresAt = 0\<rparr>"

definition Lease_valid :: "int \<Rightarrow> Lease \<Rightarrow> bool" where
  "Lease_valid now l \<longleftrightarrow> now < l_expiresAt l"

section \<open>The circuit breaker\<close>

record CircuitBreaker =
  cb_failureThreshold :: "64 word"
  cb_resetTimeout :: int
  cb_failures :: "64 word"
  cb_openedAt :: "int option"

definition CircuitBreaker_new :: "64 word \<Rightarrow> int \<Rightarrow> CircuitBreaker" where
  "CircuitBreaker_new threshold reset =
     \<lparr>cb_failureThreshold = threshold, cb_resetTimeout = reset, cb_failures = 0, cb_openedAt = None\<rparr>"

definition cb_allow :: "int \<Rightarrow> CircuitBreaker \<Rightarrow> bool" where
  "cb_allow now b = (case cb_openedAt b of
      None \<Rightarrow> True
    | Some t \<Rightarrow> cb_resetTimeout b * 1000000 \<le> now - t)"

definition cb_success :: "CircuitBreaker \<Rightarrow> CircuitBreaker" where
  "cb_success b = b\<lparr>cb_failures := 0, cb_openedAt := None\<rparr>"

definition cb_failure :: "int \<Rightarrow> CircuitBreaker \<Rightarrow> CircuitBreaker" where
  "cb_failure now b =
     (let b' = b\<lparr>cb_failures := cb_failures b + 1\<rparr>
      in if cb_failureThreshold b' \<le> cb_failures b' then b'\<lparr>cb_openedAt := Some now\<rparr> else b')"

text \<open>The calls of a client, and the failures since the last success, latest first.\<close>

datatype cb_event = Success | Fail int

fun cb_step :: "CircuitBreaker \<Rightarrow> cb_event \<Rightarrow> CircuitBreaker" where
  "cb_step b Success = cb_success b"
| "cb_step b (Fail t) = cb_failure t b"

fun recent_failures :: "cb_event list \<Rightarrow> int list \<Rightarrow> int list" where
  "recent_failures [] acc = acc"
| "recent_failures (Success # es) acc = recent_failures es []"
| "recent_failures (Fail t # es) acc = recent_failures es (t # acc)"

definition cb_state :: "64 word \<Rightarrow> int \<Rightarrow> int list \<Rightarrow> CircuitBreaker \<Rightarrow> bool" where
  "cb_state th reset ts b \<longleftrightarrow>
     cb_failureThreshold b = th \<and> cb_resetTimeout b = reset \<and> cb_failures b = of_nat (length ts) \<and>
     cb_openedAt b = (if ts \<noteq> [] \<and> unat th \<le> length ts then Some (hd ts) else None)"

lemma cb_state_failure:
  assumes "cb_state th reset ts b" and "length ts + 1 < 2 ^ 64"
  shows "cb_state th reset (t # ts) (cb_failure t b)"
proof -
  have "unat (1 + of_nat (length ts) :: 64 word) = Suc (length ts)"
    using unat_of_nat [where 'a = 64, of "Suc (length ts)"] assms(2) by simp
  then have "th \<le> 1 + of_nat (length ts) \<longleftrightarrow> unat th \<le> Suc (length ts)"
    by (simp add: word_le_nat_alt)
  with assms(1) show ?thesis
    by (auto simp: cb_state_def cb_failure_def Let_def add.commute)
qed

lemma cb_run_state:
  "cb_state th reset ts b \<Longrightarrow> length ts + length es < 2 ^ 64 \<Longrightarrow>
   cb_state th reset (recent_failures es ts) (foldl cb_step b es)"
proof (induction es arbitrary: ts b)
  case Nil
  then show ?case by simp
next
  case (Cons e es)
  show ?case
  proof (cases e)
    case Success
    have "cb_state th reset [] (cb_success b)"
      using Cons.prems(1) by (simp add: cb_state_def cb_success_def)
    with Cons Success show ?thesis by simp
  next
    case (Fail t)
    have "cb_state th reset (t # ts) (cb_failure t b)"
      using cb_state_failure Cons.prems by simp
    with Cons Fail show ?thesis by simp
  qed
qed

text \<open>
  A circuit breaker that has seen fewer than \<open>2^64\<close> calls rejects a request at time \<open>now\<close> exactly
  when at least the threshold of failures (at least one) came after the last success and the reset
  timeout has not yet elapsed since the latest of them. So it always lets requests through again once
  the timeout has passed, and a single failure after that closes the gate for another timeout.
\<close>

theorem breaker_opens_and_recovers:
  assumes "length es < 2 ^ 64"
  shows "cb_allow now (foldl cb_step (CircuitBreaker_new threshold reset) es) \<longleftrightarrow>
    (case recent_failures es [] of
       [] \<Rightarrow> True
     | t # ts \<Rightarrow> length (t # ts) < unat threshold \<or> t + reset * 1000000 \<le> now)"
proof -
  have "cb_state threshold reset [] (CircuitBreaker_new threshold reset)"
    by (simp add: cb_state_def CircuitBreaker_new_def)
  then have "cb_state threshold reset (recent_failures es [])
               (foldl cb_step (CircuitBreaker_new threshold reset) es)"
    using assms by (intro cb_run_state) simp_all
  then show ?thesis
    by (auto simp: cb_state_def cb_allow_def split: list.split)
qed

theorem breaker_opens_and_recovers_witness:
  "\<not> cb_allow 2500000 (foldl cb_step (CircuitBreaker_new 2 3) [Fail 7, Success, Fail 0, Fail 1000000]) \<and>
   cb_allow 4000000 (foldl cb_step (CircuitBreaker_new 2 3) [Fail 7, Success, Fail 0, Fail 1000000])"
  using breaker_opens_and_recovers [of "[Fail 7, Success, Fail 0, Fail 1000000]" 2500000 2 3]
    breaker_opens_and_recovers [of "[Fail 7, Success, Fail 0, Fail 1000000]" 4000000 2 3]
  by simp

section \<open>The idempotency window\<close>

text \<open>\<open>_keys\<close> is the hash set, \<open>_order\<close> the deque, front first.\<close>

record IdempotencyWindow =
  iw_capacity :: nat
  iw_keys :: "string set"
  iw_order :: "string list"

definition IdempotencyWindow_new :: "nat \<Rightarrow> IdempotencyWindow" where
  "IdempotencyWindow_new capacity = \<lparr>iw_capacity = capacity, iw_keys = {}, iw_order = []\<rparr>"

definition iw_accept :: "IdempotencyWindow \<Rightarrow> string \<Rightarrow> IdempotencyWindow \<times> bool" where
  "iw_accept w key =
     (if key \<in> iw_keys w then (w, False)
      else let w1 = w\<lparr>iw_keys := insert key (iw_keys w), iw_order := iw_order w @ [key]\<rparr>;
               w2 = (if iw_capacity w1 < length (iw_order w1)
                     then w1\<lparr>iw_keys := iw_keys w1 - {hd (iw_order w1)}, iw_order := tl (iw_order w1)\<rparr>
                     else w1)
           in (w2, True))"

text \<open>
  The contract: the machine remembers every key it ever accepted, and refuses a key that is among
  the last \<open>capacity\<close> of them.
\<close>

definition last_n :: "nat \<Rightarrow> 'a list \<Rightarrow> 'a list" where
  "last_n n xs = drop (length xs - n) xs"

definition iw_spec :: "nat \<Rightarrow> string list \<Rightarrow> string \<Rightarrow> string list \<times> bool" where
  "iw_spec capacity h key = (if key \<in> set (last_n capacity h) then (h, False) else (h @ [key], True))"

definition iw_rel :: "nat \<Rightarrow> string list \<Rightarrow> IdempotencyWindow \<Rightarrow> bool" where
  "iw_rel capacity h w \<longleftrightarrow> iw_capacity w = capacity \<and> iw_order w = last_n capacity h \<and>
     iw_keys w = set (iw_order w) \<and> distinct (iw_order w)"

lemma last_n_snoc: "last_n n (h @ [k]) =
    (if n < length (last_n n h @ [k]) then tl (last_n n h @ [k]) else last_n n h @ [k])"
proof (cases "n \<le> length h")
  case True
  have "tl (drop (length h - n) (h @ [k])) = drop (Suc (length h) - n) (h @ [k])"
    using True by (simp only: drop_Suc [symmetric] tl_drop drop_drop) (simp add: Suc_diff_le drop_Suc tl_drop)
  with True show ?thesis by (simp add: last_n_def)
next
  case False
  then show ?thesis by (simp add: last_n_def)
qed

lemma length_last_n [simp]: "length (last_n n h) \<le> n"
  by (simp add: last_n_def)

interpretation window: simulation "iw_spec capacity" iw_accept "iw_rel capacity" for capacity
proof unfold_locales
  fix h w key
  assume rel: "iw_rel capacity h w"
  then show "snd (iw_accept w key) = snd (iw_spec capacity h key)"
    by (simp add: iw_rel_def iw_accept_def iw_spec_def Let_def)
  show "iw_rel capacity (fst (iw_spec capacity h key)) (fst (iw_accept w key))"
  proof (cases "key \<in> set (last_n capacity h)")
    case True
    with rel show ?thesis by (auto simp: iw_rel_def iw_accept_def iw_spec_def)
  next
    case False
    let ?o = "last_n capacity h @ [key]"
    have d: "distinct ?o" using rel False by (auto simp: iw_rel_def)
    then have "set ?o - {hd ?o} = set (tl ?o)"
      by (cases "last_n capacity h") auto
    with d rel False show ?thesis
      by (simp add: iw_rel_def iw_accept_def iw_spec_def Let_def last_n_snoc distinct_tl)
  qed
qed

text \<open>
  The idempotency window refines the machine that remembers every accepted key: over any
  sequence of calls it gives the same answers as one that refuses exactly the keys among the last
  \<open>capacity\<close> accepted ones, and it stores just those keys, each once, in the order of acceptance.
\<close>

theorem idempotency_window_refines:
  "let (w, answers) = run iw_accept (IdempotencyWindow_new capacity) keys;
       (history, expected) = run (iw_spec capacity) [] keys
   in answers = expected \<and> iw_order w = last_n capacity history \<and>
      iw_keys w = set (iw_order w) \<and> distinct (iw_order w) \<and> length (iw_order w) \<le> capacity"
proof -
  have "iw_rel capacity [] (IdempotencyWindow_new capacity)"
    by (simp add: iw_rel_def IdempotencyWindow_new_def last_n_def)
  then show ?thesis
    using window.run_rel [of capacity "[]" "IdempotencyWindow_new capacity" keys]
      window.run_out [of capacity "[]" "IdempotencyWindow_new capacity" keys]
    by (auto simp: iw_rel_def case_prod_beta)
qed

section \<open>The bulkhead\<close>

record Bulkhead =
  bh_limit :: nat
  bh_active :: nat

definition Bulkhead_new :: "nat \<Rightarrow> Bulkhead" where
  "Bulkhead_new limit = \<lparr>bh_limit = limit, bh_active = 0\<rparr>"

definition tryAcquire :: "Bulkhead \<Rightarrow> Bulkhead \<times> bool" where
  "tryAcquire b = (if bh_limit b \<le> bh_active b then (b, False)
                   else (b\<lparr>bh_active := bh_active b + 1\<rparr>, True))"

definition bh_release :: "Bulkhead \<Rightarrow> Bulkhead" where
  "bh_release b = (if 0 < bh_active b then b\<lparr>bh_active := bh_active b - 1\<rparr> else b)"

text \<open>Clients that acquire and release, the clients holding a permit being the abstract state.\<close>

datatype bh_event = Acquire nat | Release nat

fun bh_step :: "Bulkhead \<times> nat list \<Rightarrow> bh_event \<Rightarrow> (Bulkhead \<times> nat list) \<times> bool" where
  "bh_step (b, hs) (Acquire c) =
     (let (b', ok) = tryAcquire b in ((b', if ok then c # hs else hs), ok))"
| "bh_step (b, hs) (Release c) =
     (if c \<in> set hs then ((bh_release b, remove1 c hs), True) else ((b, hs), False))"

definition bh_inv :: "nat \<Rightarrow> Bulkhead \<times> nat list \<Rightarrow> bool" where
  "bh_inv limit s \<longleftrightarrow> bh_limit (fst s) = limit \<and> bh_active (fst s) = length (snd s) \<and>
     length (snd s) \<le> limit"

lemma bh_step_inv: "bh_inv limit s \<Longrightarrow> bh_inv limit (fst (bh_step s e))"
  by (cases "(s, e)" rule: bh_step.cases)
     (auto simp: bh_inv_def tryAcquire_def bh_release_def length_remove1)

lemma bulkhead_bounds_holders:
  "bh_inv limit (fst (run bh_step (Bulkhead_new limit, []) es))"
proof (rule run_invariant)
  show "bh_inv limit (Bulkhead_new limit, [])" by (simp add: bh_inv_def Bulkhead_new_def)
qed (rule bh_step_inv)

section \<open>The bounded queue\<close>

text \<open>
  \<open>bq_waiting\<close> are the threads blocked on the condition variable, \<open>bq_notified\<close> the ones a
  notification has unblocked and that have not yet taken the mutex again. \<open>notify_one\<close> unblocks some
  blocked thread if there is one; which one is the choice \<open>i\<close>.
\<close>

record 'a BoundedQueue =
  bq_capacity :: nat
  bq_queue :: "'a list"
  bq_closed :: bool
  bq_waiting :: "nat list"
  bq_notified :: "nat list"

definition BoundedQueue_new :: "nat \<Rightarrow> 'a BoundedQueue" where
  "BoundedQueue_new capacity =
     \<lparr>bq_capacity = capacity, bq_queue = [], bq_closed = False, bq_waiting = [], bq_notified = []\<rparr>"

definition notify_one :: "nat \<Rightarrow> 'a BoundedQueue \<Rightarrow> 'a BoundedQueue" where
  "notify_one i q =
     (if bq_waiting q = [] then q
      else let w = bq_waiting q ! (i mod length (bq_waiting q))
           in q\<lparr>bq_waiting := remove1 w (bq_waiting q), bq_notified := w # bq_notified q\<rparr>)"

definition notify_all :: "'a BoundedQueue \<Rightarrow> 'a BoundedQueue" where
  "notify_all q = q\<lparr>bq_waiting := [], bq_notified := bq_waiting q @ bq_notified q\<rparr>"

definition bq_tryPush :: "nat \<Rightarrow> 'a \<Rightarrow> 'a BoundedQueue \<Rightarrow> 'a BoundedQueue \<times> bool" where
  "bq_tryPush i value q =
     (if bq_closed q \<or> bq_capacity q \<le> length (bq_queue q) then (q, False)
      else (notify_one i (q\<lparr>bq_queue := bq_queue q @ [value]\<rparr>), True))"

text \<open>The part of \<open>pop\<close> after the wait.\<close>

definition bq_take :: "'a BoundedQueue \<Rightarrow> 'a BoundedQueue \<times> 'a option" where
  "bq_take q = (case bq_queue q of [] \<Rightarrow> (q, None) | v # vs \<Rightarrow> (q\<lparr>bq_queue := vs\<rparr>, Some v))"

definition bq_ready :: "'a BoundedQueue \<Rightarrow> bool" where
  "bq_ready q \<longleftrightarrow> bq_closed q \<or> bq_queue q \<noteq> []"

definition bq_close :: "'a BoundedQueue \<Rightarrow> 'a BoundedQueue" where
  "bq_close q = notify_all (q\<lparr>bq_closed := True\<rparr>)"

definition bq_size :: "'a BoundedQueue \<Rightarrow> nat" where
  "bq_size q = length (bq_queue q)"

text \<open>
  What the threads do: push (with the choice of the thread it wakes), call \<open>pop\<close>, run again after a
  wake-up (notified or spurious), reach the timeout of the wait, close. A thread that is not in the
  wait cannot leave it, and one that is in it cannot call \<open>pop\<close>: such an event does nothing.
\<close>

datatype 'a bq_event = Push nat 'a | Pop nat | Wake nat | Timeout nat | Close
datatype 'a bq_out = Pushed bool | Popped "'a option" | Blocked | Closed | Nothing

definition bq_blocked :: "'a BoundedQueue \<Rightarrow> nat list" where
  "bq_blocked q = bq_waiting q @ bq_notified q"

definition bq_leave :: "nat \<Rightarrow> 'a BoundedQueue \<Rightarrow> 'a BoundedQueue" where
  "bq_leave c q = (if c \<in> set (bq_notified q) then q\<lparr>bq_notified := remove1 c (bq_notified q)\<rparr>
                   else q\<lparr>bq_waiting := remove1 c (bq_waiting q)\<rparr>)"

definition bq_enter :: "nat \<Rightarrow> 'a BoundedQueue \<Rightarrow> 'a BoundedQueue \<times> 'a bq_out" where
  "bq_enter c q = (if bq_ready q then (let (q', r) = bq_take q in (q', Popped r))
                   else (q\<lparr>bq_waiting := bq_waiting q @ [c]\<rparr>, Blocked))"

fun bq_step :: "'a BoundedQueue \<Rightarrow> 'a bq_event \<Rightarrow> 'a BoundedQueue \<times> 'a bq_out" where
  "bq_step q (Push i v) = (let (q', ok) = bq_tryPush i v q in (q', Pushed ok))"
| "bq_step q (Pop c) = (if c \<in> set (bq_blocked q) then (q, Nothing) else bq_enter c q)"
| "bq_step q (Wake c) = (if c \<in> set (bq_blocked q) then bq_enter c (bq_leave c q) else (q, Nothing))"
| "bq_step q (Timeout c) =
     (if c \<in> set (bq_blocked q) then (let (q', r) = bq_take (bq_leave c q) in (q', Popped r))
      else (q, Nothing))"
| "bq_step q Close = (bq_close q, Closed)"

text \<open>
  The contract: a queue of values, whether it is closed, and the set of threads inside \<open>pop\<close>. There
  are no notifications in it: a thread in the set may run at any time.
\<close>

type_synonym 'a bq_abs = "'a list \<times> bool \<times> nat set"

definition head :: "'a list \<Rightarrow> 'a option" where
  "head xs = (case xs of [] \<Rightarrow> None | x # _ \<Rightarrow> Some x)"

fun bq_spec :: "nat \<Rightarrow> 'a bq_abs \<Rightarrow> 'a bq_event \<Rightarrow> 'a bq_abs \<times> 'a bq_out" where
  "bq_spec cap (xs, cl, P) (Push i v) =
     (if cl \<or> cap \<le> length xs then ((xs, cl, P), Pushed False) else ((xs @ [v], cl, P), Pushed True))"
| "bq_spec cap (xs, cl, P) (Pop c) =
     (if c \<in> P then ((xs, cl, P), Nothing)
      else if cl \<or> xs \<noteq> [] then ((tl xs, cl, P), Popped (head xs))
      else ((xs, cl, insert c P), Blocked))"
| "bq_spec cap (xs, cl, P) (Wake c) =
     (if c \<notin> P then ((xs, cl, P), Nothing)
      else if cl \<or> xs \<noteq> [] then ((tl xs, cl, P - {c}), Popped (head xs))
      else ((xs, cl, P), Blocked))"
| "bq_spec cap (xs, cl, P) (Timeout c) =
     (if c \<notin> P then ((xs, cl, P), Nothing) else ((tl xs, cl, P - {c}), Popped (head xs)))"
| "bq_spec cap (xs, cl, P) Close = ((xs, True, P), Closed)"

definition bq_rel :: "nat \<Rightarrow> 'a bq_abs \<Rightarrow> 'a BoundedQueue \<Rightarrow> bool" where
  "bq_rel cap a q \<longleftrightarrow> a = (bq_queue q, bq_closed q, set (bq_blocked q)) \<and>
     bq_capacity q = cap \<and> distinct (bq_blocked q)"

lemma notify_one_fields [simp]:
  "bq_queue (notify_one i q) = bq_queue q" "bq_closed (notify_one i q) = bq_closed q"
  "bq_capacity (notify_one i q) = bq_capacity q"
  by (simp_all add: notify_one_def Let_def)

lemma notify_one_blocked:
  assumes "distinct (bq_blocked q)"
  shows "set (bq_blocked (notify_one i q)) = set (bq_blocked q) \<and> distinct (bq_blocked (notify_one i q))"
proof (cases "bq_waiting q = []")
  case True
  with assms show ?thesis by (simp add: notify_one_def)
next
  case False
  then have "bq_waiting q ! (i mod length (bq_waiting q)) \<in> set (bq_waiting q)" by simp
  moreover have "set (bq_waiting q) \<inter> set (bq_notified q) = {}"
    using assms by (simp add: bq_blocked_def)
  ultimately have "bq_waiting q ! (i mod length (bq_waiting q)) \<notin> set (bq_notified q)" by blast
  with False assms show ?thesis
    by (auto simp: notify_one_def bq_blocked_def Let_def)
qed

lemma notify_one_notified:
  "bq_waiting q \<noteq> [] \<Longrightarrow> length (bq_notified (notify_one i q)) = Suc (length (bq_notified q)) \<and>
     length (bq_blocked (notify_one i q)) = length (bq_blocked q)"
  using length_pos_if_in_set [of "bq_waiting q ! (i mod length (bq_waiting q))" "bq_waiting q"]
  by (simp add: notify_one_def bq_blocked_def Let_def length_remove1)

lemma bq_leave_fields [simp]:
  "bq_queue (bq_leave c q) = bq_queue q" "bq_closed (bq_leave c q) = bq_closed q"
  "bq_capacity (bq_leave c q) = bq_capacity q"
  by (simp_all add: bq_leave_def)

lemma bq_leave_blocked:
  assumes "distinct (bq_blocked q)"
  shows "set (bq_blocked (bq_leave c q)) = set (bq_blocked q) - {c} \<and> distinct (bq_blocked (bq_leave c q))"
  using assms by (auto simp: bq_leave_def bq_blocked_def remove1_filter_not)

lemma bq_take_fields [simp]:
  "bq_queue (fst (bq_take q)) = tl (bq_queue q)" "bq_closed (fst (bq_take q)) = bq_closed q"
  "bq_capacity (fst (bq_take q)) = bq_capacity q" "bq_waiting (fst (bq_take q)) = bq_waiting q"
  "bq_notified (fst (bq_take q)) = bq_notified q" "snd (bq_take q) = head (bq_queue q)"
  "bq_blocked (fst (bq_take q)) = bq_blocked q"
  by (simp_all add: bq_take_def head_def bq_blocked_def split: list.splits)

lemma bq_enter_rel:
  assumes "distinct (bq_blocked q)" and "c \<notin> set (bq_blocked q)"
  shows "bq_closed (fst (bq_enter c q)) = bq_closed q" "bq_capacity (fst (bq_enter c q)) = bq_capacity q"
    and "bq_queue (fst (bq_enter c q)) = tl (bq_queue q)"
    and "set (bq_blocked (fst (bq_enter c q))) =
           (if bq_ready q then set (bq_blocked q) else insert c (set (bq_blocked q)))"
    and "distinct (bq_blocked (fst (bq_enter c q)))"
    and "snd (bq_enter c q) = (if bq_ready q then Popped (head (bq_queue q)) else Blocked)"
  using assms by (auto simp: bq_enter_def case_prod_beta bq_ready_def bq_blocked_def Let_def)

interpretation bqueue: simulation "bq_spec cap" bq_step "bq_rel cap" for cap
proof unfold_locales
  fix a and q :: "'a BoundedQueue" and e
  assume rel: "bq_rel cap a q"
  then have a: "a = (bq_queue q, bq_closed q, set (bq_blocked q))" and d: "distinct (bq_blocked q)"
    and cap: "bq_capacity q = cap"
    by (simp_all add: bq_rel_def)
  have push: "bq_rel cap (bq_queue q @ [v], bq_closed q, set (bq_blocked q))
                (notify_one i (q\<lparr>bq_queue := bq_queue q @ [v]\<rparr>))" for i v
    using notify_one_blocked [of "q\<lparr>bq_queue := bq_queue q @ [v]\<rparr>" i] d cap
    by (simp add: bq_rel_def bq_blocked_def)
  note leave = bq_leave_blocked [OF d]
  have enter: "snd (bq_step q e) = snd (bq_spec cap a e) \<and>
      bq_rel cap (fst (bq_spec cap a e)) (fst (bq_step q e))"
  proof (cases e)
    case (Push i v)
    then show ?thesis using push [where i = i and v = v] rel a cap
      by (cases "bq_closed q") (simp_all add: bq_tryPush_def)
  next
    case (Pop c)
    show ?thesis
    proof (cases "c \<in> set (bq_blocked q)")
      case True
      with Pop rel a show ?thesis by simp
    next
      case False
      then show ?thesis using bq_enter_rel [OF d False] a cap Pop
        by (auto simp: bq_rel_def bq_ready_def)
    qed
  next
    case (Wake c)
    have "c \<notin> set (bq_blocked (bq_leave c q))" using leave by blast
    with Wake bq_enter_rel [of "bq_leave c q" c] leave a cap rel show ?thesis
      by (auto simp: bq_rel_def bq_ready_def)
  next
    case (Timeout c)
    then show ?thesis using leave a cap rel by (simp add: case_prod_beta bq_rel_def)
  next
    case Close
    then show ?thesis using a cap d
      by (simp add: bq_rel_def bq_close_def notify_all_def bq_blocked_def)
  qed
  show "bq_rel cap (fst (bq_spec cap a e)) (fst (bq_step q e))"
    and "snd (bq_step q e) = snd (bq_spec cap a e)"
    using enter by simp_all
qed

text \<open>Accepted and delivered values of a run.\<close>

fun accepted :: "'a bq_event list \<Rightarrow> 'a bq_out list \<Rightarrow> 'a list" where
  "accepted (Push i v # es) (Pushed True # os) = v # accepted es os"
| "accepted (_ # es) (_ # os) = accepted es os"
| "accepted _ _ = []"

fun delivered :: "'a bq_out list \<Rightarrow> 'a list" where
  "delivered (Popped (Some v) # os) = v # delivered os"
| "delivered (_ # os) = delivered os"
| "delivered [] = []"

lemma accepted_skip: "(\<forall>i v. e \<noteq> Push i v) \<or> o' \<noteq> Pushed True \<Longrightarrow> accepted (e # es) (o' # os) = accepted es os"
  by (cases "(e # es, o' # os)" rule: accepted.cases) auto

lemma delivered_skip: "\<forall>v. o' \<noteq> Popped (Some v) \<Longrightarrow> delivered (o' # os) = delivered os"
  by (cases "o' # os" rule: delivered.cases) auto

lemma delivered_head: "delivered (Popped (head xs) # os) @ ys = (take 1 xs @ delivered os) @ ys"
  by (cases xs) (simp_all add: head_def)

lemma bq_spec_fifo:
  "length xs \<le> cap \<Longrightarrow>
   (let ((ys, _), os) = run (bq_spec cap) (xs, cl, P) es
    in xs @ accepted es os = delivered os @ ys \<and> length ys \<le> cap)"
proof (induction es arbitrary: xs cl P)
  case Nil
  then show ?case by simp
next
  case (Cons e es)
  obtain xs' cl' P' x where step: "bq_spec cap (xs, cl, P) e = ((xs', cl', P'), x)"
    by (metis prod.exhaust)
  obtain ys st os where rest: "run (bq_spec cap) (xs', cl', P') es = ((ys, st), os)"
    by (metis prod.exhaust)
  have len: "length xs' \<le> cap"
    using step Cons.prems by (cases e) (auto split: if_splits)
  have "xs' @ accepted es os = delivered os @ ys \<and> length ys \<le> cap"
    using Cons.IH [OF len, of cl' P'] rest by simp
  moreover have "xs @ accepted (e # es) (x # os) = (delivered [x] @ xs') @ accepted es os"
    using step by (cases e; cases xs) (auto simp: accepted_skip head_def split: if_splits)
  moreover have "delivered (x # os) = delivered [x] @ delivered os"
    by (cases "[x]" rule: delivered.cases) auto
  ultimately show ?case using step rest by simp
qed

definition bq_inv :: "'a BoundedQueue \<Rightarrow> bool" where
  "bq_inv q \<longleftrightarrow> min (length (bq_blocked q)) (length (bq_queue q)) \<le> length (bq_notified q) \<and>
     (bq_closed q \<longrightarrow> bq_waiting q = [])"

lemma bq_leave_lengths:
  "c \<in> set (bq_blocked q) \<Longrightarrow> Suc (length (bq_blocked (bq_leave c q))) = length (bq_blocked q) \<and>
     length (bq_notified q) \<le> Suc (length (bq_notified (bq_leave c q))) \<and>
     length (bq_waiting (bq_leave c q)) \<le> length (bq_waiting q)"
  using length_pos_if_in_set [of c "bq_notified q"] length_pos_if_in_set [of c "bq_waiting q"]
  by (auto simp: bq_leave_def bq_blocked_def length_remove1)

lemma bq_enter_inv:
  assumes "bq_ready q \<Longrightarrow> min (length (bq_blocked q)) (length (bq_queue q) - 1) \<le> length (bq_notified q)"
    and "bq_closed q \<Longrightarrow> bq_waiting q = []"
  shows "bq_inv (fst (bq_enter c q))"
  using assms by (auto simp: bq_enter_def case_prod_beta bq_inv_def bq_ready_def)

lemma bq_step_inv: "bq_inv q \<Longrightarrow> bq_inv (fst (bq_step q e))"
proof (cases e)
  case (Push i v)
  assume inv: "bq_inv q"
  let ?q = "q\<lparr>bq_queue := bq_queue q @ [v]\<rparr>"
  have "bq_inv (notify_one i ?q)" if "\<not> bq_closed q"
  proof (cases "bq_waiting q = []")
    case True
    then show ?thesis using inv that by (simp add: bq_inv_def notify_one_def bq_blocked_def)
  next
    case False
    then show ?thesis using notify_one_notified [of ?q i] inv that
      by (auto simp: bq_inv_def bq_blocked_def)
  qed
  with inv Push show ?thesis by (simp add: bq_tryPush_def)
next
  case (Pop c)
  assume inv: "bq_inv q"
  then have "bq_inv (fst (bq_enter c q))" by (intro bq_enter_inv) (auto simp: bq_inv_def)
  with inv Pop show ?thesis by simp
next
  case (Wake c)
  assume inv: "bq_inv q"
  have "bq_inv (fst (bq_enter c (bq_leave c q)))" if "c \<in> set (bq_blocked q)"
    using inv bq_leave_lengths [OF that] by (intro bq_enter_inv) (auto simp: bq_inv_def)
  with inv Wake show ?thesis by simp
next
  case (Timeout c)
  assume "bq_inv q"
  with Timeout show ?thesis using bq_leave_lengths [of c q]
    by (auto simp: bq_inv_def case_prod_beta)
next
  case Close
  assume "bq_inv q"
  with Close show ?thesis by (simp add: bq_inv_def bq_close_def notify_all_def bq_blocked_def)
qed

lemma bq_new_rel: "bq_rel cap ([], False, {}) (BoundedQueue_new cap)"
  by (simp add: bq_rel_def BoundedQueue_new_def bq_blocked_def)

text \<open>
  C29: Whatever the pushing, popping, waking, timing-out and closing threads do, and whichever
  waiting thread a notification picks, the bounded queue answers as the abstract queue does that
  knows nothing of notifications; the values accepted so far are the values delivered so far
  followed by the ones still queued, in order; and never more than \<open>capacity\<close> values are queued.
\<close>

theorem bounded_queue_refines:
  "let (q, outs) = run bq_step (BoundedQueue_new capacity) es
   in outs = snd (run (bq_spec capacity) ([], False, {}) es) \<and>
      accepted es outs = delivered outs @ bq_queue q \<and> bq_size q \<le> capacity"
proof -
  note rel = bqueue.run_rel [OF bq_new_rel, of capacity es]
  note out = bqueue.run_out [OF bq_new_rel, of capacity es]
  show ?thesis
    using bq_spec_fifo [of "[]" capacity False "{}" es] rel out
    by (auto simp: case_prod_beta Let_def bq_rel_def bq_size_def)
qed

text \<open>
  C30: No wake-up of the bounded queue is lost. In every state a run can reach, when there is a value
  or the queue is closed and a thread is blocked in \<open>pop\<close>, a thread has been notified; that thread
  returns when it runs next, with the front value if there is one. Once the queue is closed every
  blocked thread has been notified.
\<close>

theorem no_lost_wakeup:
  fixes es :: "'a bq_event list"
  assumes q_def: "q = fst (run bq_step (BoundedQueue_new capacity) es)"
    and ready: "bq_ready q" "bq_blocked q \<noteq> []"
  shows "bq_notified q \<noteq> [] \<and>
    (\<forall>c \<in> set (bq_notified q). snd (bq_step q (Wake c)) = Popped (head (bq_queue q))) \<and>
    (bq_closed q \<longrightarrow> bq_waiting q = [])"
proof -
  have inv: "bq_inv q"
    unfolding q_def
  proof (rule run_invariant)
    show "bq_inv (BoundedQueue_new capacity :: 'a BoundedQueue)"
      by (simp add: bq_inv_def BoundedQueue_new_def bq_blocked_def)
  qed (rule bq_step_inv)
  have "bq_notified q \<noteq> []"
    using inv ready by (auto simp: bq_inv_def bq_ready_def bq_blocked_def min_def split: if_splits)
  moreover have "snd (bq_step q (Wake c)) = Popped (head (bq_queue q))" if "c \<in> set (bq_notified q)" for c
    using that ready by (simp add: bq_blocked_def bq_enter_def bq_ready_def case_prod_beta)
  ultimately show ?thesis using inv by (simp add: bq_inv_def)
qed

theorem no_lost_wakeup_witness:
  "bq_notified (fst (run bq_step (BoundedQueue_new 1) [Pop 4, Pop 5, Push 1 (7 :: int)])) = [5] \<and>
   snd (bq_step (fst (run bq_step (BoundedQueue_new 1) [Pop 4, Pop 5, Push 1 (7 :: int)])) (Wake 5)) =
     Popped (Some 7)"
proof -
  let ?q = "fst (run bq_step (BoundedQueue_new 1) [Pop 4, Pop 5, Push 1 (7 :: int)])"
  have "bq_ready ?q" "bq_blocked ?q \<noteq> []" "bq_notified ?q = [5]" "bq_queue ?q = [7]" by code_simp+
  then show ?thesis
    using no_lost_wakeup [OF refl, of 1 "[Pop 4, Pop 5, Push 1 (7 :: int)]"] by (simp add: head_def)
qed

section \<open>The shutdown signal\<close>

definition ShutdownSignal_request :: "bool \<Rightarrow> bool" where
  "ShutdownSignal_request requested = True"

end
