(* ===== verification/Workflow.thy ===== *)
theory Workflow
  imports Prelude
begin

text \<open>
  The workflow engine of \<open>application/include/PocoDDS/Application/Application.h\<close>: command contexts,
  the registry of workflow factories and \<open>SequentialWorkflow\<close>, which runs its steps in order and on
  a failure, an expired deadline or a cancellation runs the compensations of the completed steps
  backwards. What the steps act on is a world \<open>'w\<close>; a step and a compensation may also throw. The
  steady clock is a function of the number of the step about to run, the reading \<open>expired()\<close> takes
  there. The metrics calls of \<open>PDR_ENABLE_OBSERVABILITY\<close> do not act on the workflow and are left out.
\<close>

section \<open>Results, contexts and steps\<close>

record Error =
  err_code :: string
  err_message :: string
  err_retryable :: bool

text \<open>\<open>Result<T>\<close> holds a value or an error; reading the side it does not hold throws.\<close>

type_synonym 'a Result = "Error + 'a"

definition Result_success :: "'a \<Rightarrow> 'a Result" where
  "Result_success v = Inr v"

definition Result_failure :: "Error \<Rightarrow> 'a Result" where
  "Result_failure e = Inl e"

definition hasValue :: "'a Result \<Rightarrow> bool" where
  "hasValue r \<longleftrightarrow> (case r of Inl _ \<Rightarrow> False | Inr _ \<Rightarrow> True)"

record CommandContext =
  cc_requestId :: string
  cc_traceId :: string
  cc_deviceId :: string
  cc_deadline :: int

definition context_expired :: "int \<Rightarrow> CommandContext \<Rightarrow> bool" where
  "context_expired now c \<longleftrightarrow> cc_deadline c \<noteq> 0 \<and> cc_deadline c \<le> now"

datatype WorkflowState = Idle | Running | Succeeded | Failed | Cancelled

record 'w WorkflowStep =
  ws_id :: string
  ws_execute :: "CommandContext \<Rightarrow> 'w \<Rightarrow> 'w \<times> WorkflowState Result res"
  ws_compensate :: "(CommandContext \<Rightarrow> 'w \<Rightarrow> 'w \<times> unit res) option"

section \<open>The registry of factories\<close>

text \<open>\<open>emplace\<close> keeps the entry that is there.\<close>

definition registerFactory :: "string \<Rightarrow> 'f \<Rightarrow> (string \<rightharpoonup> 'f) \<Rightarrow> (string \<rightharpoonup> 'f) \<times> bool" where
  "registerFactory wid f m = (case m wid of Some _ \<Rightarrow> (m, False) | None \<Rightarrow> (m(wid \<mapsto> f), True))"

definition create_workflow :: "string \<Rightarrow> (string \<rightharpoonup> (unit \<Rightarrow> 'a)) \<Rightarrow> 'a option" where
  "create_workflow wid m = (case m wid of None \<Rightarrow> None | Some f \<Rightarrow> Some (f ()))"

lemma registerFactory_first_wins:
  "create_workflow i (fst (registerFactory wid f m)) =
     (if i = wid \<and> m wid = None then Some (f ()) else create_workflow i m)"
  by (auto simp: registerFactory_def create_workflow_def split: option.split)

section \<open>The sequential workflow\<close>

record 'w SequentialWorkflow =
  wf_steps :: "'w WorkflowStep list"
  wf_completed :: nat
  wf_state :: WorkflowState

definition SequentialWorkflow_new :: "'w WorkflowStep list \<Rightarrow> 'w SequentialWorkflow" where
  "SequentialWorkflow_new steps = \<lparr>wf_steps = steps, wf_completed = 0, wf_state = Idle\<rparr>"

text \<open>The loop of \<open>compensate\<close>: the counter goes down before the compensation runs.\<close>

fun compensate_loop :: "CommandContext \<Rightarrow> 'w WorkflowStep list \<Rightarrow> nat \<Rightarrow> 'w \<Rightarrow> nat \<times> 'w \<times> unit res" where
  "compensate_loop c steps 0 w = (0, w, Inr ())"
| "compensate_loop c steps (Suc k) w =
     (case ws_compensate (steps ! k) of
        None \<Rightarrow> compensate_loop c steps k w
      | Some f \<Rightarrow> (case f c w of
          (w', Inl e) \<Rightarrow> (k, w', Inl e)
        | (w', Inr _) \<Rightarrow> compensate_loop c steps k w'))"

definition compensate ::
    "CommandContext \<Rightarrow> 'w SequentialWorkflow \<Rightarrow> 'w \<Rightarrow> 'w SequentialWorkflow \<times> 'w \<times> unit res" where
  "compensate c s w = (case compensate_loop c (wf_steps s) (wf_completed s) w of
     (k, w', r) \<Rightarrow> (s\<lparr>wf_completed := k\<rparr>, w', r))"

definition failAndCompensate :: "CommandContext \<Rightarrow> Error \<Rightarrow> 'w SequentialWorkflow \<Rightarrow> 'w \<Rightarrow>
    'w SequentialWorkflow \<times> 'w \<times> WorkflowState Result res" where
  "failAndCompensate c err s w = (case compensate c s w of
      (s', w', Inl e) \<Rightarrow> (s', w', Inl e)
    | (s', w', Inr _) \<Rightarrow> (s'\<lparr>wf_state := Failed\<rparr>, w', Inr (Result_failure err)))"

definition deadline_exceeded :: Error where
  "deadline_exceeded = \<lparr>err_code = ''deadline_exceeded'',
     err_message = ''workflow deadline expired'', err_retryable = False\<rparr>"

fun start_loop :: "(nat \<Rightarrow> int) \<Rightarrow> CommandContext \<Rightarrow> 'w WorkflowStep list \<Rightarrow> 'w SequentialWorkflow \<Rightarrow> 'w \<Rightarrow>
    'w SequentialWorkflow \<times> 'w \<times> WorkflowState Result res" where
  "start_loop clock c [] s w =
     (s\<lparr>wf_state := Succeeded\<rparr>, w, Inr (Result_success Succeeded))"
| "start_loop clock c (step # rest) s w =
     (if context_expired (clock (wf_completed s)) c then failAndCompensate c deadline_exceeded s w
      else case ws_execute step c w of
          (w', Inl e) \<Rightarrow> (s, w', Inl e)
        | (w', Inr (Inl err)) \<Rightarrow> failAndCompensate c err s w'
        | (w', Inr (Inr _)) \<Rightarrow>
            start_loop clock c rest (s\<lparr>wf_completed := wf_completed s + 1\<rparr>) w')"

definition wf_start :: "(nat \<Rightarrow> int) \<Rightarrow> CommandContext \<Rightarrow> 'w SequentialWorkflow \<Rightarrow> 'w \<Rightarrow>
    'w SequentialWorkflow \<times> 'w \<times> WorkflowState Result res" where
  "wf_start clock c s w = start_loop clock c (wf_steps s) (s\<lparr>wf_state := Running, wf_completed := 0\<rparr>) w"

definition wf_handle :: "'w SequentialWorkflow \<Rightarrow> WorkflowState Result" where
  "wf_handle s = Result_success (wf_state s)"

definition wf_cancel :: "CommandContext \<Rightarrow> 'w SequentialWorkflow \<Rightarrow> 'w \<Rightarrow>
    'w SequentialWorkflow \<times> 'w \<times> WorkflowState Result res" where
  "wf_cancel c s w = (case compensate c s w of
      (s', w', Inl e) \<Rightarrow> (s', w', Inl e)
    | (s', w', Inr _) \<Rightarrow> (s'\<lparr>wf_state := Cancelled\<rparr>, w', Inr (Result_success Cancelled)))"

section \<open>Compensation runs backwards over the completed steps\<close>

text \<open>Steps whose compensation does not throw, and what it does to the world; \<open>performed\<close> executes steps as
  long as they succeed.\<close>

definition compensates :: "CommandContext \<Rightarrow> 'w WorkflowStep \<Rightarrow> bool" where
  "compensates c st \<longleftrightarrow> (\<forall>f w w' e. ws_compensate st = Some f \<longrightarrow> f c w \<noteq> (w', Inl e))"

definition undo :: "CommandContext \<Rightarrow> 'w WorkflowStep \<Rightarrow> 'w \<Rightarrow> 'w" where
  "undo c st w = (case ws_compensate st of None \<Rightarrow> w | Some f \<Rightarrow> fst (f c w))"

fun performed :: "CommandContext \<Rightarrow> 'w WorkflowStep list \<Rightarrow> 'w \<Rightarrow> 'w option" where
  "performed c [] w = Some w"
| "performed c (st # rest) w = (case ws_execute st c w of
      (w', Inr (Inr _)) \<Rightarrow> performed c rest w'
    | _ \<Rightarrow> None)"

definition undo_all :: "CommandContext \<Rightarrow> 'w WorkflowStep list \<Rightarrow> 'w \<Rightarrow> 'w" where
  "undo_all c done_steps w = fold (undo c) (rev done_steps) w"

lemma performed_snoc: "performed c (xs @ [st]) w = Option.bind (performed c xs w) (performed c [st])"
  by (induction xs arbitrary: w) (auto split: sum.split prod.split)

lemma compensate_loop_undoes:
  assumes "\<forall>st \<in> set steps. compensates c st"
  shows "k \<le> length steps \<Longrightarrow> compensate_loop c steps k w = (0, undo_all c (take k steps) w, Inr ())"
proof (induction k arbitrary: w)
  case 0
  then show ?case by (simp add: undo_all_def)
next
  case (Suc k)
  then have "compensates c (steps ! k)" and k: "k < length steps" using assms by auto
  then have "compensate_loop c steps (Suc k) w = compensate_loop c steps k (undo c (steps ! k) w)"
    by (auto simp: compensates_def undo_def split: option.split prod.split sum.split)
  then show ?case using Suc.IH k by (simp add: undo_all_def take_Suc_conv_app_nth)
qed

lemma compensate_undoes:
  assumes "\<forall>st \<in> set (wf_steps s). compensates c st" and "wf_completed s \<le> length (wf_steps s)"
  shows "compensate c s w =
    (s\<lparr>wf_completed := 0\<rparr>, undo_all c (take (wf_completed s) (wf_steps s)) w, Inr ())"
  using compensate_loop_undoes [OF assms] by (simp add: compensate_def)

text \<open>
  The outcome of a run of the loop after \<open>k\<close> steps have completed: all steps done, the deadline
  passed, a step failed, or a step threw.
\<close>

definition outcome :: "(nat \<Rightarrow> int) \<Rightarrow> CommandContext \<Rightarrow> 'w WorkflowStep list \<Rightarrow> nat \<Rightarrow> 'w \<Rightarrow>
    nat \<times> WorkflowState \<times> 'w \<times> WorkflowState Result res" where
  "outcome clock c steps k w =
     (if length steps \<le> k then (k, Succeeded, w, Inr (Inr Succeeded))
      else if context_expired (clock k) c
        then (0, Failed, undo_all c (take k steps) w, Inr (Inl deadline_exceeded))
      else case ws_execute (steps ! k) c w of
          (w', Inl e) \<Rightarrow> (k, Running, w', Inl e)
        | (w', Inr (Inl err)) \<Rightarrow> (0, Failed, undo_all c (take k steps) w', Inr (Inl err))
        | (w', Inr (Inr _)) \<Rightarrow> (Suc k, Running, w', Inr (Inr Running)))"

definition stops_at :: "(nat \<Rightarrow> int) \<Rightarrow> CommandContext \<Rightarrow> 'w WorkflowStep list \<Rightarrow> nat \<Rightarrow> 'w \<Rightarrow> bool" where
  "stops_at clock c steps k w \<longleftrightarrow> k = length steps \<or> (k < length steps \<and>
     (context_expired (clock k) c \<or> (\<forall>w' v. ws_execute (steps ! k) c w \<noteq> (w', Inr (Inr v)))))"

lemma start_loop_outcome:
  assumes "\<forall>st \<in> set (wf_steps s). compensates c st"
  shows "wf_steps s = prev @ rest \<Longrightarrow> wf_completed s = length prev \<Longrightarrow> wf_state s = Running \<Longrightarrow>
    performed c prev w0 = Some w \<Longrightarrow> \<forall>i < length prev. \<not> context_expired (clock i) c \<Longrightarrow>
    \<exists>k w1. k \<le> length (wf_steps s) \<and> performed c (take k (wf_steps s)) w0 = Some w1 \<and>
      (\<forall>i < k. \<not> context_expired (clock i) c) \<and> stops_at clock c (wf_steps s) k w1 \<and>
      (case outcome clock c (wf_steps s) k w1 of (n, st, w', r) \<Rightarrow>
         start_loop clock c rest s w = (s\<lparr>wf_completed := n, wf_state := st\<rparr>, w', r))"
  using assms
proof (induction rest arbitrary: prev s w)
  case Nil
  then show ?case
    by (intro exI [of _ "length prev"] exI [of _ w])
       (simp add: outcome_def stops_at_def Result_success_def)
next
  case (Cons st rest)
  let ?k = "length prev"
  have at: "wf_steps s ! ?k = st" "take ?k (wf_steps s) = prev" "?k < length (wf_steps s)"
    using Cons.prems(1) by simp_all
  show ?case
  proof (cases "\<not> context_expired (clock ?k) c \<and> (\<exists>w' v. ws_execute st c w = (w', Inr (Inr v)))")
    case False
    then have stop: "stops_at clock c (wf_steps s) ?k w" using at by (auto simp: stops_at_def)
    have "case outcome clock c (wf_steps s) ?k w of (n, x, w', r) \<Rightarrow>
         start_loop clock c (st # rest) s w = (s\<lparr>wf_completed := n, wf_state := x\<rparr>, w', r)"
      using False at Cons.prems(2,3,6)
      by (auto simp: outcome_def failAndCompensate_def compensate_undoes Result_failure_def
          split: prod.split sum.split)
    with stop at Cons.prems(4,5) show ?thesis
      by (intro exI [of _ ?k] exI [of _ w]) simp
  next
    case True
    then obtain w' v where e: "ws_execute st c w = (w', Inr (Inr v))" by blast
    let ?s = "s\<lparr>wf_completed := wf_completed s + 1\<rparr>"
    have "performed c (prev @ [st]) w0 = Some w'" using Cons.prems(4) e by (simp add: performed_snoc)
    moreover have "\<forall>i < length (prev @ [st]). \<not> context_expired (clock i) c"
      using Cons.prems(5) True by (simp add: less_Suc_eq)
    ultimately have "\<exists>k w1. k \<le> length (wf_steps ?s) \<and> performed c (take k (wf_steps ?s)) w0 = Some w1 \<and>
        (\<forall>i < k. \<not> context_expired (clock i) c) \<and> stops_at clock c (wf_steps ?s) k w1 \<and>
        (case outcome clock c (wf_steps ?s) k w1 of (n, x, u, r) \<Rightarrow>
           start_loop clock c rest ?s w' = (?s\<lparr>wf_completed := n, wf_state := x\<rparr>, u, r))"
      using Cons.prems by (intro Cons.IH [of ?s "prev @ [st]"]) simp_all
    moreover have "start_loop clock c (st # rest) s w = start_loop clock c rest ?s w'"
      using True e Cons.prems(2) by simp
    ultimately show ?thesis by simp
  qed
qed

text \<open>Two sample steps over a counter: one that adds and can be undone, one that fails.\<close>

definition add_step :: "int \<Rightarrow> int WorkflowStep" where
  "add_step n = \<lparr>ws_id = ''add'', ws_execute = (\<lambda>_ w. (w + n, Inr (Inr Running))),
     ws_compensate = Some (\<lambda>_ w. (w - n, Inr ()))\<rparr>"

definition failing_step :: "int WorkflowStep" where
  "failing_step = \<lparr>ws_id = ''fail'', ws_execute = (\<lambda>_ w. (w, Inr (Inl deadline_exceeded))),
     ws_compensate = None\<rparr>"

definition sample :: "int SequentialWorkflow" where
  "sample = SequentialWorkflow_new [add_step 3, add_step 4, failing_step]"

definition no_deadline :: CommandContext where
  "no_deadline = \<lparr>cc_requestId = [], cc_traceId = [], cc_deviceId = [], cc_deadline = 0\<rparr>"

lemma sample_steps: "wf_steps sample = [add_step 3, add_step 4, failing_step]"
  by (simp add: sample_def SequentialWorkflow_new_def)

lemma sample_compensates: "compensates c (add_step n)" "compensates c failing_step"
  by (simp_all add: compensates_def add_step_def failing_step_def)

text \<open>
  C11: \<open>SequentialWorkflow::start\<close>, when no compensation throws, executes the steps in order up to a
  step \<open>k\<close>: the last one, or the first before which the deadline has passed, which reports a failure,
  or which throws. In the first case the workflow has succeeded with all steps completed. When the
  deadline passed or the step failed, the error is returned, the workflow has failed, and the
  compensations of exactly the steps before \<open>k\<close> have run, last step first. When the step threw,
  nothing is compensated and the workflow still counts as running with \<open>k\<close> completed steps.
\<close>

theorem workflow_start_outcome:
  assumes "\<forall>st \<in> set (wf_steps s). compensates c st"
  shows "\<exists>k w1. k \<le> length (wf_steps s) \<and> performed c (take k (wf_steps s)) w = Some w1 \<and>
    (\<forall>i < k. \<not> context_expired (clock i) c) \<and> stops_at clock c (wf_steps s) k w1 \<and>
    (case outcome clock c (wf_steps s) k w1 of (n, st, w', r) \<Rightarrow>
       wf_start clock c s w = (s\<lparr>wf_completed := n, wf_state := st\<rparr>, w', r))"
  using start_loop_outcome [of "s\<lparr>wf_state := Running, wf_completed := 0\<rparr>" c "[]" "wf_steps s" w w clock] assms
  by (simp add: wf_start_def case_prod_beta)

theorem workflow_start_outcome_witness:
  "wf_start (\<lambda>_. 0) no_deadline sample 10 = (sample\<lparr>wf_state := Failed\<rparr>, 10, Inr (Inl deadline_exceeded)) \<and>
   (\<exists>k w1. k \<le> length (wf_steps sample) \<and> performed no_deadline (take k (wf_steps sample)) 10 = Some w1 \<and>
      stops_at (\<lambda>_. 0) no_deadline (wf_steps sample) k w1)"
proof
  show "wf_start (\<lambda>_. 0) no_deadline sample 10 = (sample\<lparr>wf_state := Failed\<rparr>, 10, Inr (Inl deadline_exceeded))"
    by (simp add: wf_start_def sample_def SequentialWorkflow_new_def context_expired_def no_deadline_def
        add_step_def failing_step_def failAndCompensate_def compensate_def Result_failure_def)
  show "\<exists>k w1. k \<le> length (wf_steps sample) \<and> performed no_deadline (take k (wf_steps sample)) 10 = Some w1 \<and>
      stops_at (\<lambda>_. 0) no_deadline (wf_steps sample) k w1"
  proof -
    have "\<forall>st \<in> set (wf_steps sample). compensates no_deadline st"
      by (simp add: sample_steps sample_compensates)
    from workflow_start_outcome [OF this, of 10 "\<lambda>_. 0"] show ?thesis by blast
  qed
qed

section \<open>Atomicity\<close>

text \<open>
  A step is undoable when its compensation restores what its successful execution changed, a failed
  or throwing execution changes nothing, and the compensation does not throw.
\<close>

definition undoable :: "CommandContext \<Rightarrow> 'w WorkflowStep \<Rightarrow> bool" where
  "undoable c st \<longleftrightarrow> compensates c st \<and> (\<forall>w. case ws_execute st c w of
      (w', Inr (Inr _)) \<Rightarrow> undo c st w' = w
    | (w', _) \<Rightarrow> w' = w)"

lemma undo_performed:
  "\<forall>st \<in> set xs. undoable c st \<Longrightarrow> performed c xs w = Some w1 \<Longrightarrow> undo_all c xs w1 = w"
proof (induction xs arbitrary: w)
  case Nil
  then show ?case by (simp add: undo_all_def)
next
  case (Cons st xs)
  then obtain w' v where e: "ws_execute st c w = (w', Inr (Inr v))" and r: "performed c xs w' = Some w1"
    by (auto split: prod.splits sum.splits)
  have "undo c st w' = w"
    using Cons.prems(1) e by (auto simp: undoable_def dest!: spec [of _ w])
  then show ?case using Cons.IH [OF _ r] Cons.prems(1) by (simp add: undo_all_def)
qed

lemma wf_cancel_undoes:
  assumes "\<forall>st \<in> set (wf_steps s). undoable c st" and "wf_completed s \<le> length (wf_steps s)"
    and "performed c (take (wf_completed s) (wf_steps s)) w = Some w1"
  shows "wf_cancel c s w1 = (s\<lparr>wf_completed := 0, wf_state := Cancelled\<rparr>, w, Inr (Inr Cancelled))"
proof -
  have "undo_all c (take (wf_completed s) (wf_steps s)) w1 = w"
    using assms by (intro undo_performed) (auto dest: in_set_takeD)
  then show ?thesis
    using compensate_undoes [of s c w1] assms(1,2) by (simp add: wf_cancel_def undoable_def Result_success_def)
qed

text \<open>
  C6: A workflow of undoable steps is atomic. If \<open>start\<close> returns an error the world is as it was
  before, and a \<open>cancel\<close> after \<open>start\<close> brings the world back to what it was whatever the outcome of
  the start, a step that threw included; a second \<open>cancel\<close> changes nothing.
\<close>

theorem workflow_atomic:
  assumes "\<forall>st \<in> set (wf_steps s). undoable c st"
    and "wf_start clock c s w = (s1, w1, r1)" and "wf_cancel c s1 w1 = (s2, w2, r2)"
  shows "(\<forall>err. r1 = Inr (Inl err) \<longrightarrow> w1 = w \<and> wf_state s1 = Failed) \<and>
    w2 = w \<and> r2 = Inr (Inr Cancelled) \<and> wf_cancel c s2 w2 = (s2, w2, r2)"
proof -
  let ?S = "wf_steps s"
  have comp: "\<forall>st \<in> set ?S. compensates c st" using assms(1) by (simp add: undoable_def)
  obtain k u where k: "k \<le> length ?S" "performed c (take k ?S) w = Some u" "stops_at clock c ?S k u"
    and res: "case outcome clock c ?S k u of (n, st, w', r) \<Rightarrow>
       wf_start clock c s w = (s\<lparr>wf_completed := n, wf_state := st\<rparr>, w', r)"
    using start_loop_outcome [of "s\<lparr>wf_state := Running, wf_completed := 0\<rparr>" c "[]" "wf_steps s" w w clock] comp
    by (auto simp: wf_start_def)
  have restored: "undo_all c (take k ?S) u = w"
    using assms(1) k(2) by (intro undo_performed) (auto dest: in_set_takeD)
  have same: "w' = u" if "k < length ?S" "ws_execute (?S ! k) c u = (w', Inl e) \<or>
      ws_execute (?S ! k) c u = (w', Inr (Inl err))" for w' e err
    using that assms(1) by (auto simp: undoable_def dest!: bspec [OF _ nth_mem] spec [of _ u])
  have "(\<forall>err. r1 = Inr (Inl err) \<longrightarrow> w1 = w \<and> wf_state s1 = Failed) \<and> wf_steps s1 = ?S \<and>
      wf_completed s1 \<le> length ?S \<and> performed c (take (wf_completed s1) ?S) w = Some w1"
    using res k restored same assms(2)
    by (auto simp: outcome_def stops_at_def split: if_splits prod.splits sum.splits)
  moreover from this have "wf_cancel c s1 w1 =
      (s1\<lparr>wf_completed := 0, wf_state := Cancelled\<rparr>, w, Inr (Inr Cancelled))"
    using assms(1) by (intro wf_cancel_undoes) simp_all
  moreover have "wf_cancel c (s1\<lparr>wf_completed := 0, wf_state := Cancelled\<rparr>) w =
      (s1\<lparr>wf_completed := 0, wf_state := Cancelled\<rparr>, w, Inr (Inr Cancelled))"
    by (simp add: wf_cancel_def compensate_def Result_success_def)
  ultimately show ?thesis using assms(3) by auto
qed

theorem workflow_atomic_witness:
  "fst (snd (wf_start (\<lambda>_. 0) no_deadline sample 10)) = 10"
proof -
  have u: "\<forall>st \<in> set (wf_steps sample). undoable no_deadline st"
    by (simp add: sample_steps undoable_def sample_compensates)
       (simp add: add_step_def failing_step_def undo_def)
  obtain s1 w1 r1 where start: "wf_start (\<lambda>_. 0) no_deadline sample 10 = (s1, w1, r1)"
    by (metis prod.exhaust)
  obtain s2 w2 r2 where cancel: "wf_cancel no_deadline s1 w1 = (s2, w2, r2)"
    by (metis prod.exhaust)
  have "snd (snd (wf_start (\<lambda>_. 0) no_deadline sample 10)) = Inr (Inl deadline_exceeded)"
    by (simp add: wf_start_def sample_def SequentialWorkflow_new_def context_expired_def no_deadline_def
        add_step_def failing_step_def failAndCompensate_def compensate_def Result_failure_def)
  then show ?thesis using workflow_atomic [OF u start cancel] start by simp
qed

end
