(* ===== verification/Protocol_IO.thy ===== *)
theory Protocol_IO
  imports Prelude
begin

text \<open>
  What the protocol clients share: bytes, big-endian 16-bit fields, and operations that act on a
  state, may throw and keep the state they reached when they do.
\<close>

unbundle bit_operations_syntax

type_synonym byte = "8 word"
type_synonym ('s, 'a) io = "'s \<Rightarrow> 's \<times> 'a res"

definition ibind :: "('s, 'a) io \<Rightarrow> ('a \<Rightarrow> ('s, 'b) io) \<Rightarrow> ('s, 'b) io" where
  "ibind m f s = (case m s of (s', Inl e) \<Rightarrow> (s', Inl e) | (s', Inr x) \<Rightarrow> f x s')"

definition ireturn :: "'a \<Rightarrow> ('s, 'a) io" where
  "ireturn x s = (s, Inr x)"

definition ithrow :: "exc \<Rightarrow> ('s, 'a) io" where
  "ithrow e s = (s, Inl e)"

lemma ibind_cases:
  "ibind m f s = (t, r) \<longleftrightarrow>
     (\<exists>e. m s = (t, Inl e) \<and> r = Inl e) \<or> (\<exists>x u. m s = (u, Inr x) \<and> f x u = (t, r))"
  by (auto simp: ibind_def split: prod.split sum.split)

lemma ibind_ok: "m s = (u, Inr x) \<Longrightarrow> ibind m f s = f x u"
  by (simp add: ibind_def)

lemma ireturn_app [simp]: "ireturn x s = (s, Inr x)"
  by (simp add: ireturn_def)

lemma ithrow_app [simp]: "ithrow e s = (s, Inl e)"
  by (simp add: ithrow_def)

text \<open>A 16-bit value as two bytes, high byte first.\<close>

definition hi8 :: "16 word \<Rightarrow> byte" where
  "hi8 v = ucast (drop_bit 8 v)"

definition lo8 :: "16 word \<Rightarrow> byte" where
  "lo8 v = ucast v"

definition join16 :: "byte \<Rightarrow> byte \<Rightarrow> 16 word" where
  "join16 h l = push_bit 8 (ucast h) OR ucast l"

lemma join16_split [simp]: "join16 (hi8 v) (lo8 v) = v"
  by (rule bit_word_eqI)
     (auto simp: join16_def hi8_def lo8_def bit_simps dest: bit_imp_le_length)

lemma unat_byte: "unat (b :: byte) < 256"
proof -
  have "unat b < 2 ^ LENGTH(8)" by (rule unsigned_less)
  then show ?thesis by simp
qed

lemma unat_ucast_byte [simp]: "unat (ucast (b :: byte) :: 16 word) = unat b"
proof -
  have "unat b < 2 ^ 16" using unat_byte [of b] by simp
  then show ?thesis by (simp add: unsigned_ucast_eq take_bit_nat_eq_self)
qed

lemma unat_join16: "unat (join16 h l) = unat h * 256 + unat l"
proof -
  have "(push_bit 8 (ucast h) :: 16 word) AND ucast l = 0"
    by (rule bit_word_eqI) (auto simp: bit_simps dest: bit_imp_le_length)
  then have "join16 h l = push_bit 8 (ucast h) + ucast l"
    by (simp add: join16_def disjunctive_add_eq_or)
  moreover have "unat (push_bit 8 (ucast h) :: 16 word) = unat h * 256"
    using unat_byte [of h] by (simp add: push_bit_eq_mult unat_word_ariths)
  ultimately show ?thesis
    using unat_byte [of h] unat_byte [of l] by (simp add: unat_word_ariths)
qed

end
