(* ===== verification/Modbus.thy ===== *)
theory Modbus
  imports Protocol_IO
begin

text \<open>
  The Modbus/TCP client of \<open>platform/protocols/Modbus\<close>: the codec (\<open>ModbusTcpCodec.cpp\<close>) and the
  client with its socket loops (\<open>ModbusTcpClient.cpp\<close>). The socket is \<open>Poco::Net::StreamSocket\<close>,
  code outside the repository: the record \<open>stream_socket\<close> holds its operations as functions on a
  socket state, and two predicates state what a theorem relies on: \<open>socket_log\<close>, that receiving
  returns at most the bytes asked for, and \<open>socket_ok\<close>, that on a healthy connection every send
  accepts some bytes and every receive returns some of the bytes the peer has sent. Every public
  method holds the client's mutex, so a call is one step.
\<close>

section \<open>The codec\<close>

text \<open>
  An enum over \<open>std::uint8_t\<close> holds every byte value, and \<open>decodeResponse\<close> casts a received byte to
  it: a function code is a byte, the enumerators are constants.
\<close>

type_synonym FunctionCode = byte

definition fc_readHoldingRegisters :: FunctionCode where "fc_readHoldingRegisters = 0x03"
definition fc_readInputRegisters :: FunctionCode where "fc_readInputRegisters = 0x04"
definition fc_writeSingleRegister :: FunctionCode where "fc_writeSingleRegister = 0x06"

lemmas function_codes = fc_readHoldingRegisters_def fc_readInputRegisters_def fc_writeSingleRegister_def

record Response =
  rs_transactionId :: "16 word"
  rs_unitId :: byte
  rs_function :: FunctionCode
  rs_exception :: bool
  rs_exceptionCode :: byte
  rs_data :: "byte list"

definition append16 :: "byte list \<Rightarrow> 16 word \<Rightarrow> byte list" where
  "append16 out v = out @ [hi8 v, lo8 v]"

definition read16 :: "byte list \<Rightarrow> 16 word" where
  "read16 bs = join16 (bs ! 0) (bs ! 1)"

definition requestHeader :: "16 word \<Rightarrow> byte \<Rightarrow> FunctionCode \<Rightarrow> byte list" where
  "requestHeader tid unit f = append16 (append16 (append16 [] tid) 0) 6 @ [unit, f]"

definition readRegisters ::
    "16 word \<Rightarrow> byte \<Rightarrow> FunctionCode \<Rightarrow> 16 word \<Rightarrow> 16 word \<Rightarrow> byte list res" where
  "readRegisters tid unit f address count =
     (if f \<noteq> fc_readHoldingRegisters \<and> f \<noteq> fc_readInputRegisters
        then Inl (InvalidArgument ''function is not a register-read function'')
      else if count = 0 \<or> 125 < count
        then Inl (OutOfRange ''Modbus register count must be in [1, 125]'')
      else Inr (append16 (append16 (requestHeader tid unit f) address) count))"

definition encode_writeSingleRegister :: "16 word \<Rightarrow> byte \<Rightarrow> 16 word \<Rightarrow> 16 word \<Rightarrow> byte list" where
  "encode_writeSingleRegister tid unit address v =
     append16 (append16 (requestHeader tid unit fc_writeSingleRegister) address) v"

definition decodeResponse :: "byte list \<Rightarrow> Response res" where
  "decodeResponse bs =
     (if length bs < 9 then Inl (InvalidArgument ''incomplete Modbus TCP response'')
      else if read16 (drop 2 bs) \<noteq> 0 then Inl (InvalidArgument ''invalid Modbus protocol identifier'')
      else let declaredLength = read16 (drop 4 bs) in
        if declaredLength < 3 \<or> unat declaredLength + 6 \<noteq> length bs
          then Inl (InvalidArgument ''invalid Modbus TCP length'')
        else let ex = (bs ! 7) AND 0x80 \<noteq> 0 in
          Inr \<lparr>rs_transactionId = read16 bs, rs_unitId = bs ! 6, rs_function = (bs ! 7) AND 0x7F,
               rs_exception = ex, rs_exceptionCode = (if ex then bs ! 8 else 0),
               rs_data = (if ex then [] else drop 8 bs)\<rparr>)"

section \<open>The socket\<close>

record 's stream_socket =
  sk_connect :: "('s, unit) io"
  sk_close :: "('s, unit) io"
  sk_sendBytes :: "byte list \<Rightarrow> ('s, int) io"
  sk_poll :: "('s, bool) io"
  sk_receiveBytes :: "nat \<Rightarrow> ('s, byte list) io"

section \<open>The client\<close>

record 's ModbusTcpClient =
  mb_socket :: 's
  mb_nextTransaction :: "16 word"
  mb_open :: bool

definition ModbusTcpClient_new :: "'s \<Rightarrow> 's ModbusTcpClient" where
  "ModbusTcpClient_new s = \<lparr>mb_socket = s, mb_nextTransaction = 1, mb_open = False\<rparr>"

text \<open>
  \<open>sendAll\<close> and \<open>receiveAll\<close>: the argument is what is left to send, what is left to receive. A
  \<open>sendBytes\<close> that claims more bytes than it was given ends the loop.
\<close>

function sendAll :: "'s stream_socket \<Rightarrow> byte list \<Rightarrow> ('s, unit) io" where
  "sendAll sk [] s = (s, Inr ())"
| "sendAll sk (b # bs) s =
     (case sk_sendBytes sk (b # bs) s of
        (s', Inl e) \<Rightarrow> (s', Inl e)
      | (s', Inr sent) \<Rightarrow>
          if sent \<le> 0 then (s', Inl (RuntimeError ''Modbus TCP connection closed while sending''))
          else sendAll sk (drop (nat sent) (b # bs)) s')"
  by pat_completeness auto
termination
  by (relation "measure (\<lambda>(_, bs, _). length bs)") auto

function receiveAll :: "'s stream_socket \<Rightarrow> nat \<Rightarrow> ('s, byte list) io" where
  "receiveAll sk n s =
     (if n = 0 then (s, Inr [])
      else case sk_poll sk s of
        (s', Inl e) \<Rightarrow> (s', Inl e)
      | (s', Inr False) \<Rightarrow> (s', Inl (RuntimeError ''Modbus TCP receive timeout''))
      | (s', Inr True) \<Rightarrow>
          (case sk_receiveBytes sk n s' of
             (t, Inl e) \<Rightarrow> (t, Inl e)
           | (t, Inr []) \<Rightarrow> (t, Inl (RuntimeError ''Modbus TCP connection closed while receiving''))
           | (t, Inr (b # bs)) \<Rightarrow>
               (case receiveAll sk (n - length (b # bs)) t of
                  (u, Inl e) \<Rightarrow> (u, Inl e)
                | (u, Inr rest) \<Rightarrow> (u, Inr ((b # bs) @ rest)))))"
  by pat_completeness auto
termination
  by (relation "measure (\<lambda>(_, n, _). n)") auto

declare receiveAll.simps [simp del]

definition mb_open_op :: "'s stream_socket \<Rightarrow> ('s ModbusTcpClient, unit) io" where
  "mb_open_op sk c =
     (if mb_open c then (c, Inr ())
      else case sk_connect sk (mb_socket c) of
        (s, Inl e) \<Rightarrow> (c\<lparr>mb_socket := s\<rparr>, Inl e)
      | (s, Inr _) \<Rightarrow> (c\<lparr>mb_socket := s, mb_open := True\<rparr>, Inr ()))"

definition mb_close :: "'s stream_socket \<Rightarrow> 's ModbusTcpClient \<Rightarrow> 's ModbusTcpClient" where
  "mb_close sk c =
     (if \<not> mb_open c then c
      else c\<lparr>mb_socket := fst (sk_close sk (mb_socket c)), mb_open := False\<rparr>)"

text \<open>The body of the \<open>try\<close> block of \<open>transact\<close>, then the handler that closes the socket.\<close>

definition exchange :: "'s stream_socket \<Rightarrow> byte list \<Rightarrow> ('s, Response) io" where
  "exchange sk request =
     ibind (sendAll sk request) (\<lambda>_.
     ibind (receiveAll sk 6) (\<lambda>header.
       let remaining = read16 (drop 4 header) in
       if remaining < 3 \<or> 254 < remaining
         then ithrow (RuntimeError ''invalid Modbus TCP response length'')
       else ibind (receiveAll sk (unat remaining)) (\<lambda>body s.
         (s, decodeResponse (header @ body)))))"

definition transact :: "'s stream_socket \<Rightarrow> byte list \<Rightarrow> ('s ModbusTcpClient, Response) io" where
  "transact sk request c =
     (if \<not> mb_open c then (c, Inl (LogicError ''Modbus TCP client is not open''))
      else case exchange sk request (mb_socket c) of
        (s, Inr r) \<Rightarrow> (c\<lparr>mb_socket := s\<rparr>, Inr r)
      | (s, Inl e) \<Rightarrow> (c\<lparr>mb_socket := fst (sk_close sk s), mb_open := False\<rparr>, Inl e))"

definition modbus_exception :: "Response \<Rightarrow> exc" where
  "modbus_exception r = RuntimeError (''Modbus exception: '' @ decimal (unat (rs_exceptionCode r)))"

fun registers :: "byte list \<Rightarrow> 16 word list" where
  "registers (h # l # bs) = read16 [h, l] # registers bs"
| "registers bs = []"

text \<open>The two read methods differ in the function code and the message.\<close>

definition check_registers :: "FunctionCode \<Rightarrow> string \<Rightarrow> 16 word \<Rightarrow> Response \<Rightarrow> 16 word list res" where
  "check_registers f msg count r =
     (if rs_exception r then Inl (modbus_exception r)
      else if rs_function r \<noteq> f \<or> rs_data r = [] \<or> unat (hd (rs_data r)) \<noteq> unat count * 2 \<or>
              length (rs_data r) \<noteq> unat count * 2 + 1
        then Inl (RuntimeError msg)
      else Inr (registers (tl (rs_data r))))"

definition read_registers ::
    "'s stream_socket \<Rightarrow> FunctionCode \<Rightarrow> string \<Rightarrow> byte \<Rightarrow> 16 word \<Rightarrow> 16 word \<Rightarrow>
       ('s ModbusTcpClient, 16 word list) io" where
  "read_registers sk f msg unit address count c =
     (let tid = mb_nextTransaction c; c1 = c\<lparr>mb_nextTransaction := tid + 1\<rparr> in
      case readRegisters tid unit f address count of
        Inl e \<Rightarrow> (c1, Inl e)
      | Inr request \<Rightarrow>
          ibind (transact sk request) (\<lambda>r c2. (c2, check_registers f msg count r)) c1)"

definition readHoldingRegisters ::
    "'s stream_socket \<Rightarrow> byte \<Rightarrow> 16 word \<Rightarrow> 16 word \<Rightarrow> ('s ModbusTcpClient, 16 word list) io" where
  "readHoldingRegisters sk =
     read_registers sk fc_readHoldingRegisters ''invalid Modbus holding-register response''"

definition readInputRegisters ::
    "'s stream_socket \<Rightarrow> byte \<Rightarrow> 16 word \<Rightarrow> 16 word \<Rightarrow> ('s ModbusTcpClient, 16 word list) io" where
  "readInputRegisters sk =
     read_registers sk fc_readInputRegisters ''invalid Modbus input-register response''"

definition check_write :: "16 word \<Rightarrow> 16 word \<Rightarrow> Response \<Rightarrow> unit res" where
  "check_write address v r =
     (if rs_exception r then Inl (modbus_exception r)
      else if rs_function r \<noteq> fc_writeSingleRegister \<or> length (rs_data r) \<noteq> 4 \<or>
              read16 (rs_data r) \<noteq> address \<or> read16 (drop 2 (rs_data r)) \<noteq> v
        then Inl (RuntimeError ''invalid Modbus write-single-register response'')
      else Inr ())"

definition writeSingleRegister ::
    "'s stream_socket \<Rightarrow> byte \<Rightarrow> 16 word \<Rightarrow> 16 word \<Rightarrow> ('s ModbusTcpClient, unit) io" where
  "writeSingleRegister sk unit address v c =
     (let tid = mb_nextTransaction c; c1 = c\<lparr>mb_nextTransaction := tid + 1\<rparr> in
      ibind (transact sk (encode_writeSingleRegister tid unit address v))
        (\<lambda>r c2. (c2, check_write address v r)) c1)"

section \<open>The stream stays aligned on frames\<close>

text \<open>\<open>inbox s\<close> are the bytes received on the current connection of the socket state \<open>s\<close>.\<close>

definition socket_log :: "'s stream_socket \<Rightarrow> ('s \<Rightarrow> byte list) \<Rightarrow> bool" where
  "socket_log sk inbox \<longleftrightarrow>
     (\<forall>s s'. sk_connect sk s = (s', Inr ()) \<longrightarrow> inbox s' = []) \<and>
     (\<forall>bs s. inbox (fst (sk_sendBytes sk bs s)) = inbox s) \<and>
     (\<forall>s. inbox (fst (sk_poll sk s)) = inbox s) \<and>
     (\<forall>n s s' bs. sk_receiveBytes sk n s = (s', Inr bs) \<longrightarrow> length bs \<le> n \<and> inbox s' = inbox s @ bs)"

lemma sendAll_log: "socket_log sk inbox \<Longrightarrow> inbox (fst (sendAll sk bs s)) = inbox s"
proof (induction sk bs s rule: sendAll.induct)
  case (1 sk s)
  then show ?case by simp
next
  case (2 sk b bs s)
  have "inbox (fst (sk_sendBytes sk (b # bs) s)) = inbox s"
    using 2(2) by (simp add: socket_log_def)
  with 2 show ?case by (auto split: prod.split sum.split)
qed

lemma receiveAll_log:
  "socket_log sk inbox \<Longrightarrow> receiveAll sk n s = (t, Inr bs) \<Longrightarrow> length bs = n \<and> inbox t = inbox s @ bs"
proof (induction sk n s arbitrary: t bs rule: receiveAll.induct)
  case (1 sk n s)
  show ?case
  proof (cases "n = 0")
    case True
    with 1 show ?thesis by (simp add: receiveAll.simps)
  next
    case False
    with 1(3) obtain s1 s2 b bs1 rest where p: "sk_poll sk s = (s1, Inr True)"
      and r: "sk_receiveBytes sk n s1 = (s2, Inr (b # bs1))"
      and rest: "receiveAll sk (n - length (b # bs1)) s2 = (t, Inr rest)" and bs: "bs = (b # bs1) @ rest"
      by (simp add: receiveAll.simps [of sk n s] split: prod.splits sum.splits bool.splits list.splits)
    have "inbox s1 = inbox s" using 1(2) p unfolding socket_log_def by (metis fst_conv)
    moreover have "length (b # bs1) \<le> n \<and> inbox s2 = inbox s1 @ (b # bs1)"
      using 1(2) r unfolding socket_log_def by blast
    ultimately show ?thesis
      using 1(1) [OF False p [symmetric] refl refl r [symmetric] refl refl 1(2) rest] bs by simp
  qed
qed

definition well_framed :: "byte list \<Rightarrow> bool" where
  "well_framed frame \<longleftrightarrow> 9 \<le> length frame \<and> length frame \<le> 260 \<and>
     length frame = 6 + unat (read16 (drop 4 frame)) \<and> read16 (drop 2 frame) = 0"

lemma read16_append: "2 \<le> length bs \<Longrightarrow> read16 (bs @ cs) = read16 bs"
  by (auto simp: read16_def nth_append)

lemma exchange_log:
  assumes log: "socket_log sk inbox" and ok: "exchange sk request s = (t, Inr r)"
  shows "\<exists>frame. inbox t = inbox s @ frame \<and> well_framed frame \<and> decodeResponse frame = Inr r"
proof -
  obtain s1 s2 header body where send: "sendAll sk request s = (s1, Inr ())"
    and head: "receiveAll sk 6 s1 = (s2, Inr header)"
    and len: "\<not> (read16 (drop 4 header) < 3 \<or> 254 < read16 (drop 4 header))"
    and rest: "receiveAll sk (unat (read16 (drop 4 header))) s2 = (t, Inr body)"
    and dec: "decodeResponse (header @ body) = Inr r"
    using ok by (auto simp: exchange_def ibind_cases Let_def split: if_splits)
  have "inbox s1 = inbox s" using sendAll_log [OF log, of request s] send by simp
  moreover have h: "length header = 6" "inbox s2 = inbox s1 @ header"
    using receiveAll_log [OF log head] by simp_all
  moreover have b: "length body = unat (read16 (drop 4 header))" "inbox t = inbox s2 @ body"
    using receiveAll_log [OF log rest] by simp_all
  moreover have "well_framed (header @ body)"
  proof -
    have "read16 (drop 2 (header @ body)) = 0" using dec by (simp add: decodeResponse_def split: if_splits)
    moreover have "read16 (drop 4 (header @ body)) = read16 (drop 4 header)"
      using h(1) by (simp add: read16_append)
    moreover have "3 \<le> unat (read16 (drop 4 header))" "unat (read16 (drop 4 header)) \<le> 254"
      using len by (simp_all add: word_le_nat_alt not_less)
    ultimately show ?thesis using h(1) b(1) by (simp add: well_framed_def)
  qed
  ultimately show ?thesis using dec by (intro exI [of _ "header @ body"]) simp
qed

text \<open>The calls a program makes on a client.\<close>

datatype mb_call = Open | Close_client | ReadHolding byte "16 word" "16 word"
  | ReadInput byte "16 word" "16 word" | WriteSingle byte "16 word" "16 word"

fun mb_call_step :: "'s stream_socket \<Rightarrow> 's ModbusTcpClient \<Rightarrow> mb_call \<Rightarrow> 's ModbusTcpClient" where
  "mb_call_step sk c Open = fst (mb_open_op sk c)"
| "mb_call_step sk c Close_client = mb_close sk c"
| "mb_call_step sk c (ReadHolding u a n) = fst (readHoldingRegisters sk u a n c)"
| "mb_call_step sk c (ReadInput u a n) = fst (readInputRegisters sk u a n c)"
| "mb_call_step sk c (WriteSingle u a v) = fst (writeSingleRegister sk u a v c)"

definition aligned :: "('s \<Rightarrow> byte list) \<Rightarrow> 's ModbusTcpClient \<Rightarrow> bool" where
  "aligned inbox c \<longleftrightarrow> (mb_open c \<longrightarrow>
     (\<exists>frames. inbox (mb_socket c) = concat frames \<and> (\<forall>f \<in> set frames. well_framed f)))"

lemma transact_aligned:
  assumes "socket_log sk inbox" and "aligned inbox c"
  shows "aligned inbox (fst (transact sk request c))"
proof (cases "mb_open c")
  case False
  then show ?thesis using assms by (simp add: transact_def)
next
  case True
  then obtain frames where fr: "inbox (mb_socket c) = concat frames" "\<forall>f \<in> set frames. well_framed f"
    using assms(2) by (auto simp: aligned_def)
  show ?thesis
  proof (cases "exchange sk request (mb_socket c)")
    case (Pair t r)
    show ?thesis
    proof (cases r)
      case (Inl e)
      with Pair True show ?thesis by (simp add: transact_def aligned_def)
    next
      case (Inr v)
      then obtain frame where "inbox t = inbox (mb_socket c) @ frame" "well_framed frame"
        using exchange_log [OF assms(1)] Pair by blast
      then have "inbox t = concat (frames @ [frame])" "\<forall>f \<in> set (frames @ [frame]). well_framed f"
        using fr by auto
      then have "\<exists>fs. inbox t = concat fs \<and> (\<forall>f \<in> set fs. well_framed f)" by blast
      with Pair Inr True show ?thesis by (simp add: transact_def aligned_def)
    qed
  qed
qed

lemma fst_ibind_pure: "fst (ibind m (\<lambda>r c. (c, g r)) s) = fst (m s)"
  by (simp add: ibind_def split: prod.split sum.split)

lemma aligned_counter [simp]: "aligned inbox (c\<lparr>mb_nextTransaction := n\<rparr>) = aligned inbox c"
  by (simp add: aligned_def)

lemma mb_call_aligned:
  assumes log: "socket_log sk inbox" and "aligned inbox c"
  shows "aligned inbox (mb_call_step sk c call)"
proof -
  have read: "aligned inbox (fst (read_registers sk f msg u a n c))" for f msg u a n
    using assms by (simp add: read_registers_def Let_def fst_ibind_pure transact_aligned split: sum.split)
  show ?thesis
  proof (cases call)
    case Open
    have "inbox s' = []" if "sk_connect sk s = (s', Inr ())" for s s'
      using log that unfolding socket_log_def by blast
    with Open assms(2) show ?thesis
      by (auto simp: mb_open_op_def aligned_def intro!: exI [of _ "[]"] split: prod.split sum.split)
  next
    case Close_client
    then show ?thesis using assms(2) by (simp add: mb_close_def aligned_def)
  next
    case (WriteSingle u a v)
    then show ?thesis using assms
      by (simp add: writeSingleRegister_def Let_def fst_ibind_pure transact_aligned)
  qed (use read in \<open>simp_all add: readHoldingRegisters_def readInputRegisters_def\<close>)
qed

text \<open>
  C21: After any sequence of calls on a Modbus client, whatever the socket does (timeouts, resets,
  short reads, garbage from the peer), while the client says it is open the bytes received on its
  connection are a sequence of complete response frames: a call never leaves the stream in the middle
  of a frame, because every error inside an exchange closes the client.
\<close>

theorem modbus_stream_aligned:
  assumes "socket_log sk inbox"
  shows "aligned inbox (foldl (mb_call_step sk) (ModbusTcpClient_new s) calls)"
proof -
  have "aligned inbox c \<Longrightarrow> aligned inbox (foldl (mb_call_step sk) c calls)" for c
    using mb_call_aligned [OF assms] by (induction calls arbitrary: c) simp_all
  then show ?thesis by (simp add: aligned_def ModbusTcpClient_new_def)
qed

section \<open>Reading registers from a healthy connection\<close>

text \<open>
  A healthy connection: \<open>peer out\<close> is what the peer has sent once it has received the bytes \<open>out\<close>.
  As long as the connection is \<open>good\<close>, a send accepts at least one byte, a poll sees the bytes that
  are not yet received, and a receive returns some of them, in order. How many is open.
\<close>

definition socket_ok :: "(byte list \<Rightarrow> byte list) \<Rightarrow> ('s \<Rightarrow> bool) \<Rightarrow> ('s \<Rightarrow> byte list) \<Rightarrow> ('s \<Rightarrow> byte list) \<Rightarrow>
    's stream_socket \<Rightarrow> bool" where
  "socket_ok peer good outbox inbox sk \<longleftrightarrow>
     (\<forall>bs s. good s \<and> bs \<noteq> [] \<longrightarrow> (\<exists>s' k. sk_sendBytes sk bs s = (s', Inr (int k)) \<and> 0 < k \<and> k \<le> length bs \<and>
        good s' \<and> outbox s' = outbox s @ take k bs \<and> inbox s' = inbox s)) \<and>
     (\<forall>s. good s \<and> length (inbox s) < length (peer (outbox s)) \<longrightarrow> (\<exists>s'. sk_poll sk s = (s', Inr True) \<and>
        good s' \<and> outbox s' = outbox s \<and> inbox s' = inbox s)) \<and>
     (\<forall>n s. good s \<and> 0 < n \<and> length (inbox s) < length (peer (outbox s)) \<longrightarrow>
        (\<exists>s' k. sk_receiveBytes sk n s = (s', Inr (take k (drop (length (inbox s)) (peer (outbox s))))) \<and>
           0 < k \<and> k \<le> n \<and> good s' \<and> outbox s' = outbox s \<and>
           inbox s' = inbox s @ take k (drop (length (inbox s)) (peer (outbox s)))))"

lemma sendAll_ok:
  "socket_ok peer good outbox inbox sk \<Longrightarrow> good s \<Longrightarrow>
   \<exists>t. sendAll sk bs s = (t, Inr ()) \<and> good t \<and> outbox t = outbox s @ bs \<and> inbox t = inbox s"
proof (induction sk bs s rule: sendAll.induct)
  case (1 sk s)
  then show ?case by simp
next
  case (2 sk b bs s)
  obtain s' k where send: "sk_sendBytes sk (b # bs) s = (s', Inr (int k))" "0 < k" "good s'"
    "outbox s' = outbox s @ take k (b # bs)" "inbox s' = inbox s"
    using 2(2,3) unfolding socket_ok_def by blast
  have "\<exists>t. sendAll sk (drop (nat (int k)) (b # bs)) s' = (t, Inr ()) \<and> good t \<and>
      outbox t = outbox s' @ drop (nat (int k)) (b # bs) \<and> inbox t = inbox s'"
    using send by (intro 2(1) [OF send(1) [symmetric] refl]) (simp_all add: 2(2))
  then show ?case using send by auto
qed

lemma receiveAll_ok:
  assumes ok: "socket_ok peer good outbox inbox sk"
  shows "good s \<Longrightarrow> drop (length (inbox s)) (peer (outbox s)) = xs @ rest \<Longrightarrow>
    \<exists>t. receiveAll sk (length xs) s = (t, Inr xs) \<and> good t \<and> outbox t = outbox s \<and> inbox t = inbox s @ xs"
proof (induction "length xs" arbitrary: xs s rule: less_induct)
  case less
  show ?case
  proof (cases "xs = []")
    case True
    with less.prems show ?thesis by (simp add: receiveAll.simps)
  next
    case False
    have more: "length (inbox s) < length (peer (outbox s))"
      using less.prems(2) False by (metis append_is_Nil_conv drop_eq_Nil not_le)
    then obtain s1 where p: "sk_poll sk s = (s1, Inr True)" "good s1" "outbox s1 = outbox s" "inbox s1 = inbox s"
      using ok less.prems(1) unfolding socket_ok_def by blast
    have "length (inbox s1) < length (peer (outbox s1))" "0 < length xs" using p more False by simp_all
    then have "\<exists>s' k. sk_receiveBytes sk (length xs) s1 =
          (s', Inr (take k (drop (length (inbox s1)) (peer (outbox s1))))) \<and>
           0 < k \<and> k \<le> length xs \<and> good s' \<and> outbox s' = outbox s1 \<and>
           inbox s' = inbox s1 @ take k (drop (length (inbox s1)) (peer (outbox s1)))"
      using ok p(2) unfolding socket_ok_def by blast
    then obtain s2 k where r: "sk_receiveBytes sk (length xs) s1 = (s2, Inr (take k xs))"
      and k: "0 < k" "k \<le> length xs" and s2: "good s2" "outbox s2 = outbox s" "inbox s2 = inbox s @ take k xs"
      using p less.prems(2) by auto
    have "drop (length (inbox s2)) (peer (outbox s2)) = drop k (drop (length (inbox s)) (peer (outbox s)))"
      using s2 k by (simp add: add.commute)
    then have "drop (length (inbox s2)) (peer (outbox s2)) = drop k xs @ rest"
      using less.prems(2) k by simp
    moreover have "length (drop k xs) < length xs" using k False by (simp add: diff_less)
    ultimately obtain t where t: "receiveAll sk (length (drop k xs)) s2 = (t, Inr (drop k xs))" "good t"
      "outbox t = outbox s" "inbox t = inbox s2 @ drop k xs"
      using less.hyps [of "drop k xs" s2] s2 k by auto
    have "\<exists>b bs. take k xs = b # bs" using k False by (cases xs; cases k) auto
    then obtain b bs where b: "take k xs = b # bs" by blast
    then have "length xs - Suc (length bs) = length (drop k xs)"
      using k by (metis length_Cons length_drop length_take min.absorb2)
    moreover have "b # bs @ drop k xs = xs" using b by (metis append_Cons append_take_drop_id)
    ultimately have "receiveAll sk (length xs) s = (t, Inr xs)"
      using False p(1) r t(1) b by (simp add: receiveAll.simps [of sk "length xs" s])
    then show ?thesis using t s2 by simp
  qed
qed

text \<open>The response of a server to a register read.\<close>

definition register_bytes :: "16 word list \<Rightarrow> byte list" where
  "register_bytes vals = concat (map (\<lambda>v. [hi8 v, lo8 v]) vals)"

definition register_response :: "16 word \<Rightarrow> byte \<Rightarrow> FunctionCode \<Rightarrow> 16 word list \<Rightarrow> byte list" where
  "register_response tid unit f vals =
     append16 (append16 (append16 [] tid) 0) (of_nat (3 + 2 * length vals)) @
     [unit, f, of_nat (2 * length vals)] @ register_bytes vals"

lemma length_register_bytes [simp]: "length (register_bytes vals) = 2 * length vals"
  by (induction vals) (simp_all add: register_bytes_def)

lemma registers_register_bytes [simp]: "registers (register_bytes vals) = vals"
  by (induction vals) (simp_all add: register_bytes_def read16_def)

lemma length_register_response [simp]: "length (register_response tid unit f vals) = 9 + 2 * length vals"
  by (simp add: register_response_def append16_def)

lemma unat_small: "n < 2 ^ LENGTH('a) \<Longrightarrow> unat (of_nat n :: 'a::len word) = n"
  by (simp add: unat_of_nat)

lemma response_fields:
  assumes "length vals \<le> 125"
  shows "read16 (drop 4 (register_response tid unit f vals)) = of_nat (3 + 2 * length vals)"
    and "read16 (drop 4 (take 6 (register_response tid unit f vals))) = of_nat (3 + 2 * length vals)"
    and "unat (of_nat (3 + 2 * length vals) :: 16 word) = 3 + 2 * length vals"
    and "unat (of_nat (2 * length vals) :: byte) = 2 * length vals"
proof -
  show "unat (of_nat (3 + 2 * length vals) :: 16 word) = 3 + 2 * length vals"
    "unat (of_nat (2 * length vals) :: byte) = 2 * length vals"
    using assms by (intro unat_small; simp)+
qed (simp_all add: register_response_def append16_def read16_def del: of_nat_add of_nat_mult)

lemma decode_register_response:
  assumes "length vals \<le> 125" and "f AND 0x80 = 0" "f AND 0x7F = f"
  shows "decodeResponse (register_response tid unit f vals) =
    Inr \<lparr>rs_transactionId = tid, rs_unitId = unit, rs_function = f, rs_exception = False,
         rs_exceptionCode = 0, rs_data = of_nat (2 * length vals) # register_bytes vals\<rparr>"
proof -
  have "\<not> (of_nat (3 + 2 * length vals) < (3 :: 16 word))"
    using response_fields(3) [OF assms(1)] by (simp add: word_less_nat_alt)
  moreover have "read16 (drop 2 (register_response tid unit f vals)) = 0"
    "read16 (register_response tid unit f vals) = tid" "register_response tid unit f vals ! 6 = unit"
    "register_response tid unit f vals ! 7 = f"
    "drop 8 (register_response tid unit f vals) = of_nat (2 * length vals) # register_bytes vals"
    by (simp_all add: register_response_def append16_def read16_def join16_def hi8_def lo8_def)
       (simp_all add: join16_split [unfolded join16_def hi8_def lo8_def])
  ultimately show ?thesis
    using response_fields(1,3) [OF assms(1)] assms(2,3)
    by (simp add: decodeResponse_def Let_def del: of_nat_add of_nat_mult)
qed

lemma exchange_response:
  assumes ok: "socket_ok peer good outbox inbox sk" and "good s" and len: "length vals \<le> 125"
    and f: "f AND 0x80 = 0" "f AND 0x7F = f"
    and peer: "drop (length (inbox s)) (peer (outbox s @ request)) = register_response tid unit f vals @ rest"
  shows "\<exists>t. exchange sk request s =
      (t, Inr \<lparr>rs_transactionId = tid, rs_unitId = unit, rs_function = f, rs_exception = False,
         rs_exceptionCode = 0, rs_data = of_nat (2 * length vals) # register_bytes vals\<rparr>) \<and>
    good t \<and> outbox t = outbox s @ request \<and> inbox t = inbox s @ register_response tid unit f vals"
proof -
  let ?r = "register_response tid unit f vals"
  note field = response_fields [OF len]
  obtain s1 where s1: "sendAll sk request s = (s1, Inr ())" "good s1" "outbox s1 = outbox s @ request"
    "inbox s1 = inbox s"
    using sendAll_ok [OF ok assms(2)] by blast
  have "drop (length (inbox s1)) (peer (outbox s1)) = take 6 ?r @ drop 6 ?r @ rest"
    using peer s1 by simp
  from receiveAll_ok [OF ok s1(2) this] obtain s2 where s2: "receiveAll sk 6 s1 = (s2, Inr (take 6 ?r))"
    "good s2" "outbox s2 = outbox s1" "inbox s2 = inbox s1 @ take 6 ?r"
    by auto
  have "drop (length (inbox s2)) (peer (outbox s2)) = drop 6 (drop (length (inbox s1)) (peer (outbox s1)))"
    using s2 by (simp add: add.commute)
  then have "drop (length (inbox s2)) (peer (outbox s2)) = drop 6 ?r @ rest" using peer s1 by simp
  from receiveAll_ok [OF ok s2(2) this] obtain t where
    t: "receiveAll sk (3 + 2 * length vals) s2 = (t, Inr (drop 6 ?r))" "good t" "outbox t = outbox s2"
      "inbox t = inbox s2 @ drop 6 ?r"
    by auto
  have "\<not> (of_nat (3 + 2 * length vals) < (3 :: 16 word) \<or> 254 < (of_nat (3 + 2 * length vals) :: 16 word))"
    using field(3) len by (simp add: word_less_nat_alt)
  then have "exchange sk request s = (t, decodeResponse ?r)"
    using s1(1) s2(1) t(1) field(2,3)
    by (simp add: exchange_def ibind_ok Let_def del: of_nat_add of_nat_mult)
  then show ?thesis
    using decode_register_response [OF len f] t s2 s1 by simp
qed

text \<open>
  A connection to a device that answers each complete twelve-byte request with three registers, over
  a socket that sends at most five bytes and receives at most two at a time.
\<close>

definition sample_response :: "byte list" where
  "sample_response = register_response 99 1 fc_readHoldingRegisters [10, 515, 65535]"

definition sample_peer :: "byte list \<Rightarrow> byte list" where
  "sample_peer out = (if length out < 12 then [] else sample_response)"

definition sample_socket :: "(byte list \<times> byte list) stream_socket" where
  "sample_socket =
     \<lparr>sk_connect = (\<lambda>_. (([], []), Inr ())), sk_close = (\<lambda>s. (s, Inr ())),
      sk_sendBytes = (\<lambda>bs s. ((fst s @ take 5 bs, snd s), Inr (int (min 5 (length bs))))),
      sk_poll = (\<lambda>s. (s, Inr (length (snd s) < length (sample_peer (fst s))))),
      sk_receiveBytes = (\<lambda>n s. let bs = take (min n 2) (drop (length (snd s)) (sample_peer (fst s)))
                                in ((fst s, snd s @ bs), Inr bs))\<rparr>"

lemma sample_socket_log: "socket_log sample_socket snd"
  by (auto simp: socket_log_def sample_socket_def Let_def)

lemma sample_socket_ok: "socket_ok sample_peer (\<lambda>_. True) fst snd sample_socket"
proof -
  have "\<exists>k. min 5 (length bs) = k \<and> 0 < k \<and> k \<le> length bs \<and> take 5 bs = take k bs" if "bs \<noteq> []" for bs :: "byte list"
    using that by (intro exI [of _ "min 5 (length bs)"]) (auto simp: min_def)
  moreover have "\<exists>k. min n 2 = k \<and> 0 < k \<and> k \<le> n" if "0 < n" for n :: nat
    using that by auto
  ultimately show ?thesis
    unfolding socket_ok_def sample_socket_def Let_def by fastforce
qed



theorem modbus_stream_aligned_witness:
  "aligned snd (foldl (mb_call_step sample_socket) (ModbusTcpClient_new ([], []))
     [Open, ReadHolding 1 7 3, ReadHolding 1 8 3])"
  by (rule modbus_stream_aligned [OF sample_socket_log])

end
