(* ===== verification/Std_Parse.thy ===== *)
theory Std_Parse
  imports Prelude
begin

text \<open>
  Number parsing of the C++ standard library, shared by the components that read numbers from text:
  \<open>std::stoul\<close> and \<open>std::stoull\<close> with a base and the count of characters read, and \<open>std::getline\<close> with a
  delimiter.
\<close>

definition digit_value :: "char \<Rightarrow> nat" where
  "digit_value c = (let n = of_char c in
     if 48 \<le> n \<and> n \<le> 57 then n - 48 else if 97 \<le> n \<and> n \<le> 122 then n - 87
     else if 65 \<le> n \<and> n \<le> 90 then n - 55 else 36)"

definition split_sign :: "string \<Rightarrow> bool \<times> string" where
  "split_sign s = (case s of
      CHR ''-'' # rest \<Rightarrow> (True, rest)
    | CHR ''+'' # rest \<Rightarrow> (False, rest)
    | _ \<Rightarrow> (False, s))"

definition hex_prefix :: "string \<Rightarrow> bool" where
  "hex_prefix s = (case s of
      CHR ''0'' # x # d # _ \<Rightarrow> (x = CHR ''x'' \<or> x = CHR ''X'') \<and> digit_value d < 16
    | _ \<Rightarrow> False)"

text \<open>
  \<open>std::stoull(s, &parsed, base)\<close>: leading white space, a sign, the prefix that base 16 allows and base 0
  interprets, then as many digits as there are. A negative number is the two's complement. The second
  component is \<open>parsed\<close>. On the platforms of the repository \<open>unsigned long\<close> has 64 bits too.
\<close>

definition stoull :: "nat \<Rightarrow> string \<Rightarrow> (int \<times> nat) res" where
  "stoull base s =
     (case split_sign (dropWhile isspace s) of (negative, r) \<Rightarrow>
      let hex = (base = 16 \<or> base = 0) \<and> hex_prefix r;
          b = (if hex then 16 else if base = 0 then (if take 1 r = ''0'' then 8 else 10) else base);
          text_digits = (if hex then drop 2 r else r);
          ds = takeWhile (\<lambda>c. digit_value c < b) text_digits;
          v = foldl (\<lambda>n c. n * int b + int (digit_value c)) 0 ds
      in if ds = [] then Inl (InvalidArgument ''stoull'')
         else if 2 ^ 64 \<le> v then Inl (OutOfRange ''stoull'')
         else Inr (if negative then (2 ^ 64 - v) mod 2 ^ 64 else v,
                   length s - length text_digits + length ds))"

definition stoul :: "string \<Rightarrow> int res" where
  "stoul s = rbind (stoull 0 s) (\<lambda>(v, parsed). Inr v)"

fun comma_items :: "string \<Rightarrow> string \<Rightarrow> string list" where
  "comma_items acc [] = (if acc = [] then [] else [acc])"
| "comma_items acc (c # cs) =
     (if c = CHR '','' then acc # comma_items [] cs else comma_items (acc @ [c]) cs)"

lemma digits_nonneg [simp]: "0 \<le> n \<Longrightarrow> 0 \<le> b \<Longrightarrow> 0 \<le> foldl (\<lambda>n c. n * b + int (digit_value c)) n ds"
  by (induction ds arbitrary: n) simp_all

lemma stoull_bound:
  assumes "stoull base s = Inr (v, n)"
  shows "0 \<le> v \<and> v < 2 ^ 64"
  using assms by (auto simp: stoull_def Let_def split: prod.splits if_splits)

end
