(* ===== verification/ModbusDevice.thy ===== *)
theory ModbusDevice
  imports Modbus Reliability Std_Parse
begin

text \<open>
  The Modbus register device (\<open>platform/devices/Modbus/src/ModbusRegisterDevice.cpp\<close>) on top of the
  Modbus client: its state, diagnostics and failure record (\<open>platform/devices/Devices\<close>), the parsing of
  the operation's parameters, and the retry loop \<open>perform\<close>, which repeats reads after reconnecting and
  never repeats a write. The wall clock is a function of the number of the attempt, and the
  text of an exception (\<open>what()\<close>, which the socket library overrides for its own) is a parameter. The snapshots handed to the handler are a log. The pause between attempts is left out.
\<close>

section \<open>Devices\<close>

datatype DeviceState = Doffline | Dready | Dfault

definition DeviceState_toString :: "DeviceState \<Rightarrow> string" where
  "DeviceState_toString s = (case s of Doffline \<Rightarrow> ''offline'' | Dready \<Rightarrow> ''ready'' | Dfault \<Rightarrow> ''fault'')"

record DeviceDiagnostics =
  dd_successfulOperations :: "64 word"
  dd_failedOperations :: "64 word"
  dd_reconnectAttempts :: "64 word"
  dd_consecutiveFailures :: "64 word"
  dd_lastSuccessMicroseconds :: int
  dd_lastFailureMicroseconds :: int
  dd_lastError :: string

section \<open>Parameters\<close>

fun numbers_loop :: "string list \<Rightarrow> 16 word list \<Rightarrow> 16 word list res" where
  "numbers_loop [] acc = Inr acc"
| "numbers_loop (t # ts) acc =
     rbind (stoul t) (\<lambda>v.
       if 0xFFFF < v then Inl (OutOfRange ''Modbus value exceeds uint16'')
       else numbers_loop ts (acc @ [of_int v]))"

definition parseNumbers :: "string \<Rightarrow> nat \<Rightarrow> 16 word list res" where
  "parseNumbers payload expected =
     rbind (numbers_loop (comma_items [] payload) []) (\<lambda>vs.
       if length vs \<noteq> expected
         then Inl (InvalidArgument (''expected '' @ decimal expected @ '' comma-separated values''))
       else Inr vs)"

fun join :: "16 word list \<Rightarrow> string" where
  "join [] = []"
| "join [v] = decimal (unat v)"
| "join (v # vs) = decimal (unat v) @ '','' @ join vs"

section \<open>The device\<close>

record 's ModbusDevice =
  md_client :: "'s ModbusTcpClient"
  md_clientName :: string
  md_unitId :: byte
  md_readRetryAttempts :: "32 word"
  md_state :: DeviceState
  md_sequence :: "64 word"
  md_lastPayload :: string
  md_diagnostics :: DeviceDiagnostics
  md_failure :: Failure
  md_handler :: bool
  md_notified :: "(DeviceState \<times> 64 word \<times> string) list"

definition md_notify :: "'s ModbusDevice \<Rightarrow> 's ModbusDevice" where
  "md_notify d = (if md_handler d
     then d\<lparr>md_notified := md_notified d @ [(md_state d, md_sequence d, md_lastPayload d)]\<rparr> else d)"

definition resolveFailure :: "'s ModbusDevice \<Rightarrow> 's ModbusDevice" where
  "resolveFailure d = d\<lparr>md_diagnostics := (md_diagnostics d)\<lparr>dd_lastError := []\<rparr>,
     md_failure := resolve_failure (md_failure d)\<rparr>"

definition recordFailure :: "int \<Rightarrow> string \<Rightarrow> FailureKind \<Rightarrow> bool \<Rightarrow> string \<Rightarrow> 's ModbusDevice \<Rightarrow> 's ModbusDevice" where
  "recordFailure now code kind retryable message d =
     d\<lparr>md_diagnostics := (md_diagnostics d)\<lparr>dd_lastError := message\<rparr>,
       md_failure := makeFailure now code kind retryable message\<rparr>"

definition markSuccess :: "int \<Rightarrow> string \<Rightarrow> 's ModbusDevice \<Rightarrow> 's ModbusDevice" where
  "markSuccess now result d =
     resolveFailure (d\<lparr>md_sequence := md_sequence d + 1, md_lastPayload := result, md_state := Dready,
       md_diagnostics := (md_diagnostics d)\<lparr>
         dd_successfulOperations := dd_successfulOperations (md_diagnostics d) + 1,
         dd_consecutiveFailures := 0, dd_lastSuccessMicroseconds := now\<rparr>\<rparr>)"

definition markFailure :: "int \<Rightarrow> string \<Rightarrow> 's ModbusDevice \<Rightarrow> 's ModbusDevice" where
  "markFailure now message d =
     recordFailure now ''PDR-DEVICE-MODBUS-OPERATION_FAILED'' Ftransient True message
       (d\<lparr>md_sequence := md_sequence d + 1, md_state := Dfault,
         md_diagnostics := (md_diagnostics d)\<lparr>
           dd_failedOperations := dd_failedOperations (md_diagnostics d) + 1,
           dd_consecutiveFailures := dd_consecutiveFailures (md_diagnostics d) + 1,
           dd_lastFailureMicroseconds := now\<rparr>\<rparr>)"

text \<open>One round of the loop of \<open>perform\<close> up to the handler, then the loop.\<close>

definition attempt :: "'s stream_socket \<Rightarrow> ('s ModbusTcpClient, string) io \<Rightarrow> ('s ModbusDevice, string) io" where
  "attempt sk operation d =
     (if \<not> mb_open (md_client d)
      then let d1 = d\<lparr>md_diagnostics := (md_diagnostics d)\<lparr>
                      dd_reconnectAttempts := dd_reconnectAttempts (md_diagnostics d) + 1\<rparr>\<rparr>
           in case mb_open_op sk (md_client d1) of
                (c, Inl e) \<Rightarrow> (d1\<lparr>md_client := c\<rparr>, Inl e)
              | (c, Inr _) \<Rightarrow> (case operation c of (c', r) \<Rightarrow> (d1\<lparr>md_client := c'\<rparr>, r))
      else case operation (md_client d) of (c', r) \<Rightarrow> (d\<lparr>md_client := c'\<rparr>, r))"

fun perform_loop :: "'s stream_socket \<Rightarrow> (exc \<Rightarrow> string) \<Rightarrow> (nat \<Rightarrow> int) \<Rightarrow>
    ('s ModbusTcpClient, string) io \<Rightarrow> nat \<Rightarrow> nat \<Rightarrow> ('s ModbusDevice, string) io" where
  "perform_loop sk what clock operation k 0 d = (d, Inl (LogicError ''unreachable Modbus retry state''))"
| "perform_loop sk what clock operation k (Suc n) d =
     (case attempt sk operation d of
        (d1, Inr result) \<Rightarrow> (md_notify (markSuccess (clock k) result d1), Inr result)
      | (d1, Inl e) \<Rightarrow>
          let d2 = markFailure (clock k) (what e) d1;
              d3 = md_notify (d2\<lparr>md_client := mb_close sk (md_client d2)\<rparr>)
          in if n = 0 then (d3, Inl e) else perform_loop sk what clock operation (Suc k) n d3)"

definition perform :: "'s stream_socket \<Rightarrow> (exc \<Rightarrow> string) \<Rightarrow> (nat \<Rightarrow> int) \<Rightarrow> ('s ModbusTcpClient, string) io \<Rightarrow> bool \<Rightarrow>
    ('s ModbusDevice, string) io" where
  "perform sk what clock operation replaySafe d =
     perform_loop sk what clock operation 0
       (unat (if replaySafe then md_readRetryAttempts d + 1 else 1)) d"

definition md_start :: "'s stream_socket \<Rightarrow> ('s ModbusDevice, unit) io" where
  "md_start sk d = (case mb_open_op sk (md_client d) of
      (c, Inl e) \<Rightarrow> (d\<lparr>md_client := c\<rparr>, Inl e)
    | (c, Inr _) \<Rightarrow> (md_notify (d\<lparr>md_client := c, md_state := Dready, md_sequence := md_sequence d + 1,
                                   md_lastPayload := md_clientName d\<rparr>), Inr ()))"

definition md_stop :: "'s stream_socket \<Rightarrow> 's ModbusDevice \<Rightarrow> 's ModbusDevice" where
  "md_stop sk d = d\<lparr>md_client := mb_close sk (md_client d), md_state := Doffline\<rparr>"

definition joined :: "('s ModbusTcpClient, 16 word list) io \<Rightarrow> ('s ModbusTcpClient, string) io" where
  "joined m = ibind m (\<lambda>vs. ireturn (join vs))"

definition md_execute :: "'s stream_socket \<Rightarrow> (exc \<Rightarrow> string) \<Rightarrow> (nat \<Rightarrow> int) \<Rightarrow> string \<Rightarrow> string \<Rightarrow>
    ('s ModbusDevice, string) io" where
  "md_execute sk what clock operation payload d =
     (case parseNumbers payload 2 of
        Inl e \<Rightarrow> (d, Inl e)
      | Inr ps \<Rightarrow>
          if operation = ''readHolding''
            then perform sk what clock (joined (readHoldingRegisters sk (md_unitId d) (ps ! 0) (ps ! 1))) True d
          else if operation = ''readInput''
            then perform sk what clock (joined (readInputRegisters sk (md_unitId d) (ps ! 0) (ps ! 1))) True d
          else if operation = ''writeRegister''
            then perform sk what clock (ibind (writeSingleRegister sk (md_unitId d) (ps ! 0) (ps ! 1))
                   (\<lambda>_. ireturn ''ok'')) False d
          else (d, Inl (InvalidArgument (''unsupported Modbus operation: '' @ operation))))"

definition md_setSnapshotHandler :: "bool \<Rightarrow> 's ModbusDevice \<Rightarrow> 's ModbusDevice" where
  "md_setSnapshotHandler h d = d\<lparr>md_handler := h\<rparr>"

definition ModbusDevice_new :: "'s \<Rightarrow> string \<Rightarrow> byte \<Rightarrow> 32 word \<Rightarrow> 's ModbusDevice" where
  "ModbusDevice_new sock name unit retries =
     \<lparr>md_client = ModbusTcpClient_new sock, md_clientName = name, md_unitId = unit,
      md_readRetryAttempts = retries, md_state = Doffline, md_sequence = 0, md_lastPayload = [],
      md_diagnostics = \<lparr>dd_successfulOperations = 0, dd_failedOperations = 0, dd_reconnectAttempts = 0,
        dd_consecutiveFailures = 0, dd_lastSuccessMicroseconds = 0, dd_lastFailureMicroseconds = 0,
        dd_lastError = []\<rparr>,
      md_failure = \<lparr>f_code = [], f_kind = Fpermanent, f_retryable = False, f_active = False,
        f_occurredAtMicroseconds = 0, f_message = []\<rparr>,
      md_handler = False, md_notified = []\<rparr>"

section \<open>The operations of the client\<close>

text \<open>
  Each register operation advances the transaction counter once, and leaves an open client open when it
  succeeds.
\<close>

definition single_request :: "('s ModbusTcpClient, 'a) io \<Rightarrow> bool" where
  "single_request operation \<longleftrightarrow> (\<forall>c c' r. operation c = (c', r) \<longrightarrow>
     mb_nextTransaction c' = mb_nextTransaction c + 1 \<and> ((\<exists>v. r = Inr v) \<longrightarrow> mb_open c \<longrightarrow> mb_open c'))"

lemma transact_request:
  assumes "transact sk request c = (c', r)"
  shows "mb_nextTransaction c' = mb_nextTransaction c \<and> ((\<exists>v. r = Inr v) \<longrightarrow> mb_open c \<longrightarrow> mb_open c')"
  using assms by (auto simp: transact_def split: if_splits prod.splits sum.splits)

lemma read_registers_single: "single_request (read_registers sk f msg unit address count)"
proof (unfold single_request_def, intro allI impI)
  fix c c' r
  assume "read_registers sk f msg unit address count c = (c', r)"
  then show "mb_nextTransaction c' = mb_nextTransaction c + 1 \<and> ((\<exists>v. r = Inr v) \<longrightarrow> mb_open c \<longrightarrow> mb_open c')"
    unfolding read_registers_def Let_def
    by (auto simp: ibind_cases split: sum.splits dest!: transact_request)
qed

lemma write_single: "single_request (writeSingleRegister sk unit address v)"
proof (unfold single_request_def, intro allI impI)
  fix c c' r
  assume "writeSingleRegister sk unit address v c = (c', r)"
  then show "mb_nextTransaction c' = mb_nextTransaction c + 1 \<and> ((\<exists>v. r = Inr v) \<longrightarrow> mb_open c \<longrightarrow> mb_open c')"
    unfolding writeSingleRegister_def Let_def
    by (auto simp: ibind_cases dest!: transact_request)
qed

lemma single_ibind: "single_request m \<Longrightarrow> single_request (ibind m (\<lambda>v. ireturn (g v)))"
  unfolding single_request_def ibind_def by (simp split: prod.splits sum.splits)

section \<open>Attempts\<close>

definition device_inv :: "'s ModbusDevice \<Rightarrow> bool" where
  "device_inv d \<longleftrightarrow> (case md_state d of
       Doffline \<Rightarrow> \<not> mb_open (md_client d)
     | Dready \<Rightarrow> mb_open (md_client d)
     | Dfault \<Rightarrow> \<not> mb_open (md_client d) \<and> f_active (md_failure d) \<and>
         dd_lastError (md_diagnostics d) = f_message (md_failure d))"

lemma device_fields [simp]:
  "md_client (md_notify d) = md_client d" "md_state (md_notify d) = md_state d"
  "md_failure (md_notify d) = md_failure d" "md_diagnostics (md_notify d) = md_diagnostics d"
  "md_client (markSuccess t x d) = md_client d" "md_state (markSuccess t x d) = Dready"
  "md_client (markFailure t x d) = md_client d" "md_state (markFailure t x d) = Dfault"
  "f_active (md_failure (markSuccess t x d)) = False"
  "md_failure (markFailure t x d) = makeFailure t ''PDR-DEVICE-MODBUS-OPERATION_FAILED'' Ftransient True x"
  "dd_consecutiveFailures (md_diagnostics (markSuccess t x d)) = 0"
  "dd_lastError (md_diagnostics (markFailure t x d)) = x"
  "md_lastPayload (md_notify d) = md_lastPayload d" "md_lastPayload (markSuccess t x d) = x"
  by (simp_all add: md_notify_def markSuccess_def markFailure_def resolveFailure_def recordFailure_def
      resolve_failure_def)

lemma mb_open_op_counter: "mb_nextTransaction (fst (mb_open_op sk c)) = mb_nextTransaction c"
  by (simp add: mb_open_op_def split: prod.split sum.split)

lemma mb_open_op_opens: "mb_open_op sk c = (c', Inr u) \<Longrightarrow> mb_open c'"
  by (auto simp: mb_open_op_def split: if_splits prod.splits sum.splits)

lemma mb_close_fields [simp]: "\<not> mb_open (mb_close sk c)" "mb_nextTransaction (mb_close sk c) = mb_nextTransaction c"
  by (simp_all add: mb_close_def)

lemma attempt_step:
  assumes "single_request operation" "attempt sk operation d = (d', r)"
  shows "(\<exists>k \<le> 1. mb_nextTransaction (md_client d') = mb_nextTransaction (md_client d) + of_nat k) \<and>
    ((\<exists>v. r = Inr v) \<longrightarrow> mb_open (md_client d'))"
proof (cases "mb_open (md_client d)")
  case True
  obtain c' r' where op: "operation (md_client d) = (c', r')" by fastforce
  then have "md_client d' = c'" "r = r'" using assms(2) True by (auto simp: attempt_def)
  then show ?thesis
    using assms(1) op True unfolding single_request_def by (intro conjI exI [of _ "1 :: nat"]) auto
next
  case False
  obtain c u where op: "mb_open_op sk (md_client d) = (c, u)" by fastforce
  then have c: "mb_nextTransaction c = mb_nextTransaction (md_client d)" using mb_open_op_counter by (metis fst_conv)
  show ?thesis
  proof (cases u)
    case (Inl e)
    then have "md_client d' = c" "r = Inl e" using assms(2) op False by (auto simp: attempt_def Let_def)
    then show ?thesis using c by (intro conjI exI [of _ "0 :: nat"]) simp_all
  next
    case (Inr v)
    obtain c' r' where rd: "operation c = (c', r')" by fastforce
    have "md_client d' = c'" "r = r'" using assms(2) op rd Inr False by (auto simp: attempt_def Let_def)
    moreover have "mb_open c" using mb_open_op_opens op Inr by blast
    ultimately show ?thesis
      using assms(1) rd c unfolding single_request_def by (intro conjI exI [of _ "1 :: nat"]) auto
  qed
qed

lemma perform_loop_requests:
  assumes "single_request operation"
  shows "\<exists>j \<le> n. mb_nextTransaction (md_client (fst (perform_loop sk what clock operation k n d))) =
    mb_nextTransaction (md_client d) + of_nat j"
proof (induction n arbitrary: k d)
  case 0
  then show ?case by simp
next
  case (Suc n)
  obtain d1 r where a: "attempt sk operation d = (d1, r)" by fastforce
  then obtain i where i: "i \<le> 1" "mb_nextTransaction (md_client d1) = mb_nextTransaction (md_client d) + of_nat i"
    using attempt_step [OF assms] by blast
  have stop: "\<exists>j \<le> Suc n. mb_nextTransaction (md_client d1) = mb_nextTransaction (md_client d) + of_nat j"
    using i by (intro exI [of _ i]) simp
  show ?case
  proof (cases r)
    case (Inr v)
    with a stop show ?thesis by simp
  next
    case (Inl e)
    let ?d = "md_notify ((markFailure (clock k) (what e) d1)\<lparr>md_client := mb_close sk (md_client (markFailure (clock k) (what e) d1))\<rparr>)"
    obtain j where "j \<le> n" "mb_nextTransaction (md_client (fst (perform_loop sk what clock operation (Suc k) n ?d))) =
        mb_nextTransaction (md_client ?d) + of_nat j"
      using Suc.IH by blast
    moreover have "mb_nextTransaction (md_client ?d) = mb_nextTransaction (md_client d1)" by simp
    ultimately have "\<exists>j \<le> Suc n. mb_nextTransaction (md_client (fst (perform_loop sk what clock operation (Suc k) n ?d))) =
        mb_nextTransaction (md_client d) + of_nat j"
      using i by (intro exI [of _ "i + j"]) (simp add: add.assoc)
    with a Inl stop show ?thesis by (cases "n = 0") (simp_all add: Let_def del: le_Suc_eq)
  qed
qed

definition performed :: "(exc \<Rightarrow> string) \<Rightarrow> 's ModbusDevice \<Rightarrow> string res \<Rightarrow> bool" where
  "performed what d r \<longleftrightarrow> (case r of
      Inr v \<Rightarrow> md_state d = Dready \<and> mb_open (md_client d) \<and> \<not> f_active (md_failure d) \<and>
        dd_consecutiveFailures (md_diagnostics d) = 0 \<and> md_lastPayload d = v
    | Inl e \<Rightarrow> md_state d = Dfault \<and> \<not> mb_open (md_client d) \<and> f_active (md_failure d) \<and>
        f_message (md_failure d) = what e \<and> dd_lastError (md_diagnostics d) = what e)"

lemma performed_inv: "performed what d r \<Longrightarrow> device_inv d"
  by (auto simp: performed_def device_inv_def split: sum.splits)

lemma perform_loop_performed:
  assumes "single_request operation"
  shows "perform_loop sk what clock operation k n d = (d', r) \<Longrightarrow> n \<noteq> 0 \<Longrightarrow> performed what d' r"
proof (induction n arbitrary: k d)
  case 0
  then show ?case by simp
next
  case (Suc n)
  obtain d1 q where a: "attempt sk operation d = (d1, q)" by fastforce
  show ?case
  proof (cases q)
    case (Inr v)
    then have "mb_open (md_client d1)" using attempt_step [OF assms a] by blast
    with Inr a Suc.prems(1) show ?thesis by (auto simp: performed_def)
  next
    case (Inl e)
    with a Suc.prems(1) Suc.IH show ?thesis
      by (cases "n = 0") (auto simp: performed_def Let_def makeFailure_def)
  qed
qed

lemma perform_outcome:
  assumes "single_request operation" "perform sk what clock operation safe d = (d', r)"
  shows "(\<exists>k. k \<le> unat (if safe then md_readRetryAttempts d + 1 else 1) \<and>
      mb_nextTransaction (md_client d') = mb_nextTransaction (md_client d) + of_nat k) \<and>
    (performed what d' r \<or> d' = d \<and> (\<exists>e. r = Inl e))"
proof -
  define n where "n = unat (if safe then md_readRetryAttempts d + 1 else 1)"
  have run: "perform_loop sk what clock operation 0 n d = (d', r)"
    using assms(2) by (simp add: perform_def n_def)
  have "\<exists>k. k \<le> n \<and> mb_nextTransaction (md_client d') = mb_nextTransaction (md_client d) + of_nat k"
    using perform_loop_requests [OF assms(1), of n sk what clock 0 d] run by (metis fst_conv)
  moreover have "performed what d' r \<or> d' = d \<and> (\<exists>e. r = Inl e)"
  proof (cases "n = 0")
    case True
    with run show ?thesis by auto
  next
    case False
    with perform_loop_performed [OF assms(1) run] show ?thesis by blast
  qed
  ultimately show ?thesis unfolding n_def by blast
qed

text \<open>The number of times \<open>execute\<close> may run an operation, in the arithmetic of the code.\<close>

definition attempts_allowed :: "string \<Rightarrow> 's ModbusDevice \<Rightarrow> nat" where
  "attempts_allowed operation d =
     unat (if operation = ''writeRegister'' then 1 else md_readRetryAttempts d + 1)"

lemma execute_outcome:
  assumes "md_execute sk what clock operation payload d = (d', r)"
  shows "(\<exists>k. k \<le> attempts_allowed operation d \<and>
      mb_nextTransaction (md_client d') = mb_nextTransaction (md_client d) + of_nat k) \<and>
    (performed what d' r \<or> d' = d \<and> (\<exists>e. r = Inl e))"
proof -
  have same: ?thesis if "d' = d" "r = Inl e" for e
    using that by (intro conjI exI [of _ "0 :: nat"]) simp_all
  show ?thesis
  proof (cases "parseNumbers payload 2")
    case (Inl e)
    with assms have "d' = d" "r = Inl e" by (simp_all add: md_execute_def)
    then show ?thesis by (rule same)
  next
    case (Inr ps)
    have reads: "single_request (joined (readHoldingRegisters sk u a n))"
        "single_request (joined (readInputRegisters sk u a n))" for u a n
      by (simp_all add: joined_def readHoldingRegisters_def readInputRegisters_def single_ibind
          read_registers_single)
    have wr: "single_request (ibind (writeSingleRegister sk u a v) (\<lambda>_. ireturn ''ok''))" for u a v
      by (simp add: single_ibind write_single)
    consider "operation = ''readHolding''" | "operation = ''readInput''" | "operation = ''writeRegister''"
      | "operation \<noteq> ''readHolding''" "operation \<noteq> ''readInput''" "operation \<noteq> ''writeRegister''"
      by blast
    then show ?thesis
    proof cases
      case 1
      with assms Inr have run: "perform sk what clock
          (joined (readHoldingRegisters sk (md_unitId d) (ps ! 0) (ps ! 1))) True d = (d', r)"
        by (simp add: md_execute_def)
      from perform_outcome [OF reads(1) run] 1 show ?thesis by (simp add: attempts_allowed_def)
    next
      case 2
      with assms Inr have run: "perform sk what clock
          (joined (readInputRegisters sk (md_unitId d) (ps ! 0) (ps ! 1))) True d = (d', r)"
        by (simp add: md_execute_def)
      from perform_outcome [OF reads(2) run] 2 show ?thesis by (simp add: attempts_allowed_def)
    next
      case 3
      with assms Inr have run: "perform sk what clock (ibind (writeSingleRegister sk (md_unitId d)
          (ps ! 0) (ps ! 1)) (\<lambda>_. ireturn ''ok'')) False d = (d', r)"
        by (simp add: md_execute_def)
      from perform_outcome [OF wr run] 3 show ?thesis by (simp add: attempts_allowed_def)
    next
      case 4
      with assms Inr have "d' = d" "r = Inl (InvalidArgument (''unsupported Modbus operation: '' @ operation))"
        by (simp_all add: md_execute_def)
      then show ?thesis by (rule same)
    qed
  qed
qed

text \<open>
  One call of execute sends a write at most once and a read at most once more than the configured
  number of retries (in 32-bit arithmetic), whatever the socket does; the transaction counter shows it. It
  ends in one of three ways: the result is returned, the device is ready with an open client, no active
  failure, no consecutive failures and the result as its payload; or the exception is passed on, the
  device is in fault, its client closed and the failure recorded with the text of the exception; or the
  call is refused and the device is as it was.
\<close>

theorem modbus_device_execute:
  "case md_execute sk what clock operation payload d of (d', r) \<Rightarrow>
     (\<exists>k. k \<le> unat (if operation = ''writeRegister'' then 1 else md_readRetryAttempts d + 1) \<and>
        mb_nextTransaction (md_client d') = mb_nextTransaction (md_client d) + of_nat k) \<and>
     (case r of
        Inr v \<Rightarrow> md_state d' = Dready \<and> mb_open (md_client d') \<and> \<not> f_active (md_failure d') \<and>
          dd_consecutiveFailures (md_diagnostics d') = 0 \<and> md_lastPayload d' = v
      | Inl e \<Rightarrow> d' = d \<or>
          md_state d' = Dfault \<and> \<not> mb_open (md_client d') \<and> f_active (md_failure d') \<and>
          f_message (md_failure d') = what e \<and> dd_lastError (md_diagnostics d') = what e)"
proof -
  obtain d' r where run: "md_execute sk what clock operation payload d = (d', r)" by fastforce
  show ?thesis
    using execute_outcome [OF run]
    by (auto simp: run performed_def attempts_allowed_def split: sum.splits)
qed

section \<open>Sequences of calls\<close>

datatype device_call = Start_device | Stop_device | Execute "nat \<Rightarrow> int" string string | Set_handler bool

fun device_step :: "'s stream_socket \<Rightarrow> (exc \<Rightarrow> string) \<Rightarrow> 's ModbusDevice \<Rightarrow> device_call \<Rightarrow> 's ModbusDevice" where
  "device_step sk what d Start_device = fst (md_start sk d)"
| "device_step sk what d Stop_device = md_stop sk d"
| "device_step sk what d (Execute clock operation payload) = fst (md_execute sk what clock operation payload d)"
| "device_step sk what d (Set_handler h) = md_setSnapshotHandler h d"

lemma start_keeps: "device_inv d \<Longrightarrow> device_inv (fst (md_start sk d))"
  unfolding md_start_def mb_open_op_def
  by (auto simp: device_inv_def split: prod.split sum.split DeviceState.splits)

lemma device_step_keeps: "device_inv d \<Longrightarrow> device_inv (device_step sk what d c)"
proof (cases c)
  case (Execute clock operation payload)
  assume "device_inv d"
  moreover obtain d' r where run: "md_execute sk what clock operation payload d = (d', r)" by fastforce
  ultimately show ?thesis using execute_outcome [OF run] performed_inv [of what d' r] Execute by auto
qed (auto simp: start_keeps, auto simp: md_stop_def md_setSnapshotHandler_def device_inv_def split: DeviceState.splits)

text \<open>
  After any sequence of calls on a Modbus device the state it reports is the state of its connection:
  ready exactly while the client is open, and a device in fault has a closed client and an active failure
  whose message is the last error of the diagnostics.
\<close>

theorem modbus_device_state:
  "(let d = foldl (device_step sk what) (ModbusDevice_new sock name unit retries) calls in
    case md_state d of
      Doffline \<Rightarrow> \<not> mb_open (md_client d)
    | Dready \<Rightarrow> mb_open (md_client d)
    | Dfault \<Rightarrow> \<not> mb_open (md_client d) \<and> f_active (md_failure d) \<and>
        dd_lastError (md_diagnostics d) = f_message (md_failure d))"
proof -
  have "device_inv (foldl (device_step sk what) d calls)" if "device_inv d" for d
    using that by (induction calls arbitrary: d) (simp_all add: device_step_keeps)
  moreover have "device_inv (ModbusDevice_new sock name unit retries)"
    by (simp add: device_inv_def ModbusDevice_new_def ModbusTcpClient_new_def)
  ultimately show ?thesis unfolding device_inv_def Let_def by blast
qed

end
