(* ===== verification/XBee.thy ===== *)
theory XBee
  imports Protocol_IO
begin

text \<open>
  The XBee API frames of \<open>platform/protocols/XBee\<close>: the frame codec with its escaped mode
  (\<open>XBeeFrame.cpp\<close>), the port that reassembles frames from the chunks of a serial channel
  (\<open>XBeePort.cpp\<close>) and the decoder of IO samples (\<open>IoSample.cpp\<close>). The serial channel is an
  interface: what its successive \<open>read\<close> calls give is the list of chunks the receive loop takes, an
  empty chunk being a timeout; when the list is used up every further read times out. Pointers and
  sizes into the receive buffer are lists and lengths.
\<close>

section \<open>Frames\<close>

text \<open>An enum over \<open>std::uint8_t\<close>: any received byte is a value of it.\<close>

type_synonym FrameType = byte

definition ft_zigbeeIoSample :: FrameType where "ft_zigbeeIoSample = 0x92"

datatype ParseStatus = PS_ok | PS_notEnoughData | PS_notFound | PS_badChecksum

record XBeeFrame =
  xf_type :: FrameType
  xf_data :: "byte list"

definition MaxFrameLength :: nat where "MaxFrameLength = 1024"

abbreviation StartDelimiter :: byte where "StartDelimiter \<equiv> 0x7E"

definition XBeeFrame_new :: "FrameType \<Rightarrow> byte list \<Rightarrow> XBeeFrame res" where
  "XBeeFrame_new t d =
     (if MaxFrameLength < length d + 5 then Inl (OutOfRange ''XBee frame exceeds maximum size'')
      else Inr \<lparr>xf_type = t, xf_data = d\<rparr>)"

definition requiresEscape :: "byte \<Rightarrow> bool" where
  "requiresEscape b \<longleftrightarrow> b = 0x7E \<or> b = 0x7D \<or> b = 0x11 \<or> b = 0x13"

definition sum32 :: "byte list \<Rightarrow> 32 word" where
  "sum32 bs = foldl (\<lambda>s b. s + ucast b) 0 bs"

definition escape_byte :: "byte \<Rightarrow> byte list" where
  "escape_byte b = (if requiresEscape b then [0x7D, b XOR 0x20] else [b])"

definition raw_frame :: "XBeeFrame \<Rightarrow> byte list" where
  "raw_frame f =
     (let n = length (xf_data f) + 1;
          body = xf_type f # xf_data f
      in [StartDelimiter, of_nat (n div 256), of_nat n] @ body @
         [ucast (0xFF - (sum32 body AND 0xFF))])"

definition encode :: "bool \<Rightarrow> XBeeFrame \<Rightarrow> byte list" where
  "encode escaped f =
     (if \<not> escaped then raw_frame f
      else hd (raw_frame f) # concat (map escape_byte (tl (raw_frame f))))"

text \<open>\<open>unescape\<close> copies the first byte; the flag is the loop's \<open>escape\<close>.\<close>

fun unescape_rest :: "bool \<Rightarrow> byte list \<Rightarrow> byte list" where
  "unescape_rest e [] = []"
| "unescape_rest True (b # bs) = (b XOR 0x20) # unescape_rest False bs"
| "unescape_rest False (b # bs) =
     (if b = 0x7D then unescape_rest True bs else b # unescape_rest False bs)"

definition unescape :: "byte list \<Rightarrow> byte list" where
  "unescape bs = (case bs of [] \<Rightarrow> [] | b # rest \<Rightarrow> b # unescape_rest False rest)"

fun raw_prefix_rest :: "nat \<Rightarrow> byte list \<Rightarrow> nat" where
  "raw_prefix_rest (Suc n) (b # bs) =
     (if b = 0x7D \<and> bs \<noteq> [] then 2 + raw_prefix_rest n (tl bs) else 1 + raw_prefix_rest n bs)"
| "raw_prefix_rest _ _ = 0"

definition rawPrefixForDecoded :: "byte list \<Rightarrow> nat \<Rightarrow> nat" where
  "rawPrefixForDecoded bs n =
     (if bs = [] \<or> n = 0 then 0 else 1 + raw_prefix_rest (n - 1) (tl bs))"

text \<open>The status, the bytes consumed and the frame of \<open>parse\<close>; its constructor call may throw.\<close>

definition parse :: "bool \<Rightarrow> byte list \<Rightarrow> (ParseStatus \<times> nat \<times> XBeeFrame option) res" where
  "parse escaped rawBytes =
     (if rawBytes = [] then Inr (PS_notEnoughData, 0, None)
      else
        let bytes = (if escaped then unescape rawBytes else rawBytes);
            raw = (\<lambda>n. if escaped then rawPrefixForDecoded rawBytes n else n);
            start = dropWhile (\<lambda>b. b \<noteq> StartDelimiter) bytes;
            offset = length bytes - length start
        in if start = [] then Inr (PS_notFound, length rawBytes, None)
           else if length start < 4
             then Inr (PS_notEnoughData, if 0 < offset then raw offset else 0, None)
           else
             let len = unat (start ! 1) * 256 + unat (start ! 2)
             in if len = 0 \<or> MaxFrameLength < len + 4
                  then Inr (PS_notFound, raw (offset + 1), None)
                else
                  let total = 3 + len + 1
                  in if length start < total
                       then Inr (PS_notEnoughData, if 0 < offset then raw offset else 0, None)
                     else if sum32 (drop 3 (take total start)) AND 0xFF \<noteq> 0xFF
                       then Inr (PS_badChecksum, raw (offset + total), None)
                     else rbind (XBeeFrame_new (start ! 3) (drop 4 (take (3 + len) start)))
                            (\<lambda>f. Inr (PS_ok, raw (offset + total), Some f)))"

section \<open>The checksum\<close>

lemma ucast_plus_byte: "(ucast (a + b :: 32 word) :: byte) = ucast a + ucast b"
proof -
  have "take_bit 8 (take_bit 32 x + take_bit 32 y) = take_bit 8 (x + y)" for x y :: int
  proof -
    have "take_bit 8 (take_bit 32 x + take_bit 32 y) = take_bit 8 (take_bit 8 (take_bit 32 x) + take_bit 8 (take_bit 32 y))"
      by (rule take_bit_add [symmetric])
    also have "\<dots> = take_bit 8 (take_bit 8 x + take_bit 8 y)"
      by simp
    also have "\<dots> = take_bit 8 (x + y)" by (rule take_bit_add)
    finally show ?thesis .
  qed
  then show ?thesis by transfer simp
qed

lemma ucast_minus_byte: "(ucast (a - b :: 32 word) :: byte) = ucast a - ucast b"
  using ucast_plus_byte [of "a - b" b] by simp

lemma ucast_low_byte: "(ucast ((s :: 32 word) AND 0xFF) :: byte) = ucast s"
proof -
  have "s AND 0xFF = take_bit 8 s" by (simp add: take_bit_eq_mask mask_eq_exp_minus_1)
  then show ?thesis by (simp add: bit_eq_iff bit_simps) 
qed

lemma low_byte: "(s :: 32 word) AND 0xFF = 0xFF \<longleftrightarrow> (ucast s :: byte) = 0xFF"
proof -
  have eq: "s AND 0xFF = ucast (ucast s :: byte)"
  proof -
    have "s AND 0xFF = take_bit 8 s" by (simp add: take_bit_eq_mask mask_eq_exp_minus_1)
    also have "\<dots> = ucast (ucast s :: byte)"
      by (rule bit_word_eqI) (auto simp: bit_simps dest: bit_imp_le_length)
    finally show ?thesis .
  qed
  show ?thesis
  proof
    assume "s AND 0xFF = 0xFF"
    then have "(ucast (s AND 0xFF) :: byte) = ucast (0xFF :: 32 word)" by simp
    then show "(ucast s :: byte) = 0xFF" by (simp add: ucast_low_byte)
  next
    assume "(ucast s :: byte) = 0xFF"
    with eq show "s AND 0xFF = 0xFF" by simp
  qed
qed

lemma sum32_snoc: "sum32 (bs @ [b]) = sum32 bs + ucast b"
  by (simp add: sum32_def)

text \<open>The checksum byte makes the byte sum of type, data and checksum \<open>0xFF\<close>.\<close>

lemma checksum_ok: "sum32 (body @ [ucast (0xFF - (sum32 body AND 0xFF))]) AND 0xFF = 0xFF"
proof -
  let ?c = "ucast (0xFF - (sum32 body AND 0xFF)) :: byte"
  have "?c = 0xFF - ucast (sum32 body)"
    by (simp add: ucast_minus_byte ucast_low_byte)
  moreover have "(ucast (ucast ?c :: 32 word) :: byte) = ?c"
    by (rule bit_word_eqI) (auto simp: bit_simps dest: bit_imp_le_length)
  ultimately have "(ucast (sum32 (body @ [?c])) :: byte) = 0xFF"
    by (simp add: sum32_snoc ucast_plus_byte)
  then show ?thesis by (simp add: low_byte)
qed

section \<open>Escaping\<close>

lemma xor_twice: "(b XOR 0x20) XOR 0x20 = (b :: byte)"
  by (simp add: xor.assoc)

lemma unescape_byte: "unescape_rest False (escape_byte b @ rest) = b # unescape_rest False rest"
  by (auto simp: escape_byte_def requiresEscape_def xor_twice)

lemma unescape_escape:
  "unescape_rest False (concat (map escape_byte xs) @ rest) = xs @ unescape_rest False rest"
  by (induction xs) (simp_all add: unescape_byte)

lemma raw_prefix_escape:
  "raw_prefix_rest (length xs) (concat (map escape_byte xs) @ rest) = length (concat (map escape_byte xs))"
  by (induction xs) (auto simp: escape_byte_def requiresEscape_def)

lemma raw_prefix_le: "raw_prefix_rest n bs \<le> length bs"
  by (induction n bs rule: raw_prefix_rest.induct) (auto simp: Suc_le_eq neq_Nil_conv)

lemma unescape_prefix:
  "k < length (concat (map escape_byte xs)) \<Longrightarrow>
   \<exists>m < length xs. unescape_rest False (take k (concat (map escape_byte xs))) = take m xs"
proof (induction xs arbitrary: k)
  case Nil
  then show ?case by simp
next
  case (Cons x xs)
  let ?e = "escape_byte x" and ?r = "concat (map escape_byte xs)"
  show ?case
  proof (cases "k < length ?e")
    case True
    then have "unescape_rest False (take k (concat (map escape_byte (x # xs)))) = []"
      by (auto simp: escape_byte_def less_Suc_eq split: if_splits)
    then show ?thesis by (intro exI [of _ 0]) simp
  next
    case False
    then have "take k (concat (map escape_byte (x # xs))) = ?e @ take (k - length ?e) ?r" by simp
    moreover have "k < length ?e + length ?r" using Cons.prems by simp
    then have "k - length ?e < length ?r" using False by linarith
    then obtain m where "m < length xs" "unescape_rest False (take (k - length ?e) ?r) = take m xs"
      using Cons.IH by blast
    ultimately show ?thesis by (intro exI [of _ "Suc m"]) (simp add: unescape_byte)
  qed
qed

section \<open>Parsing an encoded frame\<close>

definition wf_frame :: "XBeeFrame \<Rightarrow> bool" where
  "wf_frame f \<longleftrightarrow> length (xf_data f) + 5 \<le> MaxFrameLength"

lemma raw_frame_hd: "hd (raw_frame f) = StartDelimiter" "raw_frame f \<noteq> []"
  by (simp_all add: raw_frame_def Let_def)

lemma raw_frame_Cons: "raw_frame f = StartDelimiter # tl (raw_frame f)"
  by (metis list.collapse raw_frame_hd)

lemma length_raw_frame: "length (raw_frame f) = length (xf_data f) + 5"
  by (simp add: raw_frame_def Let_def)

lemma encode_Cons: "\<exists>bs. encode e f = StartDelimiter # bs"
  using raw_frame_Cons [of f] by (auto simp: encode_def raw_frame_hd)

lemma decoded_encode:
  "(if e then unescape (encode e f @ rest) else encode e f @ rest) =
     raw_frame f @ (if e then unescape_rest False rest else rest)"
proof (cases e)
  case True
  then have "unescape (encode e f @ rest) = hd (raw_frame f) # tl (raw_frame f) @ unescape_rest False rest"
    by (simp add: unescape_def encode_def unescape_escape)
  with True show ?thesis using raw_frame_hd(2) [of f] by simp
next
  case False
  then show ?thesis by (simp add: encode_def)
qed

lemma raw_prefix_encode: "rawPrefixForDecoded (encode True f @ rest) (length (raw_frame f)) = length (encode True f)"
  using raw_prefix_escape [of "tl (raw_frame f)" rest] raw_frame_hd(2) [of f]
  by (simp add: rawPrefixForDecoded_def encode_def)

lemma frame_length_field:
  assumes "wf_frame f"
  shows "unat (raw_frame f ! 1) * 256 + unat (raw_frame f ! 2) = length (xf_data f) + 1"
proof -
  let ?n = "length (xf_data f) + 1"
  have "?n < 65536" using assms by (simp add: wf_frame_def MaxFrameLength_def)
  then have "unat (of_nat (?n div 256) :: byte) = ?n div 256" by (simp add: unat_of_nat)
  moreover have "unat (of_nat ?n :: byte) = ?n mod 256" by (simp only: unat_of_nat) simp
  ultimately show ?thesis by (simp add: raw_frame_def Let_def del: of_nat_add of_nat_Suc)
qed

lemma raw_frame_parts:
  "drop 4 (take (length (xf_data f) + 4) (raw_frame f)) = xf_data f" "raw_frame f ! 3 = xf_type f"
  "sum32 (drop 3 (raw_frame f)) AND 0xFF = 0xFF"
proof -
  obtain a b c d x where raw: "raw_frame f = [a, b, c, d] @ xf_data f @ [x]"
    by (simp add: raw_frame_def Let_def)
  have "take (length (xf_data f) + 4) (raw_frame f) = [a, b, c, d] @ xf_data f"
    using take_append [of "length (xf_data f) + 4" "[a, b, c, d] @ xf_data f" "[x]"] unfolding raw by simp
  then show "drop 4 (take (length (xf_data f) + 4) (raw_frame f)) = xf_data f" by simp
qed (use checksum_ok [of "xf_type f # xf_data f"] in \<open>simp_all add: raw_frame_def Let_def\<close>)

text \<open>What \<open>parse\<close> does on decoded bytes that begin with the delimiter.\<close>

lemma find_start: "B \<noteq> [] \<Longrightarrow> hd B = StartDelimiter \<Longrightarrow> dropWhile (\<lambda>b. b \<noteq> StartDelimiter) B = B"
  by (cases B) simp_all

lemma parse_complete:
  assumes ne: "rb \<noteq> []" and B: "(if e then unescape rb else rb) = B" "B \<noteq> []" "hd B = StartDelimiter"
    and n: "unat (B ! 1) * 256 + unat (B ! 2) = Suc n" "n + 5 \<le> MaxFrameLength" "n + 5 \<le> length B"
    and "sum32 (drop 3 (take (n + 5) B)) AND 0xFF = 0xFF"
  shows "parse e rb = Inr (PS_ok, if e then rawPrefixForDecoded rb (n + 5) else n + 5,
    Some \<lparr>xf_type = B ! 3, xf_data = drop 4 (take (n + 4) B)\<rparr>)"
proof -
  have "length (drop 4 (take (n + 4) B)) = n" using n(3) by simp
  then have new: "XBeeFrame_new (B ! 3) (drop 4 (take (n + 4) B)) =
      Inr \<lparr>xf_type = B ! 3, xf_data = drop 4 (take (n + 4) B)\<rparr>"
    using n(2) by (simp add: XBeeFrame_new_def)
  have arith: "\<not> length B < 4" "3 + Suc n + 1 = n + 5" "3 + Suc n = n + 4" "\<not> length B < n + 5"
    "\<not> (Suc n = 0 \<or> MaxFrameLength < Suc n + 4)" using n by simp_all
  show ?thesis
    unfolding parse_def Let_def B(1) find_start [OF B(2,3)] n(1)
    using ne B(2) assms(8) n(3)
    by (simp only: arith new rbind_simps if_False if_True simp_thms) (simp add: add.commute)
qed

lemma parse_incomplete:
  assumes ne: "rb \<noteq> []" and B: "(if e then unescape rb else rb) = B" "B \<noteq> []" "hd B = StartDelimiter"
    and n: "length B < 4 \<or> (unat (B ! 1) * 256 + unat (B ! 2) = Suc n \<and> n + 5 \<le> MaxFrameLength \<and> length B < n + 5)"
  shows "parse e rb = Inr (PS_notEnoughData, 0, None)"
proof (cases "length B < 4")
  case True
  then show ?thesis
    unfolding parse_def Let_def B(1) find_start [OF B(2,3)] using ne B(2) by simp
next
  case False
  then have n: "unat (B ! 1) * 256 + unat (B ! 2) = Suc n" "n + 5 \<le> MaxFrameLength" "length B < n + 5"
    using assms(5) by simp_all
  then show ?thesis
    unfolding parse_def Let_def B(1) find_start [OF B(2,3)] n(1) using False ne B(2) by simp
qed

lemma parse_encode:
  assumes "wf_frame f"
  shows "parse e (encode e f @ rest) = Inr (PS_ok, length (encode e f), Some f)"
proof -
  let ?B = "raw_frame f @ (if e then unescape_rest False rest else rest)"
  let ?n = "length (xf_data f)"
  have B: "encode e f @ rest \<noteq> []" "?B \<noteq> []" "hd ?B = StartDelimiter"
    using encode_Cons [of e f] raw_frame_hd [of f] by auto
  have fields: "unat (?B ! 1) * 256 + unat (?B ! 2) = Suc ?n" "?n + 5 \<le> MaxFrameLength" "?n + 5 \<le> length ?B"
    using frame_length_field [OF assms] length_raw_frame [of f] assms by (simp_all add: nth_append wf_frame_def)
  have whole: "take (?n + 5) ?B = raw_frame f" using length_raw_frame [of f] by simp
  have "take (?n + 4) ?B = take (?n + 4) (raw_frame f)" "?B ! 3 = xf_type f"
    using length_raw_frame [of f] raw_frame_parts(2) [of f] by (simp_all add: nth_append)
  then have parts: "drop 4 (take (?n + 4) ?B) = xf_data f" "?B ! 3 = xf_type f"
    by (simp_all only: raw_frame_parts(1))
  have "sum32 (drop 3 (take (?n + 5) ?B)) AND 0xFF = 0xFF"
    unfolding whole by (rule raw_frame_parts(3))
  note complete = parse_complete [OF B(1) decoded_encode B(2,3) fields this]
  have "parse e (encode e f @ rest) =
      Inr (PS_ok, if e then rawPrefixForDecoded (encode e f @ rest) (?n + 5) else ?n + 5, Some f)"
    unfolding complete parts by simp
  moreover have "(if e then rawPrefixForDecoded (encode e f @ rest) (?n + 5) else ?n + 5) = length (encode e f)"
    using raw_prefix_encode [of f rest] length_raw_frame [of f] by (auto simp: encode_def)
  ultimately show ?thesis by simp
qed

lemma decoded_prefix:
  assumes "k < length (encode e f)" "0 < k"
  shows "\<exists>m. 0 < m \<and> m < length (raw_frame f) \<and>
    (if e then unescape (take k (encode e f)) else take k (encode e f)) = take m (raw_frame f)"
proof (cases e)
  case True
  obtain k' where k: "k = Suc k'" using assms(2) by (cases k) auto
  let ?xs = "tl (raw_frame f)"
  have "k' < length (concat (map escape_byte ?xs))" using assms(1) k True by (simp add: encode_def)
  then obtain m where m: "m < length ?xs"
    "unescape_rest False (take k' (concat (map escape_byte ?xs))) = take m ?xs"
    using unescape_prefix by blast
  have "unescape (take k (encode e f)) = hd (raw_frame f) # take m ?xs"
    using True k m(2) by (simp add: unescape_def encode_def)
  also have "\<dots> = take (Suc m) (raw_frame f)" using raw_frame_hd(2) [of f] by (cases "raw_frame f") simp_all
  finally show ?thesis using True m(1) by (intro exI [of _ "Suc m"]) simp
next
  case False
  then show ?thesis using assms by (intro exI [of _ k]) (simp add: encode_def)
qed

lemma parse_prefix:
  assumes "wf_frame f" and "k < length (encode e f)"
  shows "parse e (take k (encode e f)) = Inr (PS_notEnoughData, 0, None)"
proof (cases "k = 0")
  case True
  then show ?thesis by (simp add: parse_def)
next
  case False
  then obtain m where m: "0 < m" "m < length (raw_frame f)"
    "(if e then unescape (take k (encode e f)) else take k (encode e f)) = take m (raw_frame f)"
    using decoded_prefix [OF assms(2)] by blast
  let ?B = "take m (raw_frame f)"
  have "take k (encode e f) \<noteq> []" "?B \<noteq> []" "hd ?B = StartDelimiter"
    using False m encode_Cons [of e f] raw_frame_hd [of f] by auto
  moreover have "length ?B < 4 \<or> (unat (?B ! 1) * 256 + unat (?B ! 2) = Suc (length (xf_data f)) \<and>
      length (xf_data f) + 5 \<le> MaxFrameLength \<and> length ?B < length (xf_data f) + 5)"
  proof (cases "m < 4")
    case True
    then show ?thesis by (simp add: min_less_iff_disj)
  next
    case False
    then have "?B ! 1 = raw_frame f ! 1" "?B ! 2 = raw_frame f ! 2" by simp_all
    then show ?thesis
      using frame_length_field [OF assms(1)] length_raw_frame [of f] assms(1) m(2) by (simp add: wf_frame_def)
  qed
  ultimately show ?thesis using m(3) by (intro parse_incomplete)
qed

text \<open>
  Parsing the bytes of an encoded frame, in plain or escaped mode and whatever follows them,
  gives the frame back and consumes exactly its bytes; any proper prefix of them is reported as
  incomplete, without consuming or losing a byte.
\<close>

theorem xbee_parse_encode:
  assumes "XBeeFrame_new t d = Inr f"
  shows "parse e (encode e f @ rest) = Inr (PS_ok, length (encode e f), Some f) \<and>
    (\<forall>k < length (encode e f). parse e (take k (encode e f)) = Inr (PS_notEnoughData, 0, None))"
proof -
  have "wf_frame f" using assms by (auto simp: XBeeFrame_new_def wf_frame_def split: if_splits)
  then show ?thesis using parse_encode parse_prefix by blast
qed

theorem xbee_parse_encode_witness:
  "encode True \<lparr>xf_type = 0x7E, xf_data = [0x11, 0x7D]\<rparr> =
     [0x7E, 0, 3, 0x7D, 0x5E, 0x7D, 0x31, 0x7D, 0x5D, 0xF3] \<and>
   parse True (encode True \<lparr>xf_type = 0x7E, xf_data = [0x11, 0x7D]\<rparr> @ [1, 2]) =
     Inr (PS_ok, 10, Some \<lparr>xf_type = 0x7E, xf_data = [0x11, 0x7D]\<rparr>)"
proof
  show enc: "encode True \<lparr>xf_type = 0x7E, xf_data = [0x11, 0x7D]\<rparr> =
     [0x7E, 0, 3, 0x7D, 0x5E, 0x7D, 0x31, 0x7D, 0x5D, 0xF3]" by code_simp
  have new: "XBeeFrame_new 0x7E [0x11, 0x7D] = Inr \<lparr>xf_type = 0x7E, xf_data = [0x11, 0x7D]\<rparr>" by code_simp
  show "parse True (encode True \<lparr>xf_type = 0x7E, xf_data = [0x11, 0x7D]\<rparr> @ [1, 2]) =
     Inr (PS_ok, 10, Some \<lparr>xf_type = 0x7E, xf_data = [0x11, 0x7D]\<rparr>)"
    using xbee_parse_encode [OF new, of True "[1, 2]"] by (simp add: enc)
qed

lemma rawPrefix_le: "rawPrefixForDecoded bs n \<le> length bs"
  using raw_prefix_le [of "n - 1" "tl bs"] by (cases bs) (auto simp: rawPrefixForDecoded_def)

lemma rawPrefix_pos: "bs \<noteq> [] \<Longrightarrow> 0 < n \<Longrightarrow> 0 < rawPrefixForDecoded bs n"
  by (simp add: rawPrefixForDecoded_def)

lemma new_frame_in_parse:
  assumes "0 < n" "n + 4 \<le> MaxFrameLength" "n + 4 \<le> length s"
  shows "\<exists>f. XBeeFrame_new t (drop 4 (take (3 + n) s)) = Inr f \<and> wf_frame f"
  using assms by (simp add: XBeeFrame_new_def wf_frame_def)

definition parse_in_bounds :: "byte list \<Rightarrow> ParseStatus \<times> nat \<times> XBeeFrame option \<Rightarrow> bool" where
  "parse_in_bounds bs r \<longleftrightarrow> (case r of (st, consumed, fr) \<Rightarrow>
     consumed \<le> length bs \<and> (st = PS_notFound \<longrightarrow> 0 < consumed) \<and>
     (case fr of None \<Rightarrow> st \<noteq> PS_ok | Some f \<Rightarrow> st = PS_ok \<and> wf_frame f))"

lemma parse_bounded: "\<exists>r. parse e bs = Inr r \<and> parse_in_bounds bs r"
proof (cases "bs = []")
  case True
  then show ?thesis by (simp add: parse_def parse_in_bounds_def)
next
  case False
  define b where "b = (if e then unescape bs else bs)"
  define s where "s = dropWhile (\<lambda>b. b \<noteq> StartDelimiter) b"
  define n where "n = unat (s ! 1) * 256 + unat (s ! 2)"
  define raw where "raw = (\<lambda>n. if e then rawPrefixForDecoded bs n else n)"
  have raw: "k \<le> length b \<Longrightarrow> raw k \<le> length bs" "0 < k \<Longrightarrow> 0 < raw k" for k
    using rawPrefix_le [of bs k] rawPrefix_pos [of bs k] False by (auto simp: raw_def b_def)
  have len: "length s \<le> length b" by (simp add: s_def)
  have eq: "parse e bs =
      (if s = [] then Inr (PS_notFound, length bs, None)
       else if length s < 4 then Inr (PS_notEnoughData, if 0 < length b - length s then raw (length b - length s) else 0, None)
       else if n = 0 \<or> MaxFrameLength < n + 4 then Inr (PS_notFound, raw (length b - length s + 1), None)
       else if length s < 3 + n + 1 then Inr (PS_notEnoughData, if 0 < length b - length s then raw (length b - length s) else 0, None)
       else if sum32 (drop 3 (take (3 + n + 1) s)) AND 0xFF \<noteq> 0xFF
         then Inr (PS_badChecksum, raw (length b - length s + (3 + n + 1)), None)
       else rbind (XBeeFrame_new (s ! 3) (drop 4 (take (3 + n) s)))
              (\<lambda>f. Inr (PS_ok, raw (length b - length s + (3 + n + 1)), Some f)))"
    unfolding parse_def Let_def n_def s_def b_def raw_def using False by (simp only: if_False)
  have o: "raw (length b - length s) \<le> length bs" by (rule raw) simp
  have o1: "raw (length b - length s + 1) \<le> length bs \<and> 0 < raw (length b - length s + 1)" if "s \<noteq> []"
  proof -
    have "0 < length s" using that by simp
    then have "length b - length s + 1 \<le> length b" using len by linarith
    then show ?thesis using raw by simp
  qed
  have ot: "raw (length b - length s + (3 + n + 1)) \<le> length bs" if "\<not> length s < 3 + n + 1"
    using len that by (intro raw) simp
  show ?thesis
  proof (cases "s \<noteq> [] \<and> \<not> length s < 4 \<and> \<not> (n = 0 \<or> MaxFrameLength < n + 4) \<and> \<not> length s < 3 + n + 1 \<and>
      sum32 (drop 3 (take (3 + n + 1) s)) AND 0xFF = 0xFF")
    case True
    then obtain f where "XBeeFrame_new (s ! 3) (drop 4 (take (3 + n) s)) = Inr f" "wf_frame f"
      using new_frame_in_parse [of n s "s ! 3"] by auto
    with True ot show ?thesis by (simp add: eq parse_in_bounds_def)
  next
    case rest: False
    with o o1 ot False show ?thesis by (auto simp: eq parse_in_bounds_def)
  qed
qed

text \<open>
  Whatever bytes it is given, the XBee parser stays within them: the number of bytes it reports as
  consumed never exceeds the size of the buffer, so erasing them is safe; it makes progress whenever it
  reports that no frame was found; the frame it builds never exceeds the maximum, so the constructor
  it calls does not throw; and it delivers a frame exactly when it reports success.
\<close>

theorem xbee_parse_bounds:
  "case parse e bs of
     Inl _ \<Rightarrow> False
   | Inr (st, consumed, fr) \<Rightarrow> consumed \<le> length bs \<and> (consumed = 0 \<longrightarrow> st \<noteq> PS_notFound) \<and>
       (case fr of None \<Rightarrow> st \<noteq> PS_ok | Some f \<Rightarrow> st = PS_ok \<and> length (xf_data f) \<le> 1019)"
  using parse_bounded [of e bs]
  by (auto simp: parse_in_bounds_def wf_frame_def MaxFrameLength_def split: option.splits)

theorem xbee_parse_bounds_witness:
  "parse False [1, 2, 0x7E, 0xFF] = Inr (PS_notEnoughData, 2, None) \<and>
   (case parse True [0x7E, 0xFF, 0xFF, 0x7D] of Inl _ \<Rightarrow> False | Inr (_, consumed, _) \<Rightarrow> consumed \<le> 4)"
proof
  show "parse False [1, 2, 0x7E, 0xFF] = Inr (PS_notEnoughData, 2, None)" by code_simp
  show "case parse True [0x7E, 0xFF, 0xFF, 0x7D] of Inl _ \<Rightarrow> False | Inr (_, consumed, _) \<Rightarrow> consumed \<le> 4"
    using xbee_parse_bounds [where e = True and bs = "[0x7E, 0xFF, 0xFF, 0x7D]"]
    by (auto split: sum.splits)
qed

section \<open>The port\<close>

record XBeePort =
  xp_escapedApiMode :: bool
  xp_receiveBuffer :: "byte list"

definition XBeePort_open :: "XBeePort \<Rightarrow> XBeePort" where
  "XBeePort_open p = p\<lparr>xp_receiveBuffer := []\<rparr>"

definition XBeePort_close :: "XBeePort \<Rightarrow> XBeePort" where
  "XBeePort_close p = p\<lparr>xp_receiveBuffer := []\<rparr>"

text \<open>\<open>write\<close> is the count the serial channel returns for a buffer.\<close>

definition XBeePort_send :: "(byte list \<Rightarrow> nat) \<Rightarrow> XBeePort \<Rightarrow> XBeeFrame \<Rightarrow> unit res" where
  "XBeePort_send write p f =
     (let wire = encode (xp_escapedApiMode p) f
      in if write wire \<noteq> length wire then Inl (RuntimeError ''incomplete XBee frame write'') else Inr ())"

text \<open>
  The loop of \<open>receive\<close>: the buffer and the results of the coming reads. The result is the buffer,
  the unused reads, and the frame, \<open>None\<close> for a timeout, or the exception.
\<close>

function receive_loop :: "bool \<Rightarrow> byte list \<Rightarrow> byte list res list \<Rightarrow>
    byte list \<times> byte list res list \<times> XBeeFrame option res" where
  "receive_loop e buf reads =
     (if MaxFrameLength * 2 \<le> length buf
        then (buf, reads, Inl (RuntimeError ''XBee frame exceeds receive buffer''))
      else case parse e buf of
        Inl x \<Rightarrow> (buf, reads, Inl x)
      | Inr (st, consumed, fr) \<Rightarrow>
          if st = PS_ok then (drop consumed buf, reads, Inr fr)
          else if st = PS_badChecksum
            then (drop consumed buf, reads, Inl (RuntimeError ''invalid XBee frame checksum''))
          else if st = PS_notFound \<and> 0 < consumed then receive_loop e (drop consumed buf) reads
          else (case reads of
              [] \<Rightarrow> (drop consumed buf, [], Inr None)
            | Inl x # rest \<Rightarrow> (drop consumed buf, rest, Inl x)
            | Inr [] # rest \<Rightarrow> (drop consumed buf, rest, Inr None)
            | Inr chunk # rest \<Rightarrow> receive_loop e (drop consumed buf @ chunk) rest))"
  by pat_completeness auto

lemma parse_Nil [simp]: "parse e [] = Inr (PS_notEnoughData, 0, None)"
  by (simp add: parse_def)

lemma parse_notFound_nonempty: "parse e buf = Inr (PS_notFound, c, r) \<Longrightarrow> buf \<noteq> []"
  by auto

termination receive_loop
  by (relation "measures [\<lambda>(_, _, reads). length reads, \<lambda>(_, buf, _). length buf]")
     (auto dest!: parse_notFound_nonempty)

declare receive_loop.simps [simp del]

definition XBeePort_receive :: "XBeePort \<Rightarrow> byte list res list \<Rightarrow>
    XBeePort \<times> byte list res list \<times> XBeeFrame option res" where
  "XBeePort_receive p reads =
     (case receive_loop (xp_escapedApiMode p) (xp_receiveBuffer p) reads of
        (buf, rest, r) \<Rightarrow> (p\<lparr>xp_receiveBuffer := buf\<rparr>, rest, r))"

section \<open>Receiving a sequence of frames\<close>

text \<open>Calling \<open>receive\<close> a number of times.\<close>

fun receive_n :: "nat \<Rightarrow> XBeePort \<Rightarrow> byte list res list \<Rightarrow> XBeeFrame option res list" where
  "receive_n 0 p reads = []"
| "receive_n (Suc n) p reads =
     (case XBeePort_receive p reads of (p', reads', r) \<Rightarrow> r # receive_n n p' reads')"

definition serial_chunks :: "byte list list \<Rightarrow> bool" where
  "serial_chunks cs \<longleftrightarrow> (\<forall>c \<in> set cs. c \<noteq> [] \<and> length c \<le> 64)"

lemma append_take_prefix: "buf @ xs = enc @ rest \<Longrightarrow> length buf < length enc \<Longrightarrow> buf = take (length buf) enc"
  by (metis append_eq_conv_conj less_imp_le_nat take_append take_all_iff append_Nil2 diff_is_0_eq take_0)

lemma receive_frame:
  assumes "wf_frame f" and "length (encode e f) \<le> 1984"
  shows "buf @ concat cs = encode e f @ rest \<Longrightarrow> length buf < 2048 \<Longrightarrow> serial_chunks cs \<Longrightarrow>
    \<exists>buf' cs'. receive_loop e buf (map Inr cs) = (buf', map Inr cs', Inr (Some f)) \<and>
      buf' @ concat cs' = rest \<and> length buf' < 2048 \<and> serial_chunks cs'"
proof (induction cs arbitrary: buf)
  case Nil
  then have "parse e buf = Inr (PS_ok, length (encode e f), Some f)"
    using parse_encode [OF assms(1)] by simp
  with Nil show ?case
    by (intro exI [of _ rest] exI [of _ "[]"])
       (simp add: receive_loop.simps [of e "encode e f @ rest"] MaxFrameLength_def)
next
  case (Cons c cs)
  show ?case
  proof (cases "length buf < length (encode e f)")
    case True
    then have "buf = take (length buf) (encode e f)" using append_take_prefix Cons.prems(1) by blast
    then have "parse e buf = Inr (PS_notEnoughData, 0, None)" using parse_prefix [OF assms(1) True] by simp
    moreover obtain x xs where c: "c = x # xs" using Cons.prems(3) by (cases c) (auto simp: serial_chunks_def)
    ultimately have "receive_loop e buf (map Inr (c # cs)) = receive_loop e (buf @ c) (map Inr cs)"
      using Cons.prems(2) by (simp add: receive_loop.simps [of e buf] MaxFrameLength_def)
    moreover have "length (buf @ c) < 2048" "serial_chunks cs"
      using True assms(2) Cons.prems(3) by (auto simp: serial_chunks_def)
    ultimately show ?thesis using Cons.IH [of "buf @ c"] Cons.prems(1) by simp
  next
    case False
    have "take (length (encode e f)) (buf @ concat (c # cs)) = encode e f" by (simp only: Cons.prems(1)) simp
    then have "take (length (encode e f)) buf = encode e f" using False by simp
    then obtain tail where buf: "buf = encode e f @ tail" by (metis append_take_drop_id)
    with Cons.prems(1) have tail: "buf = encode e f @ tail" "tail @ concat (c # cs) = rest" by simp_all
    then have "parse e buf = Inr (PS_ok, length (encode e f), Some f)"
      using parse_encode [OF assms(1)] by simp
    with Cons.prems(2) tail have "receive_loop e buf (map Inr (c # cs)) = (tail, map Inr (c # cs), Inr (Some f))"
      by (simp add: receive_loop.simps [of e "encode e f @ tail"] MaxFrameLength_def)
    then show ?thesis using tail Cons.prems(2,3)
      by (intro exI [of _ tail] exI [of _ "c # cs"]) simp
  qed
qed

lemma receive_frames:
  "\<forall>f \<in> set fs. wf_frame f \<and> length (encode (xp_escapedApiMode p) f) \<le> 1984 \<Longrightarrow>
   xp_receiveBuffer p @ concat cs = concat (map (encode (xp_escapedApiMode p)) fs) @ rest \<Longrightarrow>
   length (xp_receiveBuffer p) < 2048 \<Longrightarrow> serial_chunks cs \<Longrightarrow>
   receive_n (length fs) p (map Inr cs) = map (\<lambda>f. Inr (Some f)) fs"
proof (induction fs arbitrary: p cs)
  case Nil
  then show ?case by simp
next
  case (Cons f fs)
  let ?e = "xp_escapedApiMode p"
  obtain buf cs' where r: "receive_loop ?e (xp_receiveBuffer p) (map Inr cs) = (buf, map Inr cs', Inr (Some f))"
    "buf @ concat cs' = concat (map (encode ?e) fs) @ rest" "length buf < 2048" "serial_chunks cs'"
    using receive_frame [of f ?e "xp_receiveBuffer p" cs "concat (map (encode ?e) fs) @ rest"] Cons.prems by auto
  then show ?case
    using Cons.IH [of "p\<lparr>xp_receiveBuffer := buf\<rparr>" cs'] Cons.prems(1) by (simp add: XBeePort_receive_def)
qed

lemma length_plain_encode: "wf_frame f \<Longrightarrow> length (encode False f) \<le> 1984"
  using length_raw_frame [of f] by (simp add: encode_def wf_frame_def MaxFrameLength_def)



section \<open>A full receive buffer\<close>

lemma receive_full: "2048 \<le> length buf \<Longrightarrow>
    receive_loop e buf reads = (buf, reads, Inl (RuntimeError ''XBee frame exceeds receive buffer''))"
  by (simp add: receive_loop.simps [of e buf] MaxFrameLength_def)

lemma receive_until_full:
  assumes "wf_frame f"
  shows "buf @ concat pre @ c = encode e f @ rest \<Longrightarrow> length (buf @ concat pre) < length (encode e f) \<Longrightarrow>
    length (buf @ concat pre) < 2048 \<Longrightarrow> 2048 \<le> length (buf @ concat pre @ c) \<Longrightarrow> serial_chunks (pre @ [c]) \<Longrightarrow>
    receive_loop e buf (map Inr (pre @ [c])) =
      (encode e f @ rest, [], Inl (RuntimeError ''XBee frame exceeds receive buffer''))"
proof (induction pre arbitrary: buf)
  case Nil
  have "buf = take (length buf) (encode e f)" using append_take_prefix [of buf c] Nil.prems(1,2) by simp
  then have "parse e buf = Inr (PS_notEnoughData, 0, None)"
    using parse_prefix [OF assms, of "length buf" e] Nil.prems(2) by simp
  moreover obtain x xs where c: "c = x # xs" using Nil.prems(5) by (cases c) (auto simp: serial_chunks_def)
  ultimately have "receive_loop e buf [Inr c] = receive_loop e (buf @ c) []"
    using Nil.prems(3) by (simp add: receive_loop.simps [of e buf] MaxFrameLength_def)
  then show ?case using Nil.prems(1,4) receive_full [of "buf @ c" e "[]"] by simp
next
  case (Cons d pre)
  have len: "length buf < length (encode e f)" using Cons.prems(2) by simp
  then have "buf = take (length buf) (encode e f)" using append_take_prefix [of buf "d @ concat pre @ c"] Cons.prems(1) by simp
  then have "parse e buf = Inr (PS_notEnoughData, 0, None)" using parse_prefix [OF assms len] by simp
  moreover obtain x xs where d: "d = x # xs" using Cons.prems(5) by (cases d) (auto simp: serial_chunks_def)
  ultimately have "receive_loop e buf (map Inr ((d # pre) @ [c])) = receive_loop e (buf @ d) (map Inr (pre @ [c]))"
    using Cons.prems(3) by (simp add: receive_loop.simps [of e buf] MaxFrameLength_def)
  also have "\<dots> = (encode e f @ rest, [], Inl (RuntimeError ''XBee frame exceeds receive buffer''))"
    using Cons.prems by (intro Cons.IH) (simp_all add: serial_chunks_def)
  finally show ?case .
qed

text \<open>
  A long escaped frame can wedge the port. If the chunk that completes a frame brings the buffer
  to twice the maximal frame length, \<open>receive\<close> throws although the whole frame is in the buffer, keeps
  the buffer, and so throws on every later call too, whatever the channel delivers, until the port is
  closed or reopened.
\<close>

theorem xbee_receive_wedged:
  assumes "XBeeFrame_new t d = Inr f" and "serial_chunks (pre @ [c])"
    and "concat (pre @ [c]) = encode e f @ rest" and "length (concat pre) < length (encode e f)"
    and "length (concat pre) < 2048" and "2048 \<le> length (concat (pre @ [c]))"
  shows "XBeePort_receive \<lparr>xp_escapedApiMode = e, xp_receiveBuffer = []\<rparr> (map Inr (pre @ [c])) =
      (\<lparr>xp_escapedApiMode = e, xp_receiveBuffer = encode e f @ rest\<rparr>, [],
       Inl (RuntimeError ''XBee frame exceeds receive buffer'')) \<and>
    XBeePort_receive \<lparr>xp_escapedApiMode = e, xp_receiveBuffer = encode e f @ rest\<rparr> reads =
      (\<lparr>xp_escapedApiMode = e, xp_receiveBuffer = encode e f @ rest\<rparr>, reads,
       Inl (RuntimeError ''XBee frame exceeds receive buffer''))"
proof -
  have "wf_frame f" using assms(1) by (auto simp: XBeeFrame_new_def wf_frame_def split: if_splits)
  then have "receive_loop e [] (map Inr (pre @ [c])) =
      (encode e f @ rest, [], Inl (RuntimeError ''XBee frame exceeds receive buffer''))"
    using assms by (intro receive_until_full) simp_all
  moreover have "2048 \<le> length (encode e f @ rest)" using assms(3,6) by simp
  ultimately show ?thesis using receive_full [of "encode e f @ rest" e reads]
    by (simp add: XBeePort_receive_def)
qed

text \<open>The bytes of a long frame of delimiters, delivered 64 at a time.\<close>

definition long_frame :: XBeeFrame where
  "long_frame = \<lparr>xf_type = 0, xf_data = replicate 1019 0x7E\<rparr>"

definition chop :: "nat \<Rightarrow> byte list \<Rightarrow> byte list list" where
  "chop n bs = map (\<lambda>i. take 64 (drop (64 * i) bs)) [0..<n]"

lemma chop_Suc: "chop (Suc n) bs = chop n bs @ [take 64 (drop (64 * n) bs)]"
  by (simp add: chop_def)

lemma concat_chop: "concat (chop n bs) = take (64 * n) bs"
proof (induction n)
  case 0
  then show ?case by (simp add: chop_def)
next
  case (Suc n)
  have "take (64 * n + 64) bs = take (64 * n) bs @ take 64 (drop (64 * n) bs)" by (rule take_add)
  with Suc show ?case by (simp add: chop_Suc add.commute)
qed

lemma serial_chunks_chop: "64 * n \<le> length bs \<Longrightarrow> serial_chunks (chop n bs)"
  by (auto simp: serial_chunks_def chop_def)

lemma chop_frame:
  assumes "1984 < length enc" "length enc \<le> 2048" "length tail = 64"
  shows "\<exists>pre c. serial_chunks (pre @ [c]) \<and> concat (pre @ [c]) = enc @ take (2048 - length enc) tail \<and>
    length (concat pre) = 1984 \<and> length (concat (pre @ [c])) = 2048"
proof -
  let ?b = "enc @ tail"
  have chop: "chop 31 ?b @ [take 64 (drop (64 * 31) ?b)] = chop 32 ?b"
    using chop_Suc [of 31 ?b] by simp
  have "serial_chunks (chop 32 ?b)" using assms by (intro serial_chunks_chop) simp
  moreover have "concat (chop 32 ?b) = enc @ take (2048 - length enc) tail" using assms by (simp add: concat_chop)
  moreover have "length (concat (chop 31 ?b)) = 1984" "length (concat (chop 32 ?b)) = 2048"
    using assms by (simp_all add: concat_chop)
  ultimately show ?thesis
    by (intro exI [of _ "chop 31 ?b"] exI [of _ "take 64 (drop (64 * 31) ?b)"]) (simp only: chop simp_thms)
qed

lemma length_escape_byte: "1 \<le> length (escape_byte b)" "length (escape_byte b) \<le> 2"
  by (simp_all add: escape_byte_def)

lemma length_escaped: "length (concat (map escape_byte xs)) \<le> 2 * length xs"
proof (induction xs)
  case (Cons x xs)
  then show ?case using length_escape_byte(2) [of x] by simp
qed simp

lemma length_long_frame: "1984 < length (encode True long_frame)" "length (encode True long_frame) \<le> 2048"
proof -
  have rep: "length (concat (map escape_byte (replicate n 0x7E))) = 2 * n" for n
    by (induction n) (simp_all add: escape_byte_def requiresEscape_def)
  have "\<exists>xs ys. tl (raw_frame long_frame) = xs @ replicate 1019 0x7E @ ys"
    by (simp add: raw_frame_def long_frame_def Let_def) (metis append_Cons append_Nil)
  then obtain xs ys where "tl (raw_frame long_frame) = xs @ replicate 1019 0x7E @ ys" by blast
  then show "1984 < length (encode True long_frame)"
    by (simp add: encode_def rep del: map_replicate concat_replicate_trivial)
  have "length (tl (raw_frame long_frame)) = 1023" by (simp add: length_raw_frame long_frame_def)
  then show "length (encode True long_frame) \<le> 2048"
    using length_escaped [of "tl (raw_frame long_frame)"] by (simp add: encode_def)
qed

theorem xbee_receive_wedged_witness:
  "\<exists>cs. serial_chunks cs \<and>
    snd (snd (XBeePort_receive \<lparr>xp_escapedApiMode = True, xp_receiveBuffer = []\<rparr> (map Inr cs))) =
      Inl (RuntimeError ''XBee frame exceeds receive buffer'')"
proof -
  have new: "XBeeFrame_new 0 (replicate 1019 0x7E) = Inr long_frame"
    by (simp add: XBeeFrame_new_def long_frame_def MaxFrameLength_def)
  obtain pre c rest where cs: "serial_chunks (pre @ [c])" "concat (pre @ [c]) = encode True long_frame @ rest"
    "length (concat pre) = 1984" "length (concat (pre @ [c])) = 2048"
    using chop_frame [OF length_long_frame length_replicate] by blast
  have "length (concat pre) < length (encode True long_frame)" "length (concat pre) < 2048"
    "2048 \<le> length (concat (pre @ [c]))"
    using cs(3,4) length_long_frame(1) by simp_all
  from xbee_receive_wedged [OF new cs(1,2) this, of "[]"] cs(1) show ?thesis by (metis snd_conv)
qed

end
