(* ===== verification/XBee_Sample.thy ===== *)
theory XBee_Sample
  imports XBee
begin

text \<open>
  The decoder of Zigbee IO samples (\<open>platform/protocols/XBee/src/IoSample.cpp\<close>): the payload of a
  frame of type \<open>zigbeeIoSample\<close> is an address, a channel mask each for the digital and the analog
  inputs, and one 16-bit field for the digital samples and for every analog channel present.
\<close>

record IoSample =
  io_sourceAddress :: "64 word"
  io_networkAddress :: "16 word"
  io_receiveOptions :: byte
  io_digitalChannelMask :: "16 word"
  io_analogChannelMask :: byte
  io_digitalSamples :: "16 word"
  io_analogSamples :: "16 word list"

definition readU16 :: "byte list \<Rightarrow> nat \<Rightarrow> (16 word \<times> nat) res" where
  "readU16 d offset =
     (if length d < offset + 2 then Inl (InvalidArgument ''truncated XBee IO sample'')
      else Inr (join16 (d ! offset) (d ! (offset + 1)), offset + 2))"

definition hasDigital :: "IoSample \<Rightarrow> nat \<Rightarrow> bool" where
  "hasDigital s ch \<longleftrightarrow> ch < 16 \<and> (ucast (io_digitalChannelMask s) :: 32 word) AND push_bit ch 1 \<noteq> 0"

definition digital :: "IoSample \<Rightarrow> nat \<Rightarrow> bool res" where
  "digital s ch =
     (if \<not> hasDigital s ch then Inl (OutOfRange ''XBee digital channel is not present'')
      else Inr ((ucast (io_digitalSamples s) :: 32 word) AND push_bit ch 1 \<noteq> 0))"

definition hasAnalog :: "IoSample \<Rightarrow> nat \<Rightarrow> bool" where
  "hasAnalog s ch \<longleftrightarrow> ch < length (io_analogSamples s) \<and>
     (ucast (io_analogChannelMask s) :: 32 word) AND push_bit ch 1 \<noteq> 0"

definition analog :: "IoSample \<Rightarrow> nat \<Rightarrow> 16 word res" where
  "analog s ch =
     (if \<not> hasAnalog s ch then Inl (OutOfRange ''XBee analog channel is not present'')
      else Inr (io_analogSamples s ! ch))"

fun analog_loop :: "byte list \<Rightarrow> nat list \<Rightarrow> IoSample \<Rightarrow> nat \<Rightarrow> (IoSample \<times> nat) res" where
  "analog_loop d [] s offset = Inr (s, offset)"
| "analog_loop d (ch # chs) s offset =
     (if hasAnalog s ch
      then rbind (readU16 d offset) (\<lambda>(v, offset').
             analog_loop d chs (s\<lparr>io_analogSamples := (io_analogSamples s)[ch := v]\<rparr>) offset')
      else analog_loop d chs s offset)"

definition IoSample_decode :: "XBeeFrame \<Rightarrow> IoSample res" where
  "IoSample_decode f =
     (let d = xf_data f in
      if xf_type f \<noteq> ft_zigbeeIoSample
        then Inl (InvalidArgument ''XBee frame is not a Zigbee IO sample'')
      else if length d < 15 then Inl (InvalidArgument ''truncated XBee IO sample header'')
      else
        let address = foldl (\<lambda>a i. push_bit 8 a OR ucast (d ! i)) 0 [0..<8] in
        rbind (readU16 d 8) (\<lambda>(network, o1).
          if d ! (o1 + 1) \<noteq> 1
            then Inl (InvalidArgument ''only single XBee IO samples are supported'')
          else rbind (readU16 d (o1 + 2)) (\<lambda>(digitalMask, o2).
            let s = \<lparr>io_sourceAddress = address, io_networkAddress = network,
                     io_receiveOptions = d ! o1, io_digitalChannelMask = digitalMask,
                     io_analogChannelMask = d ! o2, io_digitalSamples = 0,
                     io_analogSamples = replicate 8 0\<rparr> in
            rbind (if digitalMask \<noteq> 0 then readU16 d (o2 + 1) else Inr (0, o2 + 1))
              (\<lambda>(samples, o3).
            rbind (analog_loop d [0..<8] (s\<lparr>io_digitalSamples := samples\<rparr>) o3) (\<lambda>(s', o4).
              if o4 \<noteq> length d then Inl (InvalidArgument ''unexpected bytes after XBee IO sample'')
              else Inr s')))))"

section \<open>The layout of a sample\<close>

lemma mask_bit: "ch < 32 \<Longrightarrow> (w :: 32 word) AND push_bit ch 1 \<noteq> 0 \<longleftrightarrow> bit w ch"
  by (simp add: bit_iff_and_push_bit_not_eq_0)

lemma hasAnalog_bit:
  assumes "length (io_analogSamples s) = 8"
  shows "hasAnalog s ch \<longleftrightarrow> ch < 8 \<and> bit (io_analogChannelMask s) ch"
proof (cases "ch < 8")
  case True
  then have "hasAnalog s ch \<longleftrightarrow> bit (ucast (io_analogChannelMask s) :: 32 word) ch"
    unfolding hasAnalog_def using assms mask_bit [of ch] by (simp only: simp_thms) 
  then show ?thesis using True by (simp add: bit_simps)
next
  case False
  then show ?thesis using assms by (simp add: hasAnalog_def)
qed

lemma hasDigital_bit: "hasDigital s ch \<longleftrightarrow> ch < 16 \<and> bit (io_digitalChannelMask s) ch"
proof (cases "ch < 16")
  case True
  then have "hasDigital s ch \<longleftrightarrow> bit (ucast (io_digitalChannelMask s) :: 32 word) ch"
    unfolding hasDigital_def using mask_bit [of ch] by (simp only: simp_thms)
  then show ?thesis using True by (simp add: bit_simps)
next
  case False
  then show ?thesis by (simp add: hasDigital_def)
qed

text \<open>The fields after the header: the digital samples if there are any, then the analog ones.\<close>

definition analog_bytes :: "byte \<Rightarrow> (nat \<Rightarrow> 16 word) \<Rightarrow> nat list \<Rightarrow> byte list" where
  "analog_bytes am val chs = concat (map (\<lambda>ch. [hi8 (val ch), lo8 (val ch)]) (filter (bit am) chs))"

lemma readU16_at: "readU16 (pre @ [hi8 v, lo8 v] @ rest) (length pre) = Inr (v, length pre + 2)"
  by (simp add: readU16_def nth_append)

lemma analog_loop_reads:
  assumes "io_analogChannelMask s = am" "length (io_analogSamples s) = 8" "\<forall>ch \<in> set chs. ch < 8"
  shows "analog_loop (pre @ analog_bytes am val chs) chs s (length pre) =
    Inr (s\<lparr>io_analogSamples := fold (\<lambda>ch xs. xs[ch := val ch]) (filter (bit am) chs) (io_analogSamples s)\<rparr>,
         length (pre @ analog_bytes am val chs))"
  using assms
proof (induction chs arbitrary: s pre)
  case Nil
  then show ?case by (simp add: analog_bytes_def)
next
  case (Cons ch chs)
  show ?case
  proof (cases "bit am ch")
    case False
    with Cons show ?thesis by (simp add: hasAnalog_bit analog_bytes_def)
  next
    case True
    let ?s = "s\<lparr>io_analogSamples := (io_analogSamples s)[ch := val ch]\<rparr>"
    let ?pre = "pre @ [hi8 (val ch), lo8 (val ch)]"
    have bytes: "pre @ analog_bytes am val (ch # chs) = ?pre @ analog_bytes am val chs"
      using True by (simp add: analog_bytes_def)
    have "readU16 (?pre @ analog_bytes am val chs) (length pre) = Inr (val ch, length ?pre)"
      using readU16_at [of pre "val ch" "analog_bytes am val chs"] by simp
    moreover have "hasAnalog s ch" using Cons.prems True by (simp add: hasAnalog_bit)
    ultimately have "analog_loop (?pre @ analog_bytes am val chs) (ch # chs) s (length pre) =
        analog_loop (?pre @ analog_bytes am val chs) chs ?s (length ?pre)"
      by (simp del: append_assoc)
    with Cons.IH [of ?s ?pre] Cons.prems True show ?thesis
      unfolding bytes by (simp del: append_assoc)
  qed
qed

definition big_endian :: "byte list \<Rightarrow> 64 word" where
  "big_endian bs = foldl (\<lambda>a b. push_bit 8 a OR ucast b) 0 bs"

definition sample_bytes :: "byte list \<Rightarrow> 16 word \<Rightarrow> byte \<Rightarrow> 16 word \<Rightarrow> byte \<Rightarrow> 16 word \<Rightarrow> (nat \<Rightarrow> 16 word) \<Rightarrow> byte list" where
  "sample_bytes address network options dm am ds val =
     address @ [hi8 network, lo8 network, options, 1, hi8 dm, lo8 dm, am] @
     (if dm \<noteq> 0 then [hi8 ds, lo8 ds] else []) @ analog_bytes am val [0..<8]"

lemma length_fold_update [simp]: "length (fold (\<lambda>ch xs. xs[ch := val ch]) cs xs) = length xs"
  by (induction cs arbitrary: xs) simp_all

lemma fold_updates:
  assumes "i < length xs"
  shows "fold (\<lambda>ch xs. xs[ch := val ch]) cs xs ! i = (if i \<in> set cs then val i else xs ! i)"
  using assms by (induction cs arbitrary: xs) auto

lemma map_nth_upt_take: "\<not> length d < 15 \<Longrightarrow> map ((!) d) [0..<8] = take 8 d"
  by (rule nth_equalityI) (simp_all del: upt_Suc upt_rec_numeral)

lemma IoSample_decode_layout:
  assumes "length address = 8"
  shows "IoSample_decode \<lparr>xf_type = ft_zigbeeIoSample, xf_data = sample_bytes address network options dm am ds val\<rparr> =
    Inr \<lparr>io_sourceAddress = big_endian address, io_networkAddress = network, io_receiveOptions = options,
         io_digitalChannelMask = dm, io_analogChannelMask = am,
         io_digitalSamples = (if dm \<noteq> 0 then ds else 0),
         io_analogSamples = map (\<lambda>ch. if bit am ch then val ch else 0) [0..<8]\<rparr>"
proof -
  let ?head = "address @ [hi8 network, lo8 network, options, 1, hi8 dm, lo8 dm, am]"
  let ?dig = "if dm \<noteq> 0 then [hi8 ds, lo8 ds] else []"
  let ?d = "sample_bytes address network options dm am ds val"
  define s where "s = \<lparr>io_sourceAddress = big_endian address, io_networkAddress = network, io_receiveOptions = options,
         io_digitalChannelMask = dm, io_analogChannelMask = am,
         io_digitalSamples = 0, io_analogSamples = replicate 8 0\<rparr>"
  define k where "k = length (?head @ ?dig)"
  define samples where "samples = (if dm \<noteq> 0 then ds else 0)"
  have d: "?d = (?head @ ?dig) @ analog_bytes am val [0..<8]" by (simp add: sample_bytes_def)
  have fields: "?d ! 10 = options" "?d ! 11 = 1" "?d ! 14 = am"
    unfolding d using assms by (simp_all add: nth_append)
  have len: "\<not> length ?d < 15" unfolding d using assms by simp
  have net: "readU16 ?d 8 = Inr (network, 10)"
    using assms by (simp add: readU16_def sample_bytes_def nth_append)
  have dig: "readU16 ?d 12 = Inr (dm, 14)"
    using assms by (simp add: readU16_def sample_bytes_def nth_append)
  have ds: "(if dm \<noteq> 0 then readU16 ?d 15 else Inr (0, 15)) = Inr (samples, k)"
    using assms by (simp add: readU16_def sample_bytes_def nth_append samples_def k_def)
  have address: "foldl (\<lambda>a i. push_bit 8 a OR ucast (?d ! i)) 0 [0..<8] = big_endian address"
  proof -
    have "map ((!) ?d) [0..<8] = take 8 ?d" by (rule map_nth_upt_take [OF len])
    also have "\<dots> = address" using assms by (simp add: sample_bytes_def)
    finally have "map ((!) ?d) [0..<8] = address" .
    then show ?thesis
      unfolding big_endian_def using foldl_map [of "\<lambda>a b. push_bit 8 a OR ucast b" "0 :: 64 word" "(!) ?d" "[0..<8]"]
      by (simp only:)
  qed
  have "analog_loop ?d [0..<8] (s\<lparr>io_digitalSamples := samples\<rparr>) k =
      Inr (s\<lparr>io_digitalSamples := samples, io_analogSamples := fold (\<lambda>ch xs. xs[ch := val ch])
             (filter (bit am) [0..<8]) (replicate 8 0)\<rparr>, length ?d)"
    unfolding d k_def by (subst analog_loop_reads) (simp_all add: s_def del: upt_Suc upt_rec_numeral)
  moreover have "fold (\<lambda>ch xs. xs[ch := val ch]) (filter (bit am) [0..<8]) (replicate 8 0) =
        map (\<lambda>ch. if bit am ch then val ch else 0) [0..<8]"
    by (rule nth_equalityI) (simp_all add: fold_updates del: upt_Suc upt_rec_numeral)
  ultimately have loop: "analog_loop ?d [0..<8] (s\<lparr>io_digitalSamples := samples\<rparr>) k =
      Inr (s\<lparr>io_digitalSamples := samples,
             io_analogSamples := map (\<lambda>ch. if bit am ch then val ch else 0) [0..<8]\<rparr>, length ?d)"
    by (simp only:)
  have "IoSample_decode \<lparr>xf_type = ft_zigbeeIoSample, xf_data = ?d\<rparr> =
      Inr (s\<lparr>io_digitalSamples := samples, io_analogSamples := map (\<lambda>ch. if bit am ch then val ch else 0) [0..<8]\<rparr>)"
    unfolding IoSample_decode_def Let_def XBeeFrame.simps address net
    using len fields ds dig loop [unfolded s_def IoSample.update_convs]
    by (cases "dm = 0") (simp_all add: s_def del: upt_Suc upt_rec_numeral)
  then show ?thesis by (simp add: s_def samples_def del: upt_Suc upt_rec_numeral)
qed

end
