(* ===== verification/CAN.thy ===== *)
theory CAN
  imports Protocol_IO
begin

text \<open>
  The CAN layer of \<open>platform/protocols/CAN\<close>: frames (\<open>CanEndpoint.h\<close>), the signal decoder
  (\<open>SignalCodec.cpp\<close>) and the loopback endpoint (\<open>LoopbackCanEndpoint.cpp\<close>). Sizes are \<open>size_t\<close>, kept
  at 64 bits because the bounds check adds two of them. \<open>frame.data\<close> is an array of 64 bytes; an
  index past it is undefined behaviour in C++ and the value \<open>out_of_bounds\<close> here. \<open>decodeScaled\<close>
  computes with \<open>double\<close>; it is part of the sensor (theory \<open>Sensors\<close>).
\<close>

section \<open>Frames\<close>

record CanFrame =
  cf_id :: "32 word"
  cf_extended :: bool
  cf_remoteRequest :: bool
  cf_error :: bool
  cf_length :: byte
  cf_data :: "byte list"

definition CanFrame_default :: CanFrame where
  "CanFrame_default = \<lparr>cf_id = 0, cf_extended = False, cf_remoteRequest = False, cf_error = False,
     cf_length = 0, cf_data = replicate 64 0\<rparr>"

definition out_of_bounds :: exc where
  "out_of_bounds = OtherException ''index past the end of an array''"

definition data_at :: "CanFrame \<Rightarrow> nat \<Rightarrow> byte res" where
  "data_at f i = (if i < length (cf_data f) then Inr (cf_data f ! i) else Inl out_of_bounds)"

section \<open>The signal decoder\<close>

datatype BitOrder = LittleEndian | BigEndian

fun little_loop :: "CanFrame \<Rightarrow> 64 word \<Rightarrow> nat list \<Rightarrow> 64 word \<Rightarrow> 64 word res" where
  "little_loop f bitOffset [] v = Inr v"
| "little_loop f bitOffset (i # is) v =
     (let absolute = bitOffset + of_nat i in
      rbind (data_at f (unat absolute div 8)) (\<lambda>b.
        little_loop f bitOffset is
          (v OR push_bit i (ucast (drop_bit (unat absolute mod 8) b AND 1)))))"

fun big_loop :: "CanFrame \<Rightarrow> nat \<Rightarrow> nat \<Rightarrow> nat \<Rightarrow> 64 word \<Rightarrow> 64 word res" where
  "big_loop f 0 byt bt v = Inr v"
| "big_loop f (Suc n) byt bt v =
     rbind (data_at f byt) (\<lambda>b.
       let v' = push_bit 1 v OR ucast (drop_bit bt b AND 1) in
       if bt = 0 then big_loop f n (byt + 1) 7 v' else big_loop f n byt (bt - 1) v')"

definition decodeUnsigned :: "CanFrame \<Rightarrow> 64 word \<Rightarrow> 64 word \<Rightarrow> BitOrder \<Rightarrow> 64 word res" where
  "decodeUnsigned f bitOffset bitLength order =
     (if bitLength = 0 \<or> 64 < bitLength \<or> ucast (cf_length f) * 8 < bitOffset + bitLength
        then Inl (OutOfRange ''CAN signal exceeds frame payload'')
      else case order of
          LittleEndian \<Rightarrow> little_loop f bitOffset [0..<unat bitLength] 0
        | BigEndian \<Rightarrow> big_loop f (unat bitLength) (unat bitOffset div 8) (unat bitOffset mod 8) 0)"

text \<open>The result is the bit pattern of the \<open>int64_t\<close>.\<close>

definition decodeSigned :: "CanFrame \<Rightarrow> 64 word \<Rightarrow> 64 word \<Rightarrow> BitOrder \<Rightarrow> 64 word res" where
  "decodeSigned f bitOffset bitLength order =
     rbind (decodeUnsigned f bitOffset bitLength order) (\<lambda>raw.
       if bitLength = 64 then Inr raw
       else let s = push_bit (unat (bitLength - 1)) 1 in Inr ((raw XOR s) - s))"

section \<open>The loopback endpoint\<close>

record Loopback =
  lb_frames :: "CanFrame list"
  lb_handler :: "nat option"
  lb_open :: bool

definition Loopback_new :: "string \<Rightarrow> Loopback res" where
  "Loopback_new name =
     (if name = [] then Inl (InvalidArgument ''loopback CAN endpoint name must not be empty'')
      else Inr \<lparr>lb_frames = [], lb_handler = None, lb_open = False\<rparr>)"

definition lb_open_op :: "Loopback \<Rightarrow> Loopback" where
  "lb_open_op s = s\<lparr>lb_open := True\<rparr>"

definition lb_close :: "Loopback \<Rightarrow> Loopback" where
  "lb_close s = s\<lparr>lb_open := False, lb_frames := []\<rparr>"

definition lb_send :: "CanFrame \<Rightarrow> (Loopback, unit) io" where
  "lb_send f s =
     (if length (cf_data f) < unat (cf_length f)
        then (s, Inl (OutOfRange ''CAN frame payload exceeds 64 bytes''))
      else if \<not> cf_error f \<and> (\<not> cf_extended f \<and> 0x7FF < cf_id f \<or> cf_extended f \<and> 0x1FFFFFFF < cf_id f)
        then (s, Inl (OutOfRange ''CAN frame identifier exceeds selected format''))
      else if \<not> lb_open s then (s, Inl (LogicError ''loopback CAN endpoint is not open''))
      else (s\<lparr>lb_frames := lb_frames s @ [f]\<rparr>, Inr ()))"

text \<open>
  \<open>receive\<close> up to its wait, and from the end of the wait: because its condition holds, or because of
  the timeout. The handler to call with the frame is part of the result.
\<close>

definition lb_receive_enter :: "(Loopback, unit) io" where
  "lb_receive_enter s =
     (if \<not> lb_open s then (s, Inl (LogicError ''loopback CAN endpoint is not open'')) else (s, Inr ()))"

definition lb_receive_finish :: "(Loopback, (CanFrame \<times> nat option) option) io" where
  "lb_receive_finish s =
     (if lb_frames s = [] \<and> lb_open s then (s, Inr None)
      else if \<not> lb_open s then (s, Inl (RuntimeError ''loopback CAN endpoint disconnected''))
      else (s\<lparr>lb_frames := tl (lb_frames s)\<rparr>, Inr (Some (hd (lb_frames s), lb_handler s))))"

definition lb_setFrameHandler :: "nat option \<Rightarrow> Loopback \<Rightarrow> Loopback" where
  "lb_setFrameHandler h s = s\<lparr>lb_handler := h\<rparr>"

definition lb_injectError :: "32 word \<Rightarrow> (Loopback, unit) io" where
  "lb_injectError errorMask = lb_send (CanFrame_default\<lparr>cf_id := errorMask, cf_error := True\<rparr>)"

definition valid_frame :: "CanFrame \<Rightarrow> bool" where
  "valid_frame f \<longleftrightarrow> unat (cf_length f) \<le> length (cf_data f) \<and>
     (cf_error f \<or> cf_id f \<le> (if cf_extended f then 0x1FFFFFFF else 0x7FF))"

definition lb_inv :: "Loopback \<Rightarrow> bool" where
  "lb_inv s \<longleftrightarrow> list_all valid_frame (lb_frames s) \<and> (\<not> lb_open s \<longrightarrow> lb_frames s = [])"

lemma lb_ops_inv:
  assumes "lb_inv s"
  shows "lb_inv (lb_open_op s)" "lb_inv (lb_close s)" "lb_inv (lb_setFrameHandler h s)"
    "lb_inv (fst (lb_send f s))" "lb_inv (fst (lb_injectError m s))" "lb_inv (fst (lb_receive_finish s))"
proof -
  have send: "lb_inv (fst (lb_send g s))" for g
    using assms by (auto simp: lb_inv_def lb_send_def valid_frame_def not_less)
  then show "lb_inv (fst (lb_send f s))" "lb_inv (fst (lb_injectError m s))"
    by (simp_all add: lb_injectError_def)
  show "lb_inv (fst (lb_receive_finish s))"
    using assms by (cases "lb_frames s") (auto simp: lb_inv_def lb_receive_finish_def)
qed (use assms in \<open>simp_all add: lb_inv_def lb_open_op_def lb_close_def lb_setFrameHandler_def\<close>)

section \<open>Little-endian signals\<close>

text \<open>Bit \<open>p\<close> of the payload, counting from the least significant bit of its first byte.\<close>

definition payload_bit :: "CanFrame \<Rightarrow> nat \<Rightarrow> bool" where
  "payload_bit f p \<longleftrightarrow> bit (cf_data f ! (p div 8)) (p mod 8)"

lemma bit_extract: "bit (push_bit i (ucast (drop_bit k (b :: byte) AND 1)) :: 64 word) j \<longleftrightarrow>
    j = i \<and> i < 64 \<and> bit b k"
  by (auto simp: bit_simps)

lemma little_loop_bits:
  assumes "length (cf_data f) = 64" and "\<forall>i \<in> set is. i < 64 \<and> unat bitOffset + i < 512"
  shows "\<exists>w. little_loop f bitOffset is v = Inr w \<and>
    (\<forall>j. bit w j \<longleftrightarrow> bit v j \<or> (j \<in> set is \<and> payload_bit f (unat bitOffset + j)))"
  using assms(2)
proof (induction "is" arbitrary: v)
  case Nil
  then show ?case by simp
next
  case (Cons i "is")
  have "unat bitOffset + i < 2 ^ 64" using Cons.prems by simp
  then have pos: "unat (bitOffset + of_nat i) = unat bitOffset + i"
    by (simp add: unat_word_ariths unat_of_nat)
  let ?b = "cf_data f ! ((unat bitOffset + i) div 8)"
  let ?v = "v OR push_bit i (ucast (drop_bit ((unat bitOffset + i) mod 8) ?b AND 1)) :: 64 word"
  have "(unat bitOffset + i) div 8 < 64" using Cons.prems by (simp add: div_less_iff_less_mult)
  then have "data_at f ((unat bitOffset + i) div 8) = Inr ?b"
    using assms(1) by (simp add: data_at_def)
  then have "little_loop f bitOffset (i # is) v = little_loop f bitOffset is ?v"
    by (simp only: little_loop.simps Let_def pos rbind_simps)
  moreover obtain w where "little_loop f bitOffset is ?v = Inr w"
    "\<forall>j. bit w j \<longleftrightarrow> bit ?v j \<or> (j \<in> set is \<and> payload_bit f (unat bitOffset + j))"
    using Cons.IH [of ?v] Cons.prems by (meson list.set_intros(2))
  moreover have "bit ?v j \<longleftrightarrow> bit v j \<or> (j = i \<and> payload_bit f (unat bitOffset + i))" for j
    using Cons.prems by (auto simp: bit_or_iff bit_extract payload_bit_def)
  ultimately show ?case by auto
qed

lemma clear_above: "\<forall>j \<ge> n. \<not> bit w j \<Longrightarrow> (w :: 64 word) = take_bit n w"
proof (rule bit_word_eqI)
  fix j
  assume "\<forall>j \<ge> n. \<not> bit w j"
  then show "bit w j = bit (take_bit n w) j" by (cases "j < n") (simp_all add: bit_take_bit_iff)
qed

lemma uint_bound: "\<forall>j \<ge> n. \<not> bit w j \<Longrightarrow> uint (w :: 64 word) < 2 ^ n"
proof -
  assume "\<forall>j \<ge> n. \<not> bit w j"
  then have "w = take_bit n w" by (rule clear_above)
  then have "uint w = take_bit n (uint w)" by (metis unsigned_take_bit_eq)
  then show ?thesis by (metis take_bit_int_less_exp)
qed

text \<open>The conversion from an unsigned to a signed value by \<open>(raw ^ sign) - sign\<close>.\<close>

lemma sint_of_int_range: "- (2 ^ 63) \<le> k \<Longrightarrow> k < 2 ^ 63 \<Longrightarrow> sint (word_of_int k :: 64 word) = k"
  by (simp add: sint_sbintrunc' signed_take_bit_int_eq_self)

lemma sign_extend:
  fixes w :: "64 word"
  assumes n: "0 < n" "n < 64" and clear: "\<forall>j \<ge> n. \<not> bit w j"
  shows "sint ((w XOR push_bit (n - 1) 1) - push_bit (n - 1) 1) =
    (if bit w (n - 1) then uint w - 2 ^ n else uint w)"
proof -
  define s where "s = (push_bit (n - 1) 1 :: 64 word)"
  have le: "(2 :: int) ^ n \<le> 2 ^ 63" by (rule power_increasing) (use n in simp_all)
  have u: "uint w < 2 ^ n" by (rule uint_bound [OF clear])
  have bits: "bit s j \<longleftrightarrow> j = n - 1" for j using n by (auto simp: s_def bit_simps)
  have "sint ((w XOR s) - s) = (if bit w (n - 1) then uint w - 2 ^ n else uint w)"
  proof (cases "bit w (n - 1)")
    case True
    have "(w XOR s) AND s = 0" by (rule bit_word_eqI) (use True bits in \<open>auto simp: bit_simps\<close>)
    then have "(w XOR s) + s = (w XOR s) OR s" by (rule disjunctive_add_eq_or)
    also have "\<dots> = w" by (rule bit_word_eqI) (use True bits in \<open>auto simp: bit_simps\<close>)
    finally have "(w XOR s) - s = w - (s + s)" by (simp add: algebra_simps)
    also have "s + s = 2 ^ n" using n by (simp add: s_def push_bit_eq_mult flip: power_Suc mult_2)
    finally have "(w XOR s) - s = word_of_int (uint w - 2 ^ n)" by simp
    moreover have "- (2 ^ 63) \<le> uint w - 2 ^ n" "uint w - 2 ^ n < 2 ^ 63"
      using le u unsigned_greater_eq [of w, where 'a = int] by linarith+
    ultimately show ?thesis using True by (simp only: sint_of_int_range if_True)
  next
    case False
    have "w AND s = 0" by (rule bit_word_eqI) (use False bits in \<open>auto simp: bit_simps\<close>)
    then have "w XOR s = w + s" by (simp add: disjunctive_add_eq_xor)
    then have "(w XOR s) - s = word_of_int (uint w)" by simp
    moreover have "- (2 ^ 63) \<le> uint w" "uint w < 2 ^ 63"
      using le u unsigned_greater_eq [of w, where 'a = int] by linarith+
    ultimately show ?thesis using False by (simp only: sint_of_int_range if_False)
  qed
  then show ?thesis by (simp only: s_def)
qed

lemma sint_full: "sint (w :: 64 word) = (if bit w 63 then uint w - 2 ^ 64 else uint w)"
proof -
  have "sint w = signed_take_bit 63 (uint w)" by (simp add: sint_uint)
  also have "\<dots> = take_bit 64 (uint w) - 2 ^ 64 * of_bool (bit (uint w) 63)"
    by (simp add: signed_take_bit_eq_take_bit_minus)
  also have "take_bit 64 (uint w) = uint w"
  proof (rule take_bit_int_eq_self)
    have "uint w < 2 ^ LENGTH(64)" by (rule unsigned_less)
    then show "uint w < 2 ^ 64" by simp
  qed simp
  finally show ?thesis by (simp add: bit_uint_iff)
qed

lemma decodeSigned_value:
  assumes "decodeUnsigned f off n order = Inr w" and "0 < unat n" "unat n \<le> 64"
    and "\<forall>j \<ge> unat n. \<not> bit w j"
  shows "\<exists>z. decodeSigned f off n order = Inr z \<and>
    sint z = (if bit w (unat n - 1) then uint w - 2 ^ unat n else uint w)"
proof (cases "n = 64")
  case True
  then have "unat n = 64" by simp
  with assms(1) True show ?thesis by (simp add: decodeSigned_def sint_full)
next
  case False
  then have "unat n \<noteq> 64" by (simp add: word_unat_eq_iff)
  then have "unat n < 64" using assms(3) by simp
  moreover have "unat (n - 1) = unat n - 1"
    using assms(2) by (metis unat_eq_zero unat_minus_one less_numeral_extra(3))
  ultimately show ?thesis
    using assms(1,2,4) False sign_extend [of "unat n" w] by (simp add: decodeSigned_def Let_def)
qed

lemma decode_guard:
  fixes off n :: "64 word"
  assumes "0 < unat n" "unat n \<le> 64" "unat off + unat n \<le> 8 * unat (cf_length f)"
  shows "\<not> (n = 0 \<or> 64 < n \<or> ucast (cf_length f) * 8 < off + n)"
proof -
  have l: "unat (cf_length f) < 256" by (rule unat_byte)
  have "unat (ucast (cf_length f) :: 64 word) = unat (cf_length f)"
    using l by (simp add: unsigned_ucast_eq take_bit_nat_eq_self)
  then have "unat (ucast (cf_length f) * 8 :: 64 word) = unat (cf_length f) * 8"
    using l by (simp add: unat_word_ariths)
  moreover have "unat (off + n) = unat off + unat n"
    using assms(3) l by (simp add: unat_word_ariths)
  ultimately show ?thesis
    using assms by (auto simp: word_less_nat_alt)
qed

text \<open>
  A little-endian CAN signal that lies within the payload is decoded exactly: bit \<open>j\<close> of the
  unsigned value is bit \<open>bitOffset + j\<close> of the payload and no other bit is set, and the signed value is
  the two's complement reading of these bits, for every length from 1 to 64.
\<close>

theorem can_little_endian_signal:
  assumes "length (cf_data f) = 64" and "unat (cf_length f) \<le> 64"
    and "0 < unat n" "unat n \<le> 64" and "unat off + unat n \<le> 8 * unat (cf_length f)"
  shows "\<exists>w z. decodeUnsigned f off n LittleEndian = Inr w \<and>
    (\<forall>j. bit w j \<longleftrightarrow> j < unat n \<and> payload_bit f (unat off + j)) \<and>
    decodeSigned f off n LittleEndian = Inr z \<and>
    sint z = (if payload_bit f (unat off + unat n - 1) then uint w - 2 ^ unat n else uint w)"
proof -
  have "\<forall>i \<in> set [0..<unat n]. i < 64 \<and> unat off + i < 512" using assms by auto
  then obtain w where w: "little_loop f off [0..<unat n] 0 = Inr w"
    "\<forall>j. bit w j \<longleftrightarrow> j < unat n \<and> payload_bit f (unat off + j)"
    using little_loop_bits [OF assms(1), of "[0..<unat n]" off 0] by auto
  have dec: "decodeUnsigned f off n LittleEndian = Inr w"
    using decode_guard [OF assms(3-5)] w(1) by (simp add: decodeUnsigned_def)
  obtain z where "decodeSigned f off n LittleEndian = Inr z"
    "sint z = (if bit w (unat n - 1) then uint w - 2 ^ unat n else uint w)"
    using decodeSigned_value [OF dec assms(3,4)] w(2) by auto
  moreover have "bit w (unat n - 1) = payload_bit f (unat off + unat n - 1)"
    using w(2) assms(3) by simp
  ultimately show ?thesis using dec w(2) by auto
qed

theorem can_little_endian_signal_witness:
  "\<exists>w z. decodeUnsigned (CanFrame_default\<lparr>cf_length := 2, cf_data := [0xA0, 0x0F] @ replicate 62 0\<rparr>) 5 7 LittleEndian = Inr w \<and>
     (\<forall>j. bit w j \<longleftrightarrow> j < 7 \<and>
       payload_bit (CanFrame_default\<lparr>cf_length := 2, cf_data := [0xA0, 0x0F] @ replicate 62 0\<rparr>) (5 + j)) \<and>
     decodeSigned (CanFrame_default\<lparr>cf_length := 2, cf_data := [0xA0, 0x0F] @ replicate 62 0\<rparr>) 5 7 LittleEndian = Inr z"
  using can_little_endian_signal [of "CanFrame_default\<lparr>cf_length := 2, cf_data := [0xA0, 0x0F] @ replicate 62 0\<rparr>" 7 5]
  by auto

section \<open>Big-endian signals\<close>

text \<open>Bit \<open>q\<close> of the payload, counting from the most significant bit of its first byte.\<close>

definition msb_bit :: "CanFrame \<Rightarrow> nat \<Rightarrow> bool" where
  "msb_bit f q \<longleftrightarrow> bit (cf_data f ! (q div 8)) (7 - q mod 8)"

lemma bit_shift_in: "bit (push_bit 1 (v :: 64 word) OR ucast (drop_bit k (b :: byte) AND 1)) j \<longleftrightarrow>
    (if j = 0 then bit b k else j < 64 \<and> bit v (j - 1))"
proof -
  have "bit (push_bit 1 v) j \<longleftrightarrow> 1 \<le> j \<and> j < 64 \<and> bit v (j - 1)"
    unfolding bit_push_bit_iff by simp
  moreover have "bit (ucast (drop_bit k b AND 1) :: 64 word) j \<longleftrightarrow> j = 0 \<and> bit b k"
    by (auto simp: bit_simps)
  ultimately show ?thesis unfolding bit_or_iff by (cases "j = 0") simp_all
qed

lemma big_loop_bits:
  assumes "length (cf_data f) = 64" and "bt \<le> 7" and "n \<le> 64"
  shows "if 8 * byt + (7 - bt) + n \<le> 512
    then \<exists>w. big_loop f n byt bt v = Inr w \<and> (\<forall>j. bit w j \<longleftrightarrow>
      (if j < n then msb_bit f (8 * byt + (7 - bt) + n - 1 - j) else j < 64 \<and> bit v (j - n)))
    else n \<noteq> 0 \<longrightarrow> big_loop f n byt bt v = Inl out_of_bounds"
  using assms(2,3)
proof (induction n arbitrary: byt bt v)
  case 0
  then show ?case by (auto dest: bit_imp_le_length)
next
  case (Suc n)
  let ?q = "8 * byt + (7 - bt)"
  let ?v = "push_bit 1 v OR ucast (drop_bit bt (cf_data f ! byt) AND 1) :: 64 word"
  define byt' where "byt' = (if bt = 0 then byt + 1 else byt)"
  define bt' where "bt' = (if bt = 0 then 7 else bt - 1)"
  have q: "8 * byt' + (7 - bt') = ?q + 1" "bt' \<le> 7" using Suc.prems by (auto simp: byt'_def bt'_def)
  have "?q mod 8 = 7 - bt" by (subst mod_mult_self4) simp
  then have qd: "?q div 8 = byt" "7 - ?q mod 8 = bt" using Suc.prems by auto
  show ?case
  proof (cases "byt < 64")
    case False
    then show ?thesis using assms(1) by (simp add: data_at_def)
  next
    case True
    then have step: "big_loop f (Suc n) byt bt v = big_loop f n byt' bt' ?v"
      using assms(1) by (simp add: data_at_def byt'_def bt'_def Let_def)
    have b: "bit ?v j \<longleftrightarrow> (if j = 0 then msb_bit f ?q else j < 64 \<and> bit v (j - 1))" for j
      unfolding bit_shift_in msb_bit_def qd by simp
    note IH = Suc.IH [OF q(2), of byt' ?v]
    show ?thesis
    proof (cases "?q + Suc n \<le> 512")
      case le: True
      then obtain w where w: "big_loop f n byt' bt' ?v = Inr w" "\<forall>j. bit w j \<longleftrightarrow>
          (if j < n then msb_bit f (?q + 1 + n - 1 - j) else j < 64 \<and> bit ?v (j - n))"
        using IH Suc.prems(2) unfolding q(1) by auto
      have "bit w j \<longleftrightarrow> (if j < Suc n then msb_bit f (?q + Suc n - 1 - j) else j < 64 \<and> bit v (j - Suc n))" for j
      proof (cases "j < n")
        case True
        then show ?thesis using w(2) by simp
      next
        case False
        then show ?thesis using w(2) b [of "j - n"] Suc.prems(2) by (cases "j = n") auto
      qed
      then show ?thesis using le step w(1) by simp
    next
      case gt: False
      then have "n \<noteq> 0" using True Suc.prems(1) by auto
      then have "big_loop f n byt' bt' ?v = Inl out_of_bounds"
        using IH Suc.prems(2) gt unfolding q(1) by auto
      then show ?thesis using gt step by simp
    qed
  qed
qed

lemma decode_big_endian:
  assumes "length (cf_data f) = 64" and "0 < unat n" "unat n \<le> 64"
    and "unat off + unat n \<le> 8 * unat (cf_length f)"
    and "q = 8 * (unat off div 8) + (7 - unat off mod 8)"
  shows "if q + unat n \<le> 512
    then \<exists>w. decodeUnsigned f off n BigEndian = Inr w \<and>
           (\<forall>j. bit w j \<longleftrightarrow> j < unat n \<and> msb_bit f (q + unat n - 1 - j))
    else decodeUnsigned f off n BigEndian = Inl out_of_bounds"
proof -
  have dec: "decodeUnsigned f off n BigEndian = big_loop f (unat n) (unat off div 8) (unat off mod 8) 0"
    using decode_guard [OF assms(2-4)] by (simp add: decodeUnsigned_def)
  have "unat off mod 8 \<le> 7" by (simp add: less_Suc_eq_le [symmetric])
  from big_loop_bits [OF assms(1) this assms(3), of "unat off div 8" 0] show ?thesis
    unfolding dec assms(5) [symmetric] using assms(2) by (auto split: if_splits)
qed

text \<open>
  A big-endian signal is read from its most significant bit, which is bit \<open>bitOffset mod 8\<close> of byte
  \<open>bitOffset div 8\<close>, towards the later bytes. When the call passes the length check, the decoder returns
  exactly these bits if they end within the 64-byte array and reads past the array otherwise; whether
  they end within the payload of the frame plays no part.
\<close>

theorem can_big_endian_signal:
  assumes "length (cf_data f) = 64" and "0 < unat n" "unat n \<le> 64"
    and "unat off + unat n \<le> 8 * unat (cf_length f)"
    and "q = 8 * (unat off div 8) + (7 - unat off mod 8)"
  shows "if q + unat n \<le> 512
    then \<exists>w. decodeUnsigned f off n BigEndian = Inr w \<and>
           (\<forall>j. bit w j \<longleftrightarrow> j < unat n \<and> msb_bit f (q + unat n - 1 - j))
    else decodeUnsigned f off n BigEndian = Inl out_of_bounds"
  by (rule decode_big_endian [OF assms])

theorem can_big_endian_signal_witness:
  "\<exists>w. decodeUnsigned (CanFrame_default\<lparr>cf_length := 3\<rparr>) 7 16 BigEndian = Inr w \<and>
     (\<forall>j. bit w j \<longleftrightarrow> j < 16 \<and> msb_bit (CanFrame_default\<lparr>cf_length := 3\<rparr>) (15 - j))"
  using can_big_endian_signal [of "CanFrame_default\<lparr>cf_length := 3\<rparr>" 16 7 0]
  by (simp add: CanFrame_default_def)

text \<open>
  The consequences: a 16-bit big-endian signal that fills a two-byte frame is refused; in a one-byte
  frame an 8-bit signal at offset 0 is accepted and takes seven bits from the byte after the payload; in
  a 64-byte frame the same at offset 504 reads past the array; and an offset whose sum with the length
  wraps around passes the check and reads far outside.
\<close>

theorem can_length_check_gaps:
  "decodeUnsigned (CanFrame_default\<lparr>cf_length := 2\<rparr>) 7 16 BigEndian =
     Inl (OutOfRange ''CAN signal exceeds frame payload'') \<and>
   decodeUnsigned (CanFrame_default\<lparr>cf_length := 1, cf_data := [1, 0xFE] @ replicate 62 0\<rparr>) 0 8 BigEndian =
     Inr 0xFF \<and>
   decodeUnsigned (CanFrame_default\<lparr>cf_length := 64\<rparr>) 504 8 BigEndian = Inl out_of_bounds \<and>
   decodeUnsigned (CanFrame_default\<lparr>cf_length := 8\<rparr>) (- 1) 1 LittleEndian = Inl out_of_bounds"
proof (intro conjI)
  show "decodeUnsigned (CanFrame_default\<lparr>cf_length := 2\<rparr>) 7 16 BigEndian =
     Inl (OutOfRange ''CAN signal exceeds frame payload'')"
    by (simp add: decodeUnsigned_def)
  show "decodeUnsigned (CanFrame_default\<lparr>cf_length := 1, cf_data := [1, 0xFE] @ replicate 62 0\<rparr>) 0 8 BigEndian =
     Inr 0xFF"
    by code_simp
  show "decodeUnsigned (CanFrame_default\<lparr>cf_length := 64\<rparr>) 504 8 BigEndian = Inl out_of_bounds"
    using decode_big_endian [of "CanFrame_default\<lparr>cf_length := 64\<rparr>" 8 504 511]
    by (simp add: CanFrame_default_def)
  have "unat (- 1 :: 64 word) = 2 ^ 64 - 1" by (simp add: unsigned_minus_1_eq_mask mask_eq_exp_minus_1)
  then show "decodeUnsigned (CanFrame_default\<lparr>cf_length := 8\<rparr>) (- 1) 1 LittleEndian = Inl out_of_bounds"
    by (simp add: decodeUnsigned_def data_at_def CanFrame_default_def Let_def)
qed

end
