(* ===== verification/Device_Core.thy ===== *)
theory Device_Core
  imports ModbusDevice
begin

text \<open>
  What the devices with a receive thread share (\<open>CanSignalSensor\<close>, \<open>XBeeAnalogSensor\<close>,
  \<open>NmeaGnssDevice\<close> and \<open>SerialPortDevice\<close> under \<open>platform/devices\<close>): a channel, a state, diagnostics and a
  failure record, \<open>start\<close> and \<open>stop\<close>, and the loop of the thread, which reopens a closed channel, hands
  what it receives to the device and closes the channel when that fails. The four classes repeat this code
  and differ in what they do on a connection, on a failure and with what they receive.

  A device extends the record \<open>device_core\<close> by its own fields. The clocks (microseconds of the wall
  clock, nanoseconds of the steady clock) are a function of the number of the reading, \<open>what\<close> gives the text of an exception, and the notifications to the handlers are a log. One
  pass of the loop is a step; the pauses between passes are left out.
\<close>

section \<open>Channels\<close>

record ('w, 'a) transport =
  tr_name :: string
  tr_isOpen :: "'w \<Rightarrow> bool"
  tr_open :: "('w, unit) io"
  tr_close :: "'w \<Rightarrow> 'w"
  tr_receive :: "('w, 'a) io"

text \<open>
  What the devices rely on: a channel that opened is open, one that failed to open or was closed is not,
  and receiving does not close it unless it fails.
\<close>

locale transport_laws =
  fixes T :: "('w, 'a) transport"
  assumes close_closes: "\<not> tr_isOpen T (tr_close T w)"
    and open_opens: "tr_open T w = (w', Inr x) \<Longrightarrow> tr_isOpen T w'"
    and open_fails: "tr_open T w = (w', Inl e) \<Longrightarrow> \<not> tr_isOpen T w \<Longrightarrow> \<not> tr_isOpen T w'"
    and receive_keeps: "tr_receive T w = (w', Inr y) \<Longrightarrow> tr_isOpen T w \<Longrightarrow> tr_isOpen T w'"

section \<open>State\<close>

record RecoveryPolicy =
  rp_enabled :: bool
  rp_reconnectDelay :: nat
  rp_readTimeout :: nat
  rp_staleAfter :: nat

definition policy_ok :: "RecoveryPolicy \<Rightarrow> bool" where
  "policy_ok p \<longleftrightarrow> 0 < rp_readTimeout p \<and> 0 < rp_staleAfter p"

record moment =
  tm_wall :: int
  tm_steady :: int

datatype 'v notification = Nsnapshot DeviceState "64 word" string | Nvalue 'v

record ('w, 'v) device_core =
  dc_channel :: 'w
  dc_policy :: RecoveryPolicy
  dc_running :: bool
  dc_thread :: bool
  dc_state :: DeviceState
  dc_sequence :: "64 word"
  dc_diagnostics :: DeviceDiagnostics
  dc_failure :: Failure
  dc_readings :: nat
  dc_snapshotHandler :: bool
  dc_valueHandler :: bool
  dc_log :: "'v notification list"

definition no_diagnostics :: DeviceDiagnostics where
  "no_diagnostics = \<lparr>dd_successfulOperations = 0, dd_failedOperations = 0, dd_reconnectAttempts = 0,
     dd_consecutiveFailures = 0, dd_lastSuccessMicroseconds = 0, dd_lastFailureMicroseconds = 0, dd_lastError = []\<rparr>"

definition no_failure :: Failure where
  "no_failure = \<lparr>f_code = [], f_kind = Fpermanent, f_retryable = False, f_active = False,
     f_occurredAtMicroseconds = 0, f_message = []\<rparr>"

definition core_new :: "'w \<Rightarrow> RecoveryPolicy \<Rightarrow> ('w, 'v) device_core" where
  "core_new w policy = \<lparr>dc_channel = w, dc_policy = policy, dc_running = False, dc_thread = False, dc_state = Doffline,
     dc_sequence = 0, dc_diagnostics = no_diagnostics, dc_failure = no_failure, dc_readings = 0,
     dc_snapshotHandler = False, dc_valueHandler = False, dc_log = []\<rparr>"

section \<open>Bookkeeping\<close>

definition core_success :: "(nat \<Rightarrow> moment) \<Rightarrow> ('w, 'v, 'z) device_core_scheme \<Rightarrow> ('w, 'v, 'z) device_core_scheme" where
  "core_success clock s =
     s\<lparr>dc_state := Dready, dc_sequence := dc_sequence s + 1, dc_readings := dc_readings s + 1,
       dc_diagnostics := (dc_diagnostics s)\<lparr>
         dd_successfulOperations := dd_successfulOperations (dc_diagnostics s) + 1,
         dd_consecutiveFailures := 0, dd_lastSuccessMicroseconds := tm_wall (clock (dc_readings s)), dd_lastError := []\<rparr>,
       dc_failure := resolve_failure (dc_failure s)\<rparr>"

definition core_failure ::
    "(nat \<Rightarrow> moment) \<Rightarrow> string \<Rightarrow> string \<Rightarrow> DeviceState \<Rightarrow> ('w, 'v, 'z) device_core_scheme \<Rightarrow> ('w, 'v, 'z) device_core_scheme" where
  "core_failure clock code message state s =
     s\<lparr>dc_state := state, dc_sequence := dc_sequence s + 1, dc_readings := dc_readings s + 1,
       dc_diagnostics := (dc_diagnostics s)\<lparr>
         dd_failedOperations := dd_failedOperations (dc_diagnostics s) + 1,
         dd_consecutiveFailures := dd_consecutiveFailures (dc_diagnostics s) + 1,
         dd_lastFailureMicroseconds := tm_wall (clock (dc_readings s)), dd_lastError := message\<rparr>,
       dc_failure := makeFailure (tm_wall (clock (dc_readings s))) code Ftransient True message\<rparr>"

definition core_snapshot :: "string \<Rightarrow> ('w, 'v, 'z) device_core_scheme \<Rightarrow> 'v notification" where
  "core_snapshot payload s = Nsnapshot (dc_state s) (dc_sequence s) payload"

definition core_notify ::
    "'v option \<Rightarrow> string \<Rightarrow> ('w, 'v, 'z) device_core_scheme \<Rightarrow> ('w, 'v, 'z) device_core_scheme" where
  "core_notify value payload s =
     s\<lparr>dc_log := dc_log s @
        (case value of None \<Rightarrow> [] | Some v \<Rightarrow> if dc_valueHandler s then [Nvalue v] else []) @
        (if dc_snapshotHandler s then [core_snapshot payload s] else [])\<rparr>"

text \<open>The data is stale: the device is ready and the last data, if any is remembered, too old.\<close>

definition core_stale :: "(nat \<Rightarrow> moment) \<Rightarrow> int \<Rightarrow> ('w, 'v, 'z) device_core_scheme \<Rightarrow> bool" where
  "core_stale clock seen s \<longleftrightarrow> dc_state s = Dready \<and> seen \<noteq> 0 \<and>
     int (rp_staleAfter (dc_policy s)) * 1000000 \<le> tm_steady (clock (dc_readings s)) - seen"

section \<open>Start, stop and the loop\<close>

text \<open>
  What a device adds to the shared code: its actions on a connection, on a failure with a message and on
  stopping, the text of its snapshot, and what it does with received data.
\<close>

record ('a, 's) device_hooks =
  dh_connected :: "'s \<Rightarrow> 's"
  dh_failed :: "string \<Rightarrow> 's \<Rightarrow> 's"
  dh_stopped :: "'s \<Rightarrow> 's"
  dh_payload :: "'s \<Rightarrow> string"
  dh_handle :: "'a \<Rightarrow> ('s, unit) io"

text \<open>
  When the thread cannot be started, \<open>SerialPortDevice\<close> resets the state; the other devices are offline
  after a connection anyway.
\<close>

definition core_start ::
    "('w, 'a) transport \<Rightarrow> ('a, ('w, 'v, 'z) device_core_scheme) device_hooks \<Rightarrow> unit res \<Rightarrow>
      (('w, 'v, 'z) device_core_scheme, unit) io" where
  "core_start T H thread s =
     (if dc_running s then (s, Inr ())
      else case tr_open T (dc_channel s) of
          (w, Inl e) \<Rightarrow> (s\<lparr>dc_channel := tr_close T w\<rparr>, Inl e)
        | (w, Inr _) \<Rightarrow>
            let s1 = dh_connected H (s\<lparr>dc_running := True, dc_channel := w\<rparr>) in
            (case thread of
               Inl e \<Rightarrow> (s1\<lparr>dc_running := False, dc_channel := tr_close T (dc_channel s1), dc_state := Doffline\<rparr>, Inl e)
             | Inr _ \<Rightarrow> let s2 = s1\<lparr>dc_thread := True\<rparr> in (core_notify None (dh_payload H s2) s2, Inr ())))"

definition core_stop ::
    "('w, 'a) transport \<Rightarrow> ('a, ('w, 'v, 'z) device_core_scheme) device_hooks \<Rightarrow>
      ('w, 'v, 'z) device_core_scheme \<Rightarrow> ('w, 'v, 'z) device_core_scheme" where
  "core_stop T H s =
     (if \<not> dc_running s then s
      else let s1 = dh_stopped H (s\<lparr>dc_running := False, dc_thread := False, dc_channel := tr_close T (dc_channel s),
                      dc_state := Doffline, dc_sequence := dc_sequence s + 1\<rparr>)
           in core_notify None (dh_payload H s1) s1)"

definition core_reconnect ::
    "('w, 'a) transport \<Rightarrow> (exc \<Rightarrow> string) \<Rightarrow> ('a, ('w, 'v, 'z) device_core_scheme) device_hooks \<Rightarrow>
      ('w, 'v, 'z) device_core_scheme \<Rightarrow> ('w, 'v, 'z) device_core_scheme" where
  "core_reconnect T what H s =
     (let s0 = s\<lparr>dc_diagnostics := (dc_diagnostics s)\<lparr>
            dd_reconnectAttempts := dd_reconnectAttempts (dc_diagnostics s) + 1\<rparr>\<rparr>;
          s1 = (case tr_open T (dc_channel s0) of
                  (w, Inr _) \<Rightarrow> dh_connected H (s0\<lparr>dc_channel := w\<rparr>)
                | (w, Inl e) \<Rightarrow> dh_failed H (what e) (s0\<lparr>dc_channel := w\<rparr>))
      in core_notify None (dh_payload H s1) s1)"

definition core_disconnect ::
    "('w, 'a) transport \<Rightarrow> ('a, ('w, 'v, 'z) device_core_scheme) device_hooks \<Rightarrow> string \<Rightarrow>
      ('w, 'v, 'z) device_core_scheme \<Rightarrow> ('w, 'v, 'z) device_core_scheme" where
  "core_disconnect T H message s =
     (let s1 = dh_failed H message (s\<lparr>dc_channel := tr_close T (dc_channel s)\<rparr>)
      in core_notify None (dh_payload H s1) s1)"

definition core_pass ::
    "('w, 'a) transport \<Rightarrow> (exc \<Rightarrow> string) \<Rightarrow> ('a, ('w, 'v, 'z) device_core_scheme) device_hooks \<Rightarrow>
      ('w, 'v, 'z) device_core_scheme \<Rightarrow> ('w, 'v, 'z) device_core_scheme" where
  "core_pass T what H s =
     (if \<not> (dc_running s \<and> dc_thread s) then s\<lparr>dc_thread := False\<rparr>
      else if \<not> tr_isOpen T (dc_channel s)
        then if \<not> rp_enabled (dc_policy s) then s\<lparr>dc_thread := False\<rparr> else core_reconnect T what H s
      else case tr_receive T (dc_channel s) of
          (w, Inl e) \<Rightarrow> core_disconnect T H (what e) (s\<lparr>dc_channel := w\<rparr>)
        | (w, Inr x) \<Rightarrow> (case dh_handle H x (s\<lparr>dc_channel := w\<rparr>) of
              (s1, Inr _) \<Rightarrow> s1
            | (s1, Inl e) \<Rightarrow> core_disconnect T H (what e) s1))"

text \<open>What the owner of a device and its thread do, one after the other.\<close>

datatype action = Astart "unit res" | Apass | Astop

fun core_act ::
    "('w, 'a) transport \<Rightarrow> (exc \<Rightarrow> string) \<Rightarrow> ('a, ('w, 'v, 'z) device_core_scheme) device_hooks \<Rightarrow> action \<Rightarrow>
      ('w, 'v, 'z) device_core_scheme \<Rightarrow> ('w, 'v, 'z) device_core_scheme" where
  "core_act T what H (Astart thread) s = fst (core_start T H thread s)"
| "core_act T what H Apass s = core_pass T what H s"
| "core_act T what H Astop s = core_stop T H s"

section \<open>The invariant\<close>

definition core_inv :: "('w, 'a) transport \<Rightarrow> ('w, 'v, 'z) device_core_scheme \<Rightarrow> bool" where
  "core_inv T s \<longleftrightarrow>
     (dc_state s = Dready \<longrightarrow> tr_isOpen T (dc_channel s)) \<and>
     (dc_state s = Dfault \<longrightarrow> \<not> tr_isOpen T (dc_channel s) \<and> f_active (dc_failure s) \<and> f_retryable (dc_failure s)) \<and>
     (\<not> dc_running s \<longrightarrow> dc_state s = Doffline \<and> \<not> dc_thread s) \<and>
     (\<not> dc_thread s \<longrightarrow> \<not> tr_isOpen T (dc_channel s))"

lemma core_notify_simps [simp]:
  "dc_state (core_notify v p s) = dc_state s" "dc_channel (core_notify v p s) = dc_channel s"
  "dc_running (core_notify v p s) = dc_running s" "dc_thread (core_notify v p s) = dc_thread s"
  "dc_failure (core_notify v p s) = dc_failure s" "dc_readings (core_notify v p s) = dc_readings s"
  "dc_policy (core_notify v p s) = dc_policy s" "dc_diagnostics (core_notify v p s) = dc_diagnostics s"
  "dc_sequence (core_notify v p s) = dc_sequence s"
  by (simp_all add: core_notify_def)

lemma core_inv_notify [simp]: "core_inv T (core_notify v p s) = core_inv T s"
  by (simp add: core_inv_def)

text \<open>
  A device on a channel: a connection leaves it offline or ready, a failure leaves it in fault with an
  active failure that can be retried, and received data leaves a ready or offline device, on an open
  channel.
\<close>

locale monitored_device = transport_laws T
  for T :: "('w, 'a) transport" +
  fixes H :: "('a, ('w, 'v, 'z) device_core_scheme) device_hooks"
  assumes connected: "dc_state (dh_connected H s) \<noteq> Dfault" "dc_channel (dh_connected H s) = dc_channel s"
      "dc_running (dh_connected H s) = dc_running s" "dc_thread (dh_connected H s) = dc_thread s"
    and failed: "dc_state (dh_failed H m s) = Dfault" "f_active (dc_failure (dh_failed H m s))"
      "f_retryable (dc_failure (dh_failed H m s))" "dc_channel (dh_failed H m s) = dc_channel s"
      "dc_running (dh_failed H m s) = dc_running s" "dc_thread (dh_failed H m s) = dc_thread s"
    and stopped: "dc_state (dh_stopped H s) = dc_state s" "dc_channel (dh_stopped H s) = dc_channel s"
      "dc_running (dh_stopped H s) = dc_running s" "dc_thread (dh_stopped H s) = dc_thread s"
    and handle: "dc_channel (fst (dh_handle H x s)) = dc_channel s" "dc_running (fst (dh_handle H x s)) = dc_running s"
      "dc_thread (fst (dh_handle H x s)) = dc_thread s"
      "dc_state s \<noteq> Dfault \<Longrightarrow> dc_state (fst (dh_handle H x s)) \<noteq> Dfault"
begin

lemma core_start_inv:
  assumes "core_inv T s"
  shows "core_inv T (fst (core_start T H thread s))"
  using assms by (auto simp: core_start_def core_inv_def Let_def connected open_opens close_closes
      split: prod.split sum.split)

lemma core_stop_inv:
  assumes "core_inv T s"
  shows "core_inv T (core_stop T H s)"
  using assms by (auto simp: core_stop_def core_inv_def Let_def stopped close_closes)

lemma core_disconnect_inv: "dc_running s \<Longrightarrow> dc_thread s \<Longrightarrow> core_inv T (core_disconnect T H m s)"
  by (auto simp: core_disconnect_def core_inv_def Let_def failed close_closes)

lemma core_reconnect_inv:
  assumes "dc_running s" and "dc_thread s" and "\<not> tr_isOpen T (dc_channel s)"
  shows "core_inv T (core_reconnect T what H s)"
  using assms by (auto simp: core_reconnect_def core_inv_def Let_def connected failed
      dest: open_opens open_fails split: prod.split sum.split)

lemma core_pass_inv:
  assumes "core_inv T s"
  shows "core_inv T (core_pass T what H s)"
proof (cases "dc_running s \<and> dc_thread s \<and> tr_isOpen T (dc_channel s)")
  case False
  then show ?thesis
    using assms core_reconnect_inv [of s what] by (auto simp: core_pass_def core_inv_def)
next
  case True
  then have fine: "dc_state s \<noteq> Dfault" using assms by (auto simp: core_inv_def)
  show ?thesis
  proof (cases "tr_receive T (dc_channel s)")
    case (Pair w r)
    show ?thesis
    proof (cases r)
      case (Inl e)
      then show ?thesis using True Pair core_disconnect_inv by (simp add: core_pass_def)
    next
      case (Inr x)
      define s0 where "s0 = s\<lparr>dc_channel := w\<rparr>"
      obtain s1 q where h: "dh_handle H x s0 = (s1, q)" by fastforce
      have s1: "dc_channel s1 = w" "dc_running s1" "dc_thread s1" "dc_state s1 \<noteq> Dfault"
        using handle [where x = x and s = s0] True fine unfolding h fst_conv by (simp_all add: s0_def)
      have "tr_isOpen T w" using True Pair Inr receive_keeps by blast
      then have "core_inv T s1" using s1 by (simp add: core_inv_def)
      then show ?thesis
        using True Pair Inr h s1 core_disconnect_inv [of s1]
        by (cases q) (simp_all add: core_pass_def s0_def)
    qed
  qed
qed

lemma core_acts_inv: "core_inv T s \<Longrightarrow> core_inv T (fold (core_act T what H) as s)"
proof (induction as arbitrary: s)
  case (Cons a as)
  then show ?case by (cases a) (simp_all add: core_start_inv core_stop_inv core_pass_inv)
qed simp

text \<open>A closed channel that can be opened is open again after one pass, and the fault is over.\<close>

lemma core_pass_reconnects:
  assumes "dc_running s" "dc_thread s" "rp_enabled (dc_policy s)" "\<not> tr_isOpen T (dc_channel s)"
    and "tr_open T (dc_channel s) = (w, Inr ())"
  shows "core_pass T what H s = core_reconnect T what H s" "dc_channel (core_pass T what H s) = w"
    "dc_running (core_pass T what H s)" "dc_thread (core_pass T what H s)" "dc_state (core_pass T what H s) \<noteq> Dfault"
  using assms by (simp_all add: core_pass_def core_reconnect_def connected Let_def)

end

end
