(* ===== verification/Sensors.thy ===== *)
theory Sensors
  imports Device_Core XBee_Sample CAN
begin

text \<open>
  The CAN signal sensor (\<open>platform/devices/CAN/src/CanSignalSensor.cpp\<close>) and the XBee analog sensor
  (\<open>platform/devices/XBeeSensor/src/XBeeAnalogSensor.cpp\<close>) on the shared device code. Doubles are an
  arbitrary type \<open>'d\<close> with the operations of the record \<open>floats\<close>; a literal is given by its text.
\<close>

section \<open>Doubles\<close>

record 'd floats =
  fl_lit :: "string \<Rightarrow> 'd"
  fl_stod :: "string \<Rightarrow> 'd res"
  fl_signed :: "64 word \<Rightarrow> 'd"
  fl_unsigned :: "64 word \<Rightarrow> 'd"
  fl_add :: "'d \<Rightarrow> 'd \<Rightarrow> 'd"
  fl_sub :: "'d \<Rightarrow> 'd \<Rightarrow> 'd"
  fl_mul :: "'d \<Rightarrow> 'd \<Rightarrow> 'd"
  fl_div :: "'d \<Rightarrow> 'd \<Rightarrow> 'd"
  fl_neg :: "'d \<Rightarrow> 'd"
  fl_floor :: "'d \<Rightarrow> 'd"
  fl_show :: "'d \<Rightarrow> string"
  fl_fixed :: "nat \<Rightarrow> 'd \<Rightarrow> string"

section \<open>The CAN signal sensor\<close>

record 'd CanOptions =
  co_loopback :: bool
  co_interfaceName :: string
  co_frameId :: "32 word"
  co_extended :: bool
  co_bitOffset :: nat
  co_bitLength :: nat
  co_bigEndian :: bool
  co_signedValue :: bool
  co_factor :: 'd
  co_offset :: 'd
  co_physicalQuantity :: string
  co_physicalUnit :: string
  co_policy :: RecoveryPolicy

record ('w, 'd) can_sensor = "('w, 'd) device_core" +
  cs_options :: "'d CanOptions"
  cs_value :: 'd
  cs_lastPayload :: string
  cs_lastFrame :: int

definition can_sensor_new :: "'d floats \<Rightarrow> 'w \<Rightarrow> 'd CanOptions \<Rightarrow> ('w, 'd) can_sensor" where
  "can_sensor_new F w opts = device_core.extend (core_new w (co_policy opts))
     \<lparr>cs_options = opts, cs_value = fl_lit F ''0'', cs_lastPayload = ''no-frame'', cs_lastFrame = 0\<rparr>"

text \<open>\<open>SignalCodec::decodeScaled\<close>.\<close>

definition decodeScaled :: "'d floats \<Rightarrow> CanFrame \<Rightarrow> 'd CanOptions \<Rightarrow> 'd res" where
  "decodeScaled F f opts =
     (let order = (if co_bigEndian opts then BigEndian else LittleEndian);
          raw = (if co_signedValue opts
                 then rbind (decodeSigned f (of_nat (co_bitOffset opts)) (of_nat (co_bitLength opts)) order) (\<lambda>v. Inr (fl_signed F v))
                 else rbind (decodeUnsigned f (of_nat (co_bitOffset opts)) (of_nat (co_bitLength opts)) order) (\<lambda>v. Inr (fl_unsigned F v)))
      in rbind raw (\<lambda>r. Inr (fl_add F (fl_mul F r (co_factor opts)) (co_offset opts))))"

definition can_ingest :: "'d floats \<Rightarrow> (nat \<Rightarrow> moment) \<Rightarrow> CanFrame \<Rightarrow> (('w, 'd) can_sensor, bool) io" where
  "can_ingest F clock f s =
     (if cf_error f \<or> cf_id f \<noteq> co_frameId (cs_options s) \<or> cf_extended f \<noteq> co_extended (cs_options s)
        then (s, Inr False)
      else case decodeScaled F f (cs_options s) of
          Inl e \<Rightarrow> (s, Inl e)
        | Inr v \<Rightarrow>
            let s1 = (core_success clock s)\<lparr>cs_value := v, cs_lastFrame := tm_steady (clock (dc_readings s)),
                        cs_lastPayload := fl_fixed F 3 v\<rparr>
            in (core_notify (Some v) (cs_lastPayload s1) s1, Inr True))"

definition can_connected :: "string \<Rightarrow> ('w, 'd) can_sensor \<Rightarrow> ('w, 'd) can_sensor" where
  "can_connected name s = s\<lparr>dc_state := Doffline, dc_sequence := dc_sequence s + 1,
     cs_lastPayload := ''waiting-for-frame:'' @ name, cs_lastFrame := 0\<rparr>"

definition can_failed :: "(nat \<Rightarrow> moment) \<Rightarrow> string \<Rightarrow> ('w, 'd) can_sensor \<Rightarrow> ('w, 'd) can_sensor" where
  "can_failed clock message s =
     (core_failure clock ''PDR-DEVICE-CAN-TRANSPORT_FAILED'' message Dfault s)\<lparr>cs_lastPayload := message\<rparr>"

definition can_checkStale :: "(nat \<Rightarrow> moment) \<Rightarrow> ('w, 'd) can_sensor \<Rightarrow> ('w, 'd) can_sensor" where
  "can_checkStale clock s =
     (if core_stale clock (cs_lastFrame s) s
      then core_notify None ''stale''
        ((core_failure clock ''PDR-DEVICE-CAN-SIGNAL_STALE'' ''CAN signal stale'' Doffline s)\<lparr>cs_lastPayload := ''stale''\<rparr>)
      else s\<lparr>dc_readings := dc_readings s + 1\<rparr>)"

definition can_handle :: "'d floats \<Rightarrow> (nat \<Rightarrow> moment) \<Rightarrow> CanFrame option \<Rightarrow> (('w, 'd) can_sensor, unit) io" where
  "can_handle F clock received s =
     (case received of
        None \<Rightarrow> (can_checkStale clock s, Inr ())
      | Some f \<Rightarrow>
          if cf_error f then (s, Inl (RuntimeError (''SocketCAN error frame mask='' @ decimal (unat (cf_id f)))))
          else (case can_ingest F clock f s of
              (s1, Inl e) \<Rightarrow> (s1, Inl e)
            | (s1, Inr _) \<Rightarrow> (can_checkStale clock s1, Inr ())))"

definition can_hooks :: "string \<Rightarrow> 'd floats \<Rightarrow> (nat \<Rightarrow> moment) \<Rightarrow> (CanFrame option, ('w, 'd) can_sensor) device_hooks" where
  "can_hooks name F clock =
     \<lparr>dh_connected = can_connected name, dh_failed = can_failed clock,
      dh_stopped = (\<lambda>s. s\<lparr>cs_lastPayload := ''stopped''\<rparr>), dh_payload = cs_lastPayload, dh_handle = can_handle F clock\<rparr>"

definition can_start ::
    "('w, CanFrame option) transport \<Rightarrow> string \<Rightarrow> 'd floats \<Rightarrow> (nat \<Rightarrow> moment) \<Rightarrow> unit res \<Rightarrow> (('w, 'd) can_sensor, unit) io" where
  "can_start T name F clock = core_start T (can_hooks name F clock)"

definition can_stop :: "('w, CanFrame option) transport \<Rightarrow> string \<Rightarrow> 'd floats \<Rightarrow> (nat \<Rightarrow> moment) \<Rightarrow> ('w, 'd) can_sensor \<Rightarrow> ('w, 'd) can_sensor" where
  "can_stop T name F clock = core_stop T (can_hooks name F clock)"

definition can_run ::
    "('w, CanFrame option) transport \<Rightarrow> (exc \<Rightarrow> string) \<Rightarrow> string \<Rightarrow> 'd floats \<Rightarrow> (nat \<Rightarrow> moment) \<Rightarrow> ('w, 'd) can_sensor \<Rightarrow> ('w, 'd) can_sensor" where
  "can_run T what name F clock = core_pass T what (can_hooks name F clock)"

fun can_act ::
    "('w, CanFrame option) transport \<Rightarrow> (exc \<Rightarrow> string) \<Rightarrow> string \<Rightarrow> 'd floats \<Rightarrow> (nat \<Rightarrow> moment) \<Rightarrow> action \<Rightarrow> ('w, 'd) can_sensor \<Rightarrow> ('w, 'd) can_sensor" where
  "can_act T what name F clock (Astart thread) s = fst (can_start T name F clock thread s)"
| "can_act T what name F clock Apass s = can_run T what name F clock s"
| "can_act T what name F clock Astop s = can_stop T name F clock s"

lemma can_act_core: "can_act T what name F clock = core_act T what (can_hooks name F clock)"
proof (intro ext)
  show "can_act T what name F clock a s = core_act T what (can_hooks name F clock) a s" for a s
    by (cases a) (simp_all add: can_start_def can_run_def can_stop_def)
qed

definition can_execute :: "string \<Rightarrow> ('w, 'd) can_sensor \<Rightarrow> string res" where
  "can_execute operation s =
     (if operation = ''read'' then Inr (cs_lastPayload s)
      else Inl (InvalidArgument (''unsupported CAN sensor operation: '' @ operation)))"

lemmas can_defs = can_hooks_def can_connected_def can_failed_def core_failure_def core_success_def

lemma can_checkStale_keeps [simp]:
  "dc_channel (can_checkStale clock s) = dc_channel s" "dc_running (can_checkStale clock s) = dc_running s"
  "dc_thread (can_checkStale clock s) = dc_thread s"
  "dc_state s \<noteq> Dfault \<Longrightarrow> dc_state (can_checkStale clock s) \<noteq> Dfault"
  by (simp_all add: can_checkStale_def core_failure_def)

lemma can_ingest_keeps:
  assumes "can_ingest F clock f s = (s', r)"
  shows "dc_channel s' = dc_channel s" "dc_running s' = dc_running s" "dc_thread s' = dc_thread s"
    "dc_state s \<noteq> Dfault \<Longrightarrow> dc_state s' \<noteq> Dfault"
  using assms by (auto simp: can_ingest_def core_success_def Let_def split: if_splits sum.splits)

lemma can_handle_keeps:
  "dc_channel (fst (can_handle F clock x s)) = dc_channel s"
  "dc_running (fst (can_handle F clock x s)) = dc_running s"
  "dc_thread (fst (can_handle F clock x s)) = dc_thread s"
  "dc_state s \<noteq> Dfault \<Longrightarrow> dc_state (fst (can_handle F clock x s)) \<noteq> Dfault"
  by (auto simp: can_handle_def dest: can_ingest_keeps split: option.split prod.split sum.split)

locale can_transport = transport_laws T
  for T :: "('w, CanFrame option) transport"

sublocale can_transport \<subseteq> can: monitored_device T "can_hooks name F clock" for name :: string and F :: "'d floats" and clock
  by unfold_locales (auto simp: can_defs makeFailure_def can_handle_keeps)

section \<open>The XBee analog sensor\<close>

datatype Conversion = Raw | Millivolts | TemperatureCelsius | RelativeHumidity

record XBeeOptions =
  xo_loopback :: bool
  xo_serialPort :: string
  xo_baudRate :: int
  xo_escapedApiMode :: bool
  xo_sourceAddress :: int
  xo_analogChannel :: nat
  xo_physicalQuantity :: string
  xo_physicalUnit :: string
  xo_conversion :: Conversion
  xo_policy :: RecoveryPolicy


record ('w, 'd) xbee_sensor = "('w, 'd) device_core" +
  xs_options :: XBeeOptions
  xs_referenceMillivolts :: 'd
  xs_adcMaximum :: 'd
  xs_value :: 'd
  xs_lastSample :: int

definition xbee_sensor_new :: "'d floats \<Rightarrow> 'w \<Rightarrow> XBeeOptions \<Rightarrow> ('w, 'd) xbee_sensor" where
  "xbee_sensor_new F w opts = device_core.extend (core_new w (xo_policy opts))
     \<lparr>xs_options = opts, xs_referenceMillivolts = fl_lit F ''1200.0'', xs_adcMaximum = fl_lit F ''1023.0'',
      xs_value = fl_lit F ''0'', xs_lastSample = 0\<rparr>"

definition convert :: "'d floats \<Rightarrow> 16 word \<Rightarrow> ('w, 'd) xbee_sensor \<Rightarrow> 'd" where
  "convert F sample s =
     (let millivolts = fl_div F (fl_mul F (xs_referenceMillivolts s) (fl_unsigned F (ucast sample))) (xs_adcMaximum s)
      in case xo_conversion (xs_options s) of
        Raw \<Rightarrow> fl_unsigned F (ucast sample)
      | Millivolts \<Rightarrow> millivolts
      | TemperatureCelsius \<Rightarrow> fl_div F (fl_sub F millivolts (fl_lit F ''500.0'')) (fl_lit F ''10.0'')
      | RelativeHumidity \<Rightarrow>
          fl_div F (fl_sub F (fl_div F (fl_div F (fl_mul F millivolts (fl_lit F ''108.2'')) (fl_lit F ''33.2''))
                                (fl_lit F ''5000.0'')) (fl_lit F ''0.16'')) (fl_lit F ''0.0062''))"

definition xbee_payload :: "'d floats \<Rightarrow> ('w, 'd) xbee_sensor \<Rightarrow> string" where
  "xbee_payload F s = (if dc_state s = Dready then fl_fixed F 3 (xs_value s) else ''no-sample'')"

definition xbee_ingest :: "'d floats \<Rightarrow> (nat \<Rightarrow> moment) \<Rightarrow> IoSample \<Rightarrow> (('w, 'd) xbee_sensor, bool) io" where
  "xbee_ingest F clock sample s =
     (if io_sourceAddress sample \<noteq> of_int (xo_sourceAddress (xs_options s)) \<or>
         \<not> hasAnalog sample (xo_analogChannel (xs_options s))
        then (s, Inr False)
      else case analog sample (xo_analogChannel (xs_options s)) of
          Inl e \<Rightarrow> (s, Inl e)
        | Inr raw \<Rightarrow>
            let v = convert F raw s;
                s1 = (core_success clock s)\<lparr>xs_value := v, xs_lastSample := tm_steady (clock (dc_readings s))\<rparr>
            in (core_notify (Some v) (fl_fixed F 3 v) s1, Inr True))"

definition xbee_connected :: "('w, 'd) xbee_sensor \<Rightarrow> ('w, 'd) xbee_sensor" where
  "xbee_connected s = s\<lparr>dc_state := Doffline, dc_sequence := dc_sequence s + 1\<rparr>"

definition xbee_markFailure ::
    "(nat \<Rightarrow> moment) \<Rightarrow> string \<Rightarrow> DeviceState \<Rightarrow> ('w, 'd) xbee_sensor \<Rightarrow> ('w, 'd) xbee_sensor" where
  "xbee_markFailure clock message state s = core_failure clock ''PDR-DEVICE-XBEE-OPERATION_FAILED'' message state s"

definition xbee_checkStale :: "'d floats \<Rightarrow> (nat \<Rightarrow> moment) \<Rightarrow> ('w, 'd) xbee_sensor \<Rightarrow> ('w, 'd) xbee_sensor" where
  "xbee_checkStale F clock s =
     (if core_stale clock (xs_lastSample s) s
      then let s1 = xbee_markFailure clock ''XBee sample stale'' Doffline s in core_notify None (xbee_payload F s1) s1
      else s\<lparr>dc_readings := dc_readings s + 1\<rparr>)"

definition xbee_handle :: "'d floats \<Rightarrow> (nat \<Rightarrow> moment) \<Rightarrow> XBeeFrame option \<Rightarrow> (('w, 'd) xbee_sensor, unit) io" where
  "xbee_handle F clock received s =
     (case received of
        None \<Rightarrow> (xbee_checkStale F clock s, Inr ())
      | Some f \<Rightarrow>
          if xf_type f \<noteq> ft_zigbeeIoSample then (xbee_checkStale F clock s, Inr ())
          else (case IoSample_decode f of
              Inl e \<Rightarrow> (s, Inl e)
            | Inr sample \<Rightarrow> (case xbee_ingest F clock sample s of
                  (s1, Inl e) \<Rightarrow> (s1, Inl e)
                | (s1, Inr _) \<Rightarrow> (xbee_checkStale F clock s1, Inr ()))))"

definition xbee_hooks :: "'d floats \<Rightarrow> (nat \<Rightarrow> moment) \<Rightarrow> (XBeeFrame option, ('w, 'd) xbee_sensor) device_hooks" where
  "xbee_hooks F clock =
     \<lparr>dh_connected = xbee_connected, dh_failed = (\<lambda>m. xbee_markFailure clock m Dfault), dh_stopped = (\<lambda>s. s),
      dh_payload = xbee_payload F, dh_handle = xbee_handle F clock\<rparr>"

definition xbee_start ::
    "('w, XBeeFrame option) transport \<Rightarrow> 'd floats \<Rightarrow> (nat \<Rightarrow> moment) \<Rightarrow> unit res \<Rightarrow> (('w, 'd) xbee_sensor, unit) io" where
  "xbee_start T F clock = core_start T (xbee_hooks F clock)"

definition xbee_stop :: "('w, XBeeFrame option) transport \<Rightarrow> 'd floats \<Rightarrow> (nat \<Rightarrow> moment) \<Rightarrow> ('w, 'd) xbee_sensor \<Rightarrow> ('w, 'd) xbee_sensor" where
  "xbee_stop T F clock = core_stop T (xbee_hooks F clock)"

definition xbee_run ::
    "('w, XBeeFrame option) transport \<Rightarrow> (exc \<Rightarrow> string) \<Rightarrow> 'd floats \<Rightarrow> (nat \<Rightarrow> moment) \<Rightarrow> ('w, 'd) xbee_sensor \<Rightarrow> ('w, 'd) xbee_sensor" where
  "xbee_run T what F clock = core_pass T what (xbee_hooks F clock)"

fun xbee_act ::
    "('w, XBeeFrame option) transport \<Rightarrow> (exc \<Rightarrow> string) \<Rightarrow> 'd floats \<Rightarrow> (nat \<Rightarrow> moment) \<Rightarrow> action \<Rightarrow> ('w, 'd) xbee_sensor \<Rightarrow> ('w, 'd) xbee_sensor" where
  "xbee_act T what F clock (Astart thread) s = fst (xbee_start T F clock thread s)"
| "xbee_act T what F clock Apass s = xbee_run T what F clock s"
| "xbee_act T what F clock Astop s = xbee_stop T F clock s"

lemma xbee_act_core: "xbee_act T what F clock = core_act T what (xbee_hooks F clock)"
proof (intro ext)
  show "xbee_act T what F clock a s = core_act T what (xbee_hooks F clock) a s" for a s
    by (cases a) (simp_all add: xbee_start_def xbee_run_def xbee_stop_def)
qed

definition xbee_execute :: "'d floats \<Rightarrow> string \<Rightarrow> ('w, 'd) xbee_sensor \<Rightarrow> string res" where
  "xbee_execute F operation s =
     (if operation = ''read'' then Inr (xbee_payload F s)
      else Inl (InvalidArgument (''unsupported XBee sensor operation: '' @ operation)))"

lemmas xbee_defs = xbee_hooks_def xbee_connected_def xbee_markFailure_def core_failure_def core_success_def

lemma xbee_checkStale_keeps [simp]:
  "dc_channel (xbee_checkStale F clock s) = dc_channel s" "dc_running (xbee_checkStale F clock s) = dc_running s"
  "dc_thread (xbee_checkStale F clock s) = dc_thread s"
  "dc_state s \<noteq> Dfault \<Longrightarrow> dc_state (xbee_checkStale F clock s) \<noteq> Dfault"
  by (simp_all add: xbee_checkStale_def xbee_markFailure_def core_failure_def Let_def)

lemma xbee_ingest_keeps:
  assumes "xbee_ingest F clock f s = (s', r)"
  shows "dc_channel s' = dc_channel s" "dc_running s' = dc_running s" "dc_thread s' = dc_thread s"
    "dc_state s \<noteq> Dfault \<Longrightarrow> dc_state s' \<noteq> Dfault"
  using assms by (auto simp: xbee_ingest_def core_success_def Let_def split: if_splits sum.splits)

lemma xbee_handle_keeps:
  "dc_channel (fst (xbee_handle F clock x s)) = dc_channel s"
  "dc_running (fst (xbee_handle F clock x s)) = dc_running s"
  "dc_thread (fst (xbee_handle F clock x s)) = dc_thread s"
  "dc_state s \<noteq> Dfault \<Longrightarrow> dc_state (fst (xbee_handle F clock x s)) \<noteq> Dfault"
  by (auto simp: xbee_handle_def dest: xbee_ingest_keeps split: option.split prod.split sum.split)

locale xbee_transport = transport_laws T
  for T :: "('w, XBeeFrame option) transport"

sublocale xbee_transport \<subseteq> xbee: monitored_device T "xbee_hooks F clock" for F :: "'d floats" and clock
  by unfold_locales (auto simp: xbee_defs makeFailure_def xbee_handle_keeps)

section \<open>The channels of the repository\<close>

text \<open>The loopback CAN endpoint; nobody else uses it while a receive waits.\<close>

definition loopback_receive :: "(Loopback, CanFrame option) io" where
  "loopback_receive = ibind lb_receive_enter (\<lambda>_. ibind lb_receive_finish (\<lambda>r. ireturn (map_option fst r)))"

definition loopback_can :: "string \<Rightarrow> (Loopback, CanFrame option) transport" where
  "loopback_can name =
     \<lparr>tr_name = ''can-loopback:'' @ name, tr_isOpen = lb_open, tr_open = (\<lambda>s. (lb_open_op s, Inr ())),
      tr_close = lb_close, tr_receive = loopback_receive\<rparr>"

interpretation loopback: can_transport "loopback_can name" for name
  by unfold_locales
     (auto simp: loopback_can_def lb_open_op_def lb_close_def loopback_receive_def ibind_cases
        lb_receive_enter_def lb_receive_finish_def split: if_splits)

text \<open>
  The XBee port on a serial channel given by the results of its coming reads; like the loopback channel it
  stays open when a read fails.
\<close>

record xbee_line =
  xl_port :: XBeePort
  xl_reads :: "byte list res list"
  xl_open :: bool

definition xbee_line_receive :: "(xbee_line, XBeeFrame option) io" where
  "xbee_line_receive s =
     (case XBeePort_receive (xl_port s) (xl_reads s) of
        (p, reads, r) \<Rightarrow> (s\<lparr>xl_port := p, xl_reads := reads\<rparr>, r))"

definition xbee_port :: "string \<Rightarrow> (xbee_line, XBeeFrame option) transport" where
  "xbee_port name =
     \<lparr>tr_name = ''xbee:'' @ name, tr_isOpen = xl_open,
      tr_open = (\<lambda>s. (s\<lparr>xl_port := XBeePort_open (xl_port s), xl_open := True\<rparr>, Inr ())),
      tr_close = (\<lambda>s. s\<lparr>xl_port := XBeePort_close (xl_port s), xl_open := False\<rparr>), tr_receive = xbee_line_receive\<rparr>"

interpretation xbee_port: xbee_transport "xbee_port name" for name
  by unfold_locales (auto simp: xbee_port_def xbee_line_receive_def split: prod.splits)

end
