(* ===== verification/Gnss.thy ===== *)
theory Gnss
  imports Sensors Std_Parse
begin

text \<open>
  The NMEA 0183 receiver (\<open>platform/devices/GNSS/src/NmeaGnssDevice.cpp\<close>): reassembling lines from the
  bytes of a serial channel, the checksum and the fields of a sentence, and the device that keeps the last
  position.
\<close>

section \<open>Lines\<close>

definition is_eol :: "char \<Rightarrow> bool" where
  "is_eol c \<longleftrightarrow> c = CHR 0x0D \<or> c = CHR 0x0A"

text \<open>The loop over the buffer: the non-empty lines it hands on, and what stays in the buffer.\<close>

function nmea_lines :: "string \<Rightarrow> string list \<times> string" where
  "nmea_lines buffer =
     (let line = takeWhile (\<lambda>c. \<not> is_eol c) buffer in
      if length line = length buffer then ([], buffer)
      else case nmea_lines (dropWhile is_eol (drop (length line) buffer)) of
          (ls, rest) \<Rightarrow> ((if line = [] then ls else line # ls), rest))"
  by pat_completeness auto

lemma eol_remains:
  assumes "length (takeWhile (\<lambda>c. \<not> is_eol c) b) \<noteq> length b"
  shows "length (dropWhile is_eol (drop (length (takeWhile (\<lambda>c. \<not> is_eol c) b)) b)) < length b"
proof -
  define r where "r = dropWhile (\<lambda>c. \<not> is_eol c) b"
  have b: "b = takeWhile (\<lambda>c. \<not> is_eol c) b @ r" by (simp add: r_def)
  then have "r \<noteq> []" using assms by (metis append_Nil2)
  then have "is_eol (hd r)" unfolding r_def by (metis hd_dropWhile)
  then have "length (dropWhile is_eol r) < length r"
    using \<open>r \<noteq> []\<close> by (cases r) (simp_all add: le_imp_less_Suc length_dropWhile_le)
  moreover have "drop (length (takeWhile (\<lambda>c. \<not> is_eol c) b)) b = r"
    by (metis r_def dropWhile_eq_drop)
  moreover have "length r \<le> length b" by (simp add: r_def length_dropWhile_le)
  ultimately show ?thesis by simp
qed

termination nmea_lines
  by (relation "measure length") (simp_all add: eol_remains)

declare nmea_lines.simps [simp del]

section \<open>Sentences\<close>

text \<open>\<open>stream >> std::hex >> expected\<close> on an \<open>unsigned\<close>.\<close>

definition stream_hex :: "string \<Rightarrow> nat option" where
  "stream_hex s =
     (case split_sign (dropWhile isspace s) of (negative, r) \<Rightarrow>
      let ds = takeWhile (\<lambda>c. digit_value c < 16) (if take 2 r = ''0x'' \<or> take 2 r = ''0X'' then drop 2 r else r);
          v = foldl (\<lambda>n c. n * 16 + digit_value c) 0 ds
      in if ds = [] \<or> 2 ^ 32 \<le> v then None else Some (if negative then (2 ^ 32 - v) mod 2 ^ 32 else v))"

definition star_of :: "string \<Rightarrow> nat" where
  "star_of s = length (takeWhile (\<lambda>c. c \<noteq> CHR ''*'') s)"

definition checksum :: "string \<Rightarrow> 8 word" where
  "checksum body = foldl (\<lambda>x c. x XOR of_char c) 0 body"

definition body_of :: "string \<Rightarrow> string" where
  "body_of s = take (star_of s - 1) (drop 1 s)"

definition validChecksum :: "string \<Rightarrow> bool" where
  "validChecksum s \<longleftrightarrow> s \<noteq> [] \<and> hd s = CHR ''$'' \<and> star_of s < length s \<and> star_of s + 2 < length s \<and>
     stream_hex (take 2 (drop (star_of s + 1) s)) = Some (unat (checksum (body_of s)))"

function fields_loop :: "string \<Rightarrow> nat \<Rightarrow> nat \<Rightarrow> string list" where
  "fields_loop s star b =
     (if star < b then []
      else let comma = b + length (takeWhile (\<lambda>c. c \<noteq> CHR '','') (drop b s));
               e = (if comma = length s \<or> star < comma then star else comma)
           in take (e - b) (drop b s) # (if e = star then [] else fields_loop s star (e + 1)))"
  by pat_completeness auto

termination fields_loop
  by (relation "measure (\<lambda>(s, star, b). Suc star - b)") (auto simp: Let_def split: if_splits)

declare fields_loop.simps [simp del]

definition coordinate :: "'d floats \<Rightarrow> string \<Rightarrow> string \<Rightarrow> 'd res" where
  "coordinate F value hemisphere =
     (if value = [] then Inr (fl_lit F ''0'')
      else rbind (fl_stod F value) (\<lambda>raw.
        let degrees = fl_floor F (fl_div F raw (fl_lit F ''100.0''));
            result = fl_add F degrees (fl_div F (fl_sub F raw (fl_mul F degrees (fl_lit F ''100.0''))) (fl_lit F ''60.0''))
        in Inr (if hemisphere = ''S'' \<or> hemisphere = ''W'' then fl_neg F result else result)))"

definition number_or_zero :: "'d floats \<Rightarrow> string \<Rightarrow> 'd res" where
  "number_or_zero F value = (if value = [] then Inr (fl_lit F ''0'') else fl_stod F value)"

section \<open>The device\<close>

record 'd GeoPosition =
  gp_latitude :: 'd
  gp_longitude :: 'd
  gp_altitude :: 'd
  gp_speed :: 'd
  gp_course :: 'd
  gp_timestampMicroseconds :: int

record ('w, 'd) gnss_device = "('w, 'd GeoPosition) device_core" +
  gn_buffer :: string
  gn_position :: "'d GeoPosition"
  gn_hasFix :: bool
  gn_lastFix :: int

definition gnss_device_new :: "'d floats \<Rightarrow> 'w \<Rightarrow> RecoveryPolicy \<Rightarrow> ('w, 'd) gnss_device" where
  "gnss_device_new F w policy = device_core.extend (core_new w policy)
     \<lparr>gn_buffer = [],
      gn_position = \<lparr>gp_latitude = fl_lit F ''0'', gp_longitude = fl_lit F ''0'', gp_altitude = fl_lit F ''0'',
        gp_speed = fl_lit F ''0'', gp_course = fl_lit F ''0'', gp_timestampMicroseconds = 0\<rparr>,
      gn_hasFix = False, gn_lastFix = 0\<rparr>"

definition gnss_payload :: "'d floats \<Rightarrow> ('w, 'd) gnss_device \<Rightarrow> string" where
  "gnss_payload F s =
     (if gn_hasFix s
      then fl_show F (gp_latitude (gn_position s)) @ '','' @ fl_show F (gp_longitude (gn_position s)) @ '','' @
           fl_show F (gp_altitude (gn_position s))
      else ''no-fix'')"

definition gnss_markFailure ::
    "(nat \<Rightarrow> moment) \<Rightarrow> string \<Rightarrow> DeviceState \<Rightarrow> ('w, 'd) gnss_device \<Rightarrow> ('w, 'd) gnss_device" where
  "gnss_markFailure clock message state s =
     (core_failure clock
        (if message = ''GNSS fix stale'' then ''PDR-DEVICE-GNSS-FIX_STALE'' else ''PDR-DEVICE-GNSS-TRANSPORT_FAILED'')
        message state s)\<lparr>gn_hasFix := (gn_hasFix s \<and> state = Dready)\<rparr>"

text \<open>
  The two kinds of sentence that are understood. The result is whether there is a fix, and the updated
  position or the exception of a number.
\<close>

definition recommended_minimum :: "'d floats \<Rightarrow> string list \<Rightarrow> 'd GeoPosition \<Rightarrow> bool \<times> 'd GeoPosition res" where
  "recommended_minimum F vs p =
     (let fix = (vs ! 2 = ''A'') in
      (fix, if \<not> fix then Inr p
            else rbind (coordinate F (vs ! 3) (vs ! 4)) (\<lambda>lat.
                 rbind (coordinate F (vs ! 5) (vs ! 6)) (\<lambda>lon.
                 rbind (number_or_zero F (vs ! 7)) (\<lambda>speed.
                 rbind (number_or_zero F (vs ! 8)) (\<lambda>course.
                   Inr (p\<lparr>gp_latitude := lat, gp_longitude := lon, gp_speed := speed, gp_course := course\<rparr>)))))))"

definition fix_data :: "'d floats \<Rightarrow> string list \<Rightarrow> 'd GeoPosition \<Rightarrow> bool \<times> 'd GeoPosition res" where
  "fix_data F vs p =
     (let fix = (vs ! 6 \<noteq> [] \<and> vs ! 6 \<noteq> ''0'') in
      (fix, if \<not> fix then Inr p
            else rbind (coordinate F (vs ! 2) (vs ! 3)) (\<lambda>lat.
                 rbind (coordinate F (vs ! 4) (vs ! 5)) (\<lambda>lon.
                 rbind (number_or_zero F (vs ! 9)) (\<lambda>altitude.
                   Inr (p\<lparr>gp_latitude := lat, gp_longitude := lon, gp_altitude := altitude\<rparr>))))))"

definition gnss_update ::
    "'d floats \<Rightarrow> (nat \<Rightarrow> moment) \<Rightarrow> bool \<Rightarrow> 'd GeoPosition \<Rightarrow> ('w, 'd) gnss_device \<Rightarrow> ('w, 'd) gnss_device" where
  "gnss_update F clock fix p s =
     (let now = clock (dc_readings s);
          updated = p\<lparr>gp_timestampMicroseconds := tm_wall now\<rparr>;
          s1 = s\<lparr>gn_position := updated, gn_hasFix := fix\<rparr>;
          s2 = (if fix then (core_success clock s1)\<lparr>gn_lastFix := tm_steady now\<rparr>
                else core_failure clock ''PDR-DEVICE-GNSS-FIX_INVALID'' ''GNSS fix invalid'' Doffline s1)
      in core_notify (if fix then Some updated else None) (gnss_payload F s2) s2)"

definition ingestSentence ::
    "'d floats \<Rightarrow> (exc \<Rightarrow> string) \<Rightarrow> (nat \<Rightarrow> moment) \<Rightarrow> string \<Rightarrow> ('w, 'd) gnss_device \<Rightarrow> ('w, 'd) gnss_device \<times> bool" where
  "ingestSentence F what clock sentence s =
     (if \<not> validChecksum sentence then (gnss_markFailure clock ''invalid NMEA checksum'' (dc_state s) s, False)
      else let vs = fields_loop sentence (star_of sentence) 1 in
        if vs = [] then (s, False)
        else if \<not> ((vs ! 0 = ''GPRMC'' \<or> vs ! 0 = ''GNRMC'') \<and> 10 \<le> length vs \<or>
                   (vs ! 0 = ''GPGGA'' \<or> vs ! 0 = ''GNGGA'') \<and> 10 \<le> length vs) then (s, False)
        else case (if vs ! 0 = ''GPRMC'' \<or> vs ! 0 = ''GNRMC'' then recommended_minimum F vs (gn_position s)
                   else fix_data F vs (gn_position s)) of
            (fix, Inr p) \<Rightarrow> (gnss_update F clock fix p s, True)
          | (fix, Inl e) \<Rightarrow>
              (gnss_markFailure clock (''invalid NMEA fields: '' @ what e) (dc_state s) (s\<lparr>gn_hasFix := fix\<rparr>), False))"

definition gnss_checkStale :: "'d floats \<Rightarrow> (nat \<Rightarrow> moment) \<Rightarrow> ('w, 'd) gnss_device \<Rightarrow> ('w, 'd) gnss_device" where
  "gnss_checkStale F clock s =
     (if core_stale clock (gn_lastFix s) s
      then let s1 = gnss_markFailure clock ''GNSS fix stale'' Doffline s in core_notify None (gnss_payload F s1) s1
      else s\<lparr>dc_readings := dc_readings s + 1\<rparr>)"

definition gnss_connected :: "('w, 'd) gnss_device \<Rightarrow> ('w, 'd) gnss_device" where
  "gnss_connected s = s\<lparr>dc_state := Doffline, gn_hasFix := False, gn_buffer := [], dc_sequence := dc_sequence s + 1\<rparr>"

definition gnss_handle ::
    "'d floats \<Rightarrow> (exc \<Rightarrow> string) \<Rightarrow> (nat \<Rightarrow> moment) \<Rightarrow> byte list \<Rightarrow> (('w, 'd) gnss_device, unit) io" where
  "gnss_handle F what clock bytes s =
     (if bytes = [] then (gnss_checkStale F clock s, Inr ())
      else case nmea_lines (gn_buffer s @ map (\<lambda>b. char_of (unat b)) bytes) of
          (ls, rest) \<Rightarrow>
            (gnss_checkStale F clock
               (fold (\<lambda>line s. fst (ingestSentence F what clock line s)) ls (s\<lparr>gn_buffer := rest\<rparr>)), Inr ()))"

definition gnss_hooks ::
    "'d floats \<Rightarrow> (exc \<Rightarrow> string) \<Rightarrow> (nat \<Rightarrow> moment) \<Rightarrow> (byte list, ('w, 'd) gnss_device) device_hooks" where
  "gnss_hooks F what clock =
     \<lparr>dh_connected = gnss_connected, dh_failed = (\<lambda>m. gnss_markFailure clock m Dfault),
      dh_stopped = (\<lambda>s. s\<lparr>gn_hasFix := False\<rparr>), dh_payload = gnss_payload F, dh_handle = gnss_handle F what clock\<rparr>"

definition gnss_start ::
    "('w, byte list) transport \<Rightarrow> (exc \<Rightarrow> string) \<Rightarrow> 'd floats \<Rightarrow> (nat \<Rightarrow> moment) \<Rightarrow> unit res \<Rightarrow> (('w, 'd) gnss_device, unit) io" where
  "gnss_start T what F clock = core_start T (gnss_hooks F what clock)"

definition gnss_stop :: "('w, byte list) transport \<Rightarrow> (exc \<Rightarrow> string) \<Rightarrow> 'd floats \<Rightarrow> (nat \<Rightarrow> moment) \<Rightarrow> ('w, 'd) gnss_device \<Rightarrow> ('w, 'd) gnss_device" where
  "gnss_stop T what F clock = core_stop T (gnss_hooks F what clock)"

definition gnss_run ::
    "('w, byte list) transport \<Rightarrow> (exc \<Rightarrow> string) \<Rightarrow> 'd floats \<Rightarrow> (nat \<Rightarrow> moment) \<Rightarrow> ('w, 'd) gnss_device \<Rightarrow> ('w, 'd) gnss_device" where
  "gnss_run T what F clock = core_pass T what (gnss_hooks F what clock)"

fun gnss_act ::
    "('w, byte list) transport \<Rightarrow> (exc \<Rightarrow> string) \<Rightarrow> 'd floats \<Rightarrow> (nat \<Rightarrow> moment) \<Rightarrow> action \<Rightarrow> ('w, 'd) gnss_device \<Rightarrow> ('w, 'd) gnss_device" where
  "gnss_act T what F clock (Astart thread) s = fst (gnss_start T what F clock thread s)"
| "gnss_act T what F clock Apass s = gnss_run T what F clock s"
| "gnss_act T what F clock Astop s = gnss_stop T what F clock s"

lemma gnss_act_core: "gnss_act T what F clock = core_act T what (gnss_hooks F what clock)"
proof (intro ext)
  show "gnss_act T what F clock a s = core_act T what (gnss_hooks F what clock) a s" for a s
    by (cases a) (simp_all add: gnss_start_def gnss_run_def gnss_stop_def)
qed

definition gnss_execute :: "'d floats \<Rightarrow> string \<Rightarrow> ('w, 'd) gnss_device \<Rightarrow> string res" where
  "gnss_execute F operation s =
     (if operation = ''position'' then Inr (gnss_payload F s)
      else if operation = ''hasFix'' then Inr (if gn_hasFix s then ''true'' else ''false'')
      else Inl (InvalidArgument (''unsupported GNSS operation: '' @ operation)))"

section \<open>The state of the device\<close>

definition gnss_inv :: "('w, 'd) gnss_device \<Rightarrow> bool" where
  "gnss_inv s \<longleftrightarrow> (gn_hasFix s \<longleftrightarrow> dc_state s = Dready)"

lemma recommended_minimum_fix: "recommended_minimum F vs p = (fix, Inl e) \<Longrightarrow> fix"
  by (auto simp: recommended_minimum_def Let_def split: if_splits)

lemma fix_data_fix: "fix_data F vs p = (fix, Inl e) \<Longrightarrow> fix"
  by (auto simp: fix_data_def Let_def split: if_splits)

lemma gnss_markFailure_simps [simp]:
  "dc_channel (gnss_markFailure clock m st s) = dc_channel s" "dc_running (gnss_markFailure clock m st s) = dc_running s"
  "dc_thread (gnss_markFailure clock m st s) = dc_thread s" "dc_state (gnss_markFailure clock m st s) = st"
  "dc_policy (gnss_markFailure clock m st s) = dc_policy s"
  "gn_hasFix (gnss_markFailure clock m st s) = (gn_hasFix s \<and> st = Dready)"
  by (simp_all add: gnss_markFailure_def core_failure_def)

lemma gnss_notify_fix [simp]: "gn_hasFix (core_notify v p s) = gn_hasFix s"
  by (simp add: core_notify_def)

lemma gnss_update_keeps [simp]:
  "dc_channel (gnss_update F clock fix p s) = dc_channel s" "dc_running (gnss_update F clock fix p s) = dc_running s"
  "dc_thread (gnss_update F clock fix p s) = dc_thread s"
  "dc_state (gnss_update F clock fix p s) = (if fix then Dready else Doffline)"
  "gn_hasFix (gnss_update F clock fix p s) = fix"
  by (simp_all add: gnss_update_def Let_def core_success_def core_failure_def)

text \<open>Every call keeps the channel, and a device that is not in fault stays so and keeps its invariant.\<close>

definition gnss_keeps :: "('w, 'd) gnss_device \<Rightarrow> ('w, 'd) gnss_device \<Rightarrow> bool" where
  "gnss_keeps s s' \<longleftrightarrow> dc_channel s' = dc_channel s \<and> dc_running s' = dc_running s \<and> dc_thread s' = dc_thread s \<and>
     (dc_state s \<noteq> Dfault \<longrightarrow> dc_state s' \<noteq> Dfault) \<and> (gnss_inv s \<longrightarrow> gnss_inv s')"

lemma gnss_keeps_refl [simp]: "gnss_keeps s s"
  by (simp add: gnss_keeps_def)

lemma gnss_keeps_trans: "gnss_keeps s t \<Longrightarrow> gnss_keeps t u \<Longrightarrow> gnss_keeps s u"
  by (simp add: gnss_keeps_def)

lemma ingestSentence_keeps: "gnss_keeps s (fst (ingestSentence F what clock line s))"
proof -
  have "gnss_keeps s (gnss_markFailure clock m (dc_state s) s)" for m
    by (auto simp: gnss_keeps_def gnss_inv_def)
  moreover have "gnss_keeps s (gnss_update F clock b p s)" for b p
    by (auto simp: gnss_keeps_def gnss_inv_def)
  moreover have "gnss_keeps s (gnss_markFailure clock m (dc_state s) (s\<lparr>gn_hasFix := True\<rparr>))" for m
    by (auto simp: gnss_keeps_def gnss_inv_def)
  ultimately show ?thesis
    by (auto simp: ingestSentence_def Let_def dest: recommended_minimum_fix fix_data_fix split: prod.split sum.split)
qed

lemma gnss_checkStale_keeps: "gnss_keeps s (gnss_checkStale F clock s)"
  by (auto simp: gnss_checkStale_def gnss_keeps_def gnss_inv_def Let_def core_stale_def)

lemma ingest_lines_keep:
  "gnss_keeps s (fold (\<lambda>line s. fst (ingestSentence F what clock line s)) ls s)"
  by (induction ls arbitrary: s) (auto intro: gnss_keeps_trans ingestSentence_keeps)

lemma gnss_buffer_keeps: "gnss_keeps (s\<lparr>gn_buffer := b\<rparr>) t \<Longrightarrow> gnss_keeps s t"
  by (simp add: gnss_keeps_def gnss_inv_def)

lemma gnss_handle_keeps: "gnss_keeps s (fst (gnss_handle F what clock x s))"
  by (auto simp: gnss_handle_def gnss_checkStale_keeps split: prod.split
      intro: gnss_buffer_keeps gnss_keeps_trans [OF ingest_lines_keep gnss_checkStale_keeps])

lemmas gnss_defs = gnss_hooks_def gnss_connected_def gnss_markFailure_def core_failure_def

locale gnss_transport = transport_laws T
  for T :: "('w, byte list) transport"

sublocale gnss_transport \<subseteq> gnss: monitored_device T "gnss_hooks F what clock" for F :: "'d floats" and what and clock
proof unfold_locales
  show "dc_channel (fst (dh_handle (gnss_hooks F what clock) x s)) = dc_channel s"
    "dc_running (fst (dh_handle (gnss_hooks F what clock) x s)) = dc_running s"
    "dc_thread (fst (dh_handle (gnss_hooks F what clock) x s)) = dc_thread s"
    "dc_state s \<noteq> Dfault \<Longrightarrow> dc_state (fst (dh_handle (gnss_hooks F what clock) x s)) \<noteq> Dfault"
    for x and s :: "('w, 'd) gnss_device"
    using gnss_handle_keeps [of s F what clock x] by (simp_all add: gnss_hooks_def gnss_keeps_def)
qed (auto simp: gnss_defs makeFailure_def)

end
