(* ===== verification/Serial_Device.thy ===== *)
theory Serial_Device
  imports Gnss
begin

text \<open>
  The serial channels (\<open>platform/protocols/Serial/src\<close>: \<open>LoopbackSerialChannel\<close> and \<open>SerialChannel\<close>, the
  latter on an operating-system port given as parameters) and the serial port device
  (\<open>platform/devices/Serial/src/SerialPortDevice.cpp\<close>). Metrics are left out.
\<close>

section \<open>The loopback channel\<close>

record loopback_serial =
  ls_name :: string
  ls_bytes :: "byte list"
  ls_open :: bool

definition loopback_serial_new :: "string \<Rightarrow> loopback_serial res" where
  "loopback_serial_new name =
     (if name = [] then Inl (InvalidArgument ''loopback serial channel name must not be empty'')
      else Inr \<lparr>ls_name = name, ls_bytes = [], ls_open = False\<rparr>)"

definition ls_open_op :: "(loopback_serial, unit) io" where
  "ls_open_op s = (s\<lparr>ls_open := True\<rparr>, Inr ())"

definition ls_close :: "loopback_serial \<Rightarrow> loopback_serial" where
  "ls_close s = s\<lparr>ls_open := False, ls_bytes := []\<rparr>"

definition ls_write :: "byte list \<Rightarrow> (loopback_serial, nat) io" where
  "ls_write data s =
     (if \<not> ls_open s then (s, Inl (LogicError ''loopback serial channel is not open''))
      else (s\<lparr>ls_bytes := ls_bytes s @ data\<rparr>, Inr (length data)))"

text \<open>\<open>read\<close> up to its wait, and from the end of the wait.\<close>

definition ls_read_enter :: "(loopback_serial, unit) io" where
  "ls_read_enter s =
     (if \<not> ls_open s then (s, Inl (LogicError ''loopback serial channel is not open'')) else (s, Inr ()))"

definition ls_read_finish :: "nat \<Rightarrow> (loopback_serial, byte list) io" where
  "ls_read_finish count s =
     (if ls_bytes s = [] \<and> ls_open s then (s, Inr [])
      else if \<not> ls_open s then (s, Inl (RuntimeError ''loopback serial channel closed while reading''))
      else (s\<lparr>ls_bytes := drop (min count (length (ls_bytes s))) (ls_bytes s)\<rparr>,
            Inr (take (min count (length (ls_bytes s))) (ls_bytes s))))"

definition ls_read :: "nat \<Rightarrow> (loopback_serial, byte list) io" where
  "ls_read count = ibind ls_read_enter (\<lambda>_. ls_read_finish count)"

definition loopback_line :: "string \<Rightarrow> nat \<Rightarrow> (loopback_serial, byte list) transport" where
  "loopback_line name count =
     \<lparr>tr_name = ''serial-loopback:'' @ name, tr_isOpen = ls_open, tr_open = ls_open_op, tr_close = ls_close,
      tr_receive = ls_read count\<rparr>"

section \<open>The serial channel\<close>

record 'p serial_port =
  sp_open :: "('p, unit) io"
  sp_close :: "('p, unit) io"
  sp_write :: "byte list \<Rightarrow> ('p, nat) io"
  sp_read :: "nat \<Rightarrow> ('p, byte list) io"

record 'p serial_channel =
  sc_port :: 'p
  sc_open :: bool

definition sc_open_op :: "'p serial_port \<Rightarrow> ('p serial_channel, unit) io" where
  "sc_open_op P s =
     (if sc_open s then (s, Inr ())
      else case sp_open P (sc_port s) of
          (p, Inl e) \<Rightarrow> (s\<lparr>sc_port := p\<rparr>, Inl e)
        | (p, Inr _) \<Rightarrow> (s\<lparr>sc_port := p, sc_open := True\<rparr>, Inr ()))"

definition sc_close :: "'p serial_port \<Rightarrow> 'p serial_channel \<Rightarrow> 'p serial_channel" where
  "sc_close P s = (if \<not> sc_open s then s else s\<lparr>sc_open := False, sc_port := fst (sp_close P (sc_port s))\<rparr>)"

definition sc_use :: "'p serial_port \<Rightarrow> ('p, 'a) io \<Rightarrow> ('p serial_channel, 'a) io" where
  "sc_use P m s =
     (if \<not> sc_open s then (s, Inl (LogicError ''serial channel is not open''))
      else case m (sc_port s) of
          (p, Inl e) \<Rightarrow> (sc_close P (s\<lparr>sc_port := p\<rparr>), Inl e)
        | (p, Inr x) \<Rightarrow> (s\<lparr>sc_port := p\<rparr>, Inr x))"

definition sc_write :: "'p serial_port \<Rightarrow> byte list \<Rightarrow> ('p serial_channel, nat) io" where
  "sc_write P data = sc_use P (sp_write P data)"

definition sc_read :: "'p serial_port \<Rightarrow> nat \<Rightarrow> ('p serial_channel, byte list) io" where
  "sc_read P count = sc_use P (sp_read P count)"

definition serial_line :: "'p serial_port \<Rightarrow> string \<Rightarrow> nat \<Rightarrow> ('p serial_channel, byte list) transport" where
  "serial_line P device count =
     \<lparr>tr_name = ''serial:'' @ device, tr_isOpen = sc_open, tr_open = sc_open_op P, tr_close = sc_close P,
      tr_receive = sc_read P count\<rparr>"

section \<open>The serial port device\<close>

record 'w serial_device = "('w, byte list) device_core" +
  sd_lastPayload :: string

definition serial_device_new :: "'w \<Rightarrow> RecoveryPolicy \<Rightarrow> 'w serial_device" where
  "serial_device_new w policy = device_core.extend (core_new w policy) \<lparr>sd_lastPayload = []\<rparr>"

definition serial_markReady :: "string \<Rightarrow> 'w serial_device \<Rightarrow> 'w serial_device" where
  "serial_markReady name s =
     s\<lparr>dc_state := Dready, dc_sequence := dc_sequence s + 1,
       dc_diagnostics := (dc_diagnostics s)\<lparr>dd_consecutiveFailures := 0, dd_lastError := []\<rparr>,
       dc_failure := resolve_failure (dc_failure s), sd_lastPayload := name\<rparr>"

definition serial_markFailure :: "(nat \<Rightarrow> moment) \<Rightarrow> string \<Rightarrow> 'w serial_device \<Rightarrow> 'w serial_device" where
  "serial_markFailure clock message s = core_failure clock ''PDR-DEVICE-SERIAL-OPERATION_FAILED'' message Dfault s"

definition serial_handle :: "(nat \<Rightarrow> moment) \<Rightarrow> byte list \<Rightarrow> ('w serial_device, unit) io" where
  "serial_handle clock data s =
     (if data = [] then (s, Inr ())
      else let s1 = (core_success clock s)\<lparr>sd_lastPayload := decimal (length data) @ '' bytes read''\<rparr>
           in (core_notify (Some data) (sd_lastPayload s1) s1, Inr ()))"

definition serial_hooks :: "string \<Rightarrow> (nat \<Rightarrow> moment) \<Rightarrow> (byte list, 'w serial_device) device_hooks" where
  "serial_hooks name clock =
     \<lparr>dh_connected = serial_markReady name, dh_failed = serial_markFailure clock, dh_stopped = (\<lambda>s. s),
      dh_payload = sd_lastPayload, dh_handle = serial_handle clock\<rparr>"

definition serial_start ::
    "('w, byte list) transport \<Rightarrow> (nat \<Rightarrow> moment) \<Rightarrow> unit res \<Rightarrow> ('w serial_device, unit) io" where
  "serial_start T clock = core_start T (serial_hooks (tr_name T) clock)"

definition serial_stop :: "('w, byte list) transport \<Rightarrow> (nat \<Rightarrow> moment) \<Rightarrow> 'w serial_device \<Rightarrow> 'w serial_device" where
  "serial_stop T clock = core_stop T (serial_hooks (tr_name T) clock)"

definition serial_run ::
    "('w, byte list) transport \<Rightarrow> (exc \<Rightarrow> string) \<Rightarrow> (nat \<Rightarrow> moment) \<Rightarrow> 'w serial_device \<Rightarrow> 'w serial_device" where
  "serial_run T what clock = core_pass T what (serial_hooks (tr_name T) clock)"

definition partial_write :: "nat \<Rightarrow> nat \<Rightarrow> exc" where
  "partial_write written count = RuntimeError (''partial serial write: '' @ decimal written @ ''/'' @ decimal count)"

definition serial_write ::
    "('w, byte list) transport \<Rightarrow> (byte list \<Rightarrow> ('w, nat) io) \<Rightarrow> (exc \<Rightarrow> string) \<Rightarrow> (nat \<Rightarrow> moment) \<Rightarrow> byte list \<Rightarrow>
      ('w serial_device, nat) io" where
  "serial_write T write what clock data s =
     (if \<not> dc_running s \<or> dc_state s \<noteq> Dready then (s, Inl (RuntimeError ''serial device is not ready''))
      else case write data (dc_channel s) of
          (w, Inl e) \<Rightarrow> (core_disconnect T (serial_hooks (tr_name T) clock) (what e) (s\<lparr>dc_channel := w\<rparr>), Inl e)
        | (w, Inr n) \<Rightarrow>
            if n \<noteq> length data
            then (core_disconnect T (serial_hooks (tr_name T) clock) (what (partial_write n (length data)))
                    (s\<lparr>dc_channel := w\<rparr>), Inl (partial_write n (length data)))
            else let s1 = (core_success clock (s\<lparr>dc_channel := w\<rparr>))\<lparr>sd_lastPayload := decimal n @ '' bytes written''\<rparr>
                 in (core_notify None (sd_lastPayload s1) s1, Inr n))"

definition serial_execute ::
    "('w, byte list) transport \<Rightarrow> (byte list \<Rightarrow> ('w, nat) io) \<Rightarrow> (exc \<Rightarrow> string) \<Rightarrow> (nat \<Rightarrow> moment) \<Rightarrow> string \<Rightarrow>
      byte list \<Rightarrow> ('w serial_device, string) io" where
  "serial_execute T write what clock operation payload s =
     (if operation = ''write''
      then (case serial_write T write what clock payload s of
          (s1, Inl e) \<Rightarrow> (s1, Inl e)
        | (s1, Inr n) \<Rightarrow> (s1, Inr (decimal n)))
      else (s, Inl (InvalidArgument (''unsupported serial-device operation: '' @ operation))))"

text \<open>What its owner, its thread and its users do.\<close>

fun serial_act ::
    "('w, byte list) transport \<Rightarrow> (byte list \<Rightarrow> ('w, nat) io) \<Rightarrow> (exc \<Rightarrow> string) \<Rightarrow> (nat \<Rightarrow> moment) \<Rightarrow> action + byte list \<Rightarrow>
      'w serial_device \<Rightarrow> 'w serial_device" where
  "serial_act T wr what clock (Inl (Astart thread)) s = fst (serial_start T clock thread s)"
| "serial_act T wr what clock (Inl Apass) s = serial_run T what clock s"
| "serial_act T wr what clock (Inl Astop) s = serial_stop T clock s"
| "serial_act T wr what clock (Inr data) s = fst (serial_write T wr what clock data s)"

section \<open>The device on a channel that can be written\<close>

lemmas serial_defs = serial_hooks_def serial_markReady_def serial_markFailure_def core_failure_def core_success_def

lemma serial_handle_keeps:
  "dc_channel (fst (serial_handle clock x s)) = dc_channel s"
  "dc_running (fst (serial_handle clock x s)) = dc_running s"
  "dc_thread (fst (serial_handle clock x s)) = dc_thread s"
  "dc_state s \<noteq> Dfault \<Longrightarrow> dc_state (fst (serial_handle clock x s)) \<noteq> Dfault"
  by (simp_all add: serial_handle_def core_success_def Let_def)

lemma serial_success_inv:
  "dc_running s \<Longrightarrow> dc_thread s \<Longrightarrow> tr_isOpen T w \<Longrightarrow> core_inv T ((core_success clock (s\<lparr>dc_channel := w\<rparr>))\<lparr>sd_lastPayload := p\<rparr>)"
  by (simp add: core_inv_def core_success_def)

locale serial_transport = gnss_transport T
  for T :: "('w, byte list) transport" +
  fixes wr :: "byte list \<Rightarrow> ('w, nat) io"
  assumes write_keeps: "wr data w = (w', Inr n) \<Longrightarrow> tr_isOpen T w \<Longrightarrow> tr_isOpen T w'"

sublocale serial_transport \<subseteq> serial: monitored_device T "serial_hooks name clock" for name and clock
  by unfold_locales (auto simp: serial_defs makeFailure_def serial_handle_keeps)

context serial_transport
begin

lemma serial_write_inv:
  assumes "core_inv T s"
  shows "core_inv T (fst (serial_write T wr what clock data s))"
proof (cases "dc_running s \<and> dc_state s = Dready")
  case True
  then have "tr_isOpen T (dc_channel s)" "dc_thread s" using assms by (auto simp: core_inv_def)
  then show ?thesis
    using True by (auto simp: serial_write_def serial.core_disconnect_inv Let_def
        intro: serial_success_inv write_keeps split: prod.split sum.split)
qed (use assms in \<open>simp add: serial_write_def\<close>)

end

interpretation loopback_line: serial_transport "loopback_line name count" ls_write for name count
  by unfold_locales
     (auto simp: loopback_line_def ls_open_op_def ls_close_def ls_read_def ibind_cases ls_read_enter_def
        ls_read_finish_def ls_write_def split: if_splits)

interpretation serial_line: serial_transport "serial_line P device count" "sc_write P" for P device count
  by unfold_locales
     (auto simp: serial_line_def sc_open_op_def sc_close_def sc_read_def sc_write_def sc_use_def
        split: if_splits prod.splits sum.splits)

end
