(* ===== verification/Gnss_Facts.thy ===== *)
theory Gnss_Facts
  imports Complex_Main Gnss
begin

text \<open>
  The lines of the GNSS receiver do not depend on how the bytes arrive, the checksum finds every
  corrupted character, and the fields of a sentence are those it was printed from.
\<close>

section \<open>Lines do not depend on the reads\<close>

text \<open>What the passes of the loop hand on, read by read.\<close>

fun nmea_feed :: "string \<Rightarrow> string list \<Rightarrow> string list \<times> string" where
  "nmea_feed buffer [] = ([], buffer)"
| "nmea_feed buffer (c # cs) =
     (case nmea_lines (buffer @ c) of
        (ls, rest) \<Rightarrow> (case nmea_feed rest cs of (ms, rest') \<Rightarrow> (ls @ ms, rest')))"

text \<open>The reference: the parts between the line ends, without the empty ones, and the part after the last.\<close>

fun eol_parts :: "string \<Rightarrow> string list" where
  "eol_parts [] = [[]]"
| "eol_parts (c # cs) = (if is_eol c then [] # eol_parts cs else (c # hd (eol_parts cs)) # tl (eol_parts cs))"

definition lines_spec :: "string \<Rightarrow> string list \<times> string" where
  "lines_spec s = (filter (\<lambda>l. l \<noteq> []) (butlast (eol_parts s)), List.last (eol_parts s))"

lemma eol_parts_nonempty [simp]: "eol_parts s \<noteq> []"
  by (induction s) simp_all

lemma eol_parts_append:
  "eol_parts (a @ b) = butlast (eol_parts a) @ (List.last (eol_parts a) @ hd (eol_parts b)) # tl (eol_parts b)"
proof (induction a)
  case (Cons c a)
  obtain p ps where "eol_parts a = p # ps" by (cases "eol_parts a") simp_all
  then show ?case using Cons by (cases ps) auto
qed simp

lemma eol_parts_line: "list_all (\<lambda>c. \<not> is_eol c) s \<Longrightarrow> eol_parts s = [s]"
  by (induction s) simp_all

lemma last_part_clean: "list_all (\<lambda>c. \<not> is_eol c) (List.last (eol_parts s))"
proof (induction s)
  case (Cons c s)
  obtain p ps where "eol_parts s = p # ps" by (cases "eol_parts s") simp_all
  then show ?case using Cons by (cases ps) auto
qed simp

lemma lines_spec_eol: "is_eol c \<Longrightarrow> lines_spec (c # s) = lines_spec s"
  by (simp add: lines_spec_def)

lemma lines_spec_skip: "lines_spec (dropWhile is_eol s) = lines_spec s"
  by (induction s) (simp_all add: lines_spec_eol)

lemma lines_spec_line:
  assumes "list_all (\<lambda>c. \<not> is_eol c) l" and "is_eol c"
  shows "lines_spec (l @ c # s) = ((if l = [] then id else (#) l) (fst (lines_spec s)), snd (lines_spec s))"
  using assms by (simp add: lines_spec_def eol_parts_append eol_parts_line)

lemma nmea_lines_spec: "nmea_lines b = lines_spec b"
proof (induction b rule: nmea_lines.induct)
  case (1 b)
  define l r where "l = takeWhile (\<lambda>c. \<not> is_eol c) b" and "r = dropWhile (\<lambda>c. \<not> is_eol c) b"
  have b: "b = l @ r" by (simp add: l_def r_def)
  have l: "list_all (\<lambda>c. \<not> is_eol c) l" by (auto simp: l_def list_all_iff dest: set_takeWhileD)
  have d: "drop (length l) b = r" using b by (metis append_eq_conv_conj)
  show ?case
  proof (cases "length l = length b")
    case True
    then have "nmea_lines b = ([], b)" by (simp add: nmea_lines.simps [of b] Let_def flip: l_def)
    moreover have "b = l" using True b by simp
    ultimately show ?thesis using l by (simp add: lines_spec_def eol_parts_line)
  next
    case False
    then obtain c r' where r: "r = c # r'" using b by (cases r) simp_all
    then have c: "is_eol c" unfolding r_def by (metis hd_dropWhile list.sel(1) list.distinct(1))
    have "nmea_lines (dropWhile is_eol r) = lines_spec (dropWhile is_eol r)"
      using 1 [OF l_def] False d by simp
    then have IH: "nmea_lines (dropWhile is_eol r) = lines_spec r'"
      by (simp add: r c lines_spec_skip)
    have "nmea_lines b = (case nmea_lines (dropWhile is_eol r) of (ls, rest) \<Rightarrow> ((if l = [] then ls else l # ls), rest))"
      using False d by (simp add: nmea_lines.simps [of b] Let_def flip: l_def)
    then have "nmea_lines b = lines_spec (l @ c # r')"
      unfolding IH lines_spec_line [OF l c] by (simp add: case_prod_beta)
    then show ?thesis using b r by simp
  qed
qed

lemma lines_spec_append:
  "lines_spec (a @ b) = (fst (lines_spec a) @ fst (lines_spec (snd (lines_spec a) @ b)), snd (lines_spec (snd (lines_spec a) @ b)))"
proof -
  define l where "l = List.last (eol_parts a)"
  have l: "eol_parts l = [l]" using last_part_clean [of a] by (simp add: l_def eol_parts_line)
  have "eol_parts (l @ b) = (l @ hd (eol_parts b)) # tl (eol_parts b)"
    by (simp add: eol_parts_append l)
  then show ?thesis
    by (auto simp: lines_spec_def eol_parts_append butlast_append simp flip: l_def)
qed

text \<open>
  C28: However the bytes of the serial channel are split into reads, the receiver gets the same
  sentences: the non-empty parts between line ends of the whole stream, in order, and what follows the
  last line end waits in the buffer.
\<close>

theorem nmea_lines_any_chunks:
  "nmea_feed [] chunks =
     (filter (\<lambda>l. l \<noteq> []) (butlast (eol_parts (concat chunks))), List.last (eol_parts (concat chunks)))"
proof -
  have "nmea_feed buffer chunks = lines_spec (buffer @ concat chunks)"
    if "list_all (\<lambda>c. \<not> is_eol c) buffer" for buffer
    using that
  proof (induction chunks arbitrary: buffer)
    case Nil
    then show ?case by (simp add: lines_spec_def eol_parts_line)
  next
    case (Cons c cs)
    define rest where "rest = snd (lines_spec (buffer @ c))"
    have "nmea_feed rest cs = lines_spec (rest @ concat cs)"
      by (rule Cons.IH) (simp add: rest_def lines_spec_def last_part_clean)
    then show ?case
      using lines_spec_append [of "buffer @ c" "concat cs"]
      by (simp add: nmea_lines_spec rest_def case_prod_beta)
  qed
  from this [of "[]"] show ?thesis by (simp add: lines_spec_def)
qed

section \<open>The checksum\<close>

lemma unat_of_char [simp]: "unat (of_char c :: 8 word) = of_char c"
proof -
  have "unat (of_nat (of_char c) :: 8 word) = take_bit 8 (of_char c)" by (simp only: unsigned_of_nat) simp
  also have "\<dots> = of_char c" by (simp add: take_bit_nat_eq_self)
  finally show ?thesis by (simp only: of_nat_of_char)
qed

lemma of_char_byte_inject: "of_char c = (of_char d :: 8 word) \<Longrightarrow> c = d"
  by (metis unat_of_char of_char_eq_iff)

lemma checksum_foldl: "foldl (\<lambda>x c. x XOR of_char c) a body = a XOR checksum body"
proof -
  have "foldl (\<lambda>x c. x XOR of_char c) a body = a XOR foldl (\<lambda>x c. x XOR of_char c) 0 body" for a :: "8 word"
  proof (induction body arbitrary: a)
    case (Cons c body)
    show ?case
      using Cons.IH [of "a XOR of_char c"] Cons.IH [of "0 XOR of_char c"] by (simp only: foldl_Cons xor.assoc xor.left_neutral)
  qed simp
  then show ?thesis unfolding checksum_def .
qed

lemma checksum_Nil [simp]: "checksum [] = 0"
  by (simp add: checksum_def)

lemma checksum_Cons [simp]: "checksum (c # s) = of_char c XOR checksum s"
  using checksum_foldl [of "0 XOR of_char c" s] by (simp add: checksum_def)

lemma checksum_append: "checksum (a @ b) = checksum a XOR checksum b"
  by (induction a) (simp_all add: xor.assoc)

lemma checksum_update:
  assumes "i < length s" and "c \<noteq> s ! i"
  shows "checksum (s[i := c]) \<noteq> checksum s"
proof
  assume eq: "checksum (s[i := c]) = checksum s"
  have "s = take i s @ s ! i # drop (Suc i) s" using assms(1) by (rule id_take_nth_drop)
  moreover have "s[i := c] = take i s @ c # drop (Suc i) s" using assms(1) by (rule upd_conv_take_nth_drop)
  ultimately have "checksum (take i s) XOR (of_char c XOR checksum (drop (Suc i) s)) =
      checksum (take i s) XOR (of_char (s ! i) XOR checksum (drop (Suc i) s))"
    using eq by (metis checksum_append checksum_Cons)
  then have "of_char c = (of_char (s ! i) :: 8 word)"
    by (metis (no_types, lifting) xor.assoc xor.commute xor.left_neutral xor_self_eq)
  then show False using of_char_byte_inject assms(2) by blast
qed

section \<open>Corrupted sentences\<close>

lemma star_of_update:
  assumes "i < star_of s" and "c \<noteq> CHR ''*''"
  shows "star_of (s[i := c]) = star_of s"
  using assms
proof (induction s arbitrary: i)
  case (Cons d s)
  show ?case
  proof (cases i)
    case (Suc j)
    then show ?thesis using Cons by (auto simp: star_of_def split: if_splits)
  qed (use Cons in \<open>simp add: star_of_def split: if_splits\<close>)
qed (simp add: star_of_def)

text \<open>
  The checksum finds every corrupted character: when a sentence passes the check, changing one
  character of its body to any other makes it fail, unless the new character is the star that ends the
  body.
\<close>

theorem nmea_checksum_detects:
  assumes "validChecksum s" and "1 \<le> i" and "i < star_of s" and "c \<noteq> s ! i" and "c \<noteq> CHR ''*''"
  shows "\<not> validChecksum (s[i := c])"
proof -
  define star where "star = star_of s"
  have star: "star_of (s[i := c]) = star" using star_of_update assms(3,5) by (simp add: star_def)
  have len: "star < length s" using assms(1) by (simp add: validChecksum_def star_def)
  have digits: "take 2 (drop (star + 1) (s[i := c])) = take 2 (drop (star + 1) s)"
    using assms(3) by (simp add: star_def)
  have "drop 1 (s[i := c]) = (drop 1 s)[i - 1 := c]" using assms(2) by (simp add: drop_update_swap)
  then have body: "body_of (s[i := c]) = (body_of s)[i - 1 := c]"
    using star by (simp add: body_of_def star_def take_update_swap)
  have "checksum (body_of (s[i := c])) \<noteq> checksum (body_of s)"
    unfolding body using assms(2-4) len by (intro checksum_update) (auto simp: body_of_def star_def)
  then have "unat (checksum (body_of (s[i := c]))) \<noteq> unat (checksum (body_of s))"
    by (metis unsigned_word_eqI)
  then show ?thesis
    using assms(1) star digits unfolding validChecksum_def by (auto simp: star_def)
qed

section \<open>Fields\<close>

fun comma_fields :: "string \<Rightarrow> string list" where
  "comma_fields [] = [[]]"
| "comma_fields (c # cs) =
     (if c = CHR '','' then [] # comma_fields cs else (c # hd (comma_fields cs)) # tl (comma_fields cs))"

lemma comma_fields_nonempty [simp]: "comma_fields s \<noteq> []"
  by (induction s) simp_all

lemma comma_fields_field: "CHR '','' \<notin> set s \<Longrightarrow> comma_fields s = [s]"
  by (induction s) auto

lemma comma_fields_comma: "CHR '','' \<notin> set s \<Longrightarrow> comma_fields (s @ CHR '','' # t) = s # comma_fields t"
  by (induction s) auto

lemma fields_loop_spec:
  "b \<le> star \<Longrightarrow> star \<le> length s \<Longrightarrow> fields_loop s star b = comma_fields (take (star - b) (drop b s))"
proof (induction s star b rule: fields_loop.induct)
  case (1 s star b)
  define f where "f = takeWhile (\<lambda>c. c \<noteq> CHR '','') (drop b s)"
  define comma where "comma = b + length f"
  define e where "e = (if comma = length s \<or> star < comma then star else comma)"
  have nocomma: "CHR '','' \<notin> set f" by (auto simp: f_def dest: set_takeWhileD)
  have f: "f = take (length f) (drop b s)" by (metis f_def takeWhile_eq_take)
  have unfold: "fields_loop s star b = take (e - b) (drop b s) # (if e = star then [] else fields_loop s star (e + 1))"
    using "1.prems" by (simp add: fields_loop.simps [of s star b] Let_def e_def comma_def f_def)
  show ?case
  proof (cases "e = star")
    case True
    then have "star \<le> comma" using "1.prems" by (auto simp: e_def comma_def f_def split: if_splits)
    then have "take (star - b) (drop b s) = take (star - b) f"
      by (subst f) (simp add: comma_def min_def take_take)
    then have "CHR '','' \<notin> set (take (star - b) (drop b s))"
      using nocomma by (metis in_set_takeD)
    then show ?thesis using True unfold by (simp add: comma_fields_field)
  next
    case False
    then have e: "e = comma" "comma < star" by (auto simp: e_def split: if_splits)
    have c: "s ! comma = CHR '',''"
    proof -
      have "length f < length (drop b s)" using e "1.prems" by (simp add: comma_def)
      then have "\<not> drop b s ! length f \<noteq> CHR '',''" unfolding f_def by (rule nth_length_takeWhile)
      then show ?thesis using "1.prems" by (simp add: comma_def)
    qed
    have "drop b s = f @ CHR '','' # drop (comma + 1) s"
    proof -
      have "drop b s = f @ drop (length f) (drop b s)" by (metis f append_take_drop_id)
      also have "drop (length f) (drop b s) = drop comma s" by (simp add: comma_def add.commute)
      also have "drop comma s = s ! comma # drop (comma + 1) s"
        using e "1.prems" by (simp add: Cons_nth_drop_Suc)
      finally show ?thesis using c by simp
    qed
    then have "take (star - b) (drop b s) = f @ CHR '','' # take (star - (comma + 1)) (drop (comma + 1) s)"
      using e by (simp add: comma_def) (metis Suc_diff_Suc diff_diff_left take_Suc_Cons)
    moreover have "fields_loop s star (e + 1) = comma_fields (take (star - (comma + 1)) (drop (comma + 1) s))"
      using "1.IH" [OF _ refl refl] e "1.prems" False by (simp add: e_def comma_def f_def)
    moreover have "take (e - b) (drop b s) = f" using e f by (simp add: comma_def)
    ultimately show ?thesis using unfold False nocomma by (simp add: comma_fields_comma)
  qed
qed

section \<open>Printed sentences\<close>

fun join_fields :: "string list \<Rightarrow> string" where
  "join_fields [] = []"
| "join_fields [f] = f"
| "join_fields (f # fs) = f @ CHR '','' # join_fields fs"

definition hex_digit :: "nat \<Rightarrow> char" where
  "hex_digit n = ''0123456789ABCDEF'' ! n"

definition hex2 :: "8 word \<Rightarrow> string" where
  "hex2 w = [hex_digit (unat w div 16), hex_digit (unat w mod 16)]"

definition nmea_sentence :: "string list \<Rightarrow> string" where
  "nmea_sentence fs = CHR ''$'' # join_fields fs @ CHR ''*'' # hex2 (checksum (join_fields fs))"

definition plain_fields :: "string list \<Rightarrow> bool" where
  "plain_fields fs \<longleftrightarrow> fs \<noteq> [] \<and> list_all (\<lambda>f. CHR '','' \<notin> set f \<and> CHR ''*'' \<notin> set f) fs"

lemma comma_fields_join: "plain_fields fs \<Longrightarrow> comma_fields (join_fields fs) = fs"
  by (induction fs rule: join_fields.induct) (auto simp: plain_fields_def comma_fields_field comma_fields_comma)

lemma join_fields_star: "plain_fields fs \<Longrightarrow> CHR ''*'' \<notin> set (join_fields fs)"
  by (induction fs rule: join_fields.induct) (auto simp: plain_fields_def)

lemma hex_digit_reads:
  assumes "n < 16"
  shows "digit_value (hex_digit n) = n \<and> \<not> isspace (hex_digit n) \<and>
    hex_digit n \<notin> {CHR ''-'', CHR ''+'', CHR ''x'', CHR ''X''}"
proof -
  have "list_all (\<lambda>n. digit_value (hex_digit n) = n \<and> \<not> isspace (hex_digit n) \<and>
      hex_digit n \<notin> {CHR ''-'', CHR ''+'', CHR ''x'', CHR ''X''}) [0..<16]"
    by code_simp
  then show ?thesis using assms by (simp add: list_all_iff)
qed

lemma split_sign_Cons:
  "split_sign (c # r) = (if c = CHR ''-'' then (True, r) else if c = CHR ''+'' then (False, r) else (False, c # r))"
  by (cases c) (simp add: split_sign_def split: bool.split)

lemma takeWhile_before: "c \<notin> set s \<Longrightarrow> takeWhile (\<lambda>x. x \<noteq> c) (s @ c # t) = s"
  by (induction s) auto

lemma stream_hex_hex2: "stream_hex (hex2 w) = Some (unat w)"
proof -
  define h l where "h = unat w div 16" and "l = unat w mod 16"
  have "unat w < 256" by (rule unat_byte)
  then have h: "h < 16" and l: "l < 16" and w: "unat w = h * 16 + l" by (simp_all add: h_def l_def)
  note H = hex_digit_reads [OF h] and L = hex_digit_reads [OF l]
  have "split_sign [hex_digit h, hex_digit l] = (False, [hex_digit h, hex_digit l])"
    using H by (simp add: split_sign_Cons)
  moreover have "take 2 [hex_digit h, hex_digit l] \<noteq> ''0x''" "take 2 [hex_digit h, hex_digit l] \<noteq> ''0X''"
    using L by auto
  ultimately show ?thesis
    using H L h l by (simp add: stream_hex_def hex2_def w flip: h_def l_def)
qed

lemma star_of_sentence: "plain_fields fs \<Longrightarrow> star_of (nmea_sentence fs) = length (join_fields fs) + 1"
  using join_fields_star [of fs] by (simp add: star_of_def nmea_sentence_def takeWhile_before)

lemma body_of_sentence: "plain_fields fs \<Longrightarrow> body_of (nmea_sentence fs) = join_fields fs"
  by (simp add: body_of_def star_of_sentence) (simp add: nmea_sentence_def)

lemma sentence_valid:
  assumes "plain_fields fs"
  shows "validChecksum (nmea_sentence fs)"
proof -
  have "take 2 (drop (star_of (nmea_sentence fs) + 1) (nmea_sentence fs)) = hex2 (checksum (join_fields fs))"
    by (simp add: star_of_sentence assms) (simp add: nmea_sentence_def hex2_def)
  then show ?thesis
    using assms
    by (simp add: validChecksum_def body_of_sentence stream_hex_hex2 star_of_sentence)
       (simp add: nmea_sentence_def hex2_def)
qed

lemma sentence_fields:
  assumes "plain_fields fs"
  shows "fields_loop (nmea_sentence fs) (star_of (nmea_sentence fs)) 1 = fs"
proof -
  have "star_of (nmea_sentence fs) \<le> length (nmea_sentence fs)"
    by (simp add: star_of_def length_takeWhile_le)
  then have "fields_loop (nmea_sentence fs) (star_of (nmea_sentence fs)) 1 = comma_fields (body_of (nmea_sentence fs))"
    by (subst fields_loop_spec) (simp_all add: body_of_def star_of_sentence assms)
  then show ?thesis by (simp add: body_of_sentence comma_fields_join assms)
qed

text \<open>
  A position sentence printed from its fields is understood field by field, empty ones included: the
  receiver accepts it, stores the latitude, longitude and altitude of the fields and the time, keeps speed
  and course, and is ready with a fix and without an active failure.
\<close>

theorem nmea_position_update:
  assumes "plain_fields fs" and "10 \<le> length fs" and "fs ! 0 = ''GPGGA'' \<or> fs ! 0 = ''GNGGA''"
    and "fs ! 6 \<noteq> []" and "fs ! 6 \<noteq> ''0''"
    and "coordinate F (fs ! 2) (fs ! 3) = Inr lat" and "coordinate F (fs ! 4) (fs ! 5) = Inr lon"
    and "number_or_zero F (fs ! 9) = Inr alt"
  shows "case ingestSentence F what clock (nmea_sentence fs) s of
    (s', recognized) \<Rightarrow> recognized \<and> gn_hasFix s' \<and> dc_state s' = Dready \<and> \<not> f_active (dc_failure s') \<and>
      dd_consecutiveFailures (dc_diagnostics s') = 0 \<and> dc_sequence s' = dc_sequence s + 1 \<and>
      gn_position s' = (gn_position s)\<lparr>gp_latitude := lat, gp_longitude := lon, gp_altitude := alt,
        gp_timestampMicroseconds := tm_wall (clock (dc_readings s))\<rparr>"
proof -
  have kind: "fs \<noteq> []" "\<not> (fs ! 0 = ''GPRMC'' \<or> fs ! 0 = ''GNRMC'')" using assms(2,3) by auto
  have fix_ok: "fix_data F fs (gn_position s) =
      (True, Inr ((gn_position s)\<lparr>gp_latitude := lat, gp_longitude := lon, gp_altitude := alt\<rparr>))"
    using assms(4-8) by (simp add: fix_data_def)
  have "ingestSentence F what clock (nmea_sentence fs) s =
      (gnss_update F clock True ((gn_position s)\<lparr>gp_latitude := lat, gp_longitude := lon, gp_altitude := alt\<rparr>) s, True)"
    using assms(2,3) kind sentence_valid [OF assms(1)]
    unfolding ingestSentence_def sentence_fields [OF assms(1)] by (simp add: fix_ok)
  then show ?thesis
    by (simp add: gnss_update_def Let_def core_success_def core_notify_def resolve_failure_def)
qed

text \<open>The stream stops at the first character that is no digit: one hexadecimal digit is enough.\<close>

lemma nmea_checksum_lenient: "stream_hex ''5G'' = Some 5"
  by (simp add: stream_hex_def split_sign_Cons isspace_def digit_value_def)

section \<open>A receiver\<close>

definition sample_floats :: "rat floats" where
  "sample_floats =
     \<lparr>fl_lit = (\<lambda>t. if t = ''100.0'' then 100 else if t = ''60.0'' then 60 else 0),
      fl_stod = (\<lambda>t. if t = ''4830'' then Inr 4830 else if t = ''1115'' then Inr 1115 else Inl (InvalidArgument ''stod'')),
      fl_signed = (\<lambda>w. of_int (sint w)), fl_unsigned = (\<lambda>w. of_int (uint w)), fl_add = (+), fl_sub = (-), fl_mul = (*),
      fl_div = (/), fl_neg = uminus, fl_floor = (\<lambda>x. of_int \<lfloor>x\<rfloor>), fl_show = (\<lambda>_. ''0''), fl_fixed = (\<lambda>_ _. ''0'')\<rparr>"

definition sample_fields :: "string list" where
  "sample_fields = [''GPGGA'', [], ''4830'', ''N'', ''1115'', ''W'', ''1'', [], [], []]"

lemma sample_fields_plain: "plain_fields sample_fields"
  by (simp add: plain_fields_def sample_fields_def)

definition sample_clock :: "nat \<Rightarrow> moment" where
  "sample_clock n = \<lparr>tm_wall = int n + 1000, tm_steady = int n + 1\<rparr>"

definition sample_policy :: RecoveryPolicy where
  "sample_policy = \<lparr>rp_enabled = True, rp_reconnectDelay = 250, rp_readTimeout = 250, rp_staleAfter = 5000\<rparr>"

definition sample_receiver :: "(unit, rat) gnss_device" where
  "sample_receiver = fst (ingestSentence sample_floats (\<lambda>_. ''error'') sample_clock (nmea_sentence sample_fields)
     (gnss_device_new sample_floats () sample_policy))"

theorem nmea_position_update_witness:
  "gp_latitude (gn_position sample_receiver) = 48 + 1 / 2 \<and> gp_longitude (gn_position sample_receiver) = - (11 + 1 / 4) \<and>
   dc_state sample_receiver = Dready"
proof -
  have "\<lfloor>483 / 10 :: rat\<rfloor> = 48" "\<lfloor>223 / 20 :: rat\<rfloor> = 11" by (simp_all add: floor_eq_iff)
  then have "coordinate sample_floats ''4830'' ''N'' = Inr (48 + 1 / 2)"
    "coordinate sample_floats ''1115'' ''W'' = Inr (- (11 + 1 / 4))"
    "number_or_zero sample_floats [] = Inr 0"
    by (simp_all add: coordinate_def number_or_zero_def sample_floats_def Let_def)
  then show ?thesis
    using nmea_position_update [OF sample_fields_plain, where F = sample_floats and lat = "48 + 1 / 2"
      and lon = "- (11 + 1 / 4)" and alt = 0 and what = "\<lambda>_. ''error''" and clock = sample_clock
      and s = "gnss_device_new sample_floats () sample_policy"]
    unfolding sample_receiver_def by (simp add: sample_fields_def case_prod_beta)
qed

theorem nmea_checksum_detects_witness:
  "validChecksum (nmea_sentence sample_fields) \<and> \<not> validChecksum ((nmea_sentence sample_fields)[1 := CHR ''X''])"
proof -
  have "1 < star_of (nmea_sentence sample_fields)"
    by (simp add: star_of_sentence sample_fields_plain) (simp add: sample_fields_def)
  moreover have "CHR ''X'' \<noteq> nmea_sentence sample_fields ! 1"
    by (simp add: nmea_sentence_def sample_fields_def)
  ultimately show ?thesis
    using nmea_checksum_detects [OF sentence_valid [OF sample_fields_plain], of 1 "CHR ''X''"] sentence_valid [OF sample_fields_plain]
    by simp
qed

end
