(* ===== verification/Device_Facts.thy ===== *)
theory Device_Facts
  imports Serial_Device Gnss_Facts
begin

text \<open>
  What the devices with a receive thread guarantee whatever their channel does: their state agrees with
  the channel, their data is not stale, and they recover.
\<close>

section \<open>States\<close>

lemma core_inv_new:
  assumes "\<not> tr_isOpen T w"
  shows "core_inv T (can_sensor_new F w copts)" "core_inv T (xbee_sensor_new F w xopts)"
    "core_inv T (gnss_device_new F w policy)" "core_inv T (serial_device_new w policy)"
  using assms
  by (simp_all add: core_inv_def can_sensor_new_def xbee_sensor_new_def gnss_device_new_def serial_device_new_def
      core_new_def device_core.defs)

lemma gnss_inv_new [simp]: "gnss_inv (gnss_device_new F w policy)"
  by (simp add: gnss_inv_def gnss_device_new_def core_new_def device_core.defs)

lemma gnss_inv_notify [simp]: "gnss_inv (core_notify v p s) = gnss_inv s"
  by (simp add: gnss_inv_def)

lemma gnss_inv_channel [simp]:
  "gnss_inv (s\<lparr>dc_channel := w\<rparr>) = gnss_inv s" "gnss_inv (s\<lparr>dc_thread := b\<rparr>) = gnss_inv s"
  "gnss_inv (s\<lparr>dc_diagnostics := d\<rparr>) = gnss_inv s" "gnss_inv (s\<lparr>dc_running := b\<rparr>) = gnss_inv s"
  by (simp_all add: gnss_inv_def)

lemma gnss_inv_hooks [simp]:
  "gnss_inv (dh_connected (gnss_hooks F what clock) s)" "gnss_inv (dh_failed (gnss_hooks F what clock) m s)"
  by (simp_all add: gnss_inv_def gnss_hooks_def gnss_connected_def)

lemma gnss_inv_pass:
  assumes "gnss_inv s"
  shows "gnss_inv (core_pass T what (gnss_hooks F what clock) s)"
proof -
  have "gnss_inv t" if "dh_handle (gnss_hooks F what clock) x (s\<lparr>dc_channel := w\<rparr>) = (t, r)" for x w t r
    using gnss_handle_keeps [of "s\<lparr>dc_channel := w\<rparr>" F what clock x] assms that
    by (simp add: gnss_keeps_def gnss_hooks_def)
  then show ?thesis
    using assms by (auto simp: core_pass_def core_reconnect_def core_disconnect_def Let_def
        split: prod.split sum.split)
qed

lemma gnss_inv_start:
  assumes "gnss_inv s"
  shows "gnss_inv (fst (core_start T (gnss_hooks F what clock) thread s))"
proof -
  have "gnss_inv ((dh_connected (gnss_hooks F what clock) s')\<lparr>dc_running := b, dc_channel := w, dc_state := Doffline\<rparr>)" for s' b w
    by (simp add: gnss_inv_def gnss_hooks_def gnss_connected_def)
  then show ?thesis using assms by (auto simp: core_start_def Let_def split: prod.split sum.split)
qed

lemma gnss_inv_stop: "gnss_inv s \<Longrightarrow> gnss_inv (core_stop T (gnss_hooks F what clock) s)"
  by (simp add: core_stop_def Let_def) (simp add: gnss_inv_def gnss_hooks_def)

lemma gnss_inv_acts: "gnss_inv s \<Longrightarrow> gnss_inv (fold (core_act T what (gnss_hooks F what clock)) as s)"
proof (induction as arbitrary: s)
  case (Cons a as)
  then show ?case by (cases a) (simp_all add: gnss_inv_start gnss_inv_stop gnss_inv_pass)
qed simp

context can_transport
begin

lemma can_acts_inv: "core_inv T s \<Longrightarrow> core_inv T (fold (core_act T what (can_hooks name F clock)) as s)"
  by (rule can.core_acts_inv)

end

context xbee_transport
begin

lemma xbee_acts_inv: "core_inv T s \<Longrightarrow> core_inv T (fold (core_act T what (xbee_hooks F clock)) as s)"
  by (rule xbee.core_acts_inv)

end

context gnss_transport
begin

lemma gnss_acts_inv: "core_inv T s \<Longrightarrow> core_inv T (fold (core_act T what (gnss_hooks F what' clock)) as s)"
  by (rule gnss.core_acts_inv)

end

context serial_transport
begin

lemma serial_acts_inv: "core_inv T s \<Longrightarrow> core_inv T (fold (serial_act T wr what clock) as s)"
proof (induction as arbitrary: s)
  case (Cons a as)
  have "core_inv T (serial_act T wr what clock a s)"
    using Cons.prems by (cases "(T, wr, what, clock, a, s)" rule: serial_act.cases)
      (simp_all add: serial_start_def serial_run_def serial_stop_def serial_write_inv serial.core_start_inv
        serial.core_stop_inv serial.core_pass_inv)
  then show ?case using Cons.IH by simp
qed simp

end


section \<open>Fresh data\<close>

text \<open>At the last reading of the clock the data was younger than the limit.\<close>

definition core_fresh :: "(nat \<Rightarrow> moment) \<Rightarrow> int \<Rightarrow> ('w, 'v, 'z) device_core_scheme \<Rightarrow> bool" where
  "core_fresh clock seen s \<longleftrightarrow> seen = 0 \<or>
     tm_steady (clock (dc_readings s - 1)) - seen < int (rp_staleAfter (dc_policy s)) * 1000000"

lemma stale_check_fresh:
  assumes "\<not> core_stale clock seen s" and "dc_state s = Dready"
  shows "core_fresh clock seen (s\<lparr>dc_readings := dc_readings s + 1\<rparr>)"
  using assms by (auto simp: core_stale_def core_fresh_def)

lemma can_checkStale_fresh:
  assumes "dc_state (can_checkStale clock s) = Dready"
  shows "core_fresh clock (cs_lastFrame (can_checkStale clock s)) (can_checkStale clock s)"
proof -
  have "\<not> core_stale clock (cs_lastFrame s) s" using assms by (auto simp: can_checkStale_def core_failure_def)
  then show ?thesis using assms stale_check_fresh [of clock "cs_lastFrame s" s] by (simp add: can_checkStale_def)
qed

lemma xbee_checkStale_fresh:
  assumes "dc_state (xbee_checkStale F clock s) = Dready"
  shows "core_fresh clock (xs_lastSample (xbee_checkStale F clock s)) (xbee_checkStale F clock s)"
proof -
  have "\<not> core_stale clock (xs_lastSample s) s"
    using assms by (auto simp: xbee_checkStale_def xbee_markFailure_def core_failure_def Let_def)
  then show ?thesis using assms stale_check_fresh [of clock "xs_lastSample s" s] by (simp add: xbee_checkStale_def)
qed

lemma gnss_checkStale_fresh:
  assumes "dc_state (gnss_checkStale F clock s) = Dready"
  shows "core_fresh clock (gn_lastFix (gnss_checkStale F clock s)) (gnss_checkStale F clock s)"
proof -
  have "\<not> core_stale clock (gn_lastFix s) s" using assms by (auto simp: gnss_checkStale_def Let_def)
  then show ?thesis using assms stale_check_fresh [of clock "gn_lastFix s" s] by (simp add: gnss_checkStale_def)
qed

text \<open>A pass that leaves a device ready was on an open channel and handled what it received.\<close>

context monitored_device
begin

lemma core_pass_ready:
  assumes "core_inv T s" and "dc_state (core_pass T what H s) = Dready" and "\<And>t. dc_state (dh_connected H t) \<noteq> Dready"
  shows "\<exists>w x. dh_handle H x (s\<lparr>dc_channel := w\<rparr>) = (core_pass T what H s, Inr ())"
proof (cases "dc_running s \<and> dc_thread s \<and> tr_isOpen T (dc_channel s)")
  case True
  obtain w r where recv: "tr_receive T (dc_channel s) = (w, r)" by fastforce
  have disconnected: "dc_state (core_disconnect T H m t) \<noteq> Dready" for m t
    by (simp add: core_disconnect_def Let_def failed)
  then obtain x where r: "r = Inr x" using assms(2) True recv by (cases r) (simp_all add: core_pass_def)
  obtain t q where h: "dh_handle H x (s\<lparr>dc_channel := w\<rparr>) = (t, q)" by fastforce
  then have "q = Inr ()" using assms(2) True recv r disconnected by (cases q) (simp_all add: core_pass_def)
  then show ?thesis using True recv r h by (auto simp: core_pass_def)
next
  case False
  have "dc_state (core_reconnect T what H s) \<noteq> Dready"
    by (simp add: core_reconnect_def Let_def failed assms(3) split: prod.split sum.split)
  moreover have "dc_state s \<noteq> Dready" using False assms(1) unfolding core_inv_def by blast
  moreover have "dc_state (core_pass T what H s) \<in> {dc_state s, dc_state (core_reconnect T what H s)}"
    using False by (simp add: core_pass_def)
  ultimately show ?thesis using assms(2) by auto
qed

end

lemma can_handle_fresh:
  assumes "can_handle F clock x s = (s', Inr ())" and "dc_state s' = Dready"
  shows "core_fresh clock (cs_lastFrame s') s'"
proof -
  obtain t where "s' = can_checkStale clock t"
    using assms(1) by (auto simp: can_handle_def split: option.splits prod.splits sum.splits if_splits)
  then show ?thesis using assms(2) can_checkStale_fresh by blast
qed

lemma xbee_handle_fresh:
  assumes "xbee_handle F clock x s = (s', Inr ())" and "dc_state s' = Dready"
  shows "core_fresh clock (xs_lastSample s') s'"
proof -
  obtain t where "s' = xbee_checkStale F clock t"
    using assms(1) by (auto simp: xbee_handle_def split: option.splits prod.splits sum.splits if_splits)
  then show ?thesis using assms(2) xbee_checkStale_fresh by blast
qed

lemma gnss_handle_fresh:
  assumes "gnss_handle F what clock x s = (s', Inr ())" and "dc_state s' = Dready"
  shows "core_fresh clock (gn_lastFix s') s'"
proof -
  obtain t where "s' = gnss_checkStale F clock t"
    using assms(1) by (auto simp: gnss_handle_def split: prod.splits if_splits)
  then show ?thesis using assms(2) gnss_checkStale_fresh by blast
qed

context can_transport
begin

lemma can_pass_fresh:
  assumes "core_inv T s" and "dc_state (core_pass T what (can_hooks name F clock) s) = Dready"
  shows "core_fresh clock (cs_lastFrame (core_pass T what (can_hooks name F clock) s)) (core_pass T what (can_hooks name F clock) s)"
proof -
  have "dc_state (dh_connected (can_hooks name F clock) t) \<noteq> Dready" for t
    by (simp add: can_hooks_def can_connected_def)
  from can.core_pass_ready [OF assms this] show ?thesis
    using assms(2) by (auto simp: can_hooks_def intro: can_handle_fresh)
qed

end

context xbee_transport
begin

lemma xbee_pass_fresh:
  assumes "core_inv T s" and "dc_state (core_pass T what (xbee_hooks F clock) s) = Dready"
  shows "core_fresh clock (xs_lastSample (core_pass T what (xbee_hooks F clock) s)) (core_pass T what (xbee_hooks F clock) s)"
proof -
  have "dc_state (dh_connected (xbee_hooks F clock) t) \<noteq> Dready" for t
    by (simp add: xbee_hooks_def xbee_connected_def)
  from xbee.core_pass_ready [OF assms this] show ?thesis
    using assms(2) by (auto simp: xbee_hooks_def intro: xbee_handle_fresh)
qed

end

context gnss_transport
begin

lemma gnss_pass_fresh:
  assumes "core_inv T s" and "dc_state (core_pass T what (gnss_hooks F what' clock) s) = Dready"
  shows "core_fresh clock (gn_lastFix (core_pass T what (gnss_hooks F what' clock) s)) (core_pass T what (gnss_hooks F what' clock) s)"
proof -
  have "dc_state (dh_connected (gnss_hooks F what' clock) t) \<noteq> Dready" for t
    by (simp add: gnss_hooks_def gnss_connected_def)
  from gnss.core_pass_ready [OF assms this] show ?thesis
    using assms(2) by (auto simp: gnss_hooks_def intro: gnss_handle_fresh)
qed

end


section \<open>Recovery\<close>

lemma can_handle_frame:
  assumes "\<not> cf_error f" "cf_id f = co_frameId (cs_options s)" "cf_extended f = co_extended (cs_options s)"
    and "decodeScaled F f (cs_options s) = Inr v"
    and "tm_steady (clock (dc_readings s + 1)) - tm_steady (clock (dc_readings s)) < int (rp_staleAfter (dc_policy s)) * 1000000"
  shows "case can_handle F clock (Some f) s of (s', r) \<Rightarrow> r = Inr () \<and> dc_state s' = Dready \<and> cs_value s' = v \<and>
    cs_lastPayload s' = fl_fixed F 3 v \<and> \<not> f_active (dc_failure s') \<and> dd_consecutiveFailures (dc_diagnostics s') = 0"
proof -
  define s1 where "s1 = core_notify (Some v) (fl_fixed F 3 v)
    ((core_success clock s)\<lparr>cs_value := v, cs_lastFrame := tm_steady (clock (dc_readings s)), cs_lastPayload := fl_fixed F 3 v\<rparr>)"
  have "can_ingest F clock f s = (s1, Inr True)"
    using assms(1-4) by (simp add: can_ingest_def s1_def)
  moreover have "\<not> core_stale clock (cs_lastFrame s1) s1"
    using assms(5) by (simp add: s1_def core_stale_def core_success_def core_notify_def)
  ultimately have "can_handle F clock (Some f) s = (s1\<lparr>dc_readings := dc_readings s1 + 1\<rparr>, Inr ())"
    using assms(1) by (simp add: can_handle_def can_checkStale_def)
  then show ?thesis by (simp add: s1_def core_success_def core_notify_def resolve_failure_def)
qed


section \<open>An XBee sensor receives a sample\<close>

lemma length_sample_bytes: "length address = 8 \<Longrightarrow> length (sample_bytes address network options dm am ds val) \<le> 33"
proof -
  assume "length address = 8"
  moreover have "length (filter (bit am) [0..<8]) \<le> 8" using length_filter_le [of "bit am" "[0..<8]"] by simp
  moreover have "length (analog_bytes am val chs) = 2 * length (filter (bit am) chs)" for chs
    by (induction chs) (simp_all add: analog_bytes_def)
  ultimately show ?thesis by (simp add: sample_bytes_def)
qed

lemma short_frame:
  assumes "length (xf_data f) \<le> 33"
  shows "wf_frame f" "length (encode e f) \<le> 1984"
proof -
  show "wf_frame f" using assms by (simp add: wf_frame_def MaxFrameLength_def)
  have "length (tl (raw_frame f)) \<le> 37" using assms by (simp add: length_raw_frame)
  then show "length (encode e f) \<le> 1984"
    using length_escaped [of "tl (raw_frame f)"] assms by (simp add: encode_def length_raw_frame)
qed

lemma hasAnalog_sample:
  assumes "ch < 8" and "bit am ch"
  shows "analog \<lparr>io_sourceAddress = a, io_networkAddress = n, io_receiveOptions = r, io_digitalChannelMask = dm,
      io_analogChannelMask = am, io_digitalSamples = ds, io_analogSamples = map (\<lambda>ch. if bit am ch then val ch else 0) [0..<8]\<rparr> ch =
    Inr (val ch)"
  using assms by (simp add: analog_def hasAnalog_bit del: upt_Suc upt_rec_numeral)

lemma xbee_handle_sample:
  assumes "IoSample_decode f = Inr sample" and "xf_type f = ft_zigbeeIoSample"
    and "io_sourceAddress sample = of_int (xo_sourceAddress (xs_options s))"
    and "analog sample (xo_analogChannel (xs_options s)) = Inr raw"
    and "tm_steady (clock (dc_readings s + 1)) - tm_steady (clock (dc_readings s)) < int (rp_staleAfter (dc_policy s)) * 1000000"
  shows "case xbee_handle F clock (Some f) s of (s', r) \<Rightarrow> r = Inr () \<and> dc_state s' = Dready \<and>
    xs_value s' = convert F raw s \<and> \<not> f_active (dc_failure s')"
proof -
  define v where "v = convert F raw s"
  define s1 where "s1 = core_notify (Some v) (fl_fixed F 3 v)
    ((core_success clock s)\<lparr>xs_value := v, xs_lastSample := tm_steady (clock (dc_readings s))\<rparr>)"
  have "hasAnalog sample (xo_analogChannel (xs_options s))"
    using assms(4) by (auto simp: analog_def split: if_splits)
  then have "xbee_ingest F clock sample s = (s1, Inr True)"
    using assms(3,4) by (simp add: xbee_ingest_def s1_def v_def Let_def)
  moreover have "\<not> core_stale clock (xs_lastSample s1) s1"
    using assms(5) by (simp add: s1_def core_stale_def core_success_def core_notify_def)
  ultimately have "xbee_handle F clock (Some f) s = (s1\<lparr>dc_readings := dc_readings s1 + 1\<rparr>, Inr ())"
    using assms(1,2) by (simp add: xbee_handle_def xbee_checkStale_def)
  then show ?thesis by (simp add: s1_def v_def core_success_def core_notify_def resolve_failure_def)
qed

lemma xbee_pass_sample:
  assumes "length address = 8"
    and "f = \<lparr>xf_type = ft_zigbeeIoSample, xf_data = sample_bytes address network options dm am ds val\<rparr>"
    and "concat cs = encode (xp_escapedApiMode p) f" and "serial_chunks cs"
    and "dc_channel s = \<lparr>xl_port = XBeePort_open p, xl_reads = map Inr cs, xl_open = True\<rparr>" and "dc_running s" and "dc_thread s"
    and "big_endian address = of_int (xo_sourceAddress (xs_options s))"
    and "xo_analogChannel (xs_options s) < 8" and "bit am (xo_analogChannel (xs_options s))"
    and "tm_steady (clock (dc_readings s + 1)) - tm_steady (clock (dc_readings s)) < int (rp_staleAfter (dc_policy s)) * 1000000"
  shows "let s' = xbee_run (xbee_port name) what F clock s in
    dc_state s' = Dready \<and> xs_value s' = convert F (val (xo_analogChannel (xs_options s))) s \<and> \<not> f_active (dc_failure s')"
proof -
  have "length (xf_data f) \<le> 33" using assms(1,2) length_sample_bytes by simp
  note short = short_frame [OF this]
  obtain w where recv: "tr_receive (xbee_port name) (dc_channel s) = (w, Inr (Some f))"
    using receive_frame [of f "xp_escapedApiMode p" "[]" cs "[]"] short assms(3,4)
    by (auto simp: assms(5) xbee_port_def xbee_line_receive_def XBeePort_receive_def XBeePort_open_def)
  define s0 where "s0 = s\<lparr>dc_channel := w\<rparr>"
  obtain s' r where h: "xbee_handle F clock (Some f) s0 = (s', r)" by fastforce
  note decode = IoSample_decode_layout [OF assms(1), where network = network and options = options and dm = dm
      and am = am and ds = ds and val = val, folded assms(2)]
  have s': "r = Inr ()" "dc_state s' = Dready" "xs_value s' = convert F (val (xo_analogChannel (xs_options s))) s"
    "\<not> f_active (dc_failure s')"
    using xbee_handle_sample [OF decode, of s0 "val (xo_analogChannel (xs_options s))" clock F] h assms(2,8-11)
    by (simp_all add: s0_def hasAnalog_sample convert_def del: upt_Suc upt_rec_numeral)
  have "xbee_run (xbee_port name) what F clock s = s'"
    using assms(5-7) recv h s'(1) by (simp add: xbee_run_def core_pass_def xbee_hooks_def s0_def xbee_port_def)
  then show ?thesis using s' by (simp add: Let_def)
qed

section \<open>Devices on loopback channels\<close>

definition int_floats :: "int floats" where
  "int_floats =
     \<lparr>fl_lit = (\<lambda>_. 0), fl_stod = (\<lambda>_. Inr 0), fl_signed = sint, fl_unsigned = uint, fl_add = (+), fl_sub = (-), fl_mul = (*),
      fl_div = (div), fl_neg = uminus, fl_floor = (\<lambda>x. x), fl_show = (\<lambda>_. ''0''), fl_fixed = (\<lambda>_ _. ''0'')\<rparr>"

definition sample_can_options :: "int CanOptions" where
  "sample_can_options =
     \<lparr>co_loopback = True, co_interfaceName = ''can0'', co_frameId = 0x10, co_extended = False, co_bitOffset = 0, co_bitLength = 8,
      co_bigEndian = False, co_signedValue = False, co_factor = 1, co_offset = 0, co_physicalQuantity = ''raw'',
      co_physicalUnit = ''count'', co_policy = sample_policy\<rparr>"

definition sample_xbee_options :: XBeeOptions where
  "sample_xbee_options =
     \<lparr>xo_loopback = True, xo_serialPort = ''x'', xo_baudRate = 9600, xo_escapedApiMode = True, xo_sourceAddress = 1,
      xo_analogChannel = 0, xo_physicalQuantity = ''raw'', xo_physicalUnit = ''count'', xo_conversion = Raw,
      xo_policy = sample_policy\<rparr>"

definition closed_loopback :: Loopback where
  "closed_loopback = \<lparr>lb_frames = [], lb_handler = None, lb_open = False\<rparr>"

definition closed_xbee_line :: xbee_line where
  "closed_xbee_line = \<lparr>xl_port = \<lparr>xp_escapedApiMode = True, xp_receiveBuffer = []\<rparr>, xl_reads = [], xl_open = False\<rparr>"

definition closed_line :: loopback_serial where
  "closed_line = \<lparr>ls_name = ''x'', ls_bytes = [], ls_open = False\<rparr>"

lemma sample_channels:
  "transport_laws (loopback_can ''x'')" "transport_laws (xbee_port ''x'')"
  "serial_transport (loopback_line ''x'' 1024) ls_write" "transport_laws (loopback_line ''x'' 1024)"
  "\<not> tr_isOpen (loopback_can ''x'') closed_loopback" "\<not> tr_isOpen (xbee_port ''x'') closed_xbee_line"
  "\<not> tr_isOpen (loopback_line ''x'' 1024) closed_line"
  by (rule loopback.transport_laws_axioms xbee_port.transport_laws_axioms loopback_line.serial_transport_axioms
      loopback_line.transport_laws_axioms)+
     (simp_all add: loopback_can_def closed_loopback_def xbee_port_def closed_xbee_line_def loopback_line_def closed_line_def)

definition sample_hooks :: "(CanFrame option, (Loopback, int) can_sensor) device_hooks" where
  "sample_hooks = can_hooks ''x'' int_floats sample_clock"

definition started_sensor :: "(Loopback, int) can_sensor" where
  "started_sensor = fst (core_start (loopback_can ''x'') sample_hooks (Inr ())
     (can_sensor_new int_floats closed_loopback sample_can_options))"

definition failed_sensor :: "(Loopback, int) can_sensor" where
  "failed_sensor = core_disconnect (loopback_can ''x'') sample_hooks ''down'' started_sensor"

definition sample_frame :: CanFrame where
  "sample_frame = CanFrame_default\<lparr>cf_id := 0x10, cf_length := 1, cf_data := 42 # replicate 63 0\<rparr>"

definition line_with_frame :: Loopback where
  "line_with_frame = fst (lb_send sample_frame (lb_open_op closed_loopback))"



definition sample_chunks :: "byte list list" where
  "sample_chunks = map (\<lambda>b. [b]) (encode True \<lparr>xf_type = ft_zigbeeIoSample,
     xf_data = sample_bytes [0, 0, 0, 0, 0, 0, 0, 1] 0x7D84 1 0 1 0 (\<lambda>ch. 700)\<rparr>)"

definition sample_line :: xbee_line where
  "sample_line = closed_xbee_line\<lparr>xl_reads := map Inr sample_chunks\<rparr>"

definition started_xbee :: "(xbee_line, int) xbee_sensor" where
  "started_xbee = fst (core_start (xbee_port ''x'') (xbee_hooks int_floats sample_clock) (Inr ())
     (xbee_sensor_new int_floats sample_line sample_xbee_options))"

lemma sample_chunks: "serial_chunks sample_chunks"
  "concat sample_chunks = encode True \<lparr>xf_type = ft_zigbeeIoSample,
     xf_data = sample_bytes [0, 0, 0, 0, 0, 0, 0, 1] 0x7D84 1 0 1 0 (\<lambda>ch. 700)\<rparr>"
proof -
  have "serial_chunks (map (\<lambda>b. [b]) bs)" "concat (map (\<lambda>b. [b]) bs) = bs" for bs :: "byte list"
    by (auto simp: serial_chunks_def)
  then show "serial_chunks sample_chunks" "concat sample_chunks = encode True \<lparr>xf_type = ft_zigbeeIoSample,
     xf_data = sample_bytes [0, 0, 0, 0, 0, 0, 0, 1] 0x7D84 1 0 1 0 (\<lambda>ch. 700)\<rparr>"
    unfolding sample_chunks_def by (simp_all only:)
qed

lemma started_xbee:
  "dc_channel started_xbee = \<lparr>xl_port = XBeePort_open \<lparr>xp_escapedApiMode = True, xp_receiveBuffer = []\<rparr>,
     xl_reads = map Inr sample_chunks, xl_open = True\<rparr>"
  "dc_running started_xbee" "dc_thread started_xbee" "xs_options started_xbee = sample_xbee_options"
  "dc_policy started_xbee = sample_policy"
  by (simp_all add: started_xbee_def core_start_def sample_line_def closed_xbee_line_def xbee_port_def xbee_hooks_def
      xbee_connected_def xbee_sensor_new_def device_core.defs core_new_def core_notify_def sample_xbee_options_def Let_def)

lemma sample_address: "big_endian [0, 0, 0, 0, 0, 0, 0, 1] = of_int (xo_sourceAddress (xs_options started_xbee))"
  by (simp add: started_xbee sample_xbee_options_def big_endian_def)

lemma started_xbee_channel: "xo_analogChannel (xs_options started_xbee) < 8" "bit (1 :: byte) (xo_analogChannel (xs_options started_xbee))"
  by (simp_all add: started_xbee sample_xbee_options_def)

lemma started_xbee_age:
  "tm_steady (sample_clock (dc_readings started_xbee + 1)) - tm_steady (sample_clock (dc_readings started_xbee)) <
     int (rp_staleAfter (dc_policy started_xbee)) * 1000000"
  by (simp add: started_xbee sample_clock_def sample_policy_def)


end
