(* ===== verification/Security.thy ===== *)
theory Security
  imports Std_Parse
begin

text \<open>
  The principals of the management interface (\<open>platform/security/src/PrincipalStore.cpp\<close>): the
  comparison of bearer tokens, the store built from the configuration, authentication and
  authorization, and the store that can be reloaded. The configuration, the environment variables and
  the token files are parameters, the record \<open>settings\<close>; the permission bits of a token file are part
  of what the file system tells about it. An unordered set of permissions is a set.
\<close>

unbundle bit_operations_syntax

section \<open>Comparing tokens\<close>

definition byte_at :: "string \<Rightarrow> nat \<Rightarrow> 8 word" where
  "byte_at s i = of_nat (if i < length s then of_char (s ! i) else 0)"

definition constantTimeEquals :: "string \<Rightarrow> string \<Rightarrow> bool" where
  "constantTimeEquals supplied expected =
     (let size = max (length supplied) (length expected);
          difference = ucast ((of_nat (length supplied) :: 64 word) XOR of_nat (length expected)) :: 8 word;
          difference = foldl (\<lambda>d i. d OR (byte_at supplied i XOR byte_at expected i)) difference [0..<size]
      in difference = 0 \<and> supplied \<noteq> [])"

section \<open>Permissions\<close>

type_synonym PermissionSet = "string set"

definition managementPermissions :: PermissionSet where
  "managementPermissions = {''protocol.manage'', ''process.manage'', ''bundle.manage'',
     ''configuration.manage'', ''identity.manage'', ''audit.read'', ''task.read'', ''task.cancel''}"

definition trim :: "string \<Rightarrow> string" where
  "trim s = rev (dropWhile isspace (rev (dropWhile isspace s)))"

fun permissions_loop :: "string list \<Rightarrow> PermissionSet \<Rightarrow> PermissionSet" where
  "permissions_loop [] ps = ps"
| "permissions_loop (item # items) ps =
     (let item = trim item in
      if item = ''*'' then managementPermissions
      else if item \<noteq> [] then permissions_loop items (insert item ps)
      else permissions_loop items ps)"

definition parsePermissions :: "string \<Rightarrow> PermissionSet" where
  "parsePermissions v = permissions_loop (comma_items [] v) {}"

section \<open>Tokens from the environment and from files\<close>

record token_file =
  tf_isFile :: bool
  tf_size :: nat
  tf_content :: "string option"
  tf_permissions :: "bool \<times> bool"

record settings =
  st_string :: "string \<Rightarrow> string"
  st_bool :: "string \<Rightarrow> bool \<Rightarrow> bool res"
  st_int :: "string \<Rightarrow> int \<Rightarrow> int res"
  st_environment :: "string \<Rightarrow> string option"
  st_path :: "string \<Rightarrow> string"
  st_file :: "string \<Rightarrow> token_file"

record TokenMaterial =
  tm_token :: string
  tm_fileBacked :: bool
  tm_permissionsVerified :: bool
  tm_restricted :: bool

definition is_newline :: "char \<Rightarrow> bool" where
  "is_newline c \<longleftrightarrow> c = CHR 0x0A \<or> c = CHR 0x0D"

definition chomp :: "string \<Rightarrow> string" where
  "chomp s = rev (dropWhile is_newline (rev s))"

definition tokenFromFile :: "settings \<Rightarrow> string \<Rightarrow> string \<Rightarrow> TokenMaterial res" where
  "tokenFromFile C configuredPath description =
     (let path = st_path C configuredPath; f = st_file C path in
      if \<not> tf_isFile f then Inl (NotFoundException (poco_message (description @ '' file is missing'') path))
      else if 16 * 1024 < tf_size f
        then Inl (OtherException (poco_message (description @ '' file exceeds 16 KiB'') path))
      else case tf_content f of
          None \<Rightarrow> Inl (OtherException (poco_message (description @ '' file'') path))
        | Some content \<Rightarrow>
            let token = chomp content in
            if list_ex is_newline token
              then Inl (InvalidArgument (description @ '' file contains embedded newline''))
            else if token = [] then Inl (InvalidArgument (poco_message (description @ '' file is empty'') path))
            else Inr \<lparr>tm_token = token, tm_fileBacked = True,
                      tm_permissionsVerified = fst (tf_permissions f),
                      tm_restricted = snd (tf_permissions f)\<rparr>)"

definition tokenFromSource :: "settings \<Rightarrow> string \<Rightarrow> string \<Rightarrow> string \<Rightarrow> TokenMaterial res" where
  "tokenFromSource C environmentKey fileKey description =
     (let environmentName = st_string C environmentKey; configuredPath = st_string C fileKey in
      if (environmentName = []) = (configuredPath = [])
        then Inl (InvalidArgument (description @ '' requires exactly one tokenEnvironment or tokenFile''))
      else if configuredPath \<noteq> [] then tokenFromFile C configuredPath description
      else case st_environment C environmentName of
          None \<Rightarrow> Inl (NotFoundException (poco_message (description @ '' environment is missing'') environmentName))
        | Some token \<Rightarrow>
            if token = [] then Inl (InvalidArgument (poco_message (description @ '' environment is empty'') environmentName))
            else Inr \<lparr>tm_token = token, tm_fileBacked = False,
                      tm_permissionsVerified = True, tm_restricted = True\<rparr>)"

section \<open>The store\<close>

record Principal =
  pr_id :: string
  pr_permissions :: PermissionSet

definition authorized :: "Principal \<Rightarrow> string \<Rightarrow> bool" where
  "authorized p permission \<longleftrightarrow> permission \<in> pr_permissions p"

record Entry =
  en_principal :: Principal
  en_token :: string

record PrincipalStore =
  ps_required :: bool
  ps_fileBackedCount :: nat
  ps_environmentBackedCount :: nat
  ps_insecureFileCount :: nat
  ps_filePermissionChecksComplete :: bool
  ps_entries :: "Entry list"

definition PrincipalStore_default :: PrincipalStore where
  "PrincipalStore_default = \<lparr>ps_required = False, ps_fileBackedCount = 0, ps_environmentBackedCount = 0,
     ps_insecureFileCount = 0, ps_filePermissionChecksComplete = True, ps_entries = []\<rparr>"

fun duplicate_check :: "Entry list \<Rightarrow> string \<Rightarrow> string \<Rightarrow> unit res" where
  "duplicate_check [] i t = Inr ()"
| "duplicate_check (e # es) i t =
     (if pr_id (en_principal e) = i
        then Inl (InvalidArgument (poco_message ''duplicate management principal ID'' i))
      else if constantTimeEquals (en_token e) t
        then Inl (InvalidArgument ''duplicate management bearer token'')
      else duplicate_check es i t)"

definition appendEntry :: "string \<Rightarrow> string \<Rightarrow> PermissionSet \<Rightarrow> PrincipalStore \<Rightarrow> PrincipalStore res" where
  "appendEntry i t permissions s =
     rbind (duplicate_check (ps_entries s) i t) (\<lambda>_. Inr (s\<lparr>ps_entries := ps_entries s @
       [\<lparr>en_principal = \<lparr>pr_id = i, pr_permissions = permissions\<rparr>, en_token = t\<rparr>]\<rparr>))"

definition recordSource :: "TokenMaterial \<Rightarrow> PrincipalStore \<Rightarrow> PrincipalStore" where
  "recordSource m s =
     (if \<not> tm_fileBacked m then s\<lparr>ps_environmentBackedCount := ps_environmentBackedCount s + 1\<rparr>
      else let s = s\<lparr>ps_fileBackedCount := ps_fileBackedCount s + 1,
                     ps_filePermissionChecksComplete :=
                       ps_filePermissionChecksComplete s \<and> tm_permissionsVerified m\<rparr>
           in if tm_permissionsVerified m \<and> \<not> tm_restricted m
              then s\<lparr>ps_insecureFileCount := ps_insecureFileCount s + 1\<rparr> else s)"

definition auth_key :: "string \<Rightarrow> string" where
  "auth_key k = ''pdr.management.authentication.'' @ k"

definition int_decimal :: "int \<Rightarrow> string" where
  "int_decimal k = (if k < 0 then CHR ''-'' # decimal (nat (- k)) else decimal (nat k))"

definition legacy_entry :: "settings \<Rightarrow> PrincipalStore \<Rightarrow> PrincipalStore res" where
  "legacy_entry C s =
     (if st_string C (auth_key ''tokenEnvironment'') \<noteq> [] \<or> st_string C (auth_key ''tokenFile'') \<noteq> []
      then rbind (tokenFromSource C (auth_key ''tokenEnvironment'') (auth_key ''tokenFile'') ''management token'')
             (\<lambda>m. appendEntry ''legacy-admin'' (tm_token m) managementPermissions (recordSource m s))
      else Inr s)"

definition principal_entry :: "settings \<Rightarrow> nat \<Rightarrow> PrincipalStore \<Rightarrow> PrincipalStore res" where
  "principal_entry C i s =
     (let prefix = auth_key (''principals.'' @ decimal i @ ''.'');
          pid = st_string C (prefix @ ''id'');
          permissions = parsePermissions (st_string C (prefix @ ''permissions''))
      in if pid = [] \<or> permissions = {}
           then Inl (InvalidArgument (poco_message ''management principal is incomplete'' prefix))
         else rbind (tokenFromSource C (prefix @ ''tokenEnvironment'') (prefix @ ''tokenFile'')
                       ''management principal token'') (\<lambda>m.
              appendEntry pid (tm_token m) permissions (recordSource m s)))"

fun principals_loop :: "settings \<Rightarrow> nat list \<Rightarrow> PrincipalStore \<Rightarrow> PrincipalStore res" where
  "principals_loop C [] s = Inr s"
| "principals_loop C (i # is) s = rbind (principal_entry C i s) (principals_loop C is)"

definition fromManagementConfiguration :: "settings \<Rightarrow> PrincipalStore res" where
  "fromManagementConfiguration C =
     rbind (st_bool C (auth_key ''required'') False) (\<lambda>required.
     rbind (legacy_entry C (PrincipalStore_default\<lparr>ps_required := required\<rparr>)) (\<lambda>s.
     rbind (st_int C (auth_key ''principals.count'') 0) (\<lambda>count.
       if count < 0 \<or> 64 < count then Inl (OtherException (poco_message ''management principal count'' (int_decimal count)))
       else rbind (principals_loop C [0..<nat count] s) (\<lambda>s'.
         if ps_required s' \<and> ps_entries s' = []
           then Inl (InvalidArgument ''management authentication requires at least one principal'')
         else Inr s'))))"

definition authenticateBearerToken :: "PrincipalStore \<Rightarrow> string \<Rightarrow> Principal option" where
  "authenticateBearerToken s token =
     foldl (\<lambda>matched e. if constantTimeEquals token (en_token e) then Some (en_principal e) else matched)
       None (ps_entries s)"

definition principalById :: "PrincipalStore \<Rightarrow> string \<Rightarrow> Principal option" where
  "principalById s i = map_option en_principal (find (\<lambda>e. pr_id (en_principal e) = i) (ps_entries s))"

definition authenticateAuthorizationHeader :: "PrincipalStore \<Rightarrow> string \<Rightarrow> Principal option" where
  "authenticateAuthorizationHeader s header =
     (if take 7 header \<noteq> ''Bearer '' then None else authenticateBearerToken s (drop 7 header))"

section \<open>The reloadable store\<close>

record ReloadableStore =
  rl_store :: PrincipalStore
  rl_generation :: "64 word"

definition ReloadableStore_default :: ReloadableStore where
  "ReloadableStore_default = \<lparr>rl_store = PrincipalStore_default, rl_generation = 0\<rparr>"

record PrincipalStoreSnapshot =
  sn_generation :: "64 word"
  sn_required :: bool
  sn_principalCount :: nat
  sn_fileBackedPrincipalCount :: nat
  sn_environmentBackedPrincipalCount :: nat
  sn_insecureFileCount :: nat
  sn_filePermissionChecksComplete :: bool

definition rl_snapshot :: "ReloadableStore \<Rightarrow> PrincipalStoreSnapshot" where
  "rl_snapshot r =
     \<lparr>sn_generation = rl_generation r, sn_required = ps_required (rl_store r),
      sn_principalCount = length (ps_entries (rl_store r)),
      sn_fileBackedPrincipalCount = ps_fileBackedCount (rl_store r),
      sn_environmentBackedPrincipalCount = ps_environmentBackedCount (rl_store r),
      sn_insecureFileCount = ps_insecureFileCount (rl_store r),
      sn_filePermissionChecksComplete = ps_filePermissionChecksComplete (rl_store r)\<rparr>"

definition reload :: "settings \<Rightarrow> ReloadableStore \<Rightarrow> ReloadableStore \<times> PrincipalStoreSnapshot res" where
  "reload C r = (case fromManagementConfiguration C of
      Inl e \<Rightarrow> (r, Inl e)
    | Inr s \<Rightarrow> let r' = r\<lparr>rl_store := s, rl_generation := rl_generation r + 1\<rparr> in (r', Inr (rl_snapshot r')))"

definition rl_authenticateBearerToken :: "ReloadableStore \<Rightarrow> string \<Rightarrow> Principal option" where
  "rl_authenticateBearerToken r token = authenticateBearerToken (rl_store r) token"

definition rl_authenticateHeader :: "ReloadableStore \<Rightarrow> string \<Rightarrow> Principal option" where
  "rl_authenticateHeader r header = authenticateAuthorizationHeader (rl_store r) header"

definition rl_principalById :: "ReloadableStore \<Rightarrow> string \<Rightarrow> Principal option" where
  "rl_principalById r i = principalById (rl_store r) i"

section \<open>What the comparison decides\<close>

lemma foldl_or_zero: "foldl (\<lambda>d i. d OR f i) d xs = (0 :: 8 word) \<longleftrightarrow> d = 0 \<and> (\<forall>i \<in> set xs. f i = 0)"
proof (induction xs arbitrary: d)
  case Nil
  then show ?case by simp
next
  case (Cons x xs)
  have "d OR f x = 0 \<longleftrightarrow> d = 0 \<and> f x = 0" by (auto simp: or_eq_0_iff)
  with Cons show ?case by auto
qed

lemma xor_zero: "(a :: 'a::len word) XOR b = 0 \<longleftrightarrow> a = b"
  by (auto simp: bit_eq_iff bit_simps)

lemma low_length:
  "(ucast ((of_nat m :: 64 word) XOR of_nat n) :: 8 word) = 0 \<longleftrightarrow> m mod 256 = n mod 256"
proof -
  have "(ucast ((of_nat m :: 64 word) XOR of_nat n) :: 8 word) = of_nat m XOR of_nat n"
    by (rule bit_word_eqI) (auto simp: bit_simps)
  then show ?thesis by (simp add: xor_zero word_of_nat_eq_iff take_bit_eq_mod)
qed

lemma byte_at_eq:
  "byte_at s i = byte_at t i \<longleftrightarrow>
     (if i < length s then of_char (s ! i) else 0) = (if i < length t then of_char (t ! i) else (0 :: nat))"
proof -
  have "(of_nat a :: 8 word) = of_nat b \<longleftrightarrow> a = b" if "a < 256" "b < 256" for a b
    using that by (simp add: word_of_nat_eq_iff take_bit_nat_eq_self)
  then show ?thesis by (simp add: byte_at_def)
qed

lemma constantTimeEquals_iff:
  "constantTimeEquals s t \<longleftrightarrow> s \<noteq> [] \<and> length s mod 256 = length t mod 256 \<and>
     (\<forall>i < max (length s) (length t). byte_at s i = byte_at t i)"
  unfolding constantTimeEquals_def Let_def foldl_or_zero low_length xor_zero by auto

text \<open>
  The comparison of tokens accepts exactly when the supplied token is not empty, the lengths agree
  modulo 256 and every byte agrees, bytes past the end of a token counting as zero. For tokens without
  zero bytes this is equality, but a token followed by 256 zero bytes is taken for the token.
\<close>

theorem constant_time_equals_exact:
  "(constantTimeEquals s t \<longleftrightarrow> s \<noteq> [] \<and> length s mod 256 = length t mod 256 \<and>
     (\<forall>i < max (length s) (length t). byte_at s i = byte_at t i)) \<and>
   (t \<noteq> [] \<longrightarrow> constantTimeEquals (t @ replicate 256 (CHR 0x00)) t)"
proof
  show "t \<noteq> [] \<longrightarrow> constantTimeEquals (t @ replicate 256 (CHR 0x00)) t"
    by (auto simp: constantTimeEquals_iff byte_at_eq nth_append)
qed (rule constantTimeEquals_iff)

theorem constant_time_equals_exact_witness:
  "constantTimeEquals (''secret'' @ replicate 256 (CHR 0x00)) ''secret'' \<and> \<not> constantTimeEquals ''secreT'' ''secret''"
proof
  show "constantTimeEquals (''secret'' @ replicate 256 (CHR 0x00)) ''secret''"
    using constant_time_equals_exact [of "''secret''" "''secret''"] by blast
  show "\<not> constantTimeEquals ''secreT'' ''secret''" by code_simp
qed

definition nul_free :: "string \<Rightarrow> bool" where
  "nul_free s \<longleftrightarrow> CHR 0x00 \<notin> set s"

lemma nul_free_byte: "nul_free s \<Longrightarrow> i < length s \<Longrightarrow> (of_char (s ! i) :: nat) \<noteq> 0"
proof
  assume "nul_free s" "i < length s" and z: "(of_char (s ! i) :: nat) = 0"
  have "(of_char (CHR 0x00) :: nat) = 0" by simp
  with z have "s ! i = CHR 0x00" by (metis of_char_eq_iff)
  with \<open>nul_free s\<close> \<open>i < length s\<close> show False by (metis nth_mem nul_free_def)
qed

lemma constantTimeEquals_nul_free:
  assumes "nul_free s" "nul_free t"
  shows "constantTimeEquals s t \<longleftrightarrow> s \<noteq> [] \<and> s = t"
proof
  assume "constantTimeEquals s t"
  then have ne: "s \<noteq> []" and eq: "\<And>i. i < max (length s) (length t) \<Longrightarrow>
      (if i < length s then of_char (s ! i) else 0) = (if i < length t then of_char (t ! i) else (0 :: nat))"
    unfolding constantTimeEquals_iff byte_at_eq by auto
  have "\<not> length s < length t" using eq [of "length s"] nul_free_byte [OF assms(2), of "length s"] by auto
  moreover have "\<not> length t < length s" using eq [of "length t"] nul_free_byte [OF assms(1), of "length t"] by auto
  ultimately have len: "length s = length t" by simp
  have "s ! i = t ! i" if "i < length s" for i
    using eq [of i] that len by (simp add: of_char_eq_iff)
  then show "s \<noteq> [] \<and> s = t" using ne len by (simp add: nth_equalityI)
next
  assume "s \<noteq> [] \<and> s = t"
  then show "constantTimeEquals s t" by (auto simp: constantTimeEquals_iff)
qed

section \<open>The store that is loaded\<close>

text \<open>
  Ids are distinct, no two tokens are taken for the same, and no token, no id and no permission set is empty.
\<close>

definition wf_store :: "PrincipalStore \<Rightarrow> bool" where
  "wf_store s \<longleftrightarrow> distinct (map (pr_id \<circ> en_principal) (ps_entries s)) \<and>
     sorted_wrt (\<lambda>e e'. \<not> constantTimeEquals (en_token e) (en_token e')) (ps_entries s) \<and>
     (\<forall>e \<in> set (ps_entries s). en_token e \<noteq> [] \<and> pr_id (en_principal e) \<noteq> [] \<and>
        pr_permissions (en_principal e) \<noteq> {})"

lemma duplicate_check_ok:
  "duplicate_check es i t = Inr u \<Longrightarrow> e \<in> set es \<Longrightarrow>
     pr_id (en_principal e) \<noteq> i \<and> \<not> constantTimeEquals (en_token e) t"
  by (induction es) (auto split: if_splits)

lemma appendEntry_wf:
  assumes "wf_store s" "appendEntry i t ps s = Inr s'" "i \<noteq> []" "t \<noteq> []" "ps \<noteq> {}"
  shows "wf_store s' \<and> ps_required s' = ps_required s"
proof -
  have check: "duplicate_check (ps_entries s) i t = Inr ()"
    and s': "s' = s\<lparr>ps_entries := ps_entries s @
       [\<lparr>en_principal = \<lparr>pr_id = i, pr_permissions = ps\<rparr>, en_token = t\<rparr>]\<rparr>"
    using assms(2) by (auto simp: appendEntry_def rbind_eq_Inr)
  show ?thesis
    using assms(1,3-5) duplicate_check_ok [OF check] by (auto simp: s' wf_store_def sorted_wrt_append)
qed

lemma recordSource_wf [simp]: "wf_store (recordSource m s) = wf_store s" "ps_required (recordSource m s) = ps_required s"
  by (simp_all add: recordSource_def wf_store_def Let_def)

lemma token_nonempty: "tokenFromSource C a b d = Inr m \<Longrightarrow> tm_token m \<noteq> []"
  by (auto simp: tokenFromSource_def tokenFromFile_def Let_def split: if_splits option.splits)

lemma legacy_entry_wf:
  assumes "legacy_entry C s = Inr s'" "wf_store s"
  shows "wf_store s'"
proof (cases "st_string C (auth_key ''tokenEnvironment'') \<noteq> [] \<or> st_string C (auth_key ''tokenFile'') \<noteq> []")
  case True
  then obtain m where t: "tokenFromSource C (auth_key ''tokenEnvironment'') (auth_key ''tokenFile'') ''management token'' = Inr m"
    and m: "appendEntry ''legacy-admin'' (tm_token m) managementPermissions (recordSource m s) = Inr s'"
    using assms(1) unfolding legacy_entry_def by (auto simp: rbind_eq_Inr)
  then show ?thesis
    using appendEntry_wf [OF _ m] token_nonempty [OF t] assms(2) by (simp add: managementPermissions_def)
next
  case False
  then show ?thesis using assms by (simp add: legacy_entry_def)
qed

lemma principal_entry_wf:
  assumes "principal_entry C i s = Inr s'" "wf_store s"
  shows "wf_store s'"
proof -
  define prefix where "prefix = auth_key (''principals.'' @ decimal i @ ''.'')"
  define pid where "pid = st_string C (prefix @ ''id'')"
  define ps where "ps = parsePermissions (st_string C (prefix @ ''permissions''))"
  have ne: "\<not> (pid = [] \<or> ps = {})" and "\<exists>m. tokenFromSource C (prefix @ ''tokenEnvironment'')
      (prefix @ ''tokenFile'') ''management principal token'' = Inr m \<and>
    appendEntry pid (tm_token m) ps (recordSource m s) = Inr s'"
    using assms(1)
    unfolding principal_entry_def Let_def prefix_def [symmetric] pid_def [symmetric] ps_def [symmetric]
    by (simp_all add: rbind_eq_Inr split: if_splits)
  then obtain m where t: "tokenFromSource C (prefix @ ''tokenEnvironment'')
      (prefix @ ''tokenFile'') ''management principal token'' = Inr m"
    and m: "appendEntry pid (tm_token m) ps (recordSource m s) = Inr s'" by blast
  then show ?thesis using appendEntry_wf [OF _ m] token_nonempty [OF t] ne assms(2) by simp
qed

lemma principals_loop_wf: "wf_store s \<Longrightarrow> principals_loop C is s = Inr s' \<Longrightarrow> wf_store s'"
  by (induction "is" arbitrary: s) (auto simp: rbind_eq_Inr dest: principal_entry_wf)

lemma loaded_store_wf:
  assumes "fromManagementConfiguration C = Inr s"
  shows "wf_store s \<and> (ps_required s \<longrightarrow> ps_entries s \<noteq> [])"
proof -
  obtain r s0 n where s0: "legacy_entry C (PrincipalStore_default\<lparr>ps_required := r\<rparr>) = Inr s0"
    and loop: "principals_loop C [0..<nat n] s0 = Inr s" and req: "\<not> (ps_required s \<and> ps_entries s = [])"
    using assms unfolding fromManagementConfiguration_def by (auto simp: rbind_eq_Inr split: if_splits)
  have "wf_store (PrincipalStore_default\<lparr>ps_required := r\<rparr>)" by (simp add: wf_store_def PrincipalStore_default_def)
  then have "wf_store s0" by (rule legacy_entry_wf [OF s0])
  then show ?thesis using principals_loop_wf [OF _ loop] req by blast
qed

section \<open>Authentication\<close>

lemma foldl_last_match:
  "foldl (\<lambda>m e. if P e then Some (f e) else m) m es =
     (case filter P es of [] \<Rightarrow> m | xs \<Rightarrow> Some (f (last xs)))"
  by (induction es arbitrary: m) (auto split: list.split)

lemma distinct_tokens:
  "sorted_wrt (\<lambda>e e'. \<not> constantTimeEquals (en_token e) (en_token e')) es \<Longrightarrow>
   \<forall>e \<in> set es. en_token e \<noteq> [] \<Longrightarrow> distinct (map en_token es)"
proof (induction es)
  case (Cons e es)
  have "constantTimeEquals t t" if "t \<noteq> []" for t using that by (simp add: constantTimeEquals_iff)
  with Cons.prems have "en_token e \<notin> set (map en_token es)" by fastforce
  with Cons show ?case by simp
qed simp

lemma filter_unique: "distinct (map f xs) \<Longrightarrow> x \<in> set xs \<Longrightarrow> filter (\<lambda>y. f y = f x) xs = [x]"
proof (induction xs)
  case (Cons y xs)
  show ?case
  proof (cases "x = y")
    case True
    have "f y \<notin> f ` set xs" using Cons.prems(1) by simp
    then have "\<forall>z \<in> set xs. f z \<noteq> f y" by (metis imageI)
    then have "filter (\<lambda>z. f z = f y) xs = []" by (simp add: filter_empty_conv)
    with True show ?thesis by simp
  next
    case False
    then have "x \<in> set xs" "f y \<noteq> f x" using Cons.prems by force+
    with Cons show ?thesis by simp
  qed
qed simp

lemma authenticate_unique:
  assumes "wf_store s" "nul_free token" "\<forall>e \<in> set (ps_entries s). nul_free (en_token e)"
  shows "authenticateBearerToken s token = Some p \<longleftrightarrow>
    (\<exists>e \<in> set (ps_entries s). en_token e = token \<and> en_principal e = p)"
proof -
  have "constantTimeEquals token (en_token e) \<longleftrightarrow> en_token e = token" if "e \<in> set (ps_entries s)" for e
  proof -
    have "nul_free (en_token e)" "en_token e \<noteq> []" using assms(1,3) that by (simp_all add: wf_store_def)
    then show ?thesis using constantTimeEquals_nul_free [OF assms(2)] by metis
  qed
  then have f: "filter (\<lambda>e. constantTimeEquals token (en_token e)) (ps_entries s) =
      filter (\<lambda>e. en_token e = token) (ps_entries s)"
    by (intro filter_cong) simp_all
  have d: "distinct (map en_token (ps_entries s))"
    using assms(1) by (intro distinct_tokens) (simp_all add: wf_store_def)
  have auth: "authenticateBearerToken s token =
      (case filter (\<lambda>e. en_token e = token) (ps_entries s) of [] \<Rightarrow> None | xs \<Rightarrow> Some (en_principal (last xs)))"
    using foldl_last_match [of "\<lambda>e. constantTimeEquals token (en_token e)" en_principal None "ps_entries s"]
    unfolding f authenticateBearerToken_def .
  show ?thesis
  proof (cases "\<exists>e \<in> set (ps_entries s). en_token e = token")
    case True
    then obtain e where e: "e \<in> set (ps_entries s)" "en_token e = token" by blast
    then have one: "filter (\<lambda>e. en_token e = token) (ps_entries s) = [e]" using filter_unique [OF d e(1)] by simp
    have "e' = e" if "e' \<in> set (ps_entries s)" "en_token e' = token" for e'
      using that(2) filter_unique [OF d that(1)] one by simp
    moreover have "authenticateBearerToken s token = Some (en_principal e)"
      unfolding auth one by simp
    ultimately show ?thesis using e by (metis option.inject)
  next
    case False
    then have "filter (\<lambda>e. en_token e = token) (ps_entries s) = []" by (auto simp: filter_empty_conv)
    then have "authenticateBearerToken s token = None"
      unfolding auth by simp
    then show ?thesis using False by (metis option.distinct(1))
  qed
qed


definition sample_settings :: settings where
  "sample_settings =
     \<lparr>st_string = (\<lambda>k. if k = auth_key ''tokenEnvironment'' then ''PDR_TOKEN'' else []),
      st_bool = (\<lambda>_ _. Inr True), st_int = (\<lambda>_ d. Inr d),
      st_environment = (\<lambda>v. if v = ''PDR_TOKEN'' then Some ''abc'' else None),
      st_path = (\<lambda>p. p),
      st_file = (\<lambda>_. \<lparr>tf_isFile = False, tf_size = 0, tf_content = None, tf_permissions = (False, False)\<rparr>)\<rparr>"


end
