(* ===== verification/Configuration.thy ===== *)
theory Configuration
  imports Security
begin

text \<open>
  The configuration of the runtime: indexed instances
  (\<open>platform/configuration/src/IndexedConfiguration.cpp\<close>) and the validator that runs at start-up
  (\<open>platform/configuration/src/ConfigurationValidator.cpp\<close>). The configuration object, the number and URI
  parsers, the process environment and the token files belong to Poco and the operating system: they are
  the record \<open>config\<close>. A check yields the issues it adds to the list or the exception it lets escape;
  \<open>checks\<close> runs checks in order. The regular expressions of the validator are predicates on strings.
\<close>

section \<open>The configuration object\<close>

record config =
  cf_raw :: "string \<Rightarrow> string option"
  cf_parseBool :: "string \<Rightarrow> bool res"
  cf_parseInt :: "string \<Rightarrow> int res"
  cf_parseUInt :: "string \<Rightarrow> nat res"
  cf_parseInt64 :: "string \<Rightarrow> int res"
  cf_tryParse :: "string \<Rightarrow> int \<Rightarrow> bool \<times> int"
  cf_environment :: "string \<Rightarrow> string option"
  cf_uri :: "string \<Rightarrow> (string \<times> string) res"
  cf_path :: "string \<Rightarrow> string"
  cf_file :: "string \<Rightarrow> token_file"
  cf_what :: "exc \<Rightarrow> string"
  cf_displayText :: "exc \<Rightarrow> string"

definition hasProperty :: "config \<Rightarrow> string \<Rightarrow> bool" where
  "hasProperty C key \<longleftrightarrow> cf_raw C key \<noteq> None"

definition string_or :: "config \<Rightarrow> string \<Rightarrow> string \<Rightarrow> string" where
  "string_or C key d = (case cf_raw C key of None \<Rightarrow> d | Some s \<Rightarrow> s)"

definition bool_or :: "config \<Rightarrow> string \<Rightarrow> bool \<Rightarrow> bool res" where
  "bool_or C key d = (case cf_raw C key of None \<Rightarrow> Inr d | Some s \<Rightarrow> cf_parseBool C s)"

definition int_or :: "config \<Rightarrow> string \<Rightarrow> int \<Rightarrow> int res" where
  "int_or C key d = (case cf_raw C key of None \<Rightarrow> Inr d | Some s \<Rightarrow> cf_parseInt C s)"

definition uint_or :: "config \<Rightarrow> string \<Rightarrow> nat \<Rightarrow> nat res" where
  "uint_or C key d = (case cf_raw C key of None \<Rightarrow> Inr d | Some s \<Rightarrow> cf_parseUInt C s)"

text \<open>The view of the configuration that the principal store reads.\<close>

definition settings_of :: "config \<Rightarrow> settings" where
  "settings_of C =
     \<lparr>st_string = (\<lambda>k. string_or C k []), st_bool = bool_or C, st_int = int_or C,
      st_environment = cf_environment C, st_path = cf_path C, st_file = cf_file C\<rparr>"

section \<open>Indexed instances\<close>

record IndexedInstance =
  in_index :: nat
  in_prefix :: string
  in_id :: string
  in_enabled :: bool
  in_legacy :: bool

fun instances_loop :: "config \<Rightarrow> string \<Rightarrow> string \<Rightarrow> string set \<Rightarrow> nat list \<Rightarrow> IndexedInstance list res" where
  "instances_loop C base idPrefix ids [] = Inr []"
| "instances_loop C base idPrefix ids (i # is) =
     (let prefix = base @ ''.'' @ decimal i in
      rbind (bool_or C (prefix @ ''.enabled'') True) (\<lambda>enabled.
      let inst = \<lparr>in_index = i, in_prefix = prefix,
                  in_id = string_or C (prefix @ ''.id'') (idPrefix @ ''-'' @ decimal (i + 1)),
                  in_enabled = enabled, in_legacy = False\<rparr>
      in if enabled \<and> in_id inst = [] then Inl (InvalidArgument (prefix @ ''.id must not be empty''))
         else if enabled \<and> in_id inst \<in> ids
           then Inl (InvalidArgument (base @ '' contains duplicate id '' @ in_id inst))
         else rbind (instances_loop C base idPrefix (if enabled then insert (in_id inst) ids else ids) is)
                (\<lambda>rest. Inr (inst # rest))))"

definition indexedInstances :: "config \<Rightarrow> string \<Rightarrow> bool \<Rightarrow> nat \<Rightarrow> string \<Rightarrow> nat \<Rightarrow> IndexedInstance list res" where
  "indexedInstances C base legacyEnabled defaultCount idPrefix maximumCount =
     (let countKey = base @ ''.count'' in
      rbind (uint_or C countKey defaultCount) (\<lambda>count.
        if maximumCount < count
          then Inl (InvalidArgument (countKey @ '' exceeds maximum '' @ decimal maximumCount))
        else if \<not> hasProperty C countKey
          then rbind (bool_or C (base @ ''.enabled'') legacyEnabled) (\<lambda>enabled.
            Inr (if enabled \<or> 0 < defaultCount
                 then [\<lparr>in_index = 0, in_prefix = base, in_id = string_or C (base @ ''.id'') (idPrefix @ ''-1''),
                        in_enabled = enabled, in_legacy = True\<rparr>]
                 else []))
        else instances_loop C base idPrefix {} [0..<count]))"

section \<open>Checks\<close>

type_synonym ValidationIssue = "string \<times> string"
type_synonym check = "ValidationIssue list res"

fun checks :: "check list \<Rightarrow> check" where
  "checks [] = Inr []"
| "checks (c # cs) = rbind c (\<lambda>is. rbind (checks cs) (\<lambda>js. Inr (is @ js)))"

definition report :: "bool \<Rightarrow> string \<Rightarrow> string \<Rightarrow> check" where
  "report wrong key message = Inr (if wrong then [(key, message)] else [])"

definition requireString :: "config \<Rightarrow> string \<Rightarrow> check" where
  "requireString C key = report (\<not> hasProperty C key \<or> string_or C key [] = []) key ''required non-empty string''"

definition integerRange :: "config \<Rightarrow> string \<Rightarrow> int \<Rightarrow> int \<Rightarrow> bool \<Rightarrow> check" where
  "integerRange C key minimum maximum required =
     (case cf_raw C key of
        None \<Rightarrow> report required key ''required integer''
      | Some s \<Rightarrow> (case cf_tryParse C s 0 of
            (False, _) \<Rightarrow> report True key ''must be an integer''
          | (True, value) \<Rightarrow>
              if value < minimum \<or> maximum < value
                then report True key (''must be in range '' @ int_decimal minimum @ ''..'' @ int_decimal maximum)
              else Inr []))"

definition allowedString :: "config \<Rightarrow> string \<Rightarrow> string list \<Rightarrow> check" where
  "allowedString C key allowed =
     (case cf_raw C key of
        None \<Rightarrow> Inr []
      | Some value \<Rightarrow> report (value \<notin> set allowed) key (''unsupported value '' @ value))"

definition serial_format :: "string \<Rightarrow> bool" where
  "serial_format s = (case s of
      [a, b, c] \<Rightarrow> a \<in> set ''5678'' \<and> b \<in> set ''NEO'' \<and> c \<in> set ''12''
    | _ \<Rightarrow> False)"

definition serialParameters :: "config \<Rightarrow> string \<Rightarrow> check" where
  "serialParameters C key =
     report (hasProperty C key \<and> \<not> serial_format (string_or C key [])) key
       ''must match data/parity/stop format such as 8N1 or 7E1''"

definition isLoopbackHost :: "string \<Rightarrow> bool" where
  "isLoopbackHost host = (map tolower host \<in> {''127.0.0.1'', ''::1'', ''localhost''})"

definition is_alnum :: "char \<Rightarrow> bool" where
  "is_alnum c \<longleftrightarrow> isalpha c \<or> isdigit c"

text \<open>The regular expressions \<open>[A-Za-z0-9][A-Za-z0-9_.-]*\\*?\<close> and \<open>[A-Za-z_][A-Za-z0-9_]*\<close>.\<close>

definition id_char :: "char \<Rightarrow> bool" where
  "id_char c \<longleftrightarrow> is_alnum c \<or> c \<in> set ''_.-''"

definition bundle_pattern :: "string \<Rightarrow> bool" where
  "bundle_pattern s \<longleftrightarrow> s \<noteq> [] \<and> is_alnum (hd s) \<and>
     (list_all id_char (tl s) \<or> (tl s \<noteq> [] \<and> List.last s = CHR ''*'' \<and> list_all id_char (butlast (tl s))))"

definition environment_name :: "string \<Rightarrow> bool" where
  "environment_name s \<longleftrightarrow> s \<noteq> [] \<and> (isalpha (hd s) \<or> hd s = CHR ''_'') \<and>
     list_all (\<lambda>c. is_alnum c \<or> c = CHR ''_'') (tl s)"

definition is_blank :: "char \<Rightarrow> bool" where
  "is_blank c \<longleftrightarrow> c = CHR '' '' \<or> c = CHR 0x09"

definition trim_blanks :: "string \<Rightarrow> string" where
  "trim_blanks s = rev (dropWhile is_blank (rev (dropWhile is_blank s)))"

fun patterns_loop :: "string \<Rightarrow> string list \<Rightarrow> string set \<Rightarrow> ValidationIssue list" where
  "patterns_loop key [] unique = []"
| "patterns_loop key (item # items) unique =
     (let pattern = trim_blanks item in
      if pattern = [] then patterns_loop key items unique
      else if pattern = ''*'' \<or> \<not> bundle_pattern pattern \<or>
              (CHR ''*'' \<in> set pattern \<and> List.last pattern \<noteq> CHR ''*'')
        then (key, ''entries must be exact Bundle IDs or non-global prefixes ending in *: '' @ pattern) #
             patterns_loop key items unique
      else if pattern \<in> unique then (key, ''duplicate Bundle pattern '' @ pattern) # patterns_loop key items unique
      else patterns_loop key items (insert pattern unique))"

definition bundleManagementPatterns :: "config \<Rightarrow> check" where
  "bundleManagementPatterns C =
     (case cf_raw C ''pdr.management.manageableBundles'' of
        None \<Rightarrow> Inr []
      | Some s \<Rightarrow> Inr (patterns_loop ''pdr.management.manageableBundles'' (comma_items [] s) {}))"

text \<open>An environment variable that has to be set.\<close>

definition unset :: "config \<Rightarrow> string \<Rightarrow> bool" where
  "unset C variable \<longleftrightarrow> (case cf_environment C variable of None \<Rightarrow> True | Some v \<Rightarrow> v = [])"

definition environment_issues :: "config \<Rightarrow> string \<Rightarrow> string \<Rightarrow> check" where
  "environment_issues C key variable =
     (if variable = [] then Inr []
      else if \<not> environment_name variable then report True key ''must be a valid environment variable name''
      else report (unset C variable) key (''environment variable is not set or empty: '' @ variable))"

section \<open>Management\<close>

definition authentication_required :: "config \<Rightarrow> bool res" where
  "authentication_required C = bool_or C (auth_key ''required'') False"

definition requestId_required :: "config \<Rightarrow> bool res" where
  "requestId_required C = bool_or C ''pdr.management.idempotency.requireRequestId'' False"

definition managementPrincipalCount :: "config \<Rightarrow> int" where
  "managementPrincipalCount C =
     (case int_or C (auth_key ''principals.count'') 0 of Inl _ \<Rightarrow> 0 | Inr n \<Rightarrow> n)"

definition management_token_checks :: "config \<Rightarrow> check" where
  "management_token_checks C =
     (let environment = string_or C (auth_key ''tokenEnvironment'') [];
          tokenFile = string_or C (auth_key ''tokenFile'') []
      in checks
        [rbind (authentication_required C) (\<lambda>required.
           report (required \<and> environment = [] \<and> tokenFile = [] \<and> managementPrincipalCount C = 0)
             (auth_key ''tokenEnvironment'')
             ''or at least one principal is required when management authentication is enabled''),
         if environment \<noteq> [] \<and> tokenFile \<noteq> []
           then report True (auth_key ''tokenFile'') ''configure exactly one of tokenEnvironment or tokenFile''
         else environment_issues C (auth_key ''tokenEnvironment'') environment])"

fun permission_issues :: "string \<Rightarrow> string list \<Rightarrow> bool \<Rightarrow> ValidationIssue list" where
  "permission_issues prefix [] hasPermission =
     (if \<not> hasPermission then [(prefix @ ''permissions'', ''requires at least one permission'')] else [])"
| "permission_issues prefix (item # items) hasPermission =
     (let permission = trim item in
      if permission = [] then permission_issues prefix items hasPermission
      else if permission \<noteq> ''*'' \<and> permission \<notin> managementPermissions
        then (prefix @ ''permissions'', ''unknown management permission '' @ permission) #
             permission_issues prefix items True
      else permission_issues prefix items True)"

definition principal_id :: "string \<Rightarrow> bool" where
  "principal_id s \<longleftrightarrow> s \<noteq> [] \<and> is_alnum (hd s) \<and> list_all id_char (tl s) \<and> length (tl s) \<le> 63"

definition principal_id_issues ::
    "string \<Rightarrow> string \<Rightarrow> string set \<Rightarrow> ValidationIssue list \<times> string set" where
  "principal_id_issues prefix pid ids =
     (if \<not> principal_id pid then ([(prefix @ ''id'', ''must be a 1-64 character principal ID'')], ids)
      else if pid \<in> ids then ([(prefix @ ''id'', ''duplicate management principal ID '' @ pid)], ids)
      else ([], insert pid ids))"

definition principal_token_issues ::
    "config \<Rightarrow> string \<Rightarrow> string \<Rightarrow> string \<Rightarrow> string set \<Rightarrow> string set \<Rightarrow>
      ValidationIssue list \<times> string set \<times> string set" where
  "principal_token_issues C prefix environment tokenFile environments values =
     (let key = prefix @ ''tokenEnvironment'' in
      if (environment = []) = (tokenFile = [])
        then ([(key, ''configure exactly one of tokenEnvironment or tokenFile'')], environments, values)
      else if environment = [] then ([], environments, values)
      else if \<not> environment_name environment
        then ([(key, ''must be a valid environment variable name'')], environments, values)
      else if environment \<in> environments
        then ([(key, ''duplicate management token environment'')], environments, values)
      else case cf_environment C environment of
          None \<Rightarrow> ([(key, ''environment variable is not set or empty: '' @ environment)], insert environment environments, values)
        | Some value \<Rightarrow>
            if value = []
              then ([(key, ''environment variable is not set or empty: '' @ environment)], insert environment environments, values)
            else if value \<in> values
              then ([(key, ''duplicates another management bearer token value'')], insert environment environments, values)
            else ([], insert environment environments, insert value values))"

fun principals_check ::
    "config \<Rightarrow> nat list \<Rightarrow> string set \<Rightarrow> string set \<Rightarrow> string set \<Rightarrow> ValidationIssue list" where
  "principals_check C [] ids environments values = []"
| "principals_check C (i # is) ids environments values =
     (let prefix = auth_key (''principals.'' @ decimal i @ ''.'') in
      case principal_id_issues prefix (string_or C (prefix @ ''id'') []) ids of
        (idIssues, ids') \<Rightarrow>
      case principal_token_issues C prefix (string_or C (prefix @ ''tokenEnvironment'') [])
             (string_or C (prefix @ ''tokenFile'') []) environments values of
        (tokenIssues, environments', values') \<Rightarrow>
          idIssues @ tokenIssues @
          permission_issues prefix (comma_items [] (string_or C (prefix @ ''permissions'') [])) False @
          principals_check C is ids' environments' values')"

definition principals_checks :: "config \<Rightarrow> check" where
  "principals_checks C =
     (let environment = string_or C (auth_key ''tokenEnvironment'') [];
          indices = [0..<nat (min 64 (managementPrincipalCount C))]
      in if environment = [] then Inr (principals_check C indices {} {} {})
         else Inr (principals_check C indices {''legacy-admin''} {environment}
                (case cf_environment C environment of
                   Some v \<Rightarrow> if v \<noteq> [] then {v} else {} | None \<Rightarrow> {})))"

definition principal_store_check :: "config \<Rightarrow> check" where
  "principal_store_check C =
     (case fromManagementConfiguration (settings_of C) of
        Inl e \<Rightarrow> Inr [(''pdr.management.authentication'', cf_displayText C e)]
      | Inr _ \<Rightarrow> Inr [])"

text \<open>A path that has to be given while a feature is enabled.\<close>

definition path_check :: "config \<Rightarrow> string \<Rightarrow> string \<Rightarrow> string \<Rightarrow> string \<Rightarrow> check" where
  "path_check C flag key d message =
     rbind (bool_or C flag True) (\<lambda>enabled. report (enabled \<and> string_or C key d = []) key message)"

definition management_range :: "config \<Rightarrow> string \<Rightarrow> int \<Rightarrow> int \<Rightarrow> check" where
  "management_range C key minimum maximum = integerRange C (''pdr.management.'' @ key) minimum maximum False"

definition management_checks :: "config \<Rightarrow> check" where
  "management_checks C = checks
     [path_check C ''pdr.management.audit.enabled'' ''pdr.management.audit.path'' ''management-audit.jsonl''
        ''is required when management audit is enabled'',
      management_range C ''audit.maximumBytes'' 1024 1073741824,
      management_range C ''idempotency.retention'' 1 100000,
      management_range C ''idempotency.ttlMilliseconds'' 1000 2147483647,
      path_check C ''pdr.management.idempotency.persistence.enabled''
        ''pdr.management.idempotency.persistence.path'' ''management-idempotency.json''
        ''is required when management idempotency persistence is enabled'',
      management_range C ''tasks.workerCount'' 1 8,
      management_range C ''tasks.capacity'' 1 10000,
      management_range C ''tasks.retention'' 1 100000,
      management_range C ''tasks.health.degradedWaitMilliseconds'' 1 3600000,
      path_check C ''pdr.management.tasks.persistence.enabled'' ''pdr.management.tasks.persistence.path''
        ''management-tasks.json'' ''is required when management task persistence is enabled'',
      integerRange C ''pdr.plugins.quarantine.failureThreshold'' 1 1000 False,
      path_check C ''pdr.plugins.quarantine.enabled'' ''pdr.plugins.quarantine.path''
        ''data/plugin-quarantine.json'' ''is required when plugin quarantine is enabled'']"

section \<open>Alerts\<close>

definition history_check :: "config \<Rightarrow> check" where
  "history_check C =
     (if \<not> hasProperty C ''pdr.alerts.history.enabled'' then Inr []
      else rbind (bool_or C ''pdr.alerts.history.enabled'' False) (\<lambda>enabled.
        report (enabled \<and> string_or C ''pdr.alerts.history.path'' [] = []) ''pdr.alerts.history.path''
          ''is required when pdr.alerts.history.enabled is true''))"

definition alert_checks :: "config \<Rightarrow> check" where
  "alert_checks C = checks
     [integerRange C ''pdr.alerts.debounceMilliseconds'' 0 604800000 False,
      integerRange C ''pdr.alerts.escalationMilliseconds'' 0 604800000 False,
      integerRange C ''pdr.alerts.retention'' 1 100000 False,
      integerRange C ''pdr.alerts.deliveryQueueCapacity'' 1 100000 False,
      integerRange C ''pdr.alerts.deliveryFailureThreshold'' 1 1000 False,
      integerRange C ''pdr.alerts.deliveryCircuitOpenMilliseconds'' 100 3600000 False,
      integerRange C ''pdr.alerts.history.maximumBytes'' 1024 1073741824 False,
      history_check C,
      integerRange C ''pdr.alerts.webhook.count'' 0 256 False]"

definition present :: "config \<Rightarrow> string \<Rightarrow> bool" where
  "present C key \<longleftrightarrow> string_or C key [] \<noteq> []"

definition https_url :: "config \<Rightarrow> string \<Rightarrow> bool" where
  "https_url C url = (case cf_uri C url of Inl _ \<Rightarrow> False | Inr (scheme, host) \<Rightarrow> scheme = ''https'')"

definition url_check :: "config \<Rightarrow> string \<Rightarrow> string \<Rightarrow> check" where
  "url_check C key url =
     (case cf_uri C url of
        Inl _ \<Rightarrow> report True key ''must be a valid HTTP(S) URL''
      | Inr (scheme, host) \<Rightarrow> report ((scheme \<noteq> ''http'' \<and> scheme \<noteq> ''https'') \<or> host = []) key
          ''must be an HTTP(S) URL with a host'')"

text \<open>Two durations, the second not less than the first, when both parse.\<close>

definition order_check :: "config \<Rightarrow> string \<Rightarrow> string \<Rightarrow> int \<Rightarrow> string \<Rightarrow> string \<Rightarrow> int \<Rightarrow> string \<Rightarrow> check" where
  "order_check C key1 text1 d1 key2 text2 d2 message =
     (case (cf_tryParse C (string_or C key1 text1) d1, cf_tryParse C (string_or C key2 text2) d2) of
        ((valid1, v1), (valid2, v2)) \<Rightarrow> report (valid1 \<and> valid2 \<and> v2 < v1) key2 message)"

definition webhook_tls_checks :: "config \<Rightarrow> string \<Rightarrow> check" where
  "webhook_tls_checks C prefix =
     (let certificate = present C (prefix @ ''clientCertificate'');
          privateKey = present C (prefix @ ''privateKey'');
          https = https_url C (string_or C (prefix @ ''url'') [])
      in checks
        [report (certificate \<noteq> privateKey) (prefix @ (if certificate then ''privateKey'' else ''clientCertificate''))
           ''clientCertificate and privateKey must be configured together'',
         (if certificate \<or> privateKey \<or> present C (prefix @ ''caCertificate'')
          then report (\<not> https) (prefix @ ''url'') ''TLS options require an HTTPS URL''
          else rbind (bool_or C (prefix @ ''insecureSkipVerify'') False) (\<lambda>skip.
            report (skip \<and> \<not> https) (prefix @ ''url'') ''TLS options require an HTTPS URL'')),
         (if string_or C ''security.profile'' ''development'' = ''production''
          then rbind (bool_or C (prefix @ ''insecureSkipVerify'') False) (\<lambda>skip.
            report skip (prefix @ ''insecureSkipVerify'') ''must be false in production'')
          else Inr [])])"

definition webhook_check :: "config \<Rightarrow> IndexedInstance \<Rightarrow> check" where
  "webhook_check C i =
     (let prefix = in_prefix i @ ''.'' in checks
        ([integerRange C (prefix @ ''timeoutMilliseconds'') 100 60000 False,
          integerRange C (prefix @ ''maximumAttempts'') 1 10 False,
          integerRange C (prefix @ ''initialBackoffMilliseconds'') 0 60000 False,
          integerRange C (prefix @ ''maximumBackoffMilliseconds'') 0 60000 False] @
         (if \<not> in_enabled i then []
          else [requireString C (prefix @ ''url''),
                url_check C (prefix @ ''url'') (string_or C (prefix @ ''url'') []),
                environment_issues C (prefix @ ''authorizationEnvironment'')
                  (string_or C (prefix @ ''authorizationEnvironment'') []),
                environment_issues C (prefix @ ''privateKeyPasswordEnvironment'')
                  (string_or C (prefix @ ''privateKeyPasswordEnvironment'') []),
                webhook_tls_checks C prefix,
                order_check C (prefix @ ''initialBackoffMilliseconds'') ''200'' 200
                  (prefix @ ''maximumBackoffMilliseconds'') ''2000'' 2000
                  ''must be greater than or equal to initialBackoffMilliseconds''])))"

definition webhook_checks :: "config \<Rightarrow> check" where
  "webhook_checks C =
     (case indexedInstances C ''pdr.alerts.webhook'' False 0 ''webhook'' 256 of
        Inl e \<Rightarrow> Inr [(''pdr.alerts.webhook'', cf_what C e)]
      | Inr is \<Rightarrow> checks (map (webhook_check C) is))"

definition escalation_check :: "config \<Rightarrow> check" where
  "escalation_check C =
     (case (cf_raw C ''pdr.alerts.debounceMilliseconds'', cf_raw C ''pdr.alerts.escalationMilliseconds'') of
        (Some d, Some e) \<Rightarrow>
          (case (cf_parseInt64 C e, cf_parseInt64 C d) of
             (Inr escalation, Inr debounce) \<Rightarrow>
               report (escalation < debounce) ''pdr.alerts.escalationMilliseconds''
                 ''must be greater than or equal to pdr.alerts.debounceMilliseconds''
           | _ \<Rightarrow> Inr [])
      | _ \<Rightarrow> Inr [])"

definition observability_checks :: "config \<Rightarrow> check" where
  "observability_checks C = checks
     [integerRange C ''observability.history.retentionDays'' 1 36500 False,
      integerRange C ''observability.metrics.exportIntervalMilliseconds'' 100 3600000 False,
      integerRange C ''observability.metrics.exportTimeoutMilliseconds'' 100 3600000 False,
      integerRange C ''observability.metrics.maximumSeries'' 1 1000000 False,
      integerRange C ''observability.metrics.offlineCacheMaximumFiles'' 1 1000000 False,
      integerRange C ''pdr.modbus.port'' 1 65535 False,
      integerRange C ''pdr.modbus.unitId'' 0 247 False,
      integerRange C ''pdr.serial.baudRate'' 1 4000000 False,
      integerRange C ''pdr.gnss.baudRate'' 1 4000000 False]"

section \<open>Families of instances\<close>

record family =
  fm_base :: string
  fm_legacyEnabled :: bool
  fm_defaultCount :: nat
  fm_idPrefix :: string
  fm_check :: "config \<Rightarrow> IndexedInstance \<Rightarrow> check"

definition family_instances :: "config \<Rightarrow> family \<Rightarrow> IndexedInstance list res" where
  "family_instances C f =
     indexedInstances C (fm_base f) (fm_legacyEnabled f) (fm_defaultCount f) (fm_idPrefix f) 256"

text \<open>\<open>validateFamily\<close>: the issues it adds and the instances it returns.\<close>

definition validateFamily :: "config \<Rightarrow> family \<Rightarrow> check \<times> IndexedInstance list" where
  "validateFamily C f =
     (case family_instances C f of
        Inl e \<Rightarrow> (checks [integerRange C (fm_base f @ ''.count'') 0 256 False, Inr [(fm_base f, cf_what C e)]], [])
      | Inr is \<Rightarrow> (integerRange C (fm_base f @ ''.count'') 0 256 False, is))"

text \<open>\<open>validateId\<close> and \<open>validateProtocolId\<close> differ in the message.\<close>

definition id_check :: "string \<Rightarrow> string set \<Rightarrow> IndexedInstance \<Rightarrow> check" where
  "id_check duplicate ids i =
     (if in_id i = [] then report True (in_prefix i @ ''.id'') ''required non-empty string''
      else report (in_id i \<in> ids) (in_prefix i @ ''.id'') (duplicate @ in_id i))"

fun instances_check ::
    "config \<Rightarrow> string \<Rightarrow> (config \<Rightarrow> IndexedInstance \<Rightarrow> check) \<Rightarrow> string set \<Rightarrow> IndexedInstance list \<Rightarrow> check" where
  "instances_check C duplicate f ids [] = Inr []"
| "instances_check C duplicate f ids (i # is) =
     (if \<not> in_enabled i then instances_check C duplicate f ids is
      else checks [id_check duplicate ids i, f C i,
                   instances_check C duplicate f (if in_id i = [] then ids else insert (in_id i) ids) is])"

definition enabled_ids :: "IndexedInstance list \<Rightarrow> string set" where
  "enabled_ids is = set (map in_id (filter (\<lambda>i. in_enabled i \<and> in_id i \<noteq> []) is))"

fun families_check :: "config \<Rightarrow> string \<Rightarrow> string set \<Rightarrow> family list \<Rightarrow> check" where
  "families_check C duplicate ids [] = Inr []"
| "families_check C duplicate ids (f # fs) =
     (case validateFamily C f of (issues, is) \<Rightarrow>
        checks [issues, instances_check C duplicate (fm_check f) ids is,
                families_check C duplicate (ids \<union> enabled_ids is) fs])"

abbreviation key_of :: "IndexedInstance \<Rightarrow> string \<Rightarrow> string" where
  "key_of i name \<equiv> in_prefix i @ ''.'' @ name"

definition modbus_check :: "config \<Rightarrow> IndexedInstance \<Rightarrow> check" where
  "modbus_check C i = checks
     [integerRange C (key_of i ''port'') 1 65535 False,
      integerRange C (key_of i ''unitId'') 0 247 False,
      integerRange C (key_of i ''timeoutMilliseconds'') 1 60000 False,
      integerRange C (key_of i ''readRetryAttempts'') 0 10 False,
      integerRange C (key_of i ''retryDelayMilliseconds'') 0 60000 False]"

definition port_checks :: "config \<Rightarrow> IndexedInstance \<Rightarrow> check" where
  "port_checks C i = checks
     [allowedString C (key_of i ''transport'') [''port'', ''loopback''],
      (if string_or C (key_of i ''transport'') ''port'' = ''port'' then requireString C (key_of i ''port'') else Inr [])]"

definition serial_check :: "config \<Rightarrow> IndexedInstance \<Rightarrow> check" where
  "serial_check C i = checks
     [port_checks C i,
      integerRange C (key_of i ''baudRate'') 1 4000000 False,
      serialParameters C (key_of i ''parameters''),
      allowedString C (key_of i ''flowControl'') [''none'', ''rtscts''],
      integerRange C (key_of i ''reconnectDelayMilliseconds'') 0 60000 False,
      integerRange C (key_of i ''readTimeoutMilliseconds'') 1 60000 False]"

definition gnss_check :: "config \<Rightarrow> IndexedInstance \<Rightarrow> check" where
  "gnss_check C i = checks
     [port_checks C i,
      integerRange C (key_of i ''baudRate'') 1 4000000 False,
      integerRange C (key_of i ''reconnectDelayMilliseconds'') 0 60000 False,
      integerRange C (key_of i ''readTimeoutMilliseconds'') 1 60000 False,
      integerRange C (key_of i ''staleAfterMilliseconds'') 1 3600000 False]"

definition gpio_check :: "config \<Rightarrow> IndexedInstance \<Rightarrow> check" where
  "gpio_check C i = checks
     [integerRange C (key_of i ''pin'') 0 1000000 True,
      integerRange C (key_of i ''exportTimeoutMilliseconds'') 0 60000 False,
      report (string_or C (key_of i ''direction'') ''in'' \<notin> {''in'', ''out''}) (key_of i ''direction'') ''must be in or out'']"

definition address_check :: "config \<Rightarrow> string \<Rightarrow> check" where
  "address_check C key =
     (case cf_raw C key of
        None \<Rightarrow> Inr []
      | Some address \<Rightarrow> (case stoull 16 address of
            Inl _ \<Rightarrow> report True key ''must be a 64-bit hexadecimal address''
          | Inr (_, parsed) \<Rightarrow> report (parsed \<noteq> length address) key ''must be a 64-bit hexadecimal address''))"

definition xbee_check :: "config \<Rightarrow> IndexedInstance \<Rightarrow> check" where
  "xbee_check C i = checks
     [port_checks C i,
      requireString C (key_of i ''sourceAddress''),
      address_check C (key_of i ''sourceAddress''),
      integerRange C (key_of i ''baudRate'') 1 4000000 False,
      integerRange C (key_of i ''analogChannel'') 0 15 False,
      integerRange C (key_of i ''reconnectDelayMilliseconds'') 0 60000 False,
      integerRange C (key_of i ''receiveTimeoutMilliseconds'') 1 60000 False,
      integerRange C (key_of i ''staleAfterMilliseconds'') 1 3600000 False,
      report (string_or C (key_of i ''conversion'') ''raw'' \<notin> {''raw'', ''millivolts'', ''temperature'', ''humidity''})
        (key_of i ''conversion'') ''unsupported conversion'']"

text \<open>The sum of two \<open>int\<close> values may leave the range of the type.\<close>

definition signal_check :: "config \<Rightarrow> IndexedInstance \<Rightarrow> check" where
  "signal_check C i =
     (let bitOffset = snd (cf_tryParse C (string_or C (key_of i ''bitOffset'') ''0'') 0);
          bitLength = snd (cf_tryParse C (string_or C (key_of i ''bitLength'') ''1'') 1)
      in if bitOffset + bitLength < - (2 ^ 31) \<or> 2 ^ 31 \<le> bitOffset + bitLength then Inl SignedOverflow
         else report (512 < bitOffset + bitLength) (key_of i ''bitLength'') ''signal exceeds 64-byte CAN FD payload'')"

definition frame_id_check :: "config \<Rightarrow> IndexedInstance \<Rightarrow> check" where
  "frame_id_check C i =
     (let s = string_or C (key_of i ''frameId'') ''0'';
          bad = report True (key_of i ''frameId'') ''must be a valid 11-bit or 29-bit CAN identifier''
      in case stoull 0 s of
           Inl _ \<Rightarrow> bad
         | Inr (frameId, parsed) \<Rightarrow>
             if parsed \<noteq> length s \<or> 0x1FFFFFFF < frameId then bad
             else case bool_or C (key_of i ''extended'') False of
                 Inl _ \<Rightarrow> bad
               | Inr extended \<Rightarrow> if \<not> extended \<and> 0x7FF < frameId then bad else Inr [])"

definition can_check :: "config \<Rightarrow> IndexedInstance \<Rightarrow> check" where
  "can_check C i = checks
     [allowedString C (key_of i ''transport'') [''socketcan'', ''loopback''],
      (if string_or C (key_of i ''transport'') ''socketcan'' = ''socketcan''
       then requireString C (key_of i ''interface'') else Inr []),
      integerRange C (key_of i ''bitOffset'') 0 511 False,
      integerRange C (key_of i ''bitLength'') 1 64 False,
      signal_check C i,
      frame_id_check C i,
      report (string_or C (key_of i ''bitOrder'') ''little'' \<notin> {''little'', ''big''}) (key_of i ''bitOrder'') ''must be little or big'',
      integerRange C (key_of i ''reconnectDelayMilliseconds'') 0 60000 False,
      integerRange C (key_of i ''receiveTimeoutMilliseconds'') 1 60000 False,
      integerRange C (key_of i ''staleAfterMilliseconds'') 1 60000 False]"

definition led_check :: "config \<Rightarrow> IndexedInstance \<Rightarrow> check" where
  "led_check C i = requireString C (key_of i ''path'')"

definition simulation_family :: family where
  "simulation_family = \<lparr>fm_base = ''pdr.simulation'', fm_legacyEnabled = True, fm_defaultCount = 1,
     fm_idPrefix = ''simulation'', fm_check = (\<lambda>_ _. Inr [])\<rparr>"

definition plain_family :: "string \<Rightarrow> string \<Rightarrow> (config \<Rightarrow> IndexedInstance \<Rightarrow> check) \<Rightarrow> family" where
  "plain_family base idPrefix f = \<lparr>fm_base = base, fm_legacyEnabled = False, fm_defaultCount = 0,
     fm_idPrefix = idPrefix, fm_check = f\<rparr>"

definition modbus_family :: family where "modbus_family = plain_family ''pdr.modbus'' ''modbus'' modbus_check"

definition xbee_family :: family where "xbee_family = plain_family ''pdr.xbee'' ''xbee-sensor'' xbee_check"

definition can_family :: family where "can_family = plain_family ''pdr.can'' ''can-sensor'' can_check"

definition device_families :: "family list" where
  "device_families =
     [simulation_family, modbus_family, plain_family ''pdr.serial'' ''serial'' serial_check,
      plain_family ''pdr.gnss'' ''gnss'' gnss_check, plain_family ''pdr.gpio'' ''gpio'' gpio_check,
      xbee_family, can_family, plain_family ''pdr.led'' ''led'' led_check]"

section \<open>Protocols\<close>

definition recovery_check :: "config \<Rightarrow> IndexedInstance \<Rightarrow> check" where
  "recovery_check C i = checks
     [integerRange C (key_of i ''reconnectDelayMilliseconds'') 100 3600000 False,
      integerRange C (key_of i ''reconnectMaximumDelayMilliseconds'') 100 3600000 False,
      order_check C (key_of i ''reconnectDelayMilliseconds'') ''1000'' 1000
        (key_of i ''reconnectMaximumDelayMilliseconds'') ''30000'' 30000
        ''must be greater than or equal to reconnect delay'']"

text \<open>A value given directly or by the name of an environment variable.\<close>

definition environment_backed :: "config \<Rightarrow> IndexedInstance \<Rightarrow> string \<Rightarrow> check" where
  "environment_backed C i name =
     (let key = key_of i (name @ ''Environment''); variable = string_or C key [] in checks
        [report (present C (key_of i name) \<and> variable \<noteq> []) key (''mutually exclusive with '' @ key_of i name),
         environment_issues C key variable])"

definition verification_checks :: "config \<Rightarrow> IndexedInstance \<Rightarrow> check" where
  "verification_checks C i =
     (if string_or C ''security.profile'' ''development'' = ''production'' then checks
        [rbind (bool_or C (key_of i ''verifyServerCertificate'') True) (\<lambda>v.
           report (\<not> v) (key_of i ''verifyServerCertificate'') ''must be true in production''),
         rbind (bool_or C (key_of i ''verifyHostname'') True) (\<lambda>v.
           report (\<not> v) (key_of i ''verifyHostname'') ''must be true in production'')]
      else Inr [])"

definition has_scheme :: "string \<Rightarrow> string \<Rightarrow> bool" where
  "has_scheme scheme uri \<longleftrightarrow> take (length scheme) uri = scheme"

definition mqtt_tls_checks :: "config \<Rightarrow> IndexedInstance \<Rightarrow> check" where
  "mqtt_tls_checks C i =
     (let uri = string_or C (key_of i ''serverUri'') [];
          tls = has_scheme ''ssl://'' uri \<or> has_scheme ''wss://'' uri;
          material = list_ex (\<lambda>k. present C (key_of i k))
            [''trustStore'', ''keyStore'', ''privateKey'', ''privateKeyPassword'', ''enabledCipherSuites'']
      in checks
        [report (material \<and> \<not> tls) (key_of i ''serverUri'') ''TLS material requires ssl:// or wss://'',
         report (present C (key_of i ''privateKey'') \<and> \<not> present C (key_of i ''keyStore''))
           (key_of i ''keyStore'') ''required when privateKey is configured'',
         report (present C (key_of i ''privateKeyPassword'') \<and> \<not> present C (key_of i ''privateKey''))
           (key_of i ''privateKey'') ''required when privateKeyPassword is configured'',
         (if tls then verification_checks C i else Inr [])])"

definition mqtt_check :: "config \<Rightarrow> IndexedInstance \<Rightarrow> check" where
  "mqtt_check C i = checks
     [requireString C (key_of i ''serverUri''),
      environment_backed C i ''username'',
      environment_backed C i ''password'',
      environment_backed C i ''privateKeyPassword'',
      mqtt_tls_checks C i,
      integerRange C (key_of i ''keepAliveSeconds'') 0 86400 False,
      integerRange C (key_of i ''connectTimeoutSeconds'') 1 3600 False,
      recovery_check C i]"

definition ros_check :: "config \<Rightarrow> IndexedInstance \<Rightarrow> check" where
  "ros_check C i =
     (let uri = string_or C (key_of i ''uri'') [];
          ws = has_scheme ''ws://'' uri;
          wss = has_scheme ''wss://'' uri;
          material = list_ex (\<lambda>k. present C (key_of i k)) [''trustStore'', ''clientCertificate'', ''privateKey'']
      in checks
        [requireString C (key_of i ''uri''),
         report (uri \<noteq> [] \<and> \<not> ws \<and> \<not> wss) (key_of i ''uri'') ''scheme must be ws or wss'',
         environment_backed C i ''authorization'',
         report (material \<and> \<not> wss) (key_of i ''uri'') ''TLS material requires wss://'',
         report (present C (key_of i ''clientCertificate'') \<noteq> present C (key_of i ''privateKey''))
           (key_of i ''clientCertificate'') ''client certificate and private key must be configured together'',
         integerRange C (key_of i ''maximumMessageSize'') 1 2147483647 False,
         integerRange C (key_of i ''connectTimeoutSeconds'') 1 3600 False,
         (if wss then verification_checks C i else Inr []),
         recovery_check C i])"

definition udp_check :: "config \<Rightarrow> IndexedInstance \<Rightarrow> check" where
  "udp_check C i = checks
     [requireString C (key_of i ''localHost''),
      requireString C (key_of i ''remoteHost''),
      integerRange C (key_of i ''localPort'') 0 65535 False,
      integerRange C (key_of i ''remotePort'') 1 65535 False,
      recovery_check C i]"

definition protocol_families :: "family list" where
  "protocol_families =
     [plain_family ''pdr.mqtt'' ''mqtt'' mqtt_check, plain_family ''pdr.ros'' ''ros'' ros_check,
      plain_family ''pdr.udp'' ''udp'' udp_check]"

section \<open>The security profile and the whole\<close>

definition development_check :: "config \<Rightarrow> check" where
  "development_check C =
     rbind (int_or C ''osp.web.server.securePort'' 0) (\<lambda>securePort.
       report (\<not> isLoopbackHost (string_or C ''osp.web.server.host'' []) \<and>
               (\<not> present C ''osp.web.authServiceName'' \<or> securePort \<le> 0)) ''security.profile''
         ''development WebUI may bind externally only with authentication and TLS'')"

definition production_checks :: "config \<Rightarrow> check" where
  "production_checks C = checks
     [rbind (authentication_required C) (\<lambda>required.
        report (\<not> required) (auth_key ''required'') ''production requires authenticated management operations''),
      rbind (requestId_required C) (\<lambda>required.
        report (\<not> required) ''pdr.management.idempotency.requireRequestId''
          ''production requires idempotent management request IDs''),
      rbind (int_or C ''osp.web.server.securePort'' 0) (\<lambda>securePort.
        report (securePort \<le> 0) ''osp.web.server.securePort'' ''production requires TLS''),
      report (\<not> present C ''osp.web.authServiceName'') ''osp.web.authServiceName'' ''production requires authentication'',
      rbind (bool_or C ''auth.simple.enable'' False) (\<lambda>enabled.
        report enabled ''auth.simple.enable'' ''legacy SimpleAuth is prohibited in production'')]"

definition profile_checks :: "config \<Rightarrow> check" where
  "profile_checks C =
     (let profile = string_or C ''security.profile'' ''development'' in
      if profile \<noteq> ''development'' \<and> profile \<noteq> ''production''
        then report True ''security.profile'' ''must be development or production''
      else if profile = ''development'' then development_check C
      else production_checks C)"

text \<open>A flag is read before the checks that use it: reading it may throw.\<close>

definition reads_flag :: "bool res \<Rightarrow> check" where
  "reads_flag flag = rbind flag (\<lambda>_. Inr [])"

definition validate :: "config \<Rightarrow> check" where
  "validate C = checks
     [allowedString C ''logging.loggers.root.level''
        [''fatal'', ''critical'', ''error'', ''warning'', ''notice'', ''information'', ''debug'', ''trace''],
      requireString C ''osp.web.server.host'',
      integerRange C ''osp.web.server.port'' 1 65535 True,
      integerRange C ''pdr.fastdds.domainId'' 0 232 True,
      integerRange C ''pdr.subprocess.shutdownTimeoutMilliseconds'' 1 3600000 True,
      bundleManagementPatterns C,
      reads_flag (authentication_required C),
      reads_flag (requestId_required C),
      integerRange C (auth_key ''principals.count'') 0 64 False,
      management_token_checks C,
      principals_checks C,
      principal_store_check C,
      management_checks C,
      alert_checks C,
      webhook_checks C,
      escalation_check C,
      observability_checks C,
      families_check C ''duplicate device id '' {} device_families,
      families_check C ''duplicate protocol id '' {} protocol_families,
      profile_checks C]"

fun issues_text :: "ValidationIssue list \<Rightarrow> string" where
  "issues_text [] = []"
| "issues_text ((key, message) # issues) = '' ['' @ key @ '': '' @ message @ '']'' @ issues_text issues"

definition validateOrThrow :: "config \<Rightarrow> unit res" where
  "validateOrThrow C =
     rbind (validate C) (\<lambda>issues.
       if issues = [] then Inr ()
       else Inl (InvalidArgument (''configuration validation failed:'' @ issues_text issues)))"

end
