(* ===== verification/Configuration_Facts.thy ===== *)
theory Configuration_Facts
  imports Configuration
begin

text \<open>
  What a configuration without issues guarantees: numbers are in their ranges, the ids of all enabled
  devices and of all enabled protocols are distinct, the principals of the management interface can be
  loaded, and in production every management operation needs one of them.
\<close>

section \<open>Checks that find nothing\<close>

lemma checks_clean [simp]: "checks cs = Inr [] \<longleftrightarrow> (\<forall>c \<in> set cs. c = Inr [])"
  by (induction cs) (auto simp: rbind_eq_Inr)

declare checks.simps [simp del]

lemma report_clean [simp]: "report wrong key message = Inr [] \<longleftrightarrow> \<not> wrong"
  by (simp add: report_def)

lemma rbind_clean: "rbind r f = Inr [] \<longleftrightarrow> (\<exists>x. r = Inr x \<and> f x = Inr [])"
  by (simp add: rbind_eq_Inr)

lemma integerRange_clean:
  "integerRange C key lo hi required = Inr [] \<longleftrightarrow>
     (case cf_raw C key of
        None \<Rightarrow> \<not> required
      | Some s \<Rightarrow> (\<exists>v. cf_tryParse C s 0 = (True, v) \<and> lo \<le> v \<and> v \<le> hi))"
  by (auto simp: integerRange_def split: option.split prod.split bool.split)

section \<open>Instances\<close>

lemma instances_loop_ids:
  "instances_loop C base idPrefix ids is = Inr insts \<Longrightarrow>
     distinct (map in_id (filter in_enabled insts)) \<and>
     (\<forall>i \<in> set insts. in_enabled i \<longrightarrow> in_id i \<notin> ids \<and> in_id i \<noteq> []) \<and>
     map in_prefix insts = map (\<lambda>i. base @ ''.'' @ decimal i) is"
proof (induction "is" arbitrary: ids insts)
  case (Cons i "is")
  define prefix where "prefix = base @ ''.'' @ decimal i"
  define name where "name = string_or C (prefix @ ''.id'') (idPrefix @ ''-'' @ decimal (i + 1))"
  obtain enabled rest where e: "bool_or C (prefix @ ''.enabled'') True = Inr enabled"
    and ok: "\<not> (enabled \<and> name = [])" "\<not> (enabled \<and> name \<in> ids)"
    and rest: "instances_loop C base idPrefix (if enabled then insert name ids else ids) is = Inr rest"
    and insts: "insts = \<lparr>in_index = i, in_prefix = prefix, in_id = name, in_enabled = enabled, in_legacy = False\<rparr> # rest"
    using Cons.prems unfolding instances_loop.simps Let_def prefix_def [symmetric]
    by (auto simp: rbind_eq_Inr name_def split: if_splits)
  have IH: "distinct (map in_id (filter in_enabled rest))"
    "\<forall>j \<in> set rest. in_enabled j \<longrightarrow> in_id j \<notin> (if enabled then insert name ids else ids) \<and> in_id j \<noteq> []"
    "map in_prefix rest = map (\<lambda>i. base @ ''.'' @ decimal i) is"
    using Cons.IH [OF rest] by blast+
  show ?case using IH ok by (cases enabled) (auto simp: insts prefix_def)
qed simp

lemma instances_unique:
  assumes "indexedInstances C base legacy n idPrefix maximum = Inr is"
  shows "distinct (map in_id (filter in_enabled is))"
proof (cases "hasProperty C (base @ ''.count'')")
  case True
  then show ?thesis
    using assms instances_loop_ids [of C base idPrefix "{}" _ "is"]
    by (auto simp: indexedInstances_def Let_def rbind_eq_Inr split: if_splits)
next
  case False
  then show ?thesis
    using assms by (auto simp: indexedInstances_def Let_def rbind_eq_Inr split: if_splits)
qed

section \<open>Families\<close>

definition enabled_instances :: "config \<Rightarrow> family \<Rightarrow> IndexedInstance list" where
  "enabled_instances C f = (case family_instances C f of Inl _ \<Rightarrow> [] | Inr is \<Rightarrow> filter in_enabled is)"

lemma instances_check_clean:
  "instances_check C duplicate f ids is = Inr [] \<Longrightarrow>
     distinct (map in_id (filter in_enabled is)) \<and>
     (\<forall>i \<in> set is. in_enabled i \<longrightarrow> in_id i \<noteq> [] \<and> in_id i \<notin> ids \<and> f C i = Inr [])"
proof (induction "is" arbitrary: ids)
  case (Cons i "is")
  show ?case
  proof (cases "in_enabled i")
    case True
    then have ok: "in_id i \<noteq> []" "in_id i \<notin> ids" "f C i = Inr []"
      and rest: "instances_check C duplicate f (insert (in_id i) ids) is = Inr []"
      using Cons.prems by (auto simp: id_check_def split: if_splits)
    show ?thesis using Cons.IH [OF rest] ok True by auto
  next
    case False
    with Cons show ?thesis by simp
  qed
qed simp

lemma validateFamily_clean:
  assumes "fst (validateFamily C f) = Inr []"
  shows "\<exists>is. family_instances C f = Inr is \<and> snd (validateFamily C f) = is"
  using assms by (auto simp: validateFamily_def split: sum.splits)

lemma families_check_clean:
  "families_check C duplicate ids fs = Inr [] \<Longrightarrow>
     (\<forall>f \<in> set fs. \<exists>is. family_instances C f = Inr is) \<and>
     (\<forall>f \<in> set fs. \<forall>i \<in> set (enabled_instances C f). fm_check f C i = Inr []) \<and>
     distinct (map in_id (concat (map (enabled_instances C) fs))) \<and>
     (\<forall>i \<in> set (concat (map (enabled_instances C) fs)). in_id i \<noteq> [] \<and> in_id i \<notin> ids)"
proof (induction fs arbitrary: ids)
  case (Cons f fs)
  obtain issues "is" where v: "validateFamily C f = (issues, is)" by fastforce
  then have parts: "issues = Inr []" "instances_check C duplicate (fm_check f) ids is = Inr []"
    "families_check C duplicate (ids \<union> enabled_ids is) fs = Inr []"
    using Cons.prems by simp_all
  then have fam: "family_instances C f = Inr is" using validateFamily_clean [of C f] v by simp
  have en: "enabled_instances C f = filter in_enabled is" by (simp add: enabled_instances_def fam)
  note here = instances_check_clean [OF parts(2)] and later = Cons.IH [OF parts(3)]
  have "in_id ` set (filter in_enabled is) \<subseteq> enabled_ids is" using here by (auto simp: enabled_ids_def)
  then have "in_id ` set (filter in_enabled is) \<inter> in_id ` set (concat (map (enabled_instances C) fs)) = {}"
    using later by (auto simp del: set_concat)
  then show ?case
    using here later fam en by (auto simp del: set_concat simp: distinct_append)
qed simp

section \<open>The principal store of a valid configuration\<close>

lemma appendEntry_required: "appendEntry i t ps s = Inr s' \<Longrightarrow> ps_required s' = ps_required s"
  by (auto simp: appendEntry_def rbind_eq_Inr)

lemma principals_loop_required: "principals_loop C is s = Inr s' \<Longrightarrow> ps_required s' = ps_required s"
proof (induction "is" arbitrary: s)
  case (Cons i "is")
  then obtain s1 where "principal_entry C i s = Inr s1" "principals_loop C is s1 = Inr s'"
    by (auto simp: rbind_eq_Inr)
  then show ?case
    using Cons.IH by (auto simp: principal_entry_def Let_def rbind_eq_Inr dest: appendEntry_required split: if_splits)
qed simp

lemma loaded_store_required:
  assumes "fromManagementConfiguration C = Inr s"
  shows "st_bool C (auth_key ''required'') False = Inr (ps_required s)"
proof -
  obtain r s0 n where r: "st_bool C (auth_key ''required'') False = Inr r"
    and s0: "legacy_entry C (PrincipalStore_default\<lparr>ps_required := r\<rparr>) = Inr s0"
    and s: "principals_loop C [0..<nat n] s0 = Inr s"
    using assms by (auto simp: fromManagementConfiguration_def rbind_eq_Inr split: if_splits)
  have "ps_required s0 = r"
    using s0 by (auto simp: legacy_entry_def rbind_eq_Inr dest: appendEntry_required split: if_splits)
  then show ?thesis using r principals_loop_required [OF s] by simp
qed

lemma validate_parts:
  assumes "validate C = Inr []"
  shows "principal_store_check C = Inr []" "profile_checks C = Inr []"
    "families_check C ''duplicate device id '' {} device_families = Inr []"
    "families_check C ''duplicate protocol id '' {} protocol_families = Inr []"
  using assms by (simp_all add: validate_def)

lemma valid_store:
  assumes "validate C = Inr []"
  obtains s where "fromManagementConfiguration (settings_of C) = Inr s"
    "authentication_required C = Inr (ps_required s)"
proof -
  obtain s where s: "fromManagementConfiguration (settings_of C) = Inr s"
    using validate_parts(1) [OF assms] by (auto simp: principal_store_check_def split: sum.splits)
  then have "authentication_required C = Inr (ps_required s)"
    using loaded_store_required [OF s] by (simp add: settings_of_def authentication_required_def)
  then show thesis using that s by blast
qed

text \<open>
  C36: A configuration the validator finds no issue with can be used: the principals of the management
  interface load, with distinct ids and at least one permission each. In the production profile the store
  requires authentication and has a principal, the web server has a TLS port and an authentication
  service and the legacy authentication is off; in the development profile the web server is bound to the
  local host or has both.
\<close>

theorem validated_configuration_secure:
  assumes "validate C = Inr []"
  shows "\<exists>s. fromManagementConfiguration (settings_of C) = Inr s \<and>
    distinct (map (pr_id \<circ> en_principal) (ps_entries s)) \<and>
    (\<forall>e \<in> set (ps_entries s). pr_permissions (en_principal e) \<noteq> {}) \<and>
    (case string_or C ''security.profile'' ''development'' = ''production'' of
       True \<Rightarrow> ps_required s \<and> ps_entries s \<noteq> [] \<and> string_or C ''osp.web.authServiceName'' [] \<noteq> [] \<and>
         (\<exists>p > 0. int_or C ''osp.web.server.securePort'' 0 = Inr p) \<and>
         requestId_required C = Inr True \<and> bool_or C ''auth.simple.enable'' False = Inr False
     | False \<Rightarrow> string_or C ''security.profile'' ''development'' = ''development'' \<and>
         (isLoopbackHost (string_or C ''osp.web.server.host'' []) \<or>
          string_or C ''osp.web.authServiceName'' [] \<noteq> [] \<and> (\<exists>p > 0. int_or C ''osp.web.server.securePort'' 0 = Inr p)))"
proof -
  define profile where "profile = string_or C ''security.profile'' ''development''"
  obtain s where s: "fromManagementConfiguration (settings_of C) = Inr s"
    and required: "authentication_required C = Inr (ps_required s)" using valid_store [OF assms] .
  note wf = loaded_store_wf [OF s]
  have checked: "profile = ''production'' \<and> production_checks C = Inr [] \<or>
      profile = ''development'' \<and> development_check C = Inr []"
    using validate_parts(2) [OF assms] unfolding profile_checks_def profile_def [symmetric] Let_def
    by (auto split: if_splits)
  have "case profile = ''production'' of
       True \<Rightarrow> ps_required s \<and> ps_entries s \<noteq> [] \<and> string_or C ''osp.web.authServiceName'' [] \<noteq> [] \<and>
         (\<exists>p > 0. int_or C ''osp.web.server.securePort'' 0 = Inr p) \<and>
         requestId_required C = Inr True \<and> bool_or C ''auth.simple.enable'' False = Inr False
     | False \<Rightarrow> profile = ''development'' \<and>
         (isLoopbackHost (string_or C ''osp.web.server.host'' []) \<or>
          string_or C ''osp.web.authServiceName'' [] \<noteq> [] \<and> (\<exists>p > 0. int_or C ''osp.web.server.securePort'' 0 = Inr p))"
    using checked
  proof
    assume "profile = ''production'' \<and> production_checks C = Inr []"
    then show ?thesis
      using required wf by (auto simp: production_checks_def rbind_clean present_def not_le)
  next
    assume "profile = ''development'' \<and> development_check C = Inr []"
    then show ?thesis by (auto simp: development_check_def rbind_clean present_def not_le)
  qed
  then show ?thesis using s wf unfolding wf_store_def profile_def by blast
qed

text \<open>
  In a configuration without issues the enabled devices of all families together have distinct,
  non-empty ids, and so have the enabled protocols, and every enabled instance passes the checks of its
  family.
\<close>

theorem validated_instances_unique:
  assumes "validate C = Inr []" and "fs \<in> {device_families, protocol_families}"
  shows "distinct (map in_id (concat (map (enabled_instances C) fs))) \<and>
    [] \<notin> in_id ` set (concat (map (enabled_instances C) fs)) \<and>
    (\<forall>f \<in> set fs. (\<exists>is. family_instances C f = Inr is) \<and>
       (\<forall>i \<in> set (enabled_instances C f). fm_check f C i = Inr []))"
proof -
  have "\<exists>duplicate. families_check C duplicate {} fs = Inr []"
    using assms validate_parts(3,4) by blast
  then obtain duplicate where "families_check C duplicate {} fs = Inr []" by blast
  from families_check_clean [OF this] show ?thesis by (auto simp del: set_concat)
qed

section \<open>A configuration\<close>

definition sample_number :: "string \<Rightarrow> int option" where
  "sample_number s = (if s \<noteq> [] \<and> list_all isdigit s
     then Some (foldl (\<lambda>n c. n * 10 + (of_char c - 48)) 0 s) else None)"

definition sample_values :: "(string \<times> string) list" where
  "sample_values =
     [(''osp.web.server.host'', ''0.0.0.0''), (''osp.web.server.port'', ''8080''),
      (''osp.web.server.securePort'', ''8443''), (''osp.web.authServiceName'', ''auth''),
      (''pdr.fastdds.domainId'', ''0''), (''pdr.subprocess.shutdownTimeoutMilliseconds'', ''1000''),
      (''pdr.management.authentication.required'', ''true''),
      (''pdr.management.authentication.tokenEnvironment'', ''PDR_TOKEN''),
      (''pdr.management.idempotency.requireRequestId'', ''true''),
      (''security.profile'', ''production''),
      (''pdr.modbus.count'', ''1''), (''pdr.modbus.0.readRetryAttempts'', ''10''),
      (''pdr.xbee.count'', ''1''), (''pdr.xbee.0.port'', ''ttyS0''), (''pdr.xbee.0.sourceAddress'', ''0013A200''),
      (''pdr.xbee.0.analogChannel'', ''9'')]"

definition sample_configuration :: config where
  "sample_configuration =
     \<lparr>cf_raw = map_of sample_values,
      cf_parseBool = (\<lambda>s. if s = ''true'' then Inr True else if s = ''false'' then Inr False else Inl (SyntaxException s)),
      cf_parseInt = (\<lambda>s. case sample_number s of None \<Rightarrow> Inl (SyntaxException s) | Some n \<Rightarrow> Inr n),
      cf_parseUInt = (\<lambda>s. case sample_number s of None \<Rightarrow> Inl (SyntaxException s) | Some n \<Rightarrow> Inr (nat n)),
      cf_parseInt64 = (\<lambda>s. case sample_number s of None \<Rightarrow> Inl (SyntaxException s) | Some n \<Rightarrow> Inr n),
      cf_tryParse = (\<lambda>s d. case sample_number s of None \<Rightarrow> (False, d) | Some n \<Rightarrow> (True, n)),
      cf_environment = (\<lambda>v. if v = ''PDR_TOKEN'' then Some ''abc'' else None),
      cf_uri = (\<lambda>u. Inl (SyntaxException u)), cf_path = (\<lambda>p. p),
      cf_file = (\<lambda>_. \<lparr>tf_isFile = False, tf_size = 0, tf_content = None, tf_permissions = (False, False)\<rparr>),
      cf_what = (\<lambda>_. ''error''), cf_displayText = (\<lambda>_. ''error'')\<rparr>"

lemma sample_configuration_valid: "validate sample_configuration = Inr []"
  by code_simp

theorem validated_configuration_secure_witness:
  "\<exists>s. fromManagementConfiguration (settings_of sample_configuration) = Inr s \<and> ps_required s \<and> ps_entries s \<noteq> []"
proof -
  have "string_or sample_configuration ''security.profile'' ''development'' = ''production''" by code_simp
  then show ?thesis
    using validated_configuration_secure [OF sample_configuration_valid] by auto
qed

theorem validated_instances_unique_witness:
  "distinct (map in_id (concat (map (enabled_instances sample_configuration) device_families))) \<and>
   map in_id (concat (map (enabled_instances sample_configuration) device_families)) =
     [''simulation-1'', ''modbus-1'', ''xbee-sensor-1'']"
proof
  show "distinct (map in_id (concat (map (enabled_instances sample_configuration) device_families)))"
    using validated_instances_unique [OF sample_configuration_valid, of device_families] by simp
qed code_simp

end
