(* ===== verification/Gateway.thy ===== *)
theory Gateway
  imports Configuration_Facts Sensors
begin

text \<open>
  The device gateway (\<open>services/DeviceGateway/src/BundleActivator.cpp\<close>): it turns the indexed instances of
  the configuration into devices, bridges each of them to DDS and registers it as a service. A device
  here is its id and the options it is constructed with. The DDS runtime, the bridges and the service
  registry are operations on a world \<open>'s\<close>, the record \<open>gateway_env\<close>; doubles are what the configuration
  parses, of a type \<open>'d\<close>, and \<open>gateway_libs\<close> holds its parser and the resolver of socket addresses.
\<close>

section \<open>Options of the devices\<close>

record ModbusOptions =
  mo_host :: string
  mo_port :: "16 word"
  mo_unit :: "8 word"
  mo_timeoutMilliseconds :: nat
  mo_readRetryAttempts :: "32 word"
  mo_retryDelayMilliseconds :: nat

record SerialOptions =
  so_loopback :: bool
  so_port :: string
  so_baudRate :: int
  so_parameters :: string
  so_rtscts :: bool
  so_policy :: RecoveryPolicy

record GnssOptions =
  go_loopback :: bool
  go_port :: string
  go_baudRate :: int
  go_policy :: RecoveryPolicy

record GpioOptions =
  gp_pin :: nat
  gp_output :: bool
  gp_sysfsRoot :: string
  gp_manageExport :: bool
  gp_exportTimeout :: nat

datatype 'd device_options = Simulated | Modbus ModbusOptions | Serial SerialOptions | Gnss GnssOptions
  | Gpio GpioOptions | XBeeSensor XBeeOptions | CanSensor "'d CanOptions" | Led string

record 'd device =
  dv_id :: string
  dv_options :: "'d device_options"

record 'd gateway_libs =
  gl_resolve :: "string \<Rightarrow> 16 word \<Rightarrow> unit res"
  gl_parseDouble :: "string \<Rightarrow> 'd res"
  gl_one :: 'd
  gl_zero :: 'd

definition unsupported :: "IndexedInstance \<Rightarrow> string \<Rightarrow> string \<Rightarrow> exc" where
  "unsupported i name value = InvalidArgument (poco_message (''Unsupported '' @ key_of i name) value)"

definition transport_of :: "config \<Rightarrow> IndexedInstance \<Rightarrow> string \<Rightarrow> bool res" where
  "transport_of C i proper =
     (let transport = string_or C (key_of i ''transport'') proper in
      if transport \<noteq> proper \<and> transport \<noteq> ''loopback'' then Inl (unsupported i ''transport'' transport)
      else Inr (transport = ''loopback''))"

definition port_of :: "config \<Rightarrow> IndexedInstance \<Rightarrow> bool \<Rightarrow> string" where
  "port_of C i loopback = string_or C (key_of i ''port'') (if loopback then in_id i else [])"

definition modbus_options :: "config \<Rightarrow> IndexedInstance \<Rightarrow> ModbusOptions res" where
  "modbus_options C i =
     rbind (uint_or C (key_of i ''port'') 502) (\<lambda>port.
     rbind (uint_or C (key_of i ''unitId'') 1) (\<lambda>unitId.
     rbind (uint_or C (key_of i ''timeoutMilliseconds'') 2000) (\<lambda>timeout.
     rbind (uint_or C (key_of i ''readRetryAttempts'') 1) (\<lambda>attempts.
     rbind (uint_or C (key_of i ''retryDelayMilliseconds'') 50) (\<lambda>delay.
       Inr \<lparr>mo_host = string_or C (key_of i ''host'') ''127.0.0.1'', mo_port = of_nat port, mo_unit = of_nat unitId,
            mo_timeoutMilliseconds = timeout, mo_readRetryAttempts = of_nat attempts,
            mo_retryDelayMilliseconds = delay\<rparr>)))))"

text \<open>The recovery policies; the serial device has no notion of stale data.\<close>

definition policy_of :: "config \<Rightarrow> IndexedInstance \<Rightarrow> string \<Rightarrow> nat res \<Rightarrow> RecoveryPolicy res" where
  "policy_of C i timeoutName stale =
     rbind (bool_or C (key_of i ''reconnectEnabled'') True) (\<lambda>enabled.
     rbind (uint_or C (key_of i ''reconnectDelayMilliseconds'') 250) (\<lambda>delay.
     rbind (uint_or C (key_of i timeoutName) 250) (\<lambda>timeout.
     rbind stale (\<lambda>staleAfter.
       Inr \<lparr>rp_enabled = enabled, rp_reconnectDelay = delay, rp_readTimeout = timeout, rp_staleAfter = staleAfter\<rparr>))))"

definition serial_options :: "config \<Rightarrow> IndexedInstance \<Rightarrow> SerialOptions res" where
  "serial_options C i =
     rbind (transport_of C i ''port'') (\<lambda>loopback.
     rbind (int_or C (key_of i ''baudRate'') 115200) (\<lambda>baudRate.
     let flowControl = string_or C (key_of i ''flowControl'') ''none'' in
     if flowControl \<noteq> ''none'' \<and> flowControl \<noteq> ''rtscts'' then Inl (unsupported i ''flowControl'' flowControl)
     else rbind (policy_of C i ''readTimeoutMilliseconds'' (Inr 0)) (\<lambda>policy.
       Inr \<lparr>so_loopback = loopback, so_port = port_of C i loopback, so_baudRate = baudRate,
            so_parameters = string_or C (key_of i ''parameters'') ''8N1'', so_rtscts = (flowControl = ''rtscts''),
            so_policy = policy\<rparr>)))"

definition gnss_options :: "config \<Rightarrow> IndexedInstance \<Rightarrow> GnssOptions res" where
  "gnss_options C i =
     rbind (transport_of C i ''port'') (\<lambda>loopback.
     rbind (int_or C (key_of i ''baudRate'') 9600) (\<lambda>baudRate.
     rbind (policy_of C i ''readTimeoutMilliseconds'' (uint_or C (key_of i ''staleAfterMilliseconds'') 5000)) (\<lambda>policy.
       Inr \<lparr>go_loopback = loopback, go_port = port_of C i loopback, go_baudRate = baudRate, go_policy = policy\<rparr>)))"

definition quoted :: "string \<Rightarrow> string" where
  "quoted s = CHR 0x27 # s @ [CHR 0x27]"

definition gpio_options :: "config \<Rightarrow> IndexedInstance \<Rightarrow> GpioOptions res" where
  "gpio_options C i =
     rbind (case cf_raw C (key_of i ''pin'') of
         None \<Rightarrow> Inl (NotFoundException (key_of i ''pin'')) | Some s \<Rightarrow> cf_parseUInt C s) (\<lambda>pin.
     let direction = string_or C (key_of i ''direction'') ''in'' in
     if direction \<noteq> ''in'' \<and> direction \<noteq> ''out''
       then Inl (InvalidArgument (key_of i ''direction'' @ '' must be '' @ quoted ''in'' @ '' or '' @ quoted ''out''))
     else rbind (bool_or C (key_of i ''manageExport'') True) (\<lambda>manageExport.
          rbind (uint_or C (key_of i ''exportTimeoutMilliseconds'') 1000) (\<lambda>timeout.
       Inr \<lparr>gp_pin = pin, gp_output = (direction = ''out''),
            gp_sysfsRoot = string_or C (key_of i ''sysfsRoot'') ''/sys/class/gpio'',
            gp_manageExport = manageExport, gp_exportTimeout = timeout\<rparr>)))"

definition gpio_id :: "config \<Rightarrow> IndexedInstance \<Rightarrow> nat \<Rightarrow> string" where
  "gpio_id C i pin = (if in_legacy i \<and> \<not> hasProperty C (key_of i ''id'') then ''gpio-'' @ decimal pin else in_id i)"

definition conversion_of :: "string \<Rightarrow> Conversion option" where
  "conversion_of s =
     (if s = ''raw'' then Some Raw else if s = ''millivolts'' then Some Millivolts
      else if s = ''temperature'' then Some TemperatureCelsius
      else if s = ''humidity'' then Some RelativeHumidity else None)"

definition xbee_options :: "config \<Rightarrow> IndexedInstance \<Rightarrow> XBeeOptions res" where
  "xbee_options C i =
     rbind (transport_of C i ''port'') (\<lambda>loopback.
     rbind (int_or C (key_of i ''baudRate'') 9600) (\<lambda>baudRate.
     rbind (bool_or C (key_of i ''escapedApiMode'') False) (\<lambda>escaped.
     rbind (case cf_raw C (key_of i ''sourceAddress'') of
         None \<Rightarrow> Inl (NotFoundException (key_of i ''sourceAddress'')) | Some s \<Rightarrow> stoull 16 s) (\<lambda>(address, _).
     rbind (uint_or C (key_of i ''analogChannel'') 0) (\<lambda>channel.
     let conversion = string_or C (key_of i ''conversion'') ''raw'' in
     case conversion_of conversion of
       None \<Rightarrow> Inl (unsupported i ''conversion'' conversion)
     | Some c \<Rightarrow>
       rbind (policy_of C i ''receiveTimeoutMilliseconds'' (uint_or C (key_of i ''staleAfterMilliseconds'') 5000)) (\<lambda>policy.
       Inr \<lparr>xo_loopback = loopback, xo_serialPort = port_of C i loopback, xo_baudRate = baudRate,
            xo_escapedApiMode = escaped, xo_sourceAddress = address, xo_analogChannel = channel,
            xo_physicalQuantity = string_or C (key_of i ''physicalQuantity'') ''raw'',
            xo_physicalUnit = string_or C (key_of i ''physicalUnit'') ''count'',
            xo_conversion = c, xo_policy = policy\<rparr>))))))"

definition frame_id_of :: "config \<Rightarrow> IndexedInstance \<Rightarrow> (32 word \<times> bool) res" where
  "frame_id_of C i =
     rbind (stoull 0 (string_or C (key_of i ''frameId'') ''0'')) (\<lambda>(frameId, _).
     if 0x1FFFFFFF < frameId then Inl (InvalidArgument (key_of i ''frameId'' @ '' exceeds 29-bit CAN identifier''))
     else rbind (bool_or C (key_of i ''extended'') False) (\<lambda>extended.
       if \<not> extended \<and> 0x7FF < frameId
         then Inl (InvalidArgument (key_of i ''frameId'' @ '' exceeds 11-bit standard CAN identifier''))
       else Inr (of_int frameId, extended)))"

definition double_or :: "'d gateway_libs \<Rightarrow> config \<Rightarrow> string \<Rightarrow> 'd \<Rightarrow> 'd res" where
  "double_or L C key d = (case cf_raw C key of None \<Rightarrow> Inr d | Some s \<Rightarrow> gl_parseDouble L s)"

definition can_options :: "'d gateway_libs \<Rightarrow> config \<Rightarrow> IndexedInstance \<Rightarrow> 'd CanOptions res" where
  "can_options L C i =
     rbind (transport_of C i ''socketcan'') (\<lambda>loopback.
     rbind (frame_id_of C i) (\<lambda>(frameId, extended).
     rbind (uint_or C (key_of i ''bitOffset'') 0) (\<lambda>bitOffset.
     rbind (uint_or C (key_of i ''bitLength'') 1) (\<lambda>bitLength.
     rbind (bool_or C (key_of i ''signed'') False) (\<lambda>signedValue.
     rbind (double_or L C (key_of i ''factor'') (gl_one L)) (\<lambda>factor.
     rbind (double_or L C (key_of i ''offset'') (gl_zero L)) (\<lambda>offset.
     rbind (policy_of C i ''receiveTimeoutMilliseconds'' (uint_or C (key_of i ''staleAfterMilliseconds'') 2000)) (\<lambda>policy.
       Inr \<lparr>co_loopback = loopback, co_interfaceName = string_or C (key_of i ''interface'') ''can0'',
            co_frameId = frameId, co_extended = extended, co_bitOffset = bitOffset, co_bitLength = bitLength,
            co_bigEndian = (string_or C (key_of i ''bitOrder'') ''little'' = ''big''), co_signedValue = signedValue,
            co_factor = factor, co_offset = offset,
            co_physicalQuantity = string_or C (key_of i ''physicalQuantity'') ''raw'',
            co_physicalUnit = string_or C (key_of i ''physicalUnit'') ''count'', co_policy = policy\<rparr>))))))))"

section \<open>Construction\<close>

definition SerialPortDevice_new :: "string \<Rightarrow> SerialOptions \<Rightarrow> 'd device res" where
  "SerialPortDevice_new i opts =
     (if i = [] then Inl (InvalidArgument ''serial device id must not be empty'')
      else if rp_readTimeout (so_policy opts) = 0
        then Inl (InvalidArgument ''serial reconnect delay must be non-negative and read timeout positive'')
      else Inr \<lparr>dv_id = i, dv_options = Serial opts\<rparr>)"

definition NmeaGnssDevice_new :: "string \<Rightarrow> GnssOptions \<Rightarrow> 'd device res" where
  "NmeaGnssDevice_new i opts =
     (if i = [] then Inl (InvalidArgument ''GNSS device id must not be empty'')
      else if \<not> policy_ok (go_policy opts) then Inl (InvalidArgument ''GNSS recovery timeouts are invalid'')
      else Inr \<lparr>dv_id = i, dv_options = Gnss opts\<rparr>)"

definition LinuxSysfsGpioDevice_new :: "string \<Rightarrow> GpioOptions \<Rightarrow> 'd device res" where
  "LinuxSysfsGpioDevice_new i opts =
     (if i = [] then Inl (InvalidArgument ''GPIO device id must not be empty'')
      else Inr \<lparr>dv_id = i, dv_options = Gpio opts\<rparr>)"

text \<open>The conversion scale keeps its default, which is positive.\<close>

definition XBeeAnalogSensor_new :: "string \<Rightarrow> XBeeOptions \<Rightarrow> 'd device res" where
  "XBeeAnalogSensor_new i opts =
     (if i = [] then Inl (InvalidArgument ''XBee sensor id must not be empty'')
      else if 8 \<le> xo_analogChannel opts then Inl (InvalidArgument ''XBee analog channel must be in range 0..7'')
      else if \<not> policy_ok (xo_policy opts) then Inl (InvalidArgument ''XBee recovery timeouts are invalid'')
      else Inr \<lparr>dv_id = i, dv_options = XBeeSensor opts\<rparr>)"

definition CanSignalSensor_new :: "string \<Rightarrow> 'd CanOptions \<Rightarrow> 'd device res" where
  "CanSignalSensor_new i opts =
     (if i = [] then Inl (InvalidArgument ''CAN sensor id must not be empty'')
      else if \<not> policy_ok (co_policy opts) then Inl (InvalidArgument ''CAN recovery timeouts are invalid'')
      else Inr \<lparr>dv_id = i, dv_options = CanSensor opts\<rparr>)"

definition LinuxSysfsLedDevice_new :: "string \<Rightarrow> string \<Rightarrow> 'd device res" where
  "LinuxSysfsLedDevice_new i path =
     (if i = [] then Inl (InvalidArgument ''LED device id must not be empty'')
      else Inr \<lparr>dv_id = i, dv_options = Led path\<rparr>)"

definition led_id :: "config \<Rightarrow> IndexedInstance \<Rightarrow> string" where
  "led_id C i = (if in_legacy i \<and> \<not> hasProperty C (key_of i ''id'') then ''status-led'' else in_id i)"

definition led_path :: "config \<Rightarrow> IndexedInstance \<Rightarrow> string res" where
  "led_path C i = (case cf_raw C (key_of i ''path'') of
     None \<Rightarrow> Inl (NotFoundException (key_of i ''path'')) | Some s \<Rightarrow> Inr s)"

definition build_simulation :: "config \<Rightarrow> IndexedInstance \<Rightarrow> 'd device res" where
  "build_simulation C i = Inr \<lparr>dv_id = in_id i, dv_options = Simulated\<rparr>"

definition build_modbus :: "'d gateway_libs \<Rightarrow> config \<Rightarrow> IndexedInstance \<Rightarrow> 'd device res" where
  "build_modbus L C i =
     rbind (modbus_options C i) (\<lambda>opts.
     rbind (gl_resolve L (mo_host opts) (mo_port opts)) (\<lambda>_.
       Inr \<lparr>dv_id = in_id i, dv_options = Modbus opts\<rparr>))"

definition build_serial :: "config \<Rightarrow> IndexedInstance \<Rightarrow> 'd device res" where
  "build_serial C i = rbind (serial_options C i) (SerialPortDevice_new (in_id i))"

definition build_gnss :: "config \<Rightarrow> IndexedInstance \<Rightarrow> 'd device res" where
  "build_gnss C i = rbind (gnss_options C i) (NmeaGnssDevice_new (in_id i))"

definition build_gpio :: "config \<Rightarrow> IndexedInstance \<Rightarrow> 'd device res" where
  "build_gpio C i = rbind (gpio_options C i) (\<lambda>opts. LinuxSysfsGpioDevice_new (gpio_id C i (gp_pin opts)) opts)"

definition build_xbee :: "config \<Rightarrow> IndexedInstance \<Rightarrow> 'd device res" where
  "build_xbee C i = rbind (xbee_options C i) (XBeeAnalogSensor_new (in_id i))"

definition build_can :: "'d gateway_libs \<Rightarrow> config \<Rightarrow> IndexedInstance \<Rightarrow> 'd device res" where
  "build_can L C i = rbind (can_options L C i) (CanSignalSensor_new (in_id i))"

definition build_led :: "config \<Rightarrow> IndexedInstance \<Rightarrow> 'd device res" where
  "build_led C i = rbind (led_path C i) (LinuxSysfsLedDevice_new (led_id C i))"

section \<open>The gateway\<close>

record 's gateway_env =
  ge_runtime_start :: "nat \<Rightarrow> ('s, unit) io"
  ge_runtime_stop :: "'s \<Rightarrow> 's"
  ge_bridge_start :: "string \<Rightarrow> ('s, unit) io"
  ge_bridge_stop :: "string \<Rightarrow> 's \<Rightarrow> 's"
  ge_register :: "string \<Rightarrow> bool \<Rightarrow> ('s, nat) io"
  ge_unregister :: "nat \<Rightarrow> ('s, unit) io"

record ('d, 's) gateway =
  gw_world :: 's
  gw_services :: "nat list"
  gw_runtime :: bool
  gw_devices :: "'d device list"
  gw_deviceIds :: "string set"
  gw_bridges :: "string list"

definition addDevice :: "'s gateway_env \<Rightarrow> 'd device \<Rightarrow> bool \<Rightarrow> (('d, 's) gateway, unit) io" where
  "addDevice E device required g =
     (if dv_id device \<in> gw_deviceIds g
        then (g, Inl (InvalidArgument (poco_message ''Duplicate device id'' (dv_id device))))
      else case ge_bridge_start E (dv_id device) (gw_world g) of
          (w, Inl e) \<Rightarrow> (g\<lparr>gw_world := w\<rparr>, Inl e)
        | (w, Inr _) \<Rightarrow> (case ge_register E (''pdr.device.'' @ dv_id device) required w of
              (w1, Inl e) \<Rightarrow> (g\<lparr>gw_world := ge_bridge_stop E (dv_id device) w1\<rparr>, Inl e)
            | (w1, Inr service) \<Rightarrow>
                (g\<lparr>gw_world := w1, gw_deviceIds := insert (dv_id device) (gw_deviceIds g),
                   gw_devices := gw_devices g @ [device], gw_bridges := gw_bridges g @ [dv_id device],
                   gw_services := gw_services g @ [service]\<rparr>, Inr ())))"

definition addConfiguredDevice ::
    "'s gateway_env \<Rightarrow> config \<Rightarrow> IndexedInstance \<Rightarrow> 'd device \<Rightarrow> (('d, 's) gateway, unit) io" where
  "addConfiguredDevice E C i device g =
     (case bool_or C (key_of i ''required'') True of
        Inl e \<Rightarrow> (g, Inl e)
      | Inr required \<Rightarrow> addDevice E device required g)"

fun add_instances ::
    "'s gateway_env \<Rightarrow> config \<Rightarrow> (config \<Rightarrow> IndexedInstance \<Rightarrow> 'd device res) \<Rightarrow> IndexedInstance list \<Rightarrow>
      (('d, 's) gateway, unit) io" where
  "add_instances E C build [] = ireturn ()"
| "add_instances E C build (i # is) =
     (if \<not> in_enabled i then add_instances E C build is
      else case build C i of
          Inl e \<Rightarrow> ithrow e
        | Inr device \<Rightarrow> ibind (addConfiguredDevice E C i device) (\<lambda>_. add_instances E C build is))"

fun add_families ::
    "'s gateway_env \<Rightarrow> config \<Rightarrow> (family \<times> (config \<Rightarrow> IndexedInstance \<Rightarrow> 'd device res)) list \<Rightarrow>
      (('d, 's) gateway, unit) io" where
  "add_families E C [] = ireturn ()"
| "add_families E C ((f, build) # fs) =
     (case family_instances C f of
        Inl e \<Rightarrow> ithrow e
      | Inr is \<Rightarrow> ibind (add_instances E C build is) (\<lambda>_. add_families E C fs))"

definition gateway_families ::
    "'d gateway_libs \<Rightarrow> (family \<times> (config \<Rightarrow> IndexedInstance \<Rightarrow> 'd device res)) list" where
  "gateway_families L = zip device_families
     [build_simulation, build_modbus L, build_serial, build_gnss, build_gpio, build_xbee,
      build_can L, build_led]"

definition gateway_start ::
    "'s gateway_env \<Rightarrow> 'd gateway_libs \<Rightarrow> config \<Rightarrow> (('d, 's) gateway, unit) io" where
  "gateway_start E L C g =
     (case uint_or C ''pdr.fastdds.domainId'' 0 of
        Inl e \<Rightarrow> (g, Inl e)
      | Inr domainId \<Rightarrow> (case ge_runtime_start E domainId (gw_world g) of
            (w, Inl e) \<Rightarrow> (g\<lparr>gw_world := w, gw_runtime := True\<rparr>, Inl e)
          | (w, Inr _) \<Rightarrow> add_families E C (gateway_families L)
              (g\<lparr>gw_world := w, gw_runtime := True\<rparr>)))"

fun stop_bridges :: "'s gateway_env \<Rightarrow> string list \<Rightarrow> 's \<Rightarrow> 's" where
  "stop_bridges E [] w = w"
| "stop_bridges E (b # bs) w = stop_bridges E bs (ge_bridge_stop E b w)"

fun unregister_services :: "'s gateway_env \<Rightarrow> nat list \<Rightarrow> ('s, unit) io" where
  "unregister_services E [] = ireturn ()"
| "unregister_services E (s # ss) = ibind (ge_unregister E s) (\<lambda>_. unregister_services E ss)"

definition gateway_stop :: "'s gateway_env \<Rightarrow> (('d, 's) gateway, unit) io" where
  "gateway_stop E g =
     (case unregister_services E (gw_services g) (stop_bridges E (gw_bridges g) (gw_world g)) of
        (w, Inl e) \<Rightarrow> (g\<lparr>gw_world := w\<rparr>, Inl e)
      | (w, Inr _) \<Rightarrow>
          (g\<lparr>gw_world := (if gw_runtime g then ge_runtime_stop E w else w), gw_services := [], gw_bridges := [],
             gw_devices := [], gw_deviceIds := {}, gw_runtime := False\<rparr>, Inr ()))"

section \<open>The gateway's tables\<close>

definition gateway_wf :: "('d, 's) gateway \<Rightarrow> bool" where
  "gateway_wf g \<longleftrightarrow> gw_deviceIds g = set (map dv_id (gw_devices g)) \<and> distinct (map dv_id (gw_devices g)) \<and>
     gw_bridges g = map dv_id (gw_devices g) \<and> length (gw_services g) = length (gw_devices g)"

definition gateway_new :: "'s \<Rightarrow> ('d, 's) gateway" where
  "gateway_new w = \<lparr>gw_world = w, gw_services = [], gw_runtime = False, gw_devices = [], gw_deviceIds = {}, gw_bridges = []\<rparr>"

lemma gateway_wf_new [simp]: "gateway_wf (gateway_new w)"
  by (simp add: gateway_wf_def gateway_new_def)

text \<open>A call that fails leaves the tables as they were; one that returns has added one device.\<close>

lemma addDevice_effect:
  assumes "addDevice E d required g = (g', r)"
  shows "case r of
      Inl _ \<Rightarrow> g'\<lparr>gw_world := gw_world g\<rparr> = g
    | Inr _ \<Rightarrow> dv_id d \<notin> gw_deviceIds g \<and> (\<exists>service. g'\<lparr>gw_world := gw_world g\<rparr> =
        g\<lparr>gw_deviceIds := insert (dv_id d) (gw_deviceIds g), gw_devices := gw_devices g @ [d],
          gw_bridges := gw_bridges g @ [dv_id d], gw_services := gw_services g @ [service]\<rparr>)"
  using assms by (auto simp: addDevice_def split: if_splits prod.splits sum.splits)

lemma gateway_wf_world: "gateway_wf (g\<lparr>gw_world := w\<rparr>) = gateway_wf g"
  by (simp add: gateway_wf_def)

lemma addDevice_runtime: "addDevice E d required g = (g', r) \<Longrightarrow> gw_runtime g' = gw_runtime g"
  by (auto simp: addDevice_def split: if_splits prod.splits sum.splits)

lemma addDevice_wf:
  assumes "addDevice E d required g = (g', r)" and "gateway_wf g"
  shows "gateway_wf g' \<and> gw_devices g' = gw_devices g @ (case r of Inl _ \<Rightarrow> [] | Inr _ \<Rightarrow> [d])"
proof -
  define h where "h = g'\<lparr>gw_world := gw_world g\<rparr>"
  have tables: "gateway_wf g' = gateway_wf h" "gw_devices g' = gw_devices h"
    by (simp_all add: h_def gateway_wf_world)
  show ?thesis
    using addDevice_effect [OF assms(1)] assms(2) unfolding tables h_def [symmetric]
    by (cases r) (auto simp: gateway_wf_def)
qed

lemma addConfiguredDevice_wf:
  assumes "addConfiguredDevice E C i d g = (g', r)" and "gateway_wf g"
  shows "gateway_wf g'"
  using assms by (auto simp: addConfiguredDevice_def dest: addDevice_wf split: sum.splits)

lemma add_instances_wf:
  "add_instances E C build is g = (g', r) \<Longrightarrow> gateway_wf g \<Longrightarrow> gateway_wf g'"
proof (induction "is" arbitrary: g)
  case (Cons i "is")
  show ?case
  proof (cases "in_enabled i")
    case True
    then show ?thesis
      using Cons by (cases "build C i") (auto simp: ibind_cases dest: addConfiguredDevice_wf)
  qed (use Cons in simp)
qed simp

lemma add_families_wf:
  "add_families E C fs g = (g', r) \<Longrightarrow> gateway_wf g \<Longrightarrow> gateway_wf g'"
proof (induction fs arbitrary: g)
  case (Cons f fs)
  obtain fam build where f: "f = (fam, build)" by fastforce
  show ?case
    using Cons by (cases "family_instances C fam") (auto simp: f ibind_cases dest: add_instances_wf)
qed simp

lemma gateway_start_wf:
  assumes "gateway_start E L C g = (g', r)" and "gateway_wf g"
  shows "gateway_wf g'"
proof -
  have runtime: "gateway_wf (g\<lparr>gw_world := w, gw_runtime := True\<rparr>)" for w
    using assms(2) by (simp add: gateway_wf_def)
  show ?thesis
    using assms runtime
    by (auto simp: gateway_start_def split: sum.splits prod.splits dest: add_families_wf)
qed

text \<open>
  However the start of the gateway ends, with all devices added or with the exception of any library
  call, configuration value or constructor in between, its tables agree: the ids it remembers are those of
  the devices it keeps, no two devices share one, and every device has its bridge and its service in the
  same position. Stopping the gateway then clears every table, unless unregistering a service fails, which
  keeps them.
\<close>

theorem gateway_tables_agree:
  "case gateway_start E L C (gateway_new w) of
     (g, _) \<Rightarrow> gateway_wf g \<and>
       (case gateway_stop E g of
          (g', Inl _) \<Rightarrow> g' = g\<lparr>gw_world := gw_world g'\<rparr>
        | (g', Inr _) \<Rightarrow> g' = gateway_new (gw_world g'))"
proof -
  obtain g r where start: "gateway_start E L C (gateway_new w) = (g, r)" by fastforce
  have wf: "gateway_wf g" using gateway_start_wf [OF start] by simp
  have "case gateway_stop E g of
          (g', Inl _) \<Rightarrow> g' = g\<lparr>gw_world := gw_world g'\<rparr>
        | (g', Inr _) \<Rightarrow> g' = gateway_new (gw_world g')"
    by (auto simp: gateway_stop_def gateway_new_def split: prod.splits sum.splits)
  with wf start show ?thesis by simp
qed

section \<open>Starting on a validated configuration\<close>

text \<open>Libraries of which no call fails.\<close>

definition env_works :: "'s gateway_env \<Rightarrow> bool" where
  "env_works E \<longleftrightarrow> (\<forall>n w. snd (ge_runtime_start E n w) = Inr ()) \<and> (\<forall>b w. snd (ge_bridge_start E b w) = Inr ()) \<and>
     (\<forall>n b w. \<exists>service. snd (ge_register E n b w) = Inr service)"

text \<open>The builder gives every enabled instance a device with the id of the instance.\<close>

definition builds :: "config \<Rightarrow> (config \<Rightarrow> IndexedInstance \<Rightarrow> 'd device res) \<Rightarrow> IndexedInstance list \<Rightarrow> bool" where
  "builds C build is \<longleftrightarrow> (\<forall>i \<in> set is. (\<exists>d. build C i = Inr d \<and> dv_id d = in_id i) \<and>
     (\<exists>required. bool_or C (key_of i ''required'') True = Inr required))"

lemma addDevice_works:
  assumes "env_works E" and "dv_id d \<notin> gw_deviceIds g"
  shows "\<exists>g'. addDevice E d required g = (g', Inr ())"
proof -
  obtain w where b: "ge_bridge_start E (dv_id d) (gw_world g) = (w, Inr ())"
    using assms(1) by (metis env_works_def prod.collapse)
  obtain w1 service where "ge_register E (''pdr.device.'' @ dv_id d) required w = (w1, Inr service)"
    using assms(1) by (metis env_works_def prod.collapse)
  with b assms(2) show ?thesis by (simp add: addDevice_def)
qed

lemma add_instances_works:
  assumes "env_works E"
  shows "gateway_wf g \<Longrightarrow> builds C build (filter in_enabled is) \<Longrightarrow>
    distinct (map dv_id (gw_devices g) @ map in_id (filter in_enabled is)) \<Longrightarrow>
    \<exists>g'. add_instances E C build is g = (g', Inr ()) \<and> gateway_wf g' \<and>
      map dv_id (gw_devices g') = map dv_id (gw_devices g) @ map in_id (filter in_enabled is)"
proof (induction "is" arbitrary: g)
  case (Cons i "is")
  show ?case
  proof (cases "in_enabled i")
    case True
    then obtain d required where d: "build C i = Inr d" "dv_id d = in_id i"
      and req: "bool_or C (key_of i ''required'') True = Inr required"
      using Cons.prems(2) by (auto simp: builds_def)
    have "dv_id d \<notin> gw_deviceIds g" using Cons.prems(1,3) True d by (auto simp: gateway_wf_def)
    then obtain g1 where add: "addDevice E d required g = (g1, Inr ())"
      using addDevice_works [OF assms] by blast
    from addDevice_wf [OF add Cons.prems(1)]
    have g1: "gateway_wf g1" "map dv_id (gw_devices g1) = map dv_id (gw_devices g) @ [in_id i]"
      by (simp_all add: d)
    have rest: "builds C build (filter in_enabled is)"
      "distinct (map dv_id (gw_devices g1) @ map in_id (filter in_enabled is))"
      using Cons.prems(2,3) True g1 by (auto simp: builds_def)
    obtain g' where "add_instances E C build is g1 = (g', Inr ())" "gateway_wf g'"
      "map dv_id (gw_devices g') = map dv_id (gw_devices g1) @ map in_id (filter in_enabled is)"
      using Cons.IH [OF g1(1) rest] by blast
    then show ?thesis
      using True d add req g1 by (simp add: addConfiguredDevice_def ibind_def)
  qed (use Cons in simp)
qed simp

lemma add_families_works:
  assumes "env_works E"
  shows "gateway_wf g \<Longrightarrow>
    \<forall>(f, build) \<in> set fs. (\<exists>is. family_instances C f = Inr is) \<and> builds C build (enabled_instances C f) \<Longrightarrow>
    distinct (map dv_id (gw_devices g) @ map in_id (concat (map (\<lambda>(f, _). enabled_instances C f) fs))) \<Longrightarrow>
    \<exists>g'. add_families E C fs g = (g', Inr ()) \<and> gateway_wf g' \<and>
      map dv_id (gw_devices g') = map dv_id (gw_devices g) @ map in_id (concat (map (\<lambda>(f, _). enabled_instances C f) fs))"
proof (induction fs arbitrary: g)
  case (Cons fb fs)
  obtain f build where fb: "fb = (f, build)" by fastforce
  obtain "is" where fam: "family_instances C f = Inr is" using Cons.prems(2) fb by auto
  have en: "enabled_instances C f = filter in_enabled is" by (simp add: enabled_instances_def fam)
  have "builds C build (filter in_enabled is)" using Cons.prems(2) fb en by auto
  moreover have "distinct (map dv_id (gw_devices g) @ map in_id (filter in_enabled is))"
    using Cons.prems(3) fb en by auto
  ultimately obtain g1 where g1: "add_instances E C build is g = (g1, Inr ())" "gateway_wf g1"
      "map dv_id (gw_devices g1) = map dv_id (gw_devices g) @ map in_id (filter in_enabled is)"
    using add_instances_works [OF assms Cons.prems(1)] by blast
  have "distinct (map dv_id (gw_devices g1) @ map in_id (concat (map (\<lambda>(f, _). enabled_instances C f) fs)))"
    using Cons.prems(3) fb en g1(3) by auto
  then obtain g' where "add_families E C fs g1 = (g', Inr ())" "gateway_wf g'"
      "map dv_id (gw_devices g') = map dv_id (gw_devices g1) @ map in_id (concat (map (\<lambda>(f, _). enabled_instances C f) fs))"
    using Cons.IH [OF g1(2)] Cons.prems(2) by auto
  then show ?case using g1 fb fam en by (auto simp: ibind_def)
qed simp

lemma add_instances_runtime:
  "add_instances E C build is g = (g', r) \<Longrightarrow> gw_runtime g' = gw_runtime g"
proof (induction "is" arbitrary: g)
  case (Cons i "is")
  show ?case
  proof (cases "in_enabled i")
    case True
    then show ?thesis
      using Cons
      by (cases "build C i") (auto simp: ibind_cases addConfiguredDevice_def dest: addDevice_runtime split: sum.splits)
  qed (use Cons in simp)
qed simp

lemma add_families_runtime:
  "add_families E C fs g = (g', r) \<Longrightarrow> gw_runtime g' = gw_runtime g"
proof (induction fs arbitrary: g)
  case (Cons f fs)
  obtain fam build where f: "f = (fam, build)" by fastforce
  show ?case
    using Cons by (cases "family_instances C fam") (auto simp: f ibind_cases dest: add_instances_runtime)
qed simp

lemma gateway_families_fst: "map (\<lambda>(f, _). enabled_instances C f) (gateway_families L) = map (enabled_instances C) device_families"
  by (simp add: gateway_families_def device_families_def)

lemma gateway_families_member: "(f, build) \<in> set (gateway_families L) \<Longrightarrow> f \<in> set device_families"
  by (auto simp: gateway_families_def dest: set_zip_leftD)


section \<open>Modbus instances\<close>

text \<open>Where both parsers of a number accept a text, they read the same number.\<close>

definition number_parsers_agree :: "config \<Rightarrow> bool" where
  "number_parsers_agree C \<longleftrightarrow>
     (\<forall>s v n. cf_tryParse C s 0 = (True, v) \<longrightarrow> 0 \<le> v \<longrightarrow> cf_parseUInt C s = Inr n \<longrightarrow> n = nat v)"

lemma uint_or_range:
  assumes "integerRange C key lo hi False = Inr []" and "number_parsers_agree C" and "0 \<le> lo"
    and "uint_or C key d = Inr n" and "lo \<le> int d \<and> int d \<le> hi"
  shows "lo \<le> int n \<and> int n \<le> hi"
proof (cases "cf_raw C key")
  case None
  then show ?thesis using assms(4,5) by (simp add: uint_or_def)
next
  case (Some s)
  then obtain v where v: "cf_tryParse C s 0 = (True, v)" "lo \<le> v" "v \<le> hi"
    using assms(1) by (auto simp: integerRange_clean)
  have "cf_parseUInt C s = Inr n" using assms(4) Some by (simp add: uint_or_def)
  then have "n = nat v" using assms(2,3) v unfolding number_parsers_agree_def by (metis order_trans)
  then show ?thesis using v assms(3) by simp
qed

text \<open>
  An enabled Modbus instance of a configuration without issues gets the port and the unit that were
  configured, neither cut to its width, the port not zero, and a number of read attempts between one and eleven: the
  increment of the configured retries cannot wrap to zero.
\<close>

theorem gateway_modbus_bounds:
  assumes "validate C = Inr []" and "number_parsers_agree C" and "i \<in> set (enabled_instances C modbus_family)"
    and "modbus_options C i = Inr opts"
  shows "uint_or C (key_of i ''port'') 502 = Inr (unat (mo_port opts)) \<and> 1 \<le> unat (mo_port opts) \<and>
    unat (mo_unit opts) \<le> 247 \<and> uint_or C (key_of i ''unitId'') 1 = Inr (unat (mo_unit opts)) \<and>
    unat (mo_readRetryAttempts opts + 1) \<in> {1..11}"
proof -
  have "modbus_check C i = Inr []"
    using families_check_clean [OF validate_parts(3) [OF assms(1)]] assms(3)
    by (simp add: device_families_def modbus_family_def plain_family_def)
  then have ranges: "integerRange C (key_of i ''port'') 1 65535 False = Inr []"
    "integerRange C (key_of i ''unitId'') 0 247 False = Inr []"
    "integerRange C (key_of i ''readRetryAttempts'') 0 10 False = Inr []"
    by (simp_all add: modbus_check_def)
  obtain port unitId attempts where vals: "uint_or C (key_of i ''port'') 502 = Inr port"
    "uint_or C (key_of i ''unitId'') 1 = Inr unitId" "uint_or C (key_of i ''readRetryAttempts'') 1 = Inr attempts"
    and opts: "mo_port opts = of_nat port" "mo_unit opts = of_nat unitId" "mo_readRetryAttempts opts = of_nat attempts"
    using assms(4) by (auto simp: modbus_options_def rbind_eq_Inr)
  have b: "1 \<le> port" "port \<le> 65535" "unitId \<le> 247" "attempts \<le> 10"
    using uint_or_range [OF ranges(1) assms(2) _ vals(1)] uint_or_range [OF ranges(2) assms(2) _ vals(2)]
      uint_or_range [OF ranges(3) assms(2) _ vals(3)] by simp_all
  have "of_nat attempts + 1 = (of_nat (attempts + 1) :: 32 word)" by simp
  moreover have "unat (of_nat (attempts + 1) :: 32 word) = attempts + 1"
    unfolding unsigned_of_nat using b(4) by (simp add: take_bit_nat_eq_self del: of_nat_add of_nat_Suc)
  ultimately have "unat (of_nat attempts + 1 :: 32 word) = attempts + 1" by presburger
  then show ?thesis using b vals by (simp add: opts unsigned_of_nat take_bit_nat_eq_self)
qed

section \<open>Running the gateway\<close>

text \<open>Libraries that work, with the number of registered services as the world.\<close>

definition sample_env :: "nat gateway_env" where
  "sample_env =
     \<lparr>ge_runtime_start = (\<lambda>_. ireturn ()), ge_runtime_stop = (\<lambda>w. w), ge_bridge_start = (\<lambda>_. ireturn ()),
      ge_bridge_stop = (\<lambda>_ w. w), ge_register = (\<lambda>_ _ w. (w + 1, Inr w)), ge_unregister = (\<lambda>_ w. (w - 1, Inr ()))\<rparr>"

definition sample_libs :: "int gateway_libs" where
  "sample_libs = \<lparr>gl_resolve = (\<lambda>_ _. Inr ()), gl_parseDouble = (\<lambda>_. Inr 1), gl_one = 1, gl_zero = 0\<rparr>"

definition repaired_configuration :: config where
  "repaired_configuration = sample_configuration\<lparr>cf_raw := (cf_raw sample_configuration)(''pdr.xbee.0.analogChannel'' \<mapsto> ''3'')\<rparr>"

lemma repaired_configuration_valid: "validate repaired_configuration = Inr []"
  by code_simp

lemma sample_env_works: "env_works sample_env"
  by (simp add: env_works_def sample_env_def)

lemma returns_code: "(\<exists>x. r = Inr x \<and> P x) \<longleftrightarrow> (case r of Inl _ \<Rightarrow> False | Inr x \<Rightarrow> P x)"
  by (cases r) simp_all

lemma returned_code: "(\<exists>x. r = Inr x) \<longleftrightarrow> (case r of Inl _ \<Rightarrow> False | Inr x \<Rightarrow> True)"
  by (cases r) simp_all

lemma repaired_configuration_builds:
  "\<forall>(f, build) \<in> set (gateway_families sample_libs). builds repaired_configuration build (enabled_instances repaired_configuration f)"
proof -
  have "list_all (\<lambda>(f, build). list_all (\<lambda>i.
      (case build repaired_configuration i of Inl _ \<Rightarrow> False | Inr d \<Rightarrow> dv_id d = in_id i) \<and>
      (case bool_or repaired_configuration (key_of i ''required'') True of Inl _ \<Rightarrow> False | Inr _ \<Rightarrow> True))
    (enabled_instances repaired_configuration f)) (gateway_families sample_libs)"
    by code_simp
  then show ?thesis unfolding builds_def returns_code returned_code list_all_iff .
qed


text \<open>
  The validator and the devices disagree on the analog channels of an XBee: a channel from 8 to 15 is
  no issue, but the constructor refuses it. The start of the gateway then fails at that instance, and the
  devices of the families before it stay registered, with their bridges running.
\<close>

theorem validated_gateway_may_fail:
  "validate sample_configuration = Inr [] \<and>
   (case gateway_start sample_env sample_libs sample_configuration (gateway_new 0) of
      (g, r) \<Rightarrow> r = Inl (InvalidArgument ''XBee analog channel must be in range 0..7'') \<and>
        map dv_id (gw_devices g) = [''simulation-1'', ''modbus-1''] \<and>
        gw_bridges g = [''simulation-1'', ''modbus-1''] \<and> gw_services g = [0, 1])"
proof
  show "case gateway_start sample_env sample_libs sample_configuration (gateway_new 0) of
      (g, r) \<Rightarrow> r = Inl (InvalidArgument ''XBee analog channel must be in range 0..7'') \<and>
        map dv_id (gw_devices g) = [''simulation-1'', ''modbus-1''] \<and>
        gw_bridges g = [''simulation-1'', ''modbus-1''] \<and> gw_services g = [0, 1]"
    by code_simp
qed (rule sample_configuration_valid)

lemma sample_parsers_agree: "number_parsers_agree sample_configuration"
  by (auto simp: number_parsers_agree_def sample_configuration_def split: option.splits)

theorem gateway_modbus_bounds_witness:
  "\<exists>i opts. i \<in> set (enabled_instances sample_configuration modbus_family) \<and>
     modbus_options sample_configuration i = Inr opts \<and> unat (mo_readRetryAttempts opts + 1) \<in> {1..11}"
proof -
  have "\<exists>i \<in> set (enabled_instances sample_configuration modbus_family). \<exists>opts. modbus_options sample_configuration i = Inr opts"
    unfolding returned_code list_ex_iff [symmetric] by code_simp
  then obtain i opts where i: "i \<in> set (enabled_instances sample_configuration modbus_family)"
    "modbus_options sample_configuration i = Inr opts"
    by blast
  show ?thesis
    using gateway_modbus_bounds [OF sample_configuration_valid sample_parsers_agree i] i by blast
qed

end
