(* ===== verification/Persistence.thy ===== *)
theory Persistence
  imports Protocol_IO
begin

text \<open>
  Two header-only libraries: schema migrations
  (\<open>platform/persistence/include/PocoDDS/Persistence/Persistence.h\<close>) and the aggregation of health
  reports (\<open>platform/health/include/PocoDDS/Health/Health.h\<close>). What a migration acts on is a world
  \<open>'w\<close>, and its function may throw. A contributor is the report it gives.
\<close>

section \<open>Migrations\<close>

record 'w Migration =
  mg_version :: "32 word"
  mg_description :: string
  mg_up :: "('w, unit) io"

definition mp_add :: "'w Migration list \<Rightarrow> 'w Migration \<Rightarrow> 'w Migration list res" where
  "mp_add plan m =
     (if plan \<noteq> [] \<and> mg_version m \<le> mg_version (List.last plan)
      then Inl (InvalidArgument ''migration versions must be strictly increasing'')
      else Inr (plan @ [m]))"

fun apply_loop :: "'w Migration list \<Rightarrow> 32 word \<Rightarrow> ('w, 32 word) io" where
  "apply_loop [] version = ireturn version"
| "apply_loop (m # ms) version =
     (if mg_version m \<le> version then apply_loop ms version
      else ibind (mg_up m) (\<lambda>_. apply_loop ms (mg_version m)))"

definition mp_apply :: "'w Migration list \<Rightarrow> 32 word \<Rightarrow> ('w, 32 word) io" where
  "mp_apply plan currentVersion = apply_loop plan currentVersion"

text \<open>A plan after a sequence of calls of \<open>add\<close>, a refused one leaving it as it was.\<close>

definition mp_try_add :: "'w Migration list \<Rightarrow> 'w Migration \<Rightarrow> 'w Migration list" where
  "mp_try_add plan m = (case mp_add plan m of Inl _ \<Rightarrow> plan | Inr plan' \<Rightarrow> plan')"

definition increasing :: "'w Migration list \<Rightarrow> bool" where
  "increasing plan \<longleftrightarrow> sorted_wrt (<) (map mg_version plan)"

lemma try_add_increasing: "increasing plan \<Longrightarrow> increasing (mp_try_add plan m)"
proof (cases plan rule: rev_cases)
  case (snoc xs y)
  assume "increasing plan"
  then have xs: "sorted_wrt (<) (map mg_version xs)" "\<forall>x \<in> set xs. mg_version x < mg_version y"
    by (simp_all add: increasing_def snoc sorted_wrt_append)
  show ?thesis
  proof (cases "mg_version m \<le> mg_version y")
    case False
    then have "mg_version y < mg_version m" by simp
    with xs show ?thesis
      by (auto simp: mp_try_add_def mp_add_def increasing_def snoc sorted_wrt_append intro: less_trans)
  qed (use xs in \<open>simp add: mp_try_add_def mp_add_def increasing_def snoc sorted_wrt_append\<close>)
qed (simp add: mp_try_add_def mp_add_def increasing_def)

lemma built_increasing: "increasing (foldl mp_try_add [] ms)"
proof -
  have "increasing (foldl mp_try_add plan ms)" if "increasing plan" for plan
    using that by (induction ms arbitrary: plan) (simp_all add: try_add_increasing)
  then show ?thesis by (simp add: increasing_def)
qed

text \<open>The specification: run some migrations in order, stopping at the first that throws.\<close>

fun run_all :: "'w Migration list \<Rightarrow> ('w, unit) io" where
  "run_all [] = ireturn ()"
| "run_all (m # ms) = ibind (mg_up m) (\<lambda>_. run_all ms)"

definition pending :: "32 word \<Rightarrow> 'w Migration list \<Rightarrow> 'w Migration list" where
  "pending v plan = filter (\<lambda>m. v < mg_version m) plan"

definition newest :: "32 word \<Rightarrow> 'w Migration list \<Rightarrow> 32 word" where
  "newest v plan = foldl max v (map mg_version plan)"

lemma pending_all: "increasing (m # ms) \<Longrightarrow> pending (mg_version m) ms = ms"
  unfolding pending_def by (rule filter_True) (simp add: increasing_def)

lemma pending_older:
  assumes "increasing (m # ms)" "v < mg_version m"
  shows "pending v ms = ms"
  unfolding pending_def using assms by (intro filter_True) (auto simp: increasing_def intro: less_trans)

lemma apply_loop_pending:
  "increasing plan \<Longrightarrow> apply_loop plan v = ibind (run_all (pending v plan)) (\<lambda>_. ireturn (newest v plan))"
proof (induction plan arbitrary: v)
  case Nil
  then show ?case by (rule_tac ext) (simp add: pending_def newest_def ibind_def)
next
  case (Cons m ms)
  have inc: "increasing ms" using Cons.prems by (simp add: increasing_def)
  show ?case
  proof (cases "mg_version m \<le> v")
    case True
    then have "pending v (m # ms) = pending v ms" "newest v (m # ms) = newest v ms"
      by (simp_all add: pending_def newest_def max_def not_less)
    with True show ?thesis using Cons.IH [OF inc] by simp
  next
    case False
    then have less: "v < mg_version m" by simp
    have p: "pending v (m # ms) = m # ms" "pending (mg_version m) ms = ms"
      using pending_older [OF Cons.prems less] pending_all [OF Cons.prems] less by (simp_all add: pending_def)
    have n: "newest v (m # ms) = newest (mg_version m) ms" using less by (simp add: newest_def max.absorb2)
    show ?thesis
      using False Cons.IH [OF inc, of "mg_version m"] unfolding p n
      by (auto simp: ibind_def split: prod.split sum.split)
  qed
qed

lemma newest_Cons: "newest v (m # ms) = newest (max v (mg_version m)) ms"
  by (simp add: newest_def)

lemma newest_ge: "v \<le> newest v plan"
proof (induction plan arbitrary: v)
  case (Cons m ms)
  then show ?case unfolding newest_Cons by (rule order_trans [OF max.cobounded1])
qed (simp add: newest_def)

lemma newest_member: "m \<in> set plan \<Longrightarrow> mg_version m \<le> newest v plan"
proof (induction plan arbitrary: v)
  case (Cons x xs)
  have "mg_version x \<le> newest (max v (mg_version x)) xs"
    by (rule order_trans [OF max.cobounded2 newest_ge])
  with Cons show ?case unfolding newest_Cons by auto
qed simp

lemma pending_newest: "pending (newest v plan) plan = []"
  unfolding pending_def by (rule filter_False) (simp add: not_less newest_member)

lemma newest_idem: "newest (newest v plan) plan = newest v plan"
proof -
  have "newest u xs = u" if "\<forall>m \<in> set xs. mg_version m \<le> u" for u :: "32 word" and xs :: "'a Migration list"
    using that by (induction xs) (simp_all add: newest_def max.absorb1)
  then show ?thesis using newest_member by blast
qed

text \<open>
  However a plan was built, applying it from a version runs exactly the migrations with a greater
  version, in increasing order, and stops at the first that throws, whose exception it passes on. If none
  throws, it returns the greatest of the given version and the versions of the plan, and applying the
  plan from there runs nothing.
\<close>

theorem migration_plan_apply:
  "let plan = foldl mp_try_add [] ms in
     sorted_wrt (<) (map mg_version plan) \<and>
     mp_apply plan v w = (case run_all (filter (\<lambda>m. v < mg_version m) plan) w of
         (w', Inl e) \<Rightarrow> (w', Inl e) | (w', Inr _) \<Rightarrow> (w', Inr (foldl max v (map mg_version plan)))) \<and>
     mp_apply plan (foldl max v (map mg_version plan)) w = (w, Inr (foldl max v (map mg_version plan)))"
proof -
  define plan where "plan = foldl mp_try_add [] ms"
  have inc: "increasing plan" unfolding plan_def by (rule built_increasing)
  have "mp_apply plan (newest v plan) w = (w, Inr (newest v plan))"
    by (simp add: mp_apply_def apply_loop_pending [OF inc] pending_newest newest_idem ibind_def)
  moreover have "mp_apply plan v w = (case run_all (pending v plan) w of
      (w', Inl e) \<Rightarrow> (w', Inl e) | (w', Inr _) \<Rightarrow> (w', Inr (newest v plan)))"
    by (simp add: mp_apply_def apply_loop_pending [OF inc] ibind_def split: prod.split sum.split)
  ultimately show ?thesis
    using inc unfolding Let_def plan_def [symmetric] pending_def newest_def increasing_def by blast
qed

section \<open>Health\<close>

datatype Status = Up | Degraded | Down

text \<open>The order of the enumeration: the worse, the greater.\<close>

instantiation Status :: linorder
begin

definition less_eq_Status :: "Status \<Rightarrow> Status \<Rightarrow> bool" where
  "s \<le> t \<longleftrightarrow> s = Up \<or> s = t \<or> t = Down"

definition less_Status :: "Status \<Rightarrow> Status \<Rightarrow> bool" where
  "s < t \<longleftrightarrow> s \<le> t \<and> s \<noteq> (t :: Status)"

instance
proof
  fix x y z :: Status
  show "x < y \<longleftrightarrow> x \<le> y \<and> \<not> y \<le> x" by (cases x; cases y) (simp_all add: less_eq_Status_def less_Status_def)
  show "x \<le> x" by (simp add: less_eq_Status_def)
  show "x \<le> y \<Longrightarrow> y \<le> z \<Longrightarrow> x \<le> z" by (cases x; cases y; cases z) (simp_all add: less_eq_Status_def)
  show "x \<le> y \<Longrightarrow> y \<le> x \<Longrightarrow> x = y" by (cases x; cases y) (simp_all add: less_eq_Status_def)
  show "x \<le> y \<or> y \<le> x" by (cases x; cases y) (simp_all add: less_eq_Status_def)
qed

end

record Report =
  rp_component :: string
  rp_status :: Status
  rp_detail :: string
  rp_code :: string
  rp_remediation :: string
  rp_affected :: "string list"

record AggregateReport =
  ag_status :: Status
  ag_components :: "Report list"

definition ag_live :: "AggregateReport \<Rightarrow> bool" where
  "ag_live a \<longleftrightarrow> ag_status a \<noteq> Down"

definition ag_ready :: "AggregateReport \<Rightarrow> bool" where
  "ag_ready a \<longleftrightarrow> ag_status a = Up"

type_synonym HealthRegistry = "Report list"

definition hr_add :: "HealthRegistry \<Rightarrow> Report \<Rightarrow> HealthRegistry" where
  "hr_add r contributor = r @ [contributor]"

definition collect_step :: "AggregateReport \<Rightarrow> Report \<Rightarrow> AggregateReport" where
  "collect_step a report =
     a\<lparr>ag_status := (if rp_status report = Down then Down
                    else if rp_status report = Degraded \<and> ag_status a = Up then Degraded else ag_status a),
       ag_components := ag_components a @ [report]\<rparr>"

definition collect :: "HealthRegistry \<Rightarrow> AggregateReport" where
  "collect r = foldl collect_step \<lparr>ag_status = Up, ag_components = []\<rparr> r"

text \<open>The aggregate has the worst status of the contributors and all their reports in order.\<close>

lemma collect_step_max: "ag_status (collect_step a report) = max (ag_status a) (rp_status report)"
  by (cases "ag_status a"; cases "rp_status report")
     (simp_all add: collect_step_def max_def less_eq_Status_def)

lemma collect_worst: "ag_status (collect r) = Max (insert Up (rp_status ` set r))"
proof -
  have up: "Up \<le> s" for s :: Status by (simp add: less_eq_Status_def)
  have "ag_status (foldl collect_step a r) = Max (insert (ag_status a) (rp_status ` set r))" for a
  proof (induction r arbitrary: a)
    case (Cons x xs)
    have "Max (insert (max (ag_status a) (rp_status x)) S) = Max (insert (ag_status a) (insert (rp_status x) S))"
      if "finite S" for S
      using that by (cases "S = {}") (simp_all add: max.assoc)
    with Cons show ?case by (simp add: collect_step_max)
  qed simp
  then show ?thesis by (simp add: collect_def)
qed

lemma collect_components: "ag_components (collect r) = r"
proof -
  have "ag_components (foldl collect_step a r) = ag_components a @ r" for a
    by (induction r arbitrary: a) (simp_all add: collect_step_def)
  then show ?thesis by (simp add: collect_def)
qed

lemma collect_ready_live:
  "ag_ready (collect r) \<longleftrightarrow> (\<forall>x \<in> set r. rp_status x = Up)"
  "ag_live (collect r) \<longleftrightarrow> (\<forall>x \<in> set r. rp_status x \<noteq> Down)"
proof -
  have "ag_status (foldl collect_step a r) = Up \<longleftrightarrow> ag_status a = Up \<and> (\<forall>x \<in> set r. rp_status x = Up)"
       "ag_status (foldl collect_step a r) = Down \<longleftrightarrow> ag_status a = Down \<or> (\<exists>x \<in> set r. rp_status x = Down)" for a
    by (induction r arbitrary: a) (auto simp: collect_step_def intro: Status.exhaust)
  then show "ag_ready (collect r) \<longleftrightarrow> (\<forall>x \<in> set r. rp_status x = Up)"
    "ag_live (collect r) \<longleftrightarrow> (\<forall>x \<in> set r. rp_status x \<noteq> Down)"
    by (auto simp: collect_def ag_ready_def ag_live_def)
qed

end
