(* ===== verification/Subprocess.thy ===== *)
theory Subprocess
  imports Protocol_IO
begin

text \<open>
  The subprocess manager (\<open>platform/ProcessManagement/src/SubprocessManager.cpp\<close>): the processes of a
  configuration file are checked and launched in order, stopped in reverse order, and can be started,
  stopped and restarted one by one. The operating system is the record \<open>process_os\<close> (\<open>Poco::Process\<close> is
  outside the repository), with \<open>process_log\<close> stating what is relied on; the configuration file and the
  path operations (of the POSIX branch) are the record \<open>process_config\<close>. A method body between taking and releasing the mutex is
  one operation, so that sequences of operations are all interleavings of the callers.
\<close>

section \<open>State\<close>

record 's process_os =
  os_launch :: "string \<Rightarrow> string list \<Rightarrow> string \<Rightarrow> ('s, nat) io"
  os_isRunning :: "nat \<Rightarrow> 's \<Rightarrow> 's \<times> bool"
  os_requestTermination :: "nat \<Rightarrow> ('s, unit) io"
  os_isElapsed :: "int \<Rightarrow> 's \<Rightarrow> bool"
  os_kill :: "nat \<Rightarrow> ('s, unit) io"

record process_config =
  pc_exists :: bool
  pc_load :: "unit res"
  pc_int :: "string \<Rightarrow> int \<Rightarrow> int res"
  pc_bool :: "string \<Rightarrow> bool \<Rightarrow> bool res"
  pc_string :: "string \<Rightarrow> string option"
  pc_isFile :: "string \<Rightarrow> bool"
  pc_isAbsolute :: "string \<Rightarrow> bool"
  pc_root :: string
  pc_resolve :: "string \<Rightarrow> string"
  pc_parent :: "string \<Rightarrow> string"
  pc_baseName :: "string \<Rightarrow> string"

record ConfiguredProcess =
  cp_name :: string
  cp_executable :: string
  cp_arguments :: "string list"
  cp_initialDirectory :: string
  cp_location :: string
  cp_required :: bool

record RunningProcess =
  rn_name :: string
  rn_handle :: nat

record 's SubprocessManager =
  sm_os :: 's
  sm_shutdownTimeout :: int
  sm_configured :: "ConfiguredProcess list"
  sm_running :: "RunningProcess list"

definition SubprocessManager_new :: "'s \<Rightarrow> int \<Rightarrow> 's SubprocessManager" where
  "SubprocessManager_new s timeout =
     \<lparr>sm_os = s, sm_shutdownTimeout = max 0 timeout, sm_configured = [], sm_running = []\<rparr>"

section \<open>Stopping\<close>

text \<open>
  The polling loop. It sleeps 50 ms a round, so that after \<open>k\<close> rounds at least \<open>50 k\<close> ms have elapsed;
  more may have, which the operating system tells.
\<close>

function await_exit :: "'s process_os \<Rightarrow> nat \<Rightarrow> int \<Rightarrow> int \<Rightarrow> 's \<Rightarrow> 's" where
  "await_exit S h timeout slept s =
     (case os_isRunning S h s of
        (s1, False) \<Rightarrow> s1
      | (s1, True) \<Rightarrow>
          if timeout \<le> slept \<or> os_isElapsed S (timeout * 1000) s1 then s1
          else await_exit S h timeout (slept + 50) s1)"
  by pat_completeness auto

termination
  by (relation "measure (\<lambda>(S, h, timeout, slept, s). nat (timeout - slept))") auto

declare await_exit.simps [simp del]

definition stopProcess :: "'s process_os \<Rightarrow> int \<Rightarrow> RunningProcess \<Rightarrow> ('s, unit) io" where
  "stopProcess S timeout process s =
     (case os_isRunning S (rn_handle process) s of
        (s1, False) \<Rightarrow> (s1, Inr ())
      | (s1, True) \<Rightarrow>
          ibind (os_requestTermination S (rn_handle process)) (\<lambda>_ s2.
            if 2 ^ 63 \<le> timeout * 1000 then (s2, Inl SignedOverflow)
            else case os_isRunning S (rn_handle process) (await_exit S (rn_handle process) timeout 0 s2) of
                (s4, False) \<Rightarrow> (s4, Inr ())
              | (s4, True) \<Rightarrow> os_kill S (rn_handle process) s4) s1)"

fun stop_loop :: "'s process_os \<Rightarrow> int \<Rightarrow> RunningProcess list \<Rightarrow> ('s, unit) io" where
  "stop_loop S timeout [] = ireturn ()"
| "stop_loop S timeout (p # ps) = ibind (stopProcess S timeout p) (\<lambda>_. stop_loop S timeout ps)"

definition stopAll :: "'s process_os \<Rightarrow> ('s SubprocessManager, unit) io" where
  "stopAll S m =
     (case stop_loop S (sm_shutdownTimeout m) (rev (sm_running m)) (sm_os m) of
        (s, Inl e) \<Rightarrow> (m\<lparr>sm_os := s\<rparr>, Inl e)
      | (s, Inr _) \<Rightarrow> (m\<lparr>sm_os := s, sm_running := []\<rparr>, Inr ()))"

section \<open>Starting\<close>

definition launch :: "'s process_os \<Rightarrow> ConfiguredProcess \<Rightarrow> ('s SubprocessManager, unit) io" where
  "launch S process m =
     (case os_launch S (cp_executable process) (cp_arguments process) (cp_initialDirectory process) (sm_os m) of
        (s, Inl e) \<Rightarrow> (m\<lparr>sm_os := s\<rparr>, Inl e)
      | (s, Inr h) \<Rightarrow>
          (m\<lparr>sm_os := s, sm_running := sm_running m @ [\<lparr>rn_name = cp_name process, rn_handle = h\<rparr>]\<rparr>, Inr ()))"

definition resolveRelativePath :: "process_config \<Rightarrow> string \<Rightarrow> string res" where
  "resolveRelativePath C relativePath =
     (if pc_isAbsolute C relativePath
        then Inl (InvalidArgument (poco_message ''Subprocess path must be relative'' relativePath))
      else if take (length (pc_root C)) (pc_resolve C relativePath) \<noteq> pc_root C
        then Inl (InvalidArgument (poco_message ''Subprocess path escapes process root'' relativePath))
      else Inr (pc_resolve C relativePath))"

definition getString :: "process_config \<Rightarrow> string \<Rightarrow> string res" where
  "getString C key = (case pc_string C key of None \<Rightarrow> Inl (NotFoundException key) | Some v \<Rightarrow> Inr v)"

definition getString_d :: "process_config \<Rightarrow> string \<Rightarrow> string \<Rightarrow> string" where
  "getString_d C key d = (case pc_string C key of None \<Rightarrow> d | Some v \<Rightarrow> v)"

fun arguments_loop :: "process_config \<Rightarrow> string \<Rightarrow> nat list \<Rightarrow> string list res" where
  "arguments_loop C prefix [] = Inr []"
| "arguments_loop C prefix (i # is) =
     rbind (getString C (prefix @ ''argument.'' @ decimal i)) (\<lambda>a.
     rbind (arguments_loop C prefix is) (\<lambda>as. Inr (a # as)))"

definition executable_of :: "process_config \<Rightarrow> string \<Rightarrow> string res" where
  "executable_of C prefix =
     rbind (getString C (prefix @ ''path'')) (\<lambda>relativePath.
     rbind (resolveRelativePath C relativePath) (\<lambda>executable.
       if \<not> pc_isFile C executable
         then Inl (OtherException (poco_message ''Subprocess executable'' executable))
       else Inr executable))"

definition working_directory :: "process_config \<Rightarrow> string \<Rightarrow> string \<Rightarrow> string res" where
  "working_directory C prefix executable =
     (case pc_string C (prefix @ ''workingDirectory'') of
        Some d \<Rightarrow> resolveRelativePath C d
      | None \<Rightarrow> Inr (pc_parent C executable))"

definition read_process :: "process_config \<Rightarrow> string \<Rightarrow> ConfiguredProcess res" where
  "read_process C prefix =
     rbind (executable_of C prefix) (\<lambda>executable.
     rbind (pc_int C (prefix @ ''argument.count'') 0) (\<lambda>n.
     rbind (arguments_loop C prefix [0..<nat n]) (\<lambda>arguments.
     rbind (working_directory C prefix executable) (\<lambda>initialDirectory.
       let name = getString_d C (prefix @ ''name'') (pc_baseName C executable);
           location = map tolower (getString_d C (prefix @ ''location'') ''local'')
       in if location \<noteq> ''local'' \<and> location \<noteq> ''remote''
            then Inl (InvalidArgument (poco_message ''Subprocess location must be local or remote'' location))
          else rbind (pc_bool C (prefix @ ''required'') True) (\<lambda>required.
            Inr \<lparr>cp_name = name, cp_executable = executable, cp_arguments = arguments,
                 cp_initialDirectory = initialDirectory, cp_location = location, cp_required = required\<rparr>)))))"

definition configure_process :: "'s process_os \<Rightarrow> process_config \<Rightarrow> nat \<Rightarrow> ('s SubprocessManager, unit) io" where
  "configure_process S C index m =
     (let prefix = ''subprocess.'' @ decimal index @ ''.'' in
      case pc_bool C (prefix @ ''enabled'') True of
        Inl e \<Rightarrow> (m, Inl e)
      | Inr False \<Rightarrow> (m, Inr ())
      | Inr True \<Rightarrow> (case read_process C prefix of
            Inl e \<Rightarrow> (m, Inl e)
          | Inr p \<Rightarrow> let m1 = m\<lparr>sm_configured := sm_configured m @ [p]\<rparr>
                     in if cp_location p = ''local'' then launch S p m1 else (m1, Inr ())))"

fun configure_loop :: "'s process_os \<Rightarrow> process_config \<Rightarrow> nat list \<Rightarrow> ('s SubprocessManager, unit) io" where
  "configure_loop S C [] = ireturn ()"
| "configure_loop S C (i # is) = ibind (configure_process S C i) (\<lambda>_. configure_loop S C is)"

text \<open>The part of \<open>Impl::start\<close> after \<open>stopAll\<close>; when the loop throws, what has been launched is stopped.\<close>

definition start_locked :: "'s process_os \<Rightarrow> process_config \<Rightarrow> ('s SubprocessManager, nat) io" where
  "start_locked S C m =
     (let m0 = m\<lparr>sm_configured := []\<rparr> in
      if \<not> pc_exists C then (m0, Inr 0)
      else case rbind (pc_load C) (\<lambda>_. pc_int C ''subprocess.count'' 0) of
        Inl e \<Rightarrow> (m0, Inl e)
      | Inr count \<Rightarrow> (case configure_loop S C [0..<nat count] m0 of
            (m1, Inr _) \<Rightarrow> (m1, Inr (length (sm_running m1)))
          | (m1, Inl e) \<Rightarrow> (case stopAll S m1 of
                (m2, Inl e') \<Rightarrow> (m2, Inl e')
              | (m2, Inr _) \<Rightarrow> (m2, Inl e))))"

definition startFromConfiguration :: "'s process_os \<Rightarrow> process_config \<Rightarrow> ('s SubprocessManager, nat) io" where
  "startFromConfiguration S C = ibind (stopAll S) (\<lambda>_. start_locked S C)"

section \<open>One process\<close>

definition findConfigured :: "string \<Rightarrow> 's SubprocessManager \<Rightarrow> ConfiguredProcess option" where
  "findConfigured name m = find (\<lambda>p. cp_name p = name) (sm_configured m)"

definition findRunning :: "string \<Rightarrow> 's SubprocessManager \<Rightarrow> RunningProcess option" where
  "findRunning name m = find (\<lambda>p. rn_name p = name) (sm_running m)"

text \<open>\<open>_running.erase(iterator)\<close> with the iterator \<open>findRunning\<close> gave: the first entry of the name.\<close>

fun erase_running :: "string \<Rightarrow> RunningProcess list \<Rightarrow> RunningProcess list" where
  "erase_running name [] = []"
| "erase_running name (p # ps) = (if rn_name p = name then ps else p # erase_running name ps)"

definition startOne :: "'s process_os \<Rightarrow> string \<Rightarrow> ('s SubprocessManager, bool) io" where
  "startOne S name m =
     (case findConfigured name m of
        None \<Rightarrow> (m, Inr False)
      | Some configured \<Rightarrow>
          if cp_location configured \<noteq> ''local'' then (m, Inr False)
          else case findRunning name m of
              None \<Rightarrow> ibind (launch S configured) (\<lambda>_. ireturn True) m
            | Some r \<Rightarrow> (case os_isRunning S (rn_handle r) (sm_os m) of
                  (s, True) \<Rightarrow> (m\<lparr>sm_os := s\<rparr>, Inr True)
                | (s, False) \<Rightarrow> ibind (launch S configured) (\<lambda>_. ireturn True)
                    (m\<lparr>sm_os := s, sm_running := erase_running name (sm_running m)\<rparr>)))"

definition stopOne :: "'s process_os \<Rightarrow> string \<Rightarrow> ('s SubprocessManager, bool) io" where
  "stopOne S name m =
     (case findRunning name m of
        None \<Rightarrow> (m, Inr (findConfigured name m \<noteq> None))
      | Some r \<Rightarrow> (case stopProcess S (sm_shutdownTimeout m) r (sm_os m) of
            (s, Inl e) \<Rightarrow> (m\<lparr>sm_os := s\<rparr>, Inl e)
          | (s, Inr _) \<Rightarrow> (m\<lparr>sm_os := s, sm_running := erase_running name (sm_running m)\<rparr>, Inr True)))"

definition restartOne :: "'s process_os \<Rightarrow> string \<Rightarrow> ('s SubprocessManager, bool) io" where
  "restartOne S name = ibind (stopOne S name) (\<lambda>b. if \<not> b then ireturn False else startOne S name)"

section \<open>What is reported\<close>

record SubprocessInfo =
  si_name :: string
  si_location :: string
  si_state :: string
  si_processId :: nat
  si_manageable :: bool
  si_required :: bool

definition process_info :: "'s process_os \<Rightarrow> 's SubprocessManager \<Rightarrow> ConfiguredProcess \<Rightarrow> 's \<Rightarrow> 's \<times> SubprocessInfo" where
  "process_info S m configured s =
     (let i = \<lparr>si_name = cp_name configured, si_location = cp_location configured, si_state = ''stopped'',
               si_processId = 0, si_manageable = (cp_location configured = ''local''),
               si_required = cp_required configured\<rparr>
      in case findRunning (cp_name configured) m of
           None \<Rightarrow> (s, i)
         | Some r \<Rightarrow> (case os_isRunning S (rn_handle r) s of
               (s1, True) \<Rightarrow> (s1, i\<lparr>si_state := ''running'', si_processId := rn_handle r\<rparr>)
             | (s1, False) \<Rightarrow> (s1, i)))"

fun infos_loop :: "'s process_os \<Rightarrow> 's SubprocessManager \<Rightarrow> ConfiguredProcess list \<Rightarrow> 's \<Rightarrow> 's \<times> SubprocessInfo list" where
  "infos_loop S m [] s = (s, [])"
| "infos_loop S m (p # ps) s =
     (case process_info S m p s of (s1, i) \<Rightarrow> case infos_loop S m ps s1 of (s2, is) \<Rightarrow> (s2, i # is))"

definition processes :: "'s process_os \<Rightarrow> 's SubprocessManager \<Rightarrow> 's SubprocessManager \<times> SubprocessInfo list" where
  "processes S m = (case infos_loop S m (sm_configured m) (sm_os m) of (s, is) \<Rightarrow> (m\<lparr>sm_os := s\<rparr>, is))"

fun count_running :: "'s process_os \<Rightarrow> RunningProcess list \<Rightarrow> 's \<Rightarrow> 's \<times> nat" where
  "count_running S [] s = (s, 0)"
| "count_running S (p # ps) s =
     (case os_isRunning S (rn_handle p) s of (s1, b) \<Rightarrow>
      case count_running S ps s1 of (s2, n) \<Rightarrow> (s2, if b then Suc n else n))"

definition runningCount :: "'s process_os \<Rightarrow> 's SubprocessManager \<Rightarrow> 's SubprocessManager \<times> nat" where
  "runningCount S m = (case count_running S (sm_running m) (sm_os m) of (s, n) \<Rightarrow> (m\<lparr>sm_os := s\<rparr>, n))"

section \<open>The operating system\<close>

text \<open>
  \<open>alive\<close> are the launched processes that have not ended. Only \<open>launch\<close> adds to them, and only the process
  it returns; a process that \<open>isRunning\<close> denies or that has been killed is not among them.
\<close>

definition process_log :: "'s process_os \<Rightarrow> ('s \<Rightarrow> nat set) \<Rightarrow> bool" where
  "process_log S alive \<longleftrightarrow>
     (\<forall>x a d s s' r. os_launch S x a d s = (s', r) \<longrightarrow>
        alive s' \<subseteq> (case r of Inl _ \<Rightarrow> alive s | Inr h \<Rightarrow> insert h (alive s))) \<and>
     (\<forall>h s s' b. os_isRunning S h s = (s', b) \<longrightarrow> alive s' \<subseteq> alive s \<and> (b \<or> h \<notin> alive s')) \<and>
     (\<forall>h s s' r. os_requestTermination S h s = (s', r) \<longrightarrow> alive s' \<subseteq> alive s) \<and>
     (\<forall>h s s' r. os_kill S h s = (s', r) \<longrightarrow> alive s' \<subseteq> alive s \<and> (r = Inr () \<longrightarrow> h \<notin> alive s'))"

lemma process_logD:
  assumes "process_log S alive"
  shows "os_launch S x a d s = (s', Inl e) \<Longrightarrow> alive s' \<subseteq> alive s"
    "os_launch S x a d s = (s', Inr h) \<Longrightarrow> alive s' \<subseteq> insert h (alive s)"
    "os_isRunning S h s = (s', b) \<Longrightarrow> alive s' \<subseteq> alive s"
    "os_isRunning S h s = (s', False) \<Longrightarrow> h \<notin> alive s'"
    "os_requestTermination S h s = (s', u) \<Longrightarrow> alive s' \<subseteq> alive s"
    "os_kill S h s = (s', u) \<Longrightarrow> alive s' \<subseteq> alive s"
    "os_kill S h s = (s', Inr ()) \<Longrightarrow> h \<notin> alive s'"
proof -
  have la: "\<And>x a d s s' r. os_launch S x a d s = (s', r) \<Longrightarrow>
      alive s' \<subseteq> (case r of Inl _ \<Rightarrow> alive s | Inr h \<Rightarrow> insert h (alive s))"
    and ru: "\<And>h s s' b. os_isRunning S h s = (s', b) \<Longrightarrow> alive s' \<subseteq> alive s \<and> (b \<or> h \<notin> alive s')"
    and te: "\<And>h s s' r. os_requestTermination S h s = (s', r) \<Longrightarrow> alive s' \<subseteq> alive s"
    and ki: "\<And>h s s' r. os_kill S h s = (s', r) \<Longrightarrow> alive s' \<subseteq> alive s \<and> (r = Inr () \<longrightarrow> h \<notin> alive s')"
    using assms unfolding process_log_def by (elim conjE, metis)+
  show "os_launch S x a d s = (s', Inl e) \<Longrightarrow> alive s' \<subseteq> alive s" using la by fastforce
  show "os_launch S x a d s = (s', Inr h) \<Longrightarrow> alive s' \<subseteq> insert h (alive s)" using la by fastforce
  show "os_isRunning S h s = (s', b) \<Longrightarrow> alive s' \<subseteq> alive s" using ru by blast
  show "os_isRunning S h s = (s', False) \<Longrightarrow> h \<notin> alive s'" using ru by blast
  show "os_requestTermination S h s = (s', u) \<Longrightarrow> alive s' \<subseteq> alive s" using te by blast
  show "os_kill S h s = (s', u) \<Longrightarrow> alive s' \<subseteq> alive s" using ki by blast
  show "os_kill S h s = (s', Inr ()) \<Longrightarrow> h \<notin> alive s'" using ki by blast
qed

lemma await_exit_log: "process_log S alive \<Longrightarrow> alive (await_exit S h timeout slept s) \<subseteq> alive s"
proof (induction S h timeout slept s rule: await_exit.induct)
  case (1 S h timeout slept s)
  obtain s1 b where q: "os_isRunning S h s = (s1, b)" by fastforce
  have s1: "alive s1 \<subseteq> alive s" using process_logD(3) [OF 1(2) q] .
  show ?case
  proof (cases "b \<and> \<not> (timeout \<le> slept \<or> os_isElapsed S (timeout * 1000) s1)")
    case True
    then have "alive (await_exit S h timeout (slept + 50) s1) \<subseteq> alive s1"
      using 1(1) [OF q [symmetric]] 1(2) by simp
    with True q s1 show ?thesis by (simp add: await_exit.simps [of S h timeout slept s])
  next
    case False
    with q s1 show ?thesis by (cases b) (simp_all add: await_exit.simps [of S h timeout slept s])
  qed
qed

lemma stopProcess_log:
  assumes "process_log S alive" "stopProcess S timeout p s = (s', r)"
  shows "alive s' \<subseteq> alive s \<and> (r = Inr () \<longrightarrow> rn_handle p \<notin> alive s')"
proof -
  note laws = process_logD [OF assms(1)] and await = await_exit_log [OF assms(1)]
  obtain s1 b where q: "os_isRunning S (rn_handle p) s = (s1, b)" by fastforce
  obtain s2 u where t: "os_requestTermination S (rn_handle p) s1 = (s2, u)" by fastforce
  obtain s4 b' where q': "os_isRunning S (rn_handle p) (await_exit S (rn_handle p) timeout 0 s2) = (s4, b')" by fastforce
  obtain s5 k where kl: "os_kill S (rn_handle p) s4 = (s5, k)" by fastforce
  have sub: "alive s1 \<subseteq> alive s" "alive s2 \<subseteq> alive s" "alive s4 \<subseteq> alive s" "alive s5 \<subseteq> alive s"
    using laws(3) [OF q] laws(5) [OF t] laws(3) [OF q'] laws(6) [OF kl] await by (meson order_trans)+
  have out: "\<not> b \<Longrightarrow> rn_handle p \<notin> alive s1" "\<not> b' \<Longrightarrow> rn_handle p \<notin> alive s4"
      "k = Inr () \<Longrightarrow> rn_handle p \<notin> alive s5"
    using laws(4) [of "rn_handle p" s s1] laws(4) [of "rn_handle p" _ s4] laws(7) [of "rn_handle p" s4 s5] q q' kl
    by simp_all
  show ?thesis
  proof (cases b)
    case False
    with assms(2) q sub out show ?thesis by (auto simp: stopProcess_def)
  next
    case True
    show ?thesis
    proof (cases u)
      case (Inl e)
      with True assms(2) q t sub show ?thesis by (auto simp: stopProcess_def ibind_def)
    next
      case (Inr v)
      with True assms(2) q t q' kl sub out show ?thesis
        by (cases b') (auto simp: stopProcess_def ibind_def split: if_splits)
    qed
  qed
qed

lemma stop_loop_log:
  "process_log S alive \<Longrightarrow> stop_loop S timeout ps s = (s', r) \<Longrightarrow>
     alive s' \<subseteq> alive s \<and> (r = Inr () \<longrightarrow> (\<forall>p \<in> set ps. rn_handle p \<notin> alive s'))"
proof (induction ps arbitrary: s)
  case (Cons p ps)
  obtain s1 q where st: "stopProcess S timeout p s = (s1, q)" by fastforce
  note first = stopProcess_log [OF Cons.prems(1) st]
  show ?case
  proof (cases q)
    case (Inl e)
    with Cons.prems(2) st first show ?thesis by (auto simp: ibind_def)
  next
    case (Inr v)
    then have "stop_loop S timeout ps s1 = (s', r)" using Cons.prems(2) st by (simp add: ibind_def)
    from Cons.IH [OF Cons.prems(1) this] first Inr show ?thesis by auto
  qed
qed simp

section \<open>Every live process is known to the manager\<close>

definition tracked :: "('s \<Rightarrow> nat set) \<Rightarrow> 's SubprocessManager \<Rightarrow> bool" where
  "tracked alive m \<longleftrightarrow> alive (sm_os m) \<subseteq> rn_handle ` set (sm_running m)"

lemma tracked_configured [simp]: "tracked alive (m\<lparr>sm_configured := xs\<rparr>) = tracked alive m"
  by (simp add: tracked_def)

lemma tracked_less: "tracked alive m \<Longrightarrow> alive s \<subseteq> alive (sm_os m) \<Longrightarrow> tracked alive (m\<lparr>sm_os := s\<rparr>)"
  unfolding tracked_def by simp

lemma stopAll_tracked:
  assumes "process_log S alive" "tracked alive m" "stopAll S m = (m', r)"
  shows "tracked alive m' \<and> (r = Inr () \<longrightarrow> alive (sm_os m') = {} \<and> sm_running m' = [])"
proof -
  obtain s q where l: "stop_loop S (sm_shutdownTimeout m) (rev (sm_running m)) (sm_os m) = (s, q)" by fastforce
  note laws = stop_loop_log [OF assms(1) l]
  show ?thesis
  proof (cases q)
    case (Inl e)
    with assms(3) l laws tracked_less [OF assms(2), of s] show ?thesis by (auto simp: stopAll_def)
  next
    case (Inr u)
    have "alive s = {}" using laws Inr assms(2) by (fastforce simp: tracked_def)
    with assms(3) l Inr show ?thesis by (auto simp: stopAll_def tracked_def)
  qed
qed

lemma launch_tracked:
  assumes "process_log S alive" "tracked alive m"
  shows "tracked alive (fst (launch S p m))"
proof -
  obtain s r where l: "os_launch S (cp_executable p) (cp_arguments p) (cp_initialDirectory p) (sm_os m) = (s, r)"
    by fastforce
  show ?thesis
    using l assms(2) process_logD(1,2) [OF assms(1)] by (cases r) (fastforce simp: launch_def tracked_def)+
qed

lemma configure_process_tracked:
  "process_log S alive \<Longrightarrow> tracked alive m \<Longrightarrow> tracked alive (fst (configure_process S C i m))"
  by (simp add: configure_process_def Let_def launch_tracked split: sum.split bool.split)

lemma configure_loop_tracked:
  "process_log S alive \<Longrightarrow> tracked alive m \<Longrightarrow> tracked alive (fst (configure_loop S C is m))"
proof (induction "is" arbitrary: m)
  case (Cons i "is")
  obtain m1 r where c: "configure_process S C i m = (m1, r)" by fastforce
  have "tracked alive m1" using configure_process_tracked [OF Cons.prems, of C i] c by simp
  with Cons c show ?case by (cases r) (simp_all add: ibind_def)
qed simp

lemma start_locked_tracked:
  assumes "process_log S alive" "tracked alive m"
  shows "tracked alive (fst (start_locked S C m))"
proof (cases "pc_exists C")
  case True
  show ?thesis
  proof (cases "rbind (pc_load C) (\<lambda>_. pc_int C ''subprocess.count'' 0)")
    case (Inl e)
    with True assms(2) show ?thesis by (simp add: start_locked_def)
  next
    case (Inr n)
    obtain m1 r where c: "configure_loop S C [0..<nat n] (m\<lparr>sm_configured := []\<rparr>) = (m1, r)" by fastforce
    have m1: "tracked alive m1"
      using configure_loop_tracked [OF assms(1), of "m\<lparr>sm_configured := []\<rparr>" C "[0..<nat n]"] assms(2) c by simp
    obtain m2 q where a: "stopAll S m1 = (m2, q)" by fastforce
    have "tracked alive m2" using stopAll_tracked [OF assms(1) m1 a] by blast
    with True Inr c m1 a show ?thesis by (cases r; cases q) (simp_all add: start_locked_def)
  qed
qed (simp add: start_locked_def assms(2))

lemma erase_running_handles:
  "find (\<lambda>p. rn_name p = name) ps = Some r \<Longrightarrow>
     rn_handle ` set ps \<subseteq> insert (rn_handle r) (rn_handle ` set (erase_running name ps))"
  by (induction ps) (auto split: if_splits)

lemma erase_tracked:
  assumes "tracked alive m" "findRunning name m = Some r" "alive s \<subseteq> alive (sm_os m)" "rn_handle r \<notin> alive s"
  shows "tracked alive (m\<lparr>sm_os := s, sm_running := erase_running name (sm_running m)\<rparr>)"
  using assms erase_running_handles [of name "sm_running m" r]
  by (fastforce simp: tracked_def findRunning_def)

lemma startOne_tracked:
  assumes "process_log S alive" "tracked alive m"
  shows "tracked alive (fst (startOne S name m))"
proof -
  have again: "tracked alive (fst (ibind (launch S p) (\<lambda>_. ireturn True) n))" if "tracked alive n" for p n
    using launch_tracked [OF assms(1) that, of p] by (cases "launch S p n") (simp add: ibind_def split: sum.split)
  have old: "tracked alive (fst (case os_isRunning S (rn_handle r) (sm_os m) of
        (s, True) \<Rightarrow> (m\<lparr>sm_os := s\<rparr>, Inr True)
      | (s, False) \<Rightarrow> ibind (launch S p) (\<lambda>_. ireturn True)
          (m\<lparr>sm_os := s, sm_running := erase_running name (sm_running m)\<rparr>)))"
    if "findRunning name m = Some r" for p r
  proof -
    obtain s b where q: "os_isRunning S (rn_handle r) (sm_os m) = (s, b)" by fastforce
    have sub: "alive s \<subseteq> alive (sm_os m)" using process_logD(3) [OF assms(1) q] .
    show ?thesis
    proof (cases b)
      case True
      with q tracked_less [OF assms(2) sub] show ?thesis by simp
    next
      case False
      then have "rn_handle r \<notin> alive s" using process_logD(4) [OF assms(1)] q by simp
      then show ?thesis using False q again [OF erase_tracked [OF assms(2) that sub]] by simp
    qed
  qed
  show ?thesis unfolding startOne_def using assms(2) again old by (simp split: option.split)
qed

lemma stopOne_tracked:
  assumes "process_log S alive" "tracked alive m"
  shows "tracked alive (fst (stopOne S name m))"
proof (cases "findRunning name m")
  case (Some r)
  obtain s q where st: "stopProcess S (sm_shutdownTimeout m) r (sm_os m) = (s, q)" by fastforce
  note laws = stopProcess_log [OF assms(1) st]
  show ?thesis
  proof (cases q)
    case (Inl e)
    with Some st laws tracked_less [OF assms(2), of s] show ?thesis by (simp add: stopOne_def)
  next
    case (Inr u)
    with Some st laws erase_tracked [OF assms(2) Some] show ?thesis by (simp add: stopOne_def)
  qed
qed (simp add: stopOne_def assms(2))

section \<open>Every configured process is below its root\<close>

definition confined :: "process_config \<Rightarrow> ConfiguredProcess \<Rightarrow> bool" where
  "confined C p \<longleftrightarrow> take (length (pc_root C)) (cp_executable p) = pc_root C \<and> pc_isFile C (cp_executable p)"

lemma executable_of_confined:
  "executable_of C prefix = Inr x \<Longrightarrow> take (length (pc_root C)) x = pc_root C \<and> pc_isFile C x"
  by (auto simp: executable_of_def rbind_eq_Inr resolveRelativePath_def split: if_splits)

lemma read_process_confined:
  assumes "read_process C prefix = Inr p"
  shows "confined C p"
proof -
  obtain x where x: "executable_of C prefix = Inr x" "cp_executable p = x"
    using assms by (auto simp: read_process_def rbind_eq_Inr Let_def split: if_splits)
  then show ?thesis using executable_of_confined [OF x(1)] by (simp add: confined_def)
qed

lemma launch_configured [simp]: "sm_configured (fst (launch S p m)) = sm_configured m"
  by (simp add: launch_def split: prod.split sum.split)

lemma stopAll_configured [simp]: "sm_configured (fst (stopAll S m)) = sm_configured m"
  by (simp add: stopAll_def split: prod.split sum.split)

lemma configure_process_configured:
  "set (sm_configured (fst (configure_process S C i m))) \<subseteq> set (sm_configured m) \<union> Collect (confined C)"
proof -
  define prefix where "prefix = ''subprocess.'' @ decimal i @ ''.''"
  show ?thesis
  proof (cases "read_process C prefix")
    case (Inl e)
    then show ?thesis
      unfolding configure_process_def Let_def prefix_def [symmetric] by (auto split: sum.split bool.split)
  next
    case (Inr p)
    with read_process_confined [OF Inr] show ?thesis
      unfolding configure_process_def Let_def prefix_def [symmetric] by (simp split: sum.split bool.split)
  qed
qed

lemma configure_loop_configured:
  "set (sm_configured (fst (configure_loop S C is m))) \<subseteq> set (sm_configured m) \<union> Collect (confined C)"
proof (induction "is" arbitrary: m)
  case (Cons i "is")
  obtain m1 r where c: "configure_process S C i m = (m1, r)" by fastforce
  have m1: "set (sm_configured m1) \<subseteq> set (sm_configured m) \<union> Collect (confined C)"
    using configure_process_configured [of S C i m] c by simp
  show ?case
  proof (cases r)
    case (Inl e)
    with c m1 show ?thesis by (simp add: ibind_def)
  next
    case (Inr u)
    with c m1 Cons.IH [of m1] show ?thesis by (auto simp: ibind_def)
  qed
qed simp

lemma start_locked_configured: "set (sm_configured (fst (start_locked S C m))) \<subseteq> Collect (confined C)"
proof -
  have loop: "set (sm_configured m1) \<subseteq> Collect (confined C)"
    if "configure_loop S C is (m\<lparr>sm_configured := []\<rparr>) = (m1, r)" for "is" m1 r
    using configure_loop_configured [of S C "is" "m\<lparr>sm_configured := []\<rparr>"] that by simp
  have stopped: "sm_configured m2 = sm_configured m1" if "stopAll S m1 = (m2, r)" for m1 m2 r
    using stopAll_configured [of S m1] that by simp
  show ?thesis
    unfolding start_locked_def Let_def
    by (simp add: stopped loop split: sum.split prod.split)
qed

lemma startOne_configured [simp]: "sm_configured (fst (startOne S name m)) = sm_configured m"
proof -
  have "sm_configured (fst (ibind (launch S p) (\<lambda>_. ireturn True) n)) = sm_configured n" for p n
    using launch_configured [of S p n] by (cases "launch S p n") (simp add: ibind_def split: sum.split)
  then show ?thesis by (simp add: startOne_def split: option.split prod.split bool.split)
qed

lemma stopOne_configured [simp]: "sm_configured (fst (stopOne S name m)) = sm_configured m"
  by (simp add: stopOne_def split: option.split prod.split sum.split)

section \<open>Sequences of operations\<close>

text \<open>
  The operations that run under the mutex. \<open>startFromConfiguration\<close> is \<open>Stop_all\<close> and \<open>Start_locked\<close>, and
  \<open>restart\<close> is \<open>Stop_one\<close> and \<open>Start_one\<close>, with the operations of other threads possibly in between.
\<close>

datatype process_call = Start_locked process_config | Stop_all | Start_one string | Stop_one string

fun process_step :: "'s process_os \<Rightarrow> 's SubprocessManager \<Rightarrow> process_call \<Rightarrow> 's SubprocessManager" where
  "process_step S m (Start_locked C) = fst (start_locked S C m)"
| "process_step S m Stop_all = fst (stopAll S m)"
| "process_step S m (Start_one name) = fst (startOne S name m)"
| "process_step S m (Stop_one name) = fst (stopOne S name m)"

lemma stopAll_keeps:
  assumes "process_log S alive" "tracked alive m"
  shows "tracked alive (fst (stopAll S m))"
proof -
  obtain m' r where a: "stopAll S m = (m', r)" by fastforce
  then show ?thesis using stopAll_tracked [OF assms a] by simp
qed

lemma process_steps_tracked:
  "process_log S alive \<Longrightarrow> tracked alive m \<Longrightarrow> tracked alive (foldl (process_step S) m calls)"
proof (induction calls arbitrary: m)
  case (Cons c calls)
  have "tracked alive (process_step S m c)"
    using Cons.prems
    by (cases c) (simp_all add: start_locked_tracked stopAll_keeps startOne_tracked stopOne_tracked)
  with Cons show ?case by simp
qed simp

lemma process_steps_confined:
  "set (sm_configured (foldl (process_step S) m calls)) \<subseteq>
     set (sm_configured m) \<union> {p. \<exists>C. Start_locked C \<in> set calls \<and> confined C p}"
proof (induction calls arbitrary: m)
  case (Cons c calls)
  have "set (sm_configured (process_step S m c)) \<subseteq> set (sm_configured m) \<union> {p. \<exists>C. c = Start_locked C \<and> confined C p}"
  proof (cases c)
    case (Start_locked C)
    then show ?thesis using start_locked_configured [of S C m] by (simp add: le_supI2)
  qed simp_all
  with Cons.IH [of "process_step S m c"] show ?case by (auto dest!: subsetD)
qed simp


text \<open>
  A system with numbered processes: one that is asked to terminate does so when its number is even, the
  others have to be killed.
\<close>

definition sample_os :: "(nat \<times> nat list) process_os" where
  "sample_os =
     \<lparr>os_launch = (\<lambda>x a d s. ((Suc (fst s), fst s # snd s), Inr (fst s))),
      os_isRunning = (\<lambda>h s. (s, h \<in> set (snd s))),
      os_requestTermination = (\<lambda>h s. ((fst s, filter (\<lambda>p. p \<noteq> h \<or> odd h) (snd s)), Inr ())),
      os_isElapsed = (\<lambda>t s. False),
      os_kill = (\<lambda>h s. ((fst s, filter (\<lambda>p. p \<noteq> h) (snd s)), Inr ()))\<rparr>"

definition sample_config :: process_config where
  "sample_config =
     \<lparr>pc_exists = True, pc_load = Inr (), pc_int = (\<lambda>k d. Inr (if k = ''subprocess.count'' then 2 else d)),
      pc_bool = (\<lambda>k d. Inr d), pc_string = (\<lambda>k. if List.last k = CHR ''h'' then Some ''a'' else None),
      pc_isFile = (\<lambda>x. True), pc_isAbsolute = (\<lambda>x. False), pc_root = ''/r/'', pc_resolve = (\<lambda>x. ''/r/'' @ x),
      pc_parent = (\<lambda>x. ''/r/''), pc_baseName = (\<lambda>x. ''a'')\<rparr>"

lemma sample_os_log: "process_log sample_os (\<lambda>s. set (snd s))"
  by (auto simp: process_log_def sample_os_def)


end
