(* ===== verification/BundleManager.thy ===== *)
theory BundleManager
  imports OSP_Bundles
begin

text \<open>
  The bundle manager (\<open>platform/BundleManagement/src/BundleManager.cpp\<close>): a thread that scans the bundle
  repositories at an interval and reloads all bundles when what it finds has changed and is stable.
  \<open>reload\<close> is composed from the operations of the bundle loader; reading the repository is a parameter.
  A scan gives a snapshot or throws; the monitor runs over the list of what the scans give. \<open>None\<close> is a
  reload that does not return, which the loader makes possible. The counters of failures and successes do
  not wrap in any run of practical length and are natural numbers.
\<close>

section \<open>Reloading\<close>

definition bm_reload ::
    "loader_env \<Rightarrow> ((nat \<Rightarrow> string) \<Rightarrow> nat list \<Rightarrow> nat list) \<Rightarrow> nat \<Rightarrow> (loader \<Rightarrow> unit out) \<Rightarrow> loader \<Rightarrow> unit out option" where
  "bm_reload E srt n loadBundles L =
     lbind (stopAllBundles E srt n L) (\<lambda>L1 _.
     lbind (unloadAllBundles E srt n L1) (\<lambda>L2 _.
     lbind (Some (loadBundles L2)) (\<lambda>L3 _.
       case resolveAllBundles E n L3 of
         None \<Rightarrow> None
       | Some L4 \<Rightarrow> map_option (\<lambda>L5. (L5, Inr ())) (startAllBundles E srt n L4))))"

section \<open>The monitor\<close>

type_synonym Snapshot = "string \<rightharpoonup> (int \<times> nat)"

record monitor =
  mn_applied :: Snapshot
  mn_pending :: Snapshot
  mn_stableScans :: nat
  mn_successfulReloads :: nat
  mn_failedReloads :: nat

definition effective_stableScanCount :: "nat \<Rightarrow> nat" where
  "effective_stableScanCount configured = max 2 configured"

definition monitor_new :: "Snapshot \<Rightarrow> monitor" where
  "monitor_new first =
     \<lparr>mn_applied = first, mn_pending = Map.empty, mn_stableScans = 0, mn_successfulReloads = 0, mn_failedReloads = 0\<rparr>"

definition monitor_step ::
    "nat \<Rightarrow> ('w \<Rightarrow> ('w \<times> unit res) option) \<Rightarrow> monitor \<times> 'w \<Rightarrow> Snapshot res \<Rightarrow> (monitor \<times> 'w) option" where
  "monitor_step stableScanCount reload mw scanned =
     (case mw of (m, w) \<Rightarrow>
      case scanned of
        Inl e \<Rightarrow> Some (m\<lparr>mn_failedReloads := Suc (mn_failedReloads m)\<rparr>, w)
      | Inr current \<Rightarrow>
          if current = mn_applied m then Some (m\<lparr>mn_stableScans := 0, mn_pending := Map.empty\<rparr>, w)
          else if mn_stableScans m = 0 \<or> current \<noteq> mn_pending m
            then Some (m\<lparr>mn_pending := current, mn_stableScans := 1\<rparr>, w)
          else let m1 = m\<lparr>mn_stableScans := Suc (mn_stableScans m)\<rparr> in
            if mn_stableScans m1 < stableScanCount then Some (m1, w)
            else case reload w of
                None \<Rightarrow> None
              | Some (w1, Inl e) \<Rightarrow> Some (m1\<lparr>mn_failedReloads := Suc (mn_failedReloads m1)\<rparr>, w1)
              | Some (w1, Inr _) \<Rightarrow> Some (m1\<lparr>mn_successfulReloads := Suc (mn_successfulReloads m1),
                    mn_applied := current, mn_pending := Map.empty, mn_stableScans := 0\<rparr>, w1))"

fun monitor_loop ::
    "nat \<Rightarrow> ('w \<Rightarrow> ('w \<times> unit res) option) \<Rightarrow> monitor \<times> 'w \<Rightarrow> Snapshot res list \<Rightarrow> (monitor \<times> 'w) option" where
  "monitor_loop stableScanCount reload mw [] = Some mw"
| "monitor_loop stableScanCount reload mw (scanned # rest) =
     (case monitor_step stableScanCount reload mw scanned of
        None \<Rightarrow> None | Some mw1 \<Rightarrow> monitor_loop stableScanCount reload mw1 rest)"

section \<open>When the bundles are reloaded\<close>

text \<open>The successful scans, and how many of the latest of them show one snapshot.\<close>

fun seen :: "Snapshot res list \<Rightarrow> Snapshot list" where
  "seen [] = []"
| "seen (Inl e # rest) = seen rest"
| "seen (Inr x # rest) = x # seen rest"

lemma seen_append: "seen (xs @ ys) = seen xs @ seen ys"
  by (induction xs rule: seen.induct) simp_all

definition trailing :: "Snapshot \<Rightarrow> Snapshot list \<Rightarrow> nat" where
  "trailing x xs = length (takeWhile (\<lambda>y. y = x) (rev xs))"

lemma trailing_simps [simp]:
  "trailing x [] = 0" "trailing x (xs @ [y]) = (if y = x then Suc (trailing x xs) else 0)"
  by (simp_all add: trailing_def)

definition monitor_inv :: "monitor \<Rightarrow> Snapshot list \<Rightarrow> bool" where
  "monitor_inv m xs \<longleftrightarrow>
     (case rev xs of
        [] \<Rightarrow> mn_stableScans m = 0
      | x # _ \<Rightarrow> if x = mn_applied m then mn_stableScans m = 0
                else mn_pending m = x \<and> mn_stableScans m = trailing x xs)"

lemma monitor_inv_pending:
  assumes "monitor_inv m xs"
  shows "mn_stableScans m \<noteq> 0 \<Longrightarrow> mn_stableScans m = trailing (mn_pending m) xs"
    "current \<noteq> mn_applied m \<Longrightarrow> mn_stableScans m = 0 \<or> current \<noteq> mn_pending m \<Longrightarrow> trailing current xs = 0"
proof -
  show "mn_stableScans m \<noteq> 0 \<Longrightarrow> mn_stableScans m = trailing (mn_pending m) xs"
    using assms by (cases xs rule: rev_cases) (auto simp: monitor_inv_def split: if_splits)
  show "current \<noteq> mn_applied m \<Longrightarrow> mn_stableScans m = 0 \<or> current \<noteq> mn_pending m \<Longrightarrow> trailing current xs = 0"
    using assms by (cases xs rule: rev_cases) (auto simp: monitor_inv_def split: if_splits)
qed

text \<open>One step, in terms of the successful scans before it.\<close>

definition due :: "nat \<Rightarrow> monitor \<Rightarrow> Snapshot list \<Rightarrow> Snapshot \<Rightarrow> bool" where
  "due n m xs current \<longleftrightarrow> current \<noteq> mn_applied m \<and> n \<le> trailing current (xs @ [current])"

lemma monitor_step_due:
  assumes "monitor_inv m xs" "2 \<le> n"
  shows "case monitor_step n reload (m, w) (Inr current) of
      None \<Rightarrow> due n m xs current \<and> reload w = None
    | Some (m', w') \<Rightarrow> monitor_inv m' (xs @ [current]) \<and>
        (if due n m xs current
         then (case reload w of
                 None \<Rightarrow> False
               | Some (w1, Inl _) \<Rightarrow> w' = w1 \<and> mn_applied m' = mn_applied m \<and>
                   mn_failedReloads m' = Suc (mn_failedReloads m) \<and> mn_successfulReloads m' = mn_successfulReloads m
               | Some (w1, Inr _) \<Rightarrow> w' = w1 \<and> mn_applied m' = current \<and>
                   mn_failedReloads m' = mn_failedReloads m \<and> mn_successfulReloads m' = Suc (mn_successfulReloads m))
         else w' = w \<and> mn_applied m' = mn_applied m \<and>
           mn_failedReloads m' = mn_failedReloads m \<and> mn_successfulReloads m' = mn_successfulReloads m)"
proof -
  consider "current = mn_applied m"
    | "current \<noteq> mn_applied m" "mn_stableScans m = 0 \<or> current \<noteq> mn_pending m"
    | "current \<noteq> mn_applied m" "mn_stableScans m \<noteq> 0" "current = mn_pending m"
    by blast
  then show ?thesis
  proof cases
    case 1
    then show ?thesis by (simp add: monitor_step_def due_def monitor_inv_def)
  next
    case 2
    then have "trailing current xs = 0" using monitor_inv_pending(2) [OF assms(1)] by blast
    with 2 assms(2) show ?thesis by (simp add: monitor_step_def due_def monitor_inv_def)
  next
    case 3
    then have t: "mn_stableScans m = trailing current xs" using monitor_inv_pending(1) [OF assms(1)] by blast
    show ?thesis
    proof (cases "reload w")
      case None
      with 3 t assms(2) show ?thesis by (simp add: monitor_step_def due_def monitor_inv_def Let_def)
    next
      case (Some o1)
      obtain w1 r where "o1 = (w1, r)" by fastforce
      with Some 3 t assms(2) show ?thesis
        by (cases r) (simp_all add: monitor_step_def due_def monitor_inv_def Let_def)
    qed
  qed
qed

lemma monitor_loop_append:
  "monitor_loop n reload mw (xs @ ys) =
     (case monitor_loop n reload mw xs of None \<Rightarrow> None | Some mw1 \<Rightarrow> monitor_loop n reload mw1 ys)"
  by (induction n reload mw xs rule: monitor_loop.induct) (simp_all split: option.split)

lemma monitor_loop_inv:
  assumes "2 \<le> n"
  shows "monitor_loop n reload (monitor_new first, w0) scans = Some (m, w) \<Longrightarrow> monitor_inv m (seen scans)"
proof (induction scans arbitrary: m w rule: rev_induct)
  case Nil
  then show ?case by (auto simp: monitor_inv_def monitor_new_def)
next
  case (snoc x xs)
  then obtain m1 w1 where before: "monitor_loop n reload (monitor_new first, w0) xs = Some (m1, w1)"
      "monitor_step n reload (m1, w1) x = Some (m, w)"
    by (auto simp: monitor_loop_append split: option.splits)
  have m1: "monitor_inv m1 (seen xs)" using snoc.IH before(1) .
  show ?case
  proof (cases x)
    case (Inl e)
    with before(2) m1 show ?thesis by (auto simp: monitor_step_def seen_append monitor_inv_def split: list.splits)
  next
    case (Inr current)
    with monitor_step_due [OF m1 assms, where reload = reload and w = w1 and current = current] before(2) show ?thesis
      by (simp add: seen_append)
  qed
qed

text \<open>
  C20: After any sequence of scans, the next successful scan makes the bundle manager reload exactly when
  it shows something else than what was last applied and it completes a run of at least the configured
  number (two at least) of successful scans that all show it. A reload that succeeds makes the snapshot the
  applied one; one that throws is counted and tried again at the next scan that shows the same. In every
  other case the bundles are left alone.
\<close>

theorem bundle_manager_debounce:
  assumes "monitor_loop (effective_stableScanCount k) reload (monitor_new first, w0) scans = Some (m, w)"
  shows "case monitor_step (effective_stableScanCount k) reload (m, w) (Inr current) of
      None \<Rightarrow> reload w = None
    | Some (m', w') \<Rightarrow>
        if current \<noteq> mn_applied m \<and>
           max 2 k \<le> length (takeWhile (\<lambda>x. x = current) (rev (seen scans @ [current])))
        then (case reload w of
                None \<Rightarrow> False
              | Some (w1, Inl _) \<Rightarrow> w' = w1 \<and> mn_applied m' = mn_applied m \<and>
                  mn_failedReloads m' = Suc (mn_failedReloads m) \<and> mn_successfulReloads m' = mn_successfulReloads m
              | Some (w1, Inr _) \<Rightarrow> w' = w1 \<and> mn_applied m' = current \<and>
                  mn_failedReloads m' = mn_failedReloads m \<and> mn_successfulReloads m' = Suc (mn_successfulReloads m))
        else w' = w \<and> mn_applied m' = mn_applied m \<and>
          mn_failedReloads m' = mn_failedReloads m \<and> mn_successfulReloads m' = mn_successfulReloads m"
proof -
  have n: "2 \<le> effective_stableScanCount k" by (simp add: effective_stableScanCount_def)
  have due: "due (effective_stableScanCount k) m (seen scans) current \<longleftrightarrow> current \<noteq> mn_applied m \<and>
      max 2 k \<le> length (takeWhile (\<lambda>x. x = current) (rev (seen scans @ [current])))"
    unfolding due_def trailing_def effective_stableScanCount_def by (rule refl)
  note step = monitor_step_due [OF monitor_loop_inv [OF n assms] n, where reload = reload and w = w and current = current]
  show ?thesis
  proof (cases "monitor_step (effective_stableScanCount k) reload (m, w) (Inr current)")
    case None
    with step show ?thesis by simp
  next
    case (Some mw)
    obtain m' w' where "mw = (m', w')" by fastforce
    with step Some show ?thesis unfolding due [symmetric] by simp
  qed
qed

theorem bundle_manager_debounce_witness:
  "monitor_loop (effective_stableScanCount 3) (\<lambda>w. Some (Suc w, Inr ())) (monitor_new Map.empty, 0)
     [Inr [''a'' \<mapsto> (1, 2)], Inl SignedOverflow, Inr [''a'' \<mapsto> (1, 2)], Inr [''a'' \<mapsto> (1, 2)]] =
   Some (\<lparr>mn_applied = [''a'' \<mapsto> (1, 2)], mn_pending = Map.empty, mn_stableScans = 0,
     mn_successfulReloads = 1, mn_failedReloads = 1\<rparr>, Suc 0)"
proof -
  let ?x = "[''a'' \<mapsto> (1, 2)] :: Snapshot"
  let ?m = "\<lparr>mn_applied = Map.empty, mn_pending = ?x, mn_stableScans = 2,
     mn_successfulReloads = 0, mn_failedReloads = 1\<rparr>"
  have ne: "?x \<noteq> Map.empty" by simp
  have run: "monitor_loop (effective_stableScanCount 3) (\<lambda>w. Some (Suc w, Inr ())) (monitor_new Map.empty, 0 :: nat)
      [Inr ?x, Inl SignedOverflow, Inr ?x] = Some (?m, 0)"
    using ne by (simp add: monitor_step_def monitor_new_def effective_stableScanCount_def)
  have "case monitor_step (effective_stableScanCount 3) (\<lambda>w. Some (Suc w, Inr ())) (?m, 0) (Inr ?x) of
      None \<Rightarrow> False | Some (m', w') \<Rightarrow> w' = Suc 0 \<and> mn_applied m' = ?x"
    using bundle_manager_debounce [OF run, of ?x] ne by (simp split: option.splits prod.splits)
  then show ?thesis
    using run ne by (simp add: monitor_step_def monitor_new_def effective_stableScanCount_def)
qed

end
