(* ===== verification/TraceStore.thy ===== *)
theory TraceStore
  imports Protocol_IO
begin

text \<open>
  The store of business traces in memory (\<open>platform/observability/src/TraceStore.cpp\<close>): a bounded queue
  of spans that are replaced in place, lookups, and the summary of each trace. The fields of a span that
  the store only copies are the payload \<open>'r\<close>. The SQLite history is the parameter \<open>persist\<close> acting on a
  state \<open>'p\<close>; \<open>std::sort\<close> leaves the order of equal elements open and is the parameter \<open>srt\<close>.
\<close>

section \<open>Store\<close>

record 'r SpanSnapshot =
  sp_businessName :: string
  sp_businessInstanceId :: string
  sp_operation :: string
  sp_traceId :: string
  sp_spanId :: string
  sp_status :: string
  sp_startedUnixMicroseconds :: int
  sp_durationNanoseconds :: int
  sp_payload :: 'r

record TraceSummary =
  tm_traceId :: string
  tm_businessName :: string
  tm_businessInstanceId :: string
  tm_status :: string
  tm_startedUnixMicroseconds :: int
  tm_durationNanoseconds :: int
  tm_stepCount :: nat
  tm_failedOperation :: string

record ('r, 'p) TraceStore =
  ts_capacity :: nat
  ts_spans :: "'r SpanSnapshot list"
  ts_persistence :: "'p option"

definition TraceStore_new :: "nat \<Rightarrow> ('r, 'p) TraceStore res" where
  "TraceStore_new spanCapacity =
     (if spanCapacity = 0 then Inl (InvalidArgument ''trace store capacity must be greater than zero'')
      else Inr \<lparr>ts_capacity = spanCapacity, ts_spans = [], ts_persistence = None\<rparr>)"

fun replace_span :: "'r SpanSnapshot \<Rightarrow> 'r SpanSnapshot list \<Rightarrow> 'r SpanSnapshot list" where
  "replace_span span [] = [span]"
| "replace_span span (current # rest) =
     (if sp_traceId current = sp_traceId span \<and> sp_spanId current = sp_spanId span then span # rest
      else current # replace_span span rest)"

function drop_oldest :: "nat \<Rightarrow> 'r SpanSnapshot list \<Rightarrow> 'r SpanSnapshot list" where
  "drop_oldest capacity spans = (if capacity < length spans then drop_oldest capacity (tl spans) else spans)"
  by pat_completeness auto

termination
  by (relation "measure (\<lambda>(capacity, spans). length spans)") auto

declare drop_oldest.simps [simp del]

definition ts_upsert :: "('r SpanSnapshot \<Rightarrow> ('p, unit) io) \<Rightarrow> 'r SpanSnapshot \<Rightarrow> (('r, 'p) TraceStore, unit) io" where
  "ts_upsert persist span t =
     (let t1 = t\<lparr>ts_spans := drop_oldest (ts_capacity t) (replace_span span (ts_spans t))\<rparr>
      in case ts_persistence t1 of
           None \<Rightarrow> (t1, Inr ())
         | Some p \<Rightarrow> (case persist span p of (p', r) \<Rightarrow> (t1\<lparr>ts_persistence := Some p'\<rparr>, r)))"

definition ts_span :: "string \<Rightarrow> string \<Rightarrow> ('r, 'p) TraceStore \<Rightarrow> 'r SpanSnapshot option" where
  "ts_span traceId spanId t = find (\<lambda>s. sp_traceId s = traceId \<and> sp_spanId s = spanId) (ts_spans t)"

definition ts_trace ::
    "('r SpanSnapshot list \<Rightarrow> 'r SpanSnapshot list) \<Rightarrow> string \<Rightarrow> ('r, 'p) TraceStore \<Rightarrow> 'r SpanSnapshot list" where
  "ts_trace srt traceId t = srt (filter (\<lambda>s. sp_traceId s = traceId) (ts_spans t))"

definition ts_clear :: "('r, 'p) TraceStore \<Rightarrow> ('r, 'p) TraceStore" where
  "ts_clear t = t\<lparr>ts_spans := []\<rparr>"

definition TraceSummary_new :: TraceSummary where
  "TraceSummary_new = \<lparr>tm_traceId = [], tm_businessName = [], tm_businessInstanceId = [], tm_status = [],
     tm_startedUnixMicroseconds = 0, tm_durationNanoseconds = 0, tm_stepCount = 0, tm_failedOperation = []\<rparr>"

definition summary_step :: "TraceSummary \<Rightarrow> 'r SpanSnapshot \<Rightarrow> TraceSummary" where
  "summary_step m span =
     (let m1 = m\<lparr>tm_traceId := sp_traceId span, tm_businessName := sp_businessName span,
            tm_businessInstanceId := sp_businessInstanceId span, tm_stepCount := Suc (tm_stepCount m),
            tm_startedUnixMicroseconds :=
              (if tm_startedUnixMicroseconds m = 0 \<or> sp_startedUnixMicroseconds span < tm_startedUnixMicroseconds m
               then sp_startedUnixMicroseconds span else tm_startedUnixMicroseconds m),
            tm_durationNanoseconds := max (tm_durationNanoseconds m) (sp_durationNanoseconds span)\<rparr>
      in if sp_status span = ''failed''
           then m1\<lparr>tm_status := ''failed'', tm_failedOperation := sp_operation span\<rparr>
         else if tm_status m1 \<noteq> ''failed'' \<and> sp_status span = ''running'' then m1\<lparr>tm_status := ''running''\<rparr>
         else if tm_status m1 = [] then m1\<lparr>tm_status := sp_status span\<rparr>
         else m1)"

definition summaries_step :: "(string \<times> TraceSummary) list \<Rightarrow> 'r SpanSnapshot \<Rightarrow> (string \<times> TraceSummary) list" where
  "summaries_step m span =
     (let old = (case smap_get (<) (sp_traceId span) m of None \<Rightarrow> TraceSummary_new | Some x \<Rightarrow> x)
      in smap_put (<) (sp_traceId span) (summary_step old span) m)"

definition ts_recent ::
    "(TraceSummary list \<Rightarrow> TraceSummary list) \<Rightarrow> nat \<Rightarrow> ('r, 'p) TraceStore \<Rightarrow> TraceSummary list" where
  "ts_recent srt limit t = take limit (srt (map snd (foldl summaries_step [] (ts_spans t))))"

section \<open>The bounded store\<close>

abbreviation span_key :: "'r SpanSnapshot \<Rightarrow> string \<times> string" where
  "span_key s \<equiv> (sp_traceId s, sp_spanId s)"

definition store_inv :: "('r, 'p) TraceStore \<Rightarrow> bool" where
  "store_inv t \<longleftrightarrow> 0 < ts_capacity t \<and> length (ts_spans t) \<le> ts_capacity t \<and> distinct (map span_key (ts_spans t))"

lemma drop_oldest_drop: "drop_oldest n xs = drop (length xs - n) xs"
proof (induction n xs rule: drop_oldest.induct)
  case (1 n xs)
  show ?case
  proof (cases "n < length xs")
    case True
    then have "drop_oldest n xs = drop (length (tl xs) - n) (tl xs)"
      using 1 by (simp add: drop_oldest.simps [of n xs])
    also have "\<dots> = drop (Suc (length (tl xs) - n)) xs" by (simp add: drop_Suc)
    also have "Suc (length (tl xs) - n) = length xs - n" using True by simp
    finally show ?thesis .
  qed (simp add: drop_oldest.simps [of n xs])
qed

lemma replace_span_old:
  "span_key s \<in> span_key ` set xs \<Longrightarrow> map span_key (replace_span s xs) = map span_key xs"
  by (induction xs) auto

lemma replace_span_new: "span_key s \<notin> span_key ` set xs \<Longrightarrow> replace_span s xs = xs @ [s]"
  by (induction xs) auto

lemma find_replace_same:
  "find (\<lambda>x. sp_traceId x = sp_traceId s \<and> sp_spanId x = sp_spanId s) (replace_span s xs) = Some s"
  by (induction xs) auto

lemma find_replace_other:
  "(a, b) \<noteq> span_key s \<Longrightarrow> find (\<lambda>x. sp_traceId x = a \<and> sp_spanId x = b) (replace_span s xs) =
     find (\<lambda>x. sp_traceId x = a \<and> sp_spanId x = b) xs"
  by (induction xs) auto

lemma ts_spans_upsert:
  "ts_spans (fst (ts_upsert persist s t)) = drop_oldest (ts_capacity t) (replace_span s (ts_spans t))"
  "ts_capacity (fst (ts_upsert persist s t)) = ts_capacity t"
  by (simp_all add: ts_upsert_def Let_def split: option.split prod.split)

text \<open>What one \<open>upsert\<close> does to the list: in place, appended, or appended with the oldest span dropped.\<close>

lemma upsert_cases:
  assumes "store_inv t"
  shows "span_key s \<in> span_key ` set (ts_spans t) \<Longrightarrow>
      ts_spans (fst (ts_upsert persist s t)) = replace_span s (ts_spans t)"
    "span_key s \<notin> span_key ` set (ts_spans t) \<Longrightarrow> length (ts_spans t) < ts_capacity t \<Longrightarrow>
      ts_spans (fst (ts_upsert persist s t)) = ts_spans t @ [s]"
    "span_key s \<notin> span_key ` set (ts_spans t) \<Longrightarrow> length (ts_spans t) = ts_capacity t \<Longrightarrow>
      ts_spans (fst (ts_upsert persist s t)) = tl (ts_spans t) @ [s]"
proof -
  have "length (replace_span s (ts_spans t)) = length (ts_spans t)" if "span_key s \<in> span_key ` set (ts_spans t)"
    using replace_span_old [OF that] by (metis length_map)
  then show "span_key s \<in> span_key ` set (ts_spans t) \<Longrightarrow>
      ts_spans (fst (ts_upsert persist s t)) = replace_span s (ts_spans t)"
    using assms by (simp add: ts_spans_upsert drop_oldest_drop store_inv_def)
  show "span_key s \<notin> span_key ` set (ts_spans t) \<Longrightarrow> length (ts_spans t) < ts_capacity t \<Longrightarrow>
      ts_spans (fst (ts_upsert persist s t)) = ts_spans t @ [s]"
    by (simp add: ts_spans_upsert drop_oldest_drop replace_span_new)
  show "span_key s \<notin> span_key ` set (ts_spans t) \<Longrightarrow> length (ts_spans t) = ts_capacity t \<Longrightarrow>
      ts_spans (fst (ts_upsert persist s t)) = tl (ts_spans t) @ [s]"
    by (simp add: ts_spans_upsert drop_oldest_drop replace_span_new drop_Suc)
       (use assms in \<open>cases "ts_spans t", simp_all add: store_inv_def\<close>)
qed

lemma upsert_keeps_inv:
  assumes "store_inv t"
  shows "store_inv (fst (ts_upsert persist s t))"
proof -
  consider "span_key s \<in> span_key ` set (ts_spans t)"
    | "span_key s \<notin> span_key ` set (ts_spans t)" "length (ts_spans t) < ts_capacity t"
    | "span_key s \<notin> span_key ` set (ts_spans t)" "length (ts_spans t) = ts_capacity t"
    using assms by (fastforce simp: store_inv_def)
  then show ?thesis
  proof cases
    case 1
    then have "map span_key (replace_span s (ts_spans t)) = map span_key (ts_spans t)" by (rule replace_span_old)
    moreover from this have "length (replace_span s (ts_spans t)) = length (ts_spans t)" by (metis length_map)
    ultimately show ?thesis
      using assms upsert_cases(1) [OF assms 1] by (simp add: store_inv_def ts_spans_upsert(2))
  next
    case 2
    with assms upsert_cases(2) [OF assms 2] show ?thesis
      by (auto simp: store_inv_def ts_spans_upsert(2))
  next
    case 3
    obtain y ys where ys: "ts_spans t = y # ys" using 3(2) assms by (cases "ts_spans t") (auto simp: store_inv_def)
    have "span_key s \<notin> span_key ` set ys" using 3(1) by (simp add: ys)
    with 3(2) assms upsert_cases(3) [OF assms 3] show ?thesis
      by (simp add: store_inv_def ts_spans_upsert(2) ys)
  qed
qed

lemma find_tl:
  assumes "distinct (map span_key xs)" "xs \<noteq> []"
  shows "find (\<lambda>x. sp_traceId x = a \<and> sp_spanId x = b) (tl xs @ [s]) =
    (if (a, b) = span_key s \<and> (a, b) \<notin> span_key ` set (tl xs) then Some s
     else if (a, b) = span_key (hd xs) then None
     else find (\<lambda>x. sp_traceId x = a \<and> sp_spanId x = b) xs)"
proof -
  have app: "find P (ys @ [y]) = (case find P ys of None \<Rightarrow> if P y then Some y else None | Some z \<Rightarrow> Some z)"
    for P and ys :: "'a SpanSnapshot list" and y
    by (induction ys) simp_all
  have none: "find (\<lambda>x. sp_traceId x = a \<and> sp_spanId x = b) ys = None \<longleftrightarrow> (a, b) \<notin> span_key ` set ys"
    for ys :: "'a SpanSnapshot list"
    by (auto simp: find_None_iff)
  obtain y ys where xs: "xs = y # ys" using assms(2) by (cases xs) auto
  then have y: "span_key y \<notin> span_key ` set ys" using assms(1) by auto
  show ?thesis
  proof (cases "(a, b) \<in> span_key ` set ys")
    case True
    then obtain z where "find (\<lambda>x. sp_traceId x = a \<and> sp_spanId x = b) ys = Some z" using none by fastforce
    with True y show ?thesis by (auto simp: xs app)
  next
    case False
    then have "find (\<lambda>x. sp_traceId x = a \<and> sp_spanId x = b) ys = None" using none by blast
    with False show ?thesis by (auto simp: xs app)
  qed
qed

lemma upsert_lookup:
  assumes "store_inv t"
  shows "ts_span a b (fst (ts_upsert persist s t)) =
    (if (a, b) = span_key s then Some s
     else if span_key s \<notin> span_key ` set (ts_spans t) \<and> length (ts_spans t) = ts_capacity t \<and>
             (a, b) = span_key (hd (ts_spans t)) then None
     else ts_span a b t)"
proof -
  consider "span_key s \<in> span_key ` set (ts_spans t)"
    | "span_key s \<notin> span_key ` set (ts_spans t)" "length (ts_spans t) < ts_capacity t"
    | "span_key s \<notin> span_key ` set (ts_spans t)" "length (ts_spans t) = ts_capacity t"
    using assms by (fastforce simp: store_inv_def)
  then show ?thesis
  proof cases
    case 1
    then show ?thesis
      using upsert_cases(1) [OF assms 1, of persist] find_replace_same [of s "ts_spans t"]
        find_replace_other [of a b s "ts_spans t"]
      by (auto simp: ts_span_def)
  next
    case 2
    then show ?thesis
      using upsert_cases(2) [OF assms 2, of persist] replace_span_new [OF 2(1)]
        find_replace_same [of s "ts_spans t"] find_replace_other [of a b s "ts_spans t"]
      by (auto simp: ts_span_def)
  next
    case 3
    have ne: "ts_spans t \<noteq> []" using 3(2) assms by (auto simp: store_inv_def)
    then have "span_key s \<notin> span_key ` set (tl (ts_spans t))" using 3(1) by (cases "ts_spans t") auto
    then show ?thesis
      using upsert_cases(3) [OF assms 3, of persist] find_tl [OF _ ne, of a b s] assms 3 ne
      by (auto simp: ts_span_def store_inv_def)
  qed
qed

datatype 'r store_call = Upsert "'r SpanSnapshot" | Clear

fun store_step :: "('r SpanSnapshot \<Rightarrow> ('p, unit) io) \<Rightarrow> ('r, 'p) TraceStore \<Rightarrow> 'r store_call \<Rightarrow> ('r, 'p) TraceStore" where
  "store_step persist t (Upsert span) = fst (ts_upsert persist span t)"
| "store_step persist t Clear = ts_clear t"

lemma store_steps_inv: "store_inv t \<Longrightarrow> store_inv (foldl (store_step persist) t calls)"
proof (induction calls arbitrary: t)
  case (Cons c calls)
  have "store_inv (store_step persist t c)"
    using Cons.prems upsert_keeps_inv by (cases c) (auto simp: ts_clear_def store_inv_def)
  with Cons show ?case by simp
qed simp

text \<open>
  After any sequence of insertions and clearings a trace store holds at most as many spans as its
  capacity and no two with the same trace and span id. A span that has just been inserted is found, and no
  other lookup changes, except that a new span in a full store takes the place of the oldest one. A
  capacity of zero is refused.
\<close>

theorem trace_store_lookup:
  "case TraceStore_new capacity of
     Inl _ \<Rightarrow> capacity = 0
   | Inr t0 \<Rightarrow> let t = foldl (store_step persist) t0 calls; t' = fst (ts_upsert persist s t) in
       length (ts_spans t) \<le> ts_capacity t \<and> distinct (map (\<lambda>x. (sp_traceId x, sp_spanId x)) (ts_spans t)) \<and>
       ts_span a b t' =
         (if a = sp_traceId s \<and> b = sp_spanId s then Some s
          else if (sp_traceId s, sp_spanId s) \<notin> (\<lambda>x. (sp_traceId x, sp_spanId x)) ` set (ts_spans t) \<and>
                  length (ts_spans t) = ts_capacity t \<and>
                  (a, b) = (sp_traceId (hd (ts_spans t)), sp_spanId (hd (ts_spans t))) then None
          else ts_span a b t)"
proof (cases "capacity = 0")
  case False
  define t where "t = foldl (store_step persist) \<lparr>ts_capacity = capacity, ts_spans = [], ts_persistence = None\<rparr> calls"
  have inv: "store_inv t"
    unfolding t_def by (rule store_steps_inv) (use False in \<open>simp add: store_inv_def\<close>)
  have new: "TraceStore_new capacity = Inr \<lparr>ts_capacity = capacity, ts_spans = [], ts_persistence = None\<rparr>"
    using False by (simp add: TraceStore_new_def)
  show ?thesis
    using inv upsert_lookup [OF inv, of a b persist s]
    unfolding new sum.case Let_def t_def [symmetric] by (simp add: store_inv_def)
qed (simp add: TraceStore_new_def)

section \<open>Summaries\<close>

lemma summaries_get:
  "string_order.wf_map m \<Longrightarrow>
   string_order.wf_map (foldl summaries_step m spans) \<and>
   smap_get (<) t (foldl summaries_step m spans) =
     (let ss = filter (\<lambda>s. sp_traceId s = t) spans;
          old = (case smap_get (<) t m of None \<Rightarrow> TraceSummary_new | Some x \<Rightarrow> x)
      in if ss = [] then smap_get (<) t m else Some (foldl summary_step old ss))"
proof (induction spans arbitrary: m)
  case (Cons s spans)
  have wf: "string_order.wf_map (summaries_step m s)"
    using string_order.put_keeps_wf [OF Cons.prems] by (simp add: summaries_step_def Let_def)
  have get: "smap_get (<) t (summaries_step m s) =
      (if sp_traceId s = t
       then Some (summary_step (case smap_get (<) t m of None \<Rightarrow> TraceSummary_new | Some x \<Rightarrow> x) s)
       else smap_get (<) t m)"
    using string_order.get_put_other [OF _ Cons.prems, of "sp_traceId s" t]
    by (simp add: summaries_step_def Let_def string_order.get_put_same)
  show ?case using Cons.IH [OF wf] by (simp add: get Let_def)
qed simp

definition summary_status :: "string list \<Rightarrow> string" where
  "summary_status ss =
     (if ''failed'' \<in> set ss then ''failed'' else if ''running'' \<in> set ss then ''running''
      else case filter (\<lambda>x. x \<noteq> []) ss of [] \<Rightarrow> [] | x # _ \<Rightarrow> x)"

lemma summary_status_snoc:
  "summary_status (ss @ [x]) =
     (if x = ''failed'' then ''failed''
      else if summary_status ss \<noteq> ''failed'' \<and> x = ''running'' then ''running''
      else if summary_status ss = [] then x else summary_status ss)"
proof -
  have sub: "filter (\<lambda>x. x \<noteq> []) ss = y # ys \<Longrightarrow> y \<in> set ss \<and> y \<noteq> []" for y ys
    by (auto simp: filter_eq_Cons_iff)
  show ?thesis
    by (cases "filter (\<lambda>x. x \<noteq> []) ss") (auto simp: summary_status_def dest!: sub)
qed

lemma summary_fields:
  "ss \<noteq> [] \<Longrightarrow> tm_traceId (foldl summary_step TraceSummary_new ss) = sp_traceId (List.last ss)"
  "tm_status (foldl summary_step TraceSummary_new ss) = summary_status (map sp_status ss)"
  "tm_stepCount (foldl summary_step TraceSummary_new ss) = length ss"
  "tm_durationNanoseconds (foldl summary_step TraceSummary_new ss) = foldl max 0 (map sp_durationNanoseconds ss)"
  "tm_failedOperation (foldl summary_step TraceSummary_new ss) =
     (case rev (filter (\<lambda>s. sp_status s = ''failed'') ss) of [] \<Rightarrow> [] | s # _ \<Rightarrow> sp_operation s)"
proof -
  show "ss \<noteq> [] \<Longrightarrow> tm_traceId (foldl summary_step TraceSummary_new ss) = sp_traceId (List.last ss)"
    by (cases ss rule: rev_cases) (simp_all add: summary_step_def Let_def)
  show "tm_status (foldl summary_step TraceSummary_new ss) = summary_status (map sp_status ss)"
    by (induction ss rule: rev_induct)
       (simp_all add: summary_step_def Let_def summary_status_snoc,
        simp add: summary_status_def TraceSummary_new_def)
qed (induction ss rule: rev_induct; simp add: summary_step_def Let_def TraceSummary_new_def)+

text \<open>
  The summary of a trace is exact: it exists exactly when the store has a span of the trace, counts
  these spans, has their longest duration, is failed when one of them failed, with the operation of the
  last that did, else running when one of them runs, and else has the first status any of them gives.
\<close>

theorem trace_summary_exact:
  "case smap_get (<) t (foldl summaries_step [] spans) of
     None \<Rightarrow> filter (\<lambda>s. sp_traceId s = t) spans = []
   | Some m \<Rightarrow> (let ss = filter (\<lambda>s. sp_traceId s = t) spans in
       ss \<noteq> [] \<and> tm_traceId m = t \<and> tm_stepCount m = length ss \<and>
       tm_durationNanoseconds m = foldl max 0 (map sp_durationNanoseconds ss) \<and>
       tm_status m = (if ''failed'' \<in> sp_status ` set ss then ''failed''
         else if ''running'' \<in> sp_status ` set ss then ''running''
         else case filter (\<lambda>x. x \<noteq> []) (map sp_status ss) of [] \<Rightarrow> [] | x # _ \<Rightarrow> x) \<and>
       tm_failedOperation m =
         (case rev (filter (\<lambda>s. sp_status s = ''failed'') ss) of [] \<Rightarrow> [] | s # _ \<Rightarrow> sp_operation s))"
proof -
  define ss where "ss = filter (\<lambda>s. sp_traceId s = t) spans"
  have get: "smap_get (<) t (foldl summaries_step [] spans) =
      (if ss = [] then None else Some (foldl summary_step TraceSummary_new ss))"
    using summaries_get [of "[]" spans t] by (simp add: ss_def Let_def string_order.wf_map_def)
  show ?thesis
  proof (cases "ss = []")
    case True
    with get show ?thesis by (simp add: ss_def)
  next
    case False
    then have "sp_traceId (List.last ss) = t" using last_in_set [OF False] by (simp add: ss_def)
    with False show ?thesis
      unfolding get ss_def [symmetric] by (simp add: summary_fields summary_status_def Let_def)
  qed
qed

end
