(* ===== verification/Web_Paths.thy ===== *)
theory Web_Paths
  imports Prelude "HOL-Library.Sublist"
begin

text \<open>
  The virtual paths of the web server (\<open>platform/OSP/Web\<close>): the table of path mappings of
  \<open>WebServerDispatcher\<close> with its specialization modes, registration, removal, and the mapping of a request
  path to its virtual path. \<open>_pathMap\<close> is a \<open>std::map\<close>, a list sorted by path. \<open>Poco::Path\<close> and the regular
  expressions are Poco's: a record of the functions the code calls, with what it relies on in
  \<open>path_laws\<close>, and a matching predicate. Bundles are the addresses of bundle objects.
\<close>

section \<open>The data of a mapping\<close>

datatype SpecializationMode = SM_NONE | SM_OWNER | SM_ALL

fun mode_value :: "SpecializationMode \<Rightarrow> nat" where
  "mode_value SM_NONE = 0" | "mode_value SM_OWNER = 1" | "mode_value SM_ALL = 2"

instantiation SpecializationMode :: linorder
begin

definition less_eq_SpecializationMode :: "SpecializationMode \<Rightarrow> SpecializationMode \<Rightarrow> bool" where
  "less_eq_SpecializationMode a b \<longleftrightarrow> mode_value a \<le> mode_value b"

definition less_SpecializationMode :: "SpecializationMode \<Rightarrow> SpecializationMode \<Rightarrow> bool" where
  "less_SpecializationMode a b \<longleftrightarrow> mode_value a < mode_value b"

instance
proof
  fix x y :: SpecializationMode
  show "x \<le> y \<Longrightarrow> y \<le> x \<Longrightarrow> x = y"
    by (cases x; cases y) (simp_all add: less_eq_SpecializationMode_def)
qed (auto simp: less_eq_SpecializationMode_def less_SpecializationMode_def)

end

datatype ResponseFormat = RESPONSE_FORMAT_HTML | RESPONSE_FORMAT_JSON

record PathSecurity =
  sec_mode :: SpecializationMode
  sec_realm :: string
  sec_permission :: string
  sec_authMethods :: int
  sec_session :: string
  sec_secure :: bool
  sec_csrfProtection :: bool
  sec_csrfTokenHeader :: string

definition PathSecurity_default :: PathSecurity where
  "PathSecurity_default = \<lparr>sec_mode = SM_OWNER, sec_realm = [], sec_permission = [], sec_authMethods = 0,
     sec_session = [], sec_secure = False, sec_csrfProtection = False, sec_csrfTokenHeader = []\<rparr>"

record PathCORS =
  cors_enable :: bool
  cors_allowOrigin :: string
  cors_allowMethods :: string
  cors_allowCredentials :: bool
  cors_allowHeaders :: string

definition PathCORS_default :: PathCORS where
  "PathCORS_default = \<lparr>cors_enable = False, cors_allowOrigin = [], cors_allowMethods = [],
     cors_allowCredentials = True, cors_allowHeaders = []\<rparr>"

text \<open>
  \<open>vp_pPattern\<close> is the text a compiled expression was made from, \<open>vp_pFactory\<close> the address of the request
  handler factory; \<open>vp_methods\<close> is the \<open>std::set\<close> as its sorted list.
\<close>

record VirtualPath =
  vp_pPattern :: "string option"
  vp_path :: string
  vp_methods :: "string list"
  vp_description :: string
  vp_resource :: string
  vp_indexPage :: string
  vp_pFactory :: "nat option"
  vp_security :: PathSecurity
  vp_cors :: PathCORS
  vp_hidden :: bool
  vp_cache :: bool
  vp_exactMatch :: bool
  vp_responseFormat :: ResponseFormat
  vp_pOwnerBundle :: nat

definition VirtualPath_default :: "nat \<Rightarrow> VirtualPath" where
  "VirtualPath_default pOwner = \<lparr>vp_pPattern = None, vp_path = [], vp_methods = [], vp_description = [], vp_resource = [],
     vp_indexPage = [], vp_pFactory = None, vp_security = PathSecurity_default, vp_cors = PathCORS_default,
     vp_hidden = False, vp_cache = True, vp_exactMatch = False, vp_responseFormat = RESPONSE_FORMAT_HTML,
     vp_pOwnerBundle = pOwner\<rparr>"

record PathInfo =
  pi_description :: string
  pi_permission :: string
  pi_session :: string
  pi_pBundle :: nat

type_synonym path_map = "(string \<times> VirtualPath) list"

record path_table =
  pt_pathMap :: path_map
  pt_patternVec :: "VirtualPath list"

section \<open>Poco::Path\<close>

text \<open>
  The functions of \<open>Poco::Path\<close> the code calls: the constructors from a string in UNIX and in native format,
  \<open>makeDirectory\<close>, \<open>toString(PATH_UNIX)\<close>, and the directories \<open>p[0]\<close> to \<open>p[depth() - 1]\<close>.
\<close>

record 'p path_api =
  pa_unix :: "string \<Rightarrow> 'p res"
  pa_native :: "string \<Rightarrow> 'p res"
  pa_makeDirectory :: "'p \<Rightarrow> 'p"
  pa_toString :: "'p \<Rightarrow> string"
  pa_directories :: "'p \<Rightarrow> string list"

definition unix_dir :: "string list \<Rightarrow> string" where
  "unix_dir ds = ''/'' @ concat (map (\<lambda>d. d @ ''/'') ds)"

definition legal_name :: "string \<Rightarrow> bool" where
  "legal_name d \<longleftrightarrow> d \<noteq> [] \<and> CHR ''/'' \<notin> set d"

text \<open>
  What the code relies on. An absolute path without a colon (which would be a device) is accepted; made a
  directory it prints as its directories, each followed by a slash and none of them empty or with a slash in
  it; and a printed directory reads back, in both formats, as the same directories, the root as none.
\<close>

definition path_laws :: "'p path_api \<Rightarrow> bool" where
  "path_laws A \<longleftrightarrow> (\<forall>s. s \<noteq> [] \<and> hd s = CHR ''/'' \<and> CHR '':'' \<notin> set s \<longrightarrow>
     (\<exists>p u v. pa_unix A s = Inr p
       \<and> pa_toString A (pa_makeDirectory A p) = unix_dir (pa_directories A (pa_makeDirectory A p))
       \<and> list_all legal_name (pa_directories A (pa_makeDirectory A p))
       \<and> pa_unix A (unix_dir (pa_directories A (pa_makeDirectory A p))) = Inr u
       \<and> pa_directories A u = pa_directories A (pa_makeDirectory A p)
       \<and> pa_native A (unix_dir (pa_directories A (pa_makeDirectory A p))) = Inr v
       \<and> pa_directories A v = pa_directories A (pa_makeDirectory A p)))
   \<and> (\<exists>u v. pa_unix A ''/'' = Inr u \<and> pa_directories A u = [] \<and> pa_native A ''/'' = Inr v \<and> pa_directories A v = [])"

section \<open>Registration\<close>

definition normalizePath :: "'p path_api \<Rightarrow> string \<Rightarrow> string res" where
  "normalizePath A path =
     (if path \<noteq> [] then
        (let absPath = (if hd path \<noteq> CHR ''/'' then ''/'' @ path else path) in
         if absPath \<noteq> ''/'' then rbind (pa_unix A absPath) (\<lambda>p. Inr (pa_toString A (pa_makeDirectory A p)))
         else Inr ''/'')
      else Inr ''/'')"

text \<open>
  The condition both directions of the check share: the mapping \<open>parent\<close> forbids \<open>child\<close> below it.
\<close>

definition forbids :: "VirtualPath \<Rightarrow> VirtualPath \<Rightarrow> bool" where
  "forbids parent child \<longleftrightarrow>
     sec_mode (vp_security parent) < sec_mode (vp_security child)
     \<or> sec_mode (vp_security parent) = SM_NONE
     \<or> sec_mode (vp_security parent) = SM_OWNER \<and> vp_pOwnerBundle child \<noteq> vp_pOwnerBundle parent"

definition check_entry :: "path_map \<Rightarrow> VirtualPath \<Rightarrow> string \<Rightarrow> unit res" where
  "check_entry m vPath entry =
     (case smap_get (<) entry m of
        None \<Rightarrow> Inr ()
      | Some e \<Rightarrow> if forbids e vPath \<or> vp_path vPath = entry
          then Inl (InvalidArgument (''A protected path mapping ('' @ vp_path e @
                 '') already exists for that virtual path: '' @ vp_path vPath))
          else Inr ())"

text \<open>The loop over the directories of the path; it returns the last \<open>entry\<close>.\<close>

fun check_parents :: "path_map \<Rightarrow> VirtualPath \<Rightarrow> string \<Rightarrow> string list \<Rightarrow> string res" where
  "check_parents m vPath entry [] = Inr entry"
| "check_parents m vPath entry (d # ds) =
     (let entry' = entry @ d @ ''/'' in
      rbind (check_entry m vPath entry') (\<lambda>_. check_parents m vPath entry' ds))"

text \<open>The loop over the entries that follow the new one for as long as they lie below it.\<close>

fun check_children :: "VirtualPath \<Rightarrow> path_map \<Rightarrow> unit res" where
  "check_children vPath [] = Inr ()"
| "check_children vPath ((k, child) # rest) =
     (if vp_path vPath = take (length (vp_path vPath)) k
      then if forbids vPath child
           then Inl (SyntaxException (''A protected child mapping ('' @ vp_path child @
                  '') already exists for that virtual path: '' @ vp_path vPath))
           else check_children vPath rest
      else Inr ())"

text \<open>
  \<open>addVirtualPath\<close>; \<open>dbg\<close> is whether the debug assertions are compiled in. The iterator \<open>it\<close> starts one past
  the entry just inserted.
\<close>

definition addVirtualPath :: "bool \<Rightarrow> 'p path_api \<Rightarrow> VirtualPath \<Rightarrow> path_table \<Rightarrow> path_table \<times> unit res" where
  "addVirtualPath dbg A virtualPath t =
     (if vp_pPattern virtualPath \<noteq> None
      then (t\<lparr>pt_patternVec := pt_patternVec t @ [virtualPath]\<rparr>, Inr ())
      else
        case rbind (normalizePath A (vp_path virtualPath)) (\<lambda>n. rbind (pa_native A n) (\<lambda>path. Inr (n, path))) of
          Inl e \<Rightarrow> (t, Inl e)
        | Inr (n, path) \<Rightarrow>
            let vPath = virtualPath\<lparr>vp_path := n\<rparr> in
            case rbind (check_entry (pt_pathMap t) vPath ''/'')
                   (\<lambda>_. check_parents (pt_pathMap t) vPath ''/'' (pa_directories A path)) of
              Inl e \<Rightarrow> (t, Inl e)
            | Inr entry \<Rightarrow>
                if dbg \<and> entry \<noteq> vp_path vPath then (t, Inl AssertionViolation)
                else
                  let m = (if smap_get (<) n (pt_pathMap t) = None then smap_put (<) n vPath (pt_pathMap t)
                           else pt_pathMap t) in
                  case check_children vPath (tl (dropWhile (\<lambda>e. fst e \<noteq> n) m)) of
                    Inl e \<Rightarrow> (t\<lparr>pt_pathMap := smap_del (<) n m\<rparr>, Inl e)
                  | Inr _ \<Rightarrow> (t\<lparr>pt_pathMap := m\<rparr>, Inr ()))"

fun erase_pattern :: "string \<Rightarrow> VirtualPath list \<Rightarrow> VirtualPath list" where
  "erase_pattern p [] = []"
| "erase_pattern p (v # vs) = (if vp_path v = p then vs else v # erase_pattern p vs)"

definition removeVirtualPath :: "'p path_api \<Rightarrow> string \<Rightarrow> path_table \<Rightarrow> path_table \<times> unit res" where
  "removeVirtualPath A virtualPath t =
     (case normalizePath A virtualPath of
        Inl e \<Rightarrow> (t, Inl e)
      | Inr vPath \<Rightarrow>
          (if smap_get (<) vPath (pt_pathMap t) \<noteq> None
           then (t\<lparr>pt_pathMap := smap_del (<) vPath (pt_pathMap t)\<rparr>, Inr ())
           else (t\<lparr>pt_patternVec := erase_pattern virtualPath (pt_patternVec t)\<rparr>, Inr ())))"

definition listVirtualPaths :: "path_table \<Rightarrow> (string \<times> PathInfo) list" where
  "listVirtualPaths t = map (\<lambda>(k, v). (k, \<lparr>pi_description = vp_description v,
       pi_permission = sec_permission (vp_security v), pi_session = sec_session (vp_security v),
       pi_pBundle = vp_pOwnerBundle v\<rparr>))
     (filter (\<lambda>(k, v). \<not> vp_hidden v) (pt_pathMap t))"

text \<open>\<open>removeBundle\<close>: two loops that erase the entries of a bundle.\<close>

definition removeBundle :: "nat \<Rightarrow> path_table \<Rightarrow> path_table" where
  "removeBundle pBundle t =
     t\<lparr>pt_pathMap := filter (\<lambda>(k, v). vp_pOwnerBundle v \<noteq> pBundle) (pt_pathMap t),
       pt_patternVec := filter (\<lambda>v. vp_pOwnerBundle v \<noteq> pBundle) (pt_patternVec t)\<rparr>"

section \<open>Mapping a request path\<close>

definition method_allowed :: "VirtualPath \<Rightarrow> string \<Rightarrow> bool" where
  "method_allowed v m \<longleftrightarrow> vp_methods v = [] \<or> m \<in> set (vp_methods v)"

text \<open>The loop over the patterns: the first match, then every later match whose methods fit.\<close>

fun find_pattern :: "(string \<Rightarrow> string \<Rightarrow> bool) \<Rightarrow> string \<Rightarrow> string \<Rightarrow> VirtualPath option \<Rightarrow> VirtualPath list
  \<Rightarrow> VirtualPath option" where
  "find_pattern re path meth found [] = found"
| "find_pattern re path meth found (v # vs) =
     find_pattern re path meth
       (if re (case vp_pPattern v of None \<Rightarrow> [] | Some r \<Rightarrow> r) path
        then if found = None \<or> method_allowed v meth then Some v else found
        else found) vs"

fun find_parent :: "path_map \<Rightarrow> string \<Rightarrow> VirtualPath option \<Rightarrow> string list \<Rightarrow> VirtualPath option" where
  "find_parent m parent found [] = found"
| "find_parent m parent found (d # ds) =
     (let parent' = parent @ d @ ''/'' in
      find_parent m parent'
        (case smap_get (<) parent' m of
           Some v \<Rightarrow> if vp_pPattern v = None then Some v else found
         | None \<Rightarrow> found) ds)"

definition mapPath :: "(string \<Rightarrow> string \<Rightarrow> bool) \<Rightarrow> 'p path_api \<Rightarrow> path_table \<Rightarrow> string \<Rightarrow> string \<Rightarrow> VirtualPath res" where
  "mapPath re A t path meth =
     (case find_pattern re path meth None (pt_patternVec t) of
        Some v \<Rightarrow> Inr v
      | None \<Rightarrow>
          rbind (normalizePath A path) (\<lambda>normPath.
          rbind (pa_unix A normPath) (\<lambda>p.
            case find_parent (pt_pathMap t) ''/'' (smap_get (<) ''/'' (pt_pathMap t)) (pa_directories A p) of
              Some v \<Rightarrow> if \<not> vp_exactMatch v \<or> vp_path v = normPath then Inr v
                        else Inl (NotFoundException path)
            | None \<Rightarrow> Inl (NotFoundException path))))"

section \<open>Cleaning a request path\<close>

definition drop_dots :: "string \<Rightarrow> string" where
  "drop_dots path = rev (dropWhile (\<lambda>c. c = CHR ''.'') (rev path))"

text \<open>The cleaned path, and whether it is acceptable.\<close>

definition cleanPath :: "'p path_api \<Rightarrow> string \<Rightarrow> string \<times> bool res" where
  "cleanPath A path =
     (let path = drop_dots (map (\<lambda>c. if c = CHR 0x5C then CHR ''/'' else c) path) in
      (path,
       if path \<noteq> []
       then rbind (pa_unix A path) (\<lambda>p.
              Inr (list_all (\<lambda>d. d \<noteq> ''.'' \<and> d \<noteq> ''..'') (pa_directories A (pa_makeDirectory A p))))
       else Inr False))"

section \<open>Paths and their directories\<close>

lemma unix_dir_simps [simp]:
  "unix_dir [] = ''/''"
  "unix_dir (ds @ [d]) = unix_dir ds @ d @ ''/''"
  by (simp_all add: unix_dir_def)

lemma first_slash:
  assumes "CHR ''/'' \<notin> set x" and "CHR ''/'' \<notin> set y" and "x @ CHR ''/'' # r = y @ CHR ''/'' # s"
  shows "x = y \<and> r = s"
  using assms
proof (induction x arbitrary: y)
  case Nil
  then show ?case by (cases y) auto
next
  case (Cons c x)
  then show ?case by (cases y) auto
qed

lemma unix_dir_prefix:
  assumes "list_all legal_name xs" and "list_all legal_name ys"
  shows "prefix (unix_dir xs) (unix_dir ys) \<longleftrightarrow> prefix xs ys"
proof -
  have "prefix (concat (map (\<lambda>d. d @ ''/'') xs)) (concat (map (\<lambda>d. d @ ''/'') ys)) \<longleftrightarrow> prefix xs ys"
    using assms
  proof (induction xs arbitrary: ys)
    case Nil
    then show ?case by simp
  next
    case (Cons x xs)
    show ?case
    proof (cases ys)
      case Nil
      then show ?thesis by simp
    next
      case (Cons y ys')
      have legal: "CHR ''/'' \<notin> set x" "CHR ''/'' \<notin> set y"
        using Cons.prems by (simp_all add: Cons legal_name_def)
      have IH: "prefix (concat (map (\<lambda>d. d @ ''/'') xs)) (concat (map (\<lambda>d. d @ ''/'') ys')) \<longleftrightarrow> prefix xs ys'"
        using Cons.IH Cons.prems by (simp add: Cons)
      show ?thesis
      proof
        assume "prefix (concat (map (\<lambda>d. d @ ''/'') (x # xs))) (concat (map (\<lambda>d. d @ ''/'') ys))"
        then obtain t where "x @ CHR ''/'' # (concat (map (\<lambda>d. d @ ''/'') xs) @ t)
            = y @ CHR ''/'' # concat (map (\<lambda>d. d @ ''/'') ys')"
          by (auto simp: Cons prefix_def)
        then have "x = y" "concat (map (\<lambda>d. d @ ''/'') ys') = concat (map (\<lambda>d. d @ ''/'') xs) @ t"
          using first_slash [OF legal] by metis+
        then show "prefix (x # xs) ys" using IH by (simp add: Cons)
      next
        assume "prefix (x # xs) ys"
        then show "prefix (concat (map (\<lambda>d. d @ ''/'') (x # xs))) (concat (map (\<lambda>d. d @ ''/'') ys))"
          using IH by (simp add: Cons)
      qed
    qed
  qed
  then show ?thesis by (simp add: unix_dir_def)
qed

lemma unix_dir_inj:
  "list_all legal_name xs \<Longrightarrow> list_all legal_name ys \<Longrightarrow> unix_dir xs = unix_dir ys \<longleftrightarrow> xs = ys"
  using unix_dir_prefix [of xs ys] unix_dir_prefix [of ys xs] prefix_order.eq_iff by metis

lemma legal_prefix: "prefix qs ds \<Longrightarrow> list_all legal_name ds \<Longrightarrow> list_all legal_name qs"
  by (auto simp: prefix_def)

text \<open>The paths below a directory follow it directly in the order of the map.\<close>

lemma prefix_between:
  fixes p a b :: string
  shows "p \<le> a \<Longrightarrow> a \<le> b \<Longrightarrow> prefix p b \<Longrightarrow> prefix p a"
proof (induction p arbitrary: a b)
  case Nil
  then show ?case by simp
next
  case (Cons c p)
  obtain b' where b: "b = c # b'" "prefix p b'"
    using Cons.prems(3) by (cases b) auto
  obtain d a' where a: "a = d # a'" using Cons.prems(1) by (cases a) auto
  have "d = c" "p \<le> a'" "a' \<le> b'"
    using Cons.prems(1,2) by (auto simp: a b)
  then show ?case using Cons.IH b a by simp
qed

lemma prefix_le: "prefix p b \<Longrightarrow> p \<le> (b :: string)"
proof (induction p arbitrary: b)
  case Nil
  then show ?case by simp
next
  case (Cons c p)
  then show ?case by (cases b) auto
qed

lemma take_prefix: "p = take (length p) k \<longleftrightarrow> prefix p k"
  by (metis append_eq_conv_conj prefix_def)

section \<open>The table and its invariant\<close>

definition entries_ok :: "path_map \<Rightarrow> bool" where
  "entries_ok m \<longleftrightarrow> string_order.wf_map m
     \<and> (\<forall>(k, v) \<in> set m. vp_path v = k \<and> vp_pPattern v = None \<and> (\<exists>ds. list_all legal_name ds \<and> k = unix_dir ds))"

text \<open>No mapping lies below one that forbids it.\<close>

definition protection_ok :: "path_map \<Rightarrow> bool" where
  "protection_ok m \<longleftrightarrow> (\<forall>(k, v) \<in> set m. \<forall>(k', v') \<in> set m. strict_prefix k k' \<longrightarrow> \<not> forbids v v')"

definition table_inv :: "path_table \<Rightarrow> bool" where
  "table_inv t \<longleftrightarrow> entries_ok (pt_pathMap t) \<and> protection_ok (pt_pathMap t)"

definition path_free :: "path_map \<Rightarrow> VirtualPath \<Rightarrow> bool" where
  "path_free m v \<longleftrightarrow> smap_get (<) (vp_path v) m = None
     \<and> (\<forall>(k, e) \<in> set m. strict_prefix k (vp_path v) \<longrightarrow> \<not> forbids e v)
     \<and> (\<forall>(k, e) \<in> set m. strict_prefix (vp_path v) k \<longrightarrow> \<not> forbids v e)"

lemma get_entry:
  assumes "string_order.wf_map m"
  shows "smap_get (<) k m = Some v \<longleftrightarrow> (k, v) \<in> set m"
  using string_order.get_in_map [of k m v] string_order.entry_is_found [OF assms, of k v] by auto

lemma del_put_fresh:
  "smap_get (<) (k :: string) m = None \<Longrightarrow> smap_del (<) k (smap_put (<) k v m) = m"
  by (induction m) (auto split: if_splits)

lemma normalizePath_laws:
  assumes "path_laws A" and "CHR '':'' \<notin> set path"
  obtains ds u v where "normalizePath A path = Inr (unix_dir ds)" "list_all legal_name ds"
    "pa_unix A (unix_dir ds) = Inr u" "pa_directories A u = ds"
    "pa_native A (unix_dir ds) = Inr v" "pa_directories A v = ds"
proof -
  define s where "s = (if path = [] then ''/'' else if hd path \<noteq> CHR ''/'' then ''/'' @ path else path)"
  have s: "s \<noteq> []" "hd s = CHR ''/''" "CHR '':'' \<notin> set s"
    using assms(2) by (auto simp: s_def)
  have norm: "normalizePath A path = (if s \<noteq> ''/'' then rbind (pa_unix A s) (\<lambda>p. Inr (pa_toString A (pa_makeDirectory A p)))
      else Inr ''/'')"
    by (auto simp: normalizePath_def s_def Let_def)
  show thesis
  proof (cases "s = ''/''")
    case True
    obtain u v where "pa_unix A ''/'' = Inr u" "pa_directories A u = []" "pa_native A ''/'' = Inr v" "pa_directories A v = []"
      using assms(1) unfolding path_laws_def by blast
    then show thesis using that [of "[]" u v] norm True by simp
  next
    case False
    obtain p u v where p: "pa_unix A s = Inr p"
      "pa_toString A (pa_makeDirectory A p) = unix_dir (pa_directories A (pa_makeDirectory A p))"
      "list_all legal_name (pa_directories A (pa_makeDirectory A p))"
      "pa_unix A (unix_dir (pa_directories A (pa_makeDirectory A p))) = Inr u"
      "pa_directories A u = pa_directories A (pa_makeDirectory A p)"
      "pa_native A (unix_dir (pa_directories A (pa_makeDirectory A p))) = Inr v"
      "pa_directories A v = pa_directories A (pa_makeDirectory A p)"
      using assms(1) s unfolding path_laws_def by blast
    show thesis
      by (rule that [of "pa_directories A (pa_makeDirectory A p)" u v]) (use p norm False in simp_all)
  qed
qed

lemma check_entry_ok: "check_entry m v entry = Inr () \<longleftrightarrow>
    (\<forall>e. smap_get (<) entry m = Some e \<longrightarrow> \<not> forbids e v \<and> vp_path v \<noteq> entry)"
  by (auto simp: check_entry_def split: option.splits)

lemma check_parents_entry: "check_parents m v (unix_dir pre) ds = Inr e \<Longrightarrow> e = unix_dir (pre @ ds)"
proof (induction ds arbitrary: pre)
  case Nil
  then show ?case by simp
next
  case (Cons d ds)
  then have "check_parents m v (unix_dir (pre @ [d])) ds = Inr e"
    by (auto simp: Let_def rbind_eq_Inr)
  then show ?case using Cons.IH by fastforce
qed

lemma check_parents_ok:
  "(\<exists>e. check_parents m v (unix_dir pre) ds = Inr e) \<longleftrightarrow>
     (\<forall>qs. prefix qs ds \<and> qs \<noteq> [] \<longrightarrow> check_entry m v (unix_dir (pre @ qs)) = Inr ())"
proof (induction ds arbitrary: pre)
  case Nil
  then show ?case by simp
next
  case (Cons d ds)
  have "(\<exists>e. check_parents m v (unix_dir pre) (d # ds) = Inr e) \<longleftrightarrow>
      check_entry m v (unix_dir (pre @ [d])) = Inr () \<and> (\<exists>e. check_parents m v (unix_dir (pre @ [d])) ds = Inr e)"
    by (auto simp: Let_def rbind_eq_Inr)
  also have "\<dots> \<longleftrightarrow> (\<forall>qs. prefix qs ds \<longrightarrow> check_entry m v (unix_dir (pre @ d # qs)) = Inr ())"
    unfolding Cons.IH append_assoc append_Cons append_Nil by (metis Nil_prefix)
  also have "\<dots> \<longleftrightarrow> (\<forall>qs. prefix qs (d # ds) \<and> qs \<noteq> [] \<longrightarrow> check_entry m v (unix_dir (pre @ qs)) = Inr ())"
    by (auto simp: prefix_Cons)
  finally show ?case .
qed

text \<open>Together with the root: the check passes exactly when every directory above, and the path itself, lets it.\<close>

lemma parents_check:
  "(\<exists>e. rbind (check_entry m v ''/'') (\<lambda>_. check_parents m v ''/'' ds) = Inr e) \<longleftrightarrow>
     (\<forall>qs. prefix qs ds \<longrightarrow> check_entry m v (unix_dir qs) = Inr ())"
proof -
  have "(\<exists>e. rbind (check_entry m v ''/'') (\<lambda>_. check_parents m v ''/'' ds) = Inr e) \<longleftrightarrow>
      check_entry m v (unix_dir []) = Inr () \<and> (\<exists>e. check_parents m v (unix_dir []) ds = Inr e)"
    by (cases "check_entry m v ''/''") simp_all
  also have "\<dots> \<longleftrightarrow> (\<forall>qs. prefix qs ds \<longrightarrow> check_entry m v (unix_dir qs) = Inr ())"
    unfolding check_parents_ok append_Nil by (metis Nil_prefix)
  finally show ?thesis .
qed

lemma check_children_ok:
  assumes "sorted_wrt (<) (map fst m)" and "\<forall>(k, e) \<in> set m. vp_path v \<le> k"
  shows "check_children v m = Inr () \<longleftrightarrow> (\<forall>(k, e) \<in> set m. prefix (vp_path v) k \<longrightarrow> \<not> forbids v e)"
  using assms
proof (induction m)
  case Nil
  then show ?case by simp
next
  case (Cons e m)
  obtain k c where e: "e = (k, c)" by fastforce
  have after: "\<forall>(k', c') \<in> set m. k < k'" using Cons.prems(1) by (auto simp: e)
  have IH: "check_children v m = Inr () \<longleftrightarrow> (\<forall>(k, e) \<in> set m. prefix (vp_path v) k \<longrightarrow> \<not> forbids v e)"
    using Cons by simp
  show ?case
  proof (cases "prefix (vp_path v) k")
    case True
    then show ?thesis using IH by (simp add: e take_prefix)
  next
    case False
    have "\<not> prefix (vp_path v) k'" if "(k', c') \<in> set m" for k' c'
      using prefix_between [of "vp_path v" k k'] False Cons.prems(2) after that by (force simp: e)
    then show ?thesis using False by (auto simp: e take_prefix)
  qed
qed

text \<open>The iterator one past the entry of a key: the entries with greater keys.\<close>

lemma after_entry:
  assumes "sorted_wrt (<) (map fst m)" and "(k :: string, v) \<in> set m"
  shows "set (tl (dropWhile (\<lambda>e. fst e \<noteq> k) m)) = {e \<in> set m. k < fst e}"
    and "sorted_wrt (<) (map fst (tl (dropWhile (\<lambda>e. fst e \<noteq> k) m)))"
  using assms
proof (induction m)
  case Nil
  {
    case 1
    then show ?case by simp
  next
    case 2
    then show ?case by simp
  }
next
  case (Cons e m)
  {
    case 1
    then show ?case using Cons.IH(1) by (cases "fst e = k") force+
  next
    case 2
    then show ?case using Cons.IH(2) by (cases "fst e = k") force+
  }
qed

lemma parents_free:
  assumes "entries_ok m" and "list_all legal_name ds" and "vp_path v = unix_dir ds"
  shows "(\<forall>qs. prefix qs ds \<longrightarrow> check_entry m v (unix_dir qs) = Inr ()) \<longleftrightarrow>
    smap_get (<) (vp_path v) m = None \<and> (\<forall>(k, e) \<in> set m. strict_prefix k (vp_path v) \<longrightarrow> \<not> forbids e v)"
    (is "?checks \<longleftrightarrow> ?free")
proof
  have wf: "string_order.wf_map m" using assms(1) by (simp add: entries_ok_def)
  assume checks: ?checks
  have "smap_get (<) (vp_path v) m = None"
    using checks [rule_format, of ds] assms(3) by (cases "smap_get (<) (vp_path v) m") (auto simp: check_entry_ok)
  moreover have "\<not> forbids e v" if entry: "(k, e) \<in> set m" "strict_prefix k (vp_path v)" for k e
  proof -
    obtain ks where ks: "list_all legal_name ks" "k = unix_dir ks"
      using assms(1) entry(1) by (auto simp: entries_ok_def)
    have "prefix ks ds"
      using entry(2) unix_dir_prefix [OF ks(1) assms(2)] assms(3) ks(2) by (simp add: strict_prefix_def)
    then have "check_entry m v k = Inr ()" using checks ks(2) by blast
    moreover have "smap_get (<) k m = Some e" using get_entry [OF wf] entry(1) by simp
    ultimately show ?thesis by (simp add: check_entry_ok)
  qed
  ultimately show ?free by blast
next
  have wf: "string_order.wf_map m" using assms(1) by (simp add: entries_ok_def)
  assume free: ?free
  show ?checks
  proof (intro allI impI)
    fix qs assume qs: "prefix qs ds"
    have "\<not> forbids e v \<and> vp_path v \<noteq> unix_dir qs" if "smap_get (<) (unix_dir qs) m = Some e" for e
    proof -
      have ne: "vp_path v \<noteq> unix_dir qs" using free that by auto
      have "prefix (unix_dir qs) (vp_path v)"
        using unix_dir_prefix [OF legal_prefix [OF qs assms(2)] assms(2)] qs assms(3) by simp
      then have "strict_prefix (unix_dir qs) (vp_path v)" using ne by (simp add: strict_prefix_def)
      moreover have "(unix_dir qs, e) \<in> set m" using that get_entry [OF wf] by simp
      ultimately show ?thesis using free ne by blast
    qed
    then show "check_entry m v (unix_dir qs) = Inr ()" by (simp add: check_entry_ok)
  qed
qed

lemma children_free:
  assumes "string_order.wf_map m" and "smap_get (<) (vp_path v) m = None"
  shows "check_children v (tl (dropWhile (\<lambda>e. fst e \<noteq> vp_path v) (smap_put (<) (vp_path v) v m))) = Inr ()
    \<longleftrightarrow> (\<forall>(k, e) \<in> set m. strict_prefix (vp_path v) k \<longrightarrow> \<not> forbids v e)"
proof -
  let ?m = "smap_put (<) (vp_path v) v m"
  let ?rest = "tl (dropWhile (\<lambda>e. fst e \<noteq> vp_path v) ?m)"
  have sorted: "sorted_wrt (<) (map fst ?m)"
    using string_order.put_keeps_wf [OF assms(1)] by (simp add: string_order.wf_map_def)
  have set: "set ?m = insert (vp_path v, v) (set m)"
    using string_order.put_fresh [OF assms(2)] .
  have rest: "set ?rest = {e \<in> set ?m. vp_path v < fst e}" "sorted_wrt (<) (map fst ?rest)"
    using after_entry [OF sorted, of "vp_path v" v] set by simp_all
  have fresh: "(vp_path v, e) \<notin> set m" for e
    using assms(2) get_entry [OF assms(1)] by (metis option.distinct(1))
  have "check_children v ?rest = Inr () \<longleftrightarrow> (\<forall>(k, e) \<in> set ?rest. prefix (vp_path v) k \<longrightarrow> \<not> forbids v e)"
    by (rule check_children_ok [OF rest(2)]) (auto simp: rest(1))
  also have "\<dots> \<longleftrightarrow> (\<forall>(k, e) \<in> set m. strict_prefix (vp_path v) k \<longrightarrow> \<not> forbids v e)"
  proof -
    have "vp_path v < k" if "strict_prefix (vp_path v) k" for k
      using that prefix_le [of "vp_path v" k] by (auto simp: strict_prefix_def)
    moreover have "strict_prefix (vp_path v) k" if "(k, e) \<in> set m" "prefix (vp_path v) k" for k e
      using that fresh by (auto simp: strict_prefix_def)
    ultimately show ?thesis unfolding rest(1) set by (auto simp: strict_prefix_def) blast
  qed
  finally show ?thesis .
qed

text \<open>What a registration does: it maps the normalized path, or is refused and leaves the table as it was.\<close>

lemma add_path_cases:
  assumes "path_laws A" and "entries_ok (pt_pathMap t)" and "vp_pPattern v = None" and "CHR '':'' \<notin> set (vp_path v)"
  obtains ds where "normalizePath A (vp_path v) = Inr (unix_dir ds)" "list_all legal_name ds"
    "path_free (pt_pathMap t) (v\<lparr>vp_path := unix_dir ds\<rparr>) \<longrightarrow> addVirtualPath dbg A v t =
       (t\<lparr>pt_pathMap := smap_put (<) (unix_dir ds) (v\<lparr>vp_path := unix_dir ds\<rparr>) (pt_pathMap t)\<rparr>, Inr ())"
    "\<not> path_free (pt_pathMap t) (v\<lparr>vp_path := unix_dir ds\<rparr>) \<longrightarrow> (\<exists>e. addVirtualPath dbg A v t = (t, Inl e))"
proof -
  obtain ds u w where n: "normalizePath A (vp_path v) = Inr (unix_dir ds)" "list_all legal_name ds"
    "pa_native A (unix_dir ds) = Inr w" "pa_directories A w = ds"
    using normalizePath_laws [OF assms(1,4)] .
  define m where "m = pt_pathMap t"
  define v' where "v' = v\<lparr>vp_path := unix_dir ds\<rparr>"
  define parents where "parents = rbind (check_entry m v' ''/'') (\<lambda>_. check_parents m v' ''/'' ds)"
  define children where "children = check_children v' (tl (dropWhile (\<lambda>e. fst e \<noteq> vp_path v') (smap_put (<) (vp_path v') v' m)))"
  have wf: "string_order.wf_map m" using assms(2) by (simp add: entries_ok_def m_def)
  have path: "vp_path v' = unix_dir ds" by (simp add: v'_def)
  have P: "(\<exists>e. parents = Inr e) \<longleftrightarrow> smap_get (<) (unix_dir ds) m = None \<and>
      (\<forall>(k, e) \<in> set m. strict_prefix k (unix_dir ds) \<longrightarrow> \<not> forbids e v')"
    unfolding parents_def parents_check using parents_free [OF assms(2) n(2) path] by (simp add: path m_def)
  have entry: "e = unix_dir ds" if "parents = Inr e" for e
    using that check_parents_entry [of m v' "[]" ds e] by (auto simp: parents_def rbind_eq_Inr)
  have C: "children = Inr () \<longleftrightarrow> (\<forall>(k, e) \<in> set m. strict_prefix (unix_dir ds) k \<longrightarrow> \<not> forbids v' e)"
    if "smap_get (<) (unix_dir ds) m = None"
    unfolding children_def using children_free [OF wf, of v'] that by (simp add: path)
  have free: "path_free m v' \<longleftrightarrow> (\<exists>e. parents = Inr e) \<and> children = Inr ()"
    using P C by (auto simp: path_free_def path)
  have add: "addVirtualPath dbg A v t = (case parents of Inl e \<Rightarrow> (t, Inl e)
      | Inr e \<Rightarrow> (case children of Inl e \<Rightarrow> (t, Inl e) | Inr _ \<Rightarrow> (t\<lparr>pt_pathMap := smap_put (<) (unix_dir ds) v' m\<rparr>, Inr ())))"
  proof (cases parents)
    case (Inl e)
    then show ?thesis using assms(3) n by (simp add: addVirtualPath_def parents_def v'_def m_def)
  next
    case (Inr e)
    then have fresh: "smap_get (<) (unix_dir ds) m = None" and e: "e = unix_dir ds" using P entry by auto
    have "t\<lparr>pt_pathMap := smap_del (<) (unix_dir ds) (smap_put (<) (unix_dir ds) v' m)\<rparr> = t"
      using del_put_fresh [OF fresh] by (simp add: m_def)
    then show ?thesis using assms(3) n Inr e fresh
      by (simp add: addVirtualPath_def parents_def children_def v'_def m_def split: sum.splits)
  qed
  show thesis
  proof (rule that [OF n(1,2)]; intro impI)
    assume "path_free (pt_pathMap t) (v\<lparr>vp_path := unix_dir ds\<rparr>)"
    then show "addVirtualPath dbg A v t = (t\<lparr>pt_pathMap := smap_put (<) (unix_dir ds) (v\<lparr>vp_path := unix_dir ds\<rparr>) (pt_pathMap t)\<rparr>, Inr ())"
      using free add by (auto simp: m_def v'_def)
  next
    assume "\<not> path_free (pt_pathMap t) (v\<lparr>vp_path := unix_dir ds\<rparr>)"
    then show "\<exists>e. addVirtualPath dbg A v t = (t, Inl e)"
      using free add by (cases parents; cases children) (auto simp: m_def v'_def)
  qed
qed

lemma add_path_inv:
  assumes "path_laws A" and "table_inv t" and "CHR '':'' \<notin> set (vp_path v)"
  shows "table_inv (fst (addVirtualPath dbg A v t))"
proof (cases "vp_pPattern v")
  case (Some r)
  then show ?thesis using assms(2) by (simp add: addVirtualPath_def table_inv_def)
next
  case None
  have ok: "entries_ok (pt_pathMap t)" "protection_ok (pt_pathMap t)" using assms(2) by (simp_all add: table_inv_def)
  obtain ds where norm: "normalizePath A (vp_path v) = Inr (unix_dir ds)" and ds: "list_all legal_name ds"
    "path_free (pt_pathMap t) (v\<lparr>vp_path := unix_dir ds\<rparr>) \<longrightarrow> addVirtualPath dbg A v t =
       (t\<lparr>pt_pathMap := smap_put (<) (unix_dir ds) (v\<lparr>vp_path := unix_dir ds\<rparr>) (pt_pathMap t)\<rparr>, Inr ())"
    "\<not> path_free (pt_pathMap t) (v\<lparr>vp_path := unix_dir ds\<rparr>) \<longrightarrow> (\<exists>e. addVirtualPath dbg A v t = (t, Inl e))"
    using add_path_cases [OF assms(1) ok(1) None assms(3), where dbg = dbg] .
  show ?thesis
  proof (cases "path_free (pt_pathMap t) (v\<lparr>vp_path := unix_dir ds\<rparr>)")
    case False
    then show ?thesis using ds(3) assms(2) by auto
  next
    case True
    let ?v = "v\<lparr>vp_path := unix_dir ds\<rparr>"
    let ?m = "smap_put (<) (unix_dir ds) ?v (pt_pathMap t)"
    have set: "set ?m = insert (unix_dir ds, ?v) (set (pt_pathMap t))"
      using True by (intro string_order.put_fresh) (simp add: path_free_def)
    have "string_order.wf_map ?m"
      using ok(1) by (simp add: entries_ok_def string_order.put_keeps_wf)
    then have "entries_ok ?m"
      using ok(1) ds(1) None unfolding entries_ok_def set by auto
    moreover have "protection_ok ?m"
      using ok(2) True unfolding protection_ok_def set by (auto simp: path_free_def)
    ultimately show ?thesis using ds(2) True by (simp add: table_inv_def)
  qed
qed

lemma inv_subset:
  assumes "table_inv t" and "string_order.wf_map m" and "set m \<subseteq> set (pt_pathMap t)"
  shows "table_inv (t\<lparr>pt_pathMap := m\<rparr>)"
proof -
  have "entries_ok m" using assms by (auto simp: table_inv_def entries_ok_def)
  moreover have "protection_ok m" using assms(1,3) unfolding table_inv_def protection_ok_def by blast
  ultimately show ?thesis by (simp add: table_inv_def)
qed

lemma remove_path_inv:
  assumes "table_inv t"
  shows "table_inv (fst (removeVirtualPath A p t))"
proof (cases "normalizePath A p")
  case (Inl e)
  then show ?thesis using assms by (simp add: removeVirtualPath_def)
next
  case (Inr n)
  have wf: "string_order.wf_map (pt_pathMap t)" using assms by (simp add: table_inv_def entries_ok_def)
  have "table_inv (t\<lparr>pt_pathMap := smap_del (<) n (pt_pathMap t)\<rparr>)"
    using string_order.del_keeps_wf [OF wf] string_order.del_set [OF wf] by (intro inv_subset [OF assms]) auto
  moreover have "table_inv (t\<lparr>pt_patternVec := erase_pattern p (pt_patternVec t)\<rparr>)"
    using assms by (simp add: table_inv_def)
  ultimately show ?thesis using Inr by (simp add: removeVirtualPath_def)
qed

lemma remove_bundle_inv:
  assumes "table_inv t"
  shows "table_inv (removeBundle b t)"
proof -
  have "string_order.wf_map (pt_pathMap t)" using assms by (simp add: table_inv_def entries_ok_def)
  then have "string_order.wf_map (filter (\<lambda>(k, v). vp_pOwnerBundle v \<noteq> b) (pt_pathMap t))"
    unfolding string_order.wf_map_def by (simp add: sorted_wrt_map sorted_wrt_filter)
  then have "table_inv (t\<lparr>pt_pathMap := filter (\<lambda>(k, v). vp_pOwnerBundle v \<noteq> b) (pt_pathMap t)\<rparr>)"
    by (rule inv_subset [OF assms]) auto
  then show ?thesis by (simp add: removeBundle_def table_inv_def)
qed

text \<open>The tables the dispatcher can be in: any sequence of the operations that change it.\<close>

inductive path_reachable :: "bool \<Rightarrow> 'p path_api \<Rightarrow> path_table \<Rightarrow> bool" for dbg A where
  start: "path_reachable dbg A \<lparr>pt_pathMap = [], pt_patternVec = []\<rparr>"
| add: "path_reachable dbg A t \<Longrightarrow> CHR '':'' \<notin> set (vp_path v) \<Longrightarrow> path_reachable dbg A (fst (addVirtualPath dbg A v t))"
| remove: "path_reachable dbg A t \<Longrightarrow> path_reachable dbg A (fst (removeVirtualPath A p t))"
| stopping: "path_reachable dbg A t \<Longrightarrow> path_reachable dbg A (removeBundle b t)"

lemma reachable_table_inv: "path_reachable dbg A t \<Longrightarrow> path_laws A \<Longrightarrow> table_inv t"
proof (induction rule: path_reachable.induct)
  case start
  then show ?case by (simp add: table_inv_def entries_ok_def protection_ok_def string_order.wf_map_def)
next
  case (add t v)
  then show ?case by (simp add: add_path_inv)
next
  case (remove t p)
  then show ?case by (simp add: remove_path_inv)
next
  case (stopping t b)
  then show ?case by (simp add: remove_bundle_inv)
qed

section \<open>Which mapping a request reaches\<close>

text \<open>The reference: the entry with the longest path among those the request path lies below.\<close>

definition deepest :: "path_map \<Rightarrow> string \<Rightarrow> VirtualPath \<Rightarrow> bool" where
  "deepest m n v \<longleftrightarrow> (\<exists>k. (k, v) \<in> set m \<and> prefix k n \<and> (\<forall>(k', v') \<in> set m. prefix k' n \<longrightarrow> prefix k' k))"

text \<open>The loop over the directories keeps the best entry among the prefixes seen so far.\<close>

definition best_entry :: "path_map \<Rightarrow> string list \<Rightarrow> VirtualPath option \<Rightarrow> bool" where
  "best_entry m ds r = (case r of
     None \<Rightarrow> \<forall>qs. prefix qs ds \<longrightarrow> smap_get (<) (unix_dir qs) m = None
   | Some v \<Rightarrow> \<exists>qs. prefix qs ds \<and> smap_get (<) (unix_dir qs) m = Some v
       \<and> (\<forall>qs'. prefix qs' ds \<and> smap_get (<) (unix_dir qs') m \<noteq> None \<longrightarrow> prefix qs' qs))"

lemma best_entry_step:
  assumes "best_entry m pre found"
  shows "best_entry m (pre @ [d]) (case smap_get (<) (unix_dir (pre @ [d])) m of Some v \<Rightarrow> Some v | None \<Rightarrow> found)"
proof (cases "smap_get (<) (unix_dir (pre @ [d])) m")
  case None
  have seen: "prefix qs pre" if "prefix qs (pre @ [d])" "smap_get (<) (unix_dir qs) m \<noteq> None" for qs
    using that None by (auto simp: prefix_snoc)
  have "best_entry m (pre @ [d]) found"
  proof (cases found)
    case found: None
    then have old: "smap_get (<) (unix_dir qs) m = None" if "prefix qs pre" for qs
      using assms that by (simp add: best_entry_def)
    then have "smap_get (<) (unix_dir qs) m = None" if "prefix qs (pre @ [d])" for qs
      using seen [OF that] by blast
    then show ?thesis using found by (simp add: best_entry_def)
  next
    case (Some v)
    then obtain qs where qs: "prefix qs pre" "smap_get (<) (unix_dir qs) m = Some v"
      "\<forall>qs'. prefix qs' pre \<and> smap_get (<) (unix_dir qs') m \<noteq> None \<longrightarrow> prefix qs' qs"
      using assms by (auto simp: best_entry_def)
    have "prefix qs (pre @ [d])" using qs(1) by simp
    moreover have "\<forall>qs'. prefix qs' (pre @ [d]) \<and> smap_get (<) (unix_dir qs') m \<noteq> None \<longrightarrow> prefix qs' qs"
      using qs(3) seen by blast
    ultimately show ?thesis using qs(2) unfolding best_entry_def Some option.case by blast
  qed
  then show ?thesis using None by simp
next
  case (Some v)
  then show ?thesis by (auto simp: best_entry_def intro!: exI [of _ "pre @ [d]"])
qed

lemma find_parent_best:
  assumes "entries_ok m" and "best_entry m pre found"
  shows "best_entry m (pre @ ds) (find_parent m (unix_dir pre) found ds)"
  using assms(2)
proof (induction ds arbitrary: pre found)
  case Nil
  then show ?case by simp
next
  case (Cons d ds)
  let ?found = "case smap_get (<) (unix_dir (pre @ [d])) m of Some v \<Rightarrow> Some v | None \<Rightarrow> found"
  have "vp_pPattern v = None" if "smap_get (<) k m = Some v" for k v
    using that assms(1) get_entry by (fastforce simp: entries_ok_def)
  then have "find_parent m (unix_dir pre) found (d # ds) = find_parent m (unix_dir (pre @ [d])) ?found ds"
    by (auto simp: Let_def split: option.splits)
  then show ?case using Cons.IH [OF best_entry_step [OF Cons.prems]] by simp
qed

lemma find_parent_deepest:
  assumes "entries_ok m" and "list_all legal_name ds"
  shows "find_parent m ''/'' (smap_get (<) ''/'' m) ds = Some v \<longleftrightarrow> deepest m (unix_dir ds) v"
    and "find_parent m ''/'' (smap_get (<) ''/'' m) ds = None \<longleftrightarrow> (\<forall>(k, v) \<in> set m. \<not> prefix k (unix_dir ds))"
proof -
  let ?r = "find_parent m ''/'' (smap_get (<) ''/'' m) ds"
  have wf: "string_order.wf_map m" using assms(1) by (simp add: entries_ok_def)
  have "best_entry m [] (smap_get (<) ''/'' m)"
    by (auto simp: best_entry_def split: option.splits)
  then have best: "best_entry m ds ?r"
    using find_parent_best [OF assms(1), of "[]" "smap_get (<) ''/'' m" ds] by simp
  have key: "\<exists>qs. k = unix_dir qs \<and> prefix qs ds \<and> smap_get (<) (unix_dir qs) m = Some v"
    if entry: "(k, v) \<in> set m" "prefix k (unix_dir ds)" for k v
  proof -
    obtain qs where "list_all legal_name qs" "k = unix_dir qs"
      using entry(1) assms(1) by (auto simp: entries_ok_def)
    moreover from this have "prefix qs ds" using entry(2) unix_dir_prefix [OF _ assms(2)] by blast
    moreover have "smap_get (<) k m = Some v" using entry(1) get_entry [OF wf] by blast
    ultimately show ?thesis by blast
  qed
  have none: "\<forall>(k, v) \<in> set m. \<not> prefix k (unix_dir ds)" if "?r = None"
  proof -
    have "smap_get (<) (unix_dir qs) m = None" if "prefix qs ds" for qs
      using best \<open>?r = None\<close> that by (simp add: best_entry_def)
    then show ?thesis using key by (metis (mono_tags, lifting) case_prodI2 option.distinct(1))
  qed
  have some: "deepest m (unix_dir ds) v" if r: "?r = Some v" for v
  proof -
    obtain qs where qs: "prefix qs ds" "smap_get (<) (unix_dir qs) m = Some v"
      "\<forall>qs'. prefix qs' ds \<and> smap_get (<) (unix_dir qs') m \<noteq> None \<longrightarrow> prefix qs' qs"
      using best r by (auto simp: best_entry_def)
    have legal: "list_all legal_name qs'" if "prefix qs' ds" for qs'
      using that assms(2) legal_prefix by blast
    have "(unix_dir qs, v) \<in> set m" using qs(2) get_entry [OF wf] by simp
    moreover have "prefix (unix_dir qs) (unix_dir ds)"
      using unix_dir_prefix [OF legal [OF qs(1)] assms(2)] qs(1) by simp
    moreover have "prefix k' (unix_dir qs)" if entry: "(k', v') \<in> set m" "prefix k' (unix_dir ds)" for k' v'
    proof -
      obtain ks where ks: "k' = unix_dir ks" "prefix ks ds" "smap_get (<) (unix_dir ks) m = Some v'"
        using key [OF entry] by blast
      then have "prefix ks qs" using qs(3) by blast
      then show ?thesis using unix_dir_prefix [OF legal [OF ks(2)] legal [OF qs(1)]] ks(1) by blast
    qed
    ultimately show ?thesis unfolding deepest_def by blast
  qed
  have unique: "v = w" if two: "deepest m (unix_dir ds) v" "deepest m (unix_dir ds) w" for v w
  proof -
    obtain k k' where "(k, v) \<in> set m" "(k', w) \<in> set m" "prefix k k'" "prefix k' k"
      using two unfolding deepest_def by blast
    moreover from this have "k = k'" using prefix_order.antisym by blast
    ultimately have "Some v = Some w" unfolding get_entry [OF wf, symmetric] by simp
    then show ?thesis by simp
  qed
  show "?r = Some v \<longleftrightarrow> deepest m (unix_dir ds) v"
  proof
    assume d: "deepest m (unix_dir ds) v"
    then have "?r \<noteq> None" using none unfolding deepest_def by blast
    then show "?r = Some v" using some unique [OF _ d] by blast
  qed (rule some)
  show "?r = None \<longleftrightarrow> (\<forall>(k, v) \<in> set m. \<not> prefix k (unix_dir ds))"
    using none some unfolding deepest_def by (cases ?r) blast+
qed

lemma find_pattern_keeps: "found \<noteq> None \<Longrightarrow> find_pattern re path meth found vs \<noteq> None"
  by (induction vs arbitrary: found) auto

lemma find_pattern_none:
  "find_pattern re path meth None vs = None \<longleftrightarrow> (\<forall>v \<in> set vs. \<not> re (case vp_pPattern v of None \<Rightarrow> [] | Some r \<Rightarrow> r) path)"
proof (induction vs)
  case Nil
  then show ?case by simp
next
  case (Cons v vs)
  show ?case
  proof (cases "re (case vp_pPattern v of None \<Rightarrow> [] | Some r \<Rightarrow> r) path")
    case True
    then show ?thesis using find_pattern_keeps [of "Some v" re path meth vs] by auto
  next
    case False
    then show ?thesis using Cons.IH by (cases "find_pattern re path meth None vs") auto
  qed
qed

lemma mapPath_deepest:
  assumes "path_laws A" and "entries_ok (pt_pathMap t)" and "CHR '':'' \<notin> set path"
    and "find_pattern re path meth None (pt_patternVec t) = None"
  obtains n where "normalizePath A path = Inr n"
    "\<forall>v. mapPath re A t path meth = Inr v \<longleftrightarrow> deepest (pt_pathMap t) n v \<and> (\<not> vp_exactMatch v \<or> vp_path v = n)"
    "(\<forall>v. mapPath re A t path meth \<noteq> Inr v) \<longrightarrow> mapPath re A t path meth = Inl (NotFoundException path)"
proof -
  obtain ds u w where n: "normalizePath A path = Inr (unix_dir ds)" "list_all legal_name ds"
    "pa_unix A (unix_dir ds) = Inr u" "pa_directories A u = ds"
    using normalizePath_laws [OF assms(1,3)] .
  let ?found = "find_parent (pt_pathMap t) ''/'' (smap_get (<) ''/'' (pt_pathMap t)) ds"
  have map: "mapPath re A t path meth = (case ?found of
      Some v \<Rightarrow> if \<not> vp_exactMatch v \<or> vp_path v = unix_dir ds then Inr v else Inl (NotFoundException path)
    | None \<Rightarrow> Inl (NotFoundException path))"
    using assms(4) n by (simp add: mapPath_def)
  have found: "?found = Some v \<longleftrightarrow> deepest (pt_pathMap t) (unix_dir ds) v" for v
    by (rule find_parent_deepest(1) [OF assms(2) n(2)])
  have "\<forall>v. mapPath re A t path meth = Inr v \<longleftrightarrow> ?found = Some v \<and> (\<not> vp_exactMatch v \<or> vp_path v = unix_dir ds)"
    unfolding map by (auto split: option.splits)
  then have "\<forall>v. mapPath re A t path meth = Inr v \<longleftrightarrow>
      deepest (pt_pathMap t) (unix_dir ds) v \<and> (\<not> vp_exactMatch v \<or> vp_path v = unix_dir ds)"
    unfolding found .
  moreover have "(\<forall>v. mapPath re A t path meth \<noteq> Inr v) \<longrightarrow> mapPath re A t path meth = Inl (NotFoundException path)"
    unfolding map by (auto split: option.splits)
  ultimately show thesis using that n(1) by blast
qed

lemma deepest_owner:
  assumes "table_inv t" and "deepest (pt_pathMap t) n v" and "(k, e) \<in> set (pt_pathMap t)" and "prefix k n"
    and "sec_mode (vp_security e) \<noteq> SM_ALL"
  shows "vp_pOwnerBundle v = vp_pOwnerBundle e"
proof -
  obtain k' where k': "(k', v) \<in> set (pt_pathMap t)" "prefix k k'"
    using assms(2-4) unfolding deepest_def by blast
  show ?thesis
  proof (cases "k = k'")
    case True
    have "string_order.wf_map (pt_pathMap t)" using assms(1) by (simp add: table_inv_def entries_ok_def)
    then have "Some v = Some e" using get_entry k'(1) assms(3) True by metis
    then show ?thesis by simp
  next
    case False
    then have "\<not> forbids e v"
      using assms(1,3) k' unfolding table_inv_def protection_ok_def strict_prefix_def by blast
    then show ?thesis using assms(5) by (cases "sec_mode (vp_security e)") (auto simp: forbids_def)
  qed
qed

section \<open>A path library for the examples\<close>

text \<open>Paths as the list of their directories, to show that the laws can hold.\<close>

fun split_slash :: "string \<Rightarrow> string list" where
  "split_slash [] = [[]]"
| "split_slash (c # s) = (if c = CHR ''/'' then [] # split_slash s
     else (case split_slash s of x # xs \<Rightarrow> (c # x) # xs | [] \<Rightarrow> [[c]]))"

definition plain_paths :: "string list path_api" where
  "plain_paths = \<lparr>pa_unix = (\<lambda>s. Inr (filter (\<lambda>d. d \<noteq> []) (split_slash s))),
     pa_native = (\<lambda>s. Inr (filter (\<lambda>d. d \<noteq> []) (split_slash s))),
     pa_makeDirectory = id, pa_toString = unix_dir, pa_directories = id\<rparr>"

lemma split_slash_legal: "d \<in> set (split_slash s) \<Longrightarrow> CHR ''/'' \<notin> set d"
  by (induction s arbitrary: d rule: split_slash.induct) (auto split: if_splits list.splits)

lemma split_slash_append: "CHR ''/'' \<notin> set d \<Longrightarrow> split_slash (d @ CHR ''/'' # s) = d # split_slash s"
  by (induction d) auto

lemma split_unix_dir: "list_all legal_name ds \<Longrightarrow> filter (\<lambda>d. d \<noteq> []) (split_slash (unix_dir ds)) = ds"
proof -
  assume "list_all legal_name ds"
  then have "filter (\<lambda>d. d \<noteq> []) (split_slash (concat (map (\<lambda>d. d @ ''/'') ds))) = ds"
    by (induction ds) (auto simp: legal_name_def split_slash_append)
  then show ?thesis by (simp add: unix_dir_def)
qed

lemma plain_path_laws: "path_laws plain_paths"
proof -
  have "list_all legal_name (filter (\<lambda>d. d \<noteq> []) (split_slash s))" for s
    using split_slash_legal by (auto simp: list_all_iff legal_name_def)
  then show ?thesis by (simp add: path_laws_def plain_paths_def split_unix_dir)
qed

definition sample_path :: "nat \<Rightarrow> SpecializationMode \<Rightarrow> string \<Rightarrow> VirtualPath" where
  "sample_path b mode path = (VirtualPath_default b)\<lparr>vp_path := path, vp_security := PathSecurity_default\<lparr>sec_mode := mode\<rparr>\<rparr>"

text \<open>A table with a path of bundle 1 for itself, and one of its own below.\<close>

definition sample_table :: path_table where
  "sample_table = fst (addVirtualPath True plain_paths (sample_path 1 SM_OWNER ''/admin/users'')
     (fst (addVirtualPath True plain_paths (sample_path 1 SM_OWNER ''admin'') \<lparr>pt_pathMap = [], pt_patternVec = []\<rparr>)))"

lemma sample_table_reachable: "path_reachable True plain_paths sample_table"
  unfolding sample_table_def by (intro path_reachable.intros) (simp_all add: sample_path_def)

lemma sample_table_paths: "pt_pathMap sample_table =
    [(''/admin/'', sample_path 1 SM_OWNER ''/admin/''), (''/admin/users/'', sample_path 1 SM_OWNER ''/admin/users/'')]"
  "pt_patternVec sample_table = []"
  by code_simp+

section \<open>Properties\<close>

text \<open>
  C12: In every table the operations can produce, each mapping lies only below mappings that allow it: a
  path registered without specialization has nothing below it, one registered for its owner has only mappings of
  its owner below it, and no mapping is less strict than one above it.
\<close>

theorem virtual_paths_protected:
  assumes "path_laws A" and "path_reachable dbg A t"
    and "(k, v) \<in> set (pt_pathMap t)" and "(k', v') \<in> set (pt_pathMap t)" and "strict_prefix k k'"
  shows "sec_mode (vp_security v') \<le> sec_mode (vp_security v) \<and> sec_mode (vp_security v) \<noteq> SM_NONE
    \<and> (sec_mode (vp_security v) = SM_ALL \<or> vp_pOwnerBundle v' = vp_pOwnerBundle v)"
proof -
  have "table_inv t" using reachable_table_inv assms(1,2) by blast
  then have "\<not> forbids v v'" using assms(3-5) unfolding table_inv_def protection_ok_def by blast
  then show ?thesis by (cases "sec_mode (vp_security v)") (auto simp: forbids_def)
qed

theorem virtual_paths_protected_witness:
  "sec_mode (vp_security (sample_path 1 SM_OWNER ''/admin/users/'')) \<le> SM_OWNER"
  using virtual_paths_protected [OF plain_path_laws sample_table_reachable, of "''/admin/''" "sample_path 1 SM_OWNER ''/admin/''"
      "''/admin/users/''" "sample_path 1 SM_OWNER ''/admin/users/''"]
  by (simp add: sample_table_paths sample_path_def)

text \<open>
  C13: A registration of a path is accepted exactly when the normalized path is not mapped yet, every mapping
  above it allows it, and it allows every mapping below it, although the code only compares the entries that follow
  the new one in the map; then exactly this entry is added. Otherwise the call throws and the table is as before.
\<close>

theorem addVirtualPath_exact:
  assumes "path_laws A" and "path_reachable dbg A t" and "vp_pPattern v = None" and "CHR '':'' \<notin> set (vp_path v)"
  shows "\<exists>n. normalizePath A (vp_path v) = Inr n \<and>
    (let v' = v\<lparr>vp_path := n\<rparr> in
     if smap_get (<) n (pt_pathMap t) = None
       \<and> list_all (\<lambda>(k, e). (strict_prefix k n \<longrightarrow> \<not> forbids e v') \<and> (strict_prefix n k \<longrightarrow> \<not> forbids v' e)) (pt_pathMap t)
     then addVirtualPath dbg A v t = (t\<lparr>pt_pathMap := smap_put (<) n v' (pt_pathMap t)\<rparr>, Inr ())
     else \<exists>e. addVirtualPath dbg A v t = (t, Inl e))"
proof -
  have "entries_ok (pt_pathMap t)" using reachable_table_inv [OF assms(2,1)] by (simp add: table_inv_def)
  then obtain ds where ds: "normalizePath A (vp_path v) = Inr (unix_dir ds)"
    "path_free (pt_pathMap t) (v\<lparr>vp_path := unix_dir ds\<rparr>) \<longrightarrow> addVirtualPath dbg A v t =
       (t\<lparr>pt_pathMap := smap_put (<) (unix_dir ds) (v\<lparr>vp_path := unix_dir ds\<rparr>) (pt_pathMap t)\<rparr>, Inr ())"
    "\<not> path_free (pt_pathMap t) (v\<lparr>vp_path := unix_dir ds\<rparr>) \<longrightarrow> (\<exists>e. addVirtualPath dbg A v t = (t, Inl e))"
    using add_path_cases [OF assms(1) _ assms(3,4), where t = t and dbg = dbg] by blast
  have "path_free (pt_pathMap t) (v\<lparr>vp_path := unix_dir ds\<rparr>) \<longleftrightarrow> smap_get (<) (unix_dir ds) (pt_pathMap t) = None
     \<and> list_all (\<lambda>(k, e). (strict_prefix k (unix_dir ds) \<longrightarrow> \<not> forbids e (v\<lparr>vp_path := unix_dir ds\<rparr>))
         \<and> (strict_prefix (unix_dir ds) k \<longrightarrow> \<not> forbids (v\<lparr>vp_path := unix_dir ds\<rparr>) e)) (pt_pathMap t)"
    unfolding path_free_def list_all_iff by auto
  then show ?thesis using ds unfolding Let_def by (intro exI [of _ "unix_dir ds"]) auto
qed

theorem addVirtualPath_exact_witness:
  "\<exists>n. normalizePath plain_paths ''/admin/users/new'' = Inr n \<and> fst (addVirtualPath True plain_paths (sample_path 2 SM_ALL ''/admin/users/new'') sample_table) = sample_table"
proof -
  let ?v = "sample_path 2 SM_ALL ''/admin/users/new''" and ?n = "''/admin/users/new/''"
  have n: "normalizePath plain_paths (vp_path ?v) = Inr ?n" "normalizePath plain_paths ''/admin/users/new'' = Inr ?n"
    by code_simp+
  have v: "vp_pPattern ?v = None" "CHR '':'' \<notin> set (vp_path ?v)"
    by (simp_all add: sample_path_def VirtualPath_default_def)
  have bad: "\<not> list_all (\<lambda>(k, e). (strict_prefix k ?n \<longrightarrow> \<not> forbids e (?v\<lparr>vp_path := ?n\<rparr>))
      \<and> (strict_prefix ?n k \<longrightarrow> \<not> forbids (?v\<lparr>vp_path := ?n\<rparr>) e)) (pt_pathMap sample_table)"
    by (simp add: sample_table_paths sample_path_def VirtualPath_default_def PathSecurity_default_def forbids_def less_SpecializationMode_def)
  have "\<exists>e. addVirtualPath True plain_paths ?v sample_table = (sample_table, Inl e)"
    using addVirtualPath_exact [OF plain_path_laws sample_table_reachable v] unfolding n Let_def using bad by auto
  then show ?thesis using n(2) by auto
qed

text \<open>
  A request path that no pattern matches reaches the deepest mapping above it, or is not found; so below a path
  its owner has protected, every request that reaches a mapping reaches one of that owner.
\<close>

theorem protected_requests_stay:
  assumes "path_laws A" and "path_reachable dbg A t" and "CHR '':'' \<notin> set path"
    and "find_pattern re path meth None (pt_patternVec t) = None"
  shows "\<exists>n. normalizePath A path = Inr n
    \<and> (case mapPath re A t path meth of
         Inl e \<Rightarrow> e = NotFoundException path
       | Inr v \<Rightarrow> deepest (pt_pathMap t) n v
           \<and> (\<forall>(k, e) \<in> set (pt_pathMap t). prefix k n \<and> sec_mode (vp_security e) \<noteq> SM_ALL
                \<longrightarrow> vp_pOwnerBundle v = vp_pOwnerBundle e))"
proof -
  have inv: "table_inv t" using reachable_table_inv assms(1,2) by blast
  then have "entries_ok (pt_pathMap t)" by (simp add: table_inv_def)
  then obtain n where n: "normalizePath A path = Inr n"
    "\<forall>v. mapPath re A t path meth = Inr v \<longleftrightarrow> deepest (pt_pathMap t) n v \<and> (\<not> vp_exactMatch v \<or> vp_path v = n)"
    "(\<forall>v. mapPath re A t path meth \<noteq> Inr v) \<longrightarrow> mapPath re A t path meth = Inl (NotFoundException path)"
    using mapPath_deepest [OF assms(1) _ assms(3,4)] by blast
  show ?thesis
  proof (cases "mapPath re A t path meth")
    case (Inl e)
    then show ?thesis using n by simp
  next
    case (Inr v)
    then have d: "deepest (pt_pathMap t) n v" using n(2) by blast
    show ?thesis using n(1) Inr d deepest_owner [OF inv d] by auto
  qed
qed

theorem protected_requests_stay_witness:
  "case mapPath (\<lambda>_ _. False) plain_paths sample_table ''/admin/x/y'' ''GET'' of
     Inl e \<Rightarrow> e = NotFoundException ''/admin/x/y'' | Inr v \<Rightarrow> vp_pOwnerBundle v = 1"
proof -
  have n: "normalizePath plain_paths ''/admin/x/y'' = Inr ''/admin/x/y/''" by code_simp
  show ?thesis
    using protected_requests_stay [OF plain_path_laws sample_table_reachable, of "''/admin/x/y''" "\<lambda>_ _. False" "''GET''"]
    by (auto simp: n sample_table_paths sample_path_def VirtualPath_default_def split: sum.splits)
qed

end
