(* ===== verification/Web_Resources.thy ===== *)
theory Web_Resources
  imports Web_Paths
begin

text \<open>
  What the web server sends (\<open>platform/OSP/Web\<close>): the media type mapper, the cache of bundle resources, the
  choice of responses to compress, the escaping of text into HTML and JSON, the messages of the error pages, and the
  selection of a process log. Strings are byte strings; a stream is the string it delivers.
\<close>

section \<open>Media types\<close>

record MediaTypeMapper =
  mm_map :: "(string \<times> string) list"
  mm_default :: string

definition mapper_find :: "MediaTypeMapper \<Rightarrow> string \<Rightarrow> string option" where
  "mapper_find M sfx = smap_get (<) (map tolower sfx) (mm_map M)"

definition mapper_add :: "string \<Rightarrow> string \<Rightarrow> MediaTypeMapper \<Rightarrow> MediaTypeMapper" where
  "mapper_add sfx mediaType M = M\<lparr>mm_map := smap_put (<) (map tolower sfx) mediaType (mm_map M)\<rparr>"

definition mapper_map :: "MediaTypeMapper \<Rightarrow> string \<Rightarrow> string" where
  "mapper_map M sfx = (case mapper_find M (map tolower sfx) of Some t \<Rightarrow> t | None \<Rightarrow> mm_default M)"

definition newline :: char where "newline = CHR 0x0A"

text \<open>The loop over the extensions of one line; it stops at the end of the line or of the stream.\<close>

definition not_blank :: "char \<Rightarrow> bool" where
  "not_blank c \<longleftrightarrow> \<not> (isspace c \<and> c \<noteq> newline)"

lemma drop_le: "length xs \<le> n \<Longrightarrow> length (dropWhile p xs) \<le> n"
  by (rule order_trans [OF length_dropWhile_le'])

function load_extensions :: "string \<Rightarrow> string \<Rightarrow> MediaTypeMapper \<Rightarrow> string \<times> MediaTypeMapper" where
  "load_extensions mediaType [] M = ([], M)"
| "load_extensions mediaType (c # s) M =
     (if c = newline then (c # s, M)
      else let (blank, rest) = scan (\<lambda>c. \<not> not_blank c) (c # s);
               (ext, rest) = scan (\<lambda>c. \<not> isspace c) rest
           in load_extensions mediaType rest (if ext \<noteq> [] then mapper_add ext mediaType M else M))"
  by pat_completeness auto
termination
proof (relation "measure (\<lambda>(t, s, M). length s)")
  fix mediaType c s M x blank rest y ext rest'
  assume "c \<noteq> newline" and x: "x = scan (\<lambda>c. \<not> not_blank c) (c # s)" "(blank, rest) = x"
    and y: "y = scan (\<lambda>c. \<not> isspace c) rest" "(ext, rest') = y"
  have "length rest' < length (c # s)"
  proof (cases "isspace c")
    case True
    then have "rest = dropWhile (\<lambda>c. \<not> not_blank c) s"
      using \<open>c \<noteq> newline\<close> x by (simp add: scan_def not_blank_def)
    then show ?thesis using y by (simp add: scan_def less_Suc_eq_le drop_le)
  next
    case False
    then have "rest = c # s" using x by (simp add: scan_def not_blank_def)
    then show ?thesis using y False by (simp add: scan_def less_Suc_eq_le drop_le)
  qed
  then show "((mediaType, rest', if ext \<noteq> [] then mapper_add ext mediaType M else M), mediaType, c # s, M)
      \<in> measure (\<lambda>(t, s, M). length s)" by simp
qed simp

lemma load_extensions_shrinks: "length (fst (load_extensions t s M)) \<le> length s"
proof (induction t s M rule: load_extensions.induct)
  case (2 mediaType c s M)
  then show ?case
  proof (cases "c = newline")
    case False
    define rest where "rest = dropWhile (\<lambda>c. \<not> not_blank c) (c # s)"
    define rest' where "rest' = dropWhile (\<lambda>c. \<not> isspace c) rest"
    define ext where "ext = takeWhile (\<lambda>c. \<not> isspace c) rest"
    define M' where "M' = (if ext \<noteq> [] then mapper_add ext mediaType M else M)"
    have scans: "(takeWhile (\<lambda>c. \<not> not_blank c) (c # s), rest) = scan (\<lambda>c. \<not> not_blank c) (c # s)"
      "(ext, rest') = scan (\<lambda>c. \<not> isspace c) rest"
      by (simp_all only: scan_def rest_def rest'_def ext_def)
    have "length (fst (load_extensions mediaType rest' M')) \<le> length rest'"
      using 2 [OF False refl scans(1) refl scans(2)] unfolding M'_def .
    also have "\<dots> \<le> length (c # s)"
      unfolding rest'_def rest_def by (intro drop_le) simp
    finally have bound: "length (fst (load_extensions mediaType rest' M')) \<le> length (c # s)" .
    have "load_extensions mediaType (c # s) M = load_extensions mediaType rest' M'"
      unfolding load_extensions.simps Let_def scans(1) [symmetric] prod.case scans(2) [symmetric] M'_def
      using False by simp
    then show ?thesis using bound by simp
  qed simp
qed simp

text \<open>\<open>load\<close>: a comment line, or a media type followed by its extensions.\<close>

function load_types :: "string \<Rightarrow> MediaTypeMapper \<Rightarrow> MediaTypeMapper" where
  "load_types [] M = M"
| "load_types (c # s) M =
     (case skip_ws (c # s) of
        [] \<Rightarrow> M
      | d # r \<Rightarrow>
          if d = CHR ''#'' then load_types (dropWhile (\<lambda>x. x \<noteq> newline) r) M
          else let (mediaType, rest) = scan (\<lambda>x. \<not> isspace x) (d # r);
                   (rest, M) = load_extensions mediaType rest M
               in load_types rest M)"
  by pat_completeness auto
termination
proof (relation "measure (\<lambda>(s, M). length s)")
  show "wf (measure (\<lambda>(s, M :: MediaTypeMapper). length s))" by simp
next
  fix c s M d r
  assume skip: "skip_ws (c # s) = d # r"
  then have "length (d # r) \<le> length (c # s)" by (metis skip_ws_length)
  then show "((dropWhile (\<lambda>x. x \<noteq> newline) r, M), c # s, M) \<in> measure (\<lambda>(s, M). length s)"
    by (simp add: less_Suc_eq_le drop_le)
next
  fix c s M d r x mediaType rest y rest' M'
  assume skip: "skip_ws (c # s) = d # r"
    and x: "x = scan (\<lambda>x. \<not> isspace x) (d # r)" "(mediaType, rest) = x"
    and y: "y = load_extensions mediaType rest M" "(rest', M') = y"
  have "length (d # r) \<le> length (c # s)" using skip by (metis skip_ws_length)
  moreover have "\<not> isspace d" using skip unfolding skip_ws_def by (metis dropWhile_eq_Cons_conv)
  moreover have "length rest' \<le> length rest" using y load_extensions_shrinks [of mediaType rest M] by (metis fst_conv)
  ultimately show "((rest', M'), c # s, M) \<in> measure (\<lambda>(s, M). length s)"
    using x drop_le [of r "length s" "\<lambda>x. \<not> isspace x"] by (simp add: scan_def)
qed

definition compressible :: "string set \<Rightarrow> string \<Rightarrow> bool" where
  "compressible compressedMediaTypes mediaType =
     (let mt = takeWhile (\<lambda>c. c \<noteq> CHR '';'') mediaType in
      mt \<in> compressedMediaTypes
      \<or> (CHR ''/'' \<in> set mt \<and> takeWhile (\<lambda>c. c \<noteq> CHR ''/'') mt @ ''/*'' \<in> compressedMediaTypes))"

section \<open>Escaping and messages\<close>

definition html_char :: "char \<Rightarrow> string" where
  "html_char c = (if c = CHR ''<'' then ''&lt;'' else if c = CHR ''>'' then ''&gt;'' else if c = CHR 0x22 then ''&quot;''
     else if c = CHR ''&'' then ''&amp;'' else [c])"

definition htmlize :: "string \<Rightarrow> string" where
  "htmlize str = concat (map html_char str)"

definition json_char :: "char \<Rightarrow> string" where
  "json_char c = (if c = CHR 0x22 then [CHR 0x5C, CHR 0x22] else if c = CHR 0x0D then [CHR 0x5C, CHR ''r'']
     else if c = CHR 0x0A then [CHR 0x5C, CHR ''n''] else if c = CHR 0x09 then [CHR 0x5C, CHR ''t''] else [c])"

definition jsonize :: "string \<Rightarrow> string" where
  "jsonize str = concat (map json_char str)"

text \<open>The loop of \<open>formatMessage\<close> over the text of the message.\<close>

fun expand_message :: "string \<Rightarrow> string \<Rightarrow> string \<Rightarrow> string" where
  "expand_message arg1 arg2 [] = []"
| "expand_message arg1 arg2 [c] = [c]"
| "expand_message arg1 arg2 (c # d # s) =
     (if c = CHR ''$''
      then (if d = CHR ''1'' then arg1 else if d = CHR ''2'' then arg2 else [d]) @ expand_message arg1 arg2 s
      else c # expand_message arg1 arg2 (d # s))"

text \<open>\<open>messages\<close> is \<open>getString\<close> of the properties of the bundle with an empty default.\<close>

definition formatMessage :: "(string \<Rightarrow> string) \<Rightarrow> string \<Rightarrow> string \<Rightarrow> string \<Rightarrow> string" where
  "formatMessage messages messageId arg1 arg2 =
     (let realId = ''message.'' @ messageId; rawMessage = messages realId in
      if rawMessage = [] then ''Message not found: '' @ realId else expand_message arg1 arg2 rawMessage)"

section \<open>The log of a process\<close>

definition log_name_char :: "char \<Rightarrow> bool" where
  "log_name_char c \<longleftrightarrow> isalpha c \<or> isdigit c \<or> c = CHR ''.'' \<or> c = CHR ''_'' \<or> c = CHR ''-''"

text \<open>The parameters of the query: the last \<open>id\<close> and \<open>name\<close>, and the last \<open>limit\<close> that is a number, brought into range.\<close>

record log_query =
  lq_id :: string
  lq_name :: string
  lq_limit :: int

fun read_log_query :: "(string \<Rightarrow> int option) \<Rightarrow> (string \<times> string) list \<Rightarrow> log_query \<Rightarrow> log_query" where
  "read_log_query parse [] q = q"
| "read_log_query parse ((k, v) # ps) q =
     read_log_query parse ps
       (if k = ''id'' then q\<lparr>lq_id := v\<rparr>
        else if k = ''name'' then q\<lparr>lq_name := v\<rparr>
        else if k = ''limit'' then (case parse v of Some n \<Rightarrow> q\<lparr>lq_limit := n\<rparr> | None \<Rightarrow> q)
        else q)"

definition log_query :: "(string \<Rightarrow> int option) \<Rightarrow> (string \<times> string) list \<Rightarrow> log_query" where
  "log_query parse ps =
     (let q = read_log_query parse ps \<lparr>lq_id = [], lq_name = [], lq_limit = 300\<rparr>
      in q\<lparr>lq_limit := max 20 (min (lq_limit q) 1000)\<rparr>)"

definition log_name :: "string \<Rightarrow> log_query \<Rightarrow> string" where
  "log_name ownId q =
     (if lq_id q \<noteq> [] \<and> lq_id q \<noteq> ownId
      then let n = filter log_name_char (lq_name q) in
           if 4 < length n \<and> map tolower (drop (length n - 4) n) = ''.exe'' then take (length n - 4) n else n
      else ''pdr-runtime'')"

text \<open>The loop over the lines of the file, with a queue that drops its oldest line.\<close>

fun keep_lines :: "nat \<Rightarrow> string list \<Rightarrow> string list \<Rightarrow> string list" where
  "keep_lines limit q [] = q"
| "keep_lines limit q (l # ls) =
     keep_lines limit (let q = q @ [l] in if limit < length q then tl q else q) ls"

fun json_lines :: "string list \<Rightarrow> string" where
  "json_lines [] = []"
| "json_lines [l] = [CHR 0x22] @ jsonize l @ [CHR 0x22]"
| "json_lines (l # ls) = [CHR 0x22] @ jsonize l @ [CHR 0x22] @ '','' @ json_lines ls"

definition process_logs :: "(string \<Rightarrow> int option) \<Rightarrow> string \<Rightarrow> (string \<Rightarrow> string list) \<Rightarrow> (string \<times> string) list \<Rightarrow> string" where
  "process_logs parse ownId file ps =
     (let q = log_query parse ps;
          n = log_name ownId q;
          ls = (if n \<noteq> [] then keep_lines (nat (lq_limit q)) [] (file (n @ ''.log'')) else [])
      in ''{'' @ [CHR 0x22] @ ''processId'' @ [CHR 0x22] @ '':'' @ [CHR 0x22] @ jsonize (lq_id q) @ [CHR 0x22] @ '',''
         @ [CHR 0x22] @ ''lines'' @ [CHR 0x22] @ '':['' @ json_lines ls @ '']}'')"

section \<open>The cache of bundle resources\<close>

definition cache_prefix :: "string \<Rightarrow> string" where
  "cache_prefix symName = ''//'' @ symName @ ''/''"

text \<open>
  \<open>getCachedResource\<close> in the two parts between which the lock is not held: the lookup, and the insertion of the data the
  bundle delivered. \<open>res\<close> is the content of the bundles: the data of a path of the bundle with a symbolic name.
\<close>

definition cache_lookup :: "string \<Rightarrow> string \<Rightarrow> (string \<times> string) list \<Rightarrow> string option" where
  "cache_lookup symName path cache = smap_get (<) (cache_prefix symName @ path) cache"

definition cache_insert :: "string \<Rightarrow> string \<Rightarrow> string \<Rightarrow> (string \<times> string) list \<Rightarrow> (string \<times> string) list \<times> string" where
  "cache_insert symName path cachedData cache =
     (case smap_get (<) (cache_prefix symName @ path) cache of
        None \<Rightarrow> (smap_put (<) (cache_prefix symName @ path) cachedData cache, cachedData)
      | Some d \<Rightarrow> (cache, d))"

definition getCachedResource :: "bool \<Rightarrow> (string \<Rightarrow> string \<Rightarrow> string option) \<Rightarrow> string \<Rightarrow> string \<Rightarrow> bool
  \<Rightarrow> (string \<times> string) list \<Rightarrow> (string \<times> string) list \<times> string option" where
  "getCachedResource cacheResources res symName path canCache cache =
     (if cacheResources \<and> canCache
      then case cache_lookup symName path cache of
             Some d \<Rightarrow> (cache, Some d)
           | None \<Rightarrow> (case res symName path of
                 None \<Rightarrow> (cache, None)
               | Some d \<Rightarrow> (let (cache, d) = cache_insert symName path d cache in (cache, Some d)))
      else (cache, res symName path))"

definition uncacheBundleResources :: "string \<Rightarrow> (string \<times> string) list \<Rightarrow> (string \<times> string) list" where
  "uncacheBundleResources symName cache =
     filter (\<lambda>(k, d). take (length (cache_prefix symName)) k \<noteq> cache_prefix symName) cache"

text \<open>
  \<open>findResource\<close>: the resource at the path below the base, or the index page of that directory. \<open>append\<close> and
  \<open>extension\<close> are those of \<open>Poco::Path\<close>: the path in the base directory, with the index page when one is given.
\<close>

record resource_paths =
  rp_append :: "string \<Rightarrow> string \<Rightarrow> string option \<Rightarrow> string"
  rp_extension :: "string \<Rightarrow> string"

definition findResource :: "bool \<Rightarrow> resource_paths \<Rightarrow> MediaTypeMapper \<Rightarrow> (string \<Rightarrow> string \<Rightarrow> string option) \<Rightarrow> string
  \<Rightarrow> string \<Rightarrow> string \<Rightarrow> string \<Rightarrow> bool \<Rightarrow> (string \<times> string) list
  \<Rightarrow> (string \<times> string) list \<times> (string \<times> string \<times> string) option" where
  "findResource cacheResources P M res symName base r index canCache cache =
     (let resolvedPath = rp_append P base r None;
          (cache, pStream) = getCachedResource cacheResources res symName resolvedPath canCache cache
      in case pStream of
           Some d \<Rightarrow> (cache, Some (d, mapper_map M (rp_extension P resolvedPath), resolvedPath))
         | None \<Rightarrow>
             let resolvedPath = rp_append P base r (Some index);
                 (cache, pStream) = getCachedResource cacheResources res symName resolvedPath canCache cache
             in (cache, map_option (\<lambda>d. (d, mapper_map M (rp_extension P resolvedPath), resolvedPath)) pStream))"

section \<open>What escaping and the log selection guarantee\<close>

fun unhtml :: "string \<Rightarrow> string" where
  "unhtml [] = []"
| "unhtml (c # s) = (if c \<noteq> CHR ''&'' then c # unhtml s
     else if take 3 s = ''lt;'' then CHR ''<'' # unhtml (drop 3 s)
     else if take 3 s = ''gt;'' then CHR ''>'' # unhtml (drop 3 s)
     else if take 5 s = ''quot;'' then CHR 0x22 # unhtml (drop 5 s)
     else if take 4 s = ''amp;'' then CHR ''&'' # unhtml (drop 4 s)
     else c # unhtml s)"

lemma unhtml_char: "unhtml (html_char c @ s) = c # unhtml s"
  by (simp add: html_char_def)

lemma unhtml_htmlize: "unhtml (htmlize str) = str"
  unfolding htmlize_def by (induction str) (simp_all add: unhtml_char)

lemma htmlize_plain: "set (htmlize str) \<inter> {CHR ''<'', CHR ''>'', CHR 0x22} = {}"
  unfolding htmlize_def by (induction str) (auto simp: html_char_def)

text \<open>The escaping into JSON leaves the backslash alone, so different texts give the same JSON.\<close>

lemma jsonize_ambiguous: "jsonize [CHR 0x5C, CHR ''n''] = jsonize [CHR 0x0A]"
  by (simp add: jsonize_def json_char_def)

lemma keep_lines_last:
  "length q \<le> limit \<Longrightarrow> keep_lines limit q ls = drop (length (q @ ls) - limit) (q @ ls)"
proof (induction ls arbitrary: q)
  case Nil
  then show ?case by simp
next
  case (Cons l ls)
  show ?case
  proof (cases "limit < length (q @ [l])")
    case True
    then have limit: "length q = limit" using Cons.prems by simp
    have "keep_lines limit q (l # ls) = keep_lines limit (tl (q @ [l])) ls" using True by simp
    also have "\<dots> = drop (length (tl (q @ [l]) @ ls) - limit) (tl (q @ [l]) @ ls)"
      by (rule Cons.IH) (simp add: limit)
    also have "tl (q @ [l]) @ ls = tl (q @ l # ls)" by (cases q) simp_all
    also have "drop (length (tl (q @ l # ls)) - limit) (tl (q @ l # ls)) = drop (length (q @ l # ls) - limit) (q @ l # ls)"
      by (simp add: limit drop_Suc [symmetric] Suc_diff_Suc)
    finally show ?thesis .
  next
    case False
    then show ?thesis using Cons.IH [of "q @ [l]"] by simp
  qed
qed

lemma log_query_limit: "20 \<le> lq_limit (log_query parse ps) \<and> lq_limit (log_query parse ps) \<le> 1000"
  by (simp add: log_query_def Let_def)

lemma log_name_chars: "list_all log_name_char (log_name ownId q)"
proof -
  have own: "list_all log_name_char ''pdr-runtime''" by code_simp
  have filtered: "list_all log_name_char (filter log_name_char n)" for n by (simp add: list_all_iff)
  then have "list_all log_name_char (take k (filter log_name_char n))" for k n
    by (auto simp: list_all_iff dest: in_set_takeD)
  with own filtered show ?thesis by (simp add: log_name_def Let_def)
qed

section \<open>What the cache guarantees\<close>

text \<open>
  The states of the cache together with the content of the bundles. A bundle changes only when it has
  stopped, and its resources are taken out of the cache when it stops. Symbolic names have no slash.
\<close>

inductive cache_reachable :: "bool \<Rightarrow> (string \<Rightarrow> string \<Rightarrow> string option) \<Rightarrow> (string \<times> string) list \<Rightarrow> bool" for enabled where
  start: "cache_reachable enabled res []"
| get: "cache_reachable enabled res cache \<Longrightarrow> CHR ''/'' \<notin> set n \<Longrightarrow>
    cache_reachable enabled res (fst (getCachedResource enabled res n path canCache cache))"
| change: "cache_reachable enabled res cache \<Longrightarrow> CHR ''/'' \<notin> set n \<Longrightarrow> (\<And>m. m \<noteq> n \<Longrightarrow> res' m = res m) \<Longrightarrow>
    cache_reachable enabled res' (uncacheBundleResources n cache)"

definition cache_coherent :: "(string \<Rightarrow> string \<Rightarrow> string option) \<Rightarrow> (string \<times> string) list \<Rightarrow> bool" where
  "cache_coherent res cache \<longleftrightarrow> string_order.wf_map cache
     \<and> (\<forall>(k, d) \<in> set cache. \<exists>n path. CHR ''/'' \<notin> set n \<and> k = cache_prefix n @ path \<and> res n path = Some d)"

lemma cache_key_inj:
  assumes "CHR ''/'' \<notin> set n" and "CHR ''/'' \<notin> set m"
  shows "cache_prefix n @ p = cache_prefix m @ q \<longleftrightarrow> n = m \<and> p = q"
  using first_slash [OF assms, of p q] by (auto simp: cache_prefix_def)

lemma cache_hit:
  assumes "cache_coherent res cache" and "CHR ''/'' \<notin> set n"
    and "smap_get (<) (cache_prefix n @ path) cache = Some d"
  shows "res n path = Some d"
proof -
  have "(cache_prefix n @ path, d) \<in> set cache"
    using assms(1,3) by (auto simp: cache_coherent_def get_entry)
  then obtain m q where "CHR ''/'' \<notin> set m" "cache_prefix n @ path = cache_prefix m @ q" "res m q = Some d"
    using assms(1) by (auto simp: cache_coherent_def)
  then show ?thesis using cache_key_inj assms(2) by blast
qed

lemma getCachedResource_result:
  assumes "cache_coherent res cache" and "CHR ''/'' \<notin> set n"
  shows "snd (getCachedResource enabled res n path canCache cache) = res n path"
    and "cache_coherent res (fst (getCachedResource enabled res n path canCache cache))"
proof -
  let ?k = "cache_prefix n @ path"
  have put: "cache_coherent res (smap_put (<) ?k d cache)" if "res n path = Some d" "smap_get (<) ?k cache = None" for d
    using assms that string_order.put_fresh [OF that(2), of d]
    by (auto simp: cache_coherent_def string_order.put_keeps_wf)
  show "snd (getCachedResource enabled res n path canCache cache) = res n path"
    using cache_hit [OF assms]
    by (auto simp: getCachedResource_def cache_lookup_def cache_insert_def split: option.splits)
  show "cache_coherent res (fst (getCachedResource enabled res n path canCache cache))"
    using assms(1) put
    by (auto simp: getCachedResource_def cache_lookup_def cache_insert_def split: option.splits)
qed

lemma uncache_entries:
  "set (uncacheBundleResources n cache) = {(k, d) \<in> set cache. \<not> prefix (cache_prefix n) k}"
proof -
  have "take (length (cache_prefix n)) k \<noteq> cache_prefix n \<longleftrightarrow> \<not> prefix (cache_prefix n) k" for k
    using take_prefix [of "cache_prefix n" k] by metis
  then show ?thesis by (auto simp: uncacheBundleResources_def)
qed

lemma reachable_cache_coherent: "cache_reachable enabled res cache \<Longrightarrow> cache_coherent res cache"
proof (induction rule: cache_reachable.induct)
  case (start res)
  then show ?case by (simp add: cache_coherent_def string_order.wf_map_def)
next
  case (get res cache n path canCache)
  then show ?case using getCachedResource_result(2) by blast
next
  case (change res cache n res')
  have "string_order.wf_map (uncacheBundleResources n cache)"
    using change.IH by (simp add: cache_coherent_def string_order.wf_map_def uncacheBundleResources_def sorted_wrt_map sorted_wrt_filter)
  moreover have "\<exists>m path. CHR ''/'' \<notin> set m \<and> k = cache_prefix m @ path \<and> res' m path = Some d"
    if entry: "(k, d) \<in> set (uncacheBundleResources n cache)" for k d
  proof -
    obtain m path where m: "CHR ''/'' \<notin> set m" "k = cache_prefix m @ path" "res m path = Some d"
      using entry change.IH by (auto simp: uncache_entries cache_coherent_def)
    moreover have "m \<noteq> n" using entry m(2) by (auto simp: uncache_entries)
    ultimately show ?thesis using change.hyps(3) by metis
  qed
  ultimately show ?case unfolding cache_coherent_def by blast
qed

text \<open>
  The guarantee needs the lookup and the insertion to happen without a stop of the bundle in between: a request
  that was still reading the old resource puts it back after the bundle has been removed from the cache, and the
  changed bundle is then served the old data.
\<close>

lemma stale_resource_cached:
  assumes "res n path = Some old" and "cache_lookup n path cache = None" and "res' n path = Some new" and "old \<noteq> new"
    and "string_order.wf_map cache"
  shows "snd (getCachedResource True res' n path True
           (fst (cache_insert n path old (uncacheBundleResources n cache)))) = Some old"
proof -
  have wf: "string_order.wf_map (uncacheBundleResources n cache)"
    using assms(5) by (simp add: string_order.wf_map_def uncacheBundleResources_def sorted_wrt_map sorted_wrt_filter)
  have "smap_get (<) (cache_prefix n @ path) (uncacheBundleResources n cache) = None"
    using get_entry [OF wf, of "cache_prefix n @ path"] by (cases "smap_get (<) (cache_prefix n @ path) (uncacheBundleResources n cache)")
      (auto simp: uncache_entries)
  then have "smap_get (<) (cache_prefix n @ path) (fst (cache_insert n path old (uncacheBundleResources n cache))) = Some old"
    using string_order.get_put_same [of "cache_prefix n @ path" "cache_prefix n @ path"] by (simp add: cache_insert_def)
  then show ?thesis by (simp add: getCachedResource_def cache_lookup_def)
qed

definition sample_content :: "string \<Rightarrow> string \<Rightarrow> string option" where
  "sample_content n path = (if path = ''index.html'' then Some (n @ '' home'') else None)"

section \<open>Properties\<close>



text \<open>
  The request for the log of a process reads only files of the log directory: whatever the query says, the
  name it opens consists of letters, digits, points, underscores and hyphens, and the answer has the
  last lines of the file, between 20 and 1000 of them at most.
\<close>

theorem process_log_confined:
  "list_all log_name_char (log_name ownId (log_query parse ps))
   \<and> \<not> log_name_char CHR ''/'' \<and> \<not> log_name_char CHR 0x5C
   \<and> keep_lines (nat (lq_limit (log_query parse ps))) [] ls = drop (length ls - nat (lq_limit (log_query parse ps))) ls
   \<and> 20 \<le> lq_limit (log_query parse ps) \<and> lq_limit (log_query parse ps) \<le> 1000"
  using log_query_limit [of parse ps] log_name_chars [of ownId "log_query parse ps"]
    keep_lines_last [of "[]" "nat (lq_limit (log_query parse ps))" ls]
  by (simp add: log_name_char_def isalpha_def isdigit_def)

text \<open>
  Text put into an HTML page cannot end the element or attribute it is in, and a browser shows it as it was.
\<close>

theorem htmlize_safe:
  "set (htmlize str) \<inter> {CHR ''<'', CHR ''>'', CHR 0x22} = {} \<and> unhtml (htmlize str) = str"
  by (simp add: htmlize_plain unhtml_htmlize)

end
