(* ===== verification/Web_Session.thy ===== *)
theory Web_Session
  imports Prelude
begin

text \<open>
  Web sessions (\<open>platform/OSP/Web\<close>): \<open>WebSession\<close> with its attributes and version, and \<open>WebSessionManager\<close>,
  which finds the session of a request by its cookie, verifies the client address, creates and removes sessions.
  Session objects are shared, so they live on a heap and are referred to by address. The expiring cache is
  \<open>Poco::UniqueExpireCache\<close>, the session store an optional service with no implementation in the
  repository: both are records of the functions the code calls, with what they document in \<open>cache_laws\<close> and
  \<open>store_laws\<close>. Digests of new tokens are a parameter too. Times are microseconds.
\<close>

section \<open>Sessions\<close>

text \<open>\<open>Poco::Any\<close>: a string, or a value of another type.\<close>

datatype any = AnyEmpty | AnyString string | AnyOther nat

record WebSession =
  ws_id :: string
  ws_version :: int
  ws_timeout :: int
  ws_bundle :: nat
  ws_created :: int
  ws_expiration :: int
  ws_clientAddress :: string
  ws_attrs :: "(string \<times> any) list"
  ws_pStore :: "nat option"

definition CSRF_TOKEN :: string where "CSRF_TOKEN = ''#csrfToken''"

text \<open>The store service, on a state \<open>'s\<close>; \<open>st_load\<close> is given the requested version and returns the object it builds.\<close>

record 's store_api =
  st_saveSession :: "WebSession \<Rightarrow> 's \<Rightarrow> 's"
  st_loadSession :: "string \<Rightarrow> int \<Rightarrow> 's \<Rightarrow> WebSession option \<times> bool"
  st_expireSession :: "string \<Rightarrow> int \<Rightarrow> 's \<Rightarrow> 's"
  st_saveValue :: "string \<Rightarrow> string \<Rightarrow> any \<Rightarrow> 's \<Rightarrow> 's \<times> int"
  st_removeValue :: "string \<Rightarrow> string \<Rightarrow> 's \<Rightarrow> 's \<times> int"
  st_clearValues :: "string \<Rightarrow> 's \<Rightarrow> 's \<times> int"

text \<open>The cache, on a state \<open>'c\<close>: entries are added with the expiration time of the object at that moment.\<close>

record 'c cache_api =
  ca_add :: "string \<Rightarrow> nat \<Rightarrow> int \<Rightarrow> 'c \<Rightarrow> 'c"
  ca_get :: "int \<Rightarrow> string \<Rightarrow> 'c \<Rightarrow> nat option"
  ca_remove :: "string \<Rightarrow> 'c \<Rightarrow> 'c"
  ca_entries :: "'c \<Rightarrow> (string \<times> nat) list"

definition accessImpl :: "int \<Rightarrow> WebSession \<Rightarrow> WebSession" where
  "accessImpl now s = s\<lparr>ws_expiration := now + ws_timeout s * 1000000\<rparr>"

definition WebSession_new :: "int \<Rightarrow> string \<Rightarrow> string \<Rightarrow> int \<Rightarrow> int \<Rightarrow> string \<Rightarrow> nat option \<Rightarrow> nat \<Rightarrow> WebSession" where
  "WebSession_new now sid csrfToken version timeoutSeconds clientAddress pStore pBundle =
     (let s = accessImpl now \<lparr>ws_id = sid, ws_version = version, ws_timeout = timeoutSeconds, ws_bundle = pBundle,
        ws_created = now, ws_expiration = now, ws_clientAddress = clientAddress, ws_attrs = [], ws_pStore = pStore\<rparr>
      in s\<lparr>ws_attrs := smap_put (<) CSRF_TOKEN (AnyString csrfToken) (ws_attrs s)\<rparr>)"

definition session_has :: "WebSession \<Rightarrow> string \<Rightarrow> bool" where
  "session_has s key \<longleftrightarrow> smap_get (<) key (ws_attrs s) \<noteq> None"

definition session_get :: "WebSession \<Rightarrow> string \<Rightarrow> any res" where
  "session_get s key = (case smap_get (<) key (ws_attrs s) of
     Some v \<Rightarrow> Inr v | None \<Rightarrow> Inl (NotFoundException key))"

definition any_string :: "any \<Rightarrow> string res" where
  "any_string a = (case a of AnyString x \<Rightarrow> Inr x | _ \<Rightarrow> Inl (OtherException ''BadCastException''))"

text \<open>\<open>getValue<std::string>\<close> without and with a default.\<close>

definition getValue :: "WebSession \<Rightarrow> string \<Rightarrow> string res" where
  "getValue s key = rbind (session_get s key) any_string"

definition getValue_or :: "WebSession \<Rightarrow> string \<Rightarrow> string \<Rightarrow> string res" where
  "getValue_or s key deflt = (case smap_get (<) key (ws_attrs s) of Some v \<Rightarrow> any_string v | None \<Rightarrow> Inr deflt)"

definition csrfToken :: "WebSession \<Rightarrow> string res" where
  "csrfToken s = getValue s CSRF_TOKEN"

definition updateVersion :: "int \<Rightarrow> WebSession \<Rightarrow> WebSession" where
  "updateVersion version s = (if version = ws_version s + 1 then s\<lparr>ws_version := version\<rparr> else s)"

text \<open>
  The state the sessions share: the heap of session objects, the store services (a session keeps the one it
  was created with), the cache, the manager's own store and its serial number.
\<close>

record ('c, 's) sessions =
  se_heap :: "WebSession list"
  se_stores :: "'s list"
  se_cache :: 'c
  se_pStore :: "nat option"
  se_serial :: "32 word"

definition put_session :: "nat \<Rightarrow> WebSession \<Rightarrow> ('c, 's) sessions \<Rightarrow> ('c, 's) sessions" where
  "put_session a s w = w\<lparr>se_heap := (se_heap w)[a := s]\<rparr>"

text \<open>A modification of the attributes that also goes to the store, which answers with the new version.\<close>

definition store_change :: "nat \<Rightarrow> (WebSession \<Rightarrow> WebSession) \<Rightarrow> (string \<Rightarrow> 's \<Rightarrow> 's \<times> int) \<Rightarrow> ('c, 's) sessions
  \<Rightarrow> ('c, 's) sessions" where
  "store_change a f g w =
     (let s = f (se_heap w ! a) in
      case ws_pStore s of
        None \<Rightarrow> put_session a s w
      | Some st \<Rightarrow> (let (st', version) = g (ws_id s) (se_stores w ! st) in
          put_session a (updateVersion version s) (w\<lparr>se_stores := (se_stores w)[st := st']\<rparr>)))"

definition session_set :: "'s store_api \<Rightarrow> nat \<Rightarrow> string \<Rightarrow> any \<Rightarrow> ('c, 's) sessions \<Rightarrow> ('c, 's) sessions" where
  "session_set S a key v = store_change a (\<lambda>s. s\<lparr>ws_attrs := smap_put (<) key v (ws_attrs s)\<rparr>)
     (\<lambda>sid. st_saveValue S sid key v)"

definition session_erase :: "'s store_api \<Rightarrow> nat \<Rightarrow> string \<Rightarrow> ('c, 's) sessions \<Rightarrow> ('c, 's) sessions" where
  "session_erase S a key = store_change a (\<lambda>s. s\<lparr>ws_attrs := smap_del (<) key (ws_attrs s)\<rparr>)
     (\<lambda>sid. st_removeValue S sid key)"

definition clearImpl :: "'s store_api \<Rightarrow> nat \<Rightarrow> ('c, 's) sessions \<Rightarrow> ('c, 's) sessions" where
  "clearImpl S a = store_change a (\<lambda>s. s\<lparr>ws_attrs := []\<rparr>) (st_clearValues S)"

definition session_clear :: "'s store_api \<Rightarrow> nat \<Rightarrow> ('c, 's) sessions \<Rightarrow> ('c, 's) sessions" where
  "session_clear S a w =
     (let token = (case smap_get (<) CSRF_TOKEN (ws_attrs (se_heap w ! a)) of Some v \<Rightarrow> v | None \<Rightarrow> AnyEmpty);
          w = clearImpl S a w;
          s = se_heap w ! a
      in if token \<noteq> AnyEmpty then put_session a (s\<lparr>ws_attrs := smap_put (<) CSRF_TOKEN token (ws_attrs s)\<rparr>) w else w)"

definition session_access :: "'s store_api \<Rightarrow> int \<Rightarrow> nat \<Rightarrow> ('c, 's) sessions \<Rightarrow> ('c, 's) sessions" where
  "session_access S now a w =
     (let s = accessImpl now (se_heap w ! a); w = put_session a s w in
      case ws_pStore s of
        None \<Rightarrow> w
      | Some st \<Rightarrow> w\<lparr>se_stores := (se_stores w)[st := st_expireSession S (ws_id s) (ws_timeout s) (se_stores w ! st)]\<rparr>)"

definition session_onBundleStopping :: "'s store_api \<Rightarrow> nat \<Rightarrow> nat \<Rightarrow> ('c, 's) sessions \<Rightarrow> ('c, 's) sessions" where
  "session_onBundleStopping S pBundle a w =
     (if ws_bundle (se_heap w ! a) = pBundle then clearImpl S a w else w)"

section \<open>Cookies\<close>

datatype CookiePersistence = COOKIE_TRANSIENT | COOKIE_PERSISTENT

datatype SameSite = SAME_SITE_NOT_SPECIFIED | SAME_SITE_NONE | SAME_SITE_LAX | SAME_SITE_STRICT

record cookie =
  ck_name :: string
  ck_value :: string
  ck_maxAge :: "int option"
  ck_path :: string
  ck_domain :: string
  ck_httpOnly :: bool
  ck_secure :: bool
  ck_sameSite :: SameSite

record manager_config =
  mc_defaultDomain :: string
  mc_defaultPath :: string
  mc_csrfCookie :: string
  mc_cookiePersistence :: CookiePersistence
  mc_cookieSecure :: bool
  mc_verifyAddress :: bool
  mc_cookieSameSite :: SameSite

definition manager_config_new :: manager_config where
  "manager_config_new = \<lparr>mc_defaultDomain = [], mc_defaultPath = [], mc_csrfCookie = [],
     mc_cookiePersistence = COOKIE_PERSISTENT, mc_cookieSecure = False, mc_verifyAddress = True,
     mc_cookieSameSite = SAME_SITE_NOT_SPECIFIED\<rparr>"

text \<open>What the manager reads of a request: the host of the client, its socket address as text, and the cookies.\<close>

record session_request =
  sr_host :: string
  sr_address :: string
  sr_cookies :: "(string \<times> string) list"

definition COOKIE_NAME :: string where "COOKIE_NAME = ''osp.web.session''"

text \<open>\<open>std::string::find\<close> of a character, as the part before it and the part from it on.\<close>

definition before :: "char \<Rightarrow> string \<Rightarrow> string" where
  "before c s = takeWhile (\<lambda>x. x \<noteq> c) s"

definition from_char :: "char \<Rightarrow> string \<Rightarrow> string" where
  "from_char c s = dropWhile (\<lambda>x. x \<noteq> c) s"

definition cookieName :: "string \<Rightarrow> string" where
  "cookieName appName =
     (if appName \<noteq> [] then COOKIE_NAME @ ''.'' @
        (if CHR ''@'' \<in> set appName then before CHR ''@'' appName else before CHR ''/'' appName)
      else COOKIE_NAME)"

definition cookieDomain :: "manager_config \<Rightarrow> string \<Rightarrow> string" where
  "cookieDomain C appName =
     (let result = (if CHR ''@'' \<in> set appName then before CHR ''/'' (tl (from_char CHR ''@'' appName)) else []) in
      if result = [] then mc_defaultDomain C else result)"

definition cookiePath :: "manager_config \<Rightarrow> string \<Rightarrow> string" where
  "cookiePath C appName =
     (let result = (if CHR ''/'' \<in> set appName then from_char CHR ''/'' appName else ''/'') in
      if result = [] then mc_defaultPath C else result)"

definition max_age :: "manager_config \<Rightarrow> WebSession \<Rightarrow> int option" where
  "max_age C s = (if mc_cookiePersistence C = COOKIE_PERSISTENT then Some (ws_timeout s) else None)"

definition sessionCookie :: "manager_config \<Rightarrow> string \<Rightarrow> WebSession \<Rightarrow> cookie" where
  "sessionCookie C appName s = \<lparr>ck_name = cookieName appName, ck_value = ws_id s, ck_maxAge = max_age C s,
     ck_path = cookiePath C appName, ck_domain = cookieDomain C appName, ck_httpOnly = True,
     ck_secure = mc_cookieSecure C, ck_sameSite = mc_cookieSameSite C\<rparr>"

text \<open>\<open>addCSRFCookie\<close>: the cookies it adds, or the exception of reading the token.\<close>

definition csrfCookies :: "manager_config \<Rightarrow> string \<Rightarrow> WebSession \<Rightarrow> cookie list res" where
  "csrfCookies C appName s =
     (if mc_csrfCookie C \<noteq> [] then rbind (csrfToken s) (\<lambda>token. Inr [\<lparr>ck_name = mc_csrfCookie C, ck_value = token,
        ck_maxAge = max_age C s, ck_path = cookiePath C appName, ck_domain = [], ck_httpOnly = False,
        ck_secure = mc_cookieSecure C, ck_sameSite = SAME_SITE_STRICT\<rparr>])
      else Inr [])"

section \<open>The session manager\<close>

text \<open>
  \<open>getCookies\<close> gives a \<open>NameValueCollection\<close>, whose \<open>find\<close> ignores the case of the name.
\<close>

definition getId :: "string \<Rightarrow> session_request \<Rightarrow> string" where
  "getId appName request =
     (case List.find (\<lambda>(n, v). map tolower n = map tolower (cookieName appName)) (sr_cookies request) of
        Some (n, v) \<Rightarrow> v | None \<Rightarrow> [])"

text \<open>The token of a new session: a digest of the serial number, the time, random bytes and the client address.\<close>

definition createToken :: "(32 word \<Rightarrow> string \<Rightarrow> string) \<Rightarrow> session_request \<Rightarrow> ('c, 's) sessions
  \<Rightarrow> ('c, 's) sessions \<times> string" where
  "createToken digest request w =
     (let serial = se_serial w + 1 in (w\<lparr>se_serial := serial\<rparr>, digest serial (sr_address request)))"

definition alloc_session :: "WebSession \<Rightarrow> ('c, 's) sessions \<Rightarrow> ('c, 's) sessions \<times> nat" where
  "alloc_session s w = (w\<lparr>se_heap := se_heap w @ [s]\<rparr>, length (se_heap w))"

definition removeImpl :: "'c cache_api \<Rightarrow> 's store_api \<Rightarrow> string \<Rightarrow> ('c, 's) sessions \<Rightarrow> ('c, 's) sessions" where
  "removeImpl K S sid w =
     (let w = w\<lparr>se_cache := ca_remove K sid (se_cache w)\<rparr> in
      case se_pStore w of
        None \<Rightarrow> w
      | Some st \<Rightarrow> w\<lparr>se_stores := (se_stores w)[st := st_expireSession S sid 0 (se_stores w ! st)]\<rparr>)"

text \<open>A session loaded from the store is a new object.\<close>

definition findByIdImpl :: "'c cache_api \<Rightarrow> 's store_api \<Rightarrow> int \<Rightarrow> string \<Rightarrow> ('c, 's) sessions
  \<Rightarrow> ('c, 's) sessions \<times> nat option" where
  "findByIdImpl K S now sid w =
     (case (se_pStore w, ca_get K now sid (se_cache w)) of
        (None, pSession) \<Rightarrow> (w, pSession)
      | (Some st, Some a) \<Rightarrow>
          (case st_loadSession S sid (ws_version (se_heap w ! a)) (se_stores w ! st) of
             (Some s, True) \<Rightarrow> (let (w, b) = alloc_session s w in (w, Some b))
           | (_, False) \<Rightarrow> (w, None)
           | (None, True) \<Rightarrow> (w, Some a))
      | (Some st, None) \<Rightarrow>
          (case st_loadSession S sid 0 (se_stores w ! st) of
             (Some s, True) \<Rightarrow> (let (w, b) = alloc_session s w in (w, Some b))
           | _ \<Rightarrow> (w, None)))"

text \<open>The result of an operation of the manager: the state, the cookies added to the response, the session or an exception.\<close>

type_synonym ('c, 's) found = "('c, 's) sessions \<times> cookie list \<times> nat option res"

definition add_cookies :: "manager_config \<Rightarrow> string \<Rightarrow> nat \<Rightarrow> ('c, 's) sessions \<Rightarrow> (('c, 's) sessions \<Rightarrow> ('c, 's) sessions)
  \<Rightarrow> ('c, 's) found" where
  "add_cookies C appName a w saved =
     (let s = se_heap w ! a in
      case csrfCookies C appName s of
        Inl e \<Rightarrow> (w, [sessionCookie C appName s], Inl e)
      | Inr cs \<Rightarrow> (saved w, sessionCookie C appName s # cs, Inr (Some a)))"

definition findImpl :: "'c cache_api \<Rightarrow> 's store_api \<Rightarrow> manager_config \<Rightarrow> int \<Rightarrow> string \<Rightarrow> session_request
  \<Rightarrow> ('c, 's) sessions \<Rightarrow> ('c, 's) found" where
  "findImpl K S C now appName request w =
     (let sid = getId appName request;
          (w, pSession) = (if sid \<noteq> [] then findByIdImpl K S now sid w else (w, None))
      in case pSession of
           None \<Rightarrow> (w, [], Inr None)
         | Some a \<Rightarrow>
             if \<not> mc_verifyAddress C \<or> ws_clientAddress (se_heap w ! a) = sr_host request
             then let w = session_access S now a w;
                      s = se_heap w ! a;
                      w = w\<lparr>se_cache := ca_add K (ws_id s) a (ws_expiration s) (se_cache w)\<rparr>
                  in add_cookies C appName a w id
             else (removeImpl K S (ws_id (se_heap w ! a)) w, [], Inr None))"

text \<open>
  \<open>createImpl\<close>; the two calls of \<open>createToken\<close> are arguments of one constructor call, taken here from left to
  right.
\<close>

definition createImpl :: "'c cache_api \<Rightarrow> 's store_api \<Rightarrow> manager_config \<Rightarrow> (32 word \<Rightarrow> string \<Rightarrow> string) \<Rightarrow> int \<Rightarrow> string
  \<Rightarrow> session_request \<Rightarrow> int \<Rightarrow> nat \<Rightarrow> ('c, 's) sessions \<Rightarrow> ('c, 's) found" where
  "createImpl K S C digest now appName request expireSeconds pBundle w =
     (let (w, sid) = createToken digest request w;
          (w, csrf) = createToken digest request w;
          (w, a) = alloc_session (WebSession_new now sid csrf 1 expireSeconds (sr_host request) (se_pStore w) pBundle) w;
          s = se_heap w ! a;
          w = w\<lparr>se_cache := ca_add K (ws_id s) a (ws_expiration s) (se_cache w)\<rparr>
      in add_cookies C appName a w (\<lambda>w. case se_pStore w of
           None \<Rightarrow> w
         | Some st \<Rightarrow> w\<lparr>se_stores := (se_stores w)[st := st_saveSession S s (se_stores w ! st)]\<rparr>))"

definition manager_get :: "'c cache_api \<Rightarrow> 's store_api \<Rightarrow> manager_config \<Rightarrow> (32 word \<Rightarrow> string \<Rightarrow> string) \<Rightarrow> int \<Rightarrow> string
  \<Rightarrow> session_request \<Rightarrow> int \<Rightarrow> nat \<Rightarrow> ('c, 's) sessions \<Rightarrow> ('c, 's) found" where
  "manager_get K S C digest now appName request expireSeconds pBundle w =
     (case findImpl K S C now appName request w of
        (w, cs, Inr None) \<Rightarrow>
          (case createImpl K S C digest now appName request expireSeconds pBundle w of (w, cs', r) \<Rightarrow> (w, cs @ cs', r))
      | r \<Rightarrow> r)"

text \<open>\<open>removeForUser\<close>: the ids of the cached sessions whose user name is the string, then their removal.\<close>

definition user_sessions :: "(string \<times> nat) list \<Rightarrow> string \<Rightarrow> ('c, 's) sessions \<Rightarrow> string list" where
  "user_sessions entries username w =
     map fst (filter (\<lambda>(sid, a). smap_get (<) ''username'' (ws_attrs (se_heap w ! a)) = Some (AnyString username)) entries)"

definition removeForUser :: "'c cache_api \<Rightarrow> 's store_api \<Rightarrow> string \<Rightarrow> ('c, 's) sessions \<Rightarrow> ('c, 's) sessions" where
  "removeForUser K S username w = fold (removeImpl K S) (user_sessions (ca_entries K (se_cache w)) username w) w"

section \<open>What the cache and the store promise\<close>

text \<open>
  An entry of the cache is found under the key it was added with until it is removed or expires, which may
  be at any time after its expiration; nothing else is found. \<open>forEach\<close> visits every entry that can be found.
\<close>

definition cache_laws :: "'c cache_api \<Rightarrow> bool" where
  "cache_laws K \<longleftrightarrow>
     (\<forall>now k a e c. ca_get K now k (ca_add K k a e c) \<in> {None, Some a})
   \<and> (\<forall>now k a e c. now < e \<longrightarrow> ca_get K now k (ca_add K k a e c) = Some a)
   \<and> (\<forall>now k k' a e c. k \<noteq> k' \<longrightarrow> ca_get K now k' (ca_add K k a e c) \<in> {None, ca_get K now k' c})
   \<and> (\<forall>now k c. ca_get K now k (ca_remove K k c) = None)
   \<and> (\<forall>now k k' c. ca_get K now k' (ca_remove K k c) \<in> {None, ca_get K now k' c})
   \<and> (\<forall>now k a c. ca_get K now k c = Some a \<longrightarrow> (k, a) \<in> set (ca_entries K c))"

text \<open>
  \<open>loadSession\<close> answers with the session of the given id, and says that there is none once the session
  has been expired with a zero timeout.
\<close>

definition store_laws :: "'s store_api \<Rightarrow> bool" where
  "store_laws S \<longleftrightarrow> (\<forall>sid v st s b. st_loadSession S sid v st = (Some s, b) \<longrightarrow> ws_id s = sid)
   \<and> (\<forall>sid v st. st_loadSession S sid v (st_expireSession S sid 0 st) = (None, False))"

lemma cache_add_cases: "cache_laws K \<Longrightarrow> ca_get K now k' (ca_add K k a e c) = Some b \<Longrightarrow>
    k' = k \<and> b = a \<or> k' \<noteq> k \<and> ca_get K now k' c = Some b"
  by (cases "k' = k") (auto simp: cache_laws_def dest: spec, (metis insertE singletonD option.inject option.distinct(1))+)

lemma cache_remove_cases: "cache_laws K \<Longrightarrow> ca_get K now k' (ca_remove K k c) = Some b \<Longrightarrow>
    k' \<noteq> k \<and> ca_get K now k' c = Some b"
  unfolding cache_laws_def by (metis insertE singletonD option.distinct(1))

text \<open>The cache refers to existing sessions, under their own id.\<close>

definition sessions_ok :: "'c cache_api \<Rightarrow> ('c, 's) sessions \<Rightarrow> bool" where
  "sessions_ok K w \<longleftrightarrow> (\<forall>now k a. ca_get K now k (se_cache w) = Some a \<longrightarrow> a < length (se_heap w) \<and> ws_id (se_heap w ! a) = k)"

definition store_ok :: "('c, 's) sessions \<Rightarrow> bool" where
  "store_ok w \<longleftrightarrow> (case se_pStore w of None \<Rightarrow> True | Some st \<Rightarrow> st < length (se_stores w))"

lemma sessions_ok_heap:
  assumes "sessions_ok K w" and "se_cache w' = se_cache w" and "length (se_heap w) \<le> length (se_heap w')"
    and "\<forall>a < length (se_heap w). ws_id (se_heap w' ! a) = ws_id (se_heap w ! a)"
  shows "sessions_ok K w'"
  using assms unfolding sessions_ok_def by (metis order_less_le_trans)

lemma field_update: "f s = f (xs ! a) \<Longrightarrow> f (xs[a := s] ! b) = f (xs ! b)"
  by (cases "a < length xs"; cases "a = b") (auto simp: list_update_beyond)

lemma put_session_ok:
  "sessions_ok K w \<Longrightarrow> ws_id s = ws_id (se_heap w ! a) \<Longrightarrow> sessions_ok K (put_session a s w)"
  by (rule sessions_ok_heap) (auto simp: put_session_def field_update [where f = ws_id])

lemma stores_ok [simp]: "sessions_ok K (w\<lparr>se_stores := x\<rparr>) \<longleftrightarrow> sessions_ok K w"
  by (simp add: sessions_ok_def)

lemma updateVersion_fields [simp]:
  "ws_id (updateVersion v s) = ws_id s" "ws_clientAddress (updateVersion v s) = ws_clientAddress s"
  "ws_attrs (updateVersion v s) = ws_attrs s"
  by (simp_all add: updateVersion_def)

lemma store_change_ok:
  assumes "sessions_ok K w" and "\<And>s. ws_id (f s) = ws_id s"
  shows "sessions_ok K (store_change a f g w)"
  using put_session_ok [of K "w\<lparr>se_stores := x\<rparr>" _ a for x] put_session_ok [OF assms(1)] assms
  by (auto simp: store_change_def Let_def split: option.splits prod.splits)

lemma session_ops_ok:
  assumes "sessions_ok K w"
  shows "sessions_ok K (session_set S a key v w)" "sessions_ok K (session_erase S a key w)"
    "sessions_ok K (clearImpl S a w)" "sessions_ok K (session_onBundleStopping S b a w)"
  using assms by (simp_all add: session_set_def session_erase_def clearImpl_def session_onBundleStopping_def store_change_ok)

lemma session_access_frame:
  "se_cache (session_access S now a w) = se_cache w"
  "length (se_heap (session_access S now a w)) = length (se_heap w)"
  "ws_id (se_heap (session_access S now a w) ! b) = ws_id (se_heap w ! b)"
  "ws_clientAddress (se_heap (session_access S now a w) ! b) = ws_clientAddress (se_heap w ! b)"
  "se_pStore (session_access S now a w) = se_pStore w"
  by (simp_all add: session_access_def put_session_def accessImpl_def Let_def field_update [where f = ws_id]
      field_update [where f = ws_clientAddress] split: option.splits)

lemma session_access_ok: "sessions_ok K w \<Longrightarrow> sessions_ok K (session_access S now a w)"
  by (rule sessions_ok_heap [of K w]) (simp_all add: session_access_frame)

lemma session_clear_ok: "sessions_ok K w \<Longrightarrow> sessions_ok K (session_clear S a w)"
  by (auto simp: session_clear_def Let_def intro!: put_session_ok session_ops_ok)

lemma cache_add_ok:
  assumes "cache_laws K" and "sessions_ok K w" and "a < length (se_heap w)"
  shows "sessions_ok K (w\<lparr>se_cache := ca_add K (ws_id (se_heap w ! a)) a e (se_cache w)\<rparr>)"
  using assms(2,3) cache_add_cases [OF assms(1)] unfolding sessions_ok_def by fastforce

lemma removeImpl_frame [simp]:
  "se_cache (removeImpl K S sid w) = ca_remove K sid (se_cache w)"
  "se_heap (removeImpl K S sid w) = se_heap w" "se_pStore (removeImpl K S sid w) = se_pStore w"
  by (simp_all add: removeImpl_def Let_def split: option.splits)

lemma removeImpl_ok: "cache_laws K \<Longrightarrow> sessions_ok K w \<Longrightarrow> sessions_ok K (removeImpl K S sid w)"
  unfolding sessions_ok_def removeImpl_frame
  by (auto dest!: cache_remove_cases)

lemma alloc_session_ok:
  assumes "sessions_ok K w"
  shows "sessions_ok K (fst (alloc_session s w))"
  by (rule sessions_ok_heap [OF assms]) (auto simp: alloc_session_def nth_append)

text \<open>What the lookup by id delivers: a session with this id, and a state that differs by at most a new object.\<close>

lemma findByIdImpl_found:
  assumes "store_laws S" and "sessions_ok K w" and "findByIdImpl K S now sid w = (w', r)"
  shows "sessions_ok K w'" "se_pStore w' = se_pStore w" "se_stores w' = se_stores w" "se_cache w' = se_cache w"
    "\<And>a. r = Some a \<Longrightarrow> a < length (se_heap w') \<and> ws_id (se_heap w' ! a) = sid"
proof -
  have loaded: "w' = fst (alloc_session s w) \<and> r = Some (length (se_heap w)) \<and> ws_id s = sid"
    if "st_loadSession S sid v st = (Some s, True)" "alloc_session s w = (w', b)" "r = Some b" for v st s b
  proof -
    have "ws_id s = sid" using that(1) assms(1) unfolding store_laws_def by blast
    then show ?thesis using that(2,3) by (auto simp: alloc_session_def)
  qed
  have loaded': "\<exists>s. w' = fst (alloc_session s w) \<and> r = Some (length (se_heap w)) \<and> ws_id s = sid"
    if "st_loadSession S sid v st = (Some s, True)" "alloc_session s w = (w', b)" "r = Some b" for v st s b
    using loaded [OF that] by blast
  have cases: "w' = w \<and> (r = None \<or> r = ca_get K now sid (se_cache w))
      \<or> (\<exists>s. w' = fst (alloc_session s w) \<and> r = Some (length (se_heap w)) \<and> ws_id s = sid)"
    using assms(3) unfolding findByIdImpl_def
    by (auto simp: Let_def split: option.splits prod.splits bool.splits dest!: loaded')
  then show "sessions_ok K w'" "se_pStore w' = se_pStore w" "se_stores w' = se_stores w" "se_cache w' = se_cache w"
    using assms(2) alloc_session_ok by (auto simp: alloc_session_def)
  fix a assume "r = Some a"
  then show "a < length (se_heap w') \<and> ws_id (se_heap w' ! a) = sid"
    using cases assms(2) by (auto simp: alloc_session_def sessions_ok_def dest: sym)
qed

text \<open>The cases of \<open>findImpl\<close>: no session, the session of this client, or one of another address, which is removed.\<close>

lemma findImpl_cases:
  obtains
    (none) w1 where "findImpl K S C now appName request w = (w1, [], Inr None)"
      "getId appName request = [] \<and> w1 = w \<or> getId appName request \<noteq> [] \<and> findByIdImpl K S now (getId appName request) w = (w1, None)"
  | (own) w1 a w2 where "findByIdImpl K S now (getId appName request) w = (w1, Some a)" "getId appName request \<noteq> []"
      "\<not> mc_verifyAddress C \<or> ws_clientAddress (se_heap w1 ! a) = sr_host request"
      "w2 = session_access S now a w1"
      "findImpl K S C now appName request w = add_cookies C appName a
         (w2\<lparr>se_cache := ca_add K (ws_id (se_heap w2 ! a)) a (ws_expiration (se_heap w2 ! a)) (se_cache w2)\<rparr>) id"
  | (other) w1 a where "findByIdImpl K S now (getId appName request) w = (w1, Some a)" "getId appName request \<noteq> []"
      "mc_verifyAddress C" "ws_clientAddress (se_heap w1 ! a) \<noteq> sr_host request"
      "findImpl K S C now appName request w = (removeImpl K S (ws_id (se_heap w1 ! a)) w1, [], Inr None)"
proof (cases "getId appName request = []")
  case True
  then show thesis using none [of w] by (simp add: findImpl_def)
next
  case False
  obtain w1 r where f: "findByIdImpl K S now (getId appName request) w = (w1, r)" by fastforce
  show thesis
  proof (cases r)
    case None
    then show thesis using none [of w1] f False by (simp add: findImpl_def)
  next
    case (Some a)
    show thesis
    proof (cases "\<not> mc_verifyAddress C \<or> ws_clientAddress (se_heap w1 ! a) = sr_host request")
      case True
      then show thesis
        using own [of w1 a "session_access S now a w1"] f Some False by (simp add: findImpl_def Let_def)
    next
      case False
      then show thesis
        using other [of w1 a] f Some \<open>getId appName request \<noteq> []\<close> by (simp add: findImpl_def Let_def)
    qed
  qed
qed

lemma add_cookies_id [simp]: "fst (add_cookies C appName a w id) = w"
  by (simp add: add_cookies_def Let_def split: sum.splits)

lemma add_cookies_found:
  "add_cookies C appName a w f = (w', cs, Inr r) \<Longrightarrow> r = Some a \<and> w' = f w \<and> sessionCookie C appName (se_heap w ! a) \<in> set cs"
  by (auto simp: add_cookies_def Let_def split: sum.splits)

lemma own_session_ok:
  assumes "cache_laws K" and "store_laws S" and "sessions_ok K w"
    and "findByIdImpl K S now sid w = (w1, Some a)" and "w2 = session_access S now a w1"
  shows "sessions_ok K (w2\<lparr>se_cache := ca_add K (ws_id (se_heap w2 ! a)) a (ws_expiration (se_heap w2 ! a)) (se_cache w2)\<rparr>)"
    and "a < length (se_heap w2)" and "ws_id (se_heap w2 ! a) = sid"
    and "ws_clientAddress (se_heap w2 ! a) = ws_clientAddress (se_heap w1 ! a)"
proof -
  have found: "a < length (se_heap w1)" "ws_id (se_heap w1 ! a) = sid" "sessions_ok K w1"
    using findByIdImpl_found [OF assms(2,3,4)] by simp_all
  then show *: "a < length (se_heap w2)" and "ws_id (se_heap w2 ! a) = sid"
    and "ws_clientAddress (se_heap w2 ! a) = ws_clientAddress (se_heap w1 ! a)"
    by (simp_all add: assms(5) session_access_frame)
  show "sessions_ok K (w2\<lparr>se_cache := ca_add K (ws_id (se_heap w2 ! a)) a (ws_expiration (se_heap w2 ! a)) (se_cache w2)\<rparr>)"
    by (rule cache_add_ok [OF assms(1) _ *]) (simp add: assms(5) session_access_ok found(3))
qed

lemma findImpl_ok:
  assumes "cache_laws K" and "store_laws S" and "sessions_ok K w"
  shows "sessions_ok K (fst (findImpl K S C now appName request w))"
proof (cases rule: findImpl_cases [of K S C now appName request w])
  case (none w1)
  then show ?thesis using findByIdImpl_found(1) [OF assms(2,3)] assms(3) by auto
next
  case (own w1 a w2)
  then show ?thesis using own_session_ok(1) [OF assms own(1,4)] by simp
next
  case (other w1 a)
  then show ?thesis
    using removeImpl_ok [OF assms(1) findByIdImpl_found(1) [OF assms(2,3) other(1)]] by simp
qed

lemma findImpl_found:
  assumes "cache_laws K" and "store_laws S" and "sessions_ok K w"
    and "findImpl K S C now appName request w = (w', cs, Inr (Some a))"
  shows "getId appName request \<noteq> []" "a < length (se_heap w')" "ws_id (se_heap w' ! a) = getId appName request"
    "mc_verifyAddress C \<Longrightarrow> ws_clientAddress (se_heap w' ! a) = sr_host request"
    "sessionCookie C appName (se_heap w' ! a) \<in> set cs"
proof -
  obtain w1 w2 where own: "findByIdImpl K S now (getId appName request) w = (w1, Some a)" "getId appName request \<noteq> []"
      "\<not> mc_verifyAddress C \<or> ws_clientAddress (se_heap w1 ! a) = sr_host request"
      "w2 = session_access S now a w1" "se_heap w' = se_heap w2" "sessionCookie C appName (se_heap w2 ! a) \<in> set cs"
  proof (cases rule: findImpl_cases [of K S C now appName request w])
    case (own w1 b w2)
    have "add_cookies C appName b (w2\<lparr>se_cache := ca_add K (ws_id (se_heap w2 ! b)) b (ws_expiration (se_heap w2 ! b)) (se_cache w2)\<rparr>) id
        = (w', cs, Inr (Some a))"
      using own(5) assms(4) by simp
    from add_cookies_found [OF this] have "Some a = Some b" "w' = w2\<lparr>se_cache := ca_add K (ws_id (se_heap w2 ! b)) b (ws_expiration (se_heap w2 ! b)) (se_cache w2)\<rparr>"
      "sessionCookie C appName (se_heap w2 ! b) \<in> set cs"
      by simp_all
    then show thesis using own that by simp
  qed (use assms(4) in auto)
  note ok = own_session_ok [OF assms(1-3) own(1,4)]
  show "getId appName request \<noteq> []" by (rule own(2))
  show "a < length (se_heap w')" "ws_id (se_heap w' ! a) = getId appName request"
    using ok own(5) by simp_all
  show "ws_clientAddress (se_heap w' ! a) = sr_host request" if "mc_verifyAddress C"
    using ok(4) own(3,5) that by simp
  show "sessionCookie C appName (se_heap w' ! a) \<in> set cs" using own(5,6) by simp
qed

lemma createImpl_created:
  assumes "cache_laws K" and "sessions_ok K w"
    and "createImpl K S C digest now appName request expireSeconds b w = (w', cs, r)"
  shows "sessions_ok K w'" "r = Inr (Some (length (se_heap w)))"
    "se_heap w' = se_heap w @ [WebSession_new now (digest (se_serial w + 1) (sr_address request))
       (digest (se_serial w + 1 + 1) (sr_address request)) 1 expireSeconds (sr_host request) (se_pStore w) b]"
    "se_cache w' = ca_add K (digest (se_serial w + 1) (sr_address request)) (length (se_heap w))
       (now + expireSeconds * 1000000) (se_cache w)"
proof -
  define s where "s = WebSession_new now (digest (se_serial w + 1) (sr_address request))
       (digest (se_serial w + 1 + 1) (sr_address request)) 1 expireSeconds (sr_host request) (se_pStore w) b"
  have token: "csrfToken s = Inr (digest (se_serial w + 1 + 1) (sr_address request))"
    by (simp add: s_def WebSession_new_def accessImpl_def csrfToken_def getValue_def session_get_def any_string_def Let_def)
  have id: "ws_id s = digest (se_serial w + 1) (sr_address request)" "ws_expiration s = now + expireSeconds * 1000000"
    by (simp_all add: s_def WebSession_new_def accessImpl_def Let_def)
  define w1 where "w1 = w\<lparr>se_serial := se_serial w + 1 + 1, se_heap := se_heap w @ [s]\<rparr>"
  have alloc: "sessions_ok K w1"
    by (rule sessions_ok_heap [OF assms(2)]) (auto simp: w1_def nth_append)
  have added: "sessions_ok K (w1\<lparr>se_cache := ca_add K (ws_id s) (length (se_heap w)) (ws_expiration s) (se_cache w1)\<rparr>)"
    using cache_add_ok [OF assms(1) alloc, of "length (se_heap w)" "ws_expiration s"] by (simp add: w1_def)
  have "createImpl K S C digest now appName request expireSeconds b w =
      add_cookies C appName (length (se_heap w)) (w1\<lparr>se_cache := ca_add K (ws_id s) (length (se_heap w)) (ws_expiration s) (se_cache w1)\<rparr>)
        (\<lambda>w. case se_pStore w of None \<Rightarrow> w
          | Some st \<Rightarrow> w\<lparr>se_stores := (se_stores w)[st := st_saveSession S s (se_stores w ! st)]\<rparr>)"
    by (simp add: createImpl_def createToken_def alloc_session_def Let_def w1_def s_def add.assoc cong: option.case_cong)
  moreover obtain cs' where "csrfCookies C appName s = Inr cs'"
    by (cases "mc_csrfCookie C = []") (simp_all add: csrfCookies_def token)
  ultimately have w': "w' = (let w = w1\<lparr>se_cache := ca_add K (ws_id s) (length (se_heap w)) (ws_expiration s) (se_cache w1)\<rparr> in
      case se_pStore w of None \<Rightarrow> w
          | Some st \<Rightarrow> w\<lparr>se_stores := (se_stores w)[st := st_saveSession S s (se_stores w ! st)]\<rparr>)"
    and "r = Inr (Some (length (se_heap w)))"
    using assms(3) by (auto simp: add_cookies_def w1_def Let_def nth_append)
  then show "r = Inr (Some (length (se_heap w)))" by simp
  show "sessions_ok K w'" using added unfolding w' Let_def by (auto split: option.splits)
  show "se_heap w' = se_heap w @ [WebSession_new now (digest (se_serial w + 1) (sr_address request))
       (digest (se_serial w + 1 + 1) (sr_address request)) 1 expireSeconds (sr_host request) (se_pStore w) b]"
    unfolding w' Let_def s_def [symmetric] by (auto simp: w1_def split: option.splits)
  show "se_cache w' = ca_add K (digest (se_serial w + 1) (sr_address request)) (length (se_heap w))
       (now + expireSeconds * 1000000) (se_cache w)"
    unfolding w' Let_def id by (auto simp: w1_def split: option.splits)
qed

lemma createImpl_cookie:
  assumes "createImpl K S C digest now appName request expireSeconds b w = (w', cs, Inr (Some a))"
  shows "sessionCookie C appName (se_heap w' ! a) \<in> set cs"
  using assms by (auto simp: createImpl_def Let_def split: prod.splits option.splits dest!: add_cookies_found)

lemma removeForUser_frame:
  assumes "cache_laws K"
  shows "se_heap (fold (removeImpl K S) ids w) = se_heap w"
    and "ca_get K now k (se_cache (fold (removeImpl K S) ids w)) = Some a \<Longrightarrow> k \<notin> set ids \<and> ca_get K now k (se_cache w) = Some a"
proof (induction ids arbitrary: w)
  case Nil
  {
    case 1
    then show ?case by simp
  next
    case 2
    then show ?case by simp
  }
next
  case (Cons i ids)
  {
    case 1
    then show ?case using Cons.IH(1) by simp
  next
    case 2
    then have *: "k \<notin> set ids" "ca_get K now k (ca_remove K i (se_cache w)) = Some a"
      using Cons.IH(2) [of "removeImpl K S i w"] by simp_all
    show ?case using *(1) cache_remove_cases [OF assms *(2)] by simp
  }
qed

section \<open>The states the manager can be in\<close>

text \<open>
  Sessions used by the application, requests served by the manager in any order, sessions removed, bundles
  stopping, and the store service coming, going and changing on its own.
\<close>

inductive session_reachable :: "'c cache_api \<Rightarrow> 's store_api \<Rightarrow> manager_config \<Rightarrow> (32 word \<Rightarrow> string \<Rightarrow> string)
  \<Rightarrow> ('c, 's) sessions \<Rightarrow> bool" for K S C digest where
  init: "(\<And>now k. ca_get K now k (se_cache w) = None) \<Longrightarrow> se_heap w = [] \<Longrightarrow> session_reachable K S C digest w"
| set_attr: "session_reachable K S C digest w \<Longrightarrow> session_reachable K S C digest (session_set S a key v w)"
| erase_attr: "session_reachable K S C digest w \<Longrightarrow> session_reachable K S C digest (session_erase S a key w)"
| clear_attrs: "session_reachable K S C digest w \<Longrightarrow> session_reachable K S C digest (session_clear S a w)"
| stopping: "session_reachable K S C digest w \<Longrightarrow> session_reachable K S C digest (session_onBundleStopping S b a w)"
| found: "session_reachable K S C digest w \<Longrightarrow> session_reachable K S C digest (fst (findImpl K S C now appName request w))"
| found_by_id: "session_reachable K S C digest w \<Longrightarrow> session_reachable K S C digest (fst (findByIdImpl K S now sid w))"
| created: "session_reachable K S C digest w \<Longrightarrow>
    session_reachable K S C digest (fst (createImpl K S C digest now appName request expire b w))"
| removed: "session_reachable K S C digest w \<Longrightarrow> session_reachable K S C digest (removeImpl K S sid w)"
| removed_user: "session_reachable K S C digest w \<Longrightarrow> session_reachable K S C digest (removeForUser K S user w)"
| store: "session_reachable K S C digest w \<Longrightarrow> session_reachable K S C digest (w\<lparr>se_pStore := p, se_stores := sts\<rparr>)"

lemma reachable_sessions_ok:
  assumes "session_reachable K S C digest w" and "cache_laws K" and "store_laws S"
  shows "sessions_ok K w"
  using assms(1)
proof induction
  case (init w)
  then show ?case by (simp add: sessions_ok_def)
next
  case (created w now appName request expire b)
  obtain w' cs r where c: "createImpl K S C digest now appName request expire b w = (w', cs, r)"
    by (cases "createImpl K S C digest now appName request expire b w") auto
  then show ?case using createImpl_created(1) [OF assms(2) created.IH c] by simp
next
  case (removed_user w user)
  then show ?case
    unfolding removeForUser_def sessions_ok_def removeForUser_frame(1) [OF assms(2)]
    using removeForUser_frame(2) [OF assms(2)] by blast
next
  case (found_by_id w now sid)
  then show ?case using findByIdImpl_found(1) [OF assms(3)] by (metis prod.collapse)
next
  case (store w p sts)
  then show ?case by (simp add: sessions_ok_def)
qed (simp_all add: session_ops_ok session_clear_ok findImpl_ok removeImpl_ok assms)

section \<open>A cache and a store for the examples\<close>

definition list_cache :: "(string \<times> nat \<times> int) list cache_api" where
  "list_cache = \<lparr>ca_add = (\<lambda>k a e c. (k, a, e) # filter (\<lambda>x. fst x \<noteq> k) c),
     ca_get = (\<lambda>now k c. case List.find (\<lambda>x. fst x = k) c of Some (_, a, e) \<Rightarrow> if now < e then Some a else None | None \<Rightarrow> None),
     ca_remove = (\<lambda>k c. filter (\<lambda>x. fst x \<noteq> k) c),
     ca_entries = map (\<lambda>(k, a, e). (k, a))\<rparr>"

definition list_store :: "(string \<times> WebSession) list store_api" where
  "list_store = \<lparr>st_saveSession = (\<lambda>s st. (ws_id s, s) # filter (\<lambda>x. fst x \<noteq> ws_id s) st),
     st_loadSession = (\<lambda>sid v st. case List.find (\<lambda>x. fst x = sid) st of None \<Rightarrow> (None, False)
       | Some (_, s) \<Rightarrow> (if v < ws_version s then Some (s\<lparr>ws_id := sid\<rparr>) else None, True)),
     st_expireSession = (\<lambda>sid t st. if t = 0 then filter (\<lambda>x. fst x \<noteq> sid) st else st),
     st_saveValue = (\<lambda>sid key v st. (map (\<lambda>(k, s). (k, if k = sid
        then s\<lparr>ws_attrs := smap_put (<) key v (ws_attrs s), ws_version := ws_version s + 1\<rparr> else s)) st,
        case List.find (\<lambda>x. fst x = sid) st of Some (_, s) \<Rightarrow> ws_version s + 1 | None \<Rightarrow> 0)),
     st_removeValue = (\<lambda>sid key st. (map (\<lambda>(k, s). (k, if k = sid
        then s\<lparr>ws_attrs := smap_del (<) key (ws_attrs s), ws_version := ws_version s + 1\<rparr> else s)) st,
        case List.find (\<lambda>x. fst x = sid) st of Some (_, s) \<Rightarrow> ws_version s + 1 | None \<Rightarrow> 0)),
     st_clearValues = (\<lambda>sid st. (map (\<lambda>(k, s). (k, if k = sid
        then s\<lparr>ws_attrs := [], ws_version := ws_version s + 1\<rparr> else s)) st,
        case List.find (\<lambda>x. fst x = sid) st of Some (_, s) \<Rightarrow> ws_version s + 1 | None \<Rightarrow> 0))\<rparr>"

lemma find_filter_same: "List.find (\<lambda>x. fst x = k) (filter (\<lambda>x. fst x \<noteq> k) c) = None"
  by (induction c) auto

lemma find_filter_other: "k \<noteq> k' \<Longrightarrow> List.find (\<lambda>x. fst x = k') (filter (\<lambda>x. fst x \<noteq> k) c) = List.find (\<lambda>x. fst x = k') c"
  by (induction c) auto

lemma list_cache_simps:
  "ca_get list_cache now k (ca_add list_cache k' a e c) =
     (if k = k' then if now < e then Some a else None else ca_get list_cache now k c)"
  "ca_get list_cache now k (ca_remove list_cache k' c) = (if k = k' then None else ca_get list_cache now k c)"
  by (simp_all add: list_cache_def find_filter_same find_filter_other)

lemma list_cache_entry: "ca_get list_cache now k c = Some a \<Longrightarrow> (k, a) \<in> set (ca_entries list_cache c)"
proof (induction c)
  case Nil
  then show ?case by (simp add: list_cache_def)
next
  case (Cons x c)
  then show ?case by (cases x; cases "fst x = k") (auto simp: list_cache_def split: if_splits)
qed

lemma list_cache_laws: "cache_laws list_cache"
  unfolding cache_laws_def by (simp add: list_cache_simps list_cache_entry)

lemma list_store_laws: "store_laws list_store"
  by (auto simp: store_laws_def list_store_def find_filter_same split: option.splits)

text \<open>A manager that verifies addresses and sets a CSRF cookie, and a session it has created for one host.\<close>

definition sample_manager :: manager_config where
  "sample_manager = manager_config_new\<lparr>mc_csrfCookie := ''XSRF-TOKEN''\<rparr>"

definition sample_digest :: "32 word \<Rightarrow> string \<Rightarrow> string" where
  "sample_digest serial address = ''s'' @ decimal (unat serial) @ address"

definition sample_request :: "string \<Rightarrow> (string \<times> string) list \<Rightarrow> session_request" where
  "sample_request host cookies = \<lparr>sr_host = host, sr_address = host @ '':80'', sr_cookies = cookies\<rparr>"

definition empty_sessions :: "((string \<times> nat \<times> int) list, (string \<times> WebSession) list) sessions" where
  "empty_sessions = \<lparr>se_heap = [], se_stores = [[]], se_cache = [], se_pStore = Some 0, se_serial = 0\<rparr>"

definition sample_sessions :: "((string \<times> nat \<times> int) list, (string \<times> WebSession) list) sessions" where
  "sample_sessions = fst (createImpl list_cache list_store sample_manager sample_digest 1000 ''app''
     (sample_request ''10.0.0.1'' []) 60 1 empty_sessions)"

lemma sample_sessions_reachable:
  "session_reachable list_cache list_store sample_manager sample_digest sample_sessions"
  unfolding sample_sessions_def
  by (intro session_reachable.created session_reachable.init) (simp_all add: empty_sessions_def list_cache_def)

section \<open>Properties\<close>





text \<open>
  After \<open>removeForUser\<close> no session that the cache can still deliver belongs to the user.
\<close>

theorem removeForUser_complete:
  assumes "cache_laws K" and "ca_get K now k (se_cache (removeForUser K S username w)) = Some a"
  shows "smap_get (<) ''username'' (ws_attrs (se_heap (removeForUser K S username w) ! a)) \<noteq> Some (AnyString username)"
proof -
  let ?ids = "user_sessions (ca_entries K (se_cache w)) username w"
  have k: "k \<notin> set ?ids" "ca_get K now k (se_cache w) = Some a"
    using removeForUser_frame(2) [OF assms(1), of now k S ?ids w a] assms(2) by (simp_all add: removeForUser_def)
  then have "(k, a) \<in> set (ca_entries K (se_cache w))" using assms(1) by (simp add: cache_laws_def)
  with k(1) show ?thesis
    by (force simp: user_sessions_def removeForUser_def removeForUser_frame(1) [OF assms(1)])
qed

text \<open>
  Sessions of the user that only the store has are not among them: here the cache has dropped the session, and
  it is loaded again after \<open>removeForUser\<close>.
\<close>

definition stored_user :: "((string \<times> nat \<times> int) list, (string \<times> WebSession) list) sessions" where
  "stored_user = (session_set list_store 0 ''username'' (AnyString ''admin'') sample_sessions)\<lparr>se_cache := []\<rparr>"

lemma removeForUser_misses_store:
  "snd (findByIdImpl list_cache list_store 2000 ''s110.0.0.1:80''
     (removeForUser list_cache list_store ''admin'' stored_user)) = Some 1"
  by code_simp

text \<open>\<open>clear\<close> keeps the CSRF token in the object, and loses it in the store.\<close>

lemma clear_loses_stored_token:
  "session_has (se_heap (session_clear list_store 0 sample_sessions) ! 0) CSRF_TOKEN"
  "map (\<lambda>(k, s). ws_attrs s) (se_stores (session_clear list_store 0 sample_sessions) ! 0) = [[]]"
  by code_simp+

text \<open>The path a session cookie is limited to never comes from the configured default.\<close>

lemma default_path_unused: "cookiePath C appName = cookiePath (C\<lparr>mc_defaultPath := p\<rparr>) appName"
proof -
  have "from_char CHR ''/'' appName \<noteq> []" if "CHR ''/'' \<in> set appName"
    using that by (auto simp: from_char_def dropWhile_eq_Nil_conv)
  then show ?thesis by (auto simp: cookiePath_def)
qed

end
