(* ===== verification/Web_Dispatcher.thy ===== *)
theory Web_Dispatcher
  imports Web_Resources Web_Session
begin

text \<open>
  The handling of a request by \<open>WebServerDispatcher\<close> (\<open>platform/OSP/Web\<close>): authorization by HTTP basic
  authentication, bearer token or session, cross-origin requests, static resources, error responses, and
  \<open>handleRequest\<close> that puts them together. The request and the response of Poco::Net are records of what the code reads and
  writes; services, handlers, regular expressions, URIs, dates and base-64 credentials are parameters in the record
  \<open>web_env\<close>. Left out are the logger, the metrics and the body of the topology page, which is read from the
  operating system.
\<close>

section \<open>Requests and responses\<close>

type_synonym headers = "(string \<times> string) list"

text \<open>A \<open>NameValueCollection\<close>: names are compared without case; \<open>set\<close> changes the first entry of the name, \<open>erase\<close> removes all.\<close>

definition same_name :: "string \<Rightarrow> string \<Rightarrow> bool" where
  "same_name a b \<longleftrightarrow> map tolower a = map tolower b"

definition header :: "headers \<Rightarrow> string \<Rightarrow> string option" where
  "header h n = map_option snd (List.find (\<lambda>(k, v). same_name k n) h)"

definition header_or :: "headers \<Rightarrow> string \<Rightarrow> string \<Rightarrow> string" where
  "header_or h n d = (case header h n of Some v \<Rightarrow> v | None \<Rightarrow> d)"

definition erase_header :: "string \<Rightarrow> headers \<Rightarrow> headers" where
  "erase_header n h = filter (\<lambda>(k, v). \<not> same_name k n) h"

fun set_header :: "string \<Rightarrow> string \<Rightarrow> headers \<Rightarrow> headers" where
  "set_header n v [] = [(n, v)]"
| "set_header n v ((k, x) # h) = (if same_name k n then (k, v) # h else (k, x) # set_header n v h)"

record request =
  rq_method :: string
  rq_uri :: string
  rq_headers :: headers
  rq_credentials :: "(string \<times> string) option"
  rq_session :: session_request

record response =
  rs_status :: nat
  rs_headers :: headers
  rs_cookies :: "cookie list"
  rs_body :: string
  rs_sent :: bool

definition set_response :: "string \<Rightarrow> string \<Rightarrow> response \<Rightarrow> response" where
  "set_response n v rs = rs\<lparr>rs_headers := set_header n v (rs_headers rs)\<rparr>"

record auth_service =
  au_authenticate :: "string \<Rightarrow> string \<Rightarrow> bool"
  au_authorize :: "string \<Rightarrow> string \<Rightarrow> bool"
  au_userExists :: "string \<Rightarrow> bool"

text \<open>
  What a request may find outside: the services by name (\<open>we_sessionManager\<close> says whether one is registered), the regular
  expressions, the parser of URIs, base-64 credentials, the request handlers (a factory may throw, or create no handler), the
  bundles' names, files and resources, and the texts of Poco.
\<close>

record 'p web_env =
  we_authService :: "string \<Rightarrow> auth_service option"
  we_tokenValidator :: "string \<Rightarrow> (string \<Rightarrow> string option) option"
  we_sessionManager :: bool
  we_paths :: "'p path_api"
  we_match :: "string \<Rightarrow> string \<Rightarrow> bool"
  we_uri :: "string \<Rightarrow> (string \<times> (string \<times> string) list) res"
  we_basic :: "string \<Rightarrow> string \<times> string"
  we_create :: "nat \<Rightarrow> request \<Rightarrow> bool res"
  we_handle :: "nat \<Rightarrow> request \<Rightarrow> response \<Rightarrow> response \<times> unit res"
  we_symbolicName :: "nat \<Rightarrow> string"
  we_content :: "string \<Rightarrow> string \<Rightarrow> string option"
  we_resourcePaths :: resource_paths
  we_mediaTypes :: MediaTypeMapper
  we_lastModified :: "nat \<Rightarrow> int res"
  we_parseDate :: "string \<Rightarrow> int res"
  we_formatDate :: "int \<Rightarrow> string"
  we_gzip :: "string \<Rightarrow> string"
  we_hasToken :: "headers \<Rightarrow> string \<Rightarrow> string \<Rightarrow> bool"
  we_filter :: "nat \<Rightarrow> request \<Rightarrow> response \<Rightarrow> string \<Rightarrow> string \<Rightarrow> response \<times> unit res"
  we_reason :: "nat \<Rightarrow> string"
  we_messages :: "string \<Rightarrow> string"
  we_softwareVersion :: string
  we_serverAddress :: string
  we_uuid :: string
  we_parseInt :: "string \<Rightarrow> int option"
  we_pid :: string
  we_logFile :: "string \<Rightarrow> string list"
  we_topology :: string

record web_config =
  wc_authServiceName :: string
  wc_tokenValidatorName :: string
  wc_corsEnabled :: bool
  wc_corsAllowedOrigin :: string
  wc_rootRedirect :: string
  wc_compressResponses :: bool
  wc_cacheResources :: bool
  wc_addAuthHeader :: bool
  wc_addSignature :: bool
  wc_authMethods :: int
  wc_compressedMediaTypes :: "string set"
  wc_customResponseHeaders :: headers
  wc_sessions :: manager_config

text \<open>The state: the table of paths, the services found so far, the filters by media type, the resource cache and the sessions.\<close>

record ('c, 's) web =
  wb_table :: path_table
  wb_authService :: "auth_service option"
  wb_tokenValidator :: "(string \<Rightarrow> string option) option"
  wb_sessionManager :: bool
  wb_filters :: "(string \<times> nat) list"
  wb_cache :: "(string \<times> string) list"
  wb_sessions :: "('c, 's) sessions"

section \<open>The services\<close>

definition authService :: "'p web_env \<Rightarrow> web_config \<Rightarrow> ('c, 's) web \<Rightarrow> ('c, 's) web \<times> auth_service option" where
  "authService E G w =
     (let found = (if wb_authService w = None \<and> wc_authServiceName G \<noteq> [] then we_authService E (wc_authServiceName G)
                   else wb_authService w)
      in (w\<lparr>wb_authService := found\<rparr>, found))"

definition tokenValidator :: "'p web_env \<Rightarrow> web_config \<Rightarrow> ('c, 's) web \<Rightarrow> ('c, 's) web \<times> (string \<Rightarrow> string option) option" where
  "tokenValidator E G w =
     (let found = (if wb_tokenValidator w = None \<and> wc_tokenValidatorName G \<noteq> [] then we_tokenValidator E (wc_tokenValidatorName G)
                   else wb_tokenValidator w)
      in (w\<lparr>wb_tokenValidator := found\<rparr>, found))"

text \<open>The session manager, once found, is kept even when its service is gone.\<close>

definition sessionManager :: "'p web_env \<Rightarrow> ('c, 's) web \<Rightarrow> ('c, 's) web \<times> bool" where
  "sessionManager E w =
     (let found = (we_sessionManager E \<or> wb_sessionManager w) in (w\<lparr>wb_sessionManager := found\<rparr>, found))"

section \<open>Authorization\<close>

definition AUTH_BASIC :: int where "AUTH_BASIC = 1"
definition AUTH_SESSION :: int where "AUTH_SESSION = 2"
definition AUTH_BEARER :: int where "AUTH_BEARER = 4"
definition AUTH_ALL :: int where "AUTH_ALL = 7"

definition method_enabled :: "int \<Rightarrow> int \<Rightarrow> bool" where
  "method_enabled authMethods flag \<longleftrightarrow> and authMethods flag \<noteq> 0"

definition X_OSP_AUTHORIZED_USER :: string where "X_OSP_AUTHORIZED_USER = ''X-OSP-Authorized-User''"

definition permitted :: "auth_service \<Rightarrow> string \<Rightarrow> string \<Rightarrow> bool" where
  "permitted au permission username \<longleftrightarrow> permission = ''*'' \<or> permission = ''**'' \<or> au_authorize au username permission"

definition authorizeBasic :: "'p web_env \<Rightarrow> web_config \<Rightarrow> string \<Rightarrow> VirtualPath \<Rightarrow> string \<Rightarrow> ('c, 's) web
  \<Rightarrow> ('c, 's) web \<times> string \<times> bool" where
  "authorizeBasic E G creds vPath username w =
     (case authService E G w of
        (w, None) \<Rightarrow> (w, username, False)
      | (w, Some au) \<Rightarrow>
          (let (user, password) = we_basic E creds in
           (w, user, au_authenticate au user password \<and> permitted au (sec_permission (vp_security vPath)) user)))"

definition authorizeBearer :: "'p web_env \<Rightarrow> web_config \<Rightarrow> string \<Rightarrow> VirtualPath \<Rightarrow> string \<Rightarrow> ('c, 's) web
  \<Rightarrow> ('c, 's) web \<times> string \<times> bool" where
  "authorizeBearer E G token vPath username w =
     (let (w, pAuthService) = authService E G w; (w, pTokenValidator) = tokenValidator E G w in
      case (pAuthService, pTokenValidator) of
        (Some au, Some validate) \<Rightarrow>
          (case validate token of
             Some user \<Rightarrow> (w, user, au_userExists au user \<and> permitted au (sec_permission (vp_security vPath)) user)
           | None \<Rightarrow> (w, username, False))
      | _ \<Rightarrow> (w, username, False))"

text \<open>
  \<open>authorizeSession\<close>; the manager may add cookies to the response. The authentication service is used without a
  test for null, which \<open>Poco::AutoPtr\<close> answers with an exception.
\<close>

definition session_user :: "'p web_env \<Rightarrow> web_config \<Rightarrow> request \<Rightarrow> VirtualPath \<Rightarrow> WebSession \<Rightarrow> string \<Rightarrow> ('c, 's) web
  \<Rightarrow> ('c, 's) web \<times> bool res" where
  "session_user E G rq vPath s user w =
     (let sec = vp_security vPath in
      case authService E G w of
        (w, None) \<Rightarrow> (w, Inl NullPointerException)
      | (w, Some au) \<Rightarrow>
          (w, if au_userExists au user \<and> permitted au (sec_permission sec) user
              then if sec_csrfProtection sec \<and> sec_csrfTokenHeader sec \<noteq> []
                   then rbind (csrfToken s) (\<lambda>token. Inr (header_or (rq_headers rq) (sec_csrfTokenHeader sec) [] = token))
                   else Inr True
              else Inr False))"

definition authorizeSession :: "'p web_env \<Rightarrow> 'c cache_api \<Rightarrow> 's store_api \<Rightarrow> web_config \<Rightarrow> int \<Rightarrow> request \<Rightarrow> VirtualPath
  \<Rightarrow> string \<Rightarrow> response \<Rightarrow> ('c, 's) web \<Rightarrow> ('c, 's) web \<times> response \<times> string \<times> bool res" where
  "authorizeSession E K S G now rq vPath username rs w =
     (let optional = (sec_permission (vp_security vPath) = ''**'') in
      case sessionManager E w of
        (w, False) \<Rightarrow> (w, rs, username, Inr optional)
      | (w, True) \<Rightarrow>
          (case findImpl K S (wc_sessions G) now (sec_session (vp_security vPath)) (rq_session rq) (wb_sessions w) of
             (ses, cs, r) \<Rightarrow>
               (let w = w\<lparr>wb_sessions := ses\<rparr>; rs = rs\<lparr>rs_cookies := rs_cookies rs @ cs\<rparr> in
                case r of
                  Inl e \<Rightarrow> (w, rs, username, Inl e)
                | Inr None \<Rightarrow> (w, rs, username, Inr optional)
                | Inr (Some a) \<Rightarrow>
                    (case getValue_or (se_heap ses ! a) ''username'' [] of
                       Inl e \<Rightarrow> (w, rs, username, Inl e)
                     | Inr user \<Rightarrow>
                         if user \<noteq> []
                         then (case session_user E G rq vPath (se_heap ses ! a) user w of (w, b) \<Rightarrow> (w, rs, user, b))
                         else (w, rs, user, Inr optional)))))"

text \<open>\<open>authorize\<close>: the choice of the method, and the header that tells handlers the authorized user.\<close>

definition authorize_by :: "'p web_env \<Rightarrow> 'c cache_api \<Rightarrow> 's store_api \<Rightarrow> web_config \<Rightarrow> int \<Rightarrow> request \<Rightarrow> VirtualPath
  \<Rightarrow> response \<Rightarrow> ('c, 's) web \<Rightarrow> ('c, 's) web \<times> response \<times> string \<times> bool res" where
  "authorize_by E K S G now rq vPath rs w =
     (let sec = vp_security vPath;
          authMethods = (if sec_authMethods sec = 0 then wc_authMethods G else sec_authMethods sec)
      in case rq_credentials rq of
           Some (scheme, authInfo) \<Rightarrow>
             if scheme = ''Basic'' \<and> method_enabled authMethods AUTH_BASIC
             then (case authorizeBasic E G authInfo vPath [] w of (w, u, b) \<Rightarrow> (w, rs, u, Inr b))
             else if scheme = ''Bearer'' \<and> method_enabled authMethods AUTH_BEARER
             then (case authorizeBearer E G authInfo vPath [] w of (w, u, b) \<Rightarrow> (w, rs, u, Inr b))
             else (w, rs, [], Inr False)
         | None \<Rightarrow>
             if sec_session sec \<noteq> [] \<and> method_enabled authMethods AUTH_SESSION
             then authorizeSession E K S G now rq vPath [] rs w
             else (w, rs, [], Inr (sec_permission sec = ''**'')))"

definition authorize :: "'p web_env \<Rightarrow> 'c cache_api \<Rightarrow> 's store_api \<Rightarrow> web_config \<Rightarrow> int \<Rightarrow> request \<Rightarrow> VirtualPath
  \<Rightarrow> response \<Rightarrow> ('c, 's) web \<Rightarrow> ('c, 's) web \<times> request \<times> response \<times> string \<times> bool res" where
  "authorize E K S G now rq vPath rs w =
     (if sec_permission (vp_security vPath) = [] then (w, rq, rs, [], Inr True)
      else case authorize_by E K S G now rq vPath rs w of
             (w, rs, username, Inl e) \<Rightarrow> (w, rq, rs, username, Inl e)
           | (w, rs, username, Inr authorized) \<Rightarrow>
               (w, rq\<lparr>rq_headers := (if authorized \<and> wc_addAuthHeader G \<and> username \<noteq> []
                       then set_header X_OSP_AUTHORIZED_USER username (rq_headers rq)
                       else erase_header X_OSP_AUTHORIZED_USER (rq_headers rq))\<rparr>, rs, username, Inr authorized))"

text \<open>\<open>parseAuthMethods\<close>, on the tokens of the list.\<close>

fun parseAuthMethods :: "string list \<Rightarrow> int \<Rightarrow> int res" where
  "parseAuthMethods [] result = Inr result"
| "parseAuthMethods (t # ts) result =
     (if t = ''basic'' then parseAuthMethods ts (or result AUTH_BASIC)
      else if t = ''session'' then parseAuthMethods ts (or result AUTH_SESSION)
      else if t = ''bearer'' then parseAuthMethods ts (or result AUTH_BEARER)
      else Inl (InvalidArgument (poco_message ''authentication method'' t)))"

section \<open>Cross-origin requests\<close>

definition enableCORS :: "web_config \<Rightarrow> request \<Rightarrow> VirtualPath \<Rightarrow> response \<Rightarrow> response \<times> bool" where
  "enableCORS G rq vPath rs =
     (let cors = vp_cors vPath;
          origin = header_or (rq_headers rq) ''Origin'' [];
          allowOrigin = (if cors_allowOrigin cors = [] then wc_corsAllowedOrigin G else cors_allowOrigin cors);
          credentials = (\<lambda>rs. if cors_allowCredentials cors
             then set_response ''Access-Control-Allow-Credentials'' ''true'' rs else rs)
      in if allowOrigin = [] \<or> allowOrigin = ''**''
         then (credentials (set_response ''Access-Control-Allow-Origin'' origin rs), True)
         else if allowOrigin = ''*'' \<or> allowOrigin = origin
         then (credentials (set_response ''Access-Control-Allow-Origin'' allowOrigin rs), True)
         else (rs, False))"

fun cat_methods :: "string list \<Rightarrow> string" where
  "cat_methods [] = []"
| "cat_methods [m] = m"
| "cat_methods (m # ms) = m @ '', '' @ cat_methods ms"

definition send_empty :: "response \<Rightarrow> response" where
  "send_empty rs = (set_response ''Content-Length'' ''0'' rs)\<lparr>rs_sent := True\<rparr>"

definition handleCORS :: "web_config \<Rightarrow> request \<Rightarrow> VirtualPath \<Rightarrow> response \<Rightarrow> response \<times> bool" where
  "handleCORS G rq vPath rs =
     (if wc_corsEnabled G \<and> cors_enable (vp_cors vPath) \<and> header (rq_headers rq) ''Origin'' \<noteq> None
      then if rq_method rq = ''OPTIONS''
           then (let (rs, ok) = enableCORS G rq vPath rs;
                     methods = (if cors_allowMethods (vp_cors vPath) = []
                       then if vp_methods vPath = [] then ''*'' else cat_methods (vp_methods vPath)
                       else cors_allowMethods (vp_cors vPath));
                     rs = (if ok then set_response ''Access-Control-Allow-Methods'' methods rs else rs);
                     rs = (if ok \<and> cors_allowHeaders (vp_cors vPath) \<noteq> []
                       then set_response ''Access-Control-Allow-Headers'' (cors_allowHeaders (vp_cors vPath)) rs else rs)
                 in (send_empty rs, False))
           else (let (rs, ok) = enableCORS G rq vPath rs in
                 if \<not> ok then (send_empty (rs\<lparr>rs_status := 405\<rparr>), False) else (rs, True))
      else (rs, True))"

section \<open>Error responses\<close>

definition has_substring :: "string \<Rightarrow> string \<Rightarrow> bool" where
  "has_substring sub s = list_ex (\<lambda>i. take (length sub) (drop i s) = sub) [0..<Suc (length s)]"

definition quote :: "string \<Rightarrow> string" where
  "quote s = CHR 0x22 # s @ [CHR 0x22]"

definition error_response :: "nat \<Rightarrow> string \<Rightarrow> string \<Rightarrow> response \<Rightarrow> response" where
  "error_response status contentType body rs =
     rs\<lparr>rs_status := status,
        rs_headers := erase_header ''Content-Encoding'' (erase_header ''Transfer-Encoding''
          (set_header ''Content-Type'' contentType (rs_headers rs))),
        rs_body := body, rs_sent := True\<rparr>"

definition sendHTMLResponse :: "'p web_env \<Rightarrow> web_config \<Rightarrow> nat \<Rightarrow> string \<Rightarrow> response \<Rightarrow> response" where
  "sendHTMLResponse E G status message =
     (let title = decimal status @ '' - '' @ we_reason E status;
          cls = '' class='' @ quote ''osp-web-error'' @ ''>''
      in error_response status ''text/html''
        (''<!DOCTYPE html>'' @ [newline] @ ''<html><head><title>'' @ title @ ''</title></head><body><header'' @ cls @ ''<h1>''
         @ title @ ''</h1></header><section'' @ cls @ ''<p>'' @ htmlize message @ ''</p></section><hr>''
         @ (if wc_addSignature G then ''<footer'' @ cls @ ''<address>'' @ htmlize (we_softwareVersion E) @ '' at ''
              @ we_serverAddress E @ ''</address></footer>'' else [])
         @ ''</body></html>''))"

definition sendJSONResponse :: "'p web_env \<Rightarrow> nat \<Rightarrow> string \<Rightarrow> response \<Rightarrow> response" where
  "sendJSONResponse E status message =
     error_response status ''application/json''
       (''{ '' @ quote ''error'' @ '': '' @ quote (we_reason E status) @ '', '' @ quote ''detail'' @ '': ''
        @ quote (jsonize message) @ '', '' @ quote ''code'' @ '': '' @ decimal status @ '' }'')"

definition sendResponse :: "'p web_env \<Rightarrow> web_config \<Rightarrow> request \<Rightarrow> nat \<Rightarrow> string \<Rightarrow> ResponseFormat \<Rightarrow> response \<Rightarrow> response" where
  "sendResponse E G rq status message fmt rs =
     (if \<not> rs_sent rs
      then if has_substring ''application/json'' (header_or (rq_headers rq) ''Accept'' []) \<or> fmt = RESPONSE_FORMAT_JSON
           then sendJSONResponse E status message rs
           else sendHTMLResponse E G status message rs
      else rs)"

definition sendFound :: "'p web_env \<Rightarrow> web_config \<Rightarrow> request \<Rightarrow> string \<Rightarrow> response \<Rightarrow> response" where
  "sendFound E G rq path rs =
     sendResponse E G rq 302 (formatMessage (we_messages E) ''redirect'' path []) RESPONSE_FORMAT_HTML (set_response ''Location'' path rs)"

definition sendNotFound :: "'p web_env \<Rightarrow> web_config \<Rightarrow> request \<Rightarrow> string \<Rightarrow> ResponseFormat \<Rightarrow> response \<Rightarrow> response" where
  "sendNotFound E G rq path = sendResponse E G rq 404 (formatMessage (we_messages E) ''notfound'' path [])"

definition sendNotAuthorized :: "'p web_env \<Rightarrow> web_config \<Rightarrow> request \<Rightarrow> string \<Rightarrow> ResponseFormat \<Rightarrow> response \<Rightarrow> response" where
  "sendNotAuthorized E G rq path = sendResponse E G rq 401 (formatMessage (we_messages E) ''notauth'' path [])"

definition sendForbidden :: "'p web_env \<Rightarrow> web_config \<Rightarrow> request \<Rightarrow> string \<Rightarrow> response \<Rightarrow> response" where
  "sendForbidden E G rq path = sendResponse E G rq 403 (formatMessage (we_messages E) ''forbidden'' path []) RESPONSE_FORMAT_HTML"

definition sendMethodNotAllowed :: "'p web_env \<Rightarrow> web_config \<Rightarrow> request \<Rightarrow> ResponseFormat \<Rightarrow> response \<Rightarrow> response" where
  "sendMethodNotAllowed E G rq = sendResponse E G rq 405 (formatMessage (we_messages E) ''method'' (rq_method rq) (rq_uri rq))"

section \<open>Static resources\<close>

text \<open>
  An exchange: the state of the server, the request, which authorization may change, the response, the name of the
  user, and what has been served and logged.
\<close>

datatype web_event = EvHandler VirtualPath request | EvResource VirtualPath string | EvBuiltin string | EvAccessLog string nat

record ('c, 's) exchange =
  ex_web :: "('c, 's) web"
  ex_request :: request
  ex_response :: response
  ex_username :: string
  ex_events :: "web_event list"

definition respond :: "(response \<Rightarrow> response) \<Rightarrow> ('c, 's) exchange \<Rightarrow> ('c, 's) exchange" where
  "respond f x = x\<lparr>ex_response := f (ex_response x)\<rparr>"

definition addFilter :: "string \<Rightarrow> nat \<Rightarrow> ('c, 's) web \<Rightarrow> ('c, 's) web \<times> unit res" where
  "addFilter mediaType pFactory w =
     (case smap_get (<) mediaType (wb_filters w) of
        None \<Rightarrow> (w\<lparr>wb_filters := smap_put (<) mediaType pFactory (wb_filters w)\<rparr>, Inr ())
      | Some _ \<Rightarrow> (w, Inl (ExistsException (poco_message ''WebFilter'' mediaType))))"

definition removeFilter :: "string \<Rightarrow> ('c, 's) web \<Rightarrow> ('c, 's) web" where
  "removeFilter mediaType w = w\<lparr>wb_filters := smap_del (<) mediaType (wb_filters w)\<rparr>"

text \<open>The part of \<open>sendResource\<close> for a resource without a filter that is read by GET or HEAD.\<close>

definition send_content :: "'p web_env \<Rightarrow> web_config \<Rightarrow> request \<Rightarrow> nat \<Rightarrow> string \<Rightarrow> string \<Rightarrow> response \<Rightarrow> response \<times> unit res" where
  "send_content E G rq pBundle mediaType content rs =
     (case we_lastModified E pBundle of
        Inl e \<Rightarrow> (rs, Inl e)
      | Inr lastModified \<Rightarrow>
          let rs = set_response ''Last-Modified'' (we_formatDate E lastModified) rs;
              modifiedSince = (case header (rq_headers rq) ''If-Modified-Since'' of None \<Rightarrow> Inr None
                 | Some d \<Rightarrow> rbind (we_parseDate E d) (\<lambda>t. Inr (Some t)))
          in case modifiedSince of
               Inl e \<Rightarrow> (rs, Inl e)
             | Inr since \<Rightarrow>
                 if (case since of None \<Rightarrow> False | Some t \<Rightarrow> lastModified \<le> t)
                 then (send_empty (rs\<lparr>rs_status := 304\<rparr>), Inr ())
                 else let gzip = (wc_compressResponses G \<and> we_hasToken E (rq_headers rq) ''Accept-Encoding'' ''gzip''
                            \<and> compressible (wc_compressedMediaTypes G) mediaType);
                          rs = set_response ''Transfer-Encoding'' ''chunked'' rs;
                          rs = (if gzip then set_response ''Content-Encoding'' ''gzip'' rs else rs)
                      in (rs\<lparr>rs_sent := True,
                            rs_body := (if rq_method rq = ''GET'' then if gzip then we_gzip E content else content else [])\<rparr>, Inr ()))"

definition sendResource :: "'p web_env \<Rightarrow> web_config \<Rightarrow> VirtualPath \<Rightarrow> string \<Rightarrow> ('c, 's) exchange
  \<Rightarrow> ('c, 's) exchange \<times> unit res" where
  "sendResource E G vPath path x =
     (let vpath = vp_path vPath;
          index = (if vp_indexPage vPath = [] then ''index.html'' else vp_indexPage vPath);
          pBundle = vp_pOwnerBundle vPath;
          rq = ex_request x;
          (cache, found) = findResource (wc_cacheResources G) (we_resourcePaths E) (we_mediaTypes E) (we_content E)
             (we_symbolicName E pBundle) (vp_resource vPath) (drop (length vpath) path) index (vp_cache vPath) (wb_cache (ex_web x));
          x = x\<lparr>ex_web := (ex_web x)\<lparr>wb_cache := cache\<rparr>\<rparr>
      in case found of
           Some (content, mediaType, resolvedPath) \<Rightarrow>
             let x = (respond (set_response ''Content-Type'' mediaType) x)\<lparr>ex_events := ex_events x @ [EvResource vPath resolvedPath]\<rparr>
             in (case smap_get (<) mediaType (wb_filters (ex_web x)) of
                   Some f \<Rightarrow> (case we_filter E f rq (set_response ''Transfer-Encoding'' ''chunked'' (ex_response x)) resolvedPath content of
                       (rs, r) \<Rightarrow> (x\<lparr>ex_response := rs\<rparr>, r))
                 | None \<Rightarrow>
                     if rq_method rq = ''GET'' \<or> rq_method rq = ''HEAD''
                     then (case send_content E G rq pBundle mediaType content (ex_response x) of (rs, r) \<Rightarrow> (x\<lparr>ex_response := rs\<rparr>, r))
                     else (respond (sendMethodNotAllowed E G rq RESPONSE_FORMAT_HTML) x, Inr ()))
         | None \<Rightarrow>
             if length path = length vpath then (respond (sendForbidden E G rq path) x, Inr ())
             else (respond (sendNotFound E G rq path RESPONSE_FORMAT_HTML) x, Inr ()))"

section \<open>Handling a request\<close>

text \<open>The exceptions the \<open>catch\<close> clauses name; those of the standard library pass through.\<close>

definition poco_exception :: "exc \<Rightarrow> bool" where
  "poco_exception e = (case e of OutOfRange _ \<Rightarrow> False | LengthError _ \<Rightarrow> False | LogicError _ \<Rightarrow> False | RuntimeError _ \<Rightarrow> False
     | AssertionViolation \<Rightarrow> True | SignedOverflow \<Rightarrow> False | _ \<Rightarrow> True)"

text \<open>A mapped and authorized request that a factory serves.\<close>

definition call_handler :: "'p web_env \<Rightarrow> web_config \<Rightarrow> VirtualPath \<Rightarrow> nat \<Rightarrow> string \<Rightarrow> ('c, 's) exchange
  \<Rightarrow> ('c, 's) exchange \<times> unit res" where
  "call_handler E G vPath pFactory path x =
     (let rq = ex_request x in
      if method_allowed vPath (rq_method rq)
      then case we_create E pFactory rq of
             Inl e \<Rightarrow> (x, Inl e)
           | Inr False \<Rightarrow> (respond (sendNotFound E G rq path (vp_responseFormat vPath)) x, Inr ())
           | Inr True \<Rightarrow>
               (case we_handle E pFactory rq (ex_response x) of
                  (rs, r) \<Rightarrow> (x\<lparr>ex_response := rs, ex_events := ex_events x @ [EvHandler vPath rq]\<rparr>,
                     case r of Inr _ \<Rightarrow> Inr () | Inl e \<Rightarrow> Inl (if poco_exception e then OtherException ''UnhandledException'' else e)))
      else (respond (sendMethodNotAllowed E G rq (vp_responseFormat vPath)) x, Inr ()))"

definition serve_authorized :: "'p web_env \<Rightarrow> web_config \<Rightarrow> VirtualPath \<Rightarrow> string \<Rightarrow> ('c, 's) exchange
  \<Rightarrow> ('c, 's) exchange \<times> unit res" where
  "serve_authorized E G vPath path x =
     (case vp_pFactory vPath of
        Some f \<Rightarrow> call_handler E G vPath f path x
      | None \<Rightarrow> if length (vp_path vPath) \<le> length path then sendResource E G vPath path x
                else (respond (sendFound E G (ex_request x) (vp_path vPath)) x, Inr ()))"

text \<open>\<open>requireAuthentication\<close> and the 401 response.\<close>

definition refuse :: "'p web_env \<Rightarrow> web_config \<Rightarrow> VirtualPath \<Rightarrow> ('c, 's) exchange \<Rightarrow> ('c, 's) exchange" where
  "refuse E G vPath x =
     (let sec = vp_security vPath;
          realm = (if sec_realm sec = [] then vp_path vPath else sec_realm sec);
          x = (if sec_session sec = [] then respond (\<lambda>rs. (set_response ''WWW-Authenticate'' (''Basic realm='' @ quote realm) rs)\<lparr>rs_status := 401\<rparr>) x
               else x)
      in respond (sendNotAuthorized E G (ex_request x) (vp_path vPath) (vp_responseFormat vPath)) x)"

definition serve_path :: "'p web_env \<Rightarrow> 'c cache_api \<Rightarrow> 's store_api \<Rightarrow> web_config \<Rightarrow> int \<Rightarrow> bool \<Rightarrow> string \<Rightarrow> ('c, 's) exchange
  \<Rightarrow> ('c, 's) exchange \<times> unit res" where
  "serve_path E K S G now secure path x =
     (case mapPath (we_match E) (we_paths E) (wb_table (ex_web x)) path (rq_method (ex_request x)) of
        Inl e \<Rightarrow> (x, Inl e)
      | Inr vPath \<Rightarrow>
          if sec_secure (vp_security vPath) \<and> \<not> secure
          then (respond (sendResponse E G (ex_request x) 403 (formatMessage (we_messages E) ''secure'' (vp_path vPath) [])
                  (vp_responseFormat vPath)) x, Inr ())
          else case handleCORS G (ex_request x) vPath (ex_response x) of
                 (rs, False) \<Rightarrow> (x\<lparr>ex_response := rs\<rparr>, Inr ())
               | (rs, True) \<Rightarrow>
                   (case authorize E K S G now (ex_request x) vPath rs (ex_web x) of
                      (w, rq, rs, username, r) \<Rightarrow>
                        let x = x\<lparr>ex_web := w, ex_request := rq, ex_response := rs, ex_username := username\<rparr> in
                        case r of
                          Inl e \<Rightarrow> (x, Inl e)
                        | Inr True \<Rightarrow> serve_authorized E G vPath path x
                        | Inr False \<Rightarrow> (refuse E G vPath x, Inr ())))"

definition send_json :: "string \<Rightarrow> response \<Rightarrow> response" where
  "send_json body rs = (set_response ''Content-Length'' (decimal (length body)) (set_response ''Content-Type'' ''application/json'' rs))
     \<lparr>rs_status := 200, rs_body := body, rs_sent := True\<rparr>"

text \<open>The body of the \<open>try\<close> block; the second component says whether the function returns from inside it.\<close>

definition handle_try :: "'p web_env \<Rightarrow> 'c cache_api \<Rightarrow> 's store_api \<Rightarrow> web_config \<Rightarrow> int \<Rightarrow> bool \<Rightarrow> ('c, 's) exchange
  \<Rightarrow> ('c, 's) exchange \<times> bool \<times> unit res" where
  "handle_try E K S G now secure x =
     (let x = respond (\<lambda>rs. rs\<lparr>rs_headers := rs_headers rs @ wc_customResponseHeaders G\<rparr>) x in
      case we_uri E (rq_uri (ex_request x)) of
        Inl e \<Rightarrow> (x, False, Inl e)
      | Inr (path, params) \<Rightarrow>
          if path = ''/api/v1/process-logs'' \<and> rq_method (ex_request x) = ''GET''
          then ((respond (send_json (process_logs (we_parseInt E) (we_pid E) (we_logFile E) params)) x)
                  \<lparr>ex_events := ex_events x @ [EvBuiltin path]\<rparr>, True, Inr ())
          else if path = ''/api/v1/topology'' \<and> rq_method (ex_request x) = ''GET''
          then ((respond (send_json (we_topology E)) x)\<lparr>ex_events := ex_events x @ [EvBuiltin path]\<rparr>, True, Inr ())
          else case cleanPath (we_paths E) path of
                 (_, Inl e) \<Rightarrow> (x, False, Inl e)
               | (_, Inr False) \<Rightarrow>
                   (respond (sendResponse E G (ex_request x) 400 (formatMessage (we_messages E) ''invalid'' [] []) RESPONSE_FORMAT_HTML) x, False, Inr ())
               | (path, Inr True) \<Rightarrow> (case serve_path E K S G now secure path x of (x, r) \<Rightarrow> (x, False, r)))"

definition handle_exception :: "'p web_env \<Rightarrow> web_config \<Rightarrow> exc \<Rightarrow> ('c, 's) exchange \<Rightarrow> ('c, 's) exchange" where
  "handle_exception E G e x =
     (case e of
        NotFoundException _ \<Rightarrow>
          (case we_uri E (rq_uri (ex_request x)) of
             Inl _ \<Rightarrow> x
           | Inr (path, _) \<Rightarrow>
               if path = ''/'' \<and> wc_rootRedirect G \<noteq> [] then respond (sendFound E G (ex_request x) (wc_rootRedirect G)) x
               else respond (sendNotFound E G (ex_request x) (rq_uri (ex_request x)) RESPONSE_FORMAT_HTML) x)
      | _ \<Rightarrow> respond (sendResponse E G (ex_request x) 500 (formatMessage (we_messages E) ''internal'' (we_uuid E) []) RESPONSE_FORMAT_HTML) x)"

definition handleRequest :: "'p web_env \<Rightarrow> 'c cache_api \<Rightarrow> 's store_api \<Rightarrow> web_config \<Rightarrow> int \<Rightarrow> bool \<Rightarrow> request \<Rightarrow> response
  \<Rightarrow> ('c, 's) web \<Rightarrow> ('c, 's) exchange \<times> unit res" where
  "handleRequest E K S G now secure rq rs w =
     (case handle_try E K S G now secure \<lparr>ex_web = w, ex_request = rq, ex_response = rs, ex_username = [], ex_events = []\<rparr> of
        (x, True, r) \<Rightarrow> (x, r)
      | (x, False, Inl e) \<Rightarrow>
          if poco_exception e
          then (let x = handle_exception E G e x in
                (x\<lparr>ex_events := ex_events x @ [EvAccessLog (ex_username x) (rs_status (ex_response x))]\<rparr>, Inr ()))
          else (x, Inl e)
      | (x, False, Inr _) \<Rightarrow> (x\<lparr>ex_events := ex_events x @ [EvAccessLog (ex_username x) (rs_status (ex_response x))]\<rparr>, Inr ()))"

text \<open>The bundle-stopping event.\<close>

definition web_onBundleStopping :: "'p web_env \<Rightarrow> nat \<Rightarrow> ('c, 's) web \<Rightarrow> ('c, 's) web" where
  "web_onBundleStopping E pBundle w =
     w\<lparr>wb_table := removeBundle pBundle (wb_table w),
       wb_cache := uncacheBundleResources (we_symbolicName E pBundle) (wb_cache w)\<rparr>"

end
