(* ===== verification/Web_Access.thy ===== *)
theory Web_Access
  imports Web_Dispatcher
begin

text \<open>
  What the web server guarantees about access: a specification of when a request may use a virtual path, the
  proof that \<open>handleRequest\<close> serves a handler or a resource only then, the user name handlers see, that every request is
  answered, and what is left of a bundle that stops.
\<close>

section \<open>When a request may use a path\<close>

definition enabled_methods :: "web_config \<Rightarrow> VirtualPath \<Rightarrow> int" where
  "enabled_methods G v = (if sec_authMethods (vp_security v) = 0 then wc_authMethods G else sec_authMethods (vp_security v))"

text \<open>The user a valid password names.\<close>

definition basic_user :: "'p web_env \<Rightarrow> web_config \<Rightarrow> request \<Rightarrow> VirtualPath \<Rightarrow> ('c, 's) web \<Rightarrow> string \<Rightarrow> bool" where
  "basic_user E G rq v w user \<longleftrightarrow> (\<exists>creds password au.
     rq_credentials rq = Some (''Basic'', creds) \<and> method_enabled (enabled_methods G v) AUTH_BASIC
     \<and> snd (authService E G w) = Some au \<and> we_basic E creds = (user, password)
     \<and> au_authenticate au user password \<and> permitted au (sec_permission (vp_security v)) user)"

text \<open>The existing user a valid bearer token names.\<close>

definition bearer_user :: "'p web_env \<Rightarrow> web_config \<Rightarrow> request \<Rightarrow> VirtualPath \<Rightarrow> ('c, 's) web \<Rightarrow> string \<Rightarrow> bool" where
  "bearer_user E G rq v w user \<longleftrightarrow> (\<exists>token au validate.
     rq_credentials rq = Some (''Bearer'', token) \<and> method_enabled (enabled_methods G v) AUTH_BEARER
     \<and> snd (authService E G w) = Some au \<and> snd (tokenValidator E G w) = Some validate \<and> validate token = Some user
     \<and> au_userExists au user \<and> permitted au (sec_permission (vp_security v)) user)"

text \<open>The existing user of the session of the request, with the CSRF token where it is asked for.\<close>

definition session_of :: "'c cache_api \<Rightarrow> 's store_api \<Rightarrow> web_config \<Rightarrow> int \<Rightarrow> request \<Rightarrow> VirtualPath \<Rightarrow> ('c, 's) web
  \<Rightarrow> WebSession option" where
  "session_of K S G now rq v w =
     (case findImpl K S (wc_sessions G) now (sec_session (vp_security v)) (rq_session rq) (wb_sessions w) of
        (ses, cs, Inr (Some a)) \<Rightarrow> Some (se_heap ses ! a) | _ \<Rightarrow> None)"

definition session_granted :: "'p web_env \<Rightarrow> 'c cache_api \<Rightarrow> 's store_api \<Rightarrow> web_config \<Rightarrow> int \<Rightarrow> request \<Rightarrow> VirtualPath
  \<Rightarrow> ('c, 's) web \<Rightarrow> string \<Rightarrow> bool" where
  "session_granted E K S G now rq v w user \<longleftrightarrow> (\<exists>s au.
     rq_credentials rq = None \<and> sec_session (vp_security v) \<noteq> [] \<and> method_enabled (enabled_methods G v) AUTH_SESSION
     \<and> session_of K S G now rq v w = Some s \<and> getValue_or s ''username'' [] = Inr user \<and> user \<noteq> []
     \<and> snd (authService E G w) = Some au \<and> au_userExists au user \<and> permitted au (sec_permission (vp_security v)) user
     \<and> (sec_csrfProtection (vp_security v) \<and> sec_csrfTokenHeader (vp_security v) \<noteq> [] \<longrightarrow>
          csrfToken s = Inr (header_or (rq_headers rq) (sec_csrfTokenHeader (vp_security v)) [])))"

definition granted :: "'p web_env \<Rightarrow> 'c cache_api \<Rightarrow> 's store_api \<Rightarrow> web_config \<Rightarrow> int \<Rightarrow> request \<Rightarrow> VirtualPath
  \<Rightarrow> ('c, 's) web \<Rightarrow> string \<Rightarrow> bool" where
  "granted E K S G now rq v w user \<longleftrightarrow>
     sec_permission (vp_security v) = [] \<and> user = []
     \<or> sec_permission (vp_security v) = ''**'' \<and> rq_credentials rq = None \<and> user = []
     \<or> basic_user E G rq v w user \<or> bearer_user E G rq v w user \<or> session_granted E K S G now rq v w user"

section \<open>Authorization is sound\<close>

lemma authService_fields [simp]:
  "wb_sessions (fst (authService E G w)) = wb_sessions w" "wb_table (fst (authService E G w)) = wb_table w"
  "wb_tokenValidator (fst (authService E G w)) = wb_tokenValidator w"
  by (simp_all add: authService_def Let_def)

lemma tokenValidator_auth: "snd (tokenValidator E G (fst (authService E G w))) = snd (tokenValidator E G w)"
  by (simp add: tokenValidator_def authService_def Let_def)

lemma authorizeBasic_sound:
  assumes "authorizeBasic E G creds v u w = (w', user, True)" and "rq_credentials rq = Some (''Basic'', creds)"
    and "method_enabled (enabled_methods G v) AUTH_BASIC"
  shows "basic_user E G rq v w user"
  using assms unfolding authorizeBasic_def basic_user_def
  by (auto simp: Let_def split: prod.splits option.splits)

lemma authorizeBearer_sound:
  assumes "authorizeBearer E G token v u w = (w', user, True)" and "rq_credentials rq = Some (''Bearer'', token)"
    and "method_enabled (enabled_methods G v) AUTH_BEARER"
  shows "bearer_user E G rq v w user"
proof -
  obtain au validate where "snd (authService E G w) = Some au" "snd (tokenValidator E G (fst (authService E G w))) = Some validate"
    "validate token = Some user" "au_userExists au user" "permitted au (sec_permission (vp_security v)) user"
    using assms(1) unfolding authorizeBearer_def
    by (auto simp: Let_def split: prod.splits option.splits)
  then show ?thesis unfolding bearer_user_def tokenValidator_auth using assms(2,3) by blast
qed

lemma session_user_sound:
  assumes "session_user E G rq v s user w = (w', Inr True)"
  shows "\<exists>au. snd (authService E G w) = Some au \<and> au_userExists au user \<and> permitted au (sec_permission (vp_security v)) user
    \<and> (sec_csrfProtection (vp_security v) \<and> sec_csrfTokenHeader (vp_security v) \<noteq> [] \<longrightarrow>
         csrfToken s = Inr (header_or (rq_headers rq) (sec_csrfTokenHeader (vp_security v)) []))"
  using assms unfolding session_user_def
  by (auto simp: Let_def rbind_eq_Inr split: prod.splits option.splits if_splits)

lemma sessionManager_fields:
  assumes "sessionManager E w = (w', b)"
  shows "wb_sessions w' = wb_sessions w" "wb_authService w' = wb_authService w"
  using assms by (auto simp: sessionManager_def Let_def)

lemma authorizeSession_sound:
  assumes "authorizeSession E K S G now rq v [] rs w = (w', rs', user, Inr True)" and "rq_credentials rq = None"
    and "sec_session (vp_security v) \<noteq> []" and "method_enabled (enabled_methods G v) AUTH_SESSION"
  shows "sec_permission (vp_security v) = ''**'' \<and> user = [] \<or> session_granted E K S G now rq v w user"
proof -
  obtain w1 b where m: "sessionManager E w = (w1, b)" by fastforce
  obtain ses cs r where f: "findImpl K S (wc_sessions G) now (sec_session (vp_security v)) (rq_session rq) (wb_sessions w1) = (ses, cs, r)"
    by (cases "findImpl K S (wc_sessions G) now (sec_session (vp_security v)) (rq_session rq) (wb_sessions w1)") auto
  show ?thesis
  proof (cases "b \<and> (\<exists>a. r = Inr (Some a))")
    case False
    then show ?thesis using assms(1) m f unfolding authorizeSession_def
      by (cases b; cases r) (auto simp: Let_def split: option.splits)
  next
    case True
    then obtain a where b: "b" and r: "r = Inr (Some a)" by blast
    let ?s = "se_heap ses ! a"
    have s: "session_of K S G now rq v w = Some ?s"
      using f r sessionManager_fields(1) [OF m] by (simp add: session_of_def)
    obtain u where u: "getValue_or ?s ''username'' [] = Inr u"
      using assms(1) m f b r by (cases "getValue_or ?s ''username'' []") (auto simp: authorizeSession_def Let_def)
    show ?thesis
    proof (cases "u = []")
      case True
      then show ?thesis using assms(1) m f b r u by (auto simp: authorizeSession_def Let_def)
    next
      case False
      obtain w2 where su: "session_user E G rq v ?s u (w1\<lparr>wb_sessions := ses\<rparr>) = (w2, Inr True)" and user: "user = u"
        using assms(1) m f b r u False by (auto simp: authorizeSession_def Let_def split: prod.splits)
      have "snd (authService E G (w1\<lparr>wb_sessions := ses\<rparr>)) = snd (authService E G w)"
        using sessionManager_fields(2) [OF m] by (simp add: authService_def Let_def)
      then have "session_granted E K S G now rq v w user"
        using session_user_sound [OF su] s u False user assms(2-4) unfolding session_granted_def by metis
      then show ?thesis ..
    qed
  qed
qed

lemma authorize_by_sound:
  assumes "authorize_by E K S G now rq v rs w = (w', rs', user, Inr True)" and "sec_permission (vp_security v) \<noteq> []"
  shows "granted E K S G now rq v w user"
proof (cases "rq_credentials rq")
  case None
  show ?thesis
  proof (cases "sec_session (vp_security v) \<noteq> [] \<and> method_enabled (enabled_methods G v) AUTH_SESSION")
    case True
    then have "authorizeSession E K S G now rq v [] rs w = (w', rs', user, Inr True)"
      using assms(1) None by (simp add: authorize_by_def enabled_methods_def Let_def)
    then show ?thesis using authorizeSession_sound None True unfolding granted_def by blast
  next
    case False
    then show ?thesis using assms(1) None by (auto simp: authorize_by_def enabled_methods_def granted_def Let_def)
  qed
next
  case (Some c)
  then obtain scheme info where c: "rq_credentials rq = Some (scheme, info)" by (cases c) auto
  consider (basic) "scheme = ''Basic''" "method_enabled (enabled_methods G v) AUTH_BASIC"
    "authorizeBasic E G info v [] w = (w', user, True)"
    | (bearer) "scheme = ''Bearer''" "method_enabled (enabled_methods G v) AUTH_BEARER"
    "authorizeBearer E G info v [] w = (w', user, True)"
    using assms(1) c by (auto simp: authorize_by_def enabled_methods_def Let_def split: if_splits prod.splits)
  then show ?thesis
    using authorizeBasic_sound [of E G info v "[]" w w' user rq] authorizeBearer_sound [of E G info v "[]" w w' user rq] c
    by cases (simp_all add: granted_def)
qed

text \<open>The header that tells handlers who the user is.\<close>

lemma header_set: "header (set_header n v h) n = Some v"
  by (induction n v h rule: set_header.induct) (auto simp: header_def same_name_def)

lemma header_erase: "header (erase_header n h) n = None"
  by (induction h) (auto simp: header_def erase_header_def)

lemma authorize_sound:
  assumes "authorize E K S G now rq v rs w = (w', rq', rs', user, Inr True)"
  shows "granted E K S G now rq v w user"
    and "sec_permission (vp_security v) \<noteq> [] \<Longrightarrow> header (rq_headers rq') X_OSP_AUTHORIZED_USER =
      (if wc_addAuthHeader G \<and> user \<noteq> [] then Some user else None)"
proof -
  show "granted E K S G now rq v w user"
  proof (cases "sec_permission (vp_security v) = []")
    case True
    then show ?thesis using assms by (auto simp: authorize_def granted_def)
  next
    case False
    then obtain w1 rs1 where "authorize_by E K S G now rq v rs w = (w1, rs1, user, Inr True)"
      using assms by (auto simp: authorize_def split: prod.splits sum.splits)
    then show ?thesis using authorize_by_sound False by blast
  qed
  show "header (rq_headers rq') X_OSP_AUTHORIZED_USER = (if wc_addAuthHeader G \<and> user \<noteq> [] then Some user else None)"
    if "sec_permission (vp_security v) \<noteq> []"
    using assms that by (auto simp: authorize_def header_set header_erase split: prod.splits sum.splits)
qed

text \<open>
  On a path without a permission the header is not touched: a client can name any user.
\<close>

lemma unprotected_user_header:
  assumes "sec_permission (vp_security v) = []"
  shows "authorize E K S G now rq v rs w = (w, rq, rs, [], Inr True)"
  using assms by (simp add: authorize_def)

section \<open>What a request is served\<close>

definition serves :: "VirtualPath \<Rightarrow> web_event \<Rightarrow> bool" where
  "serves v e = (case e of EvHandler v' _ \<Rightarrow> v' = v | EvResource v' _ \<Rightarrow> v' = v | _ \<Rightarrow> False)"

definition is_served :: "web_event \<Rightarrow> bool" where
  "is_served e = (case e of EvHandler _ _ \<Rightarrow> True | EvResource _ _ \<Rightarrow> True | _ \<Rightarrow> False)"

lemma respond_fields [simp]:
  "ex_events (respond f x) = ex_events x" "ex_request (respond f x) = ex_request x" "ex_web (respond f x) = ex_web x"
  "ex_username (respond f x) = ex_username x" "ex_response (respond f x) = f (ex_response x)"
  by (simp_all add: respond_def)

lemma call_handler_events:
  "call_handler E G v fct path x = (x', r) \<Longrightarrow> e \<in> set (ex_events x') \<Longrightarrow> e \<in> set (ex_events x) \<or> e = EvHandler v (ex_request x)"
  by (auto simp: call_handler_def Let_def split: if_splits sum.splits bool.splits prod.splits)

lemma sendResource_events:
  assumes "sendResource E G v path x = (x', r)" and "e \<in> set (ex_events x')"
  shows "e \<in> set (ex_events x) \<or> (\<exists>p. e = EvResource v p)"
  using assms unfolding sendResource_def
  by (auto simp: Let_def split: prod.splits option.splits if_splits)

lemma serve_authorized_events:
  assumes "serve_authorized E G v path x = (x', r)" and "e \<in> set (ex_events x')" and "e \<notin> set (ex_events x)"
  shows "serves v e" and "e = EvHandler u rq \<Longrightarrow> rq = ex_request x"
  using assms call_handler_events [of E G v _ path x x' r e] sendResource_events [of E G v path x x' r e]
  by (auto simp: serve_authorized_def serves_def split: option.splits if_splits)

lemma refuse_events [simp]: "ex_events (refuse E G v x) = ex_events x"
  by (simp add: refuse_def Let_def)

lemma serve_path_events:
  assumes "serve_path E K S G now secure path x = (x', r)" and "e \<in> set (ex_events x')" and "e \<notin> set (ex_events x)"
  obtains v rs w' rq' rs' user where
    "mapPath (we_match E) (we_paths E) (wb_table (ex_web x)) path (rq_method (ex_request x)) = Inr v" "serves v e"
    "sec_secure (vp_security v) \<longrightarrow> secure"
    "authorize E K S G now (ex_request x) v rs (ex_web x) = (w', rq', rs', user, Inr True)"
    "\<forall>u rq. e = EvHandler u rq \<longrightarrow> rq = rq'"
proof (cases "mapPath (we_match E) (we_paths E) (wb_table (ex_web x)) path (rq_method (ex_request x))")
  case (Inl err)
  then show ?thesis using assms by (simp add: serve_path_def)
next
  case (Inr v)
  have secure: "secure" if "sec_secure (vp_security v)"
    using assms Inr that by (auto simp: serve_path_def split: if_splits)
  obtain rs b where cors: "handleCORS G (ex_request x) v (ex_response x) = (rs, b)" by fastforce
  obtain w' rq' rs' user a where auth: "authorize E K S G now (ex_request x) v rs (ex_web x) = (w', rq', rs', user, a)"
    by (cases "authorize E K S G now (ex_request x) v rs (ex_web x)") auto
  let ?x = "x\<lparr>ex_web := w', ex_request := rq', ex_response := rs', ex_username := user\<rparr>"
  have "b" "a = Inr True" and run: "serve_authorized E G v path ?x = (x', r)"
    using assms Inr secure cors auth by (auto simp: serve_path_def Let_def split: if_splits bool.splits sum.splits)
  have e: "e \<notin> set (ex_events ?x)" using assms(3) by simp
  show ?thesis
  proof (rule that [OF Inr serve_authorized_events(1) [OF run assms(2) e]])
    show "sec_secure (vp_security v) \<longrightarrow> secure" using secure by blast
    show "authorize E K S G now (ex_request x) v rs (ex_web x) = (w', rq', rs', user, Inr True)"
      using auth \<open>a = Inr True\<close> by simp
    show "\<forall>u rq. e = EvHandler u rq \<longrightarrow> rq = rq'"
      using serve_authorized_events(2) [OF run assms(2) e] by simp
  qed
qed

lemma handle_exception_events [simp]: "ex_events (handle_exception E G e x) = ex_events x"
  by (simp add: handle_exception_def split: exc.splits sum.splits prod.splits)

lemma handleRequest_events:
  assumes "handleRequest E K S G now secure rq rs w = (x, r)" and "e \<in> set (ex_events x)" and "is_served e"
  obtains path0 params path x0 x1 r1 where "we_uri E (rq_uri rq) = Inr (path0, params)"
    "cleanPath (we_paths E) path0 = (path, Inr True)" "serve_path E K S G now secure path x0 = (x1, r1)"
    "e \<in> set (ex_events x1)" "ex_events x0 = []" "ex_request x0 = rq" "ex_web x0 = w"
proof -
  let ?x = "\<lparr>ex_web = w, ex_request = rq, ex_response = rs, ex_username = [], ex_events = []\<rparr>"
  define x0 where "x0 = respond (\<lambda>rs. rs\<lparr>rs_headers := rs_headers rs @ wc_customResponseHeaders G\<rparr>) ?x"
  have x0: "ex_events x0 = []" "ex_request x0 = rq" "ex_web x0 = w" by (simp_all add: x0_def)
  obtain xt b rt where t: "handle_try E K S G now secure ?x = (xt, b, rt)"
    by (cases "handle_try E K S G now secure ?x") auto
  have e: "e \<in> set (ex_events xt)"
    using assms t by (cases b; cases rt) (auto simp: handleRequest_def Let_def is_served_def split: if_splits)
  obtain path0 params where uri: "we_uri E (rq_uri rq) = Inr (path0, params)"
    using t e x0 by (cases "we_uri E (rq_uri rq)") (auto simp: handle_try_def Let_def x0_def [symmetric])
  have nb: "\<not> (path0 = ''/api/v1/process-logs'' \<and> rq_method rq = ''GET'')" "\<not> (path0 = ''/api/v1/topology'' \<and> rq_method rq = ''GET'')"
    using t e uri assms(3) x0 by (auto simp: handle_try_def Let_def is_served_def)
  have tried: "handle_try E K S G now secure ?x = (case cleanPath (we_paths E) path0 of
                 (_, Inl e) \<Rightarrow> (x0, False, Inl e)
               | (_, Inr False) \<Rightarrow>
                   (respond (sendResponse E G rq 400 (formatMessage (we_messages E) ''invalid'' [] []) RESPONSE_FORMAT_HTML) x0, False, Inr ())
               | (path, Inr True) \<Rightarrow> (case serve_path E K S G now secure path x0 of (x, r) \<Rightarrow> (x, False, r)))"
    using nb uri x0 by (auto simp: handle_try_def Let_def x0_def [symmetric])
  obtain path c where clean: "cleanPath (we_paths E) path0 = (path, c)" by fastforce
  have c: "c = Inr True"
    using t e x0 unfolding tried clean by (cases c) (auto split: bool.splits)
  obtain x1 r1 where s: "serve_path E K S G now secure path x0 = (x1, r1)" by fastforce
  have "e \<in> set (ex_events x1)" using t e unfolding tried clean c prod.case sum.case bool.case s by auto
  then show thesis using that [OF uri] clean c s x0 by blast
qed

section \<open>Every request is answered\<close>

text \<open>
  What is expected of the parts outside: a handler or filter that returns has sent the response, and a
  malformed URI is a syntax error.
\<close>

definition answering :: "'p web_env \<Rightarrow> bool" where
  "answering E \<longleftrightarrow> (\<forall>f rq rs rs'. we_handle E f rq rs = (rs', Inr ()) \<longrightarrow> rs_sent rs')
     \<and> (\<forall>f rq rs p c rs'. we_filter E f rq rs p c = (rs', Inr ()) \<longrightarrow> rs_sent rs')
     \<and> (\<forall>s e. we_uri E s = Inl e \<longrightarrow> (\<exists>msg. e = SyntaxException msg))"

lemma sendResponse_sent [simp]: "rs_sent (sendResponse E G rq status message fmt rs)"
  by (simp add: sendResponse_def sendJSONResponse_def sendHTMLResponse_def error_response_def Let_def)

lemma send_all_sent [simp]:
  "rs_sent (sendFound E G rq path rs)" "rs_sent (sendNotFound E G rq path fmt rs)"
  "rs_sent (sendNotAuthorized E G rq path fmt rs)" "rs_sent (sendForbidden E G rq path rs)"
  "rs_sent (sendMethodNotAllowed E G rq fmt rs)" "rs_sent (send_empty rs)" "rs_sent (send_json body rs)"
  by (simp_all add: sendFound_def sendNotFound_def sendNotAuthorized_def sendForbidden_def sendMethodNotAllowed_def
      send_empty_def send_json_def)

lemma handleCORS_sent: "handleCORS G rq v rs = (rs', False) \<Longrightarrow> rs_sent rs'"
  by (auto simp: handleCORS_def Let_def split: if_splits prod.splits)

lemma refuse_sent [simp]: "rs_sent (ex_response (refuse E G v x))"
  by (simp add: refuse_def Let_def)

lemma call_handler_sent:
  assumes "answering E" and "call_handler E G v f path x = (x', Inr ())"
  shows "rs_sent (ex_response x')"
  using assms unfolding call_handler_def answering_def
  by (auto simp: Let_def split: if_splits sum.splits bool.splits prod.splits)

lemma send_content_sent: "send_content E G rq b t c rs = (rs', Inr ()) \<Longrightarrow> rs_sent rs'"
  by (auto simp: send_content_def Let_def split: sum.splits if_splits)

lemma sendResource_sent:
  assumes "answering E" and "sendResource E G v path x = (x', Inr ())"
  shows "rs_sent (ex_response x')"
  using assms unfolding sendResource_def answering_def
  by (auto simp: Let_def split: prod.splits option.splits if_splits dest: send_content_sent)

lemma serve_authorized_sent:
  "answering E \<Longrightarrow> serve_authorized E G v path x = (x', Inr ()) \<Longrightarrow> rs_sent (ex_response x')"
  by (auto simp: serve_authorized_def split: option.splits if_splits dest: call_handler_sent sendResource_sent)

lemma serve_path_sent:
  assumes "answering E" and "serve_path E K S G now secure path x = (x', Inr ())"
  shows "rs_sent (ex_response x')"
  using assms unfolding serve_path_def
  by (auto simp: Let_def split: sum.splits if_splits prod.splits bool.splits dest: handleCORS_sent serve_authorized_sent)

lemma authorize_uri: "authorize E K S G now rq v rs w = (w', rq', rs', user, r) \<Longrightarrow> rq_uri rq' = rq_uri rq"
  by (auto simp: authorize_def split: if_splits prod.splits sum.splits)

lemma sendResource_request: "sendResource E G v path x = (x', r) \<Longrightarrow> ex_request x' = ex_request x"
  by (auto simp: sendResource_def Let_def split: prod.splits option.splits if_splits)

lemma call_handler_request: "call_handler E G v f path x = (x', r) \<Longrightarrow> ex_request x' = ex_request x"
  by (auto simp: call_handler_def Let_def split: if_splits sum.splits bool.splits prod.splits)

lemma serve_authorized_request: "serve_authorized E G v path x = (x', r) \<Longrightarrow> ex_request x' = ex_request x"
  by (auto simp: serve_authorized_def split: option.splits if_splits dest: sendResource_request call_handler_request)

lemma refuse_request [simp]: "ex_request (refuse E G v x) = ex_request x"
  by (simp add: refuse_def Let_def)

lemma serve_path_uri:
  assumes "serve_path E K S G now secure path x = (x', r)"
  shows "rq_uri (ex_request x') = rq_uri (ex_request x)"
  using assms unfolding serve_path_def
  by (auto simp: Let_def split: sum.splits if_splits prod.splits bool.splits dest!: authorize_uri serve_authorized_request)

lemma handle_exception_sent:
  assumes "\<And>msg err. e = NotFoundException msg \<Longrightarrow> we_uri E (rq_uri (ex_request x)) \<noteq> Inl err"
  shows "rs_sent (ex_response (handle_exception E G e x))"
  using assms by (auto simp: handle_exception_def split: exc.splits sum.splits prod.splits)

lemma handle_try_answers:
  assumes "answering E" and "handle_try E K S G now secure x = (x', b, r)"
  shows "r = Inr () \<Longrightarrow> rs_sent (ex_response x')"
    and "r = Inl e \<Longrightarrow> rs_sent (ex_response (handle_exception E G e x'))"
    and "r = Inl e \<Longrightarrow> \<not> b"
proof -
  define x0 where "x0 = respond (\<lambda>rs. rs\<lparr>rs_headers := rs_headers rs @ wc_customResponseHeaders G\<rparr>) x"
  have uri: "rq_uri (ex_request x') = rq_uri (ex_request x)"
    using assms(2) unfolding handle_try_def
    by (auto simp: Let_def split: sum.splits prod.splits if_splits bool.splits dest!: serve_path_uri)
  show "r = Inr () \<Longrightarrow> rs_sent (ex_response x')"
    using assms unfolding handle_try_def
    by (auto simp: Let_def split: sum.splits prod.splits if_splits bool.splits dest: serve_path_sent)
  show "r = Inl e \<Longrightarrow> \<not> b"
    using assms(2) unfolding handle_try_def
    by (auto simp: Let_def split: sum.splits prod.splits if_splits bool.splits)
  show "rs_sent (ex_response (handle_exception E G e x'))" if "r = Inl e"
  proof (cases "we_uri E (rq_uri (ex_request x))")
    case (Inl err)
    then have "e = err" using assms(2) that by (auto simp: handle_try_def Let_def)
    then have "\<exists>msg. e = SyntaxException msg" using assms(1) Inl by (auto simp: answering_def)
    then show ?thesis by (auto simp: handle_exception_def)
  next
    case (Inr p)
    then show ?thesis using handle_exception_sent [of e E x'] uri by simp
  qed
qed

section \<open>A server for the examples\<close>

definition sample_auth :: auth_service where
  "sample_auth = \<lparr>au_authenticate = (\<lambda>u p. u = ''joe'' \<and> p = ''secret''), au_authorize = (\<lambda>u p. u = ''joe'' \<and> p = ''admin''),
     au_userExists = (\<lambda>u. u = ''joe'')\<rparr>"

definition sample_env :: "string list web_env" where
  "sample_env = \<lparr>we_authService = (\<lambda>_. Some sample_auth), we_tokenValidator = (\<lambda>_. None), we_sessionManager = True,
     we_paths = plain_paths, we_match = (\<lambda>_ _. False), we_uri = (\<lambda>s. Inr (s, [])), we_basic = (\<lambda>_. (''joe'', ''secret'')),
     we_create = (\<lambda>_ _. Inr True), we_handle = (\<lambda>_ _ rs. (rs\<lparr>rs_sent := True\<rparr>, Inr ())), we_symbolicName = (\<lambda>_. ''com.app''),
     we_content = (\<lambda>_ _. None), we_resourcePaths = \<lparr>rp_append = (\<lambda>b r i. b @ r), rp_extension = id\<rparr>,
     we_mediaTypes = \<lparr>mm_map = [], mm_default = ''text/plain''\<rparr>, we_lastModified = (\<lambda>_. Inr 0), we_parseDate = (\<lambda>_. Inr 0),
     we_formatDate = (\<lambda>_. []), we_gzip = id, we_hasToken = (\<lambda>_ _ _. False),
     we_filter = (\<lambda>_ _ rs _ _. (rs\<lparr>rs_sent := True\<rparr>, Inr ())), we_reason = (\<lambda>_. []), we_messages = (\<lambda>_. []),
     we_softwareVersion = [], we_serverAddress = [], we_uuid = [], we_parseInt = (\<lambda>_. None), we_pid = [], we_logFile = (\<lambda>_. []),
     we_topology = []\<rparr>"

definition sample_config :: web_config where
  "sample_config = \<lparr>wc_authServiceName = ''auth'', wc_tokenValidatorName = [], wc_corsEnabled = True, wc_corsAllowedOrigin = [],
     wc_rootRedirect = [], wc_compressResponses = False, wc_cacheResources = False, wc_addAuthHeader = True, wc_addSignature = False,
     wc_authMethods = AUTH_ALL, wc_compressedMediaTypes = {}, wc_customResponseHeaders = [], wc_sessions = sample_manager\<rparr>"

definition admin_path :: VirtualPath where
  "admin_path = (VirtualPath_default 1)\<lparr>vp_path := ''/admin/'', vp_pFactory := Some 0,
     vp_security := PathSecurity_default\<lparr>sec_permission := ''admin'', sec_secure := True\<rparr>\<rparr>"

definition sample_web :: "((string \<times> nat \<times> int) list, (string \<times> WebSession) list) web" where
  "sample_web = \<lparr>wb_table = \<lparr>pt_pathMap = [(''/admin/'', admin_path)], pt_patternVec = []\<rparr>, wb_authService = None,
     wb_tokenValidator = None, wb_sessionManager = False, wb_filters = [], wb_cache = [], wb_sessions = empty_sessions\<rparr>"

definition admin_request :: request where
  "admin_request = \<lparr>rq_method = ''GET'', rq_uri = ''/admin/users'', rq_headers = [(''x-osp-authorized-user'', ''root'')],
     rq_credentials = Some (''Basic'', ''am9lOnNlY3JldA==''), rq_session = sample_request ''10.0.0.1'' []\<rparr>"

definition empty_response :: response where
  "empty_response = \<lparr>rs_status = 200, rs_headers = [], rs_cookies = [], rs_body = [], rs_sent = False\<rparr>"

lemma sample_answering: "answering sample_env"
  by (auto simp: answering_def sample_env_def)

lemma sample_exchange:
  "ex_events (fst (handleRequest sample_env list_cache list_store sample_config 1000 True admin_request empty_response sample_web)) =
     [EvHandler admin_path (admin_request\<lparr>rq_headers := [(''x-osp-authorized-user'', ''joe'')]\<rparr>), EvAccessLog ''joe'' 200]"
  by code_simp

lemma find_pattern_in: "find_pattern re path meth found vs = Some v \<Longrightarrow> found = Some v \<or> v \<in> set vs"
proof (induction vs arbitrary: found)
  case Nil
  then show ?case by simp
next
  case (Cons u vs)
  let ?found = "if re (case vp_pPattern u of None \<Rightarrow> [] | Some r \<Rightarrow> r) path
    then if found = None \<or> method_allowed u meth then Some u else found else found"
  have "?found = Some v \<or> v \<in> set vs" by (rule Cons.IH) (use Cons.prems in simp)
  moreover have "?found = Some u \<or> ?found = found" by (simp split: if_splits)
  ultimately show ?case by auto
qed

lemma entry_in: "smap_get (<) (k :: string) m = Some v \<Longrightarrow> v \<in> snd ` set m"
  using string_order.get_in_map [of k m v] by force

lemma find_parent_in: "find_parent m parent found ds = Some v \<Longrightarrow> found = Some v \<or> v \<in> snd ` set m"
proof (induction ds arbitrary: parent found)
  case Nil
  then show ?case by simp
next
  case (Cons d ds)
  let ?p = "parent @ d @ ''/''"
  let ?found = "case smap_get (<) ?p m of Some v \<Rightarrow> if vp_pPattern v = None then Some v else found | None \<Rightarrow> found"
  have "find_parent m ?p ?found ds = Some v" using Cons.prems by (simp add: Let_def)
  from Cons.IH [OF this] have "?found = Some v \<or> v \<in> snd ` set m" .
  then show ?case using entry_in [of ?p m] by (cases "smap_get (<) ?p m") (auto split: if_splits)
qed

lemma mapPath_in:
  assumes "mapPath re A t path meth = Inr v"
  shows "v \<in> set (pt_patternVec t) \<union> snd ` set (pt_pathMap t)"
proof (cases "find_pattern re path meth None (pt_patternVec t)")
  case None
  obtain n p where run: "(case find_parent (pt_pathMap t) ''/'' (smap_get (<) ''/'' (pt_pathMap t)) (pa_directories A p) of
      Some v \<Rightarrow> if \<not> vp_exactMatch v \<or> vp_path v = n then Inr v else Inl (NotFoundException path)
    | None \<Rightarrow> Inl (NotFoundException path)) = Inr v"
    using assms unfolding mapPath_def None option.case rbind_eq_Inr by blast
  then have "find_parent (pt_pathMap t) ''/'' (smap_get (<) ''/'' (pt_pathMap t)) (pa_directories A p) = Some v"
    by (cases "find_parent (pt_pathMap t) ''/'' (smap_get (<) ''/'' (pt_pathMap t)) (pa_directories A p)") (simp_all split: if_splits)
  from find_parent_in [OF this] have "smap_get (<) ''/'' (pt_pathMap t) = Some v \<or> v \<in> snd ` set (pt_pathMap t)" .
  then show ?thesis using entry_in [of "''/''" "pt_pathMap t" v] by blast
next
  case (Some u)
  then show ?thesis using assms find_pattern_in [of re path meth None "pt_patternVec t" u] by (simp add: mapPath_def)
qed

section \<open>Properties\<close>

text \<open>
  C7: A request handler is called, and a resource sent, only for the mapping that the cleaned path of the request reaches,
  over a secure connection where the mapping asks for one, and only when access is granted: the mapping needs no
  permission; or credentials are optional and the request has none; or the request names, by a valid password, a valid
  bearer token or a session of its client, a user who has the permission, together with the CSRF token
  where it is asked for. On a mapping with a permission the handler is told exactly this user.
\<close>

theorem request_access_controlled:
  assumes "handleRequest E K S G now secure rq rs w = (x, r)" and "e \<in> set (ex_events x)"
    and "e = EvHandler v rq' \<or> e = EvResource v p"
  shows "\<exists>path0 params path user. we_uri E (rq_uri rq) = Inr (path0, params)
    \<and> cleanPath (we_paths E) path0 = (path, Inr True)
    \<and> mapPath (we_match E) (we_paths E) (wb_table w) path (rq_method rq) = Inr v
    \<and> (sec_secure (vp_security v) \<longrightarrow> secure)
    \<and> granted E K S G now rq v w user
    \<and> (e = EvHandler v rq' \<and> sec_permission (vp_security v) \<noteq> [] \<longrightarrow>
         header (rq_headers rq') X_OSP_AUTHORIZED_USER = (if wc_addAuthHeader G \<and> user \<noteq> [] then Some user else None))"
proof -
  have served: "is_served e" using assms(3) by (auto simp: is_served_def)
  obtain path0 params path x0 x1 r1 where req: "we_uri E (rq_uri rq) = Inr (path0, params)"
    "cleanPath (we_paths E) path0 = (path, Inr True)" "serve_path E K S G now secure path x0 = (x1, r1)"
    "e \<in> set (ex_events x1)" "ex_events x0 = []" "ex_request x0 = rq" "ex_web x0 = w"
    using handleRequest_events [OF assms(1,2) served] .
  have "e \<notin> set (ex_events x0)" using req(5) by simp
  from serve_path_events [OF req(3,4) this, unfolded req(6,7)] obtain v' rs1 w' rq1 rs' user where
    s: "mapPath (we_match E) (we_paths E) (wb_table w) path (rq_method rq) = Inr v'" "serves v' e"
    "sec_secure (vp_security v') \<longrightarrow> secure" "authorize E K S G now rq v' rs1 w = (w', rq1, rs', user, Inr True)"
    "\<forall>u rq2. e = EvHandler u rq2 \<longrightarrow> rq2 = rq1"
    .
  have v: "v' = v" using s(2) assms(3) by (auto simp: serves_def)
  have "e = EvHandler v rq' \<and> sec_permission (vp_security v) \<noteq> [] \<longrightarrow>
      header (rq_headers rq') X_OSP_AUTHORIZED_USER = (if wc_addAuthHeader G \<and> user \<noteq> [] then Some user else None)"
    using s(5) authorize_sound(2) [OF s(4)] unfolding v by blast
  moreover have "granted E K S G now rq v w user" using authorize_sound(1) [OF s(4)] unfolding v .
  ultimately show ?thesis using req(1,2) s(1,3) unfolding v by blast
qed

theorem request_access_controlled_witness:
  "\<exists>user. granted sample_env list_cache list_store sample_config 1000 admin_request admin_path sample_web user
     \<and> Some ''joe'' = (if wc_addAuthHeader sample_config \<and> user \<noteq> [] then Some user else None)"
proof -
  let ?h = "handleRequest sample_env list_cache list_store sample_config 1000 True admin_request empty_response sample_web"
  let ?rq = "admin_request\<lparr>rq_headers := [(''x-osp-authorized-user'', ''joe'')]\<rparr>"
  have "?h = (fst ?h, snd ?h)" by simp
  moreover have "EvHandler admin_path ?rq \<in> set (ex_events (fst ?h))" by (simp add: sample_exchange)
  moreover have "header (rq_headers ?rq) X_OSP_AUTHORIZED_USER = Some ''joe''" "sec_permission (vp_security admin_path) \<noteq> []"
    by code_simp+
  ultimately show ?thesis
    using request_access_controlled [of sample_env list_cache list_store sample_config 1000 True admin_request empty_response sample_web
        "fst ?h" "snd ?h" "EvHandler admin_path ?rq" admin_path ?rq "[]"] by metis
qed

text \<open>
  C8: Every request is answered: when the handlers and filters that return have sent their response, \<open>handleRequest\<close> returns with
  a response sent, whatever was mapped, refused, not found or thrown; only an exception that is none of Poco's leaves it.
\<close>

theorem request_answered:
  assumes "answering E"
  shows "case handleRequest E K S G now secure rq rs w of (x, r) \<Rightarrow>
    (case r of Inr _ \<Rightarrow> rs_sent (ex_response x) | Inl e \<Rightarrow> \<not> poco_exception e)"
proof -
  let ?x = "\<lparr>ex_web = w, ex_request = rq, ex_response = rs, ex_username = [], ex_events = []\<rparr>"
  obtain x b r where t: "handle_try E K S G now secure ?x = (x, b, r)"
    by (cases "handle_try E K S G now secure ?x") auto
  note answers = handle_try_answers [OF assms t]
  show ?thesis
    using answers t by (cases b; cases r) (auto simp: handleRequest_def Let_def)
qed

theorem request_answered_witness:
  "rs_sent (ex_response (fst (handleRequest sample_env list_cache list_store sample_config 1000 False admin_request empty_response sample_web)))"
proof -
  let ?h = "handleRequest sample_env list_cache list_store sample_config 1000 False admin_request empty_response sample_web"
  have "snd ?h = Inr ()" by code_simp
  then show ?thesis
    using request_answered [OF sample_answering, of list_cache list_store sample_config 1000 False admin_request empty_response sample_web]
    by (simp add: case_prod_beta)
qed

text \<open>
  Nothing of a stopping bundle stays reachable: no request path is mapped to one of its paths or patterns any more, and its
  resources are gone from the cache.
\<close>

theorem stopped_bundle_unreachable:
  "(case mapPath re A (wb_table (web_onBundleStopping E b w)) path meth of
      Inl _ \<Rightarrow> True | Inr v \<Rightarrow> vp_pOwnerBundle v \<noteq> b)
   \<and> list_all (\<lambda>(k, d). \<not> prefix (cache_prefix (we_symbolicName E b)) k) (wb_cache (web_onBundleStopping E b w))"
proof -
  have "vp_pOwnerBundle v \<noteq> b" if "mapPath re A (wb_table (web_onBundleStopping E b w)) path meth = Inr v" for v
    using mapPath_in [OF that] by (auto simp: web_onBundleStopping_def removeBundle_def)
  then show ?thesis
    by (auto simp: web_onBundleStopping_def list_all_iff uncache_entries split: sum.splits)
qed

text \<open>
  C14: The state of the server is well formed whatever was registered, requested and stopped: the mappings are sorted by path, each is
  stored under its own normalized path, a slash followed by names that each end with a slash, and none is a pattern; and
  the session cache refers to existing sessions under their own ids.
\<close>

theorem web_state_well_formed:
  assumes "path_laws A" and "path_reachable dbg A t" and "cache_laws K" and "store_laws S" and "session_reachable K S C digest ses"
  shows "sorted_wrt (<) (map fst (pt_pathMap t))
    \<and> (\<forall>(k, v) \<in> set (pt_pathMap t). vp_path v = k \<and> vp_pPattern v = None \<and> (\<exists>ds. list_all legal_name ds \<and> k = unix_dir ds))
    \<and> (\<forall>now k a. ca_get K now k (se_cache ses) = Some a \<longrightarrow> a < length (se_heap ses) \<and> ws_id (se_heap ses ! a) = k)"
  using reachable_table_inv [OF assms(2,1)] reachable_sessions_ok [OF assms(5,3,4)]
  unfolding table_inv_def entries_ok_def string_order.wf_map_def sessions_ok_def by blast

theorem web_state_well_formed_witness:
  "sorted_wrt (<) (map fst (pt_pathMap sample_table)) \<and> ws_id (se_heap sample_sessions ! 0) = ''s110.0.0.1:80''"
proof -
  have "ca_get list_cache 2000 ''s110.0.0.1:80'' (se_cache sample_sessions) = Some 0" by code_simp
  then show ?thesis
    using web_state_well_formed [OF plain_path_laws sample_table_reachable list_cache_laws list_store_laws sample_sessions_reachable]
    by blast
qed

end
