(* ===== verification/Web_Extension.thy ===== *)
theory Web_Extension
  imports Web_Access Configuration
begin

text \<open>
  How bundles register with the web server (\<open>platform/OSP/Web\<close>): the extension points for directories, request handlers and
  filters, which turn the attributes of an XML element into a virtual path or filter, and the activator that reads the
  configuration. The XML element is the function from attribute names to values (empty when absent); the expansion
  of properties, the string tokenizer, regular expressions and the class loader are Poco's and parameters.
\<close>

section \<open>Extension points\<close>

record ext_env =
  xe_expand :: "nat \<Rightarrow> string \<Rightarrow> string"
  xe_tokens :: "string \<Rightarrow> string list"
  xe_pattern :: "string \<Rightarrow> unit res"
  xe_symbolicName :: "nat \<Rightarrow> string"
  xe_pathForLibrary :: "string \<Rightarrow> string res"
  xe_loadLibrary :: "string \<Rightarrow> unit res"
  xe_create :: "string list \<Rightarrow> string \<Rightarrow> string res"
  xe_init :: "nat \<Rightarrow> string \<Rightarrow> unit res"

type_synonym attributes = "string \<Rightarrow> string"

definition EXTPOINT_DIRECTORY :: string where "EXTPOINT_DIRECTORY = ''osp.web.server.directory''"
definition EXTPOINT_HANDLER :: string where "EXTPOINT_HANDLER = ''osp.web.server.requesthandler''"
definition EXTPOINT_FILTER :: string where "EXTPOINT_FILTER = ''osp.web.server.filter''"

definition common_security :: "ext_env \<Rightarrow> nat \<Rightarrow> attributes \<Rightarrow> int \<Rightarrow> SpecializationMode \<Rightarrow> PathSecurity" where
  "common_security X b at methods mode =
     (let csrf = (at ''csrfProtection'' = ''true''); tokenHeader = xe_expand X b (at ''csrfTokenHeader'') in
      \<lparr>sec_mode = mode, sec_realm = xe_expand X b (at ''realm''), sec_permission = xe_expand X b (at ''permission''),
       sec_authMethods = methods, sec_session = xe_expand X b (at ''session''), sec_secure = (at ''secure'' = ''true''),
       sec_csrfProtection = csrf, sec_csrfTokenHeader = (if csrf \<and> tokenHeader = [] then ''X-XSRF-TOKEN'' else tokenHeader)\<rparr>)"

definition common_cors :: "ext_env \<Rightarrow> nat \<Rightarrow> attributes \<Rightarrow> PathCORS" where
  "common_cors X b at = \<lparr>cors_enable = (at ''cors'' = ''true''), cors_allowOrigin = xe_expand X b (at ''allowOrigin''),
     cors_allowMethods = xe_expand X b (at ''allowMethods''), cors_allowCredentials = (at ''allowCredentials'' \<noteq> ''false''),
     cors_allowHeaders = xe_expand X b (at ''allowHeaders'')\<rparr>"

definition bundle_exception :: "string \<Rightarrow> exc" where
  "bundle_exception msg = OtherException (''Failed to parse extension point'' @ msg)"

definition parse_mode :: "string \<Rightarrow> SpecializationMode res" where
  "parse_mode specialization =
     (if specialization = [] \<or> specialization = ''none'' then Inr SM_NONE
      else if specialization = ''owner'' then Inr SM_OWNER
      else if specialization = ''all'' then Inr SM_ALL
      else Inl (bundle_exception ('': Illegal attribute value '' @ specialization @ '' for attribute allowSpecialization'')))"

definition parse_format :: "string \<Rightarrow> ResponseFormat res" where
  "parse_format responseFormat =
     (if responseFormat = [] \<or> responseFormat = ''html'' then Inr RESPONSE_FORMAT_HTML
      else if responseFormat = ''json'' then Inr RESPONSE_FORMAT_JSON
      else Inl (bundle_exception ('': Illegal attribute value '' @ responseFormat @ '' for attribute responseFormat'')))"

definition handleCommon :: "ext_env \<Rightarrow> nat \<Rightarrow> attributes \<Rightarrow> VirtualPath res" where
  "handleCommon X b at =
     rbind (parseAuthMethods (xe_tokens X (at ''authMethods'')) 0) (\<lambda>methods.
     rbind (parse_mode (map tolower (at ''allowSpecialization''))) (\<lambda>mode.
     rbind (parse_format (map tolower (at ''responseFormat''))) (\<lambda>fmt.
       Inr ((VirtualPath_default b)\<lparr>vp_path := xe_expand X b (at ''path''), vp_description := xe_expand X b (at ''description''),
         vp_security := common_security X b at methods mode, vp_cors := common_cors X b at, vp_hidden := (at ''hidden'' = ''true''),
         vp_cache := (at ''cache'' \<noteq> ''false''), vp_exactMatch := (at ''exactMatch'' = ''true''), vp_responseFormat := fmt\<rparr>))))"

text \<open>
  The class loader and what the extension points remember: which libraries are loaded, the bundle that made each be
  loaded, and for every factory handed to the dispatcher the library its code is in.
\<close>

record ext_point =
  xp_loaded :: "string list"
  xp_libBundleMap :: "(string \<times> nat) list"
  xp_factories :: "string list"
  xp_bundleFilters :: "(nat \<times> string) list"

definition load_factory :: "ext_env \<Rightarrow> nat \<Rightarrow> attributes \<Rightarrow> ext_point \<Rightarrow> ext_point \<times> nat res" where
  "load_factory X b at xp =
     (let library = (if at ''library'' = [] then xe_symbolicName X b else at ''library'') in
      case xe_pathForLibrary X library of
        Inl e \<Rightarrow> (xp, Inl e)
      | Inr libraryPath \<Rightarrow>
          (case (if libraryPath \<notin> set (xp_loaded xp) then xe_loadLibrary X libraryPath else Inr ()) of
             Inl e \<Rightarrow> (xp, Inl e)
           | Inr _ \<Rightarrow>
               let xp = (if libraryPath \<notin> set (xp_loaded xp)
                     then xp\<lparr>xp_loaded := libraryPath # xp_loaded xp, xp_libBundleMap := smap_put (<) libraryPath b (xp_libBundleMap xp)\<rparr>
                     else xp) in
               (case xe_create X (xp_loaded xp) (at ''class'') of
                  Inl e \<Rightarrow> (xp, Inl e)
                | Inr provider \<Rightarrow>
                    (case xe_init X b (at ''class'') of
                       Inl e \<Rightarrow> (xp, Inl e)
                     | Inr _ \<Rightarrow> (xp\<lparr>xp_factories := xp_factories xp @ [provider]\<rparr>, Inr (length (xp_factories xp)))))))"

definition handleDirectory :: "ext_env \<Rightarrow> bool \<Rightarrow> 'p path_api \<Rightarrow> nat \<Rightarrow> attributes \<Rightarrow> ('c, 's) web \<Rightarrow> ('c, 's) web \<times> unit res" where
  "handleDirectory X dbg A b at w =
     (case handleCommon X b at of
        Inl e \<Rightarrow> (w, Inl e)
      | Inr v \<Rightarrow> (let (t, r) = addVirtualPath dbg A (v\<lparr>vp_resource := at ''resource'', vp_indexPage := at ''index''\<rparr>) (wb_table w)
                  in (w\<lparr>wb_table := t\<rparr>, r)))"

definition with_pattern :: "ext_env \<Rightarrow> nat \<Rightarrow> attributes \<Rightarrow> VirtualPath \<Rightarrow> VirtualPath res" where
  "with_pattern X b at v =
     (let pattern = xe_expand X b (at ''pattern'') in
      if pattern \<noteq> [] then rbind (xe_pattern X pattern) (\<lambda>_. Inr (v\<lparr>vp_pPattern := Some pattern, vp_path := pattern\<rparr>)) else Inr v)"

definition handleRequestHandler :: "ext_env \<Rightarrow> bool \<Rightarrow> 'p path_api \<Rightarrow> nat \<Rightarrow> attributes \<Rightarrow> ext_point \<times> ('c, 's) web
  \<Rightarrow> (ext_point \<times> ('c, 's) web) \<times> unit res" where
  "handleRequestHandler X dbg A b at = (\<lambda>(xp, w).
     case rbind (handleCommon X b at) (with_pattern X b at) of
       Inl e \<Rightarrow> ((xp, w), Inl e)
     | Inr v \<Rightarrow>
         let methods = xe_expand X b (at ''methods'');
             v = (if methods \<noteq> [] then v\<lparr>vp_methods := sort (remdups (xe_tokens X methods))\<rparr> else v)
         in case load_factory X b at xp of
              (xp, Inl e) \<Rightarrow> ((xp, w), Inl e)
            | (xp, Inr f) \<Rightarrow> (let (t, r) = addVirtualPath dbg A (v\<lparr>vp_pFactory := Some f\<rparr>) (wb_table w)
                             in ((xp, w\<lparr>wb_table := t\<rparr>), r)))"

definition handleExtension :: "ext_env \<Rightarrow> bool \<Rightarrow> 'p path_api \<Rightarrow> nat \<Rightarrow> attributes option \<Rightarrow> ext_point \<times> ('c, 's) web
  \<Rightarrow> (ext_point \<times> ('c, 's) web) \<times> unit res" where
  "handleExtension X dbg A b elem s =
     (case elem of
        None \<Rightarrow> (s, Inr ())
      | Some at \<Rightarrow>
          if at ''point'' = EXTPOINT_DIRECTORY then (let (w, r) = handleDirectory X dbg A b at (snd s) in ((fst s, w), r))
          else if at ''point'' = EXTPOINT_HANDLER then handleRequestHandler X dbg A b at s
          else (s, Inl (bundle_exception [])))"

text \<open>
  \<open>onBundleStopped\<close>: for every library the bundle made be loaded, its mappings are removed and the library is unloaded.
\<close>

definition ext_onBundleStopped :: "nat \<Rightarrow> ext_point \<times> ('c, 's) web \<Rightarrow> ext_point \<times> ('c, 's) web" where
  "ext_onBundleStopped b = (\<lambda>(xp, w).
     let libs = map fst (filter (\<lambda>(l, o'). o' = b) (xp_libBundleMap xp)) in
     (xp\<lparr>xp_loaded := filter (\<lambda>l. l \<notin> set libs) (xp_loaded xp),
         xp_libBundleMap := filter (\<lambda>(l, o'). o' \<noteq> b) (xp_libBundleMap xp)\<rparr>,
      if libs = [] then w else w\<lparr>wb_table := removeBundle b (wb_table w)\<rparr>))"

text \<open>Filters; the arguments of the filter are the attributes of the element.\<close>

definition handleFilter :: "ext_env \<Rightarrow> nat \<Rightarrow> attributes \<Rightarrow> ext_point \<times> ('c, 's) web \<Rightarrow> (ext_point \<times> ('c, 's) web) \<times> unit res" where
  "handleFilter X b at = (\<lambda>(xp, w).
     case load_factory X b at xp of
       (xp, Inl e) \<Rightarrow> ((xp, w), Inl e)
     | (xp, Inr f) \<Rightarrow>
         (case addFilter (at ''mediaType'') f w of
            (w, Inl e) \<Rightarrow> ((xp, w), Inl e)
          | (w, Inr _) \<Rightarrow> ((xp\<lparr>xp_bundleFilters := xp_bundleFilters xp @ [(b, at ''mediaType'')]\<rparr>, w), Inr ())))"

definition filter_onBundleStopped :: "nat \<Rightarrow> ext_point \<times> ('c, 's) web \<Rightarrow> ext_point \<times> ('c, 's) web" where
  "filter_onBundleStopped b = (\<lambda>(xp, w).
     let w = fold removeFilter (map snd (filter (\<lambda>(o', m). o' = b) (xp_bundleFilters xp))) w in
     ext_onBundleStopped b (xp\<lparr>xp_bundleFilters := filter (\<lambda>(o', m). o' \<noteq> b) (xp_bundleFilters xp)\<rparr>, w))"

section \<open>The activator\<close>

definition CONF_OPT_COMPRESS_RESPONSES :: int where "CONF_OPT_COMPRESS_RESPONSES = 0x01"
definition CONF_OPT_CACHE_RESOURCES :: int where "CONF_OPT_CACHE_RESOURCES = 0x02"
definition CONF_OPT_ADD_AUTH_HEADER :: int where "CONF_OPT_ADD_AUTH_HEADER = 0x04"
definition CONF_OPT_ADD_SIGNATURE :: int where "CONF_OPT_ADD_SIGNATURE = 0x08"
definition CONF_OPT_LOG_FULL_REQUEST :: int where "CONF_OPT_LOG_FULL_REQUEST = 0x10"
definition CONF_OPT_ENABLE_CORS :: int where "CONF_OPT_ENABLE_CORS = 0x20"

text \<open>A setting: from the properties of the bundle, overridden by the preferences when there is a preferences service.\<close>

definition pref_string :: "config \<Rightarrow> config option \<Rightarrow> string \<Rightarrow> string \<Rightarrow> string \<Rightarrow> string" where
  "pref_string P Q key pkey d = (let v = string_or P key d in case Q of None \<Rightarrow> v | Some C \<Rightarrow> string_or C pkey v)"

definition pref_bool :: "config \<Rightarrow> config option \<Rightarrow> string \<Rightarrow> string \<Rightarrow> bool \<Rightarrow> bool res" where
  "pref_bool P Q key pkey d = rbind (bool_or P key d) (\<lambda>v. case Q of None \<Rightarrow> Inr v | Some C \<Rightarrow> bool_or C pkey v)"

definition only_bool :: "config option \<Rightarrow> string \<Rightarrow> bool \<Rightarrow> bool res" where
  "only_bool Q pkey d = (case Q of None \<Rightarrow> Inr d | Some C \<Rightarrow> bool_or C pkey d)"

definition only_string :: "config option \<Rightarrow> string \<Rightarrow> string" where
  "only_string Q pkey = (case Q of None \<Rightarrow> [] | Some C \<Rightarrow> string_or C pkey [])"

definition dispatcher_options :: "bool \<Rightarrow> bool \<Rightarrow> bool \<Rightarrow> bool \<Rightarrow> bool \<Rightarrow> bool \<Rightarrow> int" where
  "dispatcher_options compress cache authHeader signature logFull cors =
     (let f = (\<lambda>b flag opts. if b then or opts flag else opts) in
      f cors CONF_OPT_ENABLE_CORS (f logFull CONF_OPT_LOG_FULL_REQUEST (f signature CONF_OPT_ADD_SIGNATURE
        (f authHeader CONF_OPT_ADD_AUTH_HEADER (f cache CONF_OPT_CACHE_RESOURCES (f compress CONF_OPT_COMPRESS_RESPONSES 0))))))"

definition same_site :: "string \<Rightarrow> SameSite" where
  "same_site s = (if s = ''none'' then SAME_SITE_NONE else if s = ''lax'' then SAME_SITE_LAX
     else if s = ''strict'' then SAME_SITE_STRICT else SAME_SITE_NOT_SPECIFIED)"

text \<open>The session manager as \<open>start\<close> configures it.\<close>

definition configure_sessions :: "config \<Rightarrow> config option \<Rightarrow> manager_config res" where
  "configure_sessions P Q =
     rbind (pref_bool P Q ''cookieSecure'' ''osp.web.sessionManager.cookieSecure'' False) (\<lambda>cookieSecure.
     rbind (pref_bool P Q ''csrfProtectionEnabled'' ''osp.web.csrfProtectionEnabled'' True) (\<lambda>csrfEnabled.
     rbind (pref_bool P Q ''verifyAddress'' ''osp.web.sessionManager.verifyAddress'' True) (\<lambda>verifyAddress.
       let persistence = pref_string P Q ''cookiePersistence'' ''osp.web.sessionManager.cookiePersistence'' ''persistent'';
           csrfCookie = pref_string P Q ''csrfCookie'' ''osp.web.sessionManager.csrfCookie'' ''XSRF-TOKEN''
       in Inr (manager_config_new\<lparr>
            mc_cookiePersistence := (if persistence = ''transient'' then COOKIE_TRANSIENT else COOKIE_PERSISTENT),
            mc_cookieSecure := cookieSecure, mc_verifyAddress := verifyAddress,
            mc_defaultDomain := only_string Q ''osp.web.sessionManager.defaultDomain'',
            mc_csrfCookie := (if csrfEnabled then csrfCookie else []),
            mc_cookieSameSite := same_site (pref_string P Q ''cookieSameSite'' ''osp.web.sessionManager.cookieSameSite'' [])\<rparr>))))"

definition decimal_int :: "int \<Rightarrow> string" where
  "decimal_int n = (if n < 0 then ''-'' @ decimal (nat (- n)) else decimal (nat n))"

definition toupper :: "char \<Rightarrow> char" where
  "toupper c = (if 97 \<le> (of_char c :: nat) \<and> (of_char c :: nat) \<le> 122 then char_of ((of_char c :: nat) - 32) else c)"

definition custom_headers :: "(bool \<times> int \<times> bool) \<Rightarrow> (bool \<times> string) \<Rightarrow> string \<Rightarrow> string \<Rightarrow> headers" where
  "custom_headers = (\<lambda>(hsts, maxAge, subdomains) (xss, mode) contentTypeOptions frameOptions.
     (if hsts then [(''Strict-Transport-Security'', ''max-age='' @ decimal_int maxAge @ (if subdomains then ''; includeSubdomains'' else []))] else [])
     @ (if xss then [(''X-XSS-Protection'', ''1; mode='' @ mode)] else [])
     @ (if contentTypeOptions \<noteq> [] then [(''X-Content-Type-Options'', contentTypeOptions)] else [])
     @ (if frameOptions \<noteq> [] then [(''X-Frame-Options'', map toupper frameOptions)] else []))"

text \<open>
  The dispatcher as \<open>start\<close> configures it, and the constructor that reads the option bits. All settings are read before anything is
  created; when several of them are malformed, which one is reported is not modelled.
\<close>

definition WebServerDispatcher_new :: "int \<Rightarrow> int \<Rightarrow> string \<Rightarrow> string \<Rightarrow> string \<Rightarrow> string \<Rightarrow> string set \<Rightarrow> headers \<Rightarrow> manager_config
  \<Rightarrow> web_config" where
  "WebServerDispatcher_new options authMethods authName tokenName allowedOrigin rootRedirect compressed custom ses =
     \<lparr>wc_authServiceName = authName, wc_tokenValidatorName = tokenName,
      wc_corsEnabled = (and options CONF_OPT_ENABLE_CORS \<noteq> 0), wc_corsAllowedOrigin = allowedOrigin, wc_rootRedirect = rootRedirect,
      wc_compressResponses = (and options CONF_OPT_COMPRESS_RESPONSES \<noteq> 0),
      wc_cacheResources = (and options CONF_OPT_CACHE_RESOURCES \<noteq> 0),
      wc_addAuthHeader = (and options CONF_OPT_ADD_AUTH_HEADER \<noteq> 0),
      wc_addSignature = (and options CONF_OPT_ADD_SIGNATURE \<noteq> 0),
      wc_authMethods = authMethods, wc_compressedMediaTypes = compressed, wc_customResponseHeaders = custom, wc_sessions = ses\<rparr>"

definition configure_dispatcher :: "(string \<Rightarrow> string \<Rightarrow> string list) \<Rightarrow> config \<Rightarrow> config option \<Rightarrow> web_config res" where
  "configure_dispatcher tokens P Q =
     rbind (pref_bool P Q ''cacheResources'' ''osp.web.cacheResources'' False) (\<lambda>cache.
     rbind (pref_bool P Q ''compressResponses'' ''osp.web.compressResponses'' False) (\<lambda>compress.
     rbind (pref_bool P Q ''hsts.enable'' ''osp.web.hsts.enable'' False) (\<lambda>hsts.
     rbind (rbind (int_or P ''hsts.maxAge'' 21772800) (\<lambda>v. case Q of None \<Rightarrow> Inr v | Some C \<Rightarrow> int_or C ''osp.web.hsts.maxAge'' v)) (\<lambda>maxAge.
     rbind (pref_bool P Q ''hsts.includeSubdomains'' ''osp.web.hsts.includeSubdomains'' True) (\<lambda>subdomains.
     rbind (pref_bool P Q ''xssProtection.enable'' ''osp.web.xssProtection.enable'' False) (\<lambda>xss.
     rbind (pref_bool P Q ''addAuthHeader'' ''osp.web.addAuthHeader'' True) (\<lambda>authHeader.
     rbind (pref_bool P Q ''addSignature'' ''osp.web.addSignature'' True) (\<lambda>signature.
     rbind (only_bool Q ''osp.web.logFullRequest'' False) (\<lambda>logFull.
     rbind (case Q of None \<Rightarrow> Inr 0 | Some C \<Rightarrow> parseAuthMethods (tokens '',;'' (string_or C ''osp.web.authMethods'' [])) 0) (\<lambda>authMethods.
     rbind (only_bool Q ''osp.web.cors.enable'' True) (\<lambda>cors.
     rbind (configure_sessions P Q) (\<lambda>ses.
       Inr (WebServerDispatcher_new (dispatcher_options compress cache authHeader signature logFull cors)
         (if authMethods \<noteq> 0 then authMethods else AUTH_ALL)
         (pref_string P Q ''authServiceName'' ''osp.web.authServiceName'' [])
         (pref_string P Q ''tokenValidatorName'' ''osp.web.tokenValidatorName'' [])
         (only_string Q ''osp.web.cors.allowedOrigin'') (only_string Q ''osp.web.rootRedirect'')
         (set (tokens '','' (pref_string P Q ''compressedMediaTypes'' ''osp.web.compressedMediaTypes'' [])))
         (custom_headers (hsts, maxAge, subdomains) (xss, pref_string P Q ''xssProtection.mode'' ''osp.web.xssProtection.mode'' ''block'')
            (pref_string P Q ''contentTypeOptions'' ''osp.web.contentTypeOptions'' ''nosniff'')
            (pref_string P Q ''frameOptions'' ''osp.web.frameOptions'' []))
         ses)))))))))))))"

section \<open>What the registration guarantees\<close>

lemma handleCommon_security:
  assumes "handleCommon X b at = Inr v"
  shows "sec_csrfProtection (vp_security v) \<longleftrightarrow> at ''csrfProtection'' = ''true''"
    and "sec_csrfProtection (vp_security v) \<Longrightarrow> sec_csrfTokenHeader (vp_security v) \<noteq> []"
    and "vp_pOwnerBundle v = b"
  using assms by (auto simp: handleCommon_def common_security_def VirtualPath_default_def rbind_eq_Inr Let_def split: if_splits)

text \<open>The flags of the options do not disturb each other.\<close>

lemma dispatcher_options_read:
  "and (dispatcher_options a b c d e f) CONF_OPT_COMPRESS_RESPONSES \<noteq> 0 \<longleftrightarrow> a"
  "and (dispatcher_options a b c d e f) CONF_OPT_CACHE_RESOURCES \<noteq> 0 \<longleftrightarrow> b"
  "and (dispatcher_options a b c d e f) CONF_OPT_ADD_AUTH_HEADER \<noteq> 0 \<longleftrightarrow> c"
  "and (dispatcher_options a b c d e f) CONF_OPT_ADD_SIGNATURE \<noteq> 0 \<longleftrightarrow> d"
  "and (dispatcher_options a b c d e f) CONF_OPT_LOG_FULL_REQUEST \<noteq> 0 \<longleftrightarrow> e"
  "and (dispatcher_options a b c d e f) CONF_OPT_ENABLE_CORS \<noteq> 0 \<longleftrightarrow> f"
  by (cases a; cases b; cases c; cases d; cases e; cases f;
      simp add: dispatcher_options_def CONF_OPT_COMPRESS_RESPONSES_def CONF_OPT_CACHE_RESOURCES_def CONF_OPT_ADD_AUTH_HEADER_def
        CONF_OPT_ADD_SIGNATURE_def CONF_OPT_LOG_FULL_REQUEST_def CONF_OPT_ENABLE_CORS_def)+

text \<open>Without any setting addresses are verified, a CSRF cookie is set, all methods of authentication are allowed and cross-origin requests handled.\<close>

lemma dispatcher_defaults:
  assumes "\<And>k. cf_raw P k = None"
  shows "\<exists>G. configure_dispatcher tokens P None = Inr G \<and> mc_verifyAddress (wc_sessions G) \<and> mc_csrfCookie (wc_sessions G) = ''XSRF-TOKEN''
    \<and> wc_authMethods G = AUTH_ALL \<and> wc_addAuthHeader G \<and> wc_corsEnabled G \<and> \<not> wc_cacheResources G
    \<and> wc_customResponseHeaders G = [(''X-Content-Type-Options'', ''nosniff'')]"
  using assms
  by (simp add: configure_dispatcher_def configure_sessions_def pref_bool_def pref_string_def only_bool_def only_string_def bool_or_def
      string_or_def int_or_def WebServerDispatcher_new_def dispatcher_options_read custom_headers_def manager_config_new_def Let_def)

text \<open>
  A library stays loaded only as long as the bundle that first needed it: a factory of another bundle that comes from the same
  library is left in the table when the library is unloaded.
\<close>

definition sample_ext :: ext_env where
  "sample_ext = \<lparr>xe_expand = (\<lambda>_ s. s), xe_tokens = (\<lambda>s. if s = [] then [] else [s]), xe_pattern = (\<lambda>_. Inr ()),
     xe_symbolicName = (\<lambda>b. ''lib''), xe_pathForLibrary = Inr, xe_loadLibrary = (\<lambda>_. Inr ()), xe_create = (\<lambda>ls _. Inr (hd ls)),
     xe_init = (\<lambda>_ _. Inr ())\<rparr>"

definition handler_element :: "string \<Rightarrow> attributes" where
  "handler_element path n = (if n = ''point'' then EXTPOINT_HANDLER else if n = ''path'' then path else if n = ''library'' then ''shared''
     else if n = ''csrfProtection'' then ''true'' else if n = ''permission'' then ''admin'' else if n = ''session'' then ''app'' else [])"

definition two_users :: "ext_point \<times> ((string \<times> nat \<times> int) list, (string \<times> WebSession) list) web" where
  "two_users = fst (handleExtension sample_ext True plain_paths 2 (Some (handler_element ''/b''))
     (fst (handleExtension sample_ext True plain_paths 1 (Some (handler_element ''/a''))
       (\<lparr>xp_loaded = [], xp_libBundleMap = [], xp_factories = [], xp_bundleFilters = []\<rparr>, sample_web))))"

lemma library_unloaded_in_use:
  "let (xp, w) = ext_onBundleStopped 1 two_users in
   map (\<lambda>(k, v). (k, vp_pOwnerBundle v, map_option ((!) (xp_factories xp)) (vp_pFactory v)))
       (filter (\<lambda>(k, v). vp_pOwnerBundle v = 2) (pt_pathMap (wb_table w))) = [(''/b/'', 2, Some ''shared'')]
   \<and> xp_loaded xp = []"
  by code_simp

section \<open>Properties\<close>


definition user_web :: "((string \<times> nat \<times> int) list, (string \<times> WebSession) list) web" where
  "user_web = sample_web\<lparr>wb_sessions := session_set list_store 0 ''username'' (AnyString ''joe'') sample_sessions\<rparr>"

definition user_request :: request where
  "user_request = \<lparr>rq_method = ''POST'', rq_uri = ''/a'', rq_headers = [(''X-XSRF-TOKEN'', ''s210.0.0.1:80'')], rq_credentials = None,
     rq_session = sample_request ''10.0.0.1'' [(''osp.web.session.app'', ''s110.0.0.1:80'')]\<rparr>"

definition user_path :: VirtualPath where
  "user_path = (case handleCommon sample_ext 1 (handler_element ''/a'') of Inr v \<Rightarrow> v | Inl _ \<Rightarrow> VirtualPath_default 0)"

lemma user_session_granted:
  "session_granted sample_env list_cache list_store sample_config 2000 user_request user_path user_web ''joe''"
proof -
  let ?o = "session_of list_cache list_store sample_config 2000 user_request user_path user_web"
  have "?o \<noteq> None" "getValue_or (the ?o) ''username'' [] = Inr ''joe''"
    "csrfToken (the ?o) = Inr (header_or (rq_headers user_request) (sec_csrfTokenHeader (vp_security user_path)) [])"
    "sec_session (vp_security user_path) \<noteq> []" "method_enabled (enabled_methods sample_config user_path) AUTH_SESSION"
    "sec_permission (vp_security user_path) = ''admin''" "rq_credentials user_request = None"
    by code_simp+
  moreover have "snd (authService sample_env sample_config user_web) = Some sample_auth"
    by (simp add: authService_def Let_def user_web_def sample_web_def sample_config_def sample_env_def)
  ultimately show ?thesis
    unfolding session_granted_def by (intro exI [of _ "the ?o"] exI [of _ sample_auth]) (auto simp: sample_auth_def permitted_def)
qed


end
