(* ===== verification/Web_Event.thy ===== *)
theory Web_Event
  imports Prelude "HOL-Library.Sublist" "HOL-Library.Multiset"
begin

text \<open>
  The distribution of events to browsers, \<open>OSP/WebEvent/src/WebEventServiceImpl.cpp\<close> and \<open>WebEventRequestHandler.cpp\<close>. One main
  thread owns the tables of sockets and subjects and executes the tasks of a queue; worker threads take tasks from a second
  queue, and what they find out comes back as tasks for the main thread. A state has both queues and the tasks that
  workers have taken but not finished; the step relation \<open>event_step\<close> interleaves the threads.

  Sockets are numbers in the order of their creation and stand for the WebSocket on them too; subscribers are objects on
  a heap, because the code compares their addresses. A multimap is the list of its entries in the order of insertion: the
  code only looks at the entries of one key, and \<open>std::multimap\<close> keeps those in that order; \<open>find\<close> returns the first of them, as in
  the usual implementations. A \<open>std::set\<close> of strings is a
  sorted list without duplicates. What the sockets answer is an argument of the operation, the delegates of the events
  a parameter, which may call \<open>notify\<close> and may throw. Logging is left out.
\<close>

section \<open>Messages\<close>

definition SUBSCRIBE :: string where "SUBSCRIBE = ''SUBSCRIBE''"
definition UNSUBSCRIBE :: string where "UNSUBSCRIBE = ''UNSUBSCRIBE''"
definition NOTIFY :: string where "NOTIFY = ''NOTIFY''"
definition VERSION :: string where "VERSION = ''WebEvent/1.0''"
definition SYSTEM_PING :: string where "SYSTEM_PING = ''system.ping''"
definition SYSTEM_PONG :: string where "SYSTEM_PONG = ''system.pong''"

definition CR :: char where "CR = CHR 0x0D"
definition LF :: char where "LF = CHR 0x0A"

text \<open>The message built by \<open>notifyImpl\<close>, and by \<open>receiveImpl\<close> for a ping.\<close>

definition notify_message :: "string \<Rightarrow> string \<Rightarrow> string" where
  "notify_message subjectName data = NOTIFY @ '' '' @ subjectName @ '' '' @ VERSION @ [CR, LF] @ data"

text \<open>The list of subjects in \<open>receiveImpl\<close>: a subject that reaches the end of the frame is not inserted.\<close>

function read_subjects :: "string \<Rightarrow> string list \<times> string" where
  "read_subjects s =
     (if s = [] \<or> hd s = CHR '' '' then ([], s)
      else case scan (\<lambda>c. c \<noteq> CHR '','' \<and> c \<noteq> CHR '' '') s of
             (subject, []) \<Rightarrow> ([], [])
           | (subject, c # r) \<Rightarrow>
               (case read_subjects (if c = CHR '','' then r else c # r) of (names, rest) \<Rightarrow> (subject # names, rest)))"
  by pat_completeness auto

lemma read_subjects_shorter:
  assumes "s \<noteq> []" "hd s \<noteq> CHR '' ''" "scan (\<lambda>c. c \<noteq> CHR '','' \<and> c \<noteq> CHR '' '') s = (subject, c # r)"
  shows "length (if c = CHR '','' then r else c # r) < length s"
proof -
  have r: "dropWhile (\<lambda>c. c \<noteq> CHR '','' \<and> c \<noteq> CHR '' '') s = c # r" and s: "s = subject @ c # r"
    using assms(3) takeWhile_dropWhile_id [of "\<lambda>c. c \<noteq> CHR '','' \<and> c \<noteq> CHR '' ''" s] by (auto simp: scan_def)
  have "subject = [] \<Longrightarrow> c = CHR '',''"
    using assms(2) r [unfolded dropWhile_eq_Cons_conv] s by auto
  then show ?thesis
    by (cases subject) (auto simp: s)
qed

termination read_subjects
proof (relation "measure length", goal_cases)
  case 1
  show ?case by simp
next
  case (2 s x y c r)
  show ?case
    using read_subjects_shorter [of s x c r] 2 by (auto split: if_splits)
qed

declare read_subjects.simps [simp del]

text \<open>The parser of \<open>receiveImpl\<close>: verb, subjects and the rest of the frame, or a protocol violation.\<close>

definition parse_frame :: "string \<Rightarrow> (string \<times> string list \<times> string) option" where
  "parse_frame buffer =
     (let (verb, it) = scan (\<lambda>c. c \<noteq> CHR '' '') buffer in
      if verb = SUBSCRIBE \<or> verb = UNSUBSCRIBE \<or> verb = NOTIFY
      then let it = dropWhile (\<lambda>c. c = CHR '' '') it;
               (names, it) = read_subjects it;
               it = dropWhile (\<lambda>c. c = CHR '' '') it;
               (version, it) = scan (\<lambda>c. c \<noteq> CR \<and> c \<noteq> LF) it;
               it = (if it \<noteq> [] \<and> hd it = CR then tl it else it);
               it = (if it \<noteq> [] \<and> hd it = LF then tl it else it)
           in if version = VERSION then Some (verb, sort (remdups names), it) else None
      else None)"

section \<open>State\<close>

record subscriber =
  sb_socket :: nat
  sb_subjectNames :: "string list"

datatype task =
    AddSubscriber nat
  | RemoveSubscriber nat bool
  | Subscribe nat "string list"
  | Unsubscribe nat "string list"
  | Notify string string
  | Send nat string
  | Receive nat
  | Shutdown nat "16 word" string bool
  | WatchSocket nat

text \<open>The events of the service with their arguments: a subscription, an unsubscription, a notification, and the event of one subject.\<close>

datatype fired = SubscriptionRequest string | UnsubscriptionRequest string | NotificationSent string string
  | SubjectNotified string string string

text \<open>What the delegates of an event do: the calls of \<open>notify\<close> they make, and whether they throw.\<close>

type_synonym delegates = "fired \<Rightarrow> (string \<times> string) list \<times> unit res"

record event_service =
  es_maxSockets :: int
  es_heap :: "subscriber list"
  es_subjectMap :: "(string \<times> nat) list"
  es_eventMap :: "string list"
  es_socketMap :: "(nat \<times> nat) list"
  es_socketList :: "nat list"
  es_mainQueue :: "task list"
  es_workerQueue :: "task list"
  es_busy :: "task list"
  es_closed :: "nat list"
  es_sockets :: nat
  es_fired :: "fired list"

definition event_service_new :: "int \<Rightarrow> event_service" where
  "event_service_new maxSockets = \<lparr>es_maxSockets = maxSockets, es_heap = [], es_subjectMap = [], es_eventMap = [], es_socketMap = [],
     es_socketList = [], es_mainQueue = [], es_workerQueue = [], es_busy = [], es_closed = [], es_sockets = 0, es_fired = []\<rparr>"

definition enqueue_main :: "task \<Rightarrow> event_service \<Rightarrow> event_service" where
  "enqueue_main t s = s\<lparr>es_mainQueue := es_mainQueue s @ [t]\<rparr>"

definition enqueue_worker :: "task \<Rightarrow> event_service \<Rightarrow> event_service" where
  "enqueue_worker t s = s\<lparr>es_workerQueue := es_workerQueue s @ [t]\<rparr>"

definition fire :: "delegates \<Rightarrow> fired \<Rightarrow> event_service \<Rightarrow> event_service \<times> unit res" where
  "fire D f s = (case D f of (calls, r) \<Rightarrow>
     (s\<lparr>es_fired := es_fired s @ [f], es_mainQueue := es_mainQueue s @ map (\<lambda>(n, d). Notify n d) calls\<rparr>, r))"

fun fire_all :: "delegates \<Rightarrow> fired list \<Rightarrow> event_service \<Rightarrow> event_service \<times> unit res" where
  "fire_all D [] s = (s, Inr ())"
| "fire_all D (f # fs) s = (case fire D f s of (s, Inl e) \<Rightarrow> (s, Inl e) | (s, Inr _) \<Rightarrow> fire_all D fs s)"

section \<open>The tables of the main thread\<close>

definition subjectNotified :: "string \<Rightarrow> event_service \<Rightarrow> event_service" where
  "subjectNotified subject s = (if subject \<in> set (es_eventMap s) then s else s\<lparr>es_eventMap := es_eventMap s @ [subject]\<rparr>)"

text \<open>The subscribers of one subject, the range that \<open>equal_range\<close> and the loops after \<open>find\<close> go over.\<close>

definition equal_range :: "string \<Rightarrow> event_service \<Rightarrow> nat list" where
  "equal_range subject s = map snd (filter (\<lambda>e. fst e = subject) (es_subjectMap s))"

definition subscriberCount :: "string \<Rightarrow> event_service \<Rightarrow> nat" where
  "subscriberCount subject s = length (equal_range subject s)"

text \<open>\<open>find_last_of('.')\<close> and \<open>resize\<close>.\<close>

definition parent_subject :: "string \<Rightarrow> string option" where
  "parent_subject s = (if CHR ''.'' \<in> set s then Some (rev (tl (dropWhile (\<lambda>c. c \<noteq> CHR ''.'') (rev s)))) else None)"

lemma parent_subject_append [simp]:
  assumes "CHR ''.'' \<notin> set t"
  shows "parent_subject (p @ CHR ''.'' # t) = Some p"
proof -
  have "dropWhile (\<lambda>c. c \<noteq> CHR ''.'') (rev t @ CHR ''.'' # rev p) = CHR ''.'' # rev p"
    using assms by (subst dropWhile_append2) auto
  then show ?thesis by (simp add: parent_subject_def)
qed

lemma parent_subject_Some:
  assumes "parent_subject s = Some p"
  obtains t where "s = p @ CHR ''.'' # t" "CHR ''.'' \<notin> set t"
proof -
  have "CHR ''.'' \<in> set s" using assms by (auto simp: parent_subject_def split: if_splits)
  then obtain q t where s: "s = q @ CHR ''.'' # t" "CHR ''.'' \<notin> set t" by (metis split_list_last)
  with assms have "q = p" by simp
  with s that show ?thesis by blast
qed

lemma parent_shorter: "parent_subject s = Some p \<Longrightarrow> length p < length s"
  by (erule parent_subject_Some) simp

function notify_levels :: "delegates \<Rightarrow> string \<Rightarrow> string \<Rightarrow> string \<Rightarrow> event_service \<Rightarrow> event_service \<times> unit res" where
  "notify_levels D subjectName data level s =
     (let s = fold (\<lambda>a. enqueue_worker (Send (sb_socket (es_heap s ! a)) (notify_message subjectName data))) (equal_range level s) s
      in case fire_all D (map (\<lambda>l. SubjectNotified l subjectName data) (filter (\<lambda>l. l = level) (es_eventMap s))) s of
           (s, Inl e) \<Rightarrow> (s, Inl e)
         | (s, Inr _) \<Rightarrow> (case parent_subject level of None \<Rightarrow> (s, Inr ()) | Some p \<Rightarrow> notify_levels D subjectName data p s))"
  by pat_completeness auto
termination
  by (relation "measure (\<lambda>(_, _, _, level, _). length level)") (auto dest: parent_shorter)

declare notify_levels.simps [simp del]

definition notifyImpl :: "delegates \<Rightarrow> string \<Rightarrow> string \<Rightarrow> event_service \<Rightarrow> event_service \<times> unit res" where
  "notifyImpl D subjectName data s =
     (case fire D (NotificationSent subjectName data) s of
        (s, Inl e) \<Rightarrow> (s, Inl e)
      | (s, Inr _) \<Rightarrow> notify_levels D subjectName data subjectName s)"

definition watchSocketImpl :: "nat \<Rightarrow> event_service \<Rightarrow> event_service" where
  "watchSocketImpl k s = s\<lparr>es_socketList := es_socketList s @ [k]\<rparr>"

definition unwatchSocketImpl :: "nat \<Rightarrow> event_service \<Rightarrow> event_service" where
  "unwatchSocketImpl k s = s\<lparr>es_socketList := remove1 k (es_socketList s)\<rparr>"

definition addSubscriberImpl :: "nat \<Rightarrow> event_service \<Rightarrow> event_service" where
  "addSubscriberImpl k s =
     watchSocketImpl k (s\<lparr>es_heap := es_heap s @ [\<lparr>sb_socket = k, sb_subjectNames = []\<rparr>],
        es_socketMap := (k, length (es_heap s)) # filter (\<lambda>e. fst e \<noteq> k) (es_socketMap s)\<rparr>)"

definition set_names :: "nat \<Rightarrow> string list \<Rightarrow> event_service \<Rightarrow> event_service" where
  "set_names a names s = s\<lparr>es_heap := (es_heap s)[a := (es_heap s ! a)\<lparr>sb_subjectNames := names\<rparr>]\<rparr>"

abbreviation names_of :: "event_service \<Rightarrow> nat \<Rightarrow> string list" where
  "names_of s a \<equiv> sb_subjectNames (es_heap s ! a)"

fun subscribe_loop :: "delegates \<Rightarrow> nat \<Rightarrow> string list \<Rightarrow> event_service \<Rightarrow> event_service \<times> unit res" where
  "subscribe_loop D a [] s = (s, Inr ())"
| "subscribe_loop D a (n # ns) s =
     (if n \<in> set (names_of s a) then subscribe_loop D a ns s
      else let s = set_names a (insort n (names_of s a)) s;
               s = s\<lparr>es_subjectMap := es_subjectMap s @ [(n, a)]\<rparr>
           in case fire D (SubscriptionRequest n) s of
                (s, Inl e) \<Rightarrow> (s, Inl e)
              | (s, Inr _) \<Rightarrow> subscribe_loop D a ns s)"

definition subscribeImpl :: "delegates \<Rightarrow> nat \<Rightarrow> string list \<Rightarrow> event_service \<Rightarrow> event_service \<times> unit res" where
  "subscribeImpl D k subjectNames s =
     (case map_of (es_socketMap s) k of None \<Rightarrow> (s, Inr ()) | Some a \<Rightarrow> subscribe_loop D a subjectNames s)"

fun unsubscribe_loop :: "delegates \<Rightarrow> nat \<Rightarrow> string list \<Rightarrow> event_service \<Rightarrow> event_service \<times> unit res" where
  "unsubscribe_loop D a [] s = (s, Inr ())"
| "unsubscribe_loop D a (n # ns) s =
     (if n \<notin> set (names_of s a) then unsubscribe_loop D a ns s
      else let s = set_names a (remove1 n (names_of s a)) s in
           if (n, a) \<notin> set (es_subjectMap s) then unsubscribe_loop D a ns s
           else case fire D (UnsubscriptionRequest n) (s\<lparr>es_subjectMap := remove1 (n, a) (es_subjectMap s)\<rparr>) of
                  (s, Inl e) \<Rightarrow> (s, Inl e)
                | (s, Inr _) \<Rightarrow> unsubscribe_loop D a ns s)"

definition unsubscribeImpl :: "delegates \<Rightarrow> nat \<Rightarrow> string list \<Rightarrow> event_service \<Rightarrow> event_service \<times> unit res" where
  "unsubscribeImpl D k subjectNames s =
     (case map_of (es_socketMap s) k of
        None \<Rightarrow> (s, Inr ())
      | Some a \<Rightarrow> unsubscribe_loop D a (if ''*'' \<in> set subjectNames then names_of s a else subjectNames) s)"

definition removeSubscriberImpl :: "delegates \<Rightarrow> nat \<Rightarrow> bool \<Rightarrow> event_service \<Rightarrow> event_service \<times> unit res" where
  "removeSubscriberImpl D k clientShutdown s =
     (case map_of (es_socketMap s) k of
        None \<Rightarrow> (s, Inr ())
      | Some a \<Rightarrow>
          (case unsubscribeImpl D k (names_of s a) s of
             (s, Inl e) \<Rightarrow> (s, Inl e)
           | (s, Inr _) \<Rightarrow>
               (let s = s\<lparr>es_socketMap := filter (\<lambda>e. fst e \<noteq> k) (es_socketMap s)\<rparr>;
                    s = unwatchSocketImpl k s
                in (enqueue_worker (Shutdown k 1000 [] clientShutdown) s, Inr ()))))"

section \<open>What the workers do\<close>

text \<open>\<open>sendImpl\<close> with the result of \<open>sendFrame\<close>.\<close>

definition sendImpl :: "nat \<Rightarrow> unit res \<Rightarrow> event_service \<Rightarrow> event_service" where
  "sendImpl k sent s = (case sent of Inl _ \<Rightarrow> enqueue_main (RemoveSubscriber k False) s | Inr _ \<Rightarrow> s)"

text \<open>The opcodes of RFC 6455, which are the values of the constants of \<open>Poco::Net::WebSocket\<close>.\<close>

definition FRAME_OP_CLOSE :: int where "FRAME_OP_CLOSE = 0x08"
definition FRAME_OP_PONG :: int where "FRAME_OP_PONG = 0x0A"

text \<open>\<open>receiveImpl\<close> with what \<open>receiveFrame\<close> returns: the bytes in the buffer and the flags of the frame.\<close>

definition notify_subject :: "nat \<Rightarrow> string \<Rightarrow> string \<Rightarrow> event_service \<Rightarrow> event_service" where
  "notify_subject k data subject s =
     (if subject = SYSTEM_PING then enqueue_worker (Send k (notify_message SYSTEM_PONG data)) s
      else enqueue_main (Notify subject data) s)"

definition receiveImpl :: "nat \<Rightarrow> (string \<times> int) res \<Rightarrow> event_service \<Rightarrow> event_service" where
  "receiveImpl k received s =
     (case received of
        Inl _ \<Rightarrow> enqueue_main (RemoveSubscriber k False) s
      | Inr (buffer, flags) \<Rightarrow>
          if and flags FRAME_OP_PONG \<noteq> 0 then enqueue_main (WatchSocket k) s
          else if and flags FRAME_OP_CLOSE \<noteq> 0 \<or> length buffer = 0 then enqueue_main (RemoveSubscriber k True) s
          else (case parse_frame buffer of
                  None \<Rightarrow> enqueue_main (RemoveSubscriber k False) s
                | Some (verb, subjectNames, data) \<Rightarrow>
                    enqueue_main (WatchSocket k)
                      (if verb = SUBSCRIBE then enqueue_main (Subscribe k subjectNames) s
                       else if verb = UNSUBSCRIBE then enqueue_main (Unsubscribe k subjectNames) s
                       else fold (notify_subject k data) subjectNames s)))"

text \<open>
  \<open>shutdownImpl\<close> with the results of \<open>shutdown\<close>, of \<open>poll\<close> and of the \<open>receiveFrame\<close> for the answer of the client; an exception
  of the last two leaves it before the socket is closed.
\<close>

definition shutdownImpl :: "nat \<Rightarrow> bool \<Rightarrow> unit res \<Rightarrow> bool res \<Rightarrow> (string \<times> int) res \<Rightarrow> event_service \<Rightarrow> event_service \<times> unit res" where
  "shutdownImpl k passive shut polled received s =
     (let closed = (s\<lparr>es_closed := k # es_closed s\<rparr>, Inr ());
          passive = (case shut of Inl _ \<Rightarrow> True | Inr _ \<Rightarrow> passive)
      in if passive then closed
         else case polled of
                Inl e \<Rightarrow> (s, Inl e)
              | Inr False \<Rightarrow> closed
              | Inr True \<Rightarrow> (case received of Inl e \<Rightarrow> (s, Inl e) | Inr _ \<Rightarrow> closed))"

section \<open>The loops of the threads\<close>

text \<open>One pass of \<open>runMain\<close> over what \<open>select\<close> reports, up to the first exception of a delegate.\<close>

definition receive_ready :: "nat \<Rightarrow> event_service \<Rightarrow> event_service" where
  "receive_ready k s =
     (case map_of (es_socketMap s) k of
        None \<Rightarrow> s
      | Some a \<Rightarrow> unwatchSocketImpl k (enqueue_worker (Receive (sb_socket (es_heap s ! a))) s))"

fun remove_failed :: "delegates \<Rightarrow> nat list \<Rightarrow> event_service \<Rightarrow> event_service \<times> unit res" where
  "remove_failed D [] s = (s, Inr ())"
| "remove_failed D (k # ks) s =
     (case map_of (es_socketMap s) k of
        None \<Rightarrow> remove_failed D ks s
      | Some a \<Rightarrow>
          (case removeSubscriberImpl D (sb_socket (es_heap s ! a)) False s of
             (s, Inl e) \<Rightarrow> (s, Inl e)
           | (s, Inr _) \<Rightarrow> remove_failed D ks s))"

definition runMain_select :: "delegates \<Rightarrow> nat list \<Rightarrow> nat list \<Rightarrow> event_service \<Rightarrow> event_service \<times> unit res" where
  "runMain_select D readList exceptList s = remove_failed D exceptList (fold receive_ready readList s)"

text \<open>A task of the main queue; the tasks of the workers never get there.\<close>

fun execute :: "delegates \<Rightarrow> task \<Rightarrow> event_service \<Rightarrow> event_service \<times> unit res" where
  "execute D (AddSubscriber k) s = (addSubscriberImpl k s, Inr ())"
| "execute D (RemoveSubscriber k b) s = removeSubscriberImpl D k b s"
| "execute D (Subscribe k names) s = subscribeImpl D k names s"
| "execute D (Unsubscribe k names) s = unsubscribeImpl D k names s"
| "execute D (Notify n d) s = notifyImpl D n d s"
| "execute D (WatchSocket k) s = (watchSocketImpl k s, Inr ())"
| "execute D _ s = (s, Inr ())"

section \<open>Accepting a client\<close>

definition preflightRequest :: "event_service \<Rightarrow> int \<Rightarrow> int" where
  "preflightRequest s status =
     (if es_maxSockets s > 0 \<and> int (length (es_socketMap s)) \<ge> es_maxSockets s then 503 else status)"

datatype ws_error = WS_ERR_NO_HANDSHAKE | WS_ERR_HANDSHAKE_UNSUPPORTED_VERSION | WS_ERR_HANDSHAKE_NO_VERSION
  | WS_ERR_HANDSHAKE_NO_KEY | WS_ERR_OTHER

text \<open>The answer: the connection is a WebSocket now, a response with a status and header fields was sent, or nothing was.\<close>

datatype ws_reply = Upgraded nat | Replied int "(string \<times> string) list" | Unanswered

text \<open>
  \<open>WebEventRequestHandler::handleRequest\<close>: \<open>requestReceived\<close> is the status after the delegates of the event, or their exception;
  \<open>handshake\<close> the error of the constructor of \<open>WebSocket\<close>, if any.
\<close>

definition accept_request :: "string \<Rightarrow> (int \<Rightarrow> int res) \<Rightarrow> ws_error option \<Rightarrow> int \<Rightarrow> event_service \<Rightarrow> event_service \<times> ws_reply res" where
  "accept_request version requestReceived handshake status s =
     (let status = preflightRequest s status in
      if status = 200
      then case requestReceived status of
             Inl e \<Rightarrow> (s, Inl e)
           | Inr status \<Rightarrow>
               if status = 200
               then case handshake of
                      None \<Rightarrow> (enqueue_main (AddSubscriber (es_sockets s)) (s\<lparr>es_sockets := es_sockets s + 1\<rparr>), Inr (Upgraded (es_sockets s)))
                    | Some WS_ERR_OTHER \<Rightarrow> (s, Inr Unanswered)
                    | Some e \<Rightarrow> (s, Inr (Replied 400 (if e = WS_ERR_HANDSHAKE_UNSUPPORTED_VERSION
                                    then [(''Sec-WebSocket-Version'', version)] else [])))
               else (s, Inr (Replied status []))
      else (s, Inr (Replied status [])))"

section \<open>Steps of all threads\<close>

text \<open>
  \<open>workers\<close> is the number of worker threads. \<open>select\<close> may report any of the watched sockets. The relation lets the main thread
  go back to \<open>select\<close> at any time, also where the code would empty its queue first. An exception that leaves a task is
  logged and the loop goes on.
\<close>

inductive event_step :: "nat \<Rightarrow> delegates \<Rightarrow> event_service \<Rightarrow> event_service \<Rightarrow> bool" for workers D where
  api_notify: "event_step workers D s (enqueue_main (Notify n d) s)"
| api_subject: "event_step workers D s (subjectNotified n s)"
| handler: "event_step workers D s (fst (accept_request v q h st s))"
| main_select: "event_step workers D s (fst (runMain_select D (filter R (es_socketList s)) (filter X (es_socketList s)) s))"
| main_task: "es_mainQueue s = t # q \<Longrightarrow> event_step workers D s (fst (execute D t (s\<lparr>es_mainQueue := q\<rparr>)))"
| worker_take: "es_workerQueue s = t # q \<Longrightarrow> length (es_busy s) < workers \<Longrightarrow>
    event_step workers D s (s\<lparr>es_workerQueue := q, es_busy := t # es_busy s\<rparr>)"
| worker_send: "Send k m \<in> set (es_busy s) \<Longrightarrow>
    event_step workers D s (sendImpl k r (s\<lparr>es_busy := remove1 (Send k m) (es_busy s)\<rparr>))"
| worker_receive: "Receive k \<in> set (es_busy s) \<Longrightarrow>
    event_step workers D s (receiveImpl k f (s\<lparr>es_busy := remove1 (Receive k) (es_busy s)\<rparr>))"
| worker_shutdown: "Shutdown k c m b \<in> set (es_busy s) \<Longrightarrow>
    event_step workers D s (fst (shutdownImpl k b h p f (s\<lparr>es_busy := remove1 (Shutdown k c m b) (es_busy s)\<rparr>)))"

definition event_reachable :: "nat \<Rightarrow> delegates \<Rightarrow> event_service \<Rightarrow> bool" where
  "event_reachable workers D s \<longleftrightarrow> (\<exists>m. (event_step workers D)\<^sup>*\<^sup>* (event_service_new m) s)"

section \<open>The tables agree\<close>

definition connected :: "event_service \<Rightarrow> nat set" where
  "connected s = fst ` set (es_socketMap s)"

text \<open>
  Every connected socket has a subscriber of its own, and the map of subjects has exactly the entries that the subscribers
  themselves list, each once.
\<close>

definition tables_ok :: "event_service \<Rightarrow> bool" where
  "tables_ok s \<longleftrightarrow> distinct (map fst (es_socketMap s))
    \<and> (\<forall>k a. (k, a) \<in> set (es_socketMap s) \<longrightarrow> a < length (es_heap s) \<and> sb_socket (es_heap s ! a) = k)
    \<and> (\<forall>a < length (es_heap s). distinct (names_of s a))
    \<and> distinct (es_subjectMap s)
    \<and> (\<forall>n a. (n, a) \<in> set (es_subjectMap s) \<longleftrightarrow> a \<in> snd ` set (es_socketMap s) \<and> n \<in> set (names_of s a))"

lemma tables_okD:
  assumes "tables_ok s"
  shows "distinct (map fst (es_socketMap s))" "a < length (es_heap s) \<Longrightarrow> distinct (names_of s a)" "distinct (es_subjectMap s)"
    "(n, a) \<in> set (es_subjectMap s) \<longleftrightarrow> a \<in> snd ` set (es_socketMap s) \<and> n \<in> set (names_of s a)"
  using assms unfolding tables_ok_def by simp_all

text \<open>What the loops over subjects leave alone; the delegates may have called \<open>notify\<close> meanwhile.\<close>

definition same_outside :: "event_service \<Rightarrow> event_service \<Rightarrow> bool" where
  "same_outside s s' \<longleftrightarrow> es_socketMap s' = es_socketMap s \<and> es_socketList s' = es_socketList s
    \<and> es_workerQueue s' = es_workerQueue s \<and> es_busy s' = es_busy s \<and> es_sockets s' = es_sockets s \<and> es_eventMap s' = es_eventMap s
    \<and> length (es_heap s') = length (es_heap s) \<and> map sb_socket (es_heap s') = map sb_socket (es_heap s)
    \<and> (\<exists>calls. es_mainQueue s' = es_mainQueue s @ map (\<lambda>(n, d). Notify n d) calls)"

lemma same_outside_refl [simp]: "same_outside s s"
  by (simp add: same_outside_def)

lemma same_outside_trans [trans]: "same_outside s t \<Longrightarrow> same_outside t u \<Longrightarrow> same_outside s u"
  unfolding same_outside_def by (metis append.assoc map_append)

definition quiet :: "delegates \<Rightarrow> bool" where
  "quiet D \<longleftrightarrow> (\<forall>f. snd (D f) = Inr ())"

lemma fire_result:
  assumes "fire D f s = (s', r)"
  shows "same_outside s s'" "es_heap s' = es_heap s" "es_subjectMap s' = es_subjectMap s" "quiet D \<Longrightarrow> r = Inr ()"
proof -
  obtain calls where D: "D f = (calls, r)" using assms by (cases "D f") (auto simp: fire_def)
  then have s': "s' = s\<lparr>es_fired := es_fired s @ [f], es_mainQueue := es_mainQueue s @ map (\<lambda>(n, d). Notify n d) calls\<rparr>"
    using assms by (simp add: fire_def)
  show "same_outside s s'" by (auto simp: s' same_outside_def)
  show "es_heap s' = es_heap s" "es_subjectMap s' = es_subjectMap s" by (simp_all add: s')
  show "r = Inr ()" if "quiet D"
    using that D by (metis quiet_def snd_conv)
qed

lemma tables_ok_cong:
  "es_socketMap s' = es_socketMap s \<Longrightarrow> es_heap s' = es_heap s \<Longrightarrow> es_subjectMap s' = es_subjectMap s \<Longrightarrow> tables_ok s' = tables_ok s"
  by (simp add: tables_ok_def)

lemma fire_tables: "fire D f s = (s', r) \<Longrightarrow> tables_ok s \<Longrightarrow> tables_ok s'"
  using fire_result(1-3) [of D f s s' r] tables_ok_cong [of s' s] by (simp add: same_outside_def)

lemma socket_address:
  assumes "tables_ok s" "(k, a) \<in> set (es_socketMap s)"
  shows "a < length (es_heap s)" "sb_socket (es_heap s ! a) = k" "map_of (es_socketMap s) k = Some a"
  using assms unfolding tables_ok_def by auto

lemma address_of:
  assumes "tables_ok s" "map_of (es_socketMap s) k = Some a"
  shows "a < length (es_heap s)" "sb_socket (es_heap s ! a) = k" "a \<in> snd ` set (es_socketMap s)"
  using socket_address [OF assms(1) map_of_SomeD [OF assms(2)]] map_of_SomeD [OF assms(2)] by (simp_all add: image_iff) (metis snd_conv)

lemma names_set_names:
  "a < length (es_heap s) \<Longrightarrow> names_of (set_names a ns s) b = (if b = a then ns else names_of s b)"
  by (simp add: set_names_def nth_list_update)

lemma set_names_rest [simp]:
  "es_socketMap (set_names a ns s) = es_socketMap s" "es_subjectMap (set_names a ns s) = es_subjectMap s"
  "length (es_heap (set_names a ns s)) = length (es_heap s)"
  "map sb_socket (es_heap (set_names a ns s)) = map sb_socket (es_heap s)"
proof -
  show "map sb_socket (es_heap (set_names a ns s)) = map sb_socket (es_heap s)"
    by (cases "a < length (es_heap s)") (simp_all add: set_names_def map_update list_update_same_conv list_update_beyond)
qed (simp_all add: set_names_def)

lemma same_socket:
  "map sb_socket h' = map sb_socket h \<Longrightarrow> b < length h \<Longrightarrow> sb_socket (h' ! b) = sb_socket (h ! b)"
  by (metis length_map nth_map)

lemma same_outside_names: "same_outside s (set_names a ns s)"
  by (simp add: same_outside_def) (simp add: set_names_def)

lemma same_outside_map: "same_outside s (s\<lparr>es_subjectMap := m\<rparr>)"
  by (simp add: same_outside_def)

text \<open>Adding a subject to a subscriber and to the map, and taking it out again.\<close>

lemma tables_subscribe:
  assumes ok: "tables_ok s" and a: "a < length (es_heap s)" "a \<in> snd ` set (es_socketMap s)" and n: "n \<notin> set (names_of s a)"
    and s1: "s1 = set_names a (insort n (names_of s a)) s"
  shows "tables_ok (s1\<lparr>es_subjectMap := es_subjectMap s1 @ [(n, a)]\<rparr>)" (is "tables_ok ?t")
proof -
  have names: "names_of ?t b = (if b = a then insort n (names_of s a) else names_of s b)" for b
    using names_set_names [OF a(1)] by (simp add: s1)
  have heap: "es_socketMap ?t = es_socketMap s" "length (es_heap ?t) = length (es_heap s)"
    "b < length (es_heap s) \<Longrightarrow> sb_socket (es_heap ?t ! b) = sb_socket (es_heap s ! b)" for b
    by (simp_all add: s1 same_socket [OF set_names_rest(4)])
  have subj: "es_subjectMap ?t = es_subjectMap s @ [(n, a)]"
    by (simp add: s1)
  have "(n, a) \<notin> set (es_subjectMap s)"
    using n by (simp add: tables_okD(4) [OF ok])
  then have "distinct (es_subjectMap ?t)"
    by (simp add: subj tables_okD(3) [OF ok])
  moreover have "distinct (names_of ?t b)" if "b < length (es_heap ?t)" for b
    using that n tables_okD(2) [OF ok, of b] unfolding names heap by (cases "b = a") (simp_all add: distinct_insort)
  moreover have "(m, b) \<in> set (es_subjectMap ?t) \<longleftrightarrow> b \<in> snd ` set (es_socketMap ?t) \<and> m \<in> set (names_of ?t b)" for m b
    unfolding subj heap names using a(2) by (cases "b = a") (simp_all add: set_insort_key tables_okD(4) [OF ok])
  moreover have "b < length (es_heap ?t) \<and> sb_socket (es_heap ?t ! b) = k" if "(k, b) \<in> set (es_socketMap ?t)" for k b
    using socket_address(1,2) [OF ok, of k b] that unfolding heap by (simp only: heap)
  ultimately show ?thesis
    unfolding tables_ok_def by (simp only: heap(1) tables_okD(1) [OF ok] simp_thms) blast
qed

lemma tables_unsubscribe:
  assumes ok: "tables_ok s" and a: "a < length (es_heap s)" "a \<in> snd ` set (es_socketMap s)" and n: "n \<in> set (names_of s a)"
    and s1: "s1 = set_names a (remove1 n (names_of s a)) s"
  shows "(n, a) \<in> set (es_subjectMap s1)" "tables_ok (s1\<lparr>es_subjectMap := remove1 (n, a) (es_subjectMap s1)\<rparr>)" (is "tables_ok ?t")
proof -
  have names: "names_of ?t b = (if b = a then remove1 n (names_of s a) else names_of s b)" for b
    using names_set_names [OF a(1)] by (simp add: s1)
  have heap: "es_socketMap ?t = es_socketMap s" "length (es_heap ?t) = length (es_heap s)"
    "b < length (es_heap s) \<Longrightarrow> sb_socket (es_heap ?t ! b) = sb_socket (es_heap s ! b)" for b
    by (simp_all add: s1 same_socket [OF set_names_rest(4)])
  have subj: "es_subjectMap ?t = remove1 (n, a) (es_subjectMap s)"
    by (simp add: s1)
  show "(n, a) \<in> set (es_subjectMap s1)"
    using a(2) n by (simp add: s1 tables_okD(4) [OF ok])
  have d: "distinct (names_of s a)" "distinct (es_subjectMap s)"
    by (simp_all add: tables_okD(2,3) [OF ok] a)
  then have "distinct (es_subjectMap ?t)"
    by (simp add: subj distinct_remove1)
  moreover have "distinct (names_of ?t b)" if "b < length (es_heap ?t)" for b
    using that d tables_okD(2) [OF ok, of b] unfolding names heap by (simp add: distinct_remove1)
  moreover have "(m, b) \<in> set (es_subjectMap ?t) \<longleftrightarrow> b \<in> snd ` set (es_socketMap ?t) \<and> m \<in> set (names_of ?t b)" for m b
    unfolding subj heap names using a(2) d by (cases "b = a") (auto simp: tables_okD(4) [OF ok])
  moreover have "b < length (es_heap ?t) \<and> sb_socket (es_heap ?t ! b) = k" if "(k, b) \<in> set (es_socketMap ?t)" for k b
    using socket_address(1,2) [OF ok, of k b] that unfolding heap by (simp only: heap)
  ultimately show "tables_ok ?t"
    unfolding tables_ok_def by (simp only: heap(1) tables_okD(1) [OF ok] simp_thms) blast
qed

lemma loop_names_step:
  assumes "fire D f (s\<lparr>es_subjectMap := m\<rparr>) = (s2, r)" "s = set_names a ns s0" "a < length (es_heap s0)"
  shows "same_outside s0 s2" "length (es_heap s2) = length (es_heap s0)" "es_socketMap s2 = es_socketMap s0"
    "names_of s2 b = (if b = a then ns else names_of s0 b)"
proof -
  note f = fire_result(1-3) [OF assms(1)]
  have "same_outside s0 s" unfolding assms(2) by (rule same_outside_names)
  also have "same_outside s (s\<lparr>es_subjectMap := m\<rparr>)" by (rule same_outside_map)
  also note f(1)
  finally show so: "same_outside s0 s2" .
  from so show "length (es_heap s2) = length (es_heap s0)" "es_socketMap s2 = es_socketMap s0" by (simp_all add: same_outside_def)
  show "names_of s2 b = (if b = a then ns else names_of s0 b)"
    using f(2) names_set_names [OF assms(3)] by (simp add: assms(2))
qed

lemma subscribe_loop_result:
  assumes "subscribe_loop D a ns s = (s', r)" "tables_ok s" "a < length (es_heap s)" "a \<in> snd ` set (es_socketMap s)"
  shows "same_outside s s' \<and> tables_ok s' \<and> (\<forall>b. b \<noteq> a \<longrightarrow> names_of s' b = names_of s b)
    \<and> (r = Inr () \<longrightarrow> set (names_of s' a) = set (names_of s a) \<union> set ns) \<and> (quiet D \<longrightarrow> r = Inr ())"
  using assms
proof (induction ns arbitrary: s)
  case (Cons n ns)
  show ?case
  proof (cases "n \<in> set (names_of s a)")
    case True
    then have "subscribe_loop D a ns s = (s', r)" using Cons.prems(1) by simp
    from Cons.IH [OF this Cons.prems(2-4)] True show ?thesis by auto
  next
    case False
    define s1 where "s1 = set_names a (insort n (names_of s a)) s"
    obtain s2 r2 where f: "fire D (SubscriptionRequest n) (s1\<lparr>es_subjectMap := es_subjectMap s1 @ [(n, a)]\<rparr>) = (s2, r2)"
      by (meson surj_pair)
    note step = loop_names_step [OF f s1_def Cons.prems(3)]
    have ok: "tables_ok s2"
      using fire_tables [OF f tables_subscribe [OF Cons.prems(2-4) False s1_def]] .
    have run: "subscribe_loop D a (n # ns) s = (case r2 of Inl e \<Rightarrow> (s2, Inl e) | Inr _ \<Rightarrow> subscribe_loop D a ns s2)"
      using False f by (simp add: s1_def Let_def)
    show ?thesis
    proof (cases r2)
      case (Inl e)
      with run Cons.prems(1) have "s' = s2" "r = Inl e" by simp_all
      with ok step Inl fire_result(4) [OF f] show ?thesis by auto
    next
      case (Inr u)
      with run Cons.prems(1) have "subscribe_loop D a ns s2 = (s', r)" by simp
      from Cons.IH [OF this ok] have ih: "same_outside s2 s'" "tables_ok s'" "\<forall>b. b \<noteq> a \<longrightarrow> names_of s' b = names_of s2 b"
        "r = Inr () \<longrightarrow> set (names_of s' a) = set (names_of s2 a) \<union> set ns" "quiet D \<longrightarrow> r = Inr ()"
        using Cons.prems(3,4) by (simp_all add: step(2,3))
      show ?thesis
        using same_outside_trans [OF step(1) ih(1)] ih(2-5) step(4) by (auto simp: set_insort_key)
    qed
  qed
qed simp

lemma unsubscribe_loop_result:
  assumes "unsubscribe_loop D a ns s = (s', r)" "tables_ok s" "a < length (es_heap s)" "a \<in> snd ` set (es_socketMap s)"
  shows "same_outside s s' \<and> tables_ok s' \<and> (\<forall>b. b \<noteq> a \<longrightarrow> names_of s' b = names_of s b)
    \<and> (r = Inr () \<longrightarrow> set (names_of s' a) = set (names_of s a) - set ns) \<and> (quiet D \<longrightarrow> r = Inr ())"
  using assms
proof (induction ns arbitrary: s)
  case (Cons n ns)
  show ?case
  proof (cases "n \<in> set (names_of s a)")
    case False
    then have "unsubscribe_loop D a ns s = (s', r)" using Cons.prems(1) by simp
    from Cons.IH [OF this Cons.prems(2-4)] False show ?thesis by auto
  next
    case True
    define s1 where "s1 = set_names a (remove1 n (names_of s a)) s"
    obtain s2 r2 where f: "fire D (UnsubscriptionRequest n) (s1\<lparr>es_subjectMap := remove1 (n, a) (es_subjectMap s1)\<rparr>) = (s2, r2)"
      by (meson surj_pair)
    note step = loop_names_step [OF f s1_def Cons.prems(3)]
    note unsub = tables_unsubscribe [OF Cons.prems(2-4) True s1_def]
    have ok: "tables_ok s2"
      using fire_tables [OF f unsub(2)] .
    have run: "unsubscribe_loop D a (n # ns) s = (case r2 of Inl e \<Rightarrow> (s2, Inl e) | Inr _ \<Rightarrow> unsubscribe_loop D a ns s2)"
      using True f unsub(1) by (simp add: s1_def Let_def)
    have names: "set (names_of s2 a) = set (names_of s a) - {n}"
      using step(4) [of a] tables_okD(2) [OF Cons.prems(2,3)] by simp
    show ?thesis
    proof (cases r2)
      case (Inl e)
      with run Cons.prems(1) have "s' = s2" "r = Inl e" by simp_all
      with ok step Inl fire_result(4) [OF f] show ?thesis by auto
    next
      case (Inr u)
      with run Cons.prems(1) have "unsubscribe_loop D a ns s2 = (s', r)" by simp
      from Cons.IH [OF this ok] have ih: "same_outside s2 s'" "tables_ok s'" "\<forall>b. b \<noteq> a \<longrightarrow> names_of s' b = names_of s2 b"
        "r = Inr () \<longrightarrow> set (names_of s' a) = set (names_of s2 a) - set ns" "quiet D \<longrightarrow> r = Inr ()"
        using Cons.prems(3,4) by (simp_all add: step(2,3))
      show ?thesis
        using same_outside_trans [OF step(1) ih(1)] ih(2-5) step(4) names by auto
    qed
  qed
qed simp

end
