(* ===== verification/Web_Event_Facts.thy ===== *)
theory Web_Event_Facts
  imports Web_Event
begin

text \<open>
  What the event service of \<open>Web_Event\<close> guarantees. The tables of the main thread implement a map from sockets to sets of subjects,
  and a notification is sent to every socket once for each of its subjects that is the subject notified or one above it. No
  connected socket is forgotten while it goes from thread to thread: it is watched, with a worker, or on its way back. The
  messages the service prints are those it reads. At the end are two things the code does not mean to do.
\<close>

section \<open>Subjects above a subject\<close>

definition covers :: "string \<Rightarrow> string \<Rightarrow> bool" where
  "covers n name \<longleftrightarrow> n = name \<or> (\<exists>t. name = n @ ''.'' @ t)"

function levels :: "string \<Rightarrow> string list" where
  "levels l = l # (case parent_subject l of None \<Rightarrow> [] | Some p \<Rightarrow> levels p)"
  by pat_completeness auto
termination by (relation "measure length") (auto dest: parent_shorter)

declare levels.simps [simp del]

lemma covers_parent: "covers n l \<longleftrightarrow> n = l \<or> (\<exists>p. parent_subject l = Some p \<and> covers n p)"
proof
  assume "covers n l"
  then consider "n = l" | t where "l = n @ CHR ''.'' # t" by (auto simp: covers_def)
  then show "n = l \<or> (\<exists>p. parent_subject l = Some p \<and> covers n p)"
  proof cases
    case (2 t)
    show ?thesis
    proof (cases "CHR ''.'' \<in> set t")
      case True
      then obtain t1 u where t: "t = t1 @ CHR ''.'' # u" "CHR ''.'' \<notin> set u" by (metis split_list_last)
      then have "parent_subject l = Some (n @ CHR ''.'' # t1)"
        using parent_subject_append [of u "n @ CHR ''.'' # t1"] 2 by simp
      then show ?thesis by (auto simp: covers_def)
    qed (auto simp: 2 covers_def)
  qed simp
next
  assume "n = l \<or> (\<exists>p. parent_subject l = Some p \<and> covers n p)"
  then show "covers n l"
  proof (elim disjE exE conjE)
    fix p assume p: "parent_subject l = Some p" "covers n p"
    then obtain u where "l = p @ CHR ''.'' # u" by (metis parent_subject_Some)
    with p(2) show "covers n l" by (auto simp: covers_def)
  qed (simp add: covers_def)
qed

lemma levels_covers: "set (levels l) = {n. covers n l}"
proof (induction l rule: levels.induct)
  case (1 l)
  show ?case
  proof (cases "parent_subject l")
    case None
    then show ?thesis by (subst levels.simps) (auto simp: covers_parent [of _ l])
  next
    case (Some p)
    with 1 show ?thesis by (subst levels.simps) (auto simp: covers_parent [of _ l])
  qed
qed

lemma levels_length: "n \<in> set (levels l) \<Longrightarrow> length n \<le> length l"
  by (auto simp: levels_covers covers_def)

lemma levels_distinct: "distinct (levels l)"
proof (induction l rule: levels.induct)
  case (1 l)
  show ?case
  proof (cases "parent_subject l")
    case (Some p)
    have "l \<notin> set (levels p)"
      using levels_length [of l p] parent_shorter [OF Some] by auto
    with 1 Some show ?thesis by (subst levels.simps) simp
  qed (subst levels.simps, simp)
qed

section \<open>Subscriptions\<close>

definition subscriptions :: "event_service \<Rightarrow> nat \<Rightarrow> string set option" where
  "subscriptions s k = map_option (\<lambda>a. set (names_of s a)) (map_of (es_socketMap s) k)"

lemma subscriptions_update:
  assumes "tables_ok s" "map_of (es_socketMap s) k = Some a" "es_socketMap s' = es_socketMap s"
    and "\<forall>b. b \<noteq> a \<longrightarrow> names_of s' b = names_of s b"
  shows "subscriptions s' = (subscriptions s)(k := Some (set (names_of s' a)))"
proof
  fix k'
  show "subscriptions s' k' = ((subscriptions s)(k := Some (set (names_of s' a)))) k'"
  proof (cases "k' = k")
    case False
    show ?thesis
    proof (cases "map_of (es_socketMap s) k'")
      case (Some b)
      then have "b \<noteq> a" using address_of(2) [OF assms(1)] assms(2) False by metis
      with Some assms(3,4) False show ?thesis by (simp add: subscriptions_def)
    qed (use False assms(3) in \<open>simp add: subscriptions_def\<close>)
  qed (use assms(2,3) in \<open>simp add: subscriptions_def\<close>)
qed

lemma subscribeImpl_result:
  assumes "subscribeImpl D k ns s = (s', r)" "tables_ok s"
  shows "same_outside s s'" "tables_ok s'" "quiet D \<Longrightarrow> r = Inr ()"
    "r = Inr () \<Longrightarrow> subscriptions s' = (case subscriptions s k of None \<Rightarrow> subscriptions s | Some S \<Rightarrow> (subscriptions s)(k := Some (S \<union> set ns)))"
proof -
  have "same_outside s s' \<and> tables_ok s' \<and> (quiet D \<longrightarrow> r = Inr ()) \<and>
    (r = Inr () \<longrightarrow> subscriptions s' = (case subscriptions s k of None \<Rightarrow> subscriptions s | Some S \<Rightarrow> (subscriptions s)(k := Some (S \<union> set ns))))"
  proof (cases "map_of (es_socketMap s) k")
    case None
    then show ?thesis using assms by (simp add: subscribeImpl_def subscriptions_def)
  next
    case (Some a)
    then have run: "subscribe_loop D a ns s = (s', r)" using assms by (simp add: subscribeImpl_def)
    note a = address_of [OF assms(2) Some]
    note res = subscribe_loop_result [OF run assms(2) a(1,3)]
    then have "subscriptions s' = (subscriptions s)(k := Some (set (names_of s' a)))"
      by (intro subscriptions_update [OF assms(2) Some]) (simp_all add: same_outside_def)
    with res Some show ?thesis by (simp add: subscriptions_def)
  qed
  then show "same_outside s s'" "tables_ok s'" "quiet D \<Longrightarrow> r = Inr ()"
    "r = Inr () \<Longrightarrow> subscriptions s' = (case subscriptions s k of None \<Rightarrow> subscriptions s | Some S \<Rightarrow> (subscriptions s)(k := Some (S \<union> set ns)))"
    by simp_all
qed

lemma unsubscribeImpl_result:
  assumes "unsubscribeImpl D k ns s = (s', r)" "tables_ok s"
  shows "same_outside s s'" "tables_ok s'" "quiet D \<Longrightarrow> r = Inr ()"
    "r = Inr () \<Longrightarrow> subscriptions s' = (case subscriptions s k of None \<Rightarrow> subscriptions s
       | Some S \<Rightarrow> (subscriptions s)(k := Some (if ''*'' \<in> set ns then {} else S - set ns)))"
proof -
  have "same_outside s s' \<and> tables_ok s' \<and> (quiet D \<longrightarrow> r = Inr ()) \<and>
    (r = Inr () \<longrightarrow> subscriptions s' = (case subscriptions s k of None \<Rightarrow> subscriptions s
       | Some S \<Rightarrow> (subscriptions s)(k := Some (if ''*'' \<in> set ns then {} else S - set ns))))"
  proof (cases "map_of (es_socketMap s) k")
    case None
    then show ?thesis using assms by (simp add: unsubscribeImpl_def subscriptions_def)
  next
    case (Some a)
    then have run: "unsubscribe_loop D a (if ''*'' \<in> set ns then names_of s a else ns) s = (s', r)"
      using assms by (simp add: unsubscribeImpl_def)
    note a = address_of [OF assms(2) Some]
    note res = unsubscribe_loop_result [OF run assms(2) a(1,3)]
    then have "subscriptions s' = (subscriptions s)(k := Some (set (names_of s' a)))"
      by (intro subscriptions_update [OF assms(2) Some]) (simp_all add: same_outside_def)
    with res Some show ?thesis by (simp add: subscriptions_def)
  qed
  then show "same_outside s s'" "tables_ok s'" "quiet D \<Longrightarrow> r = Inr ()"
    "r = Inr () \<Longrightarrow> subscriptions s' = (case subscriptions s k of None \<Rightarrow> subscriptions s
       | Some S \<Rightarrow> (subscriptions s)(k := Some (if ''*'' \<in> set ns then {} else S - set ns)))"
    by simp_all
qed

text \<open>A subscriber is removed with all its subjects, unless a delegate throws: then it stays connected.\<close>

lemma map_of_remove: "map_of (filter (\<lambda>e. fst e \<noteq> k) m) = (map_of m)(k := None)"
  by (induction m) (auto simp: fun_eq_iff)

lemma tables_remove:
  assumes ok: "tables_ok s" and k: "map_of (es_socketMap s) k = Some a" and a: "names_of s a = []"
  shows "tables_ok (s\<lparr>es_socketMap := filter (\<lambda>e. fst e \<noteq> k) (es_socketMap s)\<rparr>)" (is "tables_ok ?t")
proof -
  have "distinct (map fst (filter (\<lambda>e. fst e \<noteq> k) (es_socketMap s)))"
    using tables_okD(1) [OF ok] by (simp add: distinct_map_filter)
  moreover have "b \<in> snd ` set (filter (\<lambda>e. fst e \<noteq> k) (es_socketMap s)) \<longleftrightarrow> b \<in> snd ` set (es_socketMap s)"
    if "names_of s b \<noteq> []" for b
  proof -
    have "fst e \<noteq> k" if "e \<in> set (es_socketMap s)" "b = snd e" for e
    proof
      assume "fst e = k"
      then have "map_of (es_socketMap s) k = Some b"
        using that by (cases e) (auto dest: socket_address(3) [OF ok])
      with k a \<open>names_of s b \<noteq> []\<close> show False by simp
    qed
    then show ?thesis by auto
  qed
  then have "(n, b) \<in> set (es_subjectMap s) \<longleftrightarrow>
      b \<in> snd ` set (filter (\<lambda>e. fst e \<noteq> k) (es_socketMap s)) \<and> n \<in> set (names_of s b)" for n b
    unfolding tables_okD(4) [OF ok] by (metis list.set(1) empty_iff)
  moreover have "b < length (es_heap s) \<and> sb_socket (es_heap s ! b) = k'" if "(k', b) \<in> set (filter (\<lambda>e. fst e \<noteq> k) (es_socketMap s))" for k' b
    using that socket_address(1,2) [OF ok, of k' b] by auto
  ultimately show ?thesis
    using tables_okD(2,3) [OF ok] unfolding tables_ok_def by (simp del: set_filter)
qed

lemma removeSubscriberImpl_result:
  assumes run: "removeSubscriberImpl D k c s = (s', r)" and ok: "tables_ok s"
  obtains
    (same) "same_outside s s'" "tables_ok s'" "r \<noteq> Inr () \<longrightarrow> \<not> quiet D" "r = Inr () \<longrightarrow> s' = s \<and> map_of (es_socketMap s) k = None"
  | (removed) s1 where "same_outside s s1" "r = Inr ()" "tables_ok s'" "subscriptions s' = (subscriptions s)(k := None)"
      "s' = enqueue_worker (Shutdown k 1000 [] c) (unwatchSocketImpl k (s1\<lparr>es_socketMap := filter (\<lambda>e. fst e \<noteq> k) (es_socketMap s1)\<rparr>))"
proof (cases "map_of (es_socketMap s) k")
  case None
  then have "s' = s" "r = Inr ()" using run by (simp_all add: removeSubscriberImpl_def)
  with ok None show ?thesis by (intro same) simp_all
next
  case (Some a)
  obtain s1 r1 where u: "unsubscribeImpl D k (names_of s a) s = (s1, r1)" by (meson surj_pair)
  note res = unsubscribeImpl_result [OF u ok]
  show ?thesis
  proof (cases r1)
    case (Inl e)
    then have "s' = s1" "r = Inl e" using run Some u by (simp_all add: removeSubscriberImpl_def)
    with res(1-3) Inl show ?thesis by (intro same) auto
  next
    case (Inr v)
    have k1: "map_of (es_socketMap s1) k = Some a" and m1: "es_socketMap s1 = es_socketMap s"
      using res(1) Some by (simp_all add: same_outside_def)
    have subs: "subscriptions s1 = (subscriptions s)(k := Some {})"
      using res(4) Inr Some by (simp add: subscriptions_def)
    then have "subscriptions s1 k = Some {}" by simp
    then have empty: "names_of s1 a = []" by (simp add: subscriptions_def k1)
    define s2 where "s2 = s1\<lparr>es_socketMap := filter (\<lambda>e. fst e \<noteq> k) (es_socketMap s1)\<rparr>"
    have s': "s' = enqueue_worker (Shutdown k 1000 [] c) (unwatchSocketImpl k s2)" and r: "r = Inr ()"
      using run Some u Inr by (simp_all add: removeSubscriberImpl_def s2_def Let_def)
    have ok2: "tables_ok s2" unfolding s2_def by (rule tables_remove [OF res(2) k1 empty])
    have "tables_ok s'"
      using ok2 tables_ok_cong [of s' s2] by (simp add: s' enqueue_worker_def unwatchSocketImpl_def)
    moreover have "subscriptions s' = (subscriptions s)(k := None)"
    proof
      fix k'
      have "subscriptions s' k' = ((subscriptions s1)(k := None)) k'"
        by (simp add: subscriptions_def s' s2_def enqueue_worker_def unwatchSocketImpl_def map_of_remove)
      with subs show "subscriptions s' k' = ((subscriptions s)(k := None)) k'" by simp
    qed
    ultimately show ?thesis
      using removed [OF res(1) r] s' by (simp add: s2_def)
  qed
qed

lemma tables_add:
  assumes ok: "tables_ok s" and k: "k \<notin> connected s"
  shows "tables_ok (addSubscriberImpl k s)" (is "tables_ok ?t") "subscriptions (addSubscriberImpl k s) = (subscriptions s)(k := Some {})"
proof -
  have m: "filter (\<lambda>e. fst e \<noteq> k) (es_socketMap s) = es_socketMap s"
    using k by (intro filter_True) (force simp: connected_def)
  have sm: "es_socketMap ?t = (k, length (es_heap s)) # es_socketMap s" "es_subjectMap ?t = es_subjectMap s"
    "es_heap ?t = es_heap s @ [\<lparr>sb_socket = k, sb_subjectNames = []\<rparr>]"
    by (simp_all add: addSubscriberImpl_def watchSocketImpl_def m)
  have old: "b < length (es_heap s)" if "(k', b) \<in> set (es_socketMap s)" for k' b
    using socket_address(1) [OF ok that] .
  have "distinct (names_of ?t b)" if "b < length (es_heap ?t)" for b
    using that tables_okD(2) [OF ok] by (auto simp: sm nth_append)
  moreover have "(n, b) \<in> set (es_subjectMap ?t) \<longleftrightarrow> b \<in> snd ` set (es_socketMap ?t) \<and> n \<in> set (names_of ?t b)" for n b
  proof (cases "b < length (es_heap s)")
    case True
    then show ?thesis by (simp add: sm nth_append tables_okD(4) [OF ok])
  next
    case False
    then have "b \<notin> snd ` set (es_socketMap s)" using old by force
    with False show ?thesis by (simp add: sm nth_append tables_okD(4) [OF ok])
  qed
  moreover have "b < length (es_heap ?t) \<and> sb_socket (es_heap ?t ! b) = k'" if "(k', b) \<in> set (es_socketMap ?t)" for k' b
    using that socket_address(1,2) [OF ok, of k' b] old [of k' b] by (auto simp: sm nth_append)
  moreover have "distinct (map fst (es_socketMap ?t))"
    using tables_okD(1) [OF ok] k by (simp add: sm connected_def)
  ultimately show "tables_ok ?t"
    using tables_okD(3) [OF ok] unfolding tables_ok_def by (simp add: sm(2))
  show "subscriptions ?t = (subscriptions s)(k := Some {})"
  proof
    fix k'
    show "subscriptions ?t k' = ((subscriptions s)(k := Some {})) k'"
    proof (cases "map_of (es_socketMap s) k'")
      case (Some b)
      then have "b < length (es_heap s)" using old map_of_SomeD by metis
      moreover have "k' \<noteq> k" using Some k map_of_SomeD by (force simp: connected_def)
      ultimately show ?thesis using Some by (simp add: subscriptions_def sm nth_append)
    qed (simp add: subscriptions_def sm nth_append)
  qed
qed

section \<open>Delivery of a notification\<close>

lemma fire_all_result:
  assumes "fire_all D fs s = (s', r)"
  shows "same_outside s s' \<and> es_heap s' = es_heap s \<and> es_subjectMap s' = es_subjectMap s \<and> (quiet D \<longrightarrow> r = Inr ())"
  using assms
proof (induction fs arbitrary: s)
  case (Cons f fs)
  obtain s1 r1 where f: "fire D f s = (s1, r1)" by (meson surj_pair)
  note one = fire_result [OF f]
  show ?case
  proof (cases r1)
    case (Inl e)
    with f Cons.prems one show ?thesis by auto
  next
    case (Inr u)
    with f Cons.prems have "fire_all D fs s1 = (s', r)" by simp
    from Cons.IH [OF this] one same_outside_trans [OF one(1)] show ?thesis by auto
  qed
qed simp

text \<open>The tasks for one level of the subject.\<close>

definition level_sends :: "string \<Rightarrow> event_service \<Rightarrow> string \<Rightarrow> task list" where
  "level_sends message s level = map (\<lambda>a. Send (sb_socket (es_heap s ! a)) message) (equal_range level s)"

lemma fold_enqueue_worker: "fold (\<lambda>a. enqueue_worker (f a)) as s = s\<lparr>es_workerQueue := es_workerQueue s @ map f as\<rparr>"
  by (induction as arbitrary: s) (simp_all add: enqueue_worker_def)

text \<open>All that \<open>notify_levels\<close> does is to append tasks that send; if no delegate throws, those of all levels.\<close>

lemma notify_levels_result:
  assumes "notify_levels D name data level s = (s', r)"
  shows "\<exists>sent. same_outside (s\<lparr>es_workerQueue := es_workerQueue s @ sent\<rparr>) s' \<and> es_heap s' = es_heap s
    \<and> es_subjectMap s' = es_subjectMap s \<and> (\<forall>t \<in> set sent. \<exists>k m. t = Send k m)
    \<and> (quiet D \<longrightarrow> r = Inr () \<and> sent = concat (map (level_sends (notify_message name data) s) (levels level)))"
  using assms
proof (induction level arbitrary: s rule: levels.induct)
  case (1 level)
  define here where "here = level_sends (notify_message name data) s level"
  define s1 where "s1 = s\<lparr>es_workerQueue := es_workerQueue s @ here\<rparr>"
  obtain s2 r2 where f: "fire_all D (map (\<lambda>l. SubjectNotified l name data) (filter (\<lambda>l. l = level) (es_eventMap s1))) s1 = (s2, r2)"
    by (meson surj_pair)
  note fires = fire_all_result [OF f]
  have run: "notify_levels D name data level s = (case r2 of Inl e \<Rightarrow> (s2, Inl e) | Inr _ \<Rightarrow>
      (case parent_subject level of None \<Rightarrow> (s2, Inr ()) | Some p \<Rightarrow> notify_levels D name data p s2))"
    using f by (subst notify_levels.simps) (simp add: fold_enqueue_worker s1_def here_def level_sends_def Let_def)
  have here: "\<forall>t \<in> set here. \<exists>k m. t = Send k m" by (auto simp: here_def level_sends_def)
  have stop: ?case if "s' = s2" "r = r2" "r2 = Inr () \<longrightarrow> parent_subject level = None"
    using that fires here by (intro exI [of _ here]) (auto simp: s1_def here_def levels.simps [of level])
  show ?case
  proof (cases r2)
    case (Inl e)
    with run "1.prems" stop show ?thesis by simp
  next
    case (Inr u)
    show ?thesis
    proof (cases "parent_subject level")
      case None
      with Inr run "1.prems" stop show ?thesis by simp
    next
      case (Some p)
      with Inr run "1.prems" have "notify_levels D name data p s2 = (s', r)" by simp
      from "1.IH" [OF Some this] obtain sent where
        ih: "same_outside (s2\<lparr>es_workerQueue := es_workerQueue s2 @ sent\<rparr>) s'" "es_heap s' = es_heap s2" "es_subjectMap s' = es_subjectMap s2"
          "\<forall>t \<in> set sent. \<exists>k m. t = Send k m" 
          "quiet D \<longrightarrow> r = Inr () \<and> sent = concat (map (level_sends (notify_message name data) s2) (levels p))"
        by auto
      have same: "level_sends m s2 = level_sends m s" for m
        using fires by (simp add: level_sends_def equal_range_def s1_def fun_eq_iff)
      have "same_outside (s\<lparr>es_workerQueue := es_workerQueue s @ (here @ sent)\<rparr>) (s2\<lparr>es_workerQueue := es_workerQueue s2 @ sent\<rparr>)"
        using fires by (simp add: same_outside_def s1_def)
      from same_outside_trans [OF this ih(1)] ih(2-5) here fires Some show ?thesis
        by (intro exI [of _ "here @ sent"]) (auto simp: s1_def here_def same levels.simps [of level])
    qed
  qed
qed

lemma notifyImpl_result:
  assumes "notifyImpl D name data s = (s', r)"
  shows "\<exists>sent. same_outside (s\<lparr>es_workerQueue := es_workerQueue s @ sent\<rparr>) s' \<and> es_heap s' = es_heap s
    \<and> es_subjectMap s' = es_subjectMap s \<and> (\<forall>t \<in> set sent. \<exists>k m. t = Send k m)
    \<and> (quiet D \<longrightarrow> r = Inr () \<and> sent = concat (map (level_sends (notify_message name data) s) (levels name)))"
proof -
  obtain s1 r1 where f: "fire D (NotificationSent name data) s = (s1, r1)" by (meson surj_pair)
  note one = fire_result [OF f]
  show ?thesis
  proof (cases r1)
    case (Inl e)
    with assms f one show ?thesis by (intro exI [of _ "[]"]) (auto simp: notifyImpl_def)
  next
    case (Inr u)
    with assms f have "notify_levels D name data name s1 = (s', r)" by (simp add: notifyImpl_def)
    from notify_levels_result [OF this] obtain sent where
      l: "same_outside (s1\<lparr>es_workerQueue := es_workerQueue s1 @ sent\<rparr>) s'" "es_heap s' = es_heap s1" "es_subjectMap s' = es_subjectMap s1"
        "\<forall>t \<in> set sent. \<exists>k m. t = Send k m" 
        "quiet D \<longrightarrow> r = Inr () \<and> sent = concat (map (level_sends (notify_message name data) s1) (levels name))"
      by auto
    have same: "level_sends m s1 = level_sends m s" for m
      using one by (simp add: level_sends_def equal_range_def fun_eq_iff)
    have "same_outside (s\<lparr>es_workerQueue := es_workerQueue s @ sent\<rparr>) (s1\<lparr>es_workerQueue := es_workerQueue s1 @ sent\<rparr>)"
      using one(1) by (simp add: same_outside_def)
    from same_outside_trans [OF this l(1)] l(2-5) one show ?thesis
      by (intro exI [of _ sent]) (auto simp: same)
  qed
qed

definition subscribed :: "event_service \<Rightarrow> nat \<Rightarrow> string \<Rightarrow> bool" where
  "subscribed s k n \<longleftrightarrow> (\<exists>a. map_of (es_socketMap s) k = Some a \<and> n \<in> set (names_of s a))"

lemma level_sends_count:
  assumes ok: "tables_ok s"
  shows "count (mset (level_sends msg s l)) (Send k m) = (if m = msg \<and> subscribed s k l then 1 else 0)"
proof -
  let ?hit = "\<lambda>e. fst e = l \<and> sb_socket (es_heap s ! snd e) = k \<and> m = msg"
  have "count (mset (level_sends msg s l)) (Send k m) = length (filter ?hit (es_subjectMap s))"
    unfolding count_mset count_list_eq_length_filter level_sends_def equal_range_def filter_map length_map filter_filter
    by (intro arg_cong [where f = length] filter_cong) auto
  also have "\<dots> = card {e \<in> set (es_subjectMap s). ?hit e}"
    using distinct_card [OF distinct_filter [OF tables_okD(3) [OF ok]], of ?hit] unfolding set_filter by (rule sym)
  also have "{e \<in> set (es_subjectMap s). ?hit e} = (if m = msg \<and> subscribed s k l then {(l, the (map_of (es_socketMap s) k))} else {})"
  proof -
    have "a \<in> snd ` set (es_socketMap s) \<and> sb_socket (es_heap s ! a) = k \<longleftrightarrow> map_of (es_socketMap s) k = Some a" for a
    proof
      assume "a \<in> snd ` set (es_socketMap s) \<and> sb_socket (es_heap s ! a) = k"
      then obtain k' where "(k', a) \<in> set (es_socketMap s)" "sb_socket (es_heap s ! a) = k" by auto
      with socket_address(2,3) [OF ok this(1)] show "map_of (es_socketMap s) k = Some a" by simp
    next
      assume "map_of (es_socketMap s) k = Some a"
      from address_of(3,2) [OF ok this] show "a \<in> snd ` set (es_socketMap s) \<and> sb_socket (es_heap s ! a) = k" ..
    qed
    then have "(l, a) \<in> set (es_subjectMap s) \<and> sb_socket (es_heap s ! a) = k \<longleftrightarrow>
        map_of (es_socketMap s) k = Some a \<and> l \<in> set (names_of s a)" for a
      unfolding tables_okD(4) [OF ok] by blast
    then have "e \<in> set (es_subjectMap s) \<and> ?hit e \<longleftrightarrow>
        m = msg \<and> fst e = l \<and> map_of (es_socketMap s) k = Some (snd e) \<and> l \<in> set (names_of s (snd e))" for e
      by (cases e) auto
    then show ?thesis
      by (cases "map_of (es_socketMap s) k") (auto simp only: subscribed_def mem_Collect_eq prod_eq_iff option.sel option.distinct
          option.inject fst_conv snd_conv simp_thms singleton_iff empty_iff split: if_splits)
  qed
  finally show ?thesis by simp
qed

lemma sends_count:
  assumes ok: "tables_ok s"
  shows "count (mset (concat (map (level_sends msg s) (levels name)))) (Send k m) =
    (if m = msg then (case subscriptions s k of None \<Rightarrow> 0 | Some S \<Rightarrow> card {n \<in> S. covers n name}) else 0)"
proof -
  have "count (mset (concat (map (level_sends msg s) ls))) (Send k m) = (if m = msg then length (filter (subscribed s k) ls) else 0)" for ls
    by (induction ls) (simp_all add: level_sends_count [OF ok])
  moreover have "length (filter (subscribed s k) (levels name)) = card {n. subscribed s k n \<and> covers n name}"
    using levels_distinct [of name] distinct_card [of "filter (subscribed s k) (levels name)"]
    by (simp add: levels_covers Collect_conj_eq Int_commute)
  moreover have "card {n. subscribed s k n \<and> covers n name} = (case subscriptions s k of None \<Rightarrow> 0 | Some S \<Rightarrow> card {n \<in> S. covers n name})"
    by (simp add: subscriptions_def subscribed_def split: option.split)
  ultimately show ?thesis by simp
qed

section \<open>Every socket is with one thread\<close>

text \<open>
  How many times a socket waits to be read: on the list of \<open>select\<close>, with the workers, or on its way back to the list; and how
  often it is on its way to be added.
\<close>

definition tokens :: "event_service \<Rightarrow> nat \<Rightarrow> nat" where
  "tokens s k = count (mset (es_socketList s)) k + count (mset (es_workerQueue s)) (Receive k) + count (mset (es_busy s)) (Receive k)
     + count (mset (es_mainQueue s)) (WatchSocket k)"

definition adds :: "event_service \<Rightarrow> nat \<Rightarrow> nat" where
  "adds s k = count (mset (es_mainQueue s)) (AddSubscriber k)"

definition tokens_ok :: "event_service \<Rightarrow> bool" where
  "tokens_ok s \<longleftrightarrow> (\<forall>k. adds s k + tokens s k \<le> 1 \<and> (k \<in> connected s \<longrightarrow> adds s k = 0 \<and> k < es_sockets s)
     \<and> (es_sockets s \<le> k \<longrightarrow> adds s k + tokens s k = 0))"

definition waits :: "event_service \<Rightarrow> nat \<Rightarrow> bool" where
  "waits s k \<longleftrightarrow> tokens s k = 1 \<or> (\<exists>b. RemoveSubscriber k b \<in> set (es_mainQueue s))"

definition served :: "event_service \<Rightarrow> bool" where
  "served s \<longleftrightarrow> (\<forall>k \<in> connected s. waits s k)"

text \<open>A change after which no socket waits more often than before, and those that are still connected as often.\<close>

definition no_more :: "event_service \<Rightarrow> event_service \<Rightarrow> bool" where
  "no_more s s' \<longleftrightarrow> connected s' \<subseteq> connected s \<and> es_sockets s' = es_sockets s \<and> set (es_mainQueue s) \<subseteq> set (es_mainQueue s')
     \<and> (\<forall>k. adds s' k = adds s k \<and> tokens s' k \<le> tokens s k \<and> (k \<in> connected s' \<longrightarrow> tokens s' k = tokens s k))"

lemma no_more_trans: "no_more s t \<Longrightarrow> no_more t u \<Longrightarrow> no_more s u"
  unfolding no_more_def by (auto intro: le_trans)

lemma no_more_tokens:
  assumes n: "no_more s s'" and t: "tokens_ok s"
  shows "tokens_ok s'"
  unfolding tokens_ok_def
proof
  fix k
  have "adds s' k = adds s k" "tokens s' k \<le> tokens s k" "es_sockets s' = es_sockets s" "k \<in> connected s' \<Longrightarrow> k \<in> connected s"
    using n unfolding no_more_def by blast+
  moreover have "adds s k + tokens s k \<le> 1" "k \<in> connected s \<Longrightarrow> adds s k = 0 \<and> k < es_sockets s"
    "es_sockets s \<le> k \<Longrightarrow> adds s k + tokens s k = 0"
    using t unfolding tokens_ok_def by blast+
  ultimately show "adds s' k + tokens s' k \<le> 1 \<and> (k \<in> connected s' \<longrightarrow> adds s' k = 0 \<and> k < es_sockets s')
      \<and> (es_sockets s' \<le> k \<longrightarrow> adds s' k + tokens s' k = 0)"
    by auto
qed

lemma no_more_waits: "no_more s s' \<Longrightarrow> k \<in> connected s' \<Longrightarrow> waits s k \<Longrightarrow> waits s' k"
  unfolding no_more_def waits_def by (elim conjE) (metis subsetD)

lemma no_more_served: "no_more s s' \<Longrightarrow> served s \<Longrightarrow> served s'"
  using no_more_waits unfolding served_def no_more_def by blast

lemmas no_more_keeps = no_more_tokens no_more_served

lemma count_notifies [simp]:
  "count (mset (map (\<lambda>(n, d). Notify n d) calls)) (AddSubscriber k) = 0"
  "count (mset (map (\<lambda>(n, d). Notify n d) calls)) (WatchSocket k) = 0"
  by (induction calls) auto

lemma no_more_same: "same_outside s s' \<Longrightarrow> no_more s s'"
  by (auto simp: same_outside_def no_more_def connected_def adds_def tokens_def simp del: mset_map)

lemma no_more_send:
  assumes "\<forall>t \<in> set sent. \<exists>k m. t = Send k m"
  shows "no_more s (s\<lparr>es_workerQueue := es_workerQueue s @ sent\<rparr>)"
proof -
  have "count (mset sent) (Receive k) = 0" for k
    using assms by (auto simp: count_eq_zero_iff)
  then show ?thesis by (simp add: no_more_def connected_def adds_def tokens_def)
qed

lemma no_more_remove:
  assumes "same_outside s s1"
    and "s' = enqueue_worker (Shutdown k c m b) (unwatchSocketImpl k (s1\<lparr>es_socketMap := filter (\<lambda>e. fst e \<noteq> k) (es_socketMap s1)\<rparr>))"
  shows "no_more s s'"
proof (rule no_more_trans)
  show "no_more s s1" by (rule no_more_same [OF assms(1)])
  show "no_more s1 s'"
    by (auto simp: assms(2) no_more_def connected_def adds_def tokens_def enqueue_worker_def unwatchSocketImpl_def)
qed

lemma no_more_removeSubscriberImpl:
  assumes "removeSubscriberImpl D k c s = (s', r)" "tables_ok s"
  shows "no_more s s'" "tables_ok s'" "quiet D \<Longrightarrow> k \<notin> connected s'"
proof -
  have "no_more s s' \<and> tables_ok s' \<and> (quiet D \<longrightarrow> k \<notin> connected s')"
    using assms
  proof (cases rule: removeSubscriberImpl_result)
    case same
    have "k \<notin> connected s'" if "quiet D"
      using same that unfolding connected_def by (metis map_of_eq_None_iff)
    with same show ?thesis by (simp add: no_more_same)
  next
    case (removed s1)
    have "k \<notin> connected s'"
      unfolding removed(5) connected_def by (auto simp: enqueue_worker_def unwatchSocketImpl_def)
    with no_more_remove [OF removed(1,5)] removed(3) show ?thesis by simp
  qed
  then show "no_more s s'" "tables_ok s'" "quiet D \<Longrightarrow> k \<notin> connected s'" by simp_all
qed

lemma no_more_remove_failed:
  "remove_failed D ks s = (s', r) \<Longrightarrow> tables_ok s \<Longrightarrow> no_more s s' \<and> tables_ok s'"
proof (induction ks arbitrary: s)
  case Nil
  then show ?case by (simp add: no_more_same)
next
  case (Cons k ks)
  show ?case
  proof (cases "map_of (es_socketMap s) k")
    case None
    with Cons show ?thesis by simp
  next
    case (Some a)
    obtain s1 r1 where run: "removeSubscriberImpl D (sb_socket (es_heap s ! a)) False s = (s1, r1)" by (meson surj_pair)
    note one = no_more_removeSubscriberImpl(1,2) [OF run Cons.prems(2)]
    show ?thesis
    proof (cases r1)
      case (Inl e)
      with Some run Cons.prems(1) one show ?thesis by simp
    next
      case (Inr u)
      with Some run Cons.prems(1) have "remove_failed D ks s1 = (s', r)" by simp
      from Cons.IH [OF this one(2)] no_more_trans [OF one(1)] show ?thesis by blast
    qed
  qed
qed

lemma no_more_receive_ready:
  assumes ok: "tables_ok s" and k: "k \<in> set (es_socketList s)"
  shows "no_more s (receive_ready k s)" "tables_ok (receive_ready k s)"
    "set (es_socketList s) - {k} \<subseteq> set (es_socketList (receive_ready k s))"
proof -
  have "no_more s (receive_ready k s) \<and> tables_ok (receive_ready k s) \<and> set (es_socketList s) - {k} \<subseteq> set (es_socketList (receive_ready k s))"
  proof (cases "map_of (es_socketMap s) k")
    case None
    then show ?thesis using ok by (auto simp: receive_ready_def no_more_same)
  next
    case (Some a)
    have run: "receive_ready k s = unwatchSocketImpl k (enqueue_worker (Receive k) s)"
      using Some address_of(2) [OF ok Some] by (simp add: receive_ready_def)
    have "Suc (count (mset (es_socketList s)) k - Suc 0) = count (mset (es_socketList s)) k"
      using k by (intro Suc_pred) simp
    then have "tokens (receive_ready k s) k' = tokens s k'" for k'
      by (cases "k' = k") (simp_all add: run tokens_def unwatchSocketImpl_def enqueue_worker_def)
    then have "no_more s (receive_ready k s)"
      by (simp add: no_more_def adds_def connected_def) (simp add: run unwatchSocketImpl_def enqueue_worker_def)
    moreover have "tables_ok (receive_ready k s) = tables_ok s"
      by (rule tables_ok_cong) (simp_all add: run unwatchSocketImpl_def enqueue_worker_def)
    moreover have "set (es_socketList s) - {k} \<subseteq> set (remove1 k (es_socketList s))"
      by (metis Diff_iff in_set_remove1 singletonI subsetI)
    ultimately show ?thesis using ok by (simp add: run unwatchSocketImpl_def enqueue_worker_def)
  qed
  then show "no_more s (receive_ready k s)" "tables_ok (receive_ready k s)"
    "set (es_socketList s) - {k} \<subseteq> set (es_socketList (receive_ready k s))" by simp_all
qed

lemma no_more_receive_all:
  "tables_ok s \<Longrightarrow> distinct ks \<Longrightarrow> set ks \<subseteq> set (es_socketList s) \<Longrightarrow> no_more s (fold receive_ready ks s) \<and> tables_ok (fold receive_ready ks s)"
proof (induction ks arbitrary: s)
  case Nil
  then show ?case by (simp add: no_more_same)
next
  case (Cons k ks)
  note one = no_more_receive_ready [OF Cons.prems(1), of k]
  have "no_more (receive_ready k s) (fold receive_ready ks (receive_ready k s)) \<and> tables_ok (fold receive_ready ks (receive_ready k s))"
    using Cons.prems one by (intro Cons.IH) auto
  with one(1) Cons.prems(3) show ?case using no_more_trans by auto
qed

lemma watched_once: "tokens_ok s \<Longrightarrow> distinct (es_socketList s)"
proof -
  assume t: "tokens_ok s"
  have "count (mset (es_socketList s)) k \<le> 1" for k
  proof -
    have "adds s k + tokens s k \<le> 1" using t unfolding tokens_ok_def by blast
    then show ?thesis by (simp add: tokens_def)
  qed
  then show ?thesis by (metis distinct_count_atmost_1 One_nat_def count_eq_zero_iff le_Suc_eq le_zero_eq set_mset_mset)
qed

lemma select_keeps:
  assumes "tables_ok s" "tokens_ok s"
  shows "no_more s (fst (runMain_select D (filter R (es_socketList s)) X s)) \<and> tables_ok (fst (runMain_select D (filter R (es_socketList s)) X s))"
proof -
  define s1 where "s1 = fold receive_ready (filter R (es_socketList s)) s"
  have one: "no_more s s1 \<and> tables_ok s1"
    unfolding s1_def using assms(1) watched_once [OF assms(2)] by (intro no_more_receive_all) auto
  obtain s2 r where run: "remove_failed D X s1 = (s2, r)" by (meson surj_pair)
  from no_more_remove_failed [OF run] one no_more_trans [of s s1 s2] show ?thesis
    by (simp add: runMain_select_def s1_def [symmetric] run)
qed

lemma tokens_okD:
  assumes "tokens_ok s"
  shows "adds s k + tokens s k \<le> 1" "k \<in> connected s \<Longrightarrow> adds s k = 0" "k \<in> connected s \<Longrightarrow> k < es_sockets s"
    "es_sockets s \<le> k \<Longrightarrow> adds s k + tokens s k = 0"
  using assms unfolding tokens_ok_def by blast+

text \<open>A task taken from the main queue, by cases on the task.\<close>

lemma execute_add_keeps:
  assumes q: "es_mainQueue s = AddSubscriber k # q" and ok: "tables_ok s" "tokens_ok s"
  shows "let s' = addSubscriberImpl k (s\<lparr>es_mainQueue := q\<rparr>) in tables_ok s' \<and> tokens_ok s' \<and> (served s \<longrightarrow> served s')"
proof -
  define s0 where "s0 = s\<lparr>es_mainQueue := q\<rparr>"
  define s' where "s' = addSubscriberImpl k s0"
  have pending: "adds s k \<noteq> 0" using q by (simp add: adds_def)
  with tokens_okD(1,2) [OF ok(2), of k] have k: "k \<notin> connected s" "adds s k = 1" "tokens s k = 0" by auto
  have num: "k < es_sockets s"
    using tokens_okD(4) [OF ok(2), of k] pending by (cases "es_sockets s \<le> k") auto
  have conn: "connected s' = insert k (connected s)"
    by (auto simp: s'_def s0_def addSubscriberImpl_def watchSocketImpl_def connected_def)
  have tok: "tokens s' k' = (if k' = k then 1 else tokens s k')" and add: "adds s' k' = (if k' = k then 0 else adds s k')" for k'
    using k(2,3) q by (simp_all add: s'_def s0_def addSubscriberImpl_def watchSocketImpl_def tokens_def adds_def)
  have "k \<notin> connected s0" using k(1) by (simp add: s0_def connected_def)
  moreover have "tables_ok s0" using ok(1) tables_ok_cong [of s0 s] by (simp add: s0_def)
  ultimately have "tables_ok s'" unfolding s'_def by (intro tables_add)
  moreover have "tokens_ok s'"
  proof -
    have "es_sockets s' = es_sockets s" by (simp add: s'_def s0_def addSubscriberImpl_def watchSocketImpl_def)
    then show ?thesis
      unfolding tokens_ok_def conn tok add using tokens_okD [OF ok(2)] num by auto
  qed
  moreover have "served s'" if "served s"
    unfolding served_def
  proof
    fix k' assume k': "k' \<in> connected s'"
    show "waits s' k'"
    proof (cases "k' = k")
      case False
      with that k' have "waits s k'" by (simp add: served_def conn)
      moreover have "set (es_mainQueue s) = insert (AddSubscriber k) (set (es_mainQueue s'))"
        by (simp add: q s'_def s0_def addSubscriberImpl_def watchSocketImpl_def)
      ultimately show ?thesis using False by (simp add: waits_def tok)
    qed (simp add: waits_def tok)
  qed
  ultimately show ?thesis by (simp add: s'_def s0_def Let_def)
qed

lemma execute_watch_keeps:
  assumes q: "es_mainQueue s = WatchSocket k # q" and ok: "tables_ok s" "tokens_ok s"
  shows "let s' = watchSocketImpl k (s\<lparr>es_mainQueue := q\<rparr>) in tables_ok s' \<and> tokens_ok s' \<and> (served s \<longrightarrow> served s')"
proof -
  define s' where "s' = watchSocketImpl k (s\<lparr>es_mainQueue := q\<rparr>)"
  have tok: "tokens s' = tokens s" and add: "adds s' = adds s"
    using q by (simp_all add: fun_eq_iff s'_def watchSocketImpl_def tokens_def adds_def)
  have conn: "connected s' = connected s" and num: "es_sockets s' = es_sockets s"
    and rem: "RemoveSubscriber j b \<in> set (es_mainQueue s') \<longleftrightarrow> RemoveSubscriber j b \<in> set (es_mainQueue s)" for j b
    by (simp_all add: s'_def watchSocketImpl_def connected_def q)
  have "tables_ok s'"
    using ok(1) tables_ok_cong [of s' s] by (simp add: s'_def watchSocketImpl_def)
  with ok(2) show ?thesis
    unfolding s'_def [symmetric] Let_def tokens_ok_def served_def waits_def conn num tok add rem by blast
qed

text \<open>The other tasks: their execution leaves no socket more often in line, and a removal leaves its socket disconnected.\<close>

lemma execute_no_more:
  assumes "execute D t s = (s', r)" "tables_ok s" "\<forall>k. t \<noteq> AddSubscriber k \<and> t \<noteq> WatchSocket k"
  shows "no_more s s' \<and> tables_ok s' \<and> (\<forall>k b. t = RemoveSubscriber k b \<longrightarrow> quiet D \<longrightarrow> k \<notin> connected s')"
proof (cases t)
  case (RemoveSubscriber k b)
  with assms(1) have "removeSubscriberImpl D k b s = (s', r)" by simp
  from no_more_removeSubscriberImpl [OF this assms(2)] RemoveSubscriber show ?thesis by simp
next
  case (Subscribe k ns)
  with assms(1) have "subscribeImpl D k ns s = (s', r)" by simp
  from subscribeImpl_result(1,2) [OF this assms(2)] Subscribe show ?thesis by (simp add: no_more_same)
next
  case (Unsubscribe k ns)
  with assms(1) have "unsubscribeImpl D k ns s = (s', r)" by simp
  from unsubscribeImpl_result(1,2) [OF this assms(2)] Unsubscribe show ?thesis by (simp add: no_more_same)
next
  case (Notify n d)
  with assms(1) have "notifyImpl D n d s = (s', r)" by simp
  from notifyImpl_result [OF this] obtain sent where sent: "same_outside (s\<lparr>es_workerQueue := es_workerQueue s @ sent\<rparr>) s'"
    "es_heap s' = es_heap s" "es_subjectMap s' = es_subjectMap s" "\<forall>t \<in> set sent. \<exists>k m. t = Send k m" by blast
  have "no_more s s'"
    using no_more_trans [OF no_more_send [OF sent(4)] no_more_same [OF sent(1)]] .
  moreover have "tables_ok s'"
    using assms(2) tables_ok_cong [of s' s] sent(1-3) by (simp add: same_outside_def)
  ultimately show ?thesis using Notify by simp
qed (use assms in \<open>simp_all add: no_more_same\<close>)

lemma execute_keeps:
  assumes q: "es_mainQueue s = t # q" and ok: "tables_ok s" "tokens_ok s"
  shows "let s' = fst (execute D t (s\<lparr>es_mainQueue := q\<rparr>)) in tables_ok s' \<and> tokens_ok s' \<and> (quiet D \<longrightarrow> served s \<longrightarrow> served s')"
proof -
  consider k where "t = AddSubscriber k" | k where "t = WatchSocket k" | "\<forall>k. t \<noteq> AddSubscriber k \<and> t \<noteq> WatchSocket k" by blast
  then show ?thesis
  proof cases
    case 1
    then show ?thesis using execute_add_keeps [OF _ ok] q by (simp add: Let_def)
  next
    case 2
    then show ?thesis using execute_watch_keeps [OF _ ok] q by (simp add: Let_def)
  next
    case 3
    define s0 where "s0 = s\<lparr>es_mainQueue := q\<rparr>"
    obtain s' r where run: "execute D t s0 = (s', r)" by (meson surj_pair)
    have tok: "tokens s0 = tokens s" and add: "adds s0 = adds s"
      using 3 q by (auto simp: fun_eq_iff s0_def tokens_def adds_def)
    have conn: "connected s0 = connected s" and num: "es_sockets s0 = es_sockets s" and main0: "es_mainQueue s0 = q"
      by (simp_all add: s0_def connected_def)
    have "tables_ok s0" using ok(1) tables_ok_cong [of s0 s] by (simp add: s0_def)
    note res = execute_no_more [OF run this 3]
    have "tokens_ok s0" using ok(2) by (simp add: tokens_ok_def tok add conn num)
    then have "tokens_ok s'" using no_more_tokens res by blast
    moreover have "served s'" if quiet: "quiet D" and served: "served s"
      unfolding served_def
    proof
      fix k assume k: "k \<in> connected s'"
      then have "t \<noteq> RemoveSubscriber k b" for b using res quiet by blast
      moreover have "waits s k" using served k res unfolding served_def no_more_def conn by blast
      ultimately have "waits s0 k" using q by (auto simp: waits_def tok main0)
      then show "waits s' k" using no_more_waits res k by blast
    qed
    ultimately show ?thesis using res run by (simp add: s0_def Let_def)
  qed
qed

text \<open>What a worker brings back from a socket: it is watched again or removed.\<close>

lemma fold_notify_subject:
  "\<exists>ts w. fold (notify_subject k data) names s = s\<lparr>es_mainQueue := es_mainQueue s @ ts, es_workerQueue := es_workerQueue s @ w\<rparr>
     \<and> (\<forall>t \<in> set ts. \<exists>n d. t = Notify n d) \<and> (\<forall>t \<in> set w. \<exists>j m. t = Send j m)"
proof (induction names arbitrary: s)
  case Nil
  show ?case by (intro exI [of _ "[]"]) simp
next
  case (Cons n names)
  obtain ts w where ih: "fold (notify_subject k data) names (notify_subject k data n s) =
      (notify_subject k data n s)\<lparr>es_mainQueue := es_mainQueue (notify_subject k data n s) @ ts,
        es_workerQueue := es_workerQueue (notify_subject k data n s) @ w\<rparr>"
    "\<forall>t \<in> set ts. \<exists>n d. t = Notify n d" "\<forall>t \<in> set w. \<exists>j m. t = Send j m"
    using Cons.IH by blast
  show ?case
  proof (cases "n = SYSTEM_PING")
    case True
    with ih show ?thesis
      by - (rule exI [of _ ts], rule exI [of _ "Send k (notify_message SYSTEM_PONG data) # w"], simp add: notify_subject_def [of _ _ SYSTEM_PING] notify_subject_def [of _ _ n] enqueue_worker_def)
  next
    case False
    with ih show ?thesis
      by - (rule exI [of _ "Notify n data # ts"], rule exI [of _ w], simp add: notify_subject_def [of _ _ n] enqueue_main_def)
  qed
qed

definition brought_back :: "nat \<Rightarrow> task list \<Rightarrow> task list \<Rightarrow> bool" where
  "brought_back k ts w \<longleftrightarrow> (\<forall>t \<in> set w. \<exists>j m. t = Send j m) \<and> (\<forall>j. AddSubscriber j \<notin> set ts)
     \<and> ((\<exists>us. ts = us @ [WatchSocket k] \<and> (\<forall>j. WatchSocket j \<notin> set us)) \<or> (\<exists>b. ts = [RemoveSubscriber k b]))"

lemma brought_back_watch:
  "brought_back k (us @ [WatchSocket k]) w \<longleftrightarrow>
     (\<forall>t \<in> set w. \<exists>j m. t = Send j m) \<and> (\<forall>j. AddSubscriber j \<notin> set us \<and> WatchSocket j \<notin> set us)"
  by (auto simp: brought_back_def)

lemma receiveImpl_result:
  "\<exists>ts w. receiveImpl k f s = s\<lparr>es_mainQueue := es_mainQueue s @ ts, es_workerQueue := es_workerQueue s @ w\<rparr> \<and> brought_back k ts w"
proof -
  have remove: ?thesis if "receiveImpl k f s = enqueue_main (RemoveSubscriber k b) s" for b
    using that by - (rule exI [of _ "[RemoveSubscriber k b]"], rule exI [of _ "[]"], simp add: enqueue_main_def brought_back_def)
  have watch: ?thesis if "receiveImpl k f s = enqueue_main (WatchSocket k) (s\<lparr>es_mainQueue := es_mainQueue s @ us, es_workerQueue := es_workerQueue s @ w\<rparr>)"
      "\<forall>t \<in> set w. \<exists>j m. t = Send j m" "\<forall>j. AddSubscriber j \<notin> set us \<and> WatchSocket j \<notin> set us" for us w
    using that by - (rule exI [of _ "us @ [WatchSocket k]"], rule exI [of _ w], simp add: enqueue_main_def brought_back_watch)
  show ?thesis
  proof (cases f)
    case (Inl e)
    then show ?thesis by (intro remove) (simp add: receiveImpl_def)
  next
    case (Inr bf)
    obtain buffer flags where f: "f = Inr (buffer, flags)" using Inr by (cases bf) simp
    consider "and flags FRAME_OP_PONG \<noteq> 0" | "and flags FRAME_OP_PONG = 0" "and flags FRAME_OP_CLOSE \<noteq> 0 \<or> length buffer = 0"
      | "and flags FRAME_OP_PONG = 0" "\<not> (and flags FRAME_OP_CLOSE \<noteq> 0 \<or> length buffer = 0)" by blast
    then show ?thesis
    proof cases
      case 1
      then show ?thesis by (intro watch [where us = "[]" and w = "[]"]) (simp_all add: receiveImpl_def f)
    next
      case 2
      then show ?thesis by (intro remove [of True]) (auto simp: receiveImpl_def f)
    next
      case 3
      show ?thesis
      proof (cases "parse_frame buffer")
        case None
        with 3 show ?thesis by (intro remove [of False]) (simp add: receiveImpl_def f)
      next
        case (Some m)
        then obtain verb names data where m: "parse_frame buffer = Some (verb, names, data)" by (cases m) auto
        have run: "receiveImpl k f s = enqueue_main (WatchSocket k)
            (if verb = SUBSCRIBE then enqueue_main (Subscribe k names) s else if verb = UNSUBSCRIBE then enqueue_main (Unsubscribe k names) s
             else fold (notify_subject k data) names s)"
          using 3 m by (simp add: receiveImpl_def f)
        consider "verb = SUBSCRIBE" | "verb \<noteq> SUBSCRIBE" "verb = UNSUBSCRIBE" | "verb \<noteq> SUBSCRIBE" "verb \<noteq> UNSUBSCRIBE" by blast
        then show ?thesis
        proof cases
          case 1
          then show ?thesis using run by (intro watch [where us = "[Subscribe k names]" and w = "[]"]) (simp_all add: enqueue_main_def)
        next
          case 2
          then show ?thesis using run by (intro watch [where us = "[Unsubscribe k names]" and w = "[]"]) (simp_all add: enqueue_main_def)
        next
          case 3
          obtain ts w where n: "fold (notify_subject k data) names s = s\<lparr>es_mainQueue := es_mainQueue s @ ts, es_workerQueue := es_workerQueue s @ w\<rparr>"
            "\<forall>t \<in> set ts. \<exists>n d. t = Notify n d" "\<forall>t \<in> set w. \<exists>j m. t = Send j m" using fold_notify_subject by metis
          have "\<forall>j. AddSubscriber j \<notin> set ts \<and> WatchSocket j \<notin> set ts" using n(2) by force
          with 3 run n(1,3) show ?thesis by (intro watch [where us = ts and w = w]) simp_all
        qed
      qed
    qed
  qed
qed

lemma receive_keeps:
  assumes busy: "Receive k \<in> set (es_busy s)" and ok: "tables_ok s" "tokens_ok s"
  shows "let s' = receiveImpl k f (s\<lparr>es_busy := remove1 (Receive k) (es_busy s)\<rparr>) in
    tables_ok s' \<and> tokens_ok s' \<and> (served s \<longrightarrow> served s')"
proof -
  define s0 where "s0 = s\<lparr>es_busy := remove1 (Receive k) (es_busy s)\<rparr>"
  obtain ts w where run: "receiveImpl k f s0 = s0\<lparr>es_mainQueue := es_mainQueue s0 @ ts, es_workerQueue := es_workerQueue s0 @ w\<rparr>"
    and bb: "brought_back k ts w" using receiveImpl_result by blast
  define s' where "s' = receiveImpl k f s0"
  have s': "s' = s0\<lparr>es_mainQueue := es_mainQueue s0 @ ts, es_workerQueue := es_workerQueue s0 @ w\<rparr>"
    unfolding s'_def by (rule run)
  have fields: "es_socketList s' = es_socketList s" "es_workerQueue s' = es_workerQueue s @ w"
    "es_busy s' = remove1 (Receive k) (es_busy s)" and main: "es_mainQueue s' = es_mainQueue s @ ts"
    by (simp_all add: s' s0_def)
  have conn: "connected s' = connected s" and num: "es_sockets s' = es_sockets s"
    by (simp_all add: s' s0_def connected_def)
  have tables: "tables_ok s'"
    using ok(1) tables_ok_cong [of s' s] by (simp add: s' s0_def)
  have no_receive: "count (mset w) (Receive j) = 0" for j using bb by (auto simp: brought_back_def count_eq_zero_iff)
  have no_add: "count (mset ts) (AddSubscriber j) = 0" for j using bb by (auto simp: brought_back_def count_eq_zero_iff)
  have add: "adds s' j = adds s j" for j
    using no_add [of j] by (simp add: adds_def main)
  have one: "Suc (count (mset (es_busy s)) (Receive k) - Suc 0) = count (mset (es_busy s)) (Receive k)"
    using busy by (intro Suc_pred) simp
  have tok: "tokens s' j + (if j = k then 1 else 0) = tokens s j + count (mset ts) (WatchSocket j)" for j
    using one by (cases "j = k") (simp_all add: tokens_def fields main no_receive)
  have watches: "count (mset ts) (WatchSocket j) \<le> (if j = k then 1 else 0)" for j
    using bb by (auto simp: brought_back_def count_eq_zero_iff)
  have le: "tokens s' j \<le> tokens s j" for j using tok [of j] watches [of j] by (auto split: if_splits)
  have "tokens_ok s'"
    unfolding tokens_ok_def
  proof
    fix j
    show "adds s' j + tokens s' j \<le> 1 \<and> (j \<in> connected s' \<longrightarrow> adds s' j = 0 \<and> j < es_sockets s') \<and> (es_sockets s' \<le> j \<longrightarrow> adds s' j + tokens s' j = 0)"
      using tokens_okD [OF ok(2), of j] le [of j] unfolding conn num add by auto
  qed
  moreover have "waits s' j" if "waits s j" for j
  proof (cases "tokens s' j = tokens s j")
    case False
    define c where "c = count (mset ts) (WatchSocket j)"
    have "j = k \<and> c = 0"
      using False tok [of j, folded c_def] watches [of j, folded c_def] by (auto split: if_splits)
    then have "j = k" "WatchSocket k \<notin> set ts" by (auto simp: c_def)
    then have "\<exists>b. ts = [RemoveSubscriber j b]" using bb by (auto simp: brought_back_def)
    then show ?thesis by (auto simp: waits_def main)
  qed (use that in \<open>auto simp: waits_def main\<close>)
  ultimately show ?thesis
    using tables by (simp add: s'_def [symmetric] s0_def [symmetric] served_def conn Let_def)
qed

section \<open>The invariant of the steps\<close>

lemma no_more_queues:
  assumes "es_socketMap s' = es_socketMap s" "es_sockets s' = es_sockets s" "es_socketList s' = es_socketList s"
    and "es_mainQueue s' = es_mainQueue s @ ts" "\<forall>k. AddSubscriber k \<notin> set ts \<and> WatchSocket k \<notin> set ts"
    and "\<forall>k. count (mset (es_workerQueue s')) (Receive k) + count (mset (es_busy s')) (Receive k) =
      count (mset (es_workerQueue s)) (Receive k) + count (mset (es_busy s)) (Receive k)"
  shows "no_more s s'"
proof -
  have "count (mset ts) (AddSubscriber k) = 0" "count (mset ts) (WatchSocket k) = 0" for k
    using assms(5) by (auto simp: count_eq_zero_iff)
  note c = this
  have "tokens s' k = tokens s k" "adds s' k = adds s k" for k
    using spec [OF assms(6), of k] by (simp_all add: tokens_def adds_def assms(3,4) c)
  then show ?thesis by (simp add: no_more_def connected_def assms)
qed

lemma accept_keeps:
  assumes ok: "tables_ok s" "tokens_ok s"
  shows "let s' = fst (accept_request v q h st s) in tables_ok s' \<and> tokens_ok s' \<and> (served s \<longrightarrow> served s')"
proof (cases "fst (accept_request v q h st s) = s")
  case True
  with ok show ?thesis by (simp add: Let_def)
next
  case False
  define k where "k = es_sockets s"
  define s' where "s' = enqueue_main (AddSubscriber k) (s\<lparr>es_sockets := k + 1\<rparr>)"
  have run: "fst (accept_request v q h st s) = s'"
    using False by (auto simp: accept_request_def s'_def k_def Let_def split: if_splits sum.splits option.splits ws_error.splits)
  have tok: "tokens s' j = tokens s j" and add: "adds s' j = adds s j + (if j = k then 1 else 0)" for j
    by (simp_all add: s'_def enqueue_main_def tokens_def adds_def)
  have rest: "connected s' = connected s" "es_sockets s' = k + 1" and main: "es_mainQueue s' = es_mainQueue s @ [AddSubscriber k]"
    by (simp_all add: s'_def enqueue_main_def connected_def)
  have "k \<notin> connected s" using tokens_okD(3) [OF ok(2), of k] by (auto simp: k_def)
  then have "tokens_ok s'"
    unfolding tokens_ok_def rest tok add using tokens_okD [OF ok(2)] by (auto simp: k_def less_Suc_eq)
  moreover have "tables_ok s'"
    using ok(1) tables_ok_cong [of s' s] by (simp add: s'_def enqueue_main_def)
  moreover have "served s \<longrightarrow> served s'"
    by (auto simp: served_def waits_def rest tok main)
  ultimately show ?thesis unfolding run by (simp add: Let_def)
qed

lemma event_step_keeps:
  assumes "event_step workers D s s'" "tables_ok s" "tokens_ok s"
  shows "tables_ok s' \<and> tokens_ok s' \<and> (quiet D \<longrightarrow> served s \<longrightarrow> served s')"
  using assms
proof (cases rule: event_step.cases)
  have plain: ?thesis if "no_more s s'" "es_heap s' = es_heap s" "es_subjectMap s' = es_subjectMap s" "es_socketMap s' = es_socketMap s"
    using that no_more_keeps [OF that(1)] assms(2,3) tables_ok_cong [of s' s] by simp
  {
    case (api_notify n d)
    then show ?thesis
      by (intro plain) (auto intro!: no_more_queues [where ts = "[Notify n d]"] simp: enqueue_main_def)
  next
    case (api_subject n)
    then show ?thesis by (intro plain) (auto intro!: no_more_queues [where ts = "[]"] simp: subjectNotified_def)
  next
    case (handler v q h st)
    then show ?thesis using accept_keeps [OF assms(2,3)] by (simp add: Let_def)
  next
    case (main_select R X)
    with select_keeps [OF assms(2,3)] no_more_keeps assms(3) show ?thesis by metis
  next
    case (main_task t q)
    then show ?thesis using execute_keeps [OF main_task(2) assms(2,3)] by (simp add: Let_def)
  next
    case (worker_take t q)
    then show ?thesis by (intro plain) (auto intro!: no_more_queues [where ts = "[]"])
  next
    case (worker_send k m r)
    then show ?thesis
      by (intro plain; cases r) (auto intro!: no_more_queues [where ts = "case r of Inl _ \<Rightarrow> [RemoveSubscriber k False] | Inr _ \<Rightarrow> []"]
          simp: sendImpl_def enqueue_main_def)
  next
    case (worker_receive k f)
    then show ?thesis using receive_keeps [OF worker_receive(2) assms(2,3)] by (simp add: Let_def)
  next
    case (worker_shutdown k c m b h p f)
    define s1 where "s1 = s\<lparr>es_busy := remove1 (Shutdown k c m b) (es_busy s)\<rparr>"
    have "s' = s1 \<or> s' = s1\<lparr>es_closed := k # es_closed s1\<rparr>"
      unfolding worker_shutdown(1) s1_def [symmetric] shutdownImpl_def Let_def by (auto split: sum.splits bool.splits)
    then show ?thesis by (intro plain) (auto intro!: no_more_queues [where ts = "[]"] simp: s1_def)
  }
qed

lemma event_invariant:
  assumes "event_reachable workers D s"
  shows "tables_ok s" "tokens_ok s" "quiet D \<Longrightarrow> served s"
proof -
  obtain m where "(event_step workers D)\<^sup>*\<^sup>* (event_service_new m) s"
    using assms by (auto simp: event_reachable_def)
  then have "tables_ok s \<and> tokens_ok s \<and> (quiet D \<longrightarrow> served s)"
  proof (induction rule: rtranclp_induct)
    case base
    show ?case
      by (simp add: event_service_new_def tables_ok_def tokens_ok_def served_def connected_def adds_def tokens_def)
  next
    case (step y z)
    then show ?case using event_step_keeps by blast
  qed
  then show "tables_ok s" "tokens_ok s" "quiet D \<Longrightarrow> served s" by simp_all
qed

section \<open>Messages are read as they are printed\<close>

fun join_subjects :: "string list \<Rightarrow> string" where
  "join_subjects [] = []"
| "join_subjects [n] = n"
| "join_subjects (n # ns) = n @ '','' @ join_subjects ns"

definition subject_name :: "string \<Rightarrow> bool" where
  "subject_name n \<longleftrightarrow> n \<noteq> [] \<and> CHR '','' \<notin> set n \<and> CHR '' '' \<notin> set n"

definition message :: "string \<Rightarrow> string list \<Rightarrow> string \<Rightarrow> string" where
  "message verb names data = verb @ '' '' @ join_subjects names @ '' '' @ VERSION @ [CR, LF] @ data"

lemma subject_name_scan:
  assumes "subject_name n" "c = CHR '','' \<or> c = CHR '' ''"
  shows "scan (\<lambda>c. c \<noteq> CHR '','' \<and> c \<noteq> CHR '' '') (n @ c # r) = (n, c # r)" "n @ c # r \<noteq> []" "hd (n @ c # r) \<noteq> CHR '' ''"
proof -
  show "scan (\<lambda>c. c \<noteq> CHR '','' \<and> c \<noteq> CHR '' '') (n @ c # r) = (n, c # r)"
    using assms by (intro scan_append_stop) (auto simp: subject_name_def)
  show "hd (n @ c # r) \<noteq> CHR '' ''"
    using assms(1) by (cases n) (auto simp: subject_name_def)
qed simp

lemma read_subjects_joined:
  assumes "names \<noteq> []" "\<forall>n \<in> set names. subject_name n"
  shows "read_subjects (join_subjects names @ CHR '' '' # r) = (names, CHR '' '' # r)"
  using assms
proof (induction names rule: join_subjects.induct)
  case (2 n)
  then have n: "subject_name n" by simp
  have "read_subjects (CHR '' '' # r) = ([], CHR '' '' # r)" by (subst read_subjects.simps) simp
  with subject_name_scan [OF n, of "CHR '' ''" r] show ?case by (subst read_subjects.simps) (simp del: hd_append)
next
  case (3 n m ms)
  then have n: "subject_name n" by simp
  have "read_subjects (join_subjects (m # ms) @ CHR '' '' # r) = (m # ms, CHR '' '' # r)" using 3 by simp
  with subject_name_scan [OF n, of "CHR '',''" "join_subjects (m # ms) @ CHR '' '' # r"] show ?case
    by (subst read_subjects.simps) (simp del: hd_append)
qed simp

lemma joined_first:
  assumes "names \<noteq> []" "\<forall>n \<in> set names. subject_name n"
  shows "dropWhile (\<lambda>c. c = CHR '' '') (join_subjects names @ r) = join_subjects names @ r"
proof -
  obtain n ns where names: "names = n # ns" using assms(1) by (cases names) auto
  then obtain c n' where "n = c # n'" "c \<noteq> CHR '' ''" using assms(2) by (cases n) (auto simp: subject_name_def)
  then show ?thesis by (cases ns) (simp_all add: names)
qed

lemma parse_message:
  assumes "verb = SUBSCRIBE \<or> verb = UNSUBSCRIBE \<or> verb = NOTIFY" "names \<noteq> []" "\<forall>n \<in> set names. subject_name n"
  shows "parse_frame (message verb names data) = Some (verb, sort (remdups names), data)"
proof -
  have verb: "scan (\<lambda>c. c \<noteq> CHR '' '') (verb @ CHR '' '' # r) = (verb, CHR '' '' # r)" for r
    using assms(1) by (intro scan_append_stop) (auto simp: SUBSCRIBE_def UNSUBSCRIBE_def NOTIFY_def)
  have version: "scan (\<lambda>c. c \<noteq> CR \<and> c \<noteq> LF) (VERSION @ CR # r) = (VERSION, CR # r)" for r
    by (intro scan_append_stop) (auto simp: VERSION_def CR_def LF_def)
  have first: "dropWhile (\<lambda>c. c = CHR '' '') (CHR '' '' # join_subjects names @ r) = join_subjects names @ r" for r
    using joined_first [OF assms(2,3)] by simp
  have space: "dropWhile (\<lambda>c. c = CHR '' '') (CHR '' '' # VERSION @ r) = VERSION @ r" for r
    by (simp add: VERSION_def)
  have "parse_frame (message verb names data) = parse_frame (verb @ CHR '' '' # join_subjects names @ CHR '' '' # VERSION @ CR # LF # data)"
    by (simp add: message_def)
  then show ?thesis
    using assms(1) by (simp add: parse_frame_def verb first read_subjects_joined [OF assms(2,3)] space version del: dropWhile.simps)
qed

lemma notify_message_eq: "notify_message n d = message NOTIFY [n] d"
  by (simp add: notify_message_def message_def)

section \<open>Sample runs\<close>

datatype action = Accept | Select "nat list" "nat list" | Main | Take | Sent nat string "unit res" | Received nat "(string \<times> int) res"
  | Closed nat bool "unit res"

fun act :: "nat \<Rightarrow> delegates \<Rightarrow> action \<Rightarrow> event_service \<Rightarrow> event_service option" where
  "act w D Accept s = Some (fst (accept_request [] Inr None 200 s))"
| "act w D (Select ks xs) s = Some (fst (runMain_select D (filter (\<lambda>k. k \<in> set ks) (es_socketList s)) (filter (\<lambda>k. k \<in> set xs) (es_socketList s)) s))"
| "act w D Main s = (case es_mainQueue s of [] \<Rightarrow> None | t # q \<Rightarrow> Some (fst (execute D t (s\<lparr>es_mainQueue := q\<rparr>))))"
| "act w D Take s = (case es_workerQueue s of [] \<Rightarrow> None | t # q \<Rightarrow>
     if length (es_busy s) < w then Some (s\<lparr>es_workerQueue := q, es_busy := t # es_busy s\<rparr>) else None)"
| "act w D (Sent k m r) s = (if Send k m \<in> set (es_busy s)
     then Some (sendImpl k r (s\<lparr>es_busy := remove1 (Send k m) (es_busy s)\<rparr>)) else None)"
| "act w D (Received k f) s = (if Receive k \<in> set (es_busy s)
     then Some (receiveImpl k f (s\<lparr>es_busy := remove1 (Receive k) (es_busy s)\<rparr>)) else None)"
| "act w D (Closed k b h) s = (if Shutdown k 1000 [] b \<in> set (es_busy s)
     then Some (fst (shutdownImpl k b h (Inr False) (Inr ([], 0)) (s\<lparr>es_busy := remove1 (Shutdown k 1000 [] b) (es_busy s)\<rparr>))) else None)"

fun acts :: "nat \<Rightarrow> delegates \<Rightarrow> action list \<Rightarrow> event_service \<Rightarrow> event_service option" where
  "acts w D [] s = Some s"
| "acts w D (a # as) s = (case act w D a s of None \<Rightarrow> None | Some s \<Rightarrow> acts w D as s)"

lemma act_step: "act w D a s = Some s' \<Longrightarrow> event_step w D s s'"
  by (cases a) (auto intro: event_step.intros split: list.splits if_splits)

lemma acts_reachable: "acts w D as (event_service_new m) = Some s \<Longrightarrow> event_reachable w D s"
proof -
  have "acts w D as s0 = Some s \<Longrightarrow> (event_step w D)\<^sup>*\<^sup>* s0 s" for s0
    by (induction as arbitrary: s0) (auto split: option.splits dest: act_step intro: converse_rtranclp_into_rtranclp)
  then show "acts w D as (event_service_new m) = Some s \<Longrightarrow> event_reachable w D s" by (auto simp: event_reachable_def)
qed

definition silent :: delegates where "silent = (\<lambda>_. ([], Inr ()))"

lemma quiet_silent [simp]: "quiet silent"
  by (simp add: quiet_def silent_def)

text \<open>A client connects, subscribes to a subject and sends a notification for one below it; the state is that before it is executed.\<close>

definition sample_subscribed :: "event_service option" where
  "sample_subscribed = acts 2 silent [Accept, Main, Select [0] [], Take, Received 0 (Inr (message SUBSCRIBE [''a''] [], 0x81)), Main, Main,
     Select [0] [], Take, Received 0 (Inr (message NOTIFY [''a.b''] ''x'', 0x81))] (event_service_new 0)"

lemma sample_subscribed_eval:
  "map_option (\<lambda>s. (es_mainQueue s, es_workerQueue s, es_socketMap s, names_of s 0)) sample_subscribed =
     Some ([Notify ''a.b'' ''x'', WatchSocket 0], [], [(0, 0)], [''a''])"
  by code_simp

section \<open>What the service guarantees\<close>

text \<open>What a task of the main thread means for the subscriptions of the sockets, and what is to be sent for it.\<close>

fun spec_after :: "task \<Rightarrow> (nat \<Rightarrow> string set option) \<Rightarrow> nat \<Rightarrow> string set option" where
  "spec_after (AddSubscriber k) A = A(k := Some {})"
| "spec_after (RemoveSubscriber k _) A = A(k := None)"
| "spec_after (Subscribe k names) A = (case A k of None \<Rightarrow> A | Some S \<Rightarrow> A(k := Some (S \<union> set names)))"
| "spec_after (Unsubscribe k names) A = (case A k of None \<Rightarrow> A | Some S \<Rightarrow> A(k := Some (if ''*'' \<in> set names then {} else S - set names)))"
| "spec_after _ A = A"

fun spec_sends :: "task \<Rightarrow> (nat \<Rightarrow> string set option) \<Rightarrow> nat \<Rightarrow> string \<Rightarrow> nat" where
  "spec_sends (Notify name data) A k m =
     (if m = notify_message name data then (case A k of None \<Rightarrow> 0 | Some S \<Rightarrow> card {n \<in> S. covers n name}) else 0)"
| "spec_sends _ A k m = 0"

lemma subscriptions_cong:
  "es_socketMap s' = es_socketMap s \<Longrightarrow> es_heap s' = es_heap s \<Longrightarrow> subscriptions s' = subscriptions s"
  by (simp add: subscriptions_def fun_eq_iff)

lemma remove_refines:
  assumes "removeSubscriberImpl D k b s = (s', r)" "tables_ok s" "quiet D"
  shows "r = Inr ()" "subscriptions s' = (subscriptions s)(k := None)"
    "\<exists>sent. es_workerQueue s' = es_workerQueue s @ sent \<and> (\<forall>j m. count (mset sent) (Send j m) = 0)"
proof -
  have "r = Inr () \<and> subscriptions s' = (subscriptions s)(k := None) \<and>
    (\<exists>sent. es_workerQueue s' = es_workerQueue s @ sent \<and> (\<forall>j m. count (mset sent) (Send j m) = 0))"
    using assms(1,2)
  proof (cases rule: removeSubscriberImpl_result)
    case same
    with assms(3) have "r = Inr ()" "s' = s" "map_of (es_socketMap s) k = None" by auto
    moreover from this have "subscriptions s = (subscriptions s)(k := None)" by (auto simp: subscriptions_def fun_eq_iff)
    ultimately show ?thesis by auto
  next
    case (removed s1)
    then have "es_workerQueue s' = es_workerQueue s @ [Shutdown k 1000 [] b]"
      by (simp add: enqueue_worker_def unwatchSocketImpl_def same_outside_def)
    then show ?thesis using removed(2,4) by (intro conjI exI [of _ "[Shutdown k 1000 [] b]"]) simp_all
  qed
  then show "r = Inr ()" "subscriptions s' = (subscriptions s)(k := None)"
    "\<exists>sent. es_workerQueue s' = es_workerQueue s @ sent \<and> (\<forall>j m. count (mset sent) (Send j m) = 0)" by blast+
qed

lemma same_sends: "same_outside s s' \<Longrightarrow> \<exists>sent. es_workerQueue s' = es_workerQueue s @ sent \<and> (\<forall>j m. count (mset sent) (Send j m) = 0)"
  by (intro exI [of _ "[]"]) (simp add: same_outside_def)

lemma execute_refines:
  assumes run: "execute D t s = (s', r)" and ok: "tables_ok s" and quiet: "quiet D" and new: "\<forall>k. t = AddSubscriber k \<longrightarrow> k \<notin> connected s"
  shows "r = Inr () \<and> subscriptions s' = spec_after t (subscriptions s) \<and>
    (\<exists>sent. es_workerQueue s' = es_workerQueue s @ sent \<and> (\<forall>k m. count (mset sent) (Send k m) = spec_sends t (subscriptions s) k m))"
proof (cases t)
  case (AddSubscriber k)
  then have "s' = addSubscriberImpl k s" "r = Inr ()" using run by simp_all
  moreover have "es_workerQueue (addSubscriberImpl k s) = es_workerQueue s" by (simp add: addSubscriberImpl_def watchSocketImpl_def)
  ultimately show ?thesis using AddSubscriber new tables_add(2) [OF ok, of k] by simp
next
  case (RemoveSubscriber k b)
  with run have "removeSubscriberImpl D k b s = (s', r)" by simp
  from remove_refines [OF this ok quiet] RemoveSubscriber show ?thesis by simp
next
  case (Subscribe k ns)
  with run have "subscribeImpl D k ns s = (s', r)" by simp
  from subscribeImpl_result [OF this ok] quiet same_sends Subscribe show ?thesis by simp
next
  case (Unsubscribe k ns)
  with run have "unsubscribeImpl D k ns s = (s', r)" by simp
  from unsubscribeImpl_result [OF this ok] quiet same_sends Unsubscribe show ?thesis by simp
next
  case (Notify n d)
  with run have "notifyImpl D n d s = (s', r)" by simp
  from notifyImpl_result [OF this] quiet obtain sent where sent: "same_outside (s\<lparr>es_workerQueue := es_workerQueue s @ sent\<rparr>) s'"
    "es_heap s' = es_heap s" "r = Inr ()" "sent = concat (map (level_sends (notify_message n d) s) (levels n))" by blast
  have "subscriptions s' = subscriptions s"
    using sent(1,2) by (intro subscriptions_cong) (simp_all add: same_outside_def)
  moreover have "es_workerQueue s' = es_workerQueue s @ sent" using sent(1) by (simp add: same_outside_def)
  ultimately show ?thesis
    using sent(3,4) sends_count [OF ok] Notify by (intro conjI exI [of _ sent]) simp_all
next
  case (WatchSocket k)
  with run have "s' = watchSocketImpl k s" "r = Inr ()" by simp_all
  then show ?thesis using WatchSocket subscriptions_cong [of s' s] by (simp add: watchSocketImpl_def)
qed (use run in simp_all)

text \<open>
  C9: The tables of the event service implement a map from sockets to sets of subjects. Whatever clients, callers and worker threads did
  before, executing the next task of the main thread changes that map as the task says; and for a notification exactly
  these messages are queued: to each socket one for every subject it has subscribed to that is the subject notified or one
  above it. The delegates of the events must not throw.
\<close>

theorem web_event_refines:
  assumes "event_reachable workers D s" "quiet D" "es_mainQueue s = t # q"
    and "execute D t (s\<lparr>es_mainQueue := q\<rparr>) = (s', r)"
  shows "r = Inr () \<and> subscriptions s' = spec_after t (subscriptions s) \<and>
    (\<exists>sent. es_workerQueue s' = es_workerQueue s @ sent \<and> (\<forall>k m. count (mset sent) (Send k m) = spec_sends t (subscriptions s) k m))"
proof -
  define s0 where "s0 = s\<lparr>es_mainQueue := q\<rparr>"
  note invs = event_invariant [OF assms(1)]
  have ok: "tables_ok s0" using invs(1) tables_ok_cong [of s0 s] by (simp add: s0_def)
  have "k \<notin> connected s0" if "t = AddSubscriber k" for k
    using tokens_okD(2) [OF invs(2), of k] assms(3) that by (auto simp: s0_def connected_def adds_def)
  moreover have "subscriptions s0 = subscriptions s" "es_workerQueue s0 = es_workerQueue s"
    by (simp_all add: s0_def subscriptions_def fun_eq_iff)
  ultimately show ?thesis
    using execute_refines [OF assms(4) [folded s0_def] ok assms(2)] by simp
qed

theorem web_event_refines_witness:
  "\<exists>s s' sent. event_reachable 2 silent s \<and> es_mainQueue s = [Notify ''a.b'' ''x'', WatchSocket 0]
    \<and> execute silent (Notify ''a.b'' ''x'') (s\<lparr>es_mainQueue := [WatchSocket 0]\<rparr>) = (s', Inr ())
    \<and> es_workerQueue s' = es_workerQueue s @ sent \<and> count (mset sent) (Send 0 (notify_message ''a.b'' ''x'')) = 1"
proof -
  obtain s where s: "sample_subscribed = Some s" "es_mainQueue s = [Notify ''a.b'' ''x'', WatchSocket 0]"
    "es_socketMap s = [(0, 0)]" "names_of s 0 = [''a'']"
    using sample_subscribed_eval by (cases sample_subscribed) auto
  from s(1) have reach: "event_reachable 2 silent s" unfolding sample_subscribed_def by (rule acts_reachable)
  obtain s' r where run: "execute silent (Notify ''a.b'' ''x'') (s\<lparr>es_mainQueue := [WatchSocket 0]\<rparr>) = (s', r)" by (meson surj_pair)
  note refines = web_event_refines [OF reach quiet_silent s(2) run]
  have "covers ''a'' ''a.b''" by (simp add: covers_def)
  then have "{n \<in> {''a''}. covers n ''a.b''} = {''a''}" by auto
  then have "spec_sends (Notify ''a.b'' ''x'') (subscriptions s) 0 (notify_message ''a.b'' ''x'') = 1"
    using s(3,4) by (simp add: subscriptions_def)
  with refines reach run s(2) show ?thesis by metis
qed

text \<open>
  C10: No connected socket is forgotten, and none is read by two threads: in every state that the threads can reach, a connected
  socket is watched, or a worker is to read it or is reading it, or it is on its way back to the list of watched sockets, or
  it is about to be removed; and of the first three only one at a time, once. The delegates of the events must not throw.
\<close>

theorem no_subscriber_forgotten:
  assumes "event_reachable workers D s" "quiet D" "k \<in> connected s"
  shows "(k \<in> set (es_socketList s) \<or> Receive k \<in> set (es_workerQueue s @ es_busy s) \<or> WatchSocket k \<in> set (es_mainQueue s)
      \<or> (\<exists>b. RemoveSubscriber k b \<in> set (es_mainQueue s)))
    \<and> count (mset (es_socketList s)) k + count (mset (es_workerQueue s @ es_busy s)) (Receive k)
        + count (mset (es_mainQueue s)) (WatchSocket k) \<le> 1"
proof -
  note invs = event_invariant [OF assms(1)]
  have "tokens s k \<le> 1" using tokens_okD(1) [OF invs(2), of k] by simp
  moreover have "tokens s k = 1 \<or> (\<exists>b. RemoveSubscriber k b \<in> set (es_mainQueue s))"
    using invs(3) assms(2,3) by (auto simp: served_def waits_def)
  moreover have "tokens s k = 0"
    if "k \<notin> set (es_socketList s)" "Receive k \<notin> set (es_workerQueue s @ es_busy s)" "WatchSocket k \<notin> set (es_mainQueue s)"
    using that by (auto simp: tokens_def count_eq_zero_iff)
  ultimately show ?thesis by (auto simp: tokens_def simp del: count_mset_0_iff)
qed

theorem no_subscriber_forgotten_witness:
  "\<exists>s. event_reachable 2 silent s \<and> 0 \<in> connected s \<and> count (mset (es_socketList s)) 0 + count (mset (es_workerQueue s @ es_busy s)) (Receive 0)
        + count (mset (es_mainQueue s)) (WatchSocket 0) \<le> 1"
proof -
  obtain s where s: "sample_subscribed = Some s" "es_socketMap s = [(0, 0)]"
    using sample_subscribed_eval by (cases sample_subscribed) auto
  from s(1) have reach: "event_reachable 2 silent s" unfolding sample_subscribed_def by (rule acts_reachable)
  have conn: "0 \<in> connected s" using s(2) by (simp add: connected_def)
  from no_subscriber_forgotten [OF reach quiet_silent conn] reach conn show ?thesis by blast
qed

text \<open>
  C33: The service reads the messages that it prints: a frame with a verb, a list of subjects without commas and spaces and any data is
  read as these; a notification that comes back from a client is enqueued as it was sent, and the socket watched again.
\<close>

theorem event_messages_roundtrip:
  assumes "verb = SUBSCRIBE \<or> verb = UNSUBSCRIBE \<or> verb = NOTIFY" "names \<noteq> []" "\<forall>n \<in> set (name # names). subject_name n" "name \<noteq> SYSTEM_PING"
  shows "parse_frame (message verb names data) = Some (verb, sort (remdups names), data)
    \<and> receiveImpl k (Inr (notify_message name data, 0x81)) s = enqueue_main (WatchSocket k) (enqueue_main (Notify name data) s)"
proof -
  have "parse_frame (notify_message name data) = Some (NOTIFY, [name], data)"
    using parse_message [of NOTIFY "[name]" data] assms(3) by (simp add: notify_message_eq)
  moreover have "notify_message name data \<noteq> []" by (simp add: notify_message_def NOTIFY_def)
  moreover have "NOTIFY \<noteq> SUBSCRIBE" "NOTIFY \<noteq> UNSUBSCRIBE" by (simp_all add: NOTIFY_def SUBSCRIBE_def UNSUBSCRIBE_def)
  ultimately have "receiveImpl k (Inr (notify_message name data, 0x81)) s = enqueue_main (WatchSocket k) (enqueue_main (Notify name data) s)"
    using assms(4) by (simp add: receiveImpl_def notify_subject_def FRAME_OP_PONG_def FRAME_OP_CLOSE_def)
  then show ?thesis using parse_message [OF assms(1,2)] assms(3) by simp
qed

theorem event_messages_roundtrip_witness:
  "parse_frame (message SUBSCRIBE [''b'', ''a.c'', ''b''] []) = Some (SUBSCRIBE, [''a.c'', ''b''], [])
    \<and> receiveImpl 3 (Inr (notify_message ''a.b'' [], 0x81)) (event_service_new 0)
      = enqueue_main (WatchSocket 3) (enqueue_main (Notify ''a.b'' []) (event_service_new 0))"
  using event_messages_roundtrip [of SUBSCRIBE "[''b'', ''a.c'', ''b'']" "''a.b''" "[]" 3 "event_service_new 0"]
  by (simp add: subject_name_def SYSTEM_PING_def)

section \<open>What the service does not mean to do\<close>

text \<open>
  The opcodes of WebSocket frames are numbers and not flags: the test for a pong frame succeeds for a close frame too, so that the
  frame with which a client ends the connection is ignored and the socket watched again.
\<close>

lemma close_frame_ignored:
  "receiveImpl k (Inr (buffer, or 0x80 FRAME_OP_CLOSE)) s = enqueue_main (WatchSocket k) s"
  by (simp add: receiveImpl_def FRAME_OP_PONG_def FRAME_OP_CLOSE_def)

text \<open>
  A socket can be watched again after its removal: a worker that could not send asks for the removal while another one reads a frame
  from the same socket. The list of watched sockets then keeps a closed socket for ever, since only sockets with a subscriber
  are taken out of it.
\<close>

definition ping :: string where "ping = message NOTIFY [SYSTEM_PING] []"

definition sample_stale :: "event_service option" where
  "sample_stale = acts 2 silent [Accept, Main, Select [0] [], Take, Received 0 (Inr (ping, 0x81)), Main, Select [0] [], Take, Take,
     Sent 0 (notify_message SYSTEM_PONG []) (Inl (OtherException [])), Received 0 (Inr (ping, 0x81)), Main, Main,
     Take, Take, Closed 0 False (Inl (OtherException []))] (event_service_new 0)"

lemma sample_stale_eval:
  "map_option (\<lambda>s. (es_socketList s, es_socketMap s, es_closed s, es_mainQueue s)) sample_stale = Some ([0], [], [0], [])"
  by code_simp

lemma closed_socket_watched:
  "\<exists>s. event_reachable 2 silent s \<and> 0 \<in> set (es_socketList s) \<and> 0 \<notin> connected s \<and> 0 \<in> set (es_closed s)"
proof -
  obtain s where s: "sample_stale = Some s" "es_socketList s = [0]" "es_socketMap s = []" "es_closed s = [0]"
    using sample_stale_eval by (cases sample_stale) auto
  from s(1) have "event_reachable 2 silent s" unfolding sample_stale_def by (rule acts_reachable)
  with s(2-4) show ?thesis by (auto simp: connected_def)
qed

lemma unconnected_never_unwatched:
  assumes "k \<notin> connected s" "k \<in> set (es_socketList s)"
  shows "k \<in> set (es_socketList (receive_ready k s))" "removeSubscriberImpl D k b s = (s, Inr ())"
proof -
  have "map_of (es_socketMap s) k = None" using assms(1) by (simp add: connected_def map_of_eq_None_iff)
  then show "k \<in> set (es_socketList (receive_ready k s))" "removeSubscriberImpl D k b s = (s, Inr ())"
    using assms(2) by (simp_all add: receive_ready_def removeSubscriberImpl_def)
qed

text \<open>The number of sockets is checked when a client asks, and the client is added later: several clients can pass the check for the last place.\<close>

definition sample_limit :: "event_service option" where
  "sample_limit = acts 2 silent [Accept, Accept, Main, Main] (event_service_new 1)"

lemma sample_limit_eval: "map_option (\<lambda>s. (es_maxSockets s, length (es_socketMap s))) sample_limit = Some (1, 2)"
  by code_simp

end
