(* ===== verification/Metrics.thy ===== *)
theory Metrics
  imports Prelude "HOL-Library.Sublist"
begin

text \<open>
  The registry of metrics, \<open>observability/src/Metrics.cpp\<close>: counters and histograms by series, the limit on the number of series, the
  snapshot and the OTLP text, the export with the cache of payloads that could not be sent. Doubles are an arbitrary type with the
  operations of the record \<open>metric_floats\<close>. The OpenTelemetry SDK is not in the repository: the calls made to it are recorded in a
  list. \<open>unordered_map\<close> is the list of its entries in the order of insertion; its iteration order is unspecified, and nothing below
  depends on it. \<open>try_to_lock\<close> may fail: whether it did is an argument. The cache directory is a sorted map from
  file names to contents whose operations succeed; the printing of JSON is a parameter.
\<close>

section \<open>Data\<close>

record 'd metric_floats =
  mf_lit :: "nat \<Rightarrow> 'd"
  mf_unsigned :: "64 word \<Rightarrow> 'd"
  mf_add :: "'d \<Rightarrow> 'd \<Rightarrow> 'd"
  mf_less :: "'d \<Rightarrow> 'd \<Rightarrow> bool"

type_synonym attributes = "(string \<times> string) list"

datatype MetricKind = Kcounter | Khistogram

record 'd MetricPoint =
  mp_name :: string
  mp_description :: string
  mp_unit :: string
  mp_kind :: MetricKind
  mp_attributes :: attributes
  mp_value :: 'd
  mp_count :: "64 word"
  mp_sum :: 'd
  mp_minimum :: 'd
  mp_maximum :: 'd
  mp_explicitBounds :: "'d list"
  mp_bucketCounts :: "64 word list"
  mp_timestamp :: int

definition MetricPoint_new :: "'d metric_floats \<Rightarrow> string \<Rightarrow> string \<Rightarrow> string \<Rightarrow> MetricKind \<Rightarrow> attributes \<Rightarrow> 'd MetricPoint" where
  "MetricPoint_new F name description unt kind attrs =
     \<lparr>mp_name = name, mp_description = description, mp_unit = unt, mp_kind = kind, mp_attributes = attrs, mp_value = mf_lit F 0,
      mp_count = 0, mp_sum = mf_lit F 0, mp_minimum = mf_lit F 0, mp_maximum = mf_lit F 0, mp_explicitBounds = [], mp_bucketCounts = [],
      mp_timestamp = 0\<rparr>"

record MetricsOptions =
  mo_serviceName :: string
  mo_serviceInstanceId :: string
  mo_otlpHttpEndpoint :: string
  mo_offlineCacheMaximumFiles :: nat
  mo_maximumSeries :: nat

definition MetricsOptions_default :: MetricsOptions where
  "MetricsOptions_default = \<lparr>mo_serviceName = ''pdr-runtime'', mo_serviceInstanceId = [], mo_otlpHttpEndpoint = [],
     mo_offlineCacheMaximumFiles = 1000, mo_maximumSeries = 2000\<rparr>"

datatype 'd sdk_call = CreateCounter string string string | CreateHistogram string string string
  | AddToCounter string "64 word" attributes | RecordHistogram string 'd attributes

record 'd metrics =
  mt_options :: MetricsOptions
  mt_points :: "(string \<times> 'd MetricPoint) list"
  mt_droppedSeries :: "64 word"
  mt_counters :: "string list"
  mt_histograms :: "string list"
  mt_meter :: bool
  mt_active :: bool
  mt_exporter :: bool
  mt_sdk :: "'d sdk_call list"
  mt_files :: "(string \<times> string) list"

definition metrics_new :: "(string \<times> string) list \<Rightarrow> 'd metrics" where
  "metrics_new files = \<lparr>mt_options = MetricsOptions_default, mt_points = [], mt_droppedSeries = 0, mt_counters = [], mt_histograms = [],
     mt_meter = False, mt_active = False, mt_exporter = False, mt_sdk = [], mt_files = files\<rparr>"

section \<open>Starting and stopping\<close>

definition shutdown :: "'d metrics \<Rightarrow> 'd metrics" where
  "shutdown m = m\<lparr>mt_active := False, mt_exporter := False, mt_meter := False, mt_counters := [], mt_histograms := []\<rparr>"

definition counter_names :: "string list" where
  "counter_names = [''pdr.runtime.starts'', ''pdr.runtime.shutdowns'', ''pdr.dds.runtime.starts'', ''pdr.dds.messages.received'',
     ''pdr.dds.messages.published'', ''pdr.dds.handler.errors'', ''pdr.dds.publish.errors'', ''pdr.dds.service.cache.hits'',
     ''pdr.dds.service.requests'', ''pdr.dds.service.response.errors'', ''pdr.device.starts'', ''pdr.device.commands'',
     ''pdr.workflow.executions'', ''pdr.workflow.compensations'', ''pdr.protocol.operations'', ''pdr.protocol.io'',
     ''pdr.health.component.samples'', ''pdr.diagnostics.failure.samples'', ''pdr.alert.transitions'', ''pdr.alert.delivery'',
     ''http.server.request.count'', ''http.server.response.count'']"

definition histogram_names :: "string list" where
  "histogram_names = [''pdr.dds.publish.duration'', ''pdr.dds.service.duration'', ''pdr.device.command.duration'', ''pdr.workflow.duration'',
     ''pdr.protocol.operation.duration'', ''http.server.request.duration'', ''pdr.management.tasks.queue.depth'',
     ''pdr.management.tasks.workers.active'', ''pdr.management.tasks.resource.waiting'', ''pdr.management.tasks.queue.utilization'',
     ''pdr.management.tasks.wait.max'']"

text \<open>\<open>initialize\<close>: \<open>uri\<close> and \<open>mkdir\<close> are the results of parsing the endpoint and of creating the cache directory.\<close>

definition initialize :: "unit res \<Rightarrow> unit res \<Rightarrow> MetricsOptions \<Rightarrow> 'd metrics \<Rightarrow> 'd metrics \<times> unit res" where
  "initialize uri mkdir requested m =
     (let m = shutdown m;
          requested = (if mo_maximumSeries requested = 0 then requested\<lparr>mo_maximumSeries := 1\<rparr> else requested);
          m = m\<lparr>mt_options := requested, mt_points := [], mt_droppedSeries := 0\<rparr>
      in case (if mo_otlpHttpEndpoint requested \<noteq> [] then uri else Inr ()) of
           Inl e \<Rightarrow> (m, Inl e)
         | Inr _ \<Rightarrow>
             let m = m\<lparr>mt_meter := True, mt_counters := counter_names, mt_histograms := histogram_names,
                       mt_sdk := mt_sdk m @ map (\<lambda>n. CreateCounter n [] []) counter_names @ map (\<lambda>n. CreateHistogram n [] []) histogram_names,
                       mt_active := True\<rparr>
             in if mo_otlpHttpEndpoint requested = [] then (m, Inr ())
                else case mkdir of Inl e \<Rightarrow> (m, Inl e) | Inr _ \<Rightarrow> (m\<lparr>mt_exporter := True\<rparr>, Inr ()))"

section \<open>Measurements\<close>

definition seriesKey :: "string \<Rightarrow> attributes \<Rightarrow> string" where
  "seriesKey name attrs = name @ concat (map (\<lambda>(k, v). CHR 0x1F # k @ ''='' @ v) attrs)"

definition addSeries :: "string \<Rightarrow> 'd MetricPoint \<Rightarrow> 'd metrics \<Rightarrow> 'd metrics \<times> bool" where
  "addSeries key point m =
     (if map_of (mt_points m) key \<noteq> None then (m, True)
      else if length (mt_points m) \<ge> mo_maximumSeries (mt_options m)
      then (m\<lparr>mt_droppedSeries := mt_droppedSeries m + 1\<rparr>, False)
      else (m\<lparr>mt_points := mt_points m @ [(key, point)]\<rparr>, True))"

text \<open>\<open>auto& point = points[key]\<close> and the changes made to it.\<close>

definition change_point :: "string \<Rightarrow> ('d MetricPoint \<Rightarrow> 'd MetricPoint) \<Rightarrow> 'd metrics \<Rightarrow> 'd metrics" where
  "change_point key f m = m\<lparr>mt_points := map (\<lambda>(k, p). (k, if k = key then f p else p)) (mt_points m)\<rparr>"

definition count_point :: "'d metric_floats \<Rightarrow> 64 word \<Rightarrow> int \<Rightarrow> 'd MetricPoint \<Rightarrow> 'd MetricPoint" where
  "count_point F v now p = p\<lparr>mp_value := mf_add F (mp_value p) (mf_unsigned F v), mp_timestamp := now\<rparr>"

definition bounds :: "'d metric_floats \<Rightarrow> 'd list" where
  "bounds F = map (mf_lit F) [1, 5, 10, 25, 50, 100, 250, 500, 1000, 5000]"

text \<open>\<open>std::upper_bound\<close> on a sorted range: the number of bounds that the value does not stay below.\<close>

definition bucket :: "'d metric_floats \<Rightarrow> 'd list \<Rightarrow> 'd \<Rightarrow> nat" where
  "bucket F bs v = length (takeWhile (\<lambda>b. \<not> mf_less F v b) bs)"

definition histogram_point :: "'d metric_floats \<Rightarrow> 'd \<Rightarrow> int \<Rightarrow> 'd MetricPoint \<Rightarrow> 'd MetricPoint" where
  "histogram_point F v now p =
     (let p = (if mp_explicitBounds p = [] then p\<lparr>mp_explicitBounds := bounds F, mp_bucketCounts := replicate (length (bounds F) + 1) 0\<rparr> else p);
          p = p\<lparr>mp_value := v, mp_sum := mf_add F (mp_sum p) v\<rparr>;
          p = (if mp_count p = 0 then p\<lparr>mp_minimum := v, mp_maximum := v\<rparr>
               else p\<lparr>mp_minimum := (if mf_less F v (mp_minimum p) then v else mp_minimum p),
                      mp_maximum := (if mf_less F (mp_maximum p) v then v else mp_maximum p)\<rparr>);
          i = bucket F (mp_explicitBounds p) v
      in p\<lparr>mp_count := mp_count p + 1, mp_bucketCounts := (mp_bucketCounts p)[i := mp_bucketCounts p ! i + 1], mp_timestamp := now\<rparr>)"

definition addCounter :: "'d metric_floats \<Rightarrow> bool \<Rightarrow> int \<Rightarrow> string \<Rightarrow> 64 word \<Rightarrow> attributes \<Rightarrow> string \<Rightarrow> string \<Rightarrow> bool \<Rightarrow> 'd metrics \<Rightarrow> 'd metrics" where
  "addCounter F locked now name v attrs description unt recordWithSdk m =
     (if \<not> mt_active m \<or> name = [] then m
      else let m = (if mt_meter m \<and> recordWithSdk
                    then let m = (if name \<in> set (mt_counters m) then m
                                  else m\<lparr>mt_counters := name # mt_counters m, mt_sdk := mt_sdk m @ [CreateCounter name description unt]\<rparr>)
                         in m\<lparr>mt_sdk := mt_sdk m @ [AddToCounter name v attrs]\<rparr>
                    else m)
           in if \<not> locked then m
              else let key = seriesKey name attrs
                   in case addSeries key (MetricPoint_new F name description unt Kcounter attrs) m of
                        (m, False) \<Rightarrow> m
                      | (m, True) \<Rightarrow> change_point key (count_point F v now) m)"

definition recordHistogram :: "'d metric_floats \<Rightarrow> bool \<Rightarrow> int \<Rightarrow> string \<Rightarrow> 'd \<Rightarrow> attributes \<Rightarrow> string \<Rightarrow> string \<Rightarrow> bool \<Rightarrow> 'd metrics \<Rightarrow> 'd metrics" where
  "recordHistogram F locked now name v attrs description unt recordWithSdk m =
     (if \<not> mt_active m \<or> name = [] then m
      else let m = (if mt_meter m \<and> recordWithSdk
                    then let m = (if name \<in> set (mt_histograms m) then m
                                  else m\<lparr>mt_histograms := name # mt_histograms m, mt_sdk := mt_sdk m @ [CreateHistogram name description unt]\<rparr>)
                         in m\<lparr>mt_sdk := mt_sdk m @ [RecordHistogram name v attrs]\<rparr>
                    else m)
           in if \<not> locked then m
              else let key = seriesKey name attrs
                   in case addSeries key (MetricPoint_new F name description unt Khistogram attrs) m of
                        (m, False) \<Rightarrow> m
                      | (m, True) \<Rightarrow> change_point key (histogram_point F v now) m)"

definition snapshot :: "'d metric_floats \<Rightarrow> int \<Rightarrow> 'd metrics \<Rightarrow> 'd MetricPoint list" where
  "snapshot F now m = map snd (mt_points m) @
     (if mt_droppedSeries m \<noteq> 0
      then [(MetricPoint_new F ''pdr.metrics.series.dropped'' ''Metric series rejected by cardinality guard'' ''{series}'' Kcounter [])
              \<lparr>mp_value := mf_unsigned F (mt_droppedSeries m), mp_timestamp := now\<rparr>]
      else [])"

section \<open>The OTLP text\<close>

datatype 'd json = JString string | JDouble 'd | JInt nat | JBool bool | JArray "'d json list" | JObject "(string \<times> 'd json) list"

definition attribute_json :: "string \<times> string \<Rightarrow> 'd json" where
  "attribute_json kv = JObject [(''key'', JString (fst kv)), (''value'', JObject [(''stringValue'', JString (snd kv))])]"

definition to_string_int :: "int \<Rightarrow> string" where
  "to_string_int i = (if i < 0 then ''-'' @ decimal (nat (- i)) else decimal (nat i))"

definition point_json :: "'d MetricPoint \<Rightarrow> 'd json" where
  "point_json p =
     (let base = [(''attributes'', JArray (map attribute_json (mp_attributes p))), (''timeUnixNano'', JString (to_string_int (mp_timestamp p)))]
      in JObject ([(''name'', JString (mp_name p)), (''description'', JString (mp_description p)), (''unit'', JString (mp_unit p))] @
           (case mp_kind p of
              Khistogram \<Rightarrow>
                [(''histogram'', JObject [(''aggregationTemporality'', JInt 2), (''dataPoints'', JArray [JObject (base @
                   [(''count'', JString (decimal (unat (mp_count p)))), (''sum'', JDouble (mp_sum p)), (''min'', JDouble (mp_minimum p)),
                    (''max'', JDouble (mp_maximum p)), (''explicitBounds'', JArray (map JDouble (mp_explicitBounds p))),
                    (''bucketCounts'', JArray (map (\<lambda>c. JString (decimal (unat c))) (mp_bucketCounts p)))])])])]
            | Kcounter \<Rightarrow>
                [(''sum'', JObject [(''aggregationTemporality'', JInt 2), (''isMonotonic'', JBool True),
                   (''dataPoints'', JArray [JObject (base @ [(''asDouble'', JDouble (mp_value p))])])])])))"

definition otlpJson :: "'d metric_floats \<Rightarrow> int \<Rightarrow> 'd metrics \<Rightarrow> 'd json" where
  "otlpJson F now m =
     JObject [(''resourceMetrics'', JArray [JObject
       [(''resource'', JObject [(''attributes'', JArray (map attribute_json
            [(''service.instance.id'', mo_serviceInstanceId (mt_options m)), (''service.name'', mo_serviceName (mt_options m))]))]),
        (''scopeMetrics'', JArray [JObject
          [(''scope'', JObject [(''name'', JString ''PocoDDSRuntime''), (''version'', JString ''1.0.0'')]),
           (''metrics'', JArray (map point_json (snapshot F now m)))]])]])]"

text \<open>The text of \<open>snapshotJson\<close>.\<close>

fun kindName :: "MetricKind \<Rightarrow> string" where
  "kindName Kcounter = ''counter''"
| "kindName Khistogram = ''histogram''"

definition item_json :: "'d MetricPoint \<Rightarrow> 'd json" where
  "item_json p = JObject ([(''name'', JString (mp_name p)), (''description'', JString (mp_description p)), (''unit'', JString (mp_unit p)),
     (''kind'', JString (kindName (mp_kind p))), (''attributes'', JObject (map (\<lambda>(k, v). (k, JString v)) (mp_attributes p))),
     (''value'', JDouble (mp_value p)), (''count'', JInt (unat (mp_count p))), (''sum'', JDouble (mp_sum p)),
     (''minimum'', JDouble (mp_minimum p)), (''maximum'', JDouble (mp_maximum p))] @
     (if mp_kind p = Khistogram
      then [(''explicitBounds'', JArray (map JDouble (mp_explicitBounds p))), (''bucketCounts'', JArray (map (\<lambda>c. JInt (unat c)) (mp_bucketCounts p)))]
      else []) @
     [(''timestampUnixNano'', JString (to_string_int (mp_timestamp p)))])"

definition snapshotJson :: "'d metric_floats \<Rightarrow> int \<Rightarrow> 'd metrics \<Rightarrow> 'd json" where
  "snapshotJson F now m = JObject [(''serviceName'', JString (mo_serviceName (mt_options m))),
     (''serviceInstanceId'', JString (mo_serviceInstanceId (mt_options m))), (''metrics'', JArray (map item_json (snapshot F now m)))]"

section \<open>Export and the cache of payloads\<close>

definition cacheFiles :: "'d metrics \<Rightarrow> string list" where
  "cacheFiles m = filter (\<lambda>name. sublist ''.otlp.json'' name) (map fst (mt_files m))"

text \<open>The loop that removes the oldest files; \<open>None\<close> is the call of \<open>front\<close> on an empty vector.\<close>

fun evict :: "nat \<Rightarrow> string list \<Rightarrow> 'd metrics \<Rightarrow> (string list \<times> 'd metrics) option" where
  "evict limit files m =
     (if length files < limit then Some (files, m)
      else case files of [] \<Rightarrow> None
           | f # fs \<Rightarrow> evict limit fs (m\<lparr>mt_files := smap_del (<) f (mt_files m)\<rparr>))"

declare evict.simps [simp del]

definition cachePayload :: "int \<Rightarrow> string \<Rightarrow> 'd metrics \<Rightarrow> 'd metrics option" where
  "cachePayload now payload m =
     (case evict (mo_offlineCacheMaximumFiles (mt_options m)) (cacheFiles m) m of
        None \<Rightarrow> None
      | Some (_, m) \<Rightarrow> Some (m\<lparr>mt_files := smap_put (<) (to_string_int now @ ''.otlp.json'') payload (mt_files m)\<rparr>))"

text \<open>The loop of \<open>replayCache\<close>: \<open>answers\<close> are the results of \<open>postPayload\<close>; the number of files replayed and the payloads posted.\<close>

fun replay_loop :: "bool list \<Rightarrow> string list \<Rightarrow> 'd metrics \<Rightarrow> 'd metrics \<times> string list" where
  "replay_loop answers [] m = (m, [])"
| "replay_loop [] (f # fs) m = (m, [])"
| "replay_loop (posted # answers) (f # fs) m =
     (if \<not> posted then (m, [])
      else case replay_loop answers fs (m\<lparr>mt_files := smap_del (<) f (mt_files m)\<rparr>) of
             (m', sent) \<Rightarrow> (m', the (smap_get (<) f (mt_files m)) # sent))"

definition replayCache :: "'d metric_floats \<Rightarrow> bool \<Rightarrow> int \<Rightarrow> bool list \<Rightarrow> 'd metrics \<Rightarrow> 'd metrics \<times> string list" where
  "replayCache F locked now answers m =
     (case replay_loop answers (cacheFiles m) m of
        (m, sent) \<Rightarrow>
          (let m = (if sent \<noteq> [] then addCounter F locked now ''pdr.metrics.offline.replayed'' (of_nat (length sent)) []
                       ''Offline metric payloads replayed'' ''{payload}'' False m else m)
           in (recordHistogram F locked now ''pdr.metrics.offline.cache.depth'' (mf_lit F (length (cacheFiles m))) []
                 ''Offline metric payload cache depth'' ''{payload}'' False m, sent)))"

text \<open>\<open>flush\<close>: \<open>exported\<close> is the result of \<open>ForceFlush\<close>.\<close>

definition flush :: "'d metric_floats \<Rightarrow> ('d json \<Rightarrow> string) \<Rightarrow> bool \<Rightarrow> int \<Rightarrow> bool \<Rightarrow> bool list \<Rightarrow> 'd metrics \<Rightarrow> ('d metrics \<times> string list \<times> bool) option" where
  "flush F stringify locked now exported answers m =
     (if mo_otlpHttpEndpoint (mt_options m) = [] then Some (m, [], True)
      else if \<not> (mt_meter m \<and> exported)
      then (case cachePayload now (stringify (otlpJson F now m)) m of
              None \<Rightarrow> None
            | Some m \<Rightarrow> Some (addCounter F locked now ''pdr.metrics.export.attempts'' 1 [(''result'', ''failed'')]
                          ''Metric export attempts'' ''{attempt}'' False m, [], False))
      else (case replayCache F locked now answers (addCounter F locked now ''pdr.metrics.export.attempts'' 1 [(''result'', ''success'')]
                    ''Metric export attempts'' ''{attempt}'' False m) of
              (m, sent) \<Rightarrow> Some (m, sent, True)))"

section \<open>Every accepted series is measured exactly\<close>

text \<open>A call of \<open>addCounter\<close> or \<open>recordHistogram\<close> with its arguments, in the order of the definitions.\<close>

datatype 'd measurement =
    Count bool int string "64 word" attributes string string bool
  | Measure bool int string 'd attributes string string bool

fun measure :: "'d metric_floats \<Rightarrow> 'd measurement \<Rightarrow> 'd metrics \<Rightarrow> 'd metrics" where
  "measure F (Count locked now name v attrs description unt sdk) m = addCounter F locked now name v attrs description unt sdk m"
| "measure F (Measure locked now name v attrs description unt sdk) m = recordHistogram F locked now name v attrs description unt sdk m"

fun effective :: "'d measurement \<Rightarrow> bool" where
  "effective (Count locked now name v attrs description unt sdk) \<longleftrightarrow> locked \<and> name \<noteq> []"
| "effective (Measure locked now name v attrs description unt sdk) \<longleftrightarrow> locked \<and> name \<noteq> []"

fun series_of :: "'d measurement \<Rightarrow> string" where
  "series_of (Count locked now name v attrs description unt sdk) = seriesKey name attrs"
| "series_of (Measure locked now name v attrs description unt sdk) = seriesKey name attrs"

fun first_point :: "'d metric_floats \<Rightarrow> 'd measurement \<Rightarrow> 'd MetricPoint" where
  "first_point F (Count locked now name v attrs description unt sdk) = MetricPoint_new F name description unt Kcounter attrs"
| "first_point F (Measure locked now name v attrs description unt sdk) = MetricPoint_new F name description unt Khistogram attrs"

fun update_point :: "'d metric_floats \<Rightarrow> 'd measurement \<Rightarrow> 'd MetricPoint \<Rightarrow> 'd MetricPoint" where
  "update_point F (Count locked now name v attrs description unt sdk) = count_point F v now"
| "update_point F (Measure locked now name v attrs description unt sdk) = histogram_point F v now"

text \<open>The point of a series that has these measurements and no others.\<close>

fun point_of :: "'d metric_floats \<Rightarrow> 'd measurement list \<Rightarrow> 'd MetricPoint" where
  "point_of F [] = undefined"
| "point_of F (x # xs) = fold (update_point F) (x # xs) (first_point F x)"

lemma point_of_snoc: "xs \<noteq> [] \<Longrightarrow> point_of F (xs @ [x]) = update_point F x (point_of F xs)"
  by (cases xs) simp_all

definition record_step :: "nat \<Rightarrow> 'd metric_floats \<Rightarrow> 'd measurement \<Rightarrow> (string \<times> 'd MetricPoint) list \<times> 64 word \<Rightarrow> (string \<times> 'd MetricPoint) list \<times> 64 word" where
  "record_step limit F x = (\<lambda>(ps, d).
     if map_of ps (series_of x) \<noteq> None then (map (\<lambda>(k, p). (k, if k = series_of x then update_point F x p else p)) ps, d)
     else if length ps \<ge> limit then (ps, d + 1)
     else (ps @ [(series_of x, update_point F x (first_point F x))], d))"

lemma map_fresh: "map_of ps k = None \<Longrightarrow> map (\<lambda>(j, p). (j, if j = k then f p else p)) ps = ps"
  by (induction ps) (auto split: if_splits)

lemma measure_step:
  assumes "mt_active m"
  shows "(mt_points (measure F x m), mt_droppedSeries (measure F x m)) =
      (if effective x then record_step (mo_maximumSeries (mt_options m)) F x (mt_points m, mt_droppedSeries m) else (mt_points m, mt_droppedSeries m))"
    and "mt_active (measure F x m)" and "mt_options (measure F x m) = mt_options m"
  using assms by (cases x; auto simp: addCounter_def recordHistogram_def addSeries_def change_point_def record_step_def Let_def map_fresh)+

definition firsts :: "'a list \<Rightarrow> 'a list" where
  "firsts xs = rev (remdups (rev xs))"

lemma firsts_snoc: "firsts (xs @ [x]) = firsts xs @ (if x \<in> set xs then [] else [x])"
  by (simp add: firsts_def)

lemma set_firsts [simp]: "set (firsts xs) = set xs"
  by (simp add: firsts_def)

lemma distinct_firsts: "distinct (firsts xs)"
  by (simp add: firsts_def)

text \<open>The state of the registry after these measurements: \<open>limit\<close> series, in the order of their first measurement.\<close>

definition accepted :: "nat \<Rightarrow> 'd measurement list \<Rightarrow> string list" where
  "accepted limit xs = take limit (firsts (map series_of xs))"

definition registry_after :: "nat \<Rightarrow> 'd metric_floats \<Rightarrow> 'd measurement list \<Rightarrow> (string \<times> 'd MetricPoint) list \<times> 64 word" where
  "registry_after limit F xs = (map (\<lambda>k. (k, point_of F (filter (\<lambda>x. series_of x = k) xs))) (accepted limit xs),
     of_nat (length (filter (\<lambda>x. series_of x \<notin> set (accepted limit xs)) xs)))"

lemma map_of_tabulate: "map_of (map (\<lambda>k. (k, f k)) ks) k = (if k \<in> set ks then Some (f k) else None)"
  by (induction ks) auto

lemma accepted_snoc:
  "accepted limit (xs @ [x]) = accepted limit xs @
     (if series_of x \<notin> set (accepted limit xs) \<and> length (accepted limit xs) < limit then [series_of x] else [])"
proof -
  let ?ks = "map series_of xs" and ?k = "series_of x"
  consider "?k \<in> set ?ks" "length (firsts ?ks) \<le> limit" | "?k \<notin> set ?ks" "length (firsts ?ks) < limit" | "limit \<le> length (firsts ?ks)"
    by linarith
  then show ?thesis
  proof cases
    case 1
    then have "?k \<in> set (accepted limit xs)" by (simp add: accepted_def)
    with 1 show ?thesis by (simp add: accepted_def firsts_snoc)
  next
    case 2
    then show ?thesis by (simp add: accepted_def firsts_snoc)
  next
    case 3
    then have "length (accepted limit xs) = limit" by (simp add: accepted_def)
    with 3 show ?thesis by (simp add: accepted_def firsts_snoc)
  qed
qed

lemma all_accepted:
  assumes "length (accepted limit xs) < limit"
  shows "set (accepted limit xs) = set (map series_of xs)"
  using assms by (simp add: accepted_def)

lemma registry_snoc: "registry_after limit F (xs @ [x]) = record_step limit F x (registry_after limit F xs)"
proof -
  let ?k = "series_of x" and ?own = "\<lambda>k. filter (\<lambda>x. series_of x = k) xs" and ?acc = "accepted limit xs"
  consider "?k \<in> set ?acc" | "?k \<notin> set ?acc" "length ?acc < limit" | "?k \<notin> set ?acc" "limit \<le> length ?acc" by linarith
  then show ?thesis
  proof cases
    case 1
    then have "?k \<in> set (map series_of xs)"
      unfolding accepted_def by (metis in_set_takeD set_firsts)
    then have "?own ?k \<noteq> []" by (auto simp: filter_empty_conv)
    then have "point_of F (?own ?k @ [x]) = update_point F x (point_of F (?own ?k))" by (rule point_of_snoc)
    with 1 show ?thesis
      by (simp add: registry_after_def record_step_def accepted_snoc map_of_tabulate)
  next
    case 2
    have all: "set ?acc = set (map series_of xs)" by (rule all_accepted [OF 2(2)])
    then have "?own ?k = []" using 2(1) unfolding all filter_empty_conv set_map by (metis imageI)
    moreover have "filter (\<lambda>y. series_of y \<noteq> ?k \<and> series_of y \<notin> set ?acc) xs = []" "filter (\<lambda>y. series_of y \<notin> set ?acc) xs = []"
      using all by (auto simp: filter_empty_conv)
    moreover have "k \<noteq> ?k" if "k \<in> set ?acc" for k using that 2(1) by auto
    ultimately show ?thesis
      using 2 by (simp add: registry_after_def record_step_def accepted_snoc map_of_tabulate)
  next
    case 3
    have "k \<noteq> ?k" if "k \<in> set ?acc" for k using that 3(1) by auto
    with 3 show ?thesis
      by (simp add: registry_after_def record_step_def accepted_snoc map_of_tabulate)
  qed
qed

lemma run_registry:
  assumes "mt_active m" "mt_points m = []" "mt_droppedSeries m = 0"
  shows "(mt_points (fold (measure F) xs m), mt_droppedSeries (fold (measure F) xs m)) =
      registry_after (mo_maximumSeries (mt_options m)) F (filter effective xs)"
    and "mt_active (fold (measure F) xs m)" and "mt_options (fold (measure F) xs m) = mt_options m"
proof (induction xs rule: rev_induct)
  case Nil
  { case 1 then show ?case using assms by (simp add: registry_after_def accepted_def firsts_def) }
  { case 2 then show ?case using assms by simp }
  { case 3 then show ?case by simp }
next
  case (snoc x xs)
  note step = measure_step [OF snoc(2), of F x]
  { case 1
    show ?case using step(1) snoc(1,3) by (simp add: registry_snoc) }
  { case 2 then show ?case using step(2) by simp }
  { case 3 then show ?case using step(3) snoc(3) by simp }
qed

text \<open>The summary that a histogram is of its values.\<close>

definition least :: "'d metric_floats \<Rightarrow> 'd list \<Rightarrow> 'd" where
  "least F vs = fold (\<lambda>v a. if mf_less F v a then v else a) (tl vs) (hd vs)"

definition greatest :: "'d metric_floats \<Rightarrow> 'd list \<Rightarrow> 'd" where
  "greatest F vs = fold (\<lambda>v a. if mf_less F a v then v else a) (tl vs) (hd vs)"

definition in_bucket :: "'d metric_floats \<Rightarrow> 'd list \<Rightarrow> nat \<Rightarrow> nat" where
  "in_bucket F vs i = length (filter (\<lambda>v. bucket F (bounds F) v = i) vs)"

definition summarises :: "'d metric_floats \<Rightarrow> 'd list \<Rightarrow> 'd MetricPoint \<Rightarrow> bool" where
  "summarises F vs p \<longleftrightarrow> mp_count p = of_nat (length vs) \<and> mp_sum p = fold (\<lambda>v a. mf_add F a v) vs (mf_lit F 0)
     \<and> (vs \<noteq> [] \<longrightarrow> mp_value p = last vs \<and> mp_minimum p = least F vs \<and> mp_maximum p = greatest F vs
          \<and> mp_explicitBounds p = bounds F \<and> mp_bucketCounts p = map (\<lambda>i. of_nat (in_bucket F vs i)) [0..<11])
     \<and> (vs = [] \<longrightarrow> mp_explicitBounds p = [])"

lemma bounds_length [simp]: "length (bounds F) = 10" "bounds F \<noteq> []"
  by (simp_all add: bounds_def)

lemma bucket_le: "bucket F bs v \<le> length bs"
  by (simp add: bucket_def length_takeWhile_le)

lemma summarises_new: "summarises F [] (MetricPoint_new F name description unt kind attrs)"
  by (simp add: summarises_def MetricPoint_new_def)

lemma summarises_snoc:
  assumes "summarises F vs p" "length vs < 2 ^ 64"
  shows "summarises F (vs @ [v]) (histogram_point F v now p)"
proof -
  have i: "bucket F (bounds F) v < 11" using bucket_le [of F "bounds F" v] by simp
  show ?thesis
  proof (cases "vs = []")
    case True
    have zero: "replicate 11 (0 :: 64 word) = map (\<lambda>i. 0) [0..<11]" by (simp add: map_replicate_const)
    have "(replicate 11 (0 :: 64 word))[bucket F (bounds F) v := 1] = map (\<lambda>i. of_nat (in_bucket F [v] i)) [0..<11]"
      using i by (intro nth_equalityI) (simp_all add: nth_list_update in_bucket_def)
    with True assms(1) i show ?thesis
      by (simp add: summarises_def histogram_point_def least_def greatest_def Let_def)
  next
    case False
    have n: "mp_count p \<noteq> 0"
    proof -
      have "unat (of_nat (length vs) :: 64 word) = length vs"
        using assms(2) by (simp add: unat_of_nat take_bit_nat_eq_self)
      then show ?thesis using False assms(1) by (auto simp: summarises_def)
    qed
    have "(map (\<lambda>i. of_nat (in_bucket F vs i)) [0..<11])[bucket F (bounds F) v := of_nat (in_bucket F vs (bucket F (bounds F) v)) + (1 :: 64 word)]
        = map (\<lambda>i. of_nat (in_bucket F (vs @ [v]) i)) [0..<11]"
      using i by (intro nth_equalityI) (simp_all add: nth_list_update in_bucket_def)
    with False n i assms(1) show ?thesis
      by (simp add: summarises_def histogram_point_def least_def greatest_def Let_def)
  qed
qed

fun measured :: "'d measurement \<Rightarrow> 'd list" where
  "measured (Measure locked now name v attrs description unt sdk) = [v]"
| "measured (Count locked now name v attrs description unt sdk) = []"

lemma point_of_summarises:
  assumes "xs \<noteq> []" "\<forall>x \<in> set xs. measured x \<noteq> []" "length xs < 2 ^ 64"
  shows "summarises F (concat (map measured xs)) (point_of F xs)" "mp_kind (point_of F xs) = Khistogram"
proof -
  have "summarises F (concat (map measured xs)) (point_of F xs) \<and> mp_kind (point_of F xs) = Khistogram \<and> length (concat (map measured xs)) = length xs"
    using assms
  proof (induction xs rule: rev_nonempty_induct)
    case (single x)
    then obtain l n nm v a d u s where x: "x = Measure l n nm v a d u s" by (cases x) auto
    show ?case
      using summarises_snoc [OF summarises_new [of F nm d u Khistogram a], of v n]
      by (simp add: x) (simp add: MetricPoint_new_def histogram_point_def Let_def)
  next
    case (snoc x xs)
    then obtain l n nm v a d u s where x: "x = Measure l n nm v a d u s" by (cases x) auto
    from snoc have ih: "summarises F (concat (map measured xs)) (point_of F xs)" "mp_kind (point_of F xs) = Khistogram"
      "length (concat (map measured xs)) = length xs" by simp_all
    have "length (concat (map measured xs)) < 2 ^ 64" using ih(3) snoc.prems(2) by simp
    from summarises_snoc [OF ih(1) this, of v n] ih(2,3) snoc.hyps show ?case
      by (simp add: x point_of_snoc) (simp add: histogram_point_def Let_def)
  qed
  then show "summarises F (concat (map measured xs)) (point_of F xs)" "mp_kind (point_of F xs) = Khistogram" by simp_all
qed

fun counted :: "'d measurement \<Rightarrow> 64 word list" where
  "counted (Count locked now name v attrs description unt sdk) = [v]"
| "counted (Measure locked now name v attrs description unt sdk) = []"

lemma point_of_counts:
  assumes "xs \<noteq> []" "\<forall>x \<in> set xs. counted x \<noteq> []"
  shows "mp_value (point_of F xs) = fold (\<lambda>v a. mf_add F a (mf_unsigned F v)) (concat (map counted xs)) (mf_lit F 0)"
  using assms
proof (induction xs rule: rev_nonempty_induct)
  case (single x)
  then show ?case by (cases x) (simp_all add: count_point_def MetricPoint_new_def)
next
  case (snoc x xs)
  then have "mp_value (point_of F xs) = fold (\<lambda>v a. mf_add F a (mf_unsigned F v)) (concat (map counted xs)) (mf_lit F 0)" by simp
  with snoc show ?case by (cases x) (simp_all add: point_of_snoc count_point_def)
qed

lemma initialize_fresh:
  assumes "initialize uri mkdir requested m0 = (m, Inr ())"
  shows "mt_active m" "mt_points m = []" "mt_droppedSeries m = 0" "mo_maximumSeries (mt_options m) = max 1 (mo_maximumSeries requested)"
  using assms by (auto simp: initialize_def Let_def shutdown_def split: sum.splits if_splits)

section \<open>The cache of payloads\<close>

lemma del_filter: "string_order.wf_map m \<Longrightarrow> smap_del (<) k m = filter (\<lambda>e. fst e \<noteq> k) m"
proof (induction m)
  case (Cons e m)
  obtain k' v' where e: "e = (k', v')" by fastforce
  have wf: "string_order.wf_map m" and below: "\<forall>x \<in> set m. k' < fst x"
    using Cons.prems by (auto simp: string_order.wf_map_def e)
  have rest: "filter (\<lambda>e. fst e \<noteq> k) m = m" if "\<not> k' < k"
    using below that by (intro filter_True) auto
  show ?case using Cons.IH [OF wf] rest by (auto simp: e)
qed simp

lemma wf_filter: "string_order.wf_map m \<Longrightarrow> string_order.wf_map (filter P m)"
  unfolding string_order.wf_map_def sorted_wrt_map by (rule sorted_wrt_filter)

lemma fold_del:
  "string_order.wf_map m \<Longrightarrow> fold (smap_del (<)) ks m = filter (\<lambda>e. fst e \<notin> set ks) m"
proof (induction ks arbitrary: m)
  case (Cons k ks)
  have "fold (smap_del (<)) ks (filter (\<lambda>e. fst e \<noteq> k) m) = filter (\<lambda>e. fst e \<notin> set ks) (filter (\<lambda>e. fst e \<noteq> k) m)"
    by (rule Cons.IH [OF wf_filter [OF Cons.prems]])
  then show ?case by (simp add: del_filter [OF Cons.prems] conj_commute)
qed simp

lemma distinct_files: "string_order.wf_map m \<Longrightarrow> distinct (map fst m)"
  unfolding string_order.wf_map_def strict_sorted_iff by simp

lemma filter_take: "distinct xs \<Longrightarrow> filter (\<lambda>x. x \<notin> set (take k xs)) xs = drop k xs"
proof -
  assume d: "distinct xs"
  have "filter (\<lambda>x. x \<notin> set (take k xs)) (take k xs @ drop k xs) = drop k xs"
    unfolding filter_append using set_take_disj_set_drop_if_distinct [OF d, of k k] by (auto intro!: filter_True simp del: append_take_drop_id)
  then show ?thesis by simp
qed

abbreviation delete_files :: "string list \<Rightarrow> 'd metrics \<Rightarrow> 'd metrics" where
  "delete_files ks m \<equiv> m\<lparr>mt_files := fold (smap_del (<)) ks (mt_files m)\<rparr>"

lemma cacheFiles_delete:
  assumes "string_order.wf_map (mt_files m)"
  shows "cacheFiles (delete_files (take k (cacheFiles m)) m) = drop k (cacheFiles m)" "string_order.wf_map (mt_files (delete_files ks m))"
proof -
  have d: "distinct (cacheFiles m)" by (simp add: cacheFiles_def distinct_files [OF assms])
  have "cacheFiles (delete_files ks m) = filter (\<lambda>f. f \<notin> set ks) (cacheFiles m)" for ks
    by (simp add: cacheFiles_def fold_del [OF assms] filter_map o_def conj_commute)
  then show "cacheFiles (delete_files (take k (cacheFiles m)) m) = drop k (cacheFiles m)"
    by (simp add: filter_take [OF d])
  show "string_order.wf_map (mt_files (delete_files ks m))"
    by (simp add: fold_del [OF assms] wf_filter [OF assms])
qed

lemma evict_result:
  "0 < limit \<Longrightarrow> evict limit files m = Some (drop (length files + 1 - limit) files, delete_files (take (length files + 1 - limit) files) m)"
proof (induction files arbitrary: m)
  case Nil
  then show ?case by (simp add: evict.simps)
next
  case (Cons f fs)
  show ?case
  proof (cases "length (f # fs) < limit")
    case False
    then have "length (f # fs) + 1 - limit = Suc (length fs + 1 - limit)" by simp
    with False Cons show ?thesis by (simp add: evict.simps [of limit "f # fs"] del: evict.simps)
  qed (simp add: evict.simps)
qed

lemma put_names: "fst ` set (smap_put (<) k v m) = insert k (fst ` set (m :: (string \<times> 'v) list))"
proof (induction m)
  case (Cons e m)
  obtain k' v' where "e = (k', v')" by fastforce
  with Cons show ?case by (cases rule: linorder_cases [of k k']) (simp_all add: insert_commute)
qed simp

lemma replay_loop_result:
  assumes "string_order.wf_map (mt_files m)" "distinct files" "replay_loop answers files m = (m', sent)"
  shows "m' = delete_files (take (length sent) files) m \<and> sent = map (\<lambda>f. the (smap_get (<) f (mt_files m))) (take (length sent) files)
    \<and> length sent = length (takeWhile (\<lambda>a. a) (take (length files) answers))"
  using assms
proof (induction answers files m arbitrary: m' sent rule: replay_loop.induct)
  case (3 posted answers f fs m)
  show ?case
  proof (cases posted)
    case True
    define m1 where "m1 = m\<lparr>mt_files := smap_del (<) f (mt_files m)\<rparr>"
    obtain m2 rest where run: "replay_loop answers fs m1 = (m2, rest)" by (meson surj_pair)
    have res: "m' = m2" "sent = the (smap_get (<) f (mt_files m)) # rest"
      using "3.prems"(3) run True by (simp_all add: m1_def)
    have wf: "string_order.wf_map (mt_files m1)" using "3.prems"(1) by (simp add: m1_def string_order.del_keeps_wf)
    have ih: "m2 = delete_files (take (length rest) fs) m1 \<and> rest = map (\<lambda>f. the (smap_get (<) f (mt_files m1))) (take (length rest) fs)
        \<and> length rest = length (takeWhile (\<lambda>a. a) (take (length fs) answers))"
      using True wf run "3.prems"(2) by (intro "3.IH" [folded m1_def]) simp_all
    have "smap_get (<) g (mt_files m1) = smap_get (<) g (mt_files m)" if "g \<in> set fs" for g
    proof -
      have "f \<noteq> g" using that "3.prems"(2) by auto
      then show ?thesis using string_order.get_del_other [of f g "mt_files m"] "3.prems"(1) by (simp add: m1_def)
    qed
    then have same: "map (\<lambda>f. the (smap_get (<) f (mt_files m1))) (take n fs) = map (\<lambda>f. the (smap_get (<) f (mt_files m))) (take n fs)" for n
      by (intro map_cong) (auto dest: in_set_takeD)
    define n where "n = length rest"
    have "m2 = delete_files (take n fs) m1" "rest = map (\<lambda>f. the (smap_get (<) f (mt_files m))) (take n fs)"
      "n = length (takeWhile (\<lambda>a. a) (take (length fs) answers))"
      using ih unfolding same n_def by blast+
    then show ?thesis
      using True n_def unfolding res by (simp add: m1_def)
  qed (use "3.prems" in simp)
qed simp_all

section \<open>What the registry and the cache guarantee\<close>


definition nat_floats :: "nat metric_floats" where
  "nat_floats = \<lparr>mf_lit = (\<lambda>n. n), mf_unsigned = unat, mf_add = (+), mf_less = (<)\<rparr>"

definition sample_measurements :: "nat measurement list" where
  "sample_measurements = [Measure True 7 ''t'' 3 [] [] ''ms'' True, Count True 8 ''c'' 1 [] [] [] True, Measure False 8 ''t'' 4 [] [] ''ms'' True,
     Measure True 9 ''t'' 5 [] [] ''ms'' True]"



definition sample_cached :: "nat metrics" where
  "sample_cached = (metrics_new [(''1.otlp.json'', ''a''), (''2.otlp.json'', ''b'')])\<lparr>mt_options := MetricsOptions_default\<lparr>mo_offlineCacheMaximumFiles := 2\<rparr>\<rparr>"


section \<open>What the registry does not mean to do\<close>

text \<open>Names and values of attributes are joined without escaping: different attributes can give the same series.\<close>

lemma series_ambiguous: "seriesKey ''m'' [(''b=c'', ''d'')] = seriesKey ''m'' [(''b'', ''c=d'')]"
  by (simp add: seriesKey_def)

text \<open>A histogram recorded under the name and attributes of a counter goes into the point of the counter.\<close>

lemma kinds_mixed:
  "mp_kind (point_of F [Count True now name v attrs description unt sdk, Measure True now' name w attrs description' unt' sdk']) = Kcounter"
  by (simp add: count_point_def histogram_point_def MetricPoint_new_def Let_def)

text \<open>A value equal to a bound is counted above it, where OTLP counts it below.\<close>

lemma bound_counted_above: "bucket nat_floats (bounds nat_floats) 5 = 2"
  by (simp add: bucket_def bounds_def nat_floats_def)

text \<open>Without room for a single file the loop that makes room reads the first element of an empty vector.\<close>

lemma evict_without_limit: "evict 0 files m = None"
  by (induction files arbitrary: m) (simp_all add: evict.simps)

text \<open>Measurements are counted as dropped series: one series that is rejected twice counts twice.\<close>

lemma dropped_counts_measurements:
  assumes "map_of (mt_points m) key = None" "mo_maximumSeries (mt_options m) \<le> length (mt_points m)"
  shows "mt_droppedSeries (fst (addSeries key p (fst (addSeries key p m)))) = mt_droppedSeries m + 2"
  using assms by (simp add: addSeries_def)

end
