(* ===== verification/Spec2Isabelle.thy ===== *)
theory Spec2Isabelle
  imports OSP_Version OSP_Properties OSP_Tokens OSP_Glob OSP_Query OSP_Services OSP_Manifest OSP_Bundles
    OSP_Resolution OSP_Lifecycle Reliability Workflow Modbus ModbusDevice XBee XBee_Sample CAN Device_Facts Security
    Configuration_Facts Gateway Persistence Subprocess BundleManager TraceStore Web_Extension Web_Event_Facts Metrics
begin

text \<open>
  This library models and verifies the core of PocoDDSRuntime: the OSP service framework (bundles,
  services and the query language between them), the industrial protocol clients with a device on top,
  the web server bundles publish their pages with, the workflow engine and the small runtime libraries the
  subsystems share. All paths are below \<open>src/\<close>.

  \<^bold>\<open>The parts and how they interact.\<close> A bundle carries a manifest. The bundle loader reads it, resolves
  what the bundle requires against the other bundles, using versions and version ranges, starts bundles in
  dependency order and stops them in reverse. An active bundle registers services with properties in the
  service registry; other bundles look them up with query expressions or attach listeners that follow the
  registry. Applications run workflows of compensable steps guarded by reliability primitives. Devices
  talk to hardware through the protocol clients, record failures in the form of the reliability library
  and report their state. The configuration validator checks the settings before anything starts; the
  device gateway then builds the configured devices, bridges them to DDS and registers them as services. The
  bundle manager reloads the bundles when the repository has changed, and the subprocess manager runs the
  configured child processes. The management interface authenticates its callers with bearer tokens. Bundles
  register directories, request handlers and filters with the web server's extension points; the dispatcher
  maps a request to the bundle that owns the path, checks the permission of the caller (password, token or
  session) and serves it, and forgets everything of a bundle that stops.

  \<^bold>\<open>Which theory models what.\<close>
  \<^item> \<open>Prelude\<close>: exceptions as the datatype \<open>exc\<close> and results \<open>'a res\<close>, character classes and scanning loops,
    decimal numerals, list, map and word facts, the locale \<open>strict_weak_order\<close> of \<open>std::map\<close> comparators.
  \<^item> \<open>OSP_Version\<close>: \<open>Version.cpp\<close>, \<open>VersionRange.cpp\<close>. Comparison is a total preorder (locale \<open>version_order\<close>),
    printing and parsing are inverse, a range holds the versions between its bounds.
  \<^item> \<open>OSP_Properties\<close>: \<open>Properties.cpp\<close>, a map with a case-insensitive comparator and typed accessors.
  \<^item> \<open>OSP_Tokens\<close>, \<open>OSP_Glob\<close>, \<open>OSP_Query\<close>: \<open>QLTokens.cpp\<close>, \<open>QLExpr.cpp\<close>, \<open>QLParser.cpp\<close>. The glob matcher decides
    the language of its pattern; the parser always returns and inverts printing; evaluation gives the truth
    value an expression stands for.
  \<^item> \<open>OSP_Services\<close>: \<open>ServiceRegistry.cpp\<close>, \<open>ServiceRef.cpp\<close>, \<open>ServiceListener.cpp\<close>. Objects live in stores, and a
    step relation gives the reachable states: in each of them a listener holds exactly the registered services
    that match its query. The interleaving the released lock allows is a theorem of its own.
  \<^item> \<open>OSP_Manifest\<close>: \<open>BundleManifest.cpp\<close>. The two list parsers share the locale \<open>item_parser\<close>; they invert
    printing, and as many iterations as there are characters decide whether they end.
  \<^item> \<open>OSP_Bundles\<close>: \<open>Bundle.cpp\<close>, \<open>BundleLoader.cpp\<close> as functions on a heap of bundles; \<open>OSP_Resolution\<close> and
    \<open>OSP_Lifecycle\<close> hold the proofs. The mutually recursive \<open>Bundle::resolve\<close> and \<open>BundleLoader::resolveBundle\<close>
    (and \<open>start\<close> with \<open>startBundle\<close>) are connected by the locales \<open>resolver\<close> and \<open>starter\<close>: the contract of the
    inner call, under which each level of the recursion keeps the same contract.
  \<^item> \<open>Reliability\<close>: \<open>Reliability.h\<close>. The locale \<open>simulation\<close> is the forward simulation between a specification
    and an implementation; the bounded queue with its waiting threads and the idempotency window are its
    interpretations. No notification is lost.
  \<^item> \<open>Workflow\<close>: \<open>Application.h\<close>. Compensation undoes exactly the completed steps, last first.
  \<^item> \<open>Protocol_IO\<close>, \<open>Modbus\<close>: \<open>ModbusTcpCodec.cpp\<close>, \<open>ModbusTcpClient.cpp\<close>. The receive stream stays aligned
    with frames whatever the socket does, and a read returns the registers the peer sent.
  \<^item> \<open>ModbusDevice\<close>: \<open>ModbusRegisterDevice.cpp\<close>, \<open>Device.h\<close>. The state reported is that of the connection; a write
    is never repeated and a read at most as often as configured.
  \<^item> \<open>XBee\<close>, \<open>XBee_Sample\<close>: \<open>XBeeFrame.cpp\<close>, \<open>XBeePort.cpp\<close>, \<open>IoSample.cpp\<close>. Frames survive encoding, escaping
    and being cut into serial chunks; the last section of this theory takes a sample through all three.
  \<^item> \<open>CAN\<close>: \<open>SignalCodec.cpp\<close>, \<open>LoopbackCanEndpoint.cpp\<close>. Which signals are decoded exactly, and which pass the
    length check and read past the array.
  \<^item> \<open>Device_Core\<close>: what the devices with a receive thread repeat (\<open>start\<close>, \<open>stop\<close>, \<open>run\<close>). The locale
    \<open>transport_laws\<close> is the contract of a channel, \<open>monitored_device\<close> that of a device on it, under which
    the invariant of the states is proved once.
  \<^item> \<open>Sensors\<close>: \<open>CanSignalSensor.cpp\<close>, \<open>XBeeAnalogSensor.cpp\<close>; \<open>Gnss\<close>: \<open>NmeaGnssDevice.cpp\<close>; \<open>Serial_Device\<close>:
    \<open>SerialPortDevice.cpp\<close>, \<open>LoopbackSerialChannel.cpp\<close>, \<open>SerialChannel.cpp\<close>. Each device is a sublocale of
    \<open>monitored_device\<close>, each channel of the repository an interpretation of its contract. \<open>Gnss_Facts\<close>: lines
    do not depend on the reads, the checksum finds a corrupted character, printed sentences are understood.
    \<open>Device_Facts\<close>: states agree with channels, data is fresh, sensors recover.
  \<^item> \<open>Std_Parse\<close>: the number parsers of the C++ library that several components use.
  \<^item> \<open>Configuration\<close>: \<open>IndexedConfiguration.cpp\<close>, \<open>ConfigurationValidator.cpp\<close>. \<open>Configuration_Facts\<close>: what a
    configuration without issues guarantees.
  \<^item> \<open>Gateway\<close>: \<open>DeviceGateway/src/BundleActivator.cpp\<close>. Its tables agree however a start ends, a validated
    configuration starts completely when the libraries work, and one that passes the validator but not a
    constructor is shown.
  \<^item> \<open>Security\<close>: \<open>PrincipalStore.cpp\<close>. Who is authenticated by which header, and what a reload does.
  \<^item> \<open>Subprocess\<close>: \<open>SubprocessManager.cpp\<close>. No launched process is lost, whatever is thrown in between.
  \<^item> \<open>BundleManager\<close>: \<open>BundleManager.cpp\<close>. When the bundles are reloaded, on top of the bundle loader.
  \<^item> \<open>TraceStore\<close>: \<open>TraceStore.cpp\<close>. The bounded store of spans and the exact summary of each trace.
  \<^item> \<open>Metrics\<close>: \<open>Metrics.cpp\<close>. Every accepted series is the exact summary of its measurements, and the cache of
    payloads that could not be exported stays within its limit.
  \<^item> \<open>Persistence\<close>: \<open>Persistence.h\<close>, \<open>Health.h\<close>. Which migrations run, and how reports are aggregated.

  \<^item> \<open>Web_Paths\<close>: the table of virtual paths of \<open>WebServerDispatcher.cpp\<close> (\<open>addVirtualPath\<close>, \<open>removeVirtualPath\<close>,
    \<open>removeBundle\<close>, \<open>mapPath\<close>, \<open>cleanPath\<close>). The neighbouring entries the code compares are enough to protect a
    path against everything above and below it.
  \<^item> \<open>Web_Session\<close>: \<open>WebSession.cpp\<close>, \<open>WebSessionManager.cpp\<close> on a heap of sessions. The expiring cache and the
    store are the locales \<open>cache_laws\<close> and \<open>store_laws\<close>; a session is handed only to the client it belongs to.
  \<^item> \<open>Web_Resources\<close>: \<open>MediaTypeMapper.cpp\<close>, the resource cache, the escaping of texts and the selection of
    process logs. The cache cannot be told from the bundles, and only log files are read.
  \<^item> \<open>Web_Dispatcher\<close>: authorization, CORS, error responses, static resources and \<open>handleRequest\<close>; \<open>Web_Access\<close>
    states who may be served (\<open>granted\<close>) without the control flow of the code and proves that nobody else is,
    and that every request is answered.
  \<^item> \<open>Web_Extension\<close>: \<open>WebServerExtensionPoint.cpp\<close>, \<open>WebFilterExtensionPoint.cpp\<close> and the settings that
    \<open>WebBundleActivator.cpp\<close> reads. The protection an extension asks for is the protection it gets.
  \<^item> \<open>Web_Event\<close>, \<open>Web_Event_Facts\<close>: \<open>WebEventServiceImpl.cpp\<close>, \<open>WebEventRequestHandler.cpp\<close>. Threads that exchange
    tasks through two queues, interleaved by a step relation; subscriptions refine a map from sockets to subjects.

  \<^bold>\<open>Conventions.\<close> A C++ exception is a value \<open>Inl\<close>; an operation that changes an object returns the changed
  record also when it throws, as far as it got. Machine integers are words, or \<open>int\<close> with the overflow as
  the error \<open>SignedOverflow\<close>. Code outside the repository (Poco Foundation and Net, the dynamic linker,
  activators, steps of workflows) is a record of functions or an argument, and what a theorem needs of it is
  a named predicate with an instance among the witnesses. A method that holds its object's mutex is one step;
  where the lock is given up in the middle the parts are separate definitions. Doubles are an abstract type
  with the operations the code uses (record \<open>floats\<close>); clocks are functions of the number of the reading.

  \<^bold>\<open>Fuel.\<close> The query parser starts with \<open>4 * length ts + 4\<close>, shown to be enough for every input. The list
  parsers of the manifest count iterations; as many as there are characters decide whether they end. The depth
  of \<open>resolve\<close> and \<open>start\<close> is bounded by the number of loaded bundles when no bundle extends another; a bundle
  that extends itself needs more than any fuel, which is a theorem. \<open>sortBundles\<close> counts passes: as many
  as there are bundles are enough unless a recorded dependency is gone, when no number is.

  \<^bold>\<open>Not modelled.\<close> Code that is mostly floating-point arithmetic (\<open>RetryPolicy::delayFor\<close>, \<open>platform/Geo\<close>): the
  library theories used here have no IEEE arithmetic. Code that is mostly calls into the operating system or Poco
  (bundle storage and code cache, WebTunnel, MQTT, ROS and UDP clients, the SQL history of
  traces, system monitoring, extension points that walk an XML document, preferences that forward to Poco
  configurations), generated code and the code generator, the DDS adapter, and the metrics calls inside modelled
  functions. Of the web server the text of the access log and the body of the topology page are left out:
  they print what the operating system reports.
\<close>

section \<open>An IO sample from the device to the application\<close>

text \<open>
  C27: An IO sample that a device sends as a Zigbee frame arrives at the application as it was sent: from
  the bytes of the frame, cut into serial chunks anywhere and escaped or not, one pass of the sensor's loop
  takes the frame off the port, decodes the sample and leaves the sensor ready, with the conversion of the
  value of its channel and without an active failure.
\<close>

theorem xbee_sample_end_to_end:
  assumes "length address = 8"
    and "f = \<lparr>xf_type = ft_zigbeeIoSample, xf_data = sample_bytes address network options dm am ds val\<rparr>"
    and "concat cs = encode (xp_escapedApiMode p) f" and "serial_chunks cs"
    and "dc_channel s = \<lparr>xl_port = XBeePort_open p, xl_reads = map Inr cs, xl_open = True\<rparr>" and "dc_running s" and "dc_thread s"
    and "big_endian address = of_int (xo_sourceAddress (xs_options s))"
    and "xo_analogChannel (xs_options s) < 8" and "bit am (xo_analogChannel (xs_options s))"
    and "tm_steady (clock (dc_readings s + 1)) - tm_steady (clock (dc_readings s)) < int (rp_staleAfter (dc_policy s)) * 1000000"
  shows "let s' = xbee_run (xbee_port name) what F clock s in
    dc_state s' = Dready \<and> xs_value s' = convert F (val (xo_analogChannel (xs_options s))) s \<and> \<not> f_active (dc_failure s')"
  using assms by (rule xbee_pass_sample)

theorem xbee_sample_end_to_end_witness:
  "xs_value (xbee_run (xbee_port ''x'') (\<lambda>_. ''error'') int_floats sample_clock started_xbee) = 700"
proof -
  have "convert int_floats 700 started_xbee = 700"
    by (simp add: convert_def int_floats_def started_xbee sample_xbee_options_def Let_def)
  then show ?thesis
    using xbee_sample_end_to_end [where s = started_xbee and p = "\<lparr>xp_escapedApiMode = True, xp_receiveBuffer = []\<rparr>"
        and F = int_floats and name = "''x''" and what = "\<lambda>_. ''error''",
        OF _ refl _ sample_chunks(1) started_xbee(1-3) sample_address started_xbee_channel started_xbee_age]
    by (simp add: sample_chunks(2) Let_def)
qed

end
